(* ===== verification/Prelude.thy ===== *)
theory Prelude
  imports Main "HOL-Library.AList" "HOL-Library.List_Lexorder" "HOL-Library.Char_ord"
    "HOL-Library.Product_Lexorder"
begin

text \<open>
  What every component shares: the Python string operations the source uses (on
  \<^typ>\<open>string\<close>, one character per code point, ASCII case rules), sorting and
  dictionaries as association lists in insertion order, and the collections of
  simplification rules the component proofs are built from.

  Python's \<open>str\<close> order is the lexicographic order of code points, which is the order
  of \<^theory_text>\<open>HOL-Library.List_Lexorder\<close> over \<^theory_text>\<open>HOL-Library.Char_ord\<close>, so \<open>sorted\<close>
  is \<^const>\<open>sort\<close>.
\<close>

named_theorems io_simps \<open>one-step rules of the effect monad\<close>
named_theorems fs_simps \<open>what a file-system operation does to a lookup\<close>
named_theorems text_simps \<open>evaluation of the string operations\<close>

section \<open>Characters\<close>

definition between :: "char \<Rightarrow> char \<Rightarrow> char \<Rightarrow> bool" where
  "between lo hi c \<longleftrightarrow> of_char lo \<le> (of_char c :: nat) \<and> (of_char c :: nat) \<le> of_char hi"

definition is_digit :: "char \<Rightarrow> bool" where
  "is_digit c \<longleftrightarrow> between CHR ''0'' CHR ''9'' c"

definition is_lower :: "char \<Rightarrow> bool" where
  "is_lower c \<longleftrightarrow> between CHR ''a'' CHR ''z'' c"

definition is_upper :: "char \<Rightarrow> bool" where
  "is_upper c \<longleftrightarrow> between CHR ''A'' CHR ''Z'' c"

text \<open>The class \<open>[a-z0-9]\<close> of the identifier patterns, and \<open>[0-9a-f]\<close> of the digests.\<close>

definition is_slug_char :: "char \<Rightarrow> bool" where
  "is_slug_char c \<longleftrightarrow> is_lower c \<or> is_digit c"

definition is_hex_char :: "char \<Rightarrow> bool" where
  "is_hex_char c \<longleftrightarrow> is_digit c \<or> between CHR ''a'' CHR ''f'' c"

definition is_alnum :: "char \<Rightarrow> bool" where
  "is_alnum c \<longleftrightarrow> is_lower c \<or> is_upper c \<or> is_digit c"

text \<open>\<open>str.isspace\<close> below code point 256.\<close>

definition is_space :: "char \<Rightarrow> bool" where
  "is_space c \<longleftrightarrow>
     (let n = of_char c :: nat in
      (9 \<le> n \<and> n \<le> 13) \<or> (28 \<le> n \<and> n \<le> 32) \<or> n = 133 \<or> n = 160)"

text \<open>\<open>str.lower\<close>, \<open>str.upper\<close> and \<open>str.casefold\<close> on ASCII.\<close>

definition lower_char :: "char \<Rightarrow> char" where
  "lower_char c = (if is_upper c then char_of ((of_char c :: nat) + 32) else c)"

definition upper_char :: "char \<Rightarrow> char" where
  "upper_char c = (if is_lower c then char_of ((of_char c :: nat) - 32) else c)"

definition casefold :: "string \<Rightarrow> string" where
  "casefold s = map lower_char s"

definition upper :: "string \<Rightarrow> string" where
  "upper s = map upper_char s"

lemmas char_defs =
  between_def is_digit_def is_lower_def is_upper_def is_slug_char_def is_hex_char_def
  is_alnum_def is_space_def Let_def

lemma slug_char_simps [simp]:
  "\<not> is_slug_char CHR ''/''" "\<not> is_slug_char CHR ''.''" "\<not> is_slug_char CHR ''-''"
  "\<not> is_slug_char CHR 0x0A" "\<not> is_slug_char CHR ''_''" "\<not> is_slug_char CHR '' ''"
  by (simp_all add: char_defs)

lemma hex_char_simps [simp]:
  "\<not> is_hex_char CHR ''/''" "\<not> is_hex_char CHR ''.''" "\<not> is_hex_char CHR ''-''"
  by (simp_all add: char_defs)

lemma alnum_simps [simp]:
  "\<not> is_alnum CHR ''/''" "\<not> is_alnum CHR ''.''" "\<not> is_alnum CHR 0x5C"
  by (simp_all add: char_defs)

section \<open>Strings\<close>

definition lstrip :: "string \<Rightarrow> string" where
  "lstrip s = dropWhile is_space s"

definition rstrip :: "string \<Rightarrow> string" where
  "rstrip s = rev (dropWhile is_space (rev s))"

definition strip :: "string \<Rightarrow> string" where
  "strip s = rstrip (lstrip s)"

text \<open>\<open>s.strip(chars)\<close> for a set of characters.\<close>

definition strip_chars :: "char set \<Rightarrow> string \<Rightarrow> string" where
  "strip_chars cs s = rev (dropWhile (\<lambda>c. c \<in> cs) (rev (dropWhile (\<lambda>c. c \<in> cs) s)))"

definition startswith :: "string \<Rightarrow> string \<Rightarrow> bool" where
  "startswith s p \<longleftrightarrow> take (length p) s = p"

definition endswith :: "string \<Rightarrow> string \<Rightarrow> bool" where
  "endswith s p \<longleftrightarrow> length p \<le> length s \<and> drop (length s - length p) s = p"

text \<open>\<open>s.split(sep)\<close> for a one-character separator.\<close>

fun split_on :: "char \<Rightarrow> string \<Rightarrow> string list" where
  "split_on sep [] = [[]]"
| "split_on sep (c # cs) =
     (if c = sep then [] # split_on sep cs
      else (case split_on sep cs of [] \<Rightarrow> [[c]] | w # ws \<Rightarrow> (c # w) # ws))"

text \<open>\<open>s.split(sep, 1)\<close> where \<open>sep\<close> occurs, \<^const>\<open>None\<close> where it does not.\<close>

fun split_once :: "string \<Rightarrow> string \<Rightarrow> (string \<times> string) option" where
  "split_once sep [] = (if sep = [] then Some ([], []) else None)"
| "split_once sep (c # cs) =
     (if startswith (c # cs) sep then Some ([], drop (length sep) (c # cs))
      else map_option (\<lambda>(a, b). (c # a, b)) (split_once sep cs))"

definition contains :: "string \<Rightarrow> string \<Rightarrow> bool" where
  "contains s sub \<longleftrightarrow> split_once sub s \<noteq> None"

text \<open>
  \<open>str.splitlines\<close>: line feed, carriage return (with a following line feed), vertical
  tab, form feed, the three separators 28 to 30 and 133; no empty last line.
\<close>

definition is_line_break :: "char \<Rightarrow> bool" where
  "is_line_break c \<longleftrightarrow>
     (let n = of_char c :: nat in (10 \<le> n \<and> n \<le> 13) \<or> (28 \<le> n \<and> n \<le> 30) \<or> n = 133)"

fun splitlines_from :: "string \<Rightarrow> string \<Rightarrow> string list" where
  "splitlines_from acc [] = (if acc = [] then [] else [rev acc])"
| "splitlines_from acc [c] =
     (if is_line_break c then [rev acc] else [rev (c # acc)])"
| "splitlines_from acc (c # d # cs) =
     (if c = CHR 0x0D \<and> d = CHR 0x0A then rev acc # splitlines_from [] cs
      else if is_line_break c then rev acc # splitlines_from [] (d # cs)
      else splitlines_from (c # acc) (d # cs))"

definition splitlines :: "string \<Rightarrow> string list" where
  "splitlines s = splitlines_from [] s"

fun join :: "string \<Rightarrow> string list \<Rightarrow> string" where
  "join sep [] = []"
| "join sep [s] = s"
| "join sep (s # t # ss) = s @ sep @ join sep (t # ss)"

text \<open>Decimal digits: \<open>str.isdigit\<close>, \<open>int\<close> on a digit string, and \<open>str\<close> of an integer.\<close>

definition isdigit :: "string \<Rightarrow> bool" where
  "isdigit s \<longleftrightarrow> s \<noteq> [] \<and> list_all is_digit s"

definition digit_val :: "char \<Rightarrow> nat" where
  "digit_val c = of_char c - 48"

definition nat_of_digits :: "string \<Rightarrow> nat" where
  "nat_of_digits s = foldl (\<lambda>n c. 10 * n + digit_val c) 0 s"

fun show_nat :: "nat \<Rightarrow> string" where
  "show_nat n = (if n < 10 then [char_of (48 + n)]
                 else show_nat (n div 10) @ [char_of (48 + n mod 10)])"

declare show_nat.simps [simp del]

definition show_int :: "int \<Rightarrow> string" where
  "show_int i = (if i < 0 then CHR ''-'' # show_nat (nat (- i)) else show_nat (nat i))"

text \<open>
  UTF-8 on the code points of the model: one byte below 128, two bytes from 128 to 255. A
  decoder that meets anything else, a longer sequence included, gives \<^const>\<open>None\<close>.
\<close>

fun utf8_encode :: "string \<Rightarrow> string" where
  "utf8_encode [] = []"
| "utf8_encode (c # cs) =
     (let n = of_char c :: nat in
      if n < 128 then c # utf8_encode cs
      else char_of (192 + n div 64) # char_of (128 + n mod 64) # utf8_encode cs)"

fun utf8_decode :: "string \<Rightarrow> string option" where
  "utf8_decode [] = Some []"
| "utf8_decode (b # bs) =
     (let n = of_char b :: nat in
      if n < 128 then map_option (Cons b) (utf8_decode bs)
      else if n = 194 \<or> n = 195 then
        (case bs of
           b2 # bs' \<Rightarrow>
             let m = of_char b2 :: nat in
             if 128 \<le> m \<and> m < 192 then map_option (Cons (char_of ((n - 192) * 64 + (m - 128)))) (utf8_decode bs')
             else None
         | [] \<Rightarrow> None)
      else None)"

lemma utf8_roundtrip [simp]: "utf8_decode (utf8_encode s) = Some s"
proof (induction s)
  case Nil
  then show ?case by simp
next
  case (Cons c cs)
  let ?n = "of_char c :: nat"
  have lt: "?n < 256" by (metis of_char_mod_256 mod_less_divisor zero_less_numeral)
  show ?case
  proof (cases "?n < 128")
    case True
    with Cons show ?thesis by simp
  next
    case False
    define a where "a = ?n div 64"
    define b where "b = ?n mod 64"
    have ab: "a * 64 + b = ?n" and b: "b < 64" unfolding a_def b_def by simp_all
    with lt False have a: "a = 2 \<or> a = 3" by linarith
    have "char_of (a * 64 + b) = c" unfolding ab by (rule char_of_char)
    moreover have "utf8_encode (c # cs) = char_of (192 + a) # char_of (128 + b) # utf8_encode cs"
      using False by (simp add: a_def b_def Let_def)
    moreover have "of_char (char_of (192 + a) :: char) = 192 + a" "of_char (char_of (128 + b) :: char) = 128 + b"
      using a b by auto
    ultimately show ?thesis using a b Cons by (simp add: Let_def)
  qed
qed

lemma utf8_encode_inject [simp]: "utf8_encode s = utf8_encode t \<longleftrightarrow> s = t"
  by (metis option.inject utf8_roundtrip)

section \<open>The identifier patterns\<close>

text \<open>
  \<open>^[a-z0-9]+(?:-[a-z0-9]+)*$\<close> with \<open>fullmatch\<close>: the hyphen-separated parts are
  non-empty and drawn from \<open>[a-z0-9]\<close>.
\<close>

definition slug_fullmatch :: "string \<Rightarrow> bool" where
  "slug_fullmatch s \<longleftrightarrow> list_all (\<lambda>p. p \<noteq> [] \<and> list_all is_slug_char p) (split_on CHR ''-'' s)"

text \<open>
  The same pattern with \<open>re.match\<close>: \<open>$\<close> also matches just before a newline that ends
  the string.
\<close>

definition slug_match :: "string \<Rightarrow> bool" where
  "slug_match s \<longleftrightarrow>
     slug_fullmatch s \<or> (s \<noteq> [] \<and> last s = CHR 0x0A \<and> slug_fullmatch (butlast s))"

text \<open>\<open>^[0-9a-f]{64}$\<close> with \<open>fullmatch\<close>.\<close>

definition hex64 :: "string \<Rightarrow> bool" where
  "hex64 s \<longleftrightarrow> length s = 64 \<and> list_all is_hex_char s"

lemma split_on_not_Nil [simp]: "split_on sep s \<noteq> []"
  by (induction s) (auto split: list.splits)

lemma split_on_concat_chars:
  "set s = (\<Union>w\<in>set (split_on sep s). set w) \<union> (if 1 < length (split_on sep s) then {sep} else {})"
proof (induction s)
  case Nil
  then show ?case by simp
next
  case (Cons c cs)
  obtain w ws where "split_on sep cs = w # ws"
    by (cases "split_on sep cs") auto
  with Cons show ?case by (cases ws) auto
qed

lemma split_on_no_sep: "w \<in> set (split_on sep s) \<Longrightarrow> sep \<notin> set w"
proof (induction s arbitrary: w)
  case Nil
  then show ?case by simp
next
  case (Cons c cs)
  obtain v vs where v: "split_on sep cs = v # vs"
    by (cases "split_on sep cs") auto
  with Cons show ?case by (auto split: if_splits)
qed

lemma split_on_id: "sep \<notin> set s \<Longrightarrow> split_on sep s = [s]"
  by (induction s) auto

lemma slug_fullmatch_chars:
  "slug_fullmatch s \<Longrightarrow> c \<in> set s \<Longrightarrow> is_slug_char c \<or> c = CHR ''-''"
  using split_on_concat_chars [of s "CHR ''-''"]
  by (auto simp: slug_fullmatch_def list_all_iff split: if_splits)

lemma slug_fullmatch_not_Nil: "slug_fullmatch s \<Longrightarrow> s \<noteq> []"
  by (auto simp: slug_fullmatch_def)

lemma slug_fullmatch_safe:
  "slug_fullmatch s \<Longrightarrow> CHR ''/'' \<notin> set s \<and> CHR ''.'' \<notin> set s"
  using slug_fullmatch_chars [of s] by force

section \<open>Dictionaries in insertion order\<close>

text \<open>
  A Python \<open>dict\<close> is an association list: \<^const>\<open>map_of\<close> reads, \<^const>\<open>AList.update\<close>
  writes (in place when the key is there, at the end otherwise, as Python does),
  \<^const>\<open>AList.delete\<close> removes.
\<close>

lemmas dict_simps [simp] = update_conv' delete_conv'

definition dict_update :: "('k \<times> 'v) list \<Rightarrow> ('k \<times> 'v) list \<Rightarrow> ('k \<times> 'v) list" where
  "dict_update d new = fold (\<lambda>(k, v). AList.update k v) new d"

lemma distinct_keys_update [simp]:
  "distinct (map fst d) \<Longrightarrow> distinct (map fst (AList.update k v d))"
  by (rule distinct_update)

lemma distinct_keys_delete [simp]:
  "distinct (map fst d) \<Longrightarrow> distinct (map fst (AList.delete k d))"
  by (rule distinct_delete)

lemma distinct_keys_dict_update:
  "distinct (map fst d) \<Longrightarrow> distinct (map fst (dict_update d new))"
  unfolding dict_update_def by (induction new arbitrary: d) auto

lemma map_of_dict_update:
  "distinct (map fst new) \<Longrightarrow> map_of (dict_update d new) = map_of d ++ map_of new"
proof (unfold dict_update_def, induction new arbitrary: d)
  case Nil
  then show ?case by simp
next
  case (Cons kv new)
  obtain k v where kv: "kv = (k, v)" by (cases kv)
  with Cons.prems have fresh: "map_of new k = None" and dist: "distinct (map fst new)"
    by (auto simp: map_of_eq_None_iff)
  have "map_of (fold (\<lambda>(k, v). AList.update k v) new (AList.update k v d))
    = map_of (AList.update k v d) ++ map_of new"
    by (rule Cons.IH [OF dist])
  with fresh kv show ?case
    by (auto simp: map_add_def fun_eq_iff split: option.splits)
qed

lemma set_dict_update_keys:
  "fst ` set (dict_update d new) = fst ` set d \<union> fst ` set new"
  unfolding dict_update_def
  by (induction new arbitrary: d) (auto simp: dom_update dom_map_of_conv_image_fst [symmetric])

lemma set_alist_update: "set (AList.update k v d) \<subseteq> insert (k, v) (set d)"
  by (induction d) auto

lemma set_dict_update: "set (dict_update d new) \<subseteq> set d \<union> set new"
proof (unfold dict_update_def, induction new arbitrary: d)
  case Nil
  then show ?case by simp
next
  case (Cons kv new)
  obtain k v where kv: "kv = (k, v)" by (cases kv)
  show ?case using Cons.IH [of "AList.update k v d"] set_alist_update [of k v d] kv by auto
qed

section \<open>Lists\<close>

text \<open>\<open>sorted(set(xs))\<close>: the distinct elements in order.\<close>

definition sorted_set :: "'a::linorder list \<Rightarrow> 'a list" where
  "sorted_set xs = sort (remdups xs)"

lemma set_sorted_set [simp]: "set (sorted_set xs) = set xs"
  by (simp add: sorted_set_def)

lemma distinct_sorted_set [simp]: "distinct (sorted_set xs)"
  by (simp add: sorted_set_def)

lemma sorted_sorted_set [simp]: "sorted (sorted_set xs)"
  by (simp add: sorted_set_def)

lemma sorted_set_cong: "set xs = set ys \<Longrightarrow> sorted_set xs = sorted_set ys"
  unfolding sorted_set_def
  by (rule sorted_distinct_set_unique) simp_all

end
