(* ===== verification/Effects.thy ===== *)
theory Effects
  imports Prelude
begin

text \<open>
  Errors and effects. Python exceptions are values of \<open>exn\<close>; a pure fallible function
  returns \<open>exn + 'a\<close>; a function with side effects maps a state to such a result and
  the state it leaves behind, so what a function did before it raised is not lost. A
  process that dies is the outcome \<open>Crashed\<close>, which no handler and no \<open>finally\<close> sees.

  Models \<^verbatim>\<open>agency/configuration/issues.py\<close>.
\<close>

section \<open>Validation issues and exceptions\<close>

record validation_issue =
  iss_code :: string
  iss_scope :: string
  iss_field :: string
  iss_message :: string
  iss_hint :: string

text \<open>The sort key of the issue lists: scope, field, code, message.\<close>

definition issue_key :: "validation_issue \<Rightarrow> string \<times> string \<times> string \<times> string" where
  "issue_key i = (iss_scope i, iss_field i, iss_code i, iss_message i)"

datatype exc_class =
    CValueError | CTypeError | CKeyError | CRuntimeError | COSError | CFileNotFoundError
  | CFileExistsError | CNotADirectoryError | CIsADirectoryError | CPermissionError
  | CAttributeError | CUnicodeDecodeError | CYAMLError | CJSONDecodeError | CAssertionError
  | CInvalidJobTransition | CJobAuthorityError | CJobSubmissionError | CJobValidationError
  | CMemoryStoreError | CMemoryConflictError | CMemoryPublicationError
  | CMemoryPublicationConflictError | CPublicationCrash
  | CConfigConflictError | CValidationFailed | CAssetValidationError
  | CResourceBusyError | CLockCancelledError | CIntegrationError
  | CInstanceMoveConflict | CInstanceMoveRollbackError | COverflowError

datatype exn =
    Exn exc_class string
  | Invalid exc_class "validation_issue list"
  | Crashed

text \<open>The direct base class of each class that is not a direct child of \<open>Exception\<close>.\<close>

fun base_of :: "exc_class \<Rightarrow> exc_class option" where
  "base_of CFileNotFoundError = Some COSError"
| "base_of CFileExistsError = Some COSError"
| "base_of CNotADirectoryError = Some COSError"
| "base_of CIsADirectoryError = Some COSError"
| "base_of CPermissionError = Some COSError"
| "base_of CUnicodeDecodeError = Some CValueError"
| "base_of CJSONDecodeError = Some CValueError"
| "base_of CInvalidJobTransition = Some CRuntimeError"
| "base_of CJobAuthorityError = Some CValueError"
| "base_of CJobSubmissionError = Some CRuntimeError"
| "base_of CJobValidationError = Some CValueError"
| "base_of CMemoryStoreError = Some CValueError"
| "base_of CMemoryConflictError = Some CRuntimeError"
| "base_of CMemoryPublicationError = Some CRuntimeError"
| "base_of CMemoryPublicationConflictError = Some CMemoryPublicationError"
| "base_of CPublicationCrash = Some CRuntimeError"
| "base_of CConfigConflictError = Some CRuntimeError"
| "base_of CValidationFailed = Some CValueError"
| "base_of CAssetValidationError = Some CValidationFailed"
| "base_of CResourceBusyError = Some CRuntimeError"
| "base_of CLockCancelledError = Some CRuntimeError"
| "base_of CIntegrationError = Some CRuntimeError"
| "base_of CInstanceMoveConflict = Some CRuntimeError"
| "base_of CInstanceMoveRollbackError = Some CRuntimeError"
| "base_of _ = None"

text \<open>\<open>isinstance\<close> of an exception class: the hierarchy is at most three levels deep.\<close>

definition is_subclass :: "exc_class \<Rightarrow> exc_class \<Rightarrow> bool" where
  "is_subclass c d \<longleftrightarrow>
     c = d \<or> base_of c = Some d \<or> Option.bind (base_of c) base_of = Some d"

fun exn_class :: "exn \<Rightarrow> exc_class option" where
  "exn_class (Exn c _) = Some c"
| "exn_class (Invalid c _) = Some c"
| "exn_class Crashed = None"

text \<open>\<open>except (C1, C2, ...)\<close>\<close>

definition caught_by :: "exc_class list \<Rightarrow> exn \<Rightarrow> bool" where
  "caught_by cs e \<longleftrightarrow>
     (case exn_class e of None \<Rightarrow> False | Some c \<Rightarrow> list_ex (is_subclass c) cs)"

fun exn_text :: "exn \<Rightarrow> string" where
  "exn_text (Exn _ s) = s"
| "exn_text (Invalid _ issues) = join ''; '' (map iss_message issues)"
| "exn_text Crashed = []"

section \<open>Pure fallible functions\<close>

type_synonym 'a res = "exn + 'a"

definition bindR :: "'a res \<Rightarrow> ('a \<Rightarrow> 'b res) \<Rightarrow> 'b res" where
  "bindR m f = (case m of Inl e \<Rightarrow> Inl e | Inr x \<Rightarrow> f x)"

definition assertR :: "bool \<Rightarrow> exn \<Rightarrow> unit res" where
  "assertR b e = (if b then Inr () else Inl e)"

fun mapR :: "('a \<Rightarrow> 'b res) \<Rightarrow> 'a list \<Rightarrow> 'b list res" where
  "mapR f [] = Inr []"
| "mapR f (x # xs) = bindR (f x) (\<lambda>y. bindR (mapR f xs) (\<lambda>ys. Inr (y # ys)))"

fun foldR :: "('a \<Rightarrow> 's \<Rightarrow> 's res) \<Rightarrow> 'a list \<Rightarrow> 's \<Rightarrow> 's res" where
  "foldR f [] s = Inr s"
| "foldR f (x # xs) s = bindR (f x s) (foldR f xs)"

lemma bindR_simps [simp, io_simps]:
  "bindR (Inl e) f = Inl e" "bindR (Inr x) f = f x"
  by (simp_all add: bindR_def)

lemma bindR_Inr_iff: "bindR m f = Inr y \<longleftrightarrow> (\<exists>x. m = Inr x \<and> f x = Inr y)"
  by (cases m) auto

lemma bindR_Inl_iff:
  "bindR m f = Inl e \<longleftrightarrow> m = Inl e \<or> (\<exists>x. m = Inr x \<and> f x = Inl e)"
  by (cases m) auto

lemma assertR_Inr_iff [simp]: "assertR b e = Inr u \<longleftrightarrow> b"
  by (simp add: assertR_def)

lemma assertR_Inl_iff [simp]: "assertR b e = Inl e' \<longleftrightarrow> \<not> b \<and> e' = e"
  by (auto simp: assertR_def)

lemma assertR_simps [simp, io_simps]: "assertR True e = Inr ()" "assertR False e = Inl e"
  by (simp_all add: assertR_def)

section \<open>Functions with effects\<close>

type_synonym ('s, 'a) io = "'s \<Rightarrow> 'a res \<times> 's"

definition ret :: "'a \<Rightarrow> ('s, 'a) io" where
  "ret x s = (Inr x, s)"

definition raise :: "exn \<Rightarrow> ('s, 'a) io" where
  "raise e s = (Inl e, s)"

definition bindI :: "('s, 'a) io \<Rightarrow> ('a \<Rightarrow> ('s, 'b) io) \<Rightarrow> ('s, 'b) io" where
  "bindI m f s = (case m s of (Inl e, s') \<Rightarrow> (Inl e, s') | (Inr x, s') \<Rightarrow> f x s')"

definition thenI :: "('s, 'a) io \<Rightarrow> ('s, 'b) io \<Rightarrow> ('s, 'b) io" where
  "thenI m n = bindI m (\<lambda>_. n)"

definition liftR :: "'a res \<Rightarrow> ('s, 'a) io" where
  "liftR r s = (r, s)"

definition assertI :: "bool \<Rightarrow> exn \<Rightarrow> ('s, unit) io" where
  "assertI b e = liftR (assertR b e)"

definition get_st :: "('s, 's) io" where
  "get_st s = (Inr s, s)"

definition gets_st :: "('s \<Rightarrow> 'a) \<Rightarrow> ('s, 'a) io" where
  "gets_st f s = (Inr (f s), s)"

text \<open>
  \<open>try: m except Exception as e: h e\<close>; a handler for some classes re-raises the rest.
\<close>

definition tryI :: "('s, 'a) io \<Rightarrow> (exn \<Rightarrow> ('s, 'a) io) \<Rightarrow> ('s, 'a) io" where
  "tryI m h s = (case m s of
     (Inr x, s') \<Rightarrow> (Inr x, s')
   | (Inl e, s') \<Rightarrow> (if e = Crashed then (Inl e, s') else h e s'))"

definition try_only :: "exc_class list \<Rightarrow> ('s, 'a) io \<Rightarrow> (exn \<Rightarrow> ('s, 'a) io) \<Rightarrow> ('s, 'a) io" where
  "try_only cs m h = tryI m (\<lambda>e. if caught_by cs e then h e else raise e)"

text \<open>\<open>try: m finally: c\<close>: an exception of the clean-up replaces the one in flight.\<close>

definition finallyI :: "('s, 'a) io \<Rightarrow> ('s, unit) io \<Rightarrow> ('s, 'a) io" where
  "finallyI m c s = (case m s of
     (Inl Crashed, s') \<Rightarrow> (Inl Crashed, s')
   | (r, s') \<Rightarrow> (case c s' of (Inl e, s'') \<Rightarrow> (Inl e, s'') | (Inr _, s'') \<Rightarrow> (r, s'')))"

fun forI :: "('a \<Rightarrow> ('s, unit) io) \<Rightarrow> 'a list \<Rightarrow> ('s, unit) io" where
  "forI f [] = ret ()"
| "forI f (x # xs) = thenI (f x) (forI f xs)"

fun mapI :: "('a \<Rightarrow> ('s, 'b) io) \<Rightarrow> 'a list \<Rightarrow> ('s, 'b list) io" where
  "mapI f [] = ret []"
| "mapI f (x # xs) = bindI (f x) (\<lambda>y. bindI (mapI f xs) (\<lambda>ys. ret (y # ys)))"

definition whenI :: "bool \<Rightarrow> ('s, unit) io \<Rightarrow> ('s, unit) io" where
  "whenI b m = (if b then m else ret ())"

lemma io_apply [simp, io_simps]:
  "ret x s = (Inr x, s)" "raise e s = (Inl e, s)" "liftR r s = (r, s)"
  "get_st s = (Inr s, s)" "gets_st f s = (Inr (f s), s)"
  by (simp_all add: ret_def raise_def liftR_def get_st_def gets_st_def)

lemma bindI_apply [io_simps]:
  "bindI m f s = (case m s of (Inl e, s') \<Rightarrow> (Inl e, s') | (Inr x, s') \<Rightarrow> f x s')"
  by (simp add: bindI_def)

lemma bindI_Inr: "m s = (Inr x, s') \<Longrightarrow> bindI m f s = f x s'"
  by (simp add: bindI_def)

lemma bindI_Inl: "m s = (Inl e, s') \<Longrightarrow> bindI m f s = (Inl e, s')"
  by (simp add: bindI_def)

lemma bindI_Inr_iff:
  "bindI m f s = (Inr y, s'') \<longleftrightarrow> (\<exists>x s'. m s = (Inr x, s') \<and> f x s' = (Inr y, s''))"
  by (auto simp: bindI_def split: prod.splits sum.splits)

lemma bindI_Inl_iff:
  "bindI m f s = (Inl e, s'') \<longleftrightarrow>
     m s = (Inl e, s'') \<or> (\<exists>x s'. m s = (Inr x, s') \<and> f x s' = (Inl e, s''))"
  by (auto simp: bindI_def split: prod.splits sum.splits)

lemma bindI_ret [simp]: "bindI (ret x) f = f x"
  by (simp add: bindI_def fun_eq_iff)

lemma bindI_raise [simp]: "bindI (raise e) f = raise e"
  by (simp add: bindI_def fun_eq_iff)

lemma bindI_liftR [simp]: "bindI (liftR (Inr x)) f = f x" "bindI (liftR (Inl e)) f = raise e"
  by (simp_all add: bindI_def fun_eq_iff)

lemma bindI_gets [simp]: "bindI (gets_st g) f s = f (g s) s" "bindI get_st f s = f s s"
  by (simp_all add: bindI_def)

lemma bindI_assoc: "bindI (bindI m f) g = bindI m (\<lambda>x. bindI (f x) g)"
  by (auto simp: bindI_def fun_eq_iff split: prod.splits sum.splits)

lemma thenI_Inr_iff:
  "thenI m n s = (Inr y, s'') \<longleftrightarrow> (\<exists>x s'. m s = (Inr x, s') \<and> n s' = (Inr y, s''))"
  by (simp add: thenI_def bindI_Inr_iff)

lemma thenI_apply [io_simps]:
  "thenI m n s = (case m s of (Inl e, s') \<Rightarrow> (Inl e, s') | (Inr x, s') \<Rightarrow> n s')"
  by (simp add: thenI_def bindI_def)

lemma assertI_apply [simp, io_simps]:
  "assertI b e s = (if b then (Inr (), s) else (Inl e, s))"
  by (simp add: assertI_def assertR_def)

lemma tryI_apply [io_simps]:
  "tryI m h s = (case m s of
     (Inr x, s') \<Rightarrow> (Inr x, s')
   | (Inl e, s') \<Rightarrow> (if e = Crashed then (Inl e, s') else h e s'))"
  by (simp add: tryI_def)

lemma whenI_simps [simp, io_simps]: "whenI True m = m" "whenI False m = ret ()"
  by (simp_all add: whenI_def)

lemma is_subclass_refl [simp]: "is_subclass c c"
  by (simp add: is_subclass_def)

lemma caught_by_Crashed [simp]: "\<not> caught_by cs Crashed"
  by (simp add: caught_by_def)

section \<open>What every outcome keeps\<close>

text \<open>
  \<open>keeps P m\<close>: a state property that \<open>m\<close> carries from its start to wherever it stops,
  by returning, raising or dying.
\<close>

definition keeps :: "('s \<Rightarrow> bool) \<Rightarrow> ('s, 'a) io \<Rightarrow> bool" where
  "keeps P m \<longleftrightarrow> (\<forall>s. P s \<longrightarrow> P (snd (m s)))"

named_theorems keeps_intros \<open>preservation rules of the effect monad\<close>

lemma keepsD: "keeps P m \<Longrightarrow> P s \<Longrightarrow> m s = (r, s') \<Longrightarrow> P s'"
  by (metis keeps_def snd_conv)

lemma keeps_pure [keeps_intros, intro]:
  "keeps P (ret x)" "keeps P (raise e)" "keeps P (liftR r)" "keeps P get_st"
  "keeps P (gets_st f)" "keeps P (assertI b e)"
  by (simp_all add: keeps_def)

lemma keeps_bindI [keeps_intros]:
  "keeps P m \<Longrightarrow> (\<And>x. keeps P (f x)) \<Longrightarrow> keeps P (bindI m f)"
  unfolding keeps_def bindI_def by (auto split: prod.splits sum.splits)

lemma keeps_thenI [keeps_intros]: "keeps P m \<Longrightarrow> keeps P n \<Longrightarrow> keeps P (thenI m n)"
  unfolding thenI_def by (rule keeps_bindI)

lemma keeps_tryI [keeps_intros]:
  "keeps P m \<Longrightarrow> (\<And>e. keeps P (h e)) \<Longrightarrow> keeps P (tryI m h)"
  unfolding keeps_def tryI_def by (auto split: prod.splits sum.splits)

lemma keeps_try_only [keeps_intros]:
  "keeps P m \<Longrightarrow> (\<And>e. keeps P (h e)) \<Longrightarrow> keeps P (try_only cs m h)"
  unfolding try_only_def by (rule keeps_tryI) auto

lemma keeps_finallyI [keeps_intros]:
  "keeps P m \<Longrightarrow> keeps P c \<Longrightarrow> keeps P (finallyI m c)"
  unfolding keeps_def finallyI_def
  by (auto split: prod.splits sum.splits exn.splits)

lemma keeps_forI [keeps_intros]:
  "(\<And>x. x \<in> set xs \<Longrightarrow> keeps P (f x)) \<Longrightarrow> keeps P (forI f xs)"
  by (induction xs) (auto intro: keeps_intros)

lemma keeps_mapI [keeps_intros]:
  "(\<And>x. x \<in> set xs \<Longrightarrow> keeps P (f x)) \<Longrightarrow> keeps P (mapI f xs)"
  by (induction xs) (auto intro!: keeps_intros)

lemma keeps_whenI [keeps_intros]: "(b \<Longrightarrow> keeps P m) \<Longrightarrow> keeps P (whenI b m)"
  by (cases b) auto


section \<open>Pre- and postconditions\<close>

text \<open>
  \<open>hoare P m Q E\<close>: started where \<open>P\<close> holds, \<open>m\<close> either returns \<open>x\<close> in a state of
  \<open>Q x\<close> or stops with \<open>e\<close> (an exception or the death of the process) in a state of \<open>E e\<close>.
\<close>

definition hoare ::
  "('s \<Rightarrow> bool) \<Rightarrow> ('s, 'a) io \<Rightarrow> ('a \<Rightarrow> 's \<Rightarrow> bool) \<Rightarrow> (exn \<Rightarrow> 's \<Rightarrow> bool) \<Rightarrow> bool" where
  "hoare P m Q E \<longleftrightarrow>
     (\<forall>s. P s \<longrightarrow> (case m s of (Inr x, s') \<Rightarrow> Q x s' | (Inl e, s') \<Rightarrow> E e s'))"

lemma hoareI:
  assumes "\<And>s x s'. P s \<Longrightarrow> m s = (Inr x, s') \<Longrightarrow> Q x s'"
    and "\<And>s e s'. P s \<Longrightarrow> m s = (Inl e, s') \<Longrightarrow> E e s'"
  shows "hoare P m Q E"
  unfolding hoare_def using assms by (auto split: prod.splits sum.splits)

lemma hoareD_Inr: "hoare P m Q E \<Longrightarrow> P s \<Longrightarrow> m s = (Inr x, s') \<Longrightarrow> Q x s'"
  unfolding hoare_def by (auto split: prod.splits sum.splits)

lemma hoareD_Inl: "hoare P m Q E \<Longrightarrow> P s \<Longrightarrow> m s = (Inl e, s') \<Longrightarrow> E e s'"
  unfolding hoare_def by (auto split: prod.splits sum.splits)

lemma hoare_weaken:
  assumes "hoare P m Q E" "\<And>s. P' s \<Longrightarrow> P s" "\<And>x s. Q x s \<Longrightarrow> Q' x s" "\<And>e s. E e s \<Longrightarrow> E' e s"
  shows "hoare P' m Q' E'"
  by (rule hoareI) (metis assms hoareD_Inr hoareD_Inl)+

lemma hoare_pre: "hoare P m Q E \<Longrightarrow> (\<And>s. P' s \<Longrightarrow> P s) \<Longrightarrow> hoare P' m Q E"
  by (rule hoare_weaken)

lemma hoare_ret: "hoare (Q x) (ret x) Q E"
  by (simp add: hoare_def)

lemma hoare_raise: "hoare (E e) (raise e) Q E"
  by (simp add: hoare_def)

lemma hoare_bindI:
  assumes "hoare P m R E" and "\<And>x. hoare (R x) (f x) Q E"
  shows "hoare P (bindI m f) Q E"
  by (rule hoareI) (auto simp: bindI_Inr_iff bindI_Inl_iff dest: hoareD_Inr [OF assms(1)]
      hoareD_Inl [OF assms(1)] hoareD_Inr [OF assms(2)] hoareD_Inl [OF assms(2)])

lemma hoare_thenI:
  assumes "hoare P m (\<lambda>_. R) E" and "hoare R n Q E"
  shows "hoare P (thenI m n) Q E"
  unfolding thenI_def by (rule hoare_bindI [OF assms])

lemma hoare_tryI:
  assumes "hoare P m Q F" and "\<And>e. e \<noteq> Crashed \<Longrightarrow> hoare (F e) (h e) Q E"
    and "\<And>s. F Crashed s \<Longrightarrow> E Crashed s"
  shows "hoare P (tryI m h) Q E"
proof -
  have "case tryI m h s of (Inr x, s') \<Rightarrow> Q x s' | (Inl e, s') \<Rightarrow> E e s'" if "P s" for s
  proof (cases "m s")
    case (Pair r s')
    show ?thesis
    proof (cases r)
      case (Inl e)
      with Pair that have "F e s'" by (auto dest: hoareD_Inl [OF assms(1)])
      with Pair Inl assms(2) [of e] assms(3) show ?thesis
        by (cases "e = Crashed") (auto simp: tryI_def hoare_def)
    next
      case (Inr x)
      with Pair that show ?thesis by (auto simp: tryI_def dest: hoareD_Inr [OF assms(1)])
    qed
  qed
  then show ?thesis by (simp add: hoare_def)
qed

lemma hoare_keeps: "keeps P m \<Longrightarrow> hoare P m (\<lambda>_. P) (\<lambda>_. P)"
  by (rule hoareI) (auto dest: keepsD)

lemma hoare_conj:
  "hoare P m Q E \<Longrightarrow> hoare P' m Q' E' \<Longrightarrow>
     hoare (\<lambda>s. P s \<and> P' s) m (\<lambda>x s. Q x s \<and> Q' x s) (\<lambda>e s. E e s \<and> E' e s)"
  unfolding hoare_def by (auto split: prod.splits sum.splits)

lemma hoare_forI:
  assumes "\<And>x. x \<in> set xs \<Longrightarrow> hoare P (f x) (\<lambda>_. P) E"
  shows "hoare P (forI f xs) (\<lambda>_. P) E"
  using assms
proof (induction xs)
  case Nil
  then show ?case by (simp add: hoare_def)
next
  case (Cons x xs)
  then have "hoare P (f x) (\<lambda>_. P) E" and "hoare P (forI f xs) (\<lambda>_. P) E" by simp_all
  then show ?case unfolding forI.simps by (rule hoare_thenI)
qed

end
