(* ===== verification/PyValue.thy ===== *)
theory PyValue
  imports Effects
begin

text \<open>
  The values YAML and JSON documents decode to. A mapping is an association list with
  string keys in insertion order (the documents of this program use no other keys); a
  float is kept as its \<open>repr\<close> text, because the program stores and copies floats and never
  computes with a decoded one.
\<close>

datatype py =
    PNone
  | PBool bool
  | PInt int
  | PFloat string
  | PStr string
  | PList "py list"
  | PDict "(string \<times> py) list"

fun is_mapping :: "py \<Rightarrow> bool" where
  "is_mapping (PDict _) = True"
| "is_mapping _ = False"

fun is_list :: "py \<Rightarrow> bool" where
  "is_list (PList _) = True"
| "is_list _ = False"

fun is_str :: "py \<Rightarrow> bool" where
  "is_str (PStr _) = True"
| "is_str _ = False"

fun entries :: "py \<Rightarrow> (string \<times> py) list" where
  "entries (PDict d) = d"
| "entries _ = []"

fun items :: "py \<Rightarrow> py list" where
  "items (PList xs) = xs"
| "items _ = []"

fun text_of :: "py \<Rightarrow> string" where
  "text_of (PStr s) = s"
| "text_of _ = []"

text \<open>\<open>d.get(k)\<close> and \<open>d.get(k, default)\<close>.\<close>

definition get :: "(string \<times> py) list \<Rightarrow> string \<Rightarrow> py" where
  "get d k = (case map_of d k of None \<Rightarrow> PNone | Some v \<Rightarrow> v)"

definition get_or :: "(string \<times> py) list \<Rightarrow> string \<Rightarrow> py \<Rightarrow> py" where
  "get_or d k v = (case map_of d k of None \<Rightarrow> v | Some w \<Rightarrow> w)"

text \<open>\<open>bool(v)\<close> and \<open>v or w\<close>.\<close>

fun truthy :: "py \<Rightarrow> bool" where
  "truthy PNone = False"
| "truthy (PBool b) = b"
| "truthy (PInt i) = (i \<noteq> 0)"
| "truthy (PFloat s) = (s \<noteq> ''0.0'' \<and> s \<noteq> ''-0.0'')"
| "truthy (PStr s) = (s \<noteq> [])"
| "truthy (PList xs) = (xs \<noteq> [])"
| "truthy (PDict d) = (d \<noteq> [])"

definition por :: "py \<Rightarrow> py \<Rightarrow> py" where
  "por v w = (if truthy v then v else w)"

fun hashable :: "py \<Rightarrow> bool" where
  "hashable (PList _) = False"
| "hashable (PDict _) = False"
| "hashable _ = True"

text \<open>
  \<open>v in {...}\<close> for a set of strings: hashing a list or a mapping raises \<open>TypeError\<close>.
\<close>

definition in_str_set :: "py \<Rightarrow> string list \<Rightarrow> bool res" where
  "in_str_set v ss =
     (if hashable v then Inr (is_str v \<and> text_of v \<in> set ss)
      else Inl (Exn CTypeError ''unhashable type''))"

text \<open>\<open>d.get(v)\<close> where the key is itself a decoded value.\<close>

definition get_by :: "(string \<times> py) list \<Rightarrow> py \<Rightarrow> py res" where
  "get_by d v =
     (if hashable v then Inr (case v of PStr s \<Rightarrow> get d s | _ \<Rightarrow> PNone)
      else Inl (Exn CTypeError ''unhashable type''))"

text \<open>\<open>for x in v\<close>: lists, the keys of a mapping, the characters of a string.\<close>

fun iter_py :: "py \<Rightarrow> py list res" where
  "iter_py (PList xs) = Inr xs"
| "iter_py (PDict d) = Inr (map (PStr \<circ> fst) d)"
| "iter_py (PStr s) = Inr (map (\<lambda>c. PStr [c]) s)"
| "iter_py _ = Inl (Exn CTypeError ''object is not iterable'')"

text \<open>\<open>repr\<close> and \<open>str\<close> of a value.\<close>

definition hex_digit :: "nat \<Rightarrow> char" where
  "hex_digit n = char_of (if n < 10 then 48 + n else 87 + n)"

definition repr_char :: "char \<Rightarrow> char \<Rightarrow> string" where
  "repr_char q c =
     (let n = of_char c :: nat in
      if c = CHR 0x5C \<or> c = q then [CHR 0x5C, c]
      else if n = 10 then [CHR 0x5C, CHR ''n'']
      else if n = 13 then [CHR 0x5C, CHR ''r'']
      else if n = 9 then [CHR 0x5C, CHR ''t'']
      else if n < 32 \<or> (127 \<le> n \<and> n \<le> 160) \<or> n = 173
        then [CHR 0x5C, CHR ''x'', hex_digit (n div 16), hex_digit (n mod 16)]
      else [c])"

definition repr_str :: "string \<Rightarrow> string" where
  "repr_str s =
     (let q = (if CHR 0x27 \<in> set s \<and> CHR 0x22 \<notin> set s then CHR 0x22 else CHR 0x27)
      in q # concat (map (repr_char q) s) @ [q])"

fun repr :: "py \<Rightarrow> string" where
  "repr PNone = ''None''"
| "repr (PBool b) = (if b then ''True'' else ''False'')"
| "repr (PInt i) = show_int i"
| "repr (PFloat s) = s"
| "repr (PStr s) = repr_str s"
| "repr (PList xs) = ''['' @ join '', '' (map repr xs) @ '']''"
| "repr (PDict d) = ''{'' @ join '', '' (map (\<lambda>(k, v). repr_str k @ '': '' @ repr v) d) @ ''}''"

definition str_of :: "py \<Rightarrow> string" where
  "str_of v = (case v of PStr s \<Rightarrow> s | _ \<Rightarrow> repr v)"

lemma get_simps [simp]:
  "get [] k = PNone"
  "get ((j, v) # d) k = (if j = k then v else get d k)"
  by (simp_all add: get_def)

lemma get_or_simps [simp]:
  "get_or [] k v = v"
  "get_or ((j, u) # d) k v = (if j = k then u else get_or d k v)"
  by (simp_all add: get_or_def)

lemma get_update [simp]: "get (AList.update j v d) k = (if j = k then v else get d k)"
  by (simp add: get_def)

lemma is_str_iff: "is_str v \<longleftrightarrow> (\<exists>s. v = PStr s)"
  by (cases v) auto

lemma is_list_iff: "is_list v \<longleftrightarrow> (\<exists>xs. v = PList xs)"
  by (cases v) auto

lemma is_mapping_iff: "is_mapping v \<longleftrightarrow> (\<exists>d. v = PDict d)"
  by (cases v) auto

lemma in_str_set_simps [simp]:
  "in_str_set (PStr s) ss = Inr (s \<in> set ss)" "in_str_set PNone ss = Inr False"
  by (simp_all add: in_str_set_def)

lemma in_str_set_True:
  "in_str_set v ss = Inr True \<longleftrightarrow> (\<exists>s. v = PStr s \<and> s \<in> set ss)"
  by (cases v) (auto simp: in_str_set_def)

text \<open>\<open>dict(v)\<close>: a mapping, or a list of pairs with string keys.\<close>

fun pair_of :: "py \<Rightarrow> (string \<times> py) res" where
  "pair_of (PList [PStr k, v]) = Inr (k, v)"
| "pair_of (PStr [a, b]) = Inr ([a], PStr [b])"
| "pair_of v = Inl (Exn CTypeError ''cannot convert dictionary update sequence element'')"

definition dict_of :: "py \<Rightarrow> (string \<times> py) list res" where
  "dict_of v = (case v of
     PDict d \<Rightarrow> Inr d
   | PList xs \<Rightarrow> bindR (mapR pair_of xs) (\<lambda>ps. Inr (dict_update [] ps))
   | PStr [] \<Rightarrow> Inr []
   | _ \<Rightarrow> Inl (Exn CTypeError ''object is not iterable''))"

text \<open>\<open>d[k]\<close>\<close>

definition dict_item :: "(string \<times> py) list \<Rightarrow> string \<Rightarrow> py res" where
  "dict_item d k = (case map_of d k of Some v \<Rightarrow> Inr v | None \<Rightarrow> Inl (Exn CKeyError k))"

lemma dict_of_dict [simp]: "dict_of (PDict d) = Inr d"
  by (simp add: dict_of_def)

end
