(* ===== verification/Proposals.thy ===== *)
theory Proposals
  imports PyValue
begin

text \<open>
  Models \<^verbatim>\<open>agency/proposals.py\<close>: the schema check of a proposal's questions, the check
  of the submitted answers, and the decision whether an approved proposal is executed.
  Each validator returns the list of messages the source returns, or the exception the
  source raises on a value it cannot hash or iterate. The abstract specifications
  \<open>schema_ok\<close>, \<open>answer_ok\<close> and \<open>wants_execution\<close> say declaratively what the loops
  accept; the theorems show the loops accept exactly that.
\<close>

section \<open>The code\<close>

definition SUPPORTED_QUESTION_TYPES :: "string list" where
  "SUPPORTED_QUESTION_TYPES = [''boolean'', ''choice'', ''free-response'', ''text'']"

definition OPEN_QUESTION_TYPES :: "string list" where
  "OPEN_QUESTION_TYPES = [''free-response'', ''text'']"

definition option_label :: "py \<Rightarrow> string list" where
  "option_label opt =
     (let label = (case opt of PDict d \<Rightarrow> get d ''label'' | _ \<Rightarrow> opt)
      in case label of PStr s \<Rightarrow> (if strip s \<noteq> [] then [strip s] else []) | _ \<Rightarrow> [])"

definition question_option_labels :: "(string \<times> py) list \<Rightarrow> string list res" where
  "question_option_labels q =
     bindR (iter_py (por (get q ''options'') (PList [])))
       (\<lambda>opts. Inr (concat (map option_label opts)))"

definition blank_text :: "py \<Rightarrow> bool" where
  "blank_text v \<longleftrightarrow> \<not> is_str v \<or> strip (text_of v) = []"

text \<open>The loop over \<open>labels\<close> that reports each duplicated option once.\<close>

fun duplicate_labels :: "string \<Rightarrow> string list \<Rightarrow> string list \<Rightarrow> string list \<Rightarrow> string list" where
  "duplicate_labels qid labels [] errors = errors"
| "duplicate_labels qid labels (l # ls) errors =
     (let dup = ''Question '' @ [CHR 0x27] @ qid @ [CHR 0x27] @ '' has duplicate option ''
                @ [CHR 0x27] @ l @ [CHR 0x27]
      in duplicate_labels qid labels ls
           (if 1 < count_list labels l \<and> dup \<notin> set errors then errors @ [dup] else errors))"

definition quoted :: "string \<Rightarrow> string \<Rightarrow> string" where
  "quoted qid msg = ''Question '' @ [CHR 0x27] @ qid @ [CHR 0x27] @ msg"

definition check_choice :: "(string \<times> py) list \<Rightarrow> string \<Rightarrow> string list \<Rightarrow> string list res" where
  "check_choice item qid errors =
     bindR (question_option_labels item) (\<lambda>labels.
       let raw_options = get item ''options'';
           errors1 =
             (if \<not> is_list raw_options \<or> items raw_options = []
                then errors @ [quoted qid '' requires at least one option'']
              else if length labels \<noteq> length (items raw_options)
                then errors @ [quoted qid '' requires at least one option with a non-empty label'']
              else errors)
       in Inr (duplicate_labels qid labels labels errors1))"

text \<open>One round of the loop over the questions; the state is \<open>(errors, seen_ids)\<close>.\<close>

definition check_question ::
    "nat \<times> py \<Rightarrow> string list \<times> string list \<Rightarrow> (string list \<times> string list) res" where
  "check_question ip st =
     (case (ip, st) of ((index, item), (errors, seen)) \<Rightarrow>
        if \<not> is_mapping item
        then Inr (errors @ [''Question '' @ show_nat index @ '' must be a mapping''], seen)
        else let d = entries item in
        if blank_text (get d ''id'')
        then Inr (errors @ [''Question '' @ show_nat index @ '' requires a non-empty id''], seen)
        else
          let qid = strip (text_of (get d ''id''));
              errors1 = (if qid \<in> set seen then errors @ [quoted qid '' is duplicated''] else errors);
              seen1 = qid # seen;
              errors2 = (if blank_text (get d ''prompt'')
                         then errors1 @ [quoted qid '' requires a non-empty prompt''] else errors1);
              qtype = get d ''type''
          in bindR (in_str_set qtype SUPPORTED_QUESTION_TYPES) (\<lambda>supported.
               if \<not> supported
               then Inr (errors2 @ [quoted qid ('' has unsupported type '' @ [CHR 0x27]
                          @ str_of qtype @ [CHR 0x27])], seen1)
               else if qtype = PStr ''choice''
               then bindR (check_choice d qid errors2) (\<lambda>errors3. Inr (errors3, seen1))
               else Inr (errors2, seen1)))"

definition validate_proposal_schema :: "(string \<times> py) list \<Rightarrow> string list res" where
  "validate_proposal_schema meta =
     (let errors = (if blank_text (get meta ''execution_agent'')
                    then [''execution_agent is required''] else []);
          questions = get meta ''questions''
      in if \<not> is_list questions \<or> items questions = []
         then Inr (errors @ [''Proposal requires at least one question''])
         else bindR (foldR check_question (enumerate 1 (items questions)) (errors, []))
                (\<lambda>(errors', _). Inr errors'))"

definition is_required :: "(string \<times> py) list \<Rightarrow> bool" where
  "is_required q \<longleftrightarrow> get_or q ''required'' (PBool True) \<noteq> PBool False"

definition index_key :: "(string \<times> py) list \<Rightarrow> string \<Rightarrow> py res" where
  "index_key d k = (case map_of d k of None \<Rightarrow> Inl (Exn CKeyError k) | Some v \<Rightarrow> Inr v)"

text \<open>\<open>any(value not in labels for value in answer)\<close>, which stops at the first hit.\<close>

fun any_not_in :: "py list \<Rightarrow> string list \<Rightarrow> bool res" where
  "any_not_in [] labels = Inr False"
| "any_not_in (v # vs) labels =
     bindR (in_str_set v labels) (\<lambda>b. if b then any_not_in vs labels else Inr True)"

definition check_choice_answer ::
    "(string \<times> py) list \<Rightarrow> string \<Rightarrow> py \<Rightarrow> string list res" where
  "check_choice_answer item qid answer =
     bindR (question_option_labels item) (\<lambda>labels.
       if truthy (get item ''multi'')
       then if \<not> is_list answer then Inr [quoted qid '' requires a list of selections'']
            else bindR (any_not_in (items answer) labels) (\<lambda>bad.
                   if bad then Inr [quoted qid '' has an invalid selection'']
                   else if is_required item \<and> items answer = []
                     then Inr [quoted qid '' requires a selection'']
                   else Inr [])
       else bindR (in_str_set answer labels) (\<lambda>known.
              if known then Inr []
              else if answer = PNone \<or> answer = PStr []
                then (if is_required item then Inr [quoted qid '' requires a selection''] else Inr [])
              else Inr [quoted qid '' has an invalid selection'']))"

definition check_answer :: "(string \<times> py) list \<Rightarrow> py \<Rightarrow> string list res" where
  "check_answer answers q =
     (let item = entries q in
      bindR (index_key item ''id'') (\<lambda>question_id.
      bindR (index_key item ''type'') (\<lambda>qtype.
      bindR (get_by answers question_id) (\<lambda>answer.
        let qid = str_of question_id in
        if qtype = PStr ''boolean''
        then bindR (in_str_set answer [''approved'', ''declined'']) (\<lambda>known.
               Inr (if known then [] else [quoted qid '' requires Approve or Decline'']))
        else if qtype = PStr ''choice'' then check_choice_answer item qid answer
        else bindR (in_str_set qtype OPEN_QUESTION_TYPES) (\<lambda>is_open.
               Inr (if is_open \<and> is_required item \<and> blank_text answer
                    then [quoted qid '' requires an answer''] else []))))))"

definition validate_answers :: "py list \<Rightarrow> (string \<times> py) list \<Rightarrow> string list res" where
  "validate_answers questions answers =
     bindR (mapR (check_answer answers) questions) (\<lambda>es. Inr (concat es))"

text \<open>\<open>any(answers.get(item["id"]) == "approved" for item in boolean_questions)\<close>\<close>

fun any_approved :: "py list \<Rightarrow> (string \<times> py) list \<Rightarrow> bool res" where
  "any_approved [] answers = Inr False"
| "any_approved (q # qs) answers =
     bindR (index_key (entries q) ''id'') (\<lambda>qid.
     bindR (get_by answers qid) (\<lambda>a.
       if a = PStr ''approved'' then Inr True else any_approved qs answers))"

fun any_guidance :: "py list \<Rightarrow> (string \<times> py) list \<Rightarrow> bool res" where
  "any_guidance [] answers = Inr False"
| "any_guidance (q # qs) answers =
     (let item = entries q in
      bindR (get_by answers (get item ''id'')) (\<lambda>a.
        if get item ''type'' = PStr ''choice'' \<and> truthy a then Inr True
        else bindR (in_str_set (get item ''type'') OPEN_QUESTION_TYPES) (\<lambda>is_open.
               if is_open \<and> \<not> blank_text a then Inr True
               else any_guidance qs answers)))"

definition boolean_questions :: "py list \<Rightarrow> py list" where
  "boolean_questions questions =
     filter (\<lambda>q. get (entries q) ''type'' = PStr ''boolean'') questions"

definition should_execute_decision ::
    "py list \<Rightarrow> (string \<times> py) list \<Rightarrow> string \<Rightarrow> bool res" where
  "should_execute_decision questions answers decision_note =
     bindR (any_approved (boolean_questions questions) answers) (\<lambda>approved.
       if approved then Inr True
       else bindR (any_guidance questions answers) (\<lambda>guided.
         if guided then Inr True
         else if strip decision_note \<noteq> [] then Inr True
         else Inr (boolean_questions questions = [])))"

section \<open>What an accepted proposal looks like\<close>

definition question_id :: "py \<Rightarrow> string" where
  "question_id q = strip (text_of (get (entries q) ''id''))"

definition choice_ok :: "(string \<times> py) list \<Rightarrow> bool" where
  "choice_ok d \<longleftrightarrow>
     is_list (get d ''options'') \<and> items (get d ''options'') \<noteq> [] \<and>
     list_all (\<lambda>opt. option_label opt \<noteq> []) (items (get d ''options'')) \<and>
     distinct (concat (map option_label (items (get d ''options''))))"

definition question_ok :: "py \<Rightarrow> bool" where
  "question_ok q \<longleftrightarrow>
     is_mapping q \<and> \<not> blank_text (get (entries q) ''id'') \<and>
     \<not> blank_text (get (entries q) ''prompt'') \<and>
     (\<exists>t\<in>set SUPPORTED_QUESTION_TYPES. get (entries q) ''type'' = PStr t) \<and>
     (get (entries q) ''type'' = PStr ''choice'' \<longrightarrow> choice_ok (entries q))"

definition schema_ok :: "(string \<times> py) list \<Rightarrow> bool" where
  "schema_ok meta \<longleftrightarrow>
     \<not> blank_text (get meta ''execution_agent'') \<and>
     is_list (get meta ''questions'') \<and> items (get meta ''questions'') \<noteq> [] \<and>
     list_all question_ok (items (get meta ''questions'')) \<and>
     distinct (map question_id (items (get meta ''questions'')))"

subsection \<open>Errors only accumulate\<close>

lemma option_label_length: "length (option_label opt) \<le> 1"
  by (simp add: option_label_def Let_def split: py.splits)

lemma length_labels_le: "length (concat (map option_label opts)) \<le> length opts"
proof (induction opts)
  case Nil
  then show ?case by simp
next
  case (Cons opt opts)
  then show ?case using option_label_length [of opt] by simp
qed

lemma labels_complete_iff:
  "length (concat (map option_label opts)) = length opts \<longleftrightarrow>
   list_all (\<lambda>opt. option_label opt \<noteq> []) opts"
proof (induction opts)
  case Nil
  then show ?case by simp
next
  case (Cons opt opts)
  have "length (option_label opt) \<le> 1" by (rule option_label_length)
  then have "length (option_label opt) = 0 \<or> length (option_label opt) = 1" by arith
  then show ?case using Cons length_labels_le [of opts] by auto
qed

lemma duplicate_labels_Nil_iff:
  "duplicate_labels qid labels ls errors = [] \<longleftrightarrow>
   errors = [] \<and> (\<forall>l\<in>set ls. count_list labels l \<le> 1)"
proof (induction ls arbitrary: errors)
  case Nil
  then show ?case by simp
next
  case (Cons l ls)
  show ?case by (auto simp: Let_def Cons.IH not_less split: if_splits)
qed

lemma distinct_count_list_le: "distinct xs \<longleftrightarrow> (\<forall>x\<in>set xs. count_list xs x \<le> 1)"
proof (induction xs)
  case Nil
  then show ?case by simp
next
  case (Cons a xs)
  have "count_list xs a = 0 \<longleftrightarrow> a \<notin> set xs" by (rule count_list_0_iff)
  then show ?case using Cons by auto
qed

lemma check_choice_Nil_iff:
  "check_choice d qid errors = Inr [] \<longleftrightarrow> errors = [] \<and> choice_ok d"
proof (cases "get d ''options''")
  case (PList xs)
  then show ?thesis
    using distinct_count_list_le [of "concat (map option_label xs)"]
    by (cases "xs = []")
       (auto simp: check_choice_def question_option_labels_def por_def choice_ok_def Let_def
         duplicate_labels_Nil_iff labels_complete_iff)
next
  case (PDict e)
  then show ?thesis
    by (cases "e = []")
       (auto simp: check_choice_def question_option_labels_def por_def choice_ok_def Let_def
         duplicate_labels_Nil_iff)
next
  case (PStr s)
  then show ?thesis
    by (cases "s = []")
       (auto simp: check_choice_def question_option_labels_def por_def choice_ok_def Let_def
         duplicate_labels_Nil_iff)
qed (auto simp: check_choice_def question_option_labels_def por_def choice_ok_def Let_def
      duplicate_labels_Nil_iff bindR_Inr_iff split: if_splits)

lemma check_question_Nil_iff:
  "check_question (i, q) (errors, seen) = Inr ([], seen') \<longleftrightarrow>
   errors = [] \<and> question_ok q \<and> question_id q \<notin> set seen \<and> seen' = question_id q # seen"
proof (cases "is_mapping q \<and> \<not> blank_text (get (entries q) ''id'')")
  case False
  then show ?thesis by (auto simp: check_question_def question_ok_def Let_def)
next
  case True
  show ?thesis
  proof (cases "in_str_set (get (entries q) ''type'') SUPPORTED_QUESTION_TYPES = Inr True")
    case False
    then have "\<not> (\<exists>t\<in>set SUPPORTED_QUESTION_TYPES. get (entries q) ''type'' = PStr t)"
      by (auto simp: in_str_set_True)
    with False True show ?thesis
      by (auto simp: check_question_def question_ok_def Let_def bindR_Inr_iff split: if_splits)
  next
    case sup: True
    then obtain t where "get (entries q) ''type'' = PStr t" "t \<in> set SUPPORTED_QUESTION_TYPES"
      by (auto simp: in_str_set_True)
    with True show ?thesis
      by (cases "t = ''choice''")
         (auto simp: check_question_def question_ok_def Let_def bindR_Inr_iff question_id_def
           check_choice_Nil_iff split: if_splits)
  qed
qed

lemma duplicate_labels_mono: "set errors \<subseteq> set (duplicate_labels qid labels ls errors)"
proof (induction ls arbitrary: errors)
  case Nil
  then show ?case by simp
next
  case (Cons l ls)
  show ?case by (auto simp: Let_def intro: subsetD [OF Cons.IH])
qed

lemma check_choice_mono:
  "check_choice d qid errors = Inr errors' \<Longrightarrow> set errors \<subseteq> set errors'"
  using duplicate_labels_mono [of "errors @ _"] duplicate_labels_mono [of errors]
  by (fastforce simp: check_choice_def bindR_Inr_iff Let_def split: if_splits)

lemma check_question_mono:
  "check_question ip (errors, seen) = Inr (errors', seen') \<Longrightarrow> set errors \<subseteq> set errors'"
  by (cases ip)
     (auto simp: check_question_def Let_def bindR_Inr_iff split: if_splits
       dest!: check_choice_mono)

lemma foldR_check_question_mono:
  "foldR check_question ips (errors, seen) = Inr (errors', seen') \<Longrightarrow> set errors \<subseteq> set errors'"
proof (induction ips arbitrary: errors seen)
  case Nil
  then show ?case by simp
next
  case (Cons ip ips)
  then obtain e s where step: "check_question ip (errors, seen) = Inr (e, s)"
    and rest: "foldR check_question ips (e, s) = Inr (errors', seen')"
    by (auto simp: bindR_Inr_iff)
  from Cons.IH [OF rest] check_question_mono [OF step] show ?case by blast
qed

lemma foldR_check_question_Nil_iff:
  "(\<exists>seen'. foldR check_question (enumerate n qs) (errors, seen) = Inr ([], seen')) \<longleftrightarrow>
   errors = [] \<and> list_all question_ok qs \<and> distinct (map question_id qs) \<and>
   set (map question_id qs) \<inter> set seen = {}"
proof (induction qs arbitrary: n errors seen)
  case Nil
  then show ?case by simp
next
  case (Cons q qs)
  have step: "(\<exists>seen'. foldR check_question (enumerate n (q # qs)) (errors, seen) = Inr ([], seen')) \<longleftrightarrow>
    (\<exists>s. check_question (n, q) (errors, seen) = Inr ([], s) \<and>
      (\<exists>seen'. foldR check_question (enumerate (Suc n) qs) ([], s) = Inr ([], seen')))"
    by (auto simp: bindR_Inr_iff) (metis empty_subsetI foldR_check_question_mono set_empty
        subset_antisym list.set(1))+
  show ?case unfolding step check_question_Nil_iff by (auto simp: Cons.IH)
qed

text \<open>
  C33 - \<^verbatim>\<open>validate_proposal_schema\<close> accepts a proposal (returns no message, raises nothing)
  exactly when it satisfies the declarative schema: an executor, at least one question,
  every question a mapping with an id, a prompt and a supported type, every choice with
  distinct non-blank option labels, and ids that are distinct after stripping.
\<close>

theorem validate_proposal_schema_accepts_iff:
  "validate_proposal_schema meta = Inr [] \<longleftrightarrow> schema_ok meta"
proof (cases "is_list (get meta ''questions'') \<and> items (get meta ''questions'') \<noteq> []")
  case False
  then show ?thesis by (auto simp: validate_proposal_schema_def schema_ok_def)
next
  case True
  then show ?thesis
    using foldR_check_question_Nil_iff [of 1 "items (get meta ''questions'')"
        "if blank_text (get meta ''execution_agent'') then [''execution_agent is required''] else []"
        "[]"]
    by (auto simp: validate_proposal_schema_def schema_ok_def bindR_Inr_iff Let_def)
qed

definition sample_question :: "py" where
  "sample_question = PDict [(''id'', PStr ''q1''), (''prompt'', PStr ''Merge?''),
     (''type'', PStr ''choice''), (''options'', PList [PStr ''now'', PDict [(''label'', PStr ''later'')]])]"

definition sample_meta :: "(string \<times> py) list" where
  "sample_meta = [(''execution_agent'', PStr ''builder''), (''questions'', PList [sample_question])]"

lemmas sample_defs = sample_meta_def sample_question_def

lemma sample_meta_schema_ok: "schema_ok sample_meta"
  by (simp add: sample_defs schema_ok_def question_ok_def choice_ok_def option_label_def
      blank_text_def question_id_def SUPPORTED_QUESTION_TYPES_def strip_def lstrip_def
      rstrip_def char_defs)

section \<open>What accepted answers look like\<close>

definition labels_of :: "(string \<times> py) list \<Rightarrow> string list" where
  "labels_of d = concat (map option_label (items (get d ''options'')))"

definition answer_ok :: "(string \<times> py) list \<Rightarrow> py \<Rightarrow> bool" where
  "answer_ok answers q \<longleftrightarrow>
     (let d = entries q; a = get answers (text_of (get d ''id'')); known = PStr ` set (labels_of d)
      in if get d ''type'' = PStr ''boolean'' then a = PStr ''approved'' \<or> a = PStr ''declined''
         else if get d ''type'' = PStr ''choice'' then
           (if truthy (get d ''multi'')
            then is_list a \<and> set (items a) \<subseteq> known \<and> (is_required d \<longrightarrow> items a \<noteq> [])
            else a \<in> known \<or> (\<not> is_required d \<and> (a = PNone \<or> a = PStr [])))
         else is_required d \<longrightarrow> \<not> blank_text a)"

lemma any_not_in_False_iff:
  "any_not_in vs labels = Inr False \<longleftrightarrow> set vs \<subseteq> PStr ` set labels"
  by (induction vs) (auto simp: bindR_Inr_iff in_str_set_True in_str_set_def is_str_iff split: if_splits)

lemma schema_labels:
  "choice_ok d \<Longrightarrow> question_option_labels d = Inr (labels_of d)"
  by (cases "get d ''options''")
     (auto simp: choice_ok_def question_option_labels_def por_def labels_of_def)

lemma question_id_text:
  "question_ok q \<Longrightarrow> \<exists>s. map_of (entries q) ''id'' = Some (PStr s) \<and> get (entries q) ''id'' = PStr s"
  by (auto simp: question_ok_def blank_text_def is_str_iff get_def split: option.splits)

lemma question_type_cases:
  assumes "question_ok q"
  obtains t where "map_of (entries q) ''type'' = Some (PStr t)" "get (entries q) ''type'' = PStr t"
    "t \<in> {''boolean'', ''choice'', ''free-response'', ''text''}"
proof -
  from assms obtain t where "t \<in> set SUPPORTED_QUESTION_TYPES" and t: "get (entries q) ''type'' = PStr t"
    unfolding question_ok_def by blast
  then have "t \<in> {''boolean'', ''choice'', ''free-response'', ''text''}"
    by (simp only: SUPPORTED_QUESTION_TYPES_def list.set)
  moreover from t have "map_of (entries q) ''type'' = Some (PStr t)"
    by (simp add: get_def split: option.splits)
  ultimately show thesis using t that by blast
qed

lemma in_str_set_Inr_False_iff:
  "in_str_set v ss = Inr False \<longleftrightarrow> hashable v \<and> v \<notin> PStr ` set ss"
  by (cases v) (auto simp: in_str_set_def)

lemma check_choice_answer_Nil_iff:
  assumes "choice_ok d"
  shows "check_choice_answer d qid a = Inr [] \<longleftrightarrow>
    (if truthy (get d ''multi'')
     then is_list a \<and> set (items a) \<subseteq> PStr ` set (labels_of d) \<and> (is_required d \<longrightarrow> items a \<noteq> [])
     else a \<in> PStr ` set (labels_of d) \<or> (\<not> is_required d \<and> (a = PNone \<or> a = PStr [])))"
proof (cases "truthy (get d ''multi'')")
  case True
  then show ?thesis using schema_labels [OF assms]
    by (auto simp: check_choice_answer_def bindR_Inr_iff any_not_in_False_iff split: if_splits)
next
  case False
  then show ?thesis using schema_labels [OF assms]
    by (auto simp: check_choice_answer_def bindR_Inr_iff in_str_set_True
        in_str_set_Inr_False_iff split: if_splits)
qed

lemma check_answer_Nil_iff:
  assumes "question_ok q"
  shows "check_answer answers q = Inr [] \<longleftrightarrow> answer_ok answers q"
proof -
  obtain s where s: "map_of (entries q) ''id'' = Some (PStr s)" "get (entries q) ''id'' = PStr s"
    using question_id_text [OF assms] by blast
  obtain t where t: "map_of (entries q) ''type'' = Some (PStr t)" "get (entries q) ''type'' = PStr t"
    "t \<in> {''boolean'', ''choice'', ''free-response'', ''text''}"
    using question_type_cases [OF assms] .
  show ?thesis
  proof (cases "t = ''choice''")
    case True
    with assms t have "choice_ok (entries q)" by (simp add: question_ok_def)
    with True s t show ?thesis
      by (simp add: check_answer_def index_key_def get_by_def answer_ok_def Let_def
          check_choice_answer_Nil_iff)
  next
    case False
    show ?thesis
    proof (cases "t = ''boolean''")
      case True
      with s t show ?thesis
        by (cases "get answers s")
           (simp_all add: check_answer_def index_key_def get_by_def answer_ok_def in_str_set_def)
    next
      case opn: False
      with False t have "t = ''free-response'' \<or> t = ''text''" by simp
      with s t(1,2) show ?thesis
        by (elim disjE)
           (simp_all add: check_answer_def index_key_def get_by_def answer_ok_def
             OPEN_QUESTION_TYPES_def)
    qed
  qed
qed

lemma mapR_all_Nil_iff:
  "(\<exists>es. mapR f xs = Inr es \<and> concat es = []) \<longleftrightarrow> (\<forall>x\<in>set xs. f x = Inr [])"
  by (induction xs) (auto simp: bindR_Inr_iff)

text \<open>
  On the questions of an accepted proposal, \<^verbatim>\<open>validate_answers\<close> returns no message
  exactly when every answer is admissible: a boolean is approved or declined, a choice is
  drawn from the offered labels (all of them, for a multiple choice, and not empty when
  required), a required open question is not blank.
\<close>

theorem validate_answers_accepts_iff:
  assumes "schema_ok meta"
  shows "validate_answers (items (get meta ''questions'')) answers = Inr [] \<longleftrightarrow>
    list_all (answer_ok answers) (items (get meta ''questions''))"
proof -
  let ?qs = "items (get meta ''questions'')"
  have "validate_answers ?qs answers = Inr [] \<longleftrightarrow> (\<forall>q\<in>set ?qs. check_answer answers q = Inr [])"
    unfolding validate_answers_def bindR_Inr_iff using mapR_all_Nil_iff [of "check_answer answers" ?qs]
    by auto
  with assms show ?thesis
    by (auto simp: schema_ok_def list_all_iff check_answer_Nil_iff)
qed

theorem validate_answers_accepts_iff_witness:
  "schema_ok sample_meta \<and>
   (validate_answers (items (get sample_meta ''questions'')) [(''q1'', PStr ''later'')] = Inr [] \<longleftrightarrow>
    list_all (answer_ok [(''q1'', PStr ''later'')]) (items (get sample_meta ''questions'')))"
  using sample_meta_schema_ok validate_answers_accepts_iff [OF sample_meta_schema_ok] by blast

section \<open>When a decision is executed\<close>

definition answer_to :: "(string \<times> py) list \<Rightarrow> py \<Rightarrow> py" where
  "answer_to answers q = get answers (text_of (get (entries q) ''id''))"

definition wants_execution :: "py list \<Rightarrow> (string \<times> py) list \<Rightarrow> string \<Rightarrow> bool" where
  "wants_execution questions answers note \<longleftrightarrow>
     list_ex (\<lambda>q. answer_to answers q = PStr ''approved'') (boolean_questions questions) \<or>
     list_ex (\<lambda>q. get (entries q) ''type'' = PStr ''choice'' \<and> truthy (answer_to answers q)) questions \<or>
     list_ex (\<lambda>q. get (entries q) ''type'' \<in> PStr ` set OPEN_QUESTION_TYPES
               \<and> \<not> blank_text (answer_to answers q)) questions \<or>
     strip note \<noteq> [] \<or> boolean_questions questions = []"

lemma any_approved_eq:
  "list_all question_ok qs \<Longrightarrow>
   any_approved qs answers = Inr (list_ex (\<lambda>q. answer_to answers q = PStr ''approved'') qs)"
proof (induction qs)
  case Nil
  then show ?case by simp
next
  case (Cons q qs)
  then obtain s where "map_of (entries q) ''id'' = Some (PStr s)" "get (entries q) ''id'' = PStr s"
    using question_id_text by force
  with Cons show ?case by (simp add: index_key_def get_by_def answer_to_def)
qed

lemma any_guidance_eq:
  "list_all question_ok qs \<Longrightarrow>
   any_guidance qs answers = Inr (list_ex (\<lambda>q.
     (get (entries q) ''type'' = PStr ''choice'' \<and> truthy (answer_to answers q)) \<or>
     (get (entries q) ''type'' \<in> PStr ` set OPEN_QUESTION_TYPES \<and> \<not> blank_text (answer_to answers q))) qs)"
proof (induction qs)
  case Nil
  then show ?case by simp
next
  case (Cons q qs)
  then have ok: "question_ok q" by simp
  obtain s where s: "get (entries q) ''id'' = PStr s" using question_id_text [OF ok] by blast
  obtain t where t: "get (entries q) ''type'' = PStr t" using question_type_cases [OF ok] by metis
  have mem: "PStr t \<in> PStr ` set OPEN_QUESTION_TYPES \<longleftrightarrow> t \<in> set OPEN_QUESTION_TYPES" by auto
  from s t Cons mem show ?case by (simp add: get_by_def answer_to_def) blast
qed

lemma first_true_chain:
  "(if a then Inr True else if b then Inr True else if c then Inr True else Inr d) =
   Inr (a \<or> b \<or> c \<or> d)"
  by simp

lemma list_ex_disj: "list_ex (\<lambda>x. P x \<or> Q x) xs \<longleftrightarrow> list_ex P xs \<or> list_ex Q xs"
  by (induction xs) auto

text \<open>
  On an accepted proposal \<^verbatim>\<open>should_execute_decision\<close> always returns, and it says yes
  exactly when something was approved or some guidance was given: an approved boolean, an
  answered choice, a non-blank open answer, a non-blank note, or a proposal that asks no
  boolean question at all.
\<close>

theorem should_execute_decision_correct:
  assumes "schema_ok meta"
  shows "should_execute_decision (items (get meta ''questions'')) answers note =
    Inr (wants_execution (items (get meta ''questions'')) answers note)"
proof -
  let ?qs = "items (get meta ''questions'')"
  from assms have ok: "list_all question_ok ?qs" by (simp add: schema_ok_def)
  then have "list_all question_ok (boolean_questions ?qs)"
    by (auto simp: boolean_questions_def list_all_iff)
  then have "any_approved (boolean_questions ?qs) answers =
      Inr (list_ex (\<lambda>q. answer_to answers q = PStr ''approved'') (boolean_questions ?qs))"
    by (rule any_approved_eq)
  then show ?thesis
    unfolding should_execute_decision_def any_guidance_eq [OF ok] wants_execution_def list_ex_disj
    by (simp only: bindR_simps first_true_chain disj_assoc)
qed

theorem should_execute_decision_correct_witness:
  "schema_ok sample_meta \<and>
   should_execute_decision (items (get sample_meta ''questions'')) [(''q1'', PStr [])] ''no'' =
   Inr (wants_execution (items (get sample_meta ''questions'')) [(''q1'', PStr [])] ''no'')"
  using sample_meta_schema_ok should_execute_decision_correct [OF sample_meta_schema_ok] by blast

text \<open>
  A choice whose \<open>options\<close> is a number is not reported as a schema error: the iteration
  over it raises \<open>TypeError\<close>, which no caller catches.
\<close>

theorem numeric_options_raise:
  "validate_proposal_schema
     [(''execution_agent'', PStr ''builder''),
      (''questions'', PList [PDict [(''id'', PStr ''q''), (''prompt'', PStr ''p''),
         (''type'', PStr ''choice''), (''options'', PInt 5)]])]
   = Inl (Exn CTypeError ''object is not iterable'')"
  by (simp add: validate_proposal_schema_def check_question_def check_choice_def
      question_option_labels_def por_def SUPPORTED_QUESTION_TYPES_def blank_text_def
      strip_def lstrip_def rstrip_def char_defs)

end
