(* ===== verification/Changes.thy ===== *)
theory Changes
  imports Effects
begin

text \<open>
  Models \<^verbatim>\<open>agency/jobs/changes.py\<close>: parsing git's \<open>status --porcelain\<close>,
  \<open>diff --numstat\<close> and \<open>diff --name-status\<close> output, and the union of the working-tree
  view with the committed range that a finished job reports.

  The git binary is a parameter \<open>git root args\<close>, \<^const>\<open>None\<close> for every failure
  \<^verbatim>\<open>_run_git\<close> maps to \<^const>\<open>None\<close>; \<open>exists_path\<close> is \<open>Path.exists\<close>.
\<close>

section \<open>The code\<close>

record file_change =
  fc_path :: string
  fc_status :: string
  fc_added :: nat
  fc_removed :: nat

abbreviation TAB :: char where "TAB \<equiv> CHR 0x09"
abbreviation DQUOTE :: char where "DQUOTE \<equiv> CHR 0x22"

definition STATUS_MAP :: "(char \<times> string) list" where
  "STATUS_MAP = [(CHR ''A'', ''added''), (CHR ''D'', ''deleted''), (CHR ''M'', ''modified''),
     (CHR ''R'', ''modified''), (CHR ''C'', ''modified''), (CHR ''T'', ''modified''),
     (CHR ''U'', ''modified'')]"

definition count_field :: "string \<Rightarrow> nat" where
  "count_field s = (if isdigit s then nat_of_digits s else 0)"

definition numstat_line :: "string \<Rightarrow> (string \<times> nat \<times> nat) list \<Rightarrow> (string \<times> nat \<times> nat) list" where
  "numstat_line line counts =
     (let parts = split_on TAB line in
      if length parts < 3 then counts
      else AList.update (last parts) (count_field (parts ! 0), count_field (parts ! 1)) counts)"

definition parse_numstat :: "string \<Rightarrow> (string \<times> nat \<times> nat) list" where
  "parse_numstat raw = fold numstat_line (splitlines raw) []"

definition status_from_codes :: "char \<Rightarrow> char \<Rightarrow> string" where
  "status_from_codes index_code worktree_code =
     (if index_code = CHR ''?'' \<or> worktree_code = CHR ''?'' then ''added''
      else case map_of STATUS_MAP index_code of
        Some mapped \<Rightarrow> mapped
      | None \<Rightarrow> (case map_of STATUS_MAP worktree_code of
          Some mapped \<Rightarrow> mapped | None \<Rightarrow> ''modified''))"

definition clean_path :: "string \<Rightarrow> string" where
  "clean_path s = strip_chars {DQUOTE} (strip s)"

definition porcelain_line :: "string \<Rightarrow> (string \<times> string) list" where
  "porcelain_line line =
     (if length line < 4 then []
      else let rest = drop 3 line;
               rest' = (case split_once '' -> '' rest of Some (_, new) \<Rightarrow> new | None \<Rightarrow> rest);
               path = clean_path rest'
           in if path = [] then [] else [(path, status_from_codes (line ! 0) (line ! 1))])"

definition parse_porcelain :: "string \<Rightarrow> (string \<times> string) list" where
  "parse_porcelain raw = concat (map porcelain_line (splitlines raw))"

definition name_status_line :: "string \<Rightarrow> (string \<times> string) list" where
  "name_status_line line =
     (let parts = split_on TAB line in
      if length parts < 2 then []
      else let code = parts ! 0; path = clean_path (last parts)
           in if code = [] \<or> path = [] then []
              else [(path, (case map_of STATUS_MAP (code ! 0) of
                      Some mapped \<Rightarrow> mapped | None \<Rightarrow> ''modified''))])"

definition parse_name_status :: "string \<Rightarrow> (string \<times> string) list" where
  "parse_name_status raw = concat (map name_status_line (splitlines raw))"

definition capture_base_sha ::
    "('p \<Rightarrow> string list \<Rightarrow> string option) \<Rightarrow> ('p \<Rightarrow> bool) \<Rightarrow> 'p option \<Rightarrow> string option" where
  "capture_base_sha git exists_path root =
     (case root of None \<Rightarrow> None
      | Some r \<Rightarrow>
          if \<not> exists_path r then None
          else case git r [''rev-parse'', ''HEAD''] of None \<Rightarrow> None
               | Some out \<Rightarrow> (let sha = strip out in if sha = [] then None else Some sha))"

definition change_entry ::
    "(string \<times> nat \<times> nat) list \<Rightarrow> string \<times> string \<Rightarrow>
     (string \<times> file_change) list \<Rightarrow> (string \<times> file_change) list" where
  "change_entry counts entry changes =
     (case entry of (path, status) \<Rightarrow>
        let (added, removed) = (case map_of counts path of None \<Rightarrow> (0, 0) | Some c \<Rightarrow> c)
        in AList.update path
             \<lparr>fc_path = path, fc_status = status, fc_added = added, fc_removed = removed\<rparr> changes)"

definition numstat_counts :: "string option \<Rightarrow> (string \<times> nat \<times> nat) list" where
  "numstat_counts out =
     (case out of None \<Rightarrow> [] | Some text \<Rightarrow> if text = [] then [] else parse_numstat text)"

definition capture_working_tree ::
    "('p \<Rightarrow> string list \<Rightarrow> string option) \<Rightarrow> 'p \<Rightarrow> (string \<times> file_change) list" where
  "capture_working_tree git root =
     (case git root [''status'', ''--porcelain''] of None \<Rightarrow> []
      | Some out \<Rightarrow>
          let entries = parse_porcelain out in
          if entries = [] then []
          else fold (change_entry (numstat_counts (git root [''diff'', ''--numstat'', ''HEAD''])))
                 entries [])"

definition capture_committed_range ::
    "('p \<Rightarrow> string list \<Rightarrow> string option) \<Rightarrow> 'p \<Rightarrow> string \<Rightarrow> (string \<times> file_change) list" where
  "capture_committed_range git root base_sha =
     (let rng = base_sha @ ''..HEAD'' in
      case git root [''diff'', ''--name-status'', rng] of None \<Rightarrow> []
      | Some out \<Rightarrow>
          let entries = parse_name_status out in
          if entries = [] then []
          else fold (change_entry (numstat_counts (git root [''diff'', ''--numstat'', rng])))
                 entries [])"

definition capture_git_changes ::
    "('p \<Rightarrow> string list \<Rightarrow> string option) \<Rightarrow> ('p \<Rightarrow> bool) \<Rightarrow> 'p option \<Rightarrow> string option
     \<Rightarrow> file_change list" where
  "capture_git_changes git exists_path root base_sha =
     (case root of None \<Rightarrow> []
      | Some r \<Rightarrow>
          if \<not> exists_path r then []
          else let committed = (case base_sha of
                     Some sha \<Rightarrow> if sha \<noteq> [] then capture_committed_range git r sha else []
                   | None \<Rightarrow> []);
                   merged = dict_update (dict_update [] committed) (capture_working_tree git r)
               in map snd merged)"

section \<open>The change dictionaries\<close>

text \<open>
  A change dictionary is well formed when its keys are distinct, every value carries its
  own key as the path, the path is not empty and the status is one of the three the
  consumers know.
\<close>

definition VALID_CHANGE :: "string list" where
  "VALID_CHANGE = [''added'', ''modified'', ''deleted'']"

definition changes_ok :: "(string \<times> file_change) list \<Rightarrow> bool" where
  "changes_ok d \<longleftrightarrow> distinct (map fst d) \<and>
     (\<forall>(p, c)\<in>set d. fc_path c = p \<and> p \<noteq> [] \<and> fc_status c \<in> set VALID_CHANGE)"

definition entries_ok :: "(string \<times> string) list \<Rightarrow> bool" where
  "entries_ok es \<longleftrightarrow> (\<forall>(p, s)\<in>set es. p \<noteq> [] \<and> s \<in> set VALID_CHANGE)"

lemma STATUS_MAP_valid: "map_of STATUS_MAP c = Some s \<Longrightarrow> s \<in> set VALID_CHANGE"
  by (auto simp: STATUS_MAP_def VALID_CHANGE_def split: if_splits)

lemma status_from_codes_valid: "status_from_codes x y \<in> set VALID_CHANGE"
  using STATUS_MAP_valid
  by (auto simp: status_from_codes_def VALID_CHANGE_def split: option.splits)

lemma parse_porcelain_ok: "entries_ok (parse_porcelain raw)"
  using status_from_codes_valid
  by (auto simp: entries_ok_def parse_porcelain_def porcelain_line_def Let_def split: if_splits)

lemma parse_name_status_ok: "entries_ok (parse_name_status raw)"
  using STATUS_MAP_valid
  by (auto simp: entries_ok_def parse_name_status_def name_status_line_def Let_def VALID_CHANGE_def
      split: if_splits option.splits)

lemma changes_ok_Nil [simp]: "changes_ok []"
  by (simp add: changes_ok_def)

lemma change_entry_ok:
  "changes_ok d \<Longrightarrow> p \<noteq> [] \<Longrightarrow> s \<in> set VALID_CHANGE \<Longrightarrow> changes_ok (change_entry counts (p, s) d)"
  by (cases "map_of counts p")
     (auto simp: changes_ok_def change_entry_def dest!: subsetD [OF set_alist_update])

lemma fold_change_entry_ok:
  "changes_ok d \<Longrightarrow> entries_ok es \<Longrightarrow> changes_ok (fold (change_entry counts) es d)"
proof (induction es arbitrary: d)
  case Nil
  then show ?case by simp
next
  case (Cons e es)
  then show ?case by (cases e) (auto simp: entries_ok_def intro!: Cons.IH change_entry_ok)
qed

lemma capture_working_tree_ok: "changes_ok (capture_working_tree git root)"
  by (auto simp: capture_working_tree_def Let_def parse_porcelain_ok fold_change_entry_ok
      split: option.splits)

lemma capture_committed_range_ok: "changes_ok (capture_committed_range git root sha)"
  by (auto simp: capture_committed_range_def Let_def parse_name_status_ok fold_change_entry_ok
      split: option.splits)

lemma changes_ok_dict_update:
  "changes_ok d \<Longrightarrow> changes_ok e \<Longrightarrow> changes_ok (dict_update d e)"
  by (auto simp: changes_ok_def distinct_keys_dict_update dest!: subsetD [OF set_dict_update])

lemma changes_paths: "changes_ok d \<Longrightarrow> map (fc_path \<circ> snd) d = map fst d"
  by (auto simp: changes_ok_def)

section \<open>Properties\<close>

definition git_merged ::
    "('p \<Rightarrow> string list \<Rightarrow> string option) \<Rightarrow> 'p \<Rightarrow> string option \<Rightarrow> (string \<times> file_change) list" where
  "git_merged git r base_sha =
     dict_update (dict_update [] (case base_sha of
         Some sha \<Rightarrow> if sha \<noteq> [] then capture_committed_range git r sha else []
       | None \<Rightarrow> [])) (capture_working_tree git r)"

lemma git_merged_ok: "changes_ok (git_merged git r base_sha)"
  unfolding git_merged_def
  by (intro changes_ok_dict_update capture_working_tree_ok)
     (auto simp: capture_committed_range_ok split: option.splits)

lemma capture_git_changes_eq:
  "capture_git_changes git ex (Some r) base_sha =
     (if ex r then map snd (git_merged git r base_sha) else [])"
  by (simp add: capture_git_changes_def git_merged_def Let_def)

lemma map_of_git_merged:
  "map_of (git_merged git r (Some sha)) =
     (if sha \<noteq> [] then map_of (capture_committed_range git r sha) else Map.empty)
       ++ map_of (capture_working_tree git r)"
  using capture_committed_range_ok [of git r sha] capture_working_tree_ok [of git r]
  by (auto simp: git_merged_def changes_ok_def map_of_dict_update)

text \<open>
  Whatever git prints, the reported changes name each path once, never an empty path,
  and every status is added, modified or deleted.
\<close>

theorem capture_git_changes_well_formed:
  "distinct (map fc_path (capture_git_changes git ex root base_sha)) \<and>
   list_all (\<lambda>c. fc_path c \<noteq> [] \<and> fc_status c \<in> set VALID_CHANGE)
     (capture_git_changes git ex root base_sha)"
proof (cases root)
  case None
  then show ?thesis by (simp add: capture_git_changes_def)
next
  case (Some r)
  have ok: "changes_ok (git_merged git r base_sha)" by (rule git_merged_ok)
  then have "distinct (map fst (git_merged git r base_sha))" by (simp add: changes_ok_def)
  with ok show ?thesis unfolding Some capture_git_changes_eq
    by (auto simp: changes_paths list_all_iff changes_ok_def)
qed

text \<open>
  The two views are united by path and the working tree wins: a path the working tree
  reports is reported exactly as the working tree sees it, every other path exactly as the
  committed range sees it, and nothing else is reported.
\<close>

theorem working_tree_wins:
  assumes "ex r" and "sha \<noteq> []"
  shows "c \<in> set (capture_git_changes git ex (Some r) (Some sha)) \<longleftrightarrow>
    map_of (capture_working_tree git r) (fc_path c) = Some c \<or>
    (map_of (capture_working_tree git r) (fc_path c) = None \<and>
     map_of (capture_committed_range git r sha) (fc_path c) = Some c)"
proof -
  let ?m = "git_merged git r (Some sha)"
  have ok: "changes_ok ?m" by (rule git_merged_ok)
  then have "c \<in> set (map snd ?m) \<longleftrightarrow> map_of ?m (fc_path c) = Some c"
    by (force simp: changes_ok_def)
  then show ?thesis using assms
    by (auto simp: capture_git_changes_eq map_of_git_merged map_add_Some_iff)
qed

text \<open>
  A base commit that git cannot resolve (shallow clone, rewritten history) degrades to
  the working-tree view and never raises: the result is the one without a base commit.
\<close>

theorem unreachable_base_degrades:
  assumes "git r [''diff'', ''--name-status'', sha @ ''..HEAD''] = None"
  shows "capture_git_changes git ex (Some r) (Some sha) = capture_git_changes git ex (Some r) None"
  using assms by (simp add: capture_git_changes_def capture_committed_range_def Let_def)

definition sample_git :: "nat \<Rightarrow> string list \<Rightarrow> string option" where
  "sample_git r args =
     (if args = [''status'', ''--porcelain''] then Some ('' M a.py'' @ [CHR 0x0A] @ ''?? b.py'')
      else if args = [''diff'', ''--numstat'', ''HEAD'']
        then Some (''3'' @ [TAB] @ ''1'' @ [TAB] @ ''a.py'')
      else None)"

lemmas text_defs =
  splitlines_def is_line_break_def clean_path_def strip_chars_def strip_def lstrip_def rstrip_def
  startswith_def is_space_def between_def is_digit_def

lemma sample_git_working_tree:
  "capture_working_tree sample_git 0 =
    [(''a.py'', \<lparr>fc_path = ''a.py'', fc_status = ''modified'', fc_added = 3, fc_removed = 1\<rparr>),
     (''b.py'', \<lparr>fc_path = ''b.py'', fc_status = ''added'', fc_added = 0, fc_removed = 0\<rparr>)]"
  by (simp add: capture_working_tree_def sample_git_def parse_porcelain_def porcelain_line_def
      text_defs status_from_codes_def STATUS_MAP_def numstat_counts_def parse_numstat_def
      numstat_line_def change_entry_def count_field_def isdigit_def nat_of_digits_def digit_val_def)

theorem working_tree_wins_witness:
  "(\<lambda>_. True) (0 :: nat) \<and> ''abc'' \<noteq> ([] :: string) \<and>
   (\<lparr>fc_path = ''b.py'', fc_status = ''added'', fc_added = 0, fc_removed = 0\<rparr>
      \<in> set (capture_git_changes sample_git (\<lambda>_. True) (Some 0) (Some ''abc'')))"
  using working_tree_wins [of "\<lambda>_. True" 0 "''abc''"
      "\<lparr>fc_path = ''b.py'', fc_status = ''added'', fc_added = 0, fc_removed = 0\<rparr>" sample_git]
  by (simp add: sample_git_working_tree)

theorem unreachable_base_degrades_witness:
  "sample_git 0 [''diff'', ''--name-status'', ''abc'' @ ''..HEAD''] = None \<and>
   capture_git_changes sample_git (\<lambda>_. True) (Some 0) (Some ''abc'') =
   capture_git_changes sample_git (\<lambda>_. True) (Some 0) None"
proof -
  have h: "sample_git 0 [''diff'', ''--name-status'', ''abc'' @ ''..HEAD''] = None"
    by (simp add: sample_git_def)
  show ?thesis using h unreachable_base_degrades [of sample_git 0 "''abc''" "\<lambda>_. True"] by blast
qed

text \<open>
  A renamed file loses its line counts: in \<open>--numstat\<close> output a rename is the single field
  \<open>old => new\<close>, and the parser keys the counts by that whole field, so the lookup by the
  new path that \<^verbatim>\<open>_capture_committed_range\<close> makes finds nothing.
\<close>

theorem numstat_rename_not_mapped_to_new_path:
  "map_of (parse_numstat (''2'' @ [TAB] @ ''7'' @ [TAB] @ ''old.py => new.py'')) ''new.py'' = None \<and>
   map_of (parse_numstat (''2'' @ [TAB] @ ''7'' @ [TAB] @ ''old.py => new.py'')) ''old.py => new.py''
     = Some (2, 7)"
  by (simp add: parse_numstat_def numstat_line_def text_defs count_field_def isdigit_def
      nat_of_digits_def digit_val_def)

end
