(* ===== verification/Json.thy ===== *)
theory Json
  imports PyValue
begin

text \<open>
  \<open>json.dumps(v, sort_keys=True, separators=(",", ":"), ensure_ascii=False)\<close> and
  \<open>json.loads\<close> of the Python standard library, which the program uses for the canonical
  identity of a memory and for the immutable digest of a job. The main fact is the round trip:
  loading a dumped value gives the value back with its mappings sorted, so the dumped text
  determines the value.

  A float is its \<open>repr\<close> text, so a float literal is kept as it is written. An escape above
  \<open>\u00ff\<close> is not in the character model and is refused like a malformed one.
\<close>

section \<open>Dumping\<close>

definition json_char :: "char \<Rightarrow> string" where
  "json_char c =
     (let n = of_char c :: nat in
      if c = CHR 0x22 \<or> c = CHR 0x5C then [CHR 0x5C, c]
      else if n = 10 then [CHR 0x5C, CHR ''n'']
      else if n = 13 then [CHR 0x5C, CHR ''r'']
      else if n = 9 then [CHR 0x5C, CHR ''t'']
      else if n = 12 then [CHR 0x5C, CHR ''f'']
      else if n = 8 then [CHR 0x5C, CHR ''b'']
      else if n < 32 then [CHR 0x5C, CHR ''u'', CHR ''0'', CHR ''0'', hex_digit (n div 16), hex_digit (n mod 16)]
      else [c])"

definition json_str :: "string \<Rightarrow> string" where
  "json_str s = CHR 0x22 # concat (map json_char s) @ [CHR 0x22]"

definition json_float :: "string \<Rightarrow> string" where
  "json_float s =
     (if s = ''nan'' then ''NaN'' else if s = ''inf'' then ''Infinity''
      else if s = ''-inf'' then ''-Infinity'' else s)"

fun json :: "py \<Rightarrow> string" where
  "json PNone = ''null''"
| "json (PBool b) = (if b then ''true'' else ''false'')"
| "json (PInt i) = show_int i"
| "json (PFloat s) = json_float s"
| "json (PStr s) = json_str s"
| "json (PList xs) = ''['' @ join '','' (map json xs) @ '']''"
| "json (PDict d) = ''{'' @ join '','' (map (\<lambda>(k, v). json_str k @ '':'' @ json v) d) @ ''}''"

fun sort_dicts :: "py \<Rightarrow> py" where
  "sort_dicts (PList xs) = PList (map sort_dicts xs)"
| "sort_dicts (PDict d) = PDict (sort_key fst (map (\<lambda>(k, v). (k, sort_dicts v)) d))"
| "sort_dicts v = v"

definition json_dumps :: "py \<Rightarrow> string" where
  "json_dumps v = json (sort_dicts v)"

section \<open>Loading\<close>

definition is_ws :: "char \<Rightarrow> bool" where
  "is_ws c \<longleftrightarrow> (let n = of_char c :: nat in n = 32 \<or> n = 9 \<or> n = 10 \<or> n = 13)"

definition skip_ws :: "string \<Rightarrow> string" where
  "skip_ws s = dropWhile is_ws s"

definition hex_val :: "char \<Rightarrow> nat option" where
  "hex_val c =
     (if is_digit c then Some (of_char c - 48)
      else if between CHR ''a'' CHR ''f'' c then Some (of_char c - 87)
      else if between CHR ''A'' CHR ''F'' c then Some (of_char c - 55)
      else None)"

definition simple_escape :: "char \<Rightarrow> char option" where
  "simple_escape c =
     (if c = CHR 0x22 \<or> c = CHR 0x5C \<or> c = CHR ''/'' then Some c
      else if c = CHR ''n'' then Some (CHR 0x0A) else if c = CHR ''r'' then Some (CHR 0x0D)
      else if c = CHR ''t'' then Some (CHR 0x09) else if c = CHR ''f'' then Some (CHR 0x0C)
      else if c = CHR ''b'' then Some (CHR 0x08) else None)"

text \<open>The rest of a string after its opening quote.\<close>

fun scan_string :: "string \<Rightarrow> (string \<times> string) option" where
  "scan_string [] = None"
| "scan_string (c # cs) =
     (if c = CHR 0x22 then Some ([], cs)
      else if (of_char c :: nat) < 32 then None
      else if c \<noteq> CHR 0x5C then map_option (\<lambda>(s, r). (c # s, r)) (scan_string cs)
      else (case cs of
          e # es \<Rightarrow>
            (case simple_escape e of
               Some x \<Rightarrow> map_option (\<lambda>(s, r). (x # s, r)) (scan_string es)
             | None \<Rightarrow>
                 (case (e, es) of
                    (u, z1 # z2 # h # l # r0) \<Rightarrow>
                      if u = CHR ''u'' \<and> z1 = CHR ''0'' \<and> z2 = CHR ''0'' then
                        (case (hex_val h, hex_val l) of
                           (Some a, Some b) \<Rightarrow>
                             map_option (\<lambda>(s, r). (char_of (16 * a + b) # s, r)) (scan_string r0)
                         | _ \<Rightarrow> None)
                      else None
                  | _ \<Rightarrow> None))
        | [] \<Rightarrow> None))"

text \<open>\<open>(-?(?:0|[1-9]\d*))(\.\d+)?([eE][-+]?\d+)?\<close>\<close>

definition scan_int :: "string \<Rightarrow> (string \<times> string) option" where
  "scan_int s =
     (let (sign, s') = (case s of c # cs \<Rightarrow> if c = CHR ''-'' then ([c], cs) else ([], s) | [] \<Rightarrow> ([], s)) in
      case s' of
        c # cs \<Rightarrow>
          if c = CHR ''0'' then Some (sign @ [c], cs)
          else if is_digit c then Some (sign @ takeWhile is_digit s', dropWhile is_digit s')
          else None
      | [] \<Rightarrow> None)"

definition scan_frac :: "string \<Rightarrow> string \<times> string" where
  "scan_frac s =
     (case s of c # d # cs \<Rightarrow>
        if c = CHR ''.'' \<and> is_digit d then (c # takeWhile is_digit (d # cs), dropWhile is_digit (d # cs))
        else ([], s)
      | _ \<Rightarrow> ([], s))"

definition scan_exp :: "string \<Rightarrow> string \<times> string" where
  "scan_exp s =
     (case s of c # d # cs \<Rightarrow>
        if c = CHR ''e'' \<or> c = CHR ''E'' then
          (if is_digit d then (c # takeWhile is_digit (d # cs), dropWhile is_digit (d # cs))
           else if d = CHR ''-'' \<or> d = CHR ''+'' then
             (if takeWhile is_digit cs = [] then ([], s) else (c # d # takeWhile is_digit cs, dropWhile is_digit cs))
           else ([], s))
        else ([], s)
      | _ \<Rightarrow> ([], s))"

definition int_of_token :: "string \<Rightarrow> int" where
  "int_of_token t =
     (case t of c # cs \<Rightarrow> if c = CHR ''-'' then - int (nat_of_digits cs) else int (nat_of_digits t)
      | [] \<Rightarrow> 0)"

definition scan_number :: "string \<Rightarrow> (py \<times> string) option" where
  "scan_number s =
     (case scan_int s of
        None \<Rightarrow> None
      | Some (i, r1) \<Rightarrow>
          (case scan_frac r1 of (f, r2) \<Rightarrow>
             case scan_exp r2 of (e, r3) \<Rightarrow>
               if f = [] \<and> e = [] then Some (PInt (int_of_token i), r3)
               else Some (PFloat (i @ f @ e), r3)))"

definition strip_prefix :: "string \<Rightarrow> string \<Rightarrow> string option" where
  "strip_prefix p s = (if startswith s p then Some (drop (length p) s) else None)"

fun scan_value :: "nat \<Rightarrow> string \<Rightarrow> (py \<times> string) option"
  and scan_items :: "nat \<Rightarrow> string \<Rightarrow> (py list \<times> string) option"
  and scan_members :: "nat \<Rightarrow> string \<Rightarrow> ((string \<times> py) list \<times> string) option"
where
  "scan_value 0 s = None"
| "scan_value (Suc n) s =
     (case s of
        [] \<Rightarrow> None
      | c # cs \<Rightarrow>
          if c = CHR 0x22 then map_option (\<lambda>(t, r). (PStr t, r)) (scan_string cs)
          else if c = CHR ''{'' then
            (case skip_ws cs of
               d # ds \<Rightarrow> if d = CHR ''}'' then Some (PDict [], ds)
                         else map_option (\<lambda>(m, r). (PDict (dict_update [] m), r)) (scan_members n (d # ds))
             | [] \<Rightarrow> None)
          else if c = CHR ''['' then
            (case skip_ws cs of
               d # ds \<Rightarrow> if d = CHR '']'' then Some (PList [], ds)
                         else map_option (\<lambda>(m, r). (PList m, r)) (scan_items n (d # ds))
             | [] \<Rightarrow> None)
          else (case strip_prefix ''null'' s of Some r \<Rightarrow> Some (PNone, r) | None \<Rightarrow>
               (case strip_prefix ''true'' s of Some r \<Rightarrow> Some (PBool True, r) | None \<Rightarrow>
               (case strip_prefix ''false'' s of Some r \<Rightarrow> Some (PBool False, r) | None \<Rightarrow>
               (case scan_number s of Some q \<Rightarrow> Some q | None \<Rightarrow>
               (case strip_prefix ''NaN'' s of Some r \<Rightarrow> Some (PFloat ''nan'', r) | None \<Rightarrow>
               (case strip_prefix ''Infinity'' s of Some r \<Rightarrow> Some (PFloat ''inf'', r) | None \<Rightarrow>
               (case strip_prefix ''-Infinity'' s of Some r \<Rightarrow> Some (PFloat ''-inf'', r)
                | None \<Rightarrow> None))))))))"
| "scan_items 0 s = None"
| "scan_items (Suc n) s =
     (case scan_value n s of
        None \<Rightarrow> None
      | Some (v, r) \<Rightarrow>
          (case skip_ws r of
             [] \<Rightarrow> None
           | d # ds \<Rightarrow>
               if d = CHR '']'' then Some ([v], ds)
               else if d = CHR '','' then map_option (\<lambda>(vs, r'). (v # vs, r')) (scan_items n (skip_ws ds))
               else None))"
| "scan_members 0 s = None"
| "scan_members (Suc n) s =
     (case s of
        [] \<Rightarrow> None
      | q # qs \<Rightarrow>
          if q \<noteq> CHR 0x22 then None
          else (case scan_string qs of
                  None \<Rightarrow> None
                | Some (k, r) \<Rightarrow>
                    (case skip_ws r of
                       [] \<Rightarrow> None
                     | c # cs \<Rightarrow>
                         if c \<noteq> CHR '':'' then None
                         else (case scan_value n (skip_ws cs) of
                                 None \<Rightarrow> None
                               | Some (v, r2) \<Rightarrow>
                                   (case skip_ws r2 of
                                      [] \<Rightarrow> None
                                    | d # ds \<Rightarrow>
                                        if d = CHR ''}'' then Some ([(k, v)], ds)
                                        else if d = CHR '','' then
                                          map_option (\<lambda>(m, r'). ((k, v) # m, r')) (scan_members n (skip_ws ds))
                                        else None)))))"

text \<open>Every recursive call of the scanner consumes a character or is followed by one that does,
  so twice the length of the text, plus one, is enough fuel.\<close>

definition json_loads :: "string \<Rightarrow> py res" where
  "json_loads s =
     (case scan_value (Suc (2 * length s)) (skip_ws s) of
        Some (v, r) \<Rightarrow> if skip_ws r = [] then Inr v else Inl (Exn CJSONDecodeError ''Extra data'')
      | None \<Rightarrow> Inl (Exn CJSONDecodeError ''Expecting value''))"

section \<open>The round trip\<close>

text \<open>Values as the program builds them: distinct keys, and floats in \<open>repr\<close> form.\<close>

definition float_token :: "string \<Rightarrow> bool" where
  "float_token s \<longleftrightarrow> s \<in> {''nan'', ''inf'', ''-inf''} \<or> scan_number s = Some (PFloat s, [])"

fun json_ok :: "py \<Rightarrow> bool" where
  "json_ok (PFloat s) = float_token s"
| "json_ok (PList xs) = list_all json_ok xs"
| "json_ok (PDict d) = (distinct (map fst d) \<and> list_all (\<lambda>(k, v). json_ok v) d)"
| "json_ok _ = True"

definition number_char :: "char \<Rightarrow> bool" where
  "number_char c \<longleftrightarrow> is_digit c \<or> c = CHR ''.'' \<or> c = CHR ''e'' \<or> c = CHR ''E''"

definition stops :: "string \<Rightarrow> bool" where
  "stops r \<longleftrightarrow> (case r of [] \<Rightarrow> True | c # cs \<Rightarrow> \<not> number_char c)"

lemma hex_val_hex_digit: "n < 16 \<Longrightarrow> hex_val (hex_digit n) = Some n"
  by (cases "n < 10") (simp_all add: hex_val_def hex_digit_def char_defs)

lemma of_char_less: "(of_char c :: nat) < 256"
  by (metis of_char_mod_256 mod_less_divisor zero_less_numeral)

lemma of_char_eq_nat:
  "of_char c = (8::nat) \<longleftrightarrow> c = CHR 0x08" "of_char c = (9::nat) \<longleftrightarrow> c = CHR 0x09"
  "of_char c = (10::nat) \<longleftrightarrow> c = CHR 0x0A" "of_char c = (12::nat) \<longleftrightarrow> c = CHR 0x0C"
  "of_char c = (13::nat) \<longleftrightarrow> c = CHR 0x0D"
  using of_char_eq_iff [of c "CHR 0x08", where 'a = nat] of_char_eq_iff [of c "CHR 0x09", where 'a = nat]
    of_char_eq_iff [of c "CHR 0x0A", where 'a = nat] of_char_eq_iff [of c "CHR 0x0C", where 'a = nat]
    of_char_eq_iff [of c "CHR 0x0D", where 'a = nat]
  by simp_all

lemma scan_string_char: "scan_string (json_char c @ r) = map_option (\<lambda>(s, r'). (c # s, r')) (scan_string r)"
proof (cases "(of_char c :: nat) < 32")
  case True
  have "char_of (16 * ((of_char c :: nat) div 16) + of_char c mod 16) = c"
    by (simp only: mult_div_mod_eq char_of_char)
  moreover have "hex_val (hex_digit (of_char c div 16)) = Some (of_char c div 16)"
    and "hex_val (hex_digit (of_char c mod 16)) = Some (of_char c mod 16)"
    using True by (auto intro!: hex_val_hex_digit)
  moreover have "c \<noteq> CHR 0x22" "c \<noteq> CHR 0x5C" using True by auto
  ultimately show ?thesis using True
    by (auto simp: json_char_def Let_def simple_escape_def of_char_eq_nat)
next
  case False
  then show ?thesis by (auto simp: json_char_def Let_def simple_escape_def)
qed

lemma scan_string_json: "scan_string (concat (map json_char s) @ CHR 0x22 # r) = Some (s, r)"
  by (induction s) (simp_all add: scan_string_char)

subsection \<open>Numbers\<close>

lemma is_digit_show: "n < 10 \<Longrightarrow> is_digit (char_of (48 + n)) \<and> digit_val (char_of (48 + n)) = n"
  by (simp add: char_defs digit_val_def)

lemma show_nat_digits: "show_nat n \<noteq> [] \<and> list_all is_digit (show_nat n)"
proof (induction n rule: show_nat.induct)
  case (1 n)
  show ?case
  proof (cases "n < 10")
    case True
    then show ?thesis using is_digit_show [of n] by (simp add: show_nat.simps)
  next
    case False
    then show ?thesis using 1 is_digit_show [of "n mod 10"] by (simp add: show_nat.simps [of n])
  qed
qed

lemma nat_of_digits_show [simp]: "nat_of_digits (show_nat n) = n"
proof (induction n rule: show_nat.induct)
  case (1 n)
  show ?case
  proof (cases "n < 10")
    case True
    then show ?thesis using is_digit_show [of n] by (simp add: show_nat.simps nat_of_digits_def)
  next
    case False
    then show ?thesis using 1 is_digit_show [of "n mod 10"]
      by (simp add: show_nat.simps [of n] nat_of_digits_def)
  qed
qed

lemma show_nat_zero: "hd (show_nat n) = CHR ''0'' \<longleftrightarrow> n = 0"
proof (induction n rule: show_nat.induct)
  case (1 n)
  show ?case
  proof (cases "n < 10")
    case True
    have "list_all (\<lambda>n. char_of (48 + n) = CHR ''0'' \<longleftrightarrow> n = 0) [0..<10]" by code_simp
    with True have "char_of (48 + n) = CHR ''0'' \<longleftrightarrow> n = 0" by (simp only: list_all_iff set_upt) simp
    with True show ?thesis by (simp add: show_nat.simps)
  next
    case False
    then have "n div 10 \<noteq> 0" by simp
    with False 1 show_nat_digits [of "n div 10"] show ?thesis by (simp add: show_nat.simps [of n])
  qed
qed

lemma digits_append:
  "stops r \<Longrightarrow> takeWhile is_digit (s @ r) = takeWhile is_digit s"
  "stops r \<Longrightarrow> dropWhile is_digit (s @ r) = dropWhile is_digit s @ r"
  by (induction s) (auto simp: stops_def number_char_def split: list.splits)

lemma digits_stop: "stops r \<Longrightarrow> takeWhile is_digit r = []" "stops r \<Longrightarrow> dropWhile is_digit r = r"
  using digits_append [of r "[]"] by simp_all

lemma scan_int_append:
  "stops r \<Longrightarrow> scan_int s = Some (i, s') \<Longrightarrow> scan_int (s @ r) = Some (i, s' @ r)"
  by (cases s; cases "tl s") (auto simp: scan_int_def digits_append digits_stop split: if_splits)

lemma scan_frac_append: "stops r \<Longrightarrow> scan_frac s = (f, s') \<Longrightarrow> scan_frac (s @ r) = (f, s' @ r)"
  by (cases s; cases "tl s"; cases r)
     (auto simp: scan_frac_def digits_append, auto simp: stops_def number_char_def split: if_splits list.splits)

lemma scan_exp_append: "stops r \<Longrightarrow> scan_exp s = (e, []) \<Longrightarrow> scan_exp (s @ r) = (e, r)"
  by (cases s; cases "tl s"; cases r)
     (auto simp: scan_exp_def digits_append split: if_splits, auto simp: stops_def number_char_def split: list.splits)

lemma scan_number_append:
  assumes "stops r" "scan_number s = Some (v, [])"
  shows "scan_number (s @ r) = Some (v, r)"
proof -
  obtain i r1 f r2 e where 1: "scan_int s = Some (i, r1)" "scan_frac r1 = (f, r2)" "scan_exp r2 = (e, [])"
    and v: "v = (if f = [] \<and> e = [] then PInt (int_of_token i) else PFloat (i @ f @ e))"
    using assms(2) by (auto simp: scan_number_def split: option.splits prod.splits if_splits)
  then show ?thesis
    using scan_int_append [OF assms(1) 1(1)] scan_frac_append [OF assms(1) 1(2)]
      scan_exp_append [OF assms(1) 1(3)]
    by (simp add: scan_number_def)
qed

lemma digit_simps [simp]: "\<not> is_digit CHR ''-''" "is_digit CHR ''0''" "\<not> is_digit CHR 0x22"
  "\<not> is_digit CHR ''{''" "\<not> is_digit CHR ''[''" "\<not> is_digit CHR ''n''" "\<not> is_digit CHR ''t''"
  "\<not> is_digit CHR ''f''" "\<not> is_digit CHR ''N''" "\<not> is_digit CHR ''I''"
  by (simp_all add: char_defs)

lemma scan_int_show: "scan_int (show_int i) = Some (show_int i, [])"
proof -
  have nat: "scan_int (show_nat n) = Some (show_nat n, []) \<and>
      scan_int (CHR ''-'' # show_nat n) = Some (CHR ''-'' # show_nat n, [])" for n
  proof -
    obtain c cs where c: "show_nat n = c # cs" using show_nat_digits [of n] by (cases "show_nat n") auto
    then have d: "is_digit c" "list_all is_digit cs" using show_nat_digits [of n] by auto
    moreover have "c = CHR ''0'' \<Longrightarrow> cs = []"
      using show_nat_zero [of n] c by (auto simp: show_nat.simps)
    moreover have "c \<noteq> CHR ''-''" using d by auto
    moreover have "takeWhile is_digit cs = cs" "dropWhile is_digit cs = []"
      using d(2) by (simp_all add: list_all_iff takeWhile_eq_all_conv)
    ultimately show ?thesis by (auto simp: scan_int_def c)
  qed
  show ?thesis by (simp add: show_int_def nat)
qed

lemma int_of_token_show: "int_of_token (show_int i) = i"
proof -
  obtain c cs where c: "show_nat (nat i) = c # cs" using show_nat_digits [of "nat i"] by (cases "show_nat (nat i)") auto
  moreover from this have "c \<noteq> CHR ''-''" using show_nat_digits [of "nat i"] by auto
  moreover from c have "nat_of_digits (c # cs) = nat i" by (metis nat_of_digits_show)
  ultimately show ?thesis by (auto simp: int_of_token_def show_int_def)
qed

lemma scan_number_show: "stops r \<Longrightarrow> scan_number (show_int i @ r) = Some (PInt i, r)"
  by (rule scan_number_append)
     (simp_all add: scan_number_def scan_int_show int_of_token_show scan_frac_def scan_exp_def)

subsection \<open>Values\<close>

text \<open>The first character of a value: no white space and no closing bracket.\<close>

lemma scan_int_head: "scan_int s = Some q \<Longrightarrow> \<exists>c cs. s = c # cs \<and> (is_digit c \<or> c = CHR ''-'')"
  by (cases s) (auto simp: scan_int_def split: if_splits)

lemma scan_number_head: "scan_number s = Some q \<Longrightarrow> \<exists>c cs. s = c # cs \<and> (is_digit c \<or> c = CHR ''-'')"
  by (auto simp: scan_number_def split: option.splits dest: scan_int_head)

definition opens :: "char \<Rightarrow> bool" where
  "opens c \<longleftrightarrow> \<not> is_ws c \<and> c \<noteq> CHR '']'' \<and> c \<noteq> CHR ''}''"

lemma opens_simps [simp]:
  "is_digit c \<Longrightarrow> opens c" "opens CHR ''-''" "opens CHR 0x22" "opens CHR ''{''" "opens CHR ''[''"
  "opens CHR ''n''" "opens CHR ''t''" "opens CHR ''f''" "opens CHR ''N''" "opens CHR ''I''"
  by (auto simp: opens_def is_ws_def char_defs)

lemma float_head:
  assumes "float_token s"
  shows "\<exists>c cs. json_float s = c # cs \<and> (is_digit c \<or> c \<in> {CHR ''-'', CHR ''N'', CHR ''I''})"
proof (cases "s \<in> {''nan'', ''inf'', ''-inf''}")
  case True
  then show ?thesis by (auto simp: json_float_def)
next
  case False
  with assms have "scan_number s = Some (PFloat s, [])" by (simp add: float_token_def)
  from scan_number_head [OF this] False show ?thesis by (auto simp: json_float_def)
qed

lemma json_head: "json_ok v \<Longrightarrow> \<exists>c cs. json v = c # cs \<and> opens c"
proof (cases v)
  case (PInt i)
  then show ?thesis using scan_int_head [OF scan_int_show [of i]] by auto
next
  case (PFloat s)
  moreover assume "json_ok v"
  ultimately show ?thesis using float_head [of s] by auto
qed (auto simp: json_str_def)

lemma skip_ws_opens: "opens c \<Longrightarrow> skip_ws (c # cs) = c # cs"
  by (simp add: skip_ws_def opens_def)

lemma skip_ws_json [simp]: "json_ok v \<Longrightarrow> skip_ws (json v @ r) = json v @ r"
  using json_head [of v] skip_ws_opens by fastforce

lemma stops_simps [simp]:
  "stops []" "stops (CHR '']'' # r)" "stops (CHR ''}'' # r)" "stops (CHR '','' # r)"
  by (simp_all add: stops_def number_char_def char_defs)

lemma skip_ws_simps [simp]:
  "skip_ws (CHR '']'' # r) = CHR '']'' # r" "skip_ws (CHR ''}'' # r) = CHR ''}'' # r"
  "skip_ws (CHR '','' # r) = CHR '','' # r" "skip_ws (CHR '':'' # r) = CHR '':'' # r"
  "skip_ws (CHR 0x22 # r) = CHR 0x22 # r" "skip_ws [] = []"
  by (simp_all add: skip_ws_def is_ws_def)

lemma strip_prefix_digit:
  "is_digit c \<or> c = CHR ''-'' \<Longrightarrow> strip_prefix ''null'' (c # cs) = None"
  "is_digit c \<or> c = CHR ''-'' \<Longrightarrow> strip_prefix ''true'' (c # cs) = None"
  "is_digit c \<or> c = CHR ''-'' \<Longrightarrow> strip_prefix ''false'' (c # cs) = None"
  by (auto simp: strip_prefix_def startswith_def)

lemma scan_value_number:
  assumes "scan_number s = Some (v, r)"
  shows "scan_value (Suc n) s = Some (v, r)"
proof -
  obtain c cs where c: "s = c # cs" "is_digit c \<or> c = CHR ''-''"
    using scan_number_head [OF assms] by blast
  have ne: "c \<noteq> CHR 0x22" "c \<noteq> CHR ''{''" "c \<noteq> CHR ''[''" using c(2) by auto
  note strip_prefix_digit [OF c(2), of cs]
  with assms ne show ?thesis by (simp only: scan_value.simps c list.case if_False option.case)
qed

lemma scan_value_float:
  assumes "float_token s" "stops r"
  shows "scan_value (Suc n) (json_float s @ r) = Some (PFloat s, r)"
proof (cases "s \<in> {''nan'', ''inf'', ''-inf''}")
  case True
  then show ?thesis
    by (auto simp: json_float_def strip_prefix_def startswith_def scan_number_def scan_int_def)
next
  case False
  with assms(1) have "scan_number s = Some (PFloat s, [])" by (simp add: float_token_def)
  from scan_value_number [OF scan_number_append [OF assms(2) this]] False
  show ?thesis by (simp add: json_float_def)
qed

text \<open>The loop over the elements, given the claim for each.\<close>

lemma scan_items_json:
  assumes "\<And>v n r. v \<in> set vs \<Longrightarrow> 2 * length (json v) < n \<Longrightarrow> stops r \<Longrightarrow>
      scan_value n (json v @ r) = Some (v, r)"
    and "list_all json_ok vs" "vs \<noteq> []" "2 * length (join '','' (map json vs)) + 1 < n"
  shows "scan_items n (join '','' (map json vs) @ CHR '']'' # r) = Some (vs, r)"
  using assms
proof (induction vs arbitrary: n)
  case Nil
  then show ?case by simp
next
  case (Cons v vs)
  obtain m where n: "n = Suc m" using Cons.prems(4) by (cases n) auto
  show ?case
  proof (cases vs)
    case Nil
    with Cons.prems n show ?thesis by simp
  next
    case (Cons w ws)
    let ?rest = "join '','' (map json vs) @ CHR '']'' # r"
    have j: "join '','' (map json (v # vs)) = json v @ '','' @ join '','' (map json vs)"
      by (simp add: Cons)
    have "scan_value m (json v @ CHR '','' # ?rest) = Some (v, CHR '','' # ?rest)"
      using Cons.prems(1,4) n j by simp
    moreover have "scan_items m ?rest = Some (vs, r)"
      by (rule Cons.IH) (use Cons.prems n j Cons in auto)
    moreover have "skip_ws ?rest = ?rest"
      using Cons.prems(2) by (cases ws) (simp_all add: Cons)
    ultimately show ?thesis unfolding j n by simp
  qed
qed

lemma scan_members_json:
  assumes "\<And>k v n r. (k, v) \<in> set d \<Longrightarrow> 2 * length (json v) < n \<Longrightarrow> stops r \<Longrightarrow>
      scan_value n (json v @ r) = Some (v, r)"
    and "list_all (\<lambda>(k, v). json_ok v) d" "d \<noteq> []"
    and "2 * length (join '','' (map (\<lambda>(k, v). json_str k @ '':'' @ json v) d)) + 1 < n"
  shows "scan_members n (join '','' (map (\<lambda>(k, v). json_str k @ '':'' @ json v) d) @ CHR ''}'' # r) = Some (d, r)"
  using assms
proof (induction d arbitrary: n)
  case Nil
  then show ?case by simp
next
  case (Cons kv d)
  obtain k v where kv: "kv = (k, v)" by (cases kv)
  obtain m where n: "n = Suc m" using Cons.prems(4) by (cases n) auto
  let ?j = "\<lambda>d. join '','' (map (\<lambda>(k, v). json_str k @ '':'' @ json v) d)"
  show ?case
  proof (cases d)
    case Nil
    with Cons.prems n kv show ?thesis by (simp add: json_str_def scan_string_json)
  next
    case (Cons w ws)
    let ?rest = "?j d @ CHR ''}'' # r"
    have j: "?j (kv # d) = CHR 0x22 # concat (map json_char k) @ CHR 0x22 # CHR '':'' # json v @ CHR '','' # ?j d"
      by (simp add: Cons kv json_str_def)
    have "scan_value m (json v @ CHR '','' # ?rest) = Some (v, CHR '','' # ?rest)"
      using Cons.prems(1) [of k v m] Cons.prems(4) n j kv by simp
    moreover have "scan_members m ?rest = Some (d, r)"
      by (rule Cons.IH) (use Cons.prems n j Cons in auto)
    moreover have "skip_ws ?rest = ?rest"
      by (cases ws) (simp_all add: Cons json_str_def split: prod.splits)
    ultimately show ?thesis using Cons.prems(2) kv unfolding j n
      by (simp add: scan_string_json)
  qed
qed

text \<open>Scanning what was written gives the value back.\<close>

lemma scan_value_json:
  "json_ok v \<Longrightarrow> 2 * length (json v) < n \<Longrightarrow> stops r \<Longrightarrow> scan_value n (json v @ r) = Some (v, r)"
proof (induction v arbitrary: n r)
  case PNone
  then show ?case by (cases n) (auto simp: strip_prefix_def startswith_def)
next
  case (PBool b)
  then show ?case by (cases n) (auto simp: strip_prefix_def startswith_def)
next
  case (PInt i)
  then obtain m where "n = Suc m" by (cases n) auto
  then show ?case using scan_value_number [OF scan_number_show [OF PInt.prems(3)]] by simp
next
  case (PFloat s)
  then obtain m where "n = Suc m" by (cases n) auto
  then show ?case using PFloat scan_value_float by simp
next
  case (PStr s)
  then show ?case by (cases n) (auto simp: json_str_def scan_string_json)
next
  case (PList xs)
  then obtain m where n: "n = Suc m" by (cases n) auto
  show ?case
  proof (cases xs)
    case Nil
    then show ?thesis by (simp add: n)
  next
    case (Cons x ys)
    have "scan_items m (join '','' (map json xs) @ CHR '']'' # r) = Some (xs, r)"
      by (rule scan_items_json) (use PList n Cons in \<open>auto simp: list_all_iff\<close>)
    moreover obtain c cs where c: "json x = c # cs" "opens c"
      using PList.prems(1) Cons json_head [of x] by auto
    moreover have "\<exists>t. join '','' (map json xs) = json x @ t" by (cases ys) (auto simp: Cons)
    ultimately show ?thesis by (auto simp: n skip_ws_opens opens_def)
  qed
next
  case (PDict d)
  then obtain m where n: "n = Suc m" by (cases n) auto
  let ?j = "join '','' (map (\<lambda>(k, v). json_str k @ '':'' @ json v) d)"
  show ?case
  proof (cases d)
    case Nil
    then show ?thesis by (simp add: n dict_update_def)
  next
    case (Cons kv d')
    have "scan_members m (?j @ CHR ''}'' # r) = Some (d, r)"
    proof (rule scan_members_json)
      fix k v n r assume "(k, v) \<in> set d" "2 * length (json v) < n" "stops r"
      with PDict show "scan_value n (json v @ r) = Some (v, r)" by (force simp: list_all_iff)
    qed (use PDict.prems n Cons in auto)
    moreover have "\<exists>t. ?j = CHR 0x22 # t" by (cases d') (auto simp: Cons json_str_def split: prod.splits)
    moreover have "dict_update [] d = d"
    proof -
      have "fold (\<lambda>(k, v). AList.update k v) d e = e @ d"
        if "distinct (map fst (e @ d))" for e d :: "(string \<times> py) list"
        using that
      proof (induction d arbitrary: e)
        case (Cons kv d)
        obtain k v where kv: "kv = (k, v)" by (cases kv)
        with Cons.prems have "k \<notin> fst ` set e" by auto
        then have "AList.update k v e = e @ [(k, v)]" by (induction e) auto
        with Cons kv show ?case by simp
      qed simp
      from this [of "[]" d] PDict.prems(1) show ?thesis by (simp add: dict_update_def)
    qed
    ultimately show ?thesis by (auto simp: n)
  qed
qed

lemma distinct_map_sort_key: "distinct (map f (sort_key g xs)) = distinct (map f xs)"
  by (simp add: distinct_map)

lemma sort_dicts_get:
  assumes "distinct (map fst d)" "distinct (map fst e)" "sort_dicts (PDict d) = sort_dicts (PDict e)"
  shows "sort_dicts (get d k) = sort_dicts (get e k)"
proof -
  have m: "map_of (sort_key fst (map (\<lambda>(k, v). (k, sort_dicts v)) d)) = map_option sort_dicts \<circ> map_of d"
    if "distinct (map fst d)" for d :: "(string \<times> py) list"
  proof -
    have keys: "map fst (map (\<lambda>(k, v). (k, sort_dicts v)) d) = map fst d" by (induction d) auto
    have "map_of (sort_key fst (map (\<lambda>(k, v). (k, sort_dicts v)) d)) = map_of (map (\<lambda>(k, v). (k, sort_dicts v)) d)"
      by (subst map_of_inject_set) (simp_all only: distinct_map_sort_key keys that set_sort)
    also have "\<dots> = map_option sort_dicts \<circ> map_of d" by (simp add: fun_eq_iff map_of_map)
    finally show ?thesis .
  qed
  from assms(3) have "map_of (sort_key fst (map (\<lambda>(k, v). (k, sort_dicts v)) d))
      = map_of (sort_key fst (map (\<lambda>(k, v). (k, sort_dicts v)) e))" by simp
  then have "map_option sort_dicts (map_of d k) = map_option sort_dicts (map_of e k)"
    unfolding m [OF assms(1)] m [OF assms(2)] by (simp add: fun_eq_iff)
  then show ?thesis by (auto simp: get_def split: option.splits)
qed

lemma json_ok_sort_dicts: "json_ok v \<Longrightarrow> json_ok (sort_dicts v)"
proof (induction v)
  case (PDict d)
  let ?d = "map (\<lambda>(k, v). (k, sort_dicts v)) d"
  have keys: "map fst ?d = map fst d" by (induction d) auto
  have "distinct (map fst (sort_key fst ?d))"
    using PDict.prems by (simp only: distinct_map_sort_key keys) simp
  moreover have "list_all (\<lambda>(k, v). json_ok v) (sort_key fst ?d)"
    using PDict by (force simp: list_all_iff)
  ultimately show ?case by simp
qed (auto simp: list_all_iff)

lemma json_loads_dumps: "json_ok v \<Longrightarrow> json_loads (json_dumps v) = Inr (sort_dicts v)"
proof -
  assume "json_ok v"
  then have ok: "json_ok (sort_dicts v)" by (rule json_ok_sort_dicts)
  have "scan_value (Suc (2 * length (json (sort_dicts v)))) (json (sort_dicts v) @ []) = Some (sort_dicts v, [])"
    by (rule scan_value_json [OF ok]) simp_all
  moreover have "skip_ws (json (sort_dicts v)) = json (sort_dicts v)"
    using skip_ws_json [OF ok, of "[]"] by simp
  ultimately show ?thesis by (simp add: json_loads_def json_dumps_def)
qed

lemma json_dumps_inject:
  "json_ok u \<Longrightarrow> json_ok v \<Longrightarrow> json_dumps u = json_dumps v \<Longrightarrow> sort_dicts u = sort_dicts v"
  by (metis json_loads_dumps sum.inject(2))



section \<open>The YAML library\<close>

text \<open>
  PyYAML is a parameter: \<open>safe_dump(v, sort_keys=False)\<close> and \<open>safe_load\<close>. What the program
  relies on is that loading a dumped document gives it back. JSON text is YAML, and the codec
  that writes it is an instance of the parameter.
\<close>

record codec =
  dump :: "py \<Rightarrow> string"
  load :: "string \<Rightarrow> py res"

definition codec_ok :: "codec \<Rightarrow> bool" where
  "codec_ok Y \<longleftrightarrow> (\<forall>v. json_ok v \<longrightarrow> load Y (dump Y v) = Inr v)"

lemma codec_okD: "codec_ok Y \<Longrightarrow> json_ok v \<Longrightarrow> load Y (dump Y v) = Inr v"
  by (simp add: codec_ok_def)

definition json_codec :: codec where
  "json_codec = \<lparr>dump = json, load = json_loads\<rparr>"

lemma codec_ok_json: "codec_ok json_codec"
proof -
  have "json_loads (json v) = Inr v" if "json_ok v" for v
    using scan_value_json [OF that, of "Suc (2 * length (json v))" "[]"] skip_ws_json [OF that, of "[]"]
    by (simp add: json_loads_def)
  then show ?thesis by (simp add: codec_ok_def json_codec_def)
qed

end
