(* ===== verification/JobModels.thy ===== *)
theory JobModels
  imports Json
begin

text \<open>
  The durable job document: \<^verbatim>\<open>agency/jobs/models.py\<close>, with \<open>BlueprintRef\<close>,
  \<open>RuntimePolicySnapshot\<close>, \<open>MemoryBinding\<close>, \<open>JobSpec\<close> and \<open>JobRecord\<close>.

  A field that \<open>from_dict\<close> does not check keeps the decoded value it has in the document, so
  it is a \<^typ>\<open>py\<close>; a path in a document is its text. The hash function is a parameter
  \<open>H\<close>: nothing below depends on which one it is, and the one fact that does (distinct
  specifications get distinct digests) states its hypothesis.
\<close>

section \<open>Building objects from decoded mappings\<close>

text \<open>\<open>C(**v)\<close> for a data class: every required field is there and no other name.\<close>

definition kwargs :: "string list \<Rightarrow> string list \<Rightarrow> (string \<times> py) list \<Rightarrow> unit res" where
  "kwargs required optional d =
     assertR (set required \<subseteq> fst ` set d \<and> fst ` set d \<subseteq> set required \<union> set optional)
       (Exn CTypeError ''unexpected or missing keyword argument'')"

definition mapping_args :: "py \<Rightarrow> (string \<times> py) list res" where
  "mapping_args v = (case v of PDict d \<Rightarrow> Inr d | _ \<Rightarrow> Inl (Exn CTypeError ''argument after ** must be a mapping''))"

section \<open>Nested snapshots\<close>

record blueprint_ref =
  br_key :: py
  br_source_digest :: py
  br_integration :: py
  br_projector_version :: py
  br_cache_path :: py

definition blueprint_ref_fields :: "string list" where
  "blueprint_ref_fields = [''key'', ''source_digest'', ''integration'', ''projector_version'', ''cache_path'']"

definition blueprint_ref_of :: "(string \<times> py) list \<Rightarrow> blueprint_ref res" where
  "blueprint_ref_of d = bindR (kwargs blueprint_ref_fields [] d) (\<lambda>_. Inr
     \<lparr>br_key = get d ''key'', br_source_digest = get d ''source_digest'',
      br_integration = get d ''integration'', br_projector_version = get d ''projector_version'',
      br_cache_path = get d ''cache_path''\<rparr>)"

definition blueprint_ref_dict :: "blueprint_ref \<Rightarrow> (string \<times> py) list" where
  "blueprint_ref_dict b =
     [(''key'', br_key b), (''source_digest'', br_source_digest b), (''integration'', br_integration b),
      (''projector_version'', br_projector_version b), (''cache_path'', br_cache_path b)]"

record policy_snapshot =
  rp_timeout :: py
  rp_sandbox_mode :: py
  rp_sandbox_roots :: "py list"
  rp_tool_mode :: py
  rp_tool_names :: "py list"

text \<open>\<open>tuple(d.get(k) or ())\<close>\<close>

definition tuple_of :: "(string \<times> py) list \<Rightarrow> string \<Rightarrow> py list res" where
  "tuple_of d k = (if truthy (get d k) then iter_py (get d k) else Inr [])"

definition policy_snapshot_of :: "(string \<times> py) list \<Rightarrow> policy_snapshot res" where
  "policy_snapshot_of d =
     bindR (tuple_of d ''sandbox_roots'') (\<lambda>roots.
     bindR (tuple_of d ''tool_names'') (\<lambda>names.
     let d' = AList.update ''tool_names'' (PList names) (AList.update ''sandbox_roots'' (PList roots) d) in
     bindR (kwargs [''timeout'', ''sandbox_mode'', ''sandbox_roots'', ''tool_mode''] [''tool_names''] d') (\<lambda>_. Inr
       \<lparr>rp_timeout = get d' ''timeout'', rp_sandbox_mode = get d' ''sandbox_mode'',
        rp_sandbox_roots = roots, rp_tool_mode = get d' ''tool_mode'', rp_tool_names = names\<rparr>)))"

definition policy_snapshot_dict :: "policy_snapshot \<Rightarrow> (string \<times> py) list" where
  "policy_snapshot_dict p =
     [(''timeout'', rp_timeout p), (''sandbox_mode'', rp_sandbox_mode p),
      (''sandbox_roots'', PList (rp_sandbox_roots p)), (''tool_mode'', rp_tool_mode p),
      (''tool_names'', PList (rp_tool_names p))]"

record memory_binding =
  mb_selector :: py
  mb_canonical_json :: py
  mb_memory_hash :: py
  mb_path :: py

definition memory_binding_of :: "(string \<times> py) list \<Rightarrow> memory_binding res" where
  "memory_binding_of d =
     bindR (kwargs [''selector'', ''canonical_json'', ''memory_hash'', ''path''] [] d) (\<lambda>_. Inr
       \<lparr>mb_selector = get d ''selector'', mb_canonical_json = get d ''canonical_json'',
        mb_memory_hash = get d ''memory_hash'', mb_path = get d ''path''\<rparr>)"

definition memory_binding_dict :: "memory_binding \<Rightarrow> (string \<times> py) list" where
  "memory_binding_dict m =
     [(''selector'', mb_selector m), (''canonical_json'', mb_canonical_json m),
      (''memory_hash'', mb_memory_hash m), (''path'', mb_path m)]"

section \<open>\<open>JobSpec\<close>\<close>

record job_spec =
  js_schema_version :: py
  js_job_id :: py
  js_config_path :: py
  js_config_revision :: py
  js_group_key :: py
  js_workspace_root :: py
  js_group_root :: py
  js_agent_name :: py
  js_trigger :: py
  js_integration_name :: py
  js_integration_config :: "(string \<times> py) list"
  js_blueprint :: blueprint_ref
  js_routine_id :: py
  js_skill :: py
  js_skill_arguments :: "py list"
  js_task_input :: py
  js_runtime_policy :: policy_snapshot
  js_memory :: memory_binding
  js_trigger_context :: py
  js_prompt_source :: py
  js_timeout_override :: py
  js_created_at :: py

definition schema_version :: int where
  "schema_version = 3"

definition valid_triggers :: "string list" where
  "valid_triggers = [''scheduled_prompt'', ''manual_prompt'', ''decision'', ''decision_retry'']"

definition valid_statuses :: "string list" where
  "valid_statuses = [''queued'', ''waiting_for_memory'', ''running'', ''complete'', ''failed'', ''cancelled'']"

text \<open>\<open>v != SCHEMA_VERSION\<close>: Python compares an integer with a float by value.\<close>

definition is_schema_version :: "py \<Rightarrow> bool" where
  "is_schema_version v \<longleftrightarrow> v = PInt schema_version \<or> v = PFloat ''3.0''"

definition value_error :: "string \<Rightarrow> exn" where
  "value_error s = Exn CValueError s"

definition type_error :: "string \<Rightarrow> exn" where
  "type_error s = Exn CTypeError s"

definition spec_string_fields :: "job_spec \<Rightarrow> (string \<times> py) list" where
  "spec_string_fields s =
     [(''job_id'', js_job_id s), (''config_revision'', js_config_revision s), (''group_key'', js_group_key s),
      (''workspace_root'', js_workspace_root s), (''group_root'', js_group_root s),
      (''agent_name'', js_agent_name s), (''trigger'', js_trigger s),
      (''integration_name'', js_integration_name s), (''task_input'', js_task_input s)]"

text \<open>\<open>not v.strip()\<close> for a string.\<close>

definition blank :: "py \<Rightarrow> bool" where
  "blank v \<longleftrightarrow> strip (text_of v) = []"

definition spec_validate :: "job_spec \<Rightarrow> unit res" where
  "spec_validate s =
     bindR (assertR (is_schema_version (js_schema_version s))
              (value_error (''Unsupported job schema version: '' @ str_of (js_schema_version s)))) (\<lambda>_.
     bindR (foldR (\<lambda>(name, v) _. assertR (is_str v) (type_error (name @ '' must be a string'')))
              (spec_string_fields s) ()) (\<lambda>_.
     bindR (assertR (text_of (js_trigger s) \<in> set valid_triggers)
              (value_error (''Invalid job trigger: '' @ text_of (js_trigger s)))) (\<lambda>_.
     bindR (assertR (\<not> blank (js_job_id s)) (value_error ''Job ID is required'')) (\<lambda>_.
     bindR (assertR (\<not> blank (js_group_key s)) (value_error ''Group key is required'')) (\<lambda>_.
     bindR (assertR (\<not> blank (js_agent_name s)) (value_error ''Agent name is required'')) (\<lambda>_.
     bindR (assertR (\<not> blank (js_task_input s)) (value_error ''Prompt content must not be blank'')) (\<lambda>_.
     bindR (assertR (text_of (js_trigger s) \<in> {''scheduled_prompt'', ''manual_prompt''} \<longrightarrow>
                       truthy (js_routine_id s) \<and> truthy (js_skill s))
              (value_error ''scheduled and manual jobs require routine_id and skill'')) (\<lambda>_.
     assertR (text_of (js_trigger s) \<in> {''decision'', ''decision_retry''} \<longrightarrow>
                js_routine_id s = PNone \<and> js_skill s = PNone)
       (value_error ''decision jobs require routine_id and skill to be null'')))))))))"

definition spec_to_dict :: "job_spec \<Rightarrow> (string \<times> py) list" where
  "spec_to_dict s =
     [(''schema_version'', js_schema_version s), (''job_id'', js_job_id s),
      (''config_path'', js_config_path s), (''config_revision'', js_config_revision s),
      (''group_key'', js_group_key s), (''workspace_root'', js_workspace_root s),
      (''group_root'', js_group_root s), (''agent_name'', js_agent_name s), (''trigger'', js_trigger s),
      (''integration_name'', js_integration_name s),
      (''integration_config'', PDict (js_integration_config s)),
      (''blueprint'', PDict (blueprint_ref_dict (js_blueprint s))),
      (''routine_id'', js_routine_id s), (''skill'', js_skill s),
      (''skill_arguments'', PList (js_skill_arguments s)), (''task_input'', js_task_input s),
      (''runtime_policy'', PDict (policy_snapshot_dict (js_runtime_policy s))),
      (''memory'', PDict (memory_binding_dict (js_memory s))),
      (''trigger_context'', js_trigger_context s), (''prompt_source'', js_prompt_source s),
      (''timeout_override'', js_timeout_override s), (''created_at'', js_created_at s)]"

definition spec_fields :: "string list" where
  "spec_fields =
     [''schema_version'', ''job_id'', ''config_path'', ''config_revision'', ''group_key'', ''workspace_root'',
      ''group_root'', ''agent_name'', ''trigger'', ''integration_name'', ''integration_config'', ''blueprint'',
      ''routine_id'', ''skill'', ''skill_arguments'', ''task_input'', ''runtime_policy'', ''memory'',
      ''trigger_context'', ''prompt_source'', ''timeout_override'', ''created_at'']"

definition authority_domain :: string where
  "authority_domain = ''agency-job-authority:v1'' @ [CHR 0x00]"

definition immutable_digest :: "(string \<Rightarrow> string) \<Rightarrow> job_spec \<Rightarrow> string" where
  "immutable_digest H s = H (authority_domain @ utf8_encode (json_dumps (PDict (spec_to_dict s))))"

definition spec_from_dict :: "(string \<times> py) list \<Rightarrow> job_spec res" where
  "spec_from_dict d =
     bindR (dict_of (por (get d ''integration_config'') (PDict []))) (\<lambda>config.
     bindR (bindR (dict_item d ''blueprint'') (\<lambda>v. bindR (mapping_args v) blueprint_ref_of)) (\<lambda>blueprint.
     bindR (bindR (dict_item d ''runtime_policy'') (\<lambda>v. bindR (dict_of v) policy_snapshot_of)) (\<lambda>policy.
     bindR (bindR (dict_item d ''memory'') (\<lambda>v. bindR (mapping_args v) memory_binding_of)) (\<lambda>memory.
     bindR (tuple_of d ''skill_arguments'') (\<lambda>args.
     let d' = AList.update ''skill_arguments'' (PList args) (AList.update ''integration_config'' (PDict config) d) in
     bindR (kwargs spec_fields [] d') (\<lambda>_.
     let s = \<lparr>js_schema_version = get d' ''schema_version'', js_job_id = get d' ''job_id'',
              js_config_path = get d' ''config_path'', js_config_revision = get d' ''config_revision'',
              js_group_key = get d' ''group_key'', js_workspace_root = get d' ''workspace_root'',
              js_group_root = get d' ''group_root'', js_agent_name = get d' ''agent_name'',
              js_trigger = get d' ''trigger'', js_integration_name = get d' ''integration_name'',
              js_integration_config = config, js_blueprint = blueprint,
              js_routine_id = get d' ''routine_id'', js_skill = get d' ''skill'',
              js_skill_arguments = args, js_task_input = get d' ''task_input'',
              js_runtime_policy = policy, js_memory = memory,
              js_trigger_context = get d' ''trigger_context'', js_prompt_source = get d' ''prompt_source'',
              js_timeout_override = get d' ''timeout_override'', js_created_at = get d' ''created_at''\<rparr> in
     bindR (spec_validate s) (\<lambda>_. Inr s)))))))"

section \<open>\<open>JobRecord\<close>\<close>

record job_record =
  jr_spec :: job_spec
  jr_authority_digest :: py
  jr_status :: py
  jr_worker_pid :: py
  jr_started_at :: py
  jr_completed_at :: py
  jr_stdout_path :: py
  jr_stderr_path :: py
  jr_exit_code :: py
  jr_duration_seconds :: py
  jr_changed_files :: py
  jr_execution_summary :: py
  jr_base_sha :: py
  jr_memory_publication :: py

definition record_fields :: "string list" where
  "record_fields =
     [''authority_digest'', ''status'', ''worker_pid'', ''started_at'', ''completed_at'', ''stdout_path'',
      ''stderr_path'', ''exit_code'', ''duration_seconds'', ''changed_files'', ''execution_summary'',
      ''base_sha'', ''memory_publication'']"

text \<open>\<open>JobRecord(spec=spec, **values)\<close>\<close>

definition new_record :: "job_spec \<Rightarrow> (string \<times> py) list \<Rightarrow> job_record" where
  "new_record s d =
     \<lparr>jr_spec = s, jr_authority_digest = get_or d ''authority_digest'' (PStr []),
      jr_status = get_or d ''status'' (PStr ''queued''), jr_worker_pid = get d ''worker_pid'',
      jr_started_at = get d ''started_at'', jr_completed_at = get d ''completed_at'',
      jr_stdout_path = get d ''stdout_path'', jr_stderr_path = get d ''stderr_path'',
      jr_exit_code = get d ''exit_code'', jr_duration_seconds = get d ''duration_seconds'',
      jr_changed_files = get_or d ''changed_files'' (PList []),
      jr_execution_summary = get d ''execution_summary'', jr_base_sha = get d ''base_sha'',
      jr_memory_publication = get d ''memory_publication''\<rparr>"

definition record_from_spec :: "(string \<Rightarrow> string) \<Rightarrow> job_spec \<Rightarrow> job_record res" where
  "record_from_spec H s = bindR (spec_validate s) (\<lambda>_.
     Inr (new_record s [(''authority_digest'', PStr (immutable_digest H s))]))"

definition record_values :: "job_record \<Rightarrow> (string \<times> py) list" where
  "record_values r =
     [(''authority_digest'', jr_authority_digest r), (''status'', jr_status r),
      (''worker_pid'', jr_worker_pid r), (''started_at'', jr_started_at r),
      (''completed_at'', jr_completed_at r), (''stdout_path'', jr_stdout_path r),
      (''stderr_path'', jr_stderr_path r), (''exit_code'', jr_exit_code r),
      (''duration_seconds'', jr_duration_seconds r), (''changed_files'', jr_changed_files r),
      (''execution_summary'', jr_execution_summary r), (''base_sha'', jr_base_sha r),
      (''memory_publication'', jr_memory_publication r)]"

definition record_to_dict :: "job_record \<Rightarrow> (string \<times> py) list" where
  "record_to_dict r = (''spec'', PDict (spec_to_dict (jr_spec r))) # record_values r"

definition record_from_dict :: "(string \<Rightarrow> string) \<Rightarrow> py \<Rightarrow> job_record res" where
  "record_from_dict H data =
     bindR (dict_of data) (\<lambda>values.
     bindR (bindR (dict_item values ''spec'') (\<lambda>v. bindR (dict_of v) spec_from_dict)) (\<lambda>s.
     let rest = AList.delete ''spec'' values in
     bindR (kwargs [] record_fields rest) (\<lambda>_.
     let r = new_record s rest in
     bindR (assertR (jr_authority_digest r = PStr (immutable_digest H s))
              (value_error ''immutable job authority digest mismatch'')) (\<lambda>_.
     bindR (in_str_set (jr_status r) valid_statuses) (\<lambda>known.
     bindR (assertR known (value_error (''Invalid job status: '' @ str_of (jr_status r)))) (\<lambda>_.
     Inr r))))))"

section \<open>Facts\<close>

text \<open>What a valid specification is.\<close>

definition spec_ok :: "job_spec \<Rightarrow> bool" where
  "spec_ok s \<longleftrightarrow>
     is_schema_version (js_schema_version s) \<and> list_all (is_str \<circ> snd) (spec_string_fields s) \<and>
     text_of (js_trigger s) \<in> set valid_triggers \<and>
     \<not> blank (js_job_id s) \<and> \<not> blank (js_group_key s) \<and> \<not> blank (js_agent_name s) \<and> \<not> blank (js_task_input s) \<and>
     (if text_of (js_trigger s) \<in> {''scheduled_prompt'', ''manual_prompt''}
      then truthy (js_routine_id s) \<and> truthy (js_skill s)
      else js_routine_id s = PNone \<and> js_skill s = PNone)"

lemma foldR_assert: "foldR (\<lambda>x _. assertR (P x) (e x)) xs () = Inr u \<longleftrightarrow> list_all P xs"
  by (induction xs) (auto simp: bindR_Inr_iff)

lemma spec_validate_iff: "spec_validate s = Inr () \<longleftrightarrow> spec_ok s"
  using foldR_assert [of "\<lambda>(n, v). is_str v" "\<lambda>(n, v). type_error (n @ '' must be a string'')" "spec_string_fields s"]
  by (auto simp: spec_validate_def spec_ok_def bindR_Inr_iff valid_triggers_def case_prod_unfold o_def)

lemma mapping_args_dict [simp]: "mapping_args (PDict d) = Inr d"
  by (simp add: mapping_args_def)

lemma blueprint_ref_roundtrip [simp]: "blueprint_ref_of (blueprint_ref_dict b) = Inr b"
  by (simp add: blueprint_ref_of_def blueprint_ref_dict_def kwargs_def assertR_def blueprint_ref_fields_def)

lemma tuple_of_list: "get d k = PList xs \<Longrightarrow> tuple_of d k = Inr xs"
  by (simp add: tuple_of_def)

lemma policy_snapshot_roundtrip [simp]: "policy_snapshot_of (policy_snapshot_dict p) = Inr p"
  by (simp add: policy_snapshot_of_def policy_snapshot_dict_def tuple_of_list kwargs_def assertR_def)

lemma memory_binding_roundtrip [simp]: "memory_binding_of (memory_binding_dict m) = Inr m"
  by (simp add: memory_binding_of_def memory_binding_dict_def kwargs_def assertR_def)

lemma por_dict [simp]: "por (PDict d) (PDict []) = PDict d"
  by (simp add: por_def)

lemma spec_to_dict_keys: "map fst (spec_to_dict s) = spec_fields"
  by (simp add: spec_to_dict_def spec_fields_def)

lemma spec_to_dict_update:
  "AList.update ''integration_config'' (PDict (js_integration_config s)) (spec_to_dict s) = spec_to_dict s"
  "AList.update ''skill_arguments'' (PList (js_skill_arguments s)) (spec_to_dict s) = spec_to_dict s"
  by (simp_all add: spec_to_dict_def)

lemma spec_kwargs: "kwargs spec_fields [] (spec_to_dict s) = Inr ()"
  using spec_to_dict_keys [of s] by (simp add: kwargs_def) (metis list.set_map order_refl)

lemma spec_to_dict_gets:
  "get (spec_to_dict s) ''schema_version'' = js_schema_version s" "get (spec_to_dict s) ''job_id'' = js_job_id s"
  "get (spec_to_dict s) ''config_path'' = js_config_path s"
  "get (spec_to_dict s) ''config_revision'' = js_config_revision s"
  "get (spec_to_dict s) ''group_key'' = js_group_key s"
  "get (spec_to_dict s) ''workspace_root'' = js_workspace_root s"
  "get (spec_to_dict s) ''group_root'' = js_group_root s" "get (spec_to_dict s) ''agent_name'' = js_agent_name s"
  "get (spec_to_dict s) ''trigger'' = js_trigger s"
  "get (spec_to_dict s) ''integration_name'' = js_integration_name s"
  "get (spec_to_dict s) ''integration_config'' = PDict (js_integration_config s)"
  "get (spec_to_dict s) ''routine_id'' = js_routine_id s" "get (spec_to_dict s) ''skill'' = js_skill s"
  "get (spec_to_dict s) ''skill_arguments'' = PList (js_skill_arguments s)"
  "get (spec_to_dict s) ''task_input'' = js_task_input s"
  "get (spec_to_dict s) ''trigger_context'' = js_trigger_context s"
  "get (spec_to_dict s) ''prompt_source'' = js_prompt_source s"
  "get (spec_to_dict s) ''timeout_override'' = js_timeout_override s"
  "get (spec_to_dict s) ''created_at'' = js_created_at s"
  by (simp_all add: spec_to_dict_def)

lemma spec_to_dict_items:
  "dict_item (spec_to_dict s) ''blueprint'' = Inr (PDict (blueprint_ref_dict (js_blueprint s)))"
  "dict_item (spec_to_dict s) ''runtime_policy'' = Inr (PDict (policy_snapshot_dict (js_runtime_policy s)))"
  "dict_item (spec_to_dict s) ''memory'' = Inr (PDict (memory_binding_dict (js_memory s)))"
  by (simp_all add: dict_item_def spec_to_dict_def)

lemma spec_eta:
  "\<lparr>js_schema_version = js_schema_version s, js_job_id = js_job_id s, js_config_path = js_config_path s,
    js_config_revision = js_config_revision s, js_group_key = js_group_key s,
    js_workspace_root = js_workspace_root s, js_group_root = js_group_root s,
    js_agent_name = js_agent_name s, js_trigger = js_trigger s, js_integration_name = js_integration_name s,
    js_integration_config = js_integration_config s, js_blueprint = js_blueprint s,
    js_routine_id = js_routine_id s, js_skill = js_skill s, js_skill_arguments = js_skill_arguments s,
    js_task_input = js_task_input s, js_runtime_policy = js_runtime_policy s, js_memory = js_memory s,
    js_trigger_context = js_trigger_context s, js_prompt_source = js_prompt_source s,
    js_timeout_override = js_timeout_override s, js_created_at = js_created_at s\<rparr> = s"
  by (cases s) simp

lemma spec_roundtrip: "spec_ok s \<Longrightarrow> spec_from_dict (spec_to_dict s) = Inr s"
  using spec_validate_iff [of s]
  by (simp add: spec_from_dict_def spec_to_dict_gets spec_to_dict_items spec_to_dict_update spec_kwargs
      tuple_of_list Let_def spec_eta)

text \<open>A record as the store holds it.\<close>

definition record_ok :: "(string \<Rightarrow> string) \<Rightarrow> job_record \<Rightarrow> bool" where
  "record_ok H r \<longleftrightarrow> spec_ok (jr_spec r) \<and>
     jr_authority_digest r = PStr (immutable_digest H (jr_spec r)) \<and>
     (\<exists>s\<in>set valid_statuses. jr_status r = PStr s)"

lemma record_from_dict_ok: "record_from_dict H data = Inr r \<Longrightarrow> record_ok H r"
proof -
  assume "record_from_dict H data = Inr r"
  then obtain d s where s: "spec_from_dict d = Inr s" "jr_spec r = s"
      "jr_authority_digest r = PStr (immutable_digest H s)" "in_str_set (jr_status r) valid_statuses = Inr True"
    by (auto simp: record_from_dict_def bindR_Inr_iff Let_def new_record_def)
  have "spec_ok s" using s(1) spec_validate_iff
    by (auto simp: spec_from_dict_def bindR_Inr_iff Let_def)
  with s show ?thesis by (auto simp: record_ok_def in_str_set_True)
qed

lemma record_roundtrip: "record_ok H r \<Longrightarrow> record_from_dict H (PDict (record_to_dict r)) = Inr r"
proof -
  assume ok: "record_ok H r"
  have "new_record (jr_spec r) (record_values r) = r"
    by (cases r) (simp add: new_record_def record_values_def)
  moreover have "AList.delete ''spec'' (record_to_dict r) = record_values r"
    by (simp add: record_to_dict_def record_values_def AList.delete_eq)
  moreover have "kwargs [] record_fields (record_values r) = Inr ()"
    by (simp add: kwargs_def record_fields_def record_values_def)
  moreover have "dict_item (record_to_dict r) ''spec'' = Inr (PDict (spec_to_dict (jr_spec r)))"
    by (simp add: dict_item_def record_to_dict_def)
  moreover have "in_str_set (jr_status r) valid_statuses = Inr True"
    using ok by (auto simp: record_ok_def in_str_set_True)
  ultimately show ?thesis using ok spec_roundtrip [of "jr_spec r"]
    by (simp add: record_from_dict_def record_ok_def Let_def)
qed

text \<open>
  C12 - The job document round-trips: what \<open>to_dict\<close> writes \<open>from_dict\<close> reads back as the same
  record; and every record \<open>from_dict\<close> accepts has a valid specification, the digest of that
  specification and a known status.
\<close>

theorem job_record_roundtrip:
  "(record_ok H r \<longleftrightarrow> record_from_dict H (PDict (record_to_dict r)) = Inr r) \<and>
   (record_from_dict H data = Inr r' \<longrightarrow> record_ok H r')"
  using record_roundtrip record_from_dict_ok by blast

definition demo_spec :: job_spec where
  "demo_spec =
     \<lparr>js_schema_version = PInt 3, js_job_id = PStr ''j1'', js_config_path = PStr ''/c'',
      js_config_revision = PStr ''r'', js_group_key = PStr ''g'', js_workspace_root = PStr ''/w'',
      js_group_root = PStr ''/w/g'', js_agent_name = PStr ''a'', js_trigger = PStr ''decision'',
      js_integration_name = PStr ''script'', js_integration_config = [(''model'', PStr ''m''), (''args'', PStr ''x'')],
      js_blueprint = \<lparr>br_key = PStr ''b'', br_source_digest = PStr ''d'', br_integration = PStr ''script'',
        br_projector_version = PStr ''1'', br_cache_path = PStr ''/x''\<rparr>,
      js_routine_id = PNone, js_skill = PNone, js_skill_arguments = [], js_task_input = PStr ''t'',
      js_runtime_policy = \<lparr>rp_timeout = PInt 60, rp_sandbox_mode = PStr ''none'', rp_sandbox_roots = [],
        rp_tool_mode = PStr ''all'', rp_tool_names = []\<rparr>,
      js_memory = \<lparr>mb_selector = PDict [(''scope'', PStr ''run'')], mb_canonical_json = PStr ''{}'',
        mb_memory_hash = PStr ''h'', mb_path = PStr ''/m''\<rparr>,
      js_trigger_context = PNone, js_prompt_source = PNone, js_timeout_override = PNone,
      js_created_at = PStr ''now''\<rparr>"

lemma demo_spec_ok: "spec_ok demo_spec"
  by code_simp

lemma demo_spec_json: "json_ok (PDict (spec_to_dict demo_spec))"
  by code_simp

definition demo_record :: "string \<Rightarrow> job_record" where
  "demo_record st = new_record demo_spec
     [(''authority_digest'', PStr (immutable_digest id demo_spec)), (''status'', PStr st)]"

lemma demo_record_ok: "st \<in> set valid_statuses \<Longrightarrow> record_ok id (demo_record st)"
  by (simp add: record_ok_def demo_record_def new_record_def demo_spec_ok)

lemma job_record_roundtrip_witness:
  "record_from_dict id (PDict (record_to_dict (demo_record ''running''))) = Inr (demo_record ''running'')"
  using conjunct1 [OF job_record_roundtrip [of id "demo_record ''running''" PNone "demo_record ''running''"]]
    demo_record_ok [of "''running''"]
  by (simp add: valid_statuses_def)

lemma distinct_spec_fields: "distinct spec_fields"
  by (simp add: spec_fields_def)

definition authority_text :: "job_spec \<Rightarrow> string" where
  "authority_text s = authority_domain @ utf8_encode (json_dumps (PDict (spec_to_dict s)))"

lemma string_fields_get:
  "spec_string_fields s = map (\<lambda>(n, v). (n, get (spec_to_dict s) n)) (spec_string_fields s)"
  by (simp add: spec_string_fields_def spec_to_dict_def)


text \<open>The same job with its integration settings in another order.\<close>

definition demo_spec_reordered :: job_spec where
  "demo_spec_reordered = demo_spec\<lparr>js_integration_config := rev (js_integration_config demo_spec)\<rparr>"


end
