(* ===== verification/FileSystem.thy ===== *)
theory FileSystem
  imports Effects "HOL-Library.Sublist"
begin

text \<open>
  The file system the program runs on, as the Python standard library shows it on POSIX,
  and \<^verbatim>\<open>agency/fs/atomic.py\<close>.

  A path is the list of its components below the root. The file system lists its entries
  (the order stands for the unspecified order of a directory scan); an entry is a regular
  file with its bytes, a directory, a symbolic link or another kind of node. Every system
  call that changes something consumes the next entry of a schedule: it proceeds, it
  fails with an I/O error and changes nothing, or the process dies there. An empty schedule
  is a machine that works. A theorem for every schedule therefore covers every fault and
  every crash point. \<open>busy\<close> lists the lock files another process holds.
\<close>

section \<open>Paths, nodes, worlds\<close>

type_synonym bytes = string
type_synonym path = "string list"

datatype node = File bytes | Dir | Link path | Special

type_synonym fs = "(path \<times> node) list"

datatype fate = Proceed | Fault | Die

record world =
  files :: fs
  sched :: "fate list"
  busy :: "path list"

type_synonym 'a fio = "(world, 'a) io"

definition node_at :: "fs \<Rightarrow> path \<Rightarrow> node option" where
  "node_at fs p = (if p = [] then Some Dir else map_of fs p)"

text \<open>
  \<open>os.path.realpath\<close>: components left to right, a link is replaced by its target, \<open>..\<close>
  drops a component. Forty links are followed, as on Linux; a longer chain is left as it
  stands.
\<close>

function realpath :: "nat \<Rightarrow> fs \<Rightarrow> path \<Rightarrow> path \<Rightarrow> path" where
  "realpath n fs acc [] = acc"
| "realpath n fs acc (c # cs) =
     (if c = ''..'' then realpath n fs (butlast acc) cs
      else case node_at fs (acc @ [c]) of
        Some (Link t) \<Rightarrow>
          (case n of 0 \<Rightarrow> acc @ c # cs | Suc m \<Rightarrow> realpath m fs [] (t @ cs))
      | _ \<Rightarrow> realpath n fs (acc @ [c]) cs)"
  by pat_completeness auto
termination
  by (relation "measures [\<lambda>(n, fs, acc, cs). n, \<lambda>(n, fs, acc, cs). length cs]") auto

definition resolve :: "fs \<Rightarrow> path \<Rightarrow> path" where
  "resolve fs p = realpath 40 fs [] p"

text \<open>\<open>Path.stat\<close> follows links, \<open>Path.lstat\<close> does not follow the last one.\<close>

definition stat_node :: "fs \<Rightarrow> path \<Rightarrow> node option" where
  "stat_node fs p = (case node_at fs (resolve fs p) of Some (Link _) \<Rightarrow> None | n \<Rightarrow> n)"

definition place :: "fs \<Rightarrow> path \<Rightarrow> path" where
  "place fs p = (if p = [] then [] else resolve fs (butlast p) @ [last p])"

definition lstat_node :: "fs \<Rightarrow> path \<Rightarrow> node option" where
  "lstat_node fs p = node_at fs (place fs p)"

definition path_exists :: "fs \<Rightarrow> path \<Rightarrow> bool" where
  "path_exists fs p \<longleftrightarrow> stat_node fs p \<noteq> None"

definition is_dir :: "fs \<Rightarrow> path \<Rightarrow> bool" where
  "is_dir fs p \<longleftrightarrow> stat_node fs p = Some Dir"

fun is_regular :: "node option \<Rightarrow> bool" where
  "is_regular (Some (File _)) = True"
| "is_regular _ = False"

fun is_link :: "node option \<Rightarrow> bool" where
  "is_link (Some (Link _)) = True"
| "is_link _ = False"

definition is_file :: "fs \<Rightarrow> path \<Rightarrow> bool" where
  "is_file fs p \<longleftrightarrow> is_regular (stat_node fs p)"

definition is_child :: "path \<Rightarrow> path \<Rightarrow> bool" where
  "is_child d p \<longleftrightarrow> p \<noteq> [] \<and> butlast p = d"

text \<open>The names in a directory, in scan order, without the special entries.\<close>

definition listdir :: "fs \<Rightarrow> path \<Rightarrow> string list" where
  "listdir fs d =
     filter (\<lambda>n. n \<noteq> ''.'' \<and> n \<noteq> ''..'')
       (map (last \<circ> fst) (filter (\<lambda>e. is_child (resolve fs d) (fst e)) fs))"

text \<open>The text of a path, as \<open>str(path)\<close> shows it.\<close>

definition path_str :: "path \<Rightarrow> string" where
  "path_str p = (if p = [] then ''/'' else concat (map (\<lambda>c. CHR ''/'' # c) p))"

section \<open>System calls\<close>

definition syscall :: "(fs \<Rightarrow> fs res) \<Rightarrow> unit fio" where
  "syscall f w =
     (let w' = w\<lparr>sched := tl (sched w)\<rparr> in
      case sched w of
        Fault # _ \<Rightarrow> (Inl (Exn COSError ''Input/output error''), w')
      | Die # _ \<Rightarrow> (Inl Crashed, w')
      | _ \<Rightarrow> (case f (files w) of Inl e \<Rightarrow> (Inl e, w') | Inr fs \<Rightarrow> (Inr (), w'\<lparr>files := fs\<rparr>)))"

definition put :: "path \<Rightarrow> node \<Rightarrow> fs \<Rightarrow> fs" where
  "put p n fs = AList.update p n fs"

definition drop_entry :: "path \<Rightarrow> fs \<Rightarrow> fs" where
  "drop_entry p fs = AList.delete p fs"

definition move_tree :: "path \<Rightarrow> path \<Rightarrow> fs \<Rightarrow> fs" where
  "move_tree src dst fs =
     map (\<lambda>(p, n). if prefix src p then (dst @ drop (length src) p, n) else (p, n))
       (filter (\<lambda>(p, n). \<not> prefix dst p) fs)"

definition missing :: "exn" where
  "missing = Exn CFileNotFoundError ''No such file or directory''"

definition sys_mkdir :: "path \<Rightarrow> fs \<Rightarrow> fs res" where
  "sys_mkdir p fs =
     (let q = place fs p in
      if p = [] \<or> node_at fs q \<noteq> None then Inl (Exn CFileExistsError ''File exists'')
      else if node_at fs (butlast q) \<noteq> Some Dir then Inl missing
      else Inr (put q Dir fs))"

definition sys_write :: "path \<Rightarrow> bytes \<Rightarrow> fs \<Rightarrow> fs res" where
  "sys_write p b fs =
     (let q = resolve fs p in
      case node_at fs q of
        Some Dir \<Rightarrow> Inl (Exn CIsADirectoryError ''Is a directory'')
      | _ \<Rightarrow> if node_at fs (butlast q) \<noteq> Some Dir then Inl missing
             else Inr (put q (File b) fs))"

definition sys_unlink :: "path \<Rightarrow> fs \<Rightarrow> fs res" where
  "sys_unlink p fs =
     (let q = place fs p in
      case node_at fs q of
        None \<Rightarrow> Inl missing
      | Some Dir \<Rightarrow> Inl (Exn CIsADirectoryError ''Is a directory'')
      | Some _ \<Rightarrow> Inr (drop_entry q fs))"

definition sys_rmdir :: "path \<Rightarrow> fs \<Rightarrow> fs res" where
  "sys_rmdir p fs =
     (let q = place fs p in
      case node_at fs q of
        None \<Rightarrow> Inl missing
      | Some Dir \<Rightarrow> if q \<noteq> [] \<and> list_all (\<lambda>e. \<not> is_child q (fst e)) fs then Inr (drop_entry q fs)
                    else Inl (Exn COSError ''Directory not empty'')
      | Some _ \<Rightarrow> Inl (Exn CNotADirectoryError ''Not a directory''))"

text \<open>
  \<open>os.replace\<close>: a file replaces a non-directory, a directory replaces nothing or an empty
  directory; a directory cannot move below itself.
\<close>

definition sys_rename :: "path \<Rightarrow> path \<Rightarrow> fs \<Rightarrow> fs res" where
  "sys_rename src dst fs =
     (let s = place fs src; d = place fs dst in
      case node_at fs s of
        None \<Rightarrow> Inl missing
      | Some Dir \<Rightarrow>
          if s = [] \<or> d = [] \<or> strict_prefix s d then Inl (Exn COSError ''Invalid argument'')
          else if node_at fs (butlast d) \<noteq> Some Dir then Inl missing
          else (case node_at fs d of
                  None \<Rightarrow> Inr (move_tree s d fs)
                | Some Dir \<Rightarrow> if list_ex (\<lambda>e. is_child d (fst e)) fs
                                then Inl (Exn COSError ''Directory not empty'')
                              else if s = d then Inr fs else Inr (move_tree s d fs)
                | Some _ \<Rightarrow> Inl (Exn CNotADirectoryError ''Not a directory''))
      | Some n \<Rightarrow>
          if node_at fs d = Some Dir then Inl (Exn CIsADirectoryError ''Is a directory'')
          else if node_at fs (butlast d) \<noteq> Some Dir then Inl missing
          else if s = d then Inr fs
          else Inr (put d n (drop_entry s fs)))"

definition os_mkdir :: "path \<Rightarrow> unit fio" where
  "os_mkdir p = syscall (sys_mkdir p)"

definition write_bytes :: "path \<Rightarrow> bytes \<Rightarrow> unit fio" where
  "write_bytes p b = syscall (sys_write p b)"

definition unlink :: "path \<Rightarrow> unit fio" where
  "unlink p = syscall (sys_unlink p)"

definition rmdir :: "path \<Rightarrow> unit fio" where
  "rmdir p = syscall (sys_rmdir p)"

definition os_replace :: "path \<Rightarrow> path \<Rightarrow> unit fio" where
  "os_replace src dst = syscall (sys_rename src dst)"

definition fsync :: "unit fio" where
  "fsync = syscall Inr"

definition see :: "(fs \<Rightarrow> 'a) \<Rightarrow> 'a fio" where
  "see f = gets_st (f \<circ> files)"

definition read_bytes :: "path \<Rightarrow> bytes fio" where
  "read_bytes p = bindI (see (\<lambda>fs. stat_node fs p)) (\<lambda>n. case n of
       Some (File b) \<Rightarrow> ret b
     | Some Dir \<Rightarrow> raise (Exn CIsADirectoryError ''Is a directory'')
     | Some _ \<Rightarrow> raise (Exn COSError ''Unsupported node'')
     | None \<Rightarrow> raise missing)"

text \<open>\<open>Path.read_text(encoding="utf-8")\<close>\<close>

definition read_text :: "path \<Rightarrow> string fio" where
  "read_text p = bindI (read_bytes p) (\<lambda>b. case utf8_decode b of
       Some s \<Rightarrow> ret s
     | None \<Rightarrow> raise (Exn CUnicodeDecodeError ''invalid start byte''))"

text \<open>\<open>Path.iterdir\<close>\<close>

definition iterdir :: "path \<Rightarrow> string list fio" where
  "iterdir d = bindI (see (\<lambda>fs. stat_node fs d)) (\<lambda>n. case n of
       Some Dir \<Rightarrow> see (\<lambda>fs. listdir fs d)
     | None \<Rightarrow> raise missing
     | Some _ \<Rightarrow> raise (Exn CNotADirectoryError ''Not a directory''))"

text \<open>
  \<open>Path.mkdir(parents=True, exist_ok=True)\<close>: the missing components are created from the
  first one on; an existing component has to be a directory.
\<close>

definition mkdir_one :: "path \<Rightarrow> unit fio" where
  "mkdir_one p = bindI (see (\<lambda>fs. is_dir fs p)) (\<lambda>there. if there then ret () else os_mkdir p)"

definition mkdir_p :: "path \<Rightarrow> unit fio" where
  "mkdir_p p = forI mkdir_one (map (\<lambda>i. take i p) [1..<Suc (length p)])"

text \<open>
  \<open>tempfile\<close> picks a name that does not exist: here the first \<open>prefix\<close> followed by a
  row of \<open>x\<close> that is free. As many candidates as entries, and one more, are enough.
\<close>

definition fresh_name :: "fs \<Rightarrow> path \<Rightarrow> string \<Rightarrow> string" where
  "fresh_name fs d pre =
     (case find (\<lambda>n. node_at fs (d @ [n]) = None)
             (map (\<lambda>k. pre @ replicate k (CHR ''x'')) [1..<length fs + 2]) of
        Some n \<Rightarrow> n | None \<Rightarrow> pre)"

section \<open>\<open>agency/fs/atomic.py\<close>\<close>

definition fsync_parent_directory :: "path \<Rightarrow> unit fio" where
  "fsync_parent_directory p = fsync"

definition replace_with_retry :: "path \<Rightarrow> path \<Rightarrow> unit fio" where
  "replace_with_retry source target = os_replace source target"

text \<open>The name \<open>mkstemp\<close> picks for a temporary file beside \<open>p\<close>.\<close>

definition temp_path :: "fs \<Rightarrow> path \<Rightarrow> path" where
  "temp_path fs p =
     (let d = resolve fs (butlast p) in d @ [fresh_name fs d (''.'' @ last p @ ''.'')])"

definition atomic_write_bytes :: "path \<Rightarrow> bytes \<Rightarrow> unit fio" where
  "atomic_write_bytes p payload =
     thenI (mkdir_p (butlast p))
       (bindI (see (\<lambda>fs. temp_path fs p)) (\<lambda>tmp.
          thenI (write_bytes tmp [])
            (tryI
               (thenI (write_bytes tmp payload)
               (thenI fsync
               (thenI (replace_with_retry tmp p)
                  (fsync_parent_directory p))))
               (\<lambda>e. thenI (try_only [CFileNotFoundError] (unlink tmp) (\<lambda>_. ret ()))
                      (raise e)))))"

definition atomic_write_text :: "path \<Rightarrow> string \<Rightarrow> unit fio" where
  "atomic_write_text p content = atomic_write_bytes p (utf8_encode content)"

section \<open>Lookups\<close>

lemma node_at_Nil [simp]: "node_at fs [] = Some Dir"
  by (simp add: node_at_def)

lemma node_at_put [simp, fs_simps]:
  "p \<noteq> [] \<Longrightarrow> node_at (put p n fs) q = (if q = p then Some n else node_at fs q)"
  by (auto simp: node_at_def put_def)

lemma node_at_drop_entry [simp, fs_simps]:
  "p \<noteq> [] \<Longrightarrow> node_at (drop_entry p fs) q = (if q = p then None else node_at fs q)"
  by (auto simp: node_at_def drop_entry_def)

lemma distinct_put [simp]: "distinct (map fst fs) \<Longrightarrow> distinct (map fst (put p n fs))"
  by (simp add: put_def)

lemma distinct_drop_entry [simp]: "distinct (map fst fs) \<Longrightarrow> distinct (map fst (drop_entry p fs))"
  by (simp add: drop_entry_def)

lemma node_at_entry:
  "distinct (map fst fs) \<Longrightarrow> p \<noteq> [] \<Longrightarrow> node_at fs p = Some n \<longleftrightarrow> (p, n) \<in> set fs"
  by (simp add: node_at_def)

lemma find_SomeD: "find P xs = Some x \<Longrightarrow> x \<in> set xs \<and> P x"
  by (induction xs) (auto split: if_splits)

lemma fresh_name_free:
  "node_at fs (d @ [fresh_name fs d pre]) = None"
  "startswith (fresh_name fs d pre) pre"
  "last (fresh_name fs d pre) = CHR ''x''"
proof -
  let ?cs = "map (\<lambda>k. pre @ replicate k (CHR ''x'')) [1..<length fs + 2]"
  have "\<exists>n\<in>set ?cs. node_at fs (d @ [n]) = None"
  proof (rule ccontr)
    assume "\<not> ?thesis"
    then have "(\<lambda>n. d @ [n]) ` set ?cs \<subseteq> fst ` set fs"
      by (auto simp: node_at_def map_of_eq_None_iff)
    then have "card ((\<lambda>n. d @ [n]) ` set ?cs) \<le> card (fst ` set fs)"
      by (rule card_mono [OF finite_imageI [OF finite_set]])
    also have "\<dots> \<le> length fs" by (metis card_length length_map list.set_map)
    finally have "card (set ?cs) \<le> length fs"
      by (subst (asm) card_image) (auto simp: inj_on_def)
    moreover have "inj_on (\<lambda>k. pre @ replicate k (CHR ''x'')) A" for A
      by (rule inj_onI) (drule arg_cong [where f = length], simp)
    then have "distinct ?cs" by (simp only: distinct_map distinct_upt)
    then have "card (set ?cs) = length ?cs" by (rule distinct_card)
    then have "card (set ?cs) = length fs + 1" by (simp only: length_map length_upt)
    ultimately show False by simp
  qed
  then obtain n where n: "find (\<lambda>n. node_at fs (d @ [n]) = None) ?cs = Some n"
    by (metis (mono_tags, lifting) find_None_iff2 not_None_eq)
  then have "n \<in> set ?cs" and free: "node_at fs (d @ [n]) = None" by (auto dest: find_SomeD)
  then obtain k where "n = pre @ replicate k (CHR ''x'')" "k \<in> set [1..<length fs + 2]"
    unfolding set_map by blast
  then have "startswith n pre" "last n = CHR ''x''" by (auto simp: startswith_def last_append simp del: upt_Suc)
  moreover have "fresh_name fs d pre = n" by (simp only: fresh_name_def n option.case)
  ultimately show "node_at fs (d @ [fresh_name fs d pre]) = None" "startswith (fresh_name fs d pre) pre"
    "last (fresh_name fs d pre) = CHR ''x''"
    using free by simp_all
qed

lemma path_str_inject:
  assumes "\<forall>c\<in>set p. c \<noteq> [] \<and> CHR ''/'' \<notin> set c" "\<forall>c\<in>set q. c \<noteq> [] \<and> CHR ''/'' \<notin> set c"
    and "path_str p = path_str q"
  shows "p = q"
proof -
  have split: "split_on CHR ''/'' (concat (map (\<lambda>c. CHR ''/'' # c) p)) = [] # p"
    if "\<forall>c\<in>set p. CHR ''/'' \<notin> set c" for p
    using that
  proof (induction p)
    case Nil
    then show ?case by simp
  next
    case (Cons c p)
    have "split_on CHR ''/'' (c @ s) = (c @ hd (split_on CHR ''/'' s)) # tl (split_on CHR ''/'' s)"
      if "CHR ''/'' \<notin> set c" for c s
      using that by (induction c) (auto simp: list.case_eq_if)
    with Cons show ?case by simp
  qed
  have "path_str p = ''/'' \<longleftrightarrow> p = []" if "\<forall>c\<in>set p. c \<noteq> []" for p
    using that by (cases p) (auto simp: path_str_def)
  with assms show ?thesis
    by (metis (no_types, lifting) list.inject path_str_def split)
qed

subsection \<open>Paths without links\<close>

text \<open>
  \<open>tree fs\<close>: what exists lies in a directory. \<open>clean rt fs\<close>: a tree that lists no entry
  twice, with no symbolic link on the way to \<open>rt\<close> or anywhere below it. Below a clean root a
  path means what it says.
\<close>

definition tree :: "fs \<Rightarrow> bool" where
  "tree fs \<longleftrightarrow> (\<forall>p. p \<noteq> [] \<longrightarrow> node_at fs p \<noteq> None \<longrightarrow> node_at fs (butlast p) = Some Dir)"

lemma tree_put:
  assumes "tree fs" "p \<noteq> []" "node_at fs (butlast p) = Some Dir" "node_at fs p = Some Dir \<Longrightarrow> n = Dir"
  shows "tree (put p n fs)"
  unfolding tree_def
proof (intro allI impI)
  fix q assume q: "q \<noteq> []" "node_at (put p n fs) q \<noteq> None"
  show "node_at (put p n fs) (butlast q) = Some Dir"
  proof (cases "q = p")
    case True
    have "butlast p \<noteq> p" using assms(2) by (metis append_butlast_last_id append_self_conv not_Cons_self2)
    with True assms show ?thesis by simp
  next
    case False
    with q assms(1,2) have "node_at fs (butlast q) = Some Dir" by (simp add: tree_def)
    with assms(2,4) show ?thesis by auto
  qed
qed

lemma tree_drop_entry:
  assumes "tree fs" "p \<noteq> []" "\<And>q. q \<noteq> [] \<Longrightarrow> butlast q = p \<Longrightarrow> node_at fs q = None"
  shows "tree (drop_entry p fs)"
  unfolding tree_def
proof (intro allI impI)
  fix q assume q: "q \<noteq> []" "node_at (drop_entry p fs) q \<noteq> None"
  with assms(2) have "node_at fs q \<noteq> None" by (auto split: if_splits)
  with q assms have "node_at fs (butlast q) = Some Dir" "butlast q \<noteq> p" by (auto simp: tree_def)
  with assms(2) show "node_at (drop_entry p fs) (butlast q) = Some Dir" by simp
qed

lemma tree_file_no_child:
  "tree fs \<Longrightarrow> node_at fs p \<noteq> Some Dir \<Longrightarrow> q \<noteq> [] \<Longrightarrow> butlast q = p \<Longrightarrow> node_at fs q = None"
  by (auto simp: tree_def)

lemma tree_prefix_dir:
  assumes "tree fs" "node_at fs p \<noteq> None" "strict_prefix q p"
  shows "node_at fs q = Some Dir"
  using assms(2,3)
proof (induction p rule: rev_induct)
  case Nil
  then show ?case by simp
next
  case (snoc x p)
  with assms(1) have d: "node_at fs p = Some Dir" unfolding tree_def
    by (metis butlast_snoc snoc_eq_iff_butlast)
  from snoc.prems(2) have "q = p \<or> strict_prefix q p"
    by (metis prefix_order.le_less prefix_snoc strict_prefix_def)
  with d snoc.IH show ?case by auto
qed

definition clean :: "path \<Rightarrow> fs \<Rightarrow> bool" where
  "clean rt fs \<longleftrightarrow> ''..'' \<notin> set rt \<and> distinct (map fst fs) \<and> tree fs \<and>
     (\<forall>p. prefix p rt \<or> prefix rt p \<longrightarrow> \<not> is_link (node_at fs p))"

definition below :: "path \<Rightarrow> path \<Rightarrow> bool" where
  "below rt p \<longleftrightarrow> (prefix p rt \<or> prefix rt p) \<and> ''..'' \<notin> set p"

lemma cleanD: "clean rt fs \<Longrightarrow> distinct (map fst fs)"
  by (simp add: clean_def)

lemma realpath_plain:
  assumes "''..'' \<notin> set cs" and "\<And>k. k \<le> length cs \<Longrightarrow> \<not> is_link (node_at fs (acc @ take k cs))"
  shows "realpath n fs acc cs = acc @ cs"
  using assms
proof (induction cs arbitrary: acc)
  case Nil
  then show ?case by simp
next
  case (Cons c cs)
  from Cons.prems(2) [of 1] have nl: "\<not> is_link (node_at fs (acc @ [c]))" by simp
  have "realpath n fs (acc @ [c]) cs = (acc @ [c]) @ cs"
  proof (rule Cons.IH)
    show "''..'' \<notin> set cs" using Cons.prems(1) by simp
    fix k assume "k \<le> length cs"
    then show "\<not> is_link (node_at fs ((acc @ [c]) @ take k cs))"
      using Cons.prems(2) [of "Suc k"] by simp
  qed
  moreover from Cons.prems(1) have "c \<noteq> ''..''" by auto
  ultimately show ?case using nl
    by (cases "node_at fs (acc @ [c])") (auto split: node.splits)
qed

lemma resolve_clean:
  assumes "clean rt fs" and "below rt p"
  shows "resolve fs p = p"
proof -
  have "realpath 40 fs [] p = [] @ p"
  proof (rule realpath_plain)
    fix k
    have "prefix (take k p) p" by (rule take_is_prefix)
    with assms have "prefix (take k p) rt \<or> prefix rt (take k p)"
      unfolding below_def by (metis prefix_order.trans prefix_same_cases)
    with assms(1) show "\<not> is_link (node_at fs ([] @ take k p))" by (auto simp: clean_def)
  qed (use assms(2) in \<open>simp add: below_def\<close>)
  then show ?thesis by (simp add: resolve_def)
qed

lemma below_butlast: "below rt p \<Longrightarrow> below rt (butlast p)"
proof (cases "p = []")
  case False
  assume b: "below rt p"
  have "prefix (butlast p) p" by (simp add: prefixeq_butlast)
  with b have "prefix (butlast p) rt \<or> prefix rt (butlast p)"
    unfolding below_def by (metis prefix_order.trans prefix_same_cases)
  with b show ?thesis by (auto simp: below_def dest: in_set_butlastD)
qed simp

lemma below_append: "below rt p \<Longrightarrow> prefix rt p \<Longrightarrow> n \<noteq> ''..'' \<Longrightarrow> below rt (p @ [n])"
  by (auto simp: below_def)

lemma below_prefix: "below rt p \<Longrightarrow> prefix q p \<Longrightarrow> below rt q"
  unfolding below_def by (meson prefix_order.trans prefix_same_cases set_mono_prefix subsetD)

lemma below_take: "below rt p \<Longrightarrow> below rt (take k p)"
  by (rule below_prefix [OF _ take_is_prefix])

lemma place_clean: "clean rt fs \<Longrightarrow> below rt p \<Longrightarrow> place fs p = p"
  by (simp add: place_def resolve_clean [OF _ below_butlast])

lemma lstat_clean: "clean rt fs \<Longrightarrow> below rt p \<Longrightarrow> lstat_node fs p = node_at fs p"
  by (simp add: lstat_node_def place_clean)

lemma stat_clean:
  assumes "clean rt fs" and "below rt p"
  shows "stat_node fs p = node_at fs p"
proof -
  from assms have "\<not> is_link (node_at fs p)" by (auto simp: clean_def below_def)
  then show ?thesis
    by (cases "node_at fs p") (auto simp: stat_node_def resolve_clean [OF assms] split: node.splits)
qed

lemmas clean_simps = resolve_clean place_clean lstat_clean stat_clean

lemma exists_clean: "clean rt fs \<Longrightarrow> below rt p \<Longrightarrow> path_exists fs p \<longleftrightarrow> node_at fs p \<noteq> None"
  by (simp add: path_exists_def stat_clean)

lemma is_dir_clean: "clean rt fs \<Longrightarrow> below rt p \<Longrightarrow> is_dir fs p \<longleftrightarrow> node_at fs p = Some Dir"
  by (simp add: is_dir_def stat_clean)

lemma clean_put:
  assumes "clean rt fs" "p \<noteq> []" "\<not> is_link (Some n)" "node_at fs (butlast p) = Some Dir"
    "node_at fs p = Some Dir \<Longrightarrow> n = Dir"
  shows "clean rt (put p n fs)"
  using assms tree_put [of fs p n] by (simp add: clean_def)

lemma clean_drop_entry:
  assumes "clean rt fs" "p \<noteq> []" "node_at fs p \<noteq> Some Dir \<or> list_all (\<lambda>e. \<not> is_child p (fst e)) fs"
  shows "clean rt (drop_entry p fs)"
proof -
  have "tree (drop_entry p fs)"
  proof (rule tree_drop_entry)
    fix q assume "q \<noteq> []" "butlast q = p"
    with assms tree_file_no_child [of fs p q] show "node_at fs q = None"
      by (cases "map_of fs q")
         (auto simp: clean_def list_all_iff is_child_def node_at_def dest!: map_of_SomeD split: if_splits)
  qed (use assms in \<open>auto simp: clean_def\<close>)
  with assms show ?thesis by (simp add: clean_def)
qed

section \<open>What a system call can do\<close>

lemma syscall_result:
  assumes "syscall f w = (r, w')"
  shows "(r \<noteq> Inr () \<and> files w' = files w) \<or> (r = Inr () \<and> f (files w) = Inr (files w'))"
  using assms by (auto simp: syscall_def Let_def split: list.splits fate.splits sum.splits)

lemma syscall_Inr: "syscall f w = (Inr u, w') \<Longrightarrow> f (files w) = Inr (files w')"
  using syscall_result [of f w "Inr u" w'] by simp

text \<open>
  The state a store operation keeps: the root stays clean and nothing outside the region
  \<open>S\<close> differs from \<open>g\<close>.
\<close>

definition confined :: "path \<Rightarrow> path set \<Rightarrow> (path \<Rightarrow> node option) \<Rightarrow> world \<Rightarrow> bool" where
  "confined rt S g w \<longleftrightarrow>
     clean rt (files w) \<and> (\<forall>q. q \<notin> S \<longrightarrow> node_at (files w) q = g q)"

lemma confined_self: "clean rt (files w) \<Longrightarrow> confined rt S (node_at (files w)) w"
  by (simp add: confined_def)

lemma confined_frame: "confined rt S g w \<Longrightarrow> q \<notin> S \<Longrightarrow> node_at (files w) q = g q"
  by (simp add: confined_def)

lemma confined_clean: "confined rt S g w \<Longrightarrow> clean rt (files w)"
  by (simp add: confined_def)

lemma confined_sched [simp]: "confined rt S g (w\<lparr>sched := x\<rparr>) = confined rt S g w"
  by (simp add: confined_def)

lemma keeps_syscall:
  assumes "\<And>w fs'. confined rt S g w \<Longrightarrow> f (files w) = Inr fs' \<Longrightarrow> confined rt S g (w\<lparr>files := fs'\<rparr>)"
  shows "keeps (confined rt S g) (syscall f)"
  unfolding keeps_def
proof (intro allI impI)
  fix w assume c: "confined rt S g w"
  obtain r w' where rw: "syscall f w = (r, w')" by fastforce
  from syscall_result [OF rw] show "confined rt S g (snd (syscall f w))"
  proof
    assume "r \<noteq> Inr () \<and> files w' = files w"
    with c rw show ?thesis by (simp add: confined_def)
  next
    assume "r = Inr () \<and> f (files w) = Inr (files w')"
    with assms [OF c] have "confined rt S g (w\<lparr>files := files w'\<rparr>)" by simp
    with rw show ?thesis by (simp add: confined_def)
  qed
qed

lemma sys_mkdir_clean:
  assumes "clean rt fs" "below rt p" "sys_mkdir p fs = Inr fs'"
  shows "fs' = put p Dir fs" "p \<noteq> []" "node_at fs p = None" "clean rt fs'"
  using assms by (auto simp: sys_mkdir_def Let_def place_clean split: if_splits intro!: clean_put)

lemma sys_write_clean:
  assumes "clean rt fs" "below rt p" "sys_write p b fs = Inr fs'"
  shows "fs' = put p (File b) fs" "p \<noteq> []" "clean rt fs'"
  using assms by (auto simp: sys_write_def Let_def resolve_clean split: option.splits node.splits if_splits
      intro!: clean_put)

lemma sys_unlink_clean:
  assumes "clean rt fs" "below rt p" "sys_unlink p fs = Inr fs'"
  shows "fs' = drop_entry p fs" "p \<noteq> []" "clean rt fs'" "node_at fs p \<noteq> Some Dir"
  using assms by (auto simp: sys_unlink_def Let_def place_clean split: option.splits node.splits if_splits
      intro!: clean_drop_entry)

lemma sys_rmdir_clean:
  assumes "clean rt fs" "below rt p" "sys_rmdir p fs = Inr fs'"
  shows "fs' = drop_entry p fs" "p \<noteq> []" "clean rt fs'" "node_at fs p = Some Dir"
  using assms by (auto simp: sys_rmdir_def Let_def place_clean split: option.splits node.splits if_splits
      intro!: clean_drop_entry)

text \<open>Their effect as a change of the lookup function.\<close>

lemma sys_mkdir_effect:
  "sys_mkdir p fs = Inr fs' \<Longrightarrow> clean rt fs \<Longrightarrow> below rt p \<Longrightarrow>
     clean rt fs' \<and> node_at fs p = None \<and> node_at fs' = (node_at fs)(p \<mapsto> Dir)"
  using sys_mkdir_clean [of rt fs p fs'] by auto

lemma sys_write_effect:
  "sys_write p b fs = Inr fs' \<Longrightarrow> clean rt fs \<Longrightarrow> below rt p \<Longrightarrow>
     clean rt fs' \<and> node_at fs' = (node_at fs)(p \<mapsto> File b)"
  using sys_write_clean [of rt fs p b fs'] by auto

lemma sys_unlink_effect:
  "sys_unlink p fs = Inr fs' \<Longrightarrow> clean rt fs \<Longrightarrow> below rt p \<Longrightarrow>
     clean rt fs' \<and> node_at fs p \<noteq> Some Dir \<and> node_at fs' = (node_at fs)(p := None)"
  using sys_unlink_clean [of rt fs p fs'] by auto

lemma sys_rmdir_effect:
  "sys_rmdir p fs = Inr fs' \<Longrightarrow> clean rt fs \<Longrightarrow> below rt p \<Longrightarrow>
     clean rt fs' \<and> node_at fs p = Some Dir \<and> node_at fs' = (node_at fs)(p := None)"
  using sys_rmdir_clean [of rt fs p fs'] by auto

lemma keeps_os_mkdir [keeps_intros]:
  "below rt p \<Longrightarrow> p \<in> S \<Longrightarrow> keeps (confined rt S g) (os_mkdir p)"
  unfolding os_mkdir_def
  by (rule keeps_syscall) (auto simp: confined_def dest: sys_mkdir_effect)

lemma keeps_write_bytes [keeps_intros]:
  "below rt p \<Longrightarrow> p \<in> S \<Longrightarrow> keeps (confined rt S g) (write_bytes p b)"
  unfolding write_bytes_def
  by (rule keeps_syscall) (auto simp: confined_def dest: sys_write_effect)

lemma keeps_unlink [keeps_intros]:
  "below rt p \<Longrightarrow> p \<in> S \<Longrightarrow> keeps (confined rt S g) (unlink p)"
  unfolding unlink_def
  by (rule keeps_syscall) (auto simp: confined_def dest: sys_unlink_effect)

lemma keeps_rmdir [keeps_intros]:
  "below rt p \<Longrightarrow> p \<in> S \<Longrightarrow> keeps (confined rt S g) (rmdir p)"
  unfolding rmdir_def
  by (rule keeps_syscall) (auto simp: confined_def dest: sys_rmdir_effect)

lemma keeps_fsync [keeps_intros]: "keeps (confined rt S g) fsync"
  unfolding fsync_def by (rule keeps_syscall) (simp add: confined_def)

text \<open>Renaming a regular file.\<close>

lemma sys_rename_file:
  assumes "clean rt fs" "below rt src" "below rt dst" "node_at fs src = Some (File b)"
    and "sys_rename src dst fs = Inr fs'"
  shows "fs' = (if src = dst then fs else put dst (File b) (drop_entry src fs))"
    and "src \<noteq> []" and "dst \<noteq> []" and "clean rt fs'"
proof -
  from assms have n: "src \<noteq> []" "dst \<noteq> []" "node_at fs dst \<noteq> Some Dir"
      "node_at fs (butlast dst) = Some Dir"
    and f: "fs' = (if src = dst then fs else put dst (File b) (drop_entry src fs))"
    by (auto simp: sys_rename_def Let_def place_clean split: if_splits)
  from assms(4) n(4) have "butlast dst \<noteq> src" by auto
  with assms n f show "clean rt fs'"
    by (auto intro!: clean_put clean_drop_entry)
  from f n show "fs' = (if src = dst then fs else put dst (File b) (drop_entry src fs))"
    "src \<noteq> []" "dst \<noteq> []" by auto
qed

lemma keeps_see [keeps_intros, intro]: "keeps P (see f)"
  by (auto simp: see_def keeps_def)

lemma see_apply [simp, io_simps]: "see f w = (Inr (f (files w)), w)"
  by (simp add: see_def)

lemma bindI_see [simp]: "bindI (see f) g w = g (f (files w)) w"
  by (simp add: see_def bindI_apply)

lemma keeps_read_bytes [keeps_intros]: "keeps P (read_bytes p)"
  by (auto simp: read_bytes_def intro!: keeps_intros split: option.splits node.splits)

lemma keeps_iterdir [keeps_intros]: "keeps P (iterdir p)"
  by (auto simp: iterdir_def intro!: keeps_intros split: option.splits node.splits)

lemma keeps_mkdir_one [keeps_intros]:
  "below rt p \<Longrightarrow> p \<in> S \<Longrightarrow> keeps (confined rt S g) (mkdir_one p)"
  unfolding mkdir_one_def by (intro keeps_bindI keeps_see) (simp add: keeps_pure keeps_os_mkdir)

lemma keeps_mkdir_p [keeps_intros]:
  assumes "below rt p" and "\<And>q. prefix q p \<Longrightarrow> q \<noteq> [] \<Longrightarrow> q \<in> S"
  shows "keeps (confined rt S g) (mkdir_p p)"
  unfolding mkdir_p_def
proof (rule keeps_forI)
  fix q assume "q \<in> set (map (\<lambda>i. take i p) [1..<Suc (length p)])"
  then have "prefix q p" "q \<noteq> []" by (auto simp: take_is_prefix)
  with assms show "keeps (confined rt S g) (mkdir_one q)"
    by (intro keeps_mkdir_one) (auto intro: below_prefix)
qed


section \<open>Atomic writes\<close>

text \<open>
  What \<open>atomic_write_bytes p\<close> may touch: \<open>p\<close>, missing directories above it, and the
  temporary names beside it.
\<close>

definition temp_paths :: "path \<Rightarrow> path set" where
  "temp_paths p = {butlast p @ [n] | n. startswith n (''.'' @ last p @ ''.'')}"

definition footprint :: "path \<Rightarrow> path set" where
  "footprint p = {q. prefix q p \<and> q \<noteq> []} \<union> temp_paths p"

lemma startswith_append: "startswith s p \<longleftrightarrow> prefix p s"
  by (auto simp: startswith_def prefix_def) (metis append_take_drop_id)

lemma temp_paths_not_prefix:
  assumes "q \<in> temp_paths p" and "p \<noteq> []"
  shows "\<not> prefix q p"
proof
  assume "prefix q p"
  moreover from assms obtain n where q: "q = butlast p @ [n]"
    and n: "prefix (''.'' @ last p @ ''.'') n"
    by (auto simp: temp_paths_def startswith_append)
  moreover from q assms(2) have "length q = length p" by (cases p rule: rev_cases) simp_all
  ultimately have "q = p" by (metis prefix_def append_Nil2 append_eq_append_conv)
  with q assms(2) have "n = last p" by (metis last_snoc)
  with n prefix_length_le [OF n] show False by simp
qed

lemma strictly_below: "below rt p \<Longrightarrow> strict_prefix rt p \<Longrightarrow> below rt (butlast p) \<and> prefix rt (butlast p) \<and> p \<noteq> []"
  by (auto simp: below_butlast strict_prefix_def prefix_def) (metis append_Nil2 butlast_append)

lemma temp_path_clean:
  assumes "clean rt fs" "below rt p" "strict_prefix rt p" "last p \<noteq> []"
  shows "temp_path fs p \<in> temp_paths p" and "below rt (temp_path fs p)"
    and "node_at fs (temp_path fs p) = None" and "butlast (temp_path fs p) = butlast p"
proof -
  from strictly_below [OF assms(2,3)] have b: "below rt (butlast p)" "prefix rt (butlast p)" by simp_all
  have r: "resolve fs (butlast p) = butlast p" by (rule resolve_clean [OF assms(1) b(1)])
  let ?n = "fresh_name fs (butlast p) (''.'' @ last p @ ''.'')"
  have tp: "temp_path fs p = butlast p @ [?n]" by (simp add: temp_path_def r Let_def)
  have sw: "startswith ?n (''.'' @ last p @ ''.'')" by (rule fresh_name_free)
  then show "temp_path fs p \<in> temp_paths p" by (auto simp: tp temp_paths_def)
  show "node_at fs (temp_path fs p) = None" unfolding tp by (rule fresh_name_free)
  show "butlast (temp_path fs p) = butlast p" by (simp add: tp)
  from sw have "length (''.'' @ last p @ ''.'') \<le> length ?n"
    unfolding startswith_append by (rule prefix_length_le)
  with assms(4) have "?n \<noteq> ''..''" by (cases "last p") auto
  with below_append [OF b] show "below rt (temp_path fs p)" by (simp add: tp)
qed

lemma syscall_Inl: "syscall f w = (Inl e, w') \<Longrightarrow> files w' = files w"
  using syscall_result [of f w "Inl e" w'] by simp

lemma hoare_syscall:
  assumes "\<And>w fs' x. P w \<Longrightarrow> f (files w) = Inr fs' \<Longrightarrow> Q (w\<lparr>files := fs', sched := x\<rparr>)"
    and "\<And>w e x. P w \<Longrightarrow> E e (w\<lparr>sched := x\<rparr>)"
  shows "hoare P (syscall f) (\<lambda>_. Q) E"
proof (rule hoareI)
  fix w u w' assume "P w" and s: "syscall f w = (Inr u, w')"
  with assms(1) [of w "files w'" "sched w'"] syscall_Inr [OF s] show "Q w'"
    by (cases w, cases w') (auto simp: syscall_def Let_def split: list.splits fate.splits sum.splits)
next
  fix w e w' assume "P w" and s: "syscall f w = (Inl e, w')"
  with assms(2) [of w e "sched w'"] syscall_Inl [OF s] show "E e w'"
    by (cases w, cases w') (auto simp: syscall_def Let_def split: list.splits fate.splits sum.splits)
qed

text \<open>Creating a directory that is there changes nothing.\<close>

lemma mkdir_p_there:
  assumes "clean rt (files w)" "below rt p" "node_at (files w) p = Some Dir"
  shows "mkdir_p p w = (Inr (), w)"
proof -
  have all: "forI mkdir_one qs w = (Inr (), w)" if "\<And>q. q \<in> set qs \<Longrightarrow> prefix q p" for qs
    using that
  proof (induction qs)
    case Nil
    then show ?case by simp
  next
    case (Cons q qs)
    then have q: "prefix q p" by simp
    with assms(1,3) have "node_at (files w) q = Some Dir"
      by (cases "q = p") (auto simp: clean_def intro: tree_prefix_dir)
    with q assms(1,2) have "mkdir_one q w = (Inr (), w)"
      by (simp add: mkdir_one_def is_dir_clean [OF _ below_prefix])
    with Cons show ?case by (simp add: thenI_apply)
  qed
  show ?thesis unfolding mkdir_p_def by (rule all) (auto simp: take_is_prefix)
qed

lemma sys_rename_effect:
  "sys_rename src dst fs = Inr fs' \<Longrightarrow> clean rt fs \<Longrightarrow> below rt src \<Longrightarrow> below rt dst \<Longrightarrow>
     node_at fs src = Some (File b) \<Longrightarrow> src \<noteq> dst \<Longrightarrow>
     clean rt fs' \<and> node_at fs' = (node_at fs)(src := None, dst \<mapsto> File b)"
  using sys_rename_file [of rt fs src dst b fs'] by auto

lemma atomic_write_hoare:
  assumes b: "below rt p" "strict_prefix rt p" "last p \<noteq> []" and g: "g (butlast p) = Some Dir"
  shows "hoare (\<lambda>w. clean rt (files w) \<and> node_at (files w) = g) (atomic_write_bytes p payload)
    (\<lambda>_ w. clean rt (files w) \<and> node_at (files w) = g(p \<mapsto> File payload))
    (\<lambda>_ w. confined rt (temp_paths p) g w \<or> confined rt (temp_paths p) (g(p \<mapsto> File payload)) w)"
    (is "hoare ?P _ ?Q ?E")
proof -
  let ?g' = "g(p \<mapsto> File payload)" and ?T = "temp_paths p"
  note bb = strictly_below [OF b(1,2)]
  have mk: "hoare ?P (mkdir_p (butlast p)) (\<lambda>_. ?P) ?E"
    by (rule hoareI) (use bb g in \<open>auto simp: mkdir_p_there\<close>)
  have main: "hoare (\<lambda>w. clean rt (files w) \<and> node_at (files w) = g \<and> tmp = temp_path (files w) p)
      (thenI (write_bytes tmp [])
        (tryI (thenI (write_bytes tmp payload) (thenI fsync
                (thenI (replace_with_retry tmp p) (fsync_parent_directory p))))
          (\<lambda>e. thenI (try_only [CFileNotFoundError] (unlink tmp) (\<lambda>_. ret ())) (raise e)))) ?Q ?E"
    for tmp
  proof (cases "tmp \<in> ?T \<and> below rt tmp \<and> g tmp = None")
    case False
    then show ?thesis by (auto simp: hoare_def dest: temp_path_clean [OF _ b])
  next
    case True
    then have t: "tmp \<in> ?T" "below rt tmp" "g tmp = None" by simp_all
    have tp: "tmp \<noteq> p" using t(1) bb temp_paths_not_prefix by blast
    have pT: "p \<notin> ?T" using bb temp_paths_not_prefix [of p p] by auto
    let ?A = "\<lambda>c w. clean rt (files w) \<and> node_at (files w) = g(tmp \<mapsto> File c)"
    let ?B = "\<lambda>w. clean rt (files w) \<and> node_at (files w) = ?g'"
    let ?C = "\<lambda>w. confined rt ?T g w \<or> confined rt ?T ?g' w"
    have inA: "?A c w \<Longrightarrow> ?C (w\<lparr>sched := x\<rparr>)" for c w x using t(1) by (auto simp: confined_def)
    have w1: "hoare ?P (write_bytes tmp []) (\<lambda>_. ?A []) ?E"
      unfolding write_bytes_def
      by (rule hoare_syscall) (auto simp: confined_def dest: sys_write_effect [OF _ _ t(2)])
    have w2: "hoare (?A []) (write_bytes tmp payload) (\<lambda>_. ?A payload) (\<lambda>_. ?C)"
      unfolding write_bytes_def
      by (rule hoare_syscall) ((auto dest: sys_write_effect [OF _ _ t(2)])[1], rule inA)
    have w3: "hoare (?A payload) fsync (\<lambda>_. ?A payload) (\<lambda>_. ?C)"
      unfolding fsync_def by (rule hoare_syscall) (simp, rule inA)
    have w4: "hoare (?A payload) (replace_with_retry tmp p) (\<lambda>_. ?B) (\<lambda>_. ?C)"
      unfolding replace_with_retry_def os_replace_def
    proof (rule hoare_syscall)
      fix w fs' x assume A: "?A payload w" and r: "sys_rename tmp p (files w) = Inr fs'"
      from A have n: "node_at (files w) tmp = Some (File payload)" by simp
      from A sys_rename_effect [OF r _ t(2) b(1) n tp] t(3) tp
      show "?B (w\<lparr>files := fs', sched := x\<rparr>)" by (auto simp: fun_eq_iff)
    qed (rule inA)
    have w5: "hoare ?B (fsync_parent_directory p) (\<lambda>_. ?B) (\<lambda>_. ?C)"
      unfolding fsync_parent_directory_def fsync_def
      by (rule hoare_syscall) (auto simp: confined_def)
    have body: "hoare (?A []) (thenI (write_bytes tmp payload) (thenI fsync
        (thenI (replace_with_retry tmp p) (fsync_parent_directory p)))) (\<lambda>_. ?B) (\<lambda>_. ?C)"
      by (intro hoare_thenI [OF w2] hoare_thenI [OF w3] hoare_thenI [OF w4] w5)
    have kC: "keeps ?C (unlink tmp)"
      using keeps_unlink [OF t(2,1), of g] keeps_unlink [OF t(2,1), of ?g']
      unfolding keeps_def by blast
    have hdl: "hoare ?C (thenI (try_only [CFileNotFoundError] (unlink tmp) (\<lambda>_. ret ())) (raise e)) ?Q ?E" for e
    proof (rule hoare_thenI)
      show "hoare ?C (try_only [CFileNotFoundError] (unlink tmp) (\<lambda>_. ret ())) (\<lambda>_. ?C) ?E"
        by (rule hoare_keeps, rule keeps_try_only [OF kC]) auto
      show "hoare ?C (raise e) ?Q ?E" by (rule hoare_raise)
    qed
    have "hoare ?P (thenI (write_bytes tmp [])
        (tryI (thenI (write_bytes tmp payload) (thenI fsync
                (thenI (replace_with_retry tmp p) (fsync_parent_directory p))))
          (\<lambda>e. thenI (try_only [CFileNotFoundError] (unlink tmp) (\<lambda>_. ret ())) (raise e)))) ?Q ?E"
      by (rule hoare_thenI [OF w1], rule hoare_tryI [OF body hdl])
    then show ?thesis by (rule hoare_pre) simp
  qed
  have "hoare ?P (bindI (see (\<lambda>fs. temp_path fs p)) (\<lambda>tmp. thenI (write_bytes tmp [])
        (tryI (thenI (write_bytes tmp payload) (thenI fsync
                (thenI (replace_with_retry tmp p) (fsync_parent_directory p))))
          (\<lambda>e. thenI (try_only [CFileNotFoundError] (unlink tmp) (\<lambda>_. ret ())) (raise e))))) ?Q ?E"
    by (rule hoare_bindI [OF _ main]) (simp add: hoare_def)
  then show ?thesis unfolding atomic_write_bytes_def by (rule hoare_thenI [OF mk])
qed

lemma syscall_works: "sched w = [] \<Longrightarrow> f (files w) = Inr fs \<Longrightarrow> syscall f w = (Inr (), w\<lparr>files := fs\<rparr>)"
  by (cases w) (simp add: syscall_def)

text \<open>On a machine that works an atomic write succeeds unless the target is a directory.\<close>

lemma atomic_write_works:
  assumes c: "clean rt (files w)" and b: "below rt p" "strict_prefix rt p" "last p \<noteq> []"
    and d: "node_at (files w) (butlast p) = Some Dir" "node_at (files w) p \<noteq> Some Dir"
    and s: "sched w = []"
  shows "\<exists>w'. atomic_write_bytes p payload w = (Inr (), w') \<and> sched w' = [] \<and>
    clean rt (files w') \<and> node_at (files w') = (node_at (files w))(p \<mapsto> File payload)"
proof -
  note bb = strictly_below [OF b(1,2)]
  define tmp where "tmp = temp_path (files w) p"
  have t: "tmp \<in> temp_paths p" "below rt tmp" "node_at (files w) tmp = None" "butlast tmp = butlast p"
    unfolding tmp_def by (rule temp_path_clean [OF c b])+
  have tp: "tmp \<noteq> p" "tmp \<noteq> []"
    using t(1) bb temp_paths_not_prefix [of tmp p] by (auto simp: temp_paths_def)
  have pp: "butlast p \<noteq> p" "butlast p \<noteq> tmp" using t(3) d by (metis, auto)
  define f1 where "f1 = put tmp (File []) (files w)"
  define f2 where "f2 = put tmp (File payload) f1"
  define f3 where "f3 = put p (File payload) (drop_entry tmp f2)"
  have c1: "clean rt f1" unfolding f1_def using c t d tp by (auto intro!: clean_put)
  have c2: "clean rt f2" unfolding f2_def using c1 t d tp pp by (auto intro!: clean_put simp: f1_def)
  have 1: "sys_write tmp [] (files w) = Inr f1"
    using t d by (simp add: sys_write_def resolve_clean [OF c] f1_def)
  have 2: "sys_write tmp payload f1 = Inr f2"
    using t d tp pp by (simp add: sys_write_def resolve_clean [OF c1] f2_def) (simp add: f1_def)
  have 3: "sys_rename tmp p f2 = Inr f3"
    using t d tp pp bb b(1) by (simp add: sys_rename_def place_clean [OF c2] f3_def) (simp add: f2_def f1_def)
  have run: "atomic_write_bytes p payload w = (Inr (), w\<lparr>files := f3\<rparr>)"
    using bb d(1) s
    by (simp add: atomic_write_bytes_def thenI_apply mkdir_p_there [OF c] tmp_def [symmetric] tryI_apply
        write_bytes_def fsync_def replace_with_retry_def os_replace_def fsync_parent_directory_def
        syscall_works 1 2 3)
  have "clean rt f3 \<and> node_at f3 = (node_at f2)(tmp := None, p \<mapsto> File payload)"
    using sys_rename_effect [OF 3 c2 t(2) b(1) _ tp(1), of payload] tp by (simp add: f2_def)
  with t tp run s show ?thesis by (auto simp: f2_def f1_def fun_eq_iff)
qed

lemma atomic_write_outcome:
  assumes "clean rt (files w)" "below rt p" "strict_prefix rt p" "last p \<noteq> []"
    and "node_at (files w) (butlast p) = Some Dir"
    and "atomic_write_bytes p payload w = (r, w')"
  shows "node_at (files w') p \<in> {node_at (files w) p, Some (File payload)} \<and>
    (r = Inr () \<longrightarrow> node_at (files w') = (node_at (files w))(p \<mapsto> File payload)) \<and>
    (\<forall>q. q \<noteq> p \<and> q \<notin> temp_paths p \<longrightarrow> node_at (files w') q = node_at (files w) q) \<and>
    (sched w = [] \<and> node_at (files w) p \<noteq> Some Dir \<longrightarrow> r = Inr ()) \<and> clean rt (files w')"
proof -
  note h = atomic_write_hoare [OF assms(2-4), of "node_at (files w)" payload, OF assms(5)]
  have pT: "p \<notin> temp_paths p" using strictly_below [OF assms(2,3)] temp_paths_not_prefix [of p p] by auto
  have ok: "sched w = [] \<and> node_at (files w) p \<noteq> Some Dir \<longrightarrow> r = Inr ()"
    using atomic_write_works [OF assms(1-5), of payload] assms(6) by auto
  show ?thesis
  proof (cases r)
    case (Inl e)
    with hoareD_Inl [OF h] assms(1,6) have "confined rt (temp_paths p) (node_at (files w)) w' \<or>
        confined rt (temp_paths p) ((node_at (files w))(p \<mapsto> File payload)) w'" by blast
    with pT Inl ok show ?thesis by (auto simp: confined_def)
  next
    case (Inr u)
    with hoareD_Inr [OF h, of w u w'] assms(1,6)
    have "clean rt (files w') \<and> node_at (files w') = (node_at (files w))(p \<mapsto> File payload)" by simp
    with Inr ok show ?thesis by auto
  qed
qed

text \<open>
  C1 - An atomic write is all or nothing, whatever I/O error or crash interrupts it: the
  target holds its old content or the new bytes and nothing in between; if the call returns,
  the new bytes are there and no other path has changed; if it does not, only temporary
  names beside the target may differ as well. On a machine without faults the call returns.
\<close>

theorem atomic_write_all_or_nothing:
  assumes "clean rt (files w)" "below rt p" "strict_prefix rt p" "last p \<noteq> []"
    and "node_at (files w) (butlast p) = Some Dir"
    and "atomic_write_bytes p payload w = (r, w')"
  shows "node_at (files w') p \<in> {node_at (files w) p, Some (File payload)} \<and>
    (r = Inr () \<longrightarrow> node_at (files w') = (node_at (files w))(p \<mapsto> File payload)) \<and>
    (\<forall>q. q \<noteq> p \<and> q \<notin> temp_paths p \<longrightarrow> node_at (files w') q = node_at (files w) q) \<and>
    (sched w = [] \<and> node_at (files w) p \<noteq> Some Dir \<longrightarrow> r = Inr ())"
  using atomic_write_outcome [OF assms] by blast

text \<open>A check that computes, for concrete file systems.\<close>

definition clean_check :: "path \<Rightarrow> fs \<Rightarrow> bool" where
  "clean_check rt fs \<longleftrightarrow> ''..'' \<notin> set rt \<and> distinct (map fst fs) \<and>
     list_all (\<lambda>(p, n). p \<noteq> [] \<and> node_at fs (butlast p) = Some Dir \<and> \<not> is_link (Some n)) fs"

lemma clean_checkI: "clean_check rt fs \<Longrightarrow> clean rt fs"
proof -
  assume c: "clean_check rt fs"
  have "p \<noteq> [] \<Longrightarrow> node_at fs p = Some n \<Longrightarrow> node_at fs (butlast p) = Some Dir \<and> \<not> is_link (Some n)" for p n
    using c by (auto simp: clean_check_def list_all_iff node_at_def dest!: map_of_SomeD split: if_splits)
  then have "tree fs" "\<not> is_link (node_at fs p)" for p
    by (auto simp: tree_def) (cases "p = []"; cases "node_at fs p"; auto)
  with c show ?thesis by (simp add: clean_check_def clean_def)
qed

definition demo_world :: "fate list \<Rightarrow> world" where
  "demo_world sc = \<lparr>files = [([''a''], Dir), ([''a'', ''f''], File ''old'')], sched = sc, busy = []\<rparr>"

lemma atomic_write_all_or_nothing_witness:
  "let w = demo_world [Proceed, Proceed, Proceed, Die]; p = [''a'', ''f''];
       w' = snd (atomic_write_bytes p ''new'' w) in
   fst (atomic_write_bytes p ''new'' w) = Inl Crashed \<and>
   node_at (files w') p = Some (File ''old'') \<and>
   node_at (files w') p \<in> {node_at (files w) p, Some (File ''new'')}"
proof -
  let ?w = "demo_world [Proceed, Proceed, Proceed, Die]" and ?p = "[''a'', ''f'']"
  have c: "clean [''a''] (files ?w)" by (rule clean_checkI) code_simp
  have d: "node_at (files ?w) (butlast ?p) = Some Dir" by code_simp
  have b: "below [''a''] ?p" "strict_prefix [''a''] ?p" "last ?p \<noteq> []"
    by (simp_all add: strict_prefix_def below_def)
  have r1: "fst (atomic_write_bytes ?p ''new'' ?w) = Inl Crashed" by code_simp
  have r2: "node_at (files (snd (atomic_write_bytes ?p ''new'' ?w))) ?p = Some (File ''old'')"
    by code_simp
  from r1 have run: "atomic_write_bytes ?p ''new'' ?w = (Inl Crashed, snd (atomic_write_bytes ?p ''new'' ?w))"
    by (simp add: prod_eq_iff)
  from r1 r2 conjunct1 [OF atomic_write_all_or_nothing [OF c b d run]] show ?thesis
    unfolding Let_def by blast
qed

end
