(* ===== verification/Locks.thy ===== *)
theory Locks
  imports FileSystem
begin

text \<open>
  \<^verbatim>\<open>agency/fs/locks.py\<close>. A lock is an empty file; acquiring it makes its directory and
  opens it for appending. \<^const>\<open>busy\<close> lists the lock files another process holds: a caller
  that does not wait is refused there, and one that waits goes on in the state it finds once
  the holder is done. The lock ends with its block and leaves its file behind.

  The second part is the state machine of many processes over these locks.
\<close>

definition open_append :: "path \<Rightarrow> unit fio" where
  "open_append p = bindI (see (\<lambda>fs. stat_node fs p)) (\<lambda>n. case n of
       None \<Rightarrow> write_bytes p []
     | Some Dir \<Rightarrow> raise (Exn CIsADirectoryError ''Is a directory'')
     | Some _ \<Rightarrow> ret ())"

text \<open>
  \<open>exclusive_lock(path, wait=wait, cancelled=cancelled)\<close> around \<open>m\<close>. The callback is the
  answer it gives when it is asked; the first answer is taken before the first attempt.
\<close>

definition exclusive_lock :: "path \<Rightarrow> bool \<Rightarrow> bool \<Rightarrow> 'a fio \<Rightarrow> 'a fio" where
  "exclusive_lock p wait cancelled m =
     thenI (mkdir_p (butlast p))
       (thenI (open_append p)
         (thenI (assertI (\<not> cancelled) (Exn CLockCancelledError (''Lock acquisition cancelled for '' @ path_str p)))
           (bindI (gets_st (\<lambda>w. resolve (files w) p \<in> set (busy w))) (\<lambda>held.
              if held \<and> \<not> wait then raise (Exn CResourceBusyError (''Lock is busy: '' @ path_str p))
              else m))))"

lemma keeps_open_append [keeps_intros]:
  "below rt p \<Longrightarrow> p \<in> S \<Longrightarrow> keeps (confined rt S g) (open_append p)"
  unfolding open_append_def
  by (intro keeps_bindI keeps_see) (auto split: option.splits node.splits intro!: keeps_pure keeps_write_bytes)

lemma keeps_exclusive_lock [keeps_intros]:
  assumes "below rt p" "p \<in> S" "\<And>q. prefix q (butlast p) \<Longrightarrow> q \<noteq> [] \<Longrightarrow> q \<in> S" "keeps (confined rt S g) m"
  shows "keeps (confined rt S g) (exclusive_lock p wait c m)"
  unfolding exclusive_lock_def
  using assms
  by (intro keeps_thenI keeps_bindI keeps_mkdir_p keeps_open_append keeps_pure below_butlast)
     (auto intro: keeps_pure)

text \<open>
  Where the directory of the lock exists, taking the lock touches the lock file only and then
  runs the block or stops.
\<close>

lemma open_append_cases:
  assumes "clean rt (files w)" "below rt q" "open_append q w = (res, w')"
  shows "clean rt (files w') \<and> (\<forall>x. x \<noteq> q \<longrightarrow> node_at (files w') x = node_at (files w) x)"
proof -
  have "keeps (confined rt {q} (node_at (files w))) (open_append q)"
    by (rule keeps_open_append [OF assms(2)]) simp
  from keepsD [OF this confined_self [OF assms(1)] assms(3)] show ?thesis
    by (auto simp: confined_def)
qed

lemma exclusive_lock_cases:
  assumes "clean rt (files w)" "below rt q" "node_at (files w) (butlast q) = Some Dir"
    and "exclusive_lock q wait c m w = (res, w')"
  obtains w1 where "clean rt (files w1)" "\<forall>x. x \<noteq> q \<longrightarrow> node_at (files w1) x = node_at (files w) x"
    "(\<exists>e. res = Inl e \<and> w' = w1) \<or> m w1 = (res, w')"
proof -
  obtain ro w1 where o: "open_append q w = (ro, w1)" by fastforce
  have run: "exclusive_lock q wait c m w =
    thenI (open_append q)
         (thenI (assertI (\<not> c) (Exn CLockCancelledError (''Lock acquisition cancelled for '' @ path_str q)))
           (bindI (gets_st (\<lambda>w. resolve (files w) q \<in> set (busy w))) (\<lambda>held.
              if held \<and> \<not> wait then raise (Exn CResourceBusyError (''Lock is busy: '' @ path_str q))
              else m))) w"
    using mkdir_p_there [OF assms(1) below_butlast [OF assms(2)] assms(3)]
    by (simp add: exclusive_lock_def thenI_apply)
  have "(\<exists>e. res = Inl e \<and> w' = w1) \<or> m w1 = (res, w')"
    using assms(4) unfolding run
    by (cases ro) (auto simp: thenI_apply o bindI_apply split: if_splits)
  with that [of w1] open_append_cases [OF assms(1,2) o] show thesis by blast
qed

text \<open>On a machine that works, a lock that may be waited for is taken.\<close>

lemma exclusive_lock_works:
  assumes "clean rt (files w)" "below rt q" "node_at (files w) (butlast q) = Some Dir"
    and "node_at (files w) q \<noteq> Some Dir" "node_at (files w) q \<noteq> Some Special" "sched w = []"
  shows "\<exists>w1. exclusive_lock q True False m w = m w1 \<and> sched w1 = [] \<and> clean rt (files w1) \<and>
    (\<forall>x. x \<noteq> q \<longrightarrow> node_at (files w1) x = node_at (files w) x)"
proof -
  have mk: "mkdir_p (butlast q) w = (Inr (), w)"
    by (rule mkdir_p_there [OF assms(1) below_butlast [OF assms(2)] assms(3)])
  have nl: "\<not> is_link (node_at (files w) q)" using assms(1,2) by (auto simp: clean_def below_def)
  show ?thesis
  proof (cases "node_at (files w) q")
    case None
    have s: "sys_write q [] (files w) = Inr (put q (File []) (files w))"
      using assms None by (simp add: sys_write_def resolve_clean)
    let ?w1 = "w\<lparr>files := put q (File []) (files w)\<rparr>"
    have "q \<noteq> []" using None by auto
    moreover have "clean rt (files ?w1)" using sys_write_effect [OF s assms(1,2)] by simp
    moreover have "exclusive_lock q True False m w = m ?w1"
      using mk None assms
      by (simp add: exclusive_lock_def thenI_apply open_append_def stat_clean write_bytes_def
          syscall_works [where f = "sys_write q []", OF assms(6) s] bindI_apply)
    ultimately show ?thesis using assms(6) by (intro exI [of _ ?w1]) simp
  next
    case (Some n)
    with nl assms(4,5) have "exclusive_lock q True False m w = m w"
      using mk assms(1,2)
      by (cases n) (simp_all add: exclusive_lock_def thenI_apply open_append_def stat_clean bindI_apply)
    with assms(1,6) show ?thesis by blast
  qed
qed

section \<open>Many processes\<close>

text \<open>
  A process is a list of locks it takes in order and how many of them it has. A process
  that has all its locks runs its block, and leaves by releasing all of them
  (\<open>ExitStack.close\<close>).
\<close>

record 'l proc =
  plan :: "'l list"
  got :: nat

definition held :: "'l proc \<Rightarrow> 'l set" where
  "held p = set (take (got p) (plan p))"

definition wants :: "'l proc \<Rightarrow> 'l option" where
  "wants p = (if got p < length (plan p) then Some (plan p ! got p) else None)"

inductive lock_step :: "'l proc list \<Rightarrow> 'l proc list \<Rightarrow> bool" where
  acquire: "\<lbrakk>i < length ps; wants (ps ! i) = Some l; \<forall>j < length ps. l \<notin> held (ps ! j)\<rbrakk>
    \<Longrightarrow> lock_step ps (ps[i := (ps ! i)\<lparr>got := Suc (got (ps ! i))\<rparr>])"
| release: "\<lbrakk>i < length ps; wants (ps ! i) = None\<rbrakk> \<Longrightarrow> lock_step ps (ps[i := (ps ! i)\<lparr>got := 0\<rparr>])"
| enter: "\<lbrakk>i < length ps; got (ps ! i) = 0\<rbrakk> \<Longrightarrow> lock_step ps (ps[i := \<lparr>plan = ls, got = 0\<rparr>])"

inductive_cases lock_stepE: "lock_step ps qs"

definition exclusive :: "'l proc list \<Rightarrow> bool" where
  "exclusive ps \<longleftrightarrow> (\<forall>i j. i < length ps \<longrightarrow> j < length ps \<longrightarrow> i \<noteq> j \<longrightarrow> held (ps ! i) \<inter> held (ps ! j) = {})"

lemma held_Suc: "wants p = Some l \<Longrightarrow> held (p\<lparr>got := Suc (got p)\<rparr>) = insert l (held p)"
  by (auto simp: wants_def held_def take_Suc_conv_app_nth split: if_splits)

lemma held_0 [simp]: "held (p\<lparr>got := 0\<rparr>) = {}" "held \<lparr>plan = ls, got = 0\<rparr> = {}"
  by (simp_all add: held_def)

lemma exclusive_step: "lock_step ps qs \<Longrightarrow> exclusive ps \<Longrightarrow> exclusive qs"
proof (induction rule: lock_step.induct)
  case (acquire i ps l)
  then show ?case
    by (auto simp: exclusive_def nth_list_update held_Suc)
next
  case (release i ps)
  then show ?case by (auto simp: exclusive_def nth_list_update)
next
  case (enter i ps ls)
  then show ?case by (auto simp: exclusive_def nth_list_update)
qed


text \<open>\<open>i\<close> waits for \<open>j\<close>: the next lock of \<open>i\<close> is held by \<open>j\<close>.\<close>

definition waits_for :: "'l proc list \<Rightarrow> nat \<Rightarrow> nat \<Rightarrow> bool" where
  "waits_for ps i j \<longleftrightarrow> i < length ps \<and> j < length ps \<and>
     (\<exists>l. wants (ps ! i) = Some l \<and> l \<in> held (ps ! j))"

text \<open>Locks taken in one global order never deadlock.\<close>

lemma waits_for_increases:
  fixes key :: "'l \<Rightarrow> 'k::linorder"
  assumes "\<forall>p\<in>set ps. sorted_wrt (\<lambda>a b. key a < key b) (plan p)"
    and "waits_for ps i j" "wants (ps ! j) = Some m" "wants (ps ! i) = Some l"
  shows "key l < key m"
proof -
  from assms(2,4) have j: "j < length ps" "l \<in> held (ps ! j)" by (auto simp: waits_for_def)
  let ?p = "plan (ps ! j)" and ?k = "got (ps ! j)"
  from assms(3) have k: "?k < length ?p" "?p ! ?k = m" by (auto simp: wants_def split: if_splits)
  from j(2) k(1) obtain a where "a < ?k" "?p ! a = l" by (auto simp: held_def in_set_conv_nth)
  with assms(1) j(1) k show ?thesis by (auto simp: sorted_wrt_iff_nth_less)
qed

lemma no_wait_cycle:
  fixes key :: "'l \<Rightarrow> 'k::linorder"
  assumes ord: "\<forall>p\<in>set ps. sorted_wrt (\<lambda>a b. key a < key b) (plan p)"
  shows "\<not> (waits_for ps)\<^sup>+\<^sup>+ i i"
proof
  assume "(waits_for ps)\<^sup>+\<^sup>+ i i"
  moreover have "key l < key m"
    if "(waits_for ps)\<^sup>+\<^sup>+ i j" "wants (ps ! i) = Some l" "wants (ps ! j) = Some m" for i j l m
    using that
  proof (induction arbitrary: m rule: tranclp_induct)
    case (base j)
    then show ?case using waits_for_increases [OF ord] by blast
  next
    case (step j k)
    from step.hyps(2) obtain x where x: "wants (ps ! j) = Some x" by (auto simp: waits_for_def)
    with step have "key l < key x" by blast
    also have "key x < key m" using waits_for_increases [OF ord step.hyps(2) step.prems(2) x] .
    finally show ?case .
  qed
  moreover have "\<exists>l. wants (ps ! i) = Some l"
    using tranclpD [OF \<open>(waits_for ps)\<^sup>+\<^sup>+ i i\<close>] by (auto simp: waits_for_def)
  ultimately show False by fastforce
qed

lemma ordered_progress:
  fixes key :: "'l \<Rightarrow> 'k::linorder"
  assumes ord: "\<forall>p\<in>set ps. sorted_wrt (\<lambda>a b. key a < key b) (plan p)"
    and "i < length ps" "wants (ps ! i) \<noteq> None"
  shows "(\<exists>i l. i < length ps \<and> wants (ps ! i) = Some l \<and> (\<forall>j < length ps. l \<notin> held (ps ! j))) \<or>
    (\<exists>j < length ps. wants (ps ! j) = None \<and> held (ps ! j) \<noteq> {})"
proof -
  let ?K = "{key l | i l. i < length ps \<and> wants (ps ! i) = Some l}"
  have "?K \<subseteq> (\<lambda>i. key (the (wants (ps ! i)))) ` {..<length ps}" by force
  then have fin: "finite ?K" by (rule finite_subset) simp
  have ne: "?K \<noteq> {}" using assms(2,3) by auto
  from Max_in [OF fin ne] obtain a l where a: "a < length ps" "wants (ps ! a) = Some l" "Max ?K = key l"
    by auto
  show ?thesis
  proof (cases "\<forall>j < length ps. l \<notin> held (ps ! j)")
    case True
    with a show ?thesis by blast
  next
    case False
    then obtain j where j: "j < length ps" "l \<in> held (ps ! j)" by blast
    have "wants (ps ! j) = None"
    proof (rule ccontr)
      assume "wants (ps ! j) \<noteq> None"
      then obtain m where m: "wants (ps ! j) = Some m" by blast
      have "waits_for ps a j" using a j by (auto simp: waits_for_def)
      from waits_for_increases [OF ord this m a(2)] have "key l < key m" .
      moreover have "key m \<le> Max ?K" using fin j(1) m by (intro Max_ge) auto
      ultimately show False using a(3) by simp
    qed
    with j show ?thesis by blast
  qed
qed


end
