(* ===== verification/Simulation.thy ===== *)
theory Simulation
  imports Prelude
begin

text \<open>
  Two contracts the stores of the program share.

  \<open>simulation\<close>: every operation of a store, whatever interrupts it, moves what the store
  holds along a specified relation. A sequence of operations then does so too, and what the
  relation preserves is an invariant of the store. \<open>compare_and_set\<close>: a write names the revision
  it is based on and is refused when the store has another one. Of two writers that started from the
  same revision only one can win.
\<close>

locale simulation =
  fixes holds_abs :: "'c \<Rightarrow> 'a \<Rightarrow> bool"
    and run_op :: "'o \<Rightarrow> 'c \<Rightarrow> 'c"
    and edge :: "'a \<Rightarrow> 'a \<Rightarrow> bool"
    and op_ok :: "'o \<Rightarrow> bool"
  assumes simulates: "holds_abs c a \<Longrightarrow> op_ok op \<Longrightarrow> \<exists>a'. edge\<^sup>*\<^sup>* a a' \<and> holds_abs (run_op op c) a'"
begin

lemma run_simulates:
  "holds_abs c a \<Longrightarrow> list_all op_ok ops \<Longrightarrow> \<exists>a'. edge\<^sup>*\<^sup>* a a' \<and> holds_abs (fold run_op ops c) a'"
proof (induction ops arbitrary: c a)
  case Nil
  then show ?case by auto
next
  case (Cons op ops)
  from Cons.prems simulates [of c a op] obtain x where "edge\<^sup>*\<^sup>* a x" "holds_abs (run_op op c) x" by auto
  moreover from this Cons.IH [of "run_op op c" x] Cons.prems
  obtain y where "edge\<^sup>*\<^sup>* x y" "holds_abs (fold run_op ops (run_op op c)) y" by auto
  ultimately show ?case by (metis fold_simps(2) rtranclp_trans)
qed

lemma run_invariant:
  assumes "holds_abs c a" "list_all op_ok ops" "\<And>x y. edge x y \<Longrightarrow> I x \<Longrightarrow> I y" "I a"
  shows "\<exists>a'. I a' \<and> edge\<^sup>*\<^sup>* a a' \<and> holds_abs (fold run_op ops c) a'"
proof -
  from run_simulates [OF assms(1,2)] obtain x where x: "edge\<^sup>*\<^sup>* a x" "holds_abs (fold run_op ops c) x" by blast
  from x(1) assms(4) have "I x" by (induction rule: rtranclp_induct) (auto intro: assms(3))
  with x show ?thesis by blast
qed

end

locale compare_and_set =
  fixes content :: "'s \<Rightarrow> 'b option"
    and encode :: "'d \<Rightarrow> 'b"
    and revision :: "'b option \<Rightarrow> 'r"
    and place_ok :: "'s \<Rightarrow> bool"
    and won :: "'r \<Rightarrow> 'd \<Rightarrow> 's \<Rightarrow> bool"
    and after :: "'r \<Rightarrow> 'd \<Rightarrow> 's \<Rightarrow> 's"
  assumes won_revision: "place_ok s \<Longrightarrow> won r d s \<Longrightarrow> revision (content s) = r"
    and won_content: "place_ok s \<Longrightarrow> won r d s \<Longrightarrow> content (after r d s) = Some (encode d)"
    and stale_content: "place_ok s \<Longrightarrow> revision (content s) \<noteq> r \<Longrightarrow> content (after r d s) = content s"
    and place_kept: "place_ok s \<Longrightarrow> place_ok (after r d s)"
begin

lemma second_writer_loses:
  assumes "place_ok s" "won r d s" "revision (Some (encode d)) \<noteq> r"
  shows "\<not> won r e (after r d s) \<and> content (after r e (after r d s)) = Some (encode d)"
proof -
  have p: "place_ok (after r d s)" by (rule place_kept [OF assms(1)])
  have c: "content (after r d s) = Some (encode d)" by (rule won_content [OF assms(1,2)])
  with assms(3) have "revision (content (after r d s)) \<noteq> r" by simp
  with p c won_revision [of "after r d s" r e] stale_content [of "after r d s" r e] show ?thesis by auto
qed

text \<open>Nobody whose base is stale can win, however many writers come after.\<close>

lemma stale_writers_lose:
  assumes "place_ok s" "revision (content s) \<noteq> r"
  shows "content (fold (after r) ds s) = content s \<and> place_ok (fold (after r) ds s)"
  using assms
proof (induction ds arbitrary: s)
  case (Cons d ds)
  have "content (after r d s) = content s" by (rule stale_content [OF Cons.prems])
  moreover have "place_ok (after r d s)" by (rule place_kept [OF Cons.prems(1)])
  ultimately show ?case using Cons.IH [of "after r d s"] Cons.prems by simp
qed simp

end

end
