(* ===== verification/JobStore.thy ===== *)
theory JobStore
  imports JobModels Locks Simulation
begin

text \<open>
  \<^verbatim>\<open>agency/jobs/store.py\<close>: the YAML file of a job, its life cycle, and the order in which the
  operation locks of groups are taken. \<open>Y\<close> is the YAML codec and \<open>H\<close> the hash.
\<close>

section \<open>Paths\<close>

definition job_path :: "path \<Rightarrow> string \<Rightarrow> path" where
  "job_path jobs_dir job_id = jobs_dir @ [job_id @ ''.yaml'']"

definition job_lock_path :: "path \<Rightarrow> path" where
  "job_lock_path p = butlast p @ [last p @ ''.lock'']"

definition group_operation_lock_path :: "path \<Rightarrow> path" where
  "group_operation_lock_path group_root = group_root @ [''locks'', ''.operations.lock'']"

text \<open>\<open>unique[str(lock_path)] = lock_path\<close> for each root, then the values in key order.\<close>

definition canonical_group_operation_lock_paths :: "fs \<Rightarrow> path list \<Rightarrow> path list" where
  "canonical_group_operation_lock_paths fs roots =
     (let unique = dict_update [] (map (\<lambda>r. let p = resolve fs (group_operation_lock_path r) in (path_str p, p)) roots)
      in map (\<lambda>k. the (map_of unique k)) (sort (map fst unique)))"

text \<open>The locks are entered in that order and all of them released at the end of \<open>m\<close>.\<close>

definition with_locks :: "path list \<Rightarrow> 'a fio \<Rightarrow> 'a fio" where
  "with_locks ps m = foldr (\<lambda>p rest. exclusive_lock p True False rest) ps m"

definition acquire_group_operation_locks :: "path list \<Rightarrow> 'a fio \<Rightarrow> 'a fio" where
  "acquire_group_operation_locks roots m =
     bindI (see (\<lambda>fs. canonical_group_operation_lock_paths fs roots)) (\<lambda>ps. with_locks ps m)"

section \<open>Reading and writing\<close>

definition write_job :: "codec \<Rightarrow> (string \<Rightarrow> string) \<Rightarrow> path \<Rightarrow> job_record \<Rightarrow> unit fio" where
  "write_job Y H p r =
     thenI (assertI (jr_authority_digest r = PStr (immutable_digest H (jr_spec r)))
              (value_error ''immutable job authority digest mismatch''))
       (atomic_write_text p (dump Y (PDict (record_to_dict r))))"

definition read_job :: "codec \<Rightarrow> (string \<Rightarrow> string) \<Rightarrow> path \<Rightarrow> string option \<Rightarrow> job_record fio" where
  "read_job Y H p expected =
     bindI (read_text p) (\<lambda>text.
     bindI (liftR (load Y text)) (\<lambda>data.
     bindI (liftR (record_from_dict H data)) (\<lambda>r.
     thenI (assertI (expected = None \<or> jr_authority_digest r = PStr (the expected))
              (value_error ''immutable job authority does not match launch reference''))
       (ret r))))"

section \<open>Transitions\<close>

definition valid_transitions :: "string \<Rightarrow> string list" where
  "valid_transitions s =
     (if s = ''queued'' then [''waiting_for_memory'', ''running'', ''failed'', ''cancelled'']
      else if s = ''waiting_for_memory'' then [''running'', ''failed'', ''cancelled'', ''complete'']
      else if s = ''running'' then [''complete'', ''failed'']
      else [])"

text \<open>
  \<open>replace(record, status=status, **changes)\<close>: the changes name fields of the record other
  than its specification.
\<close>

definition replace_fields :: "job_record \<Rightarrow> (string \<times> py) list \<Rightarrow> job_record res" where
  "replace_fields r changes =
     bindR (kwargs [] record_fields changes) (\<lambda>_.
       Inr (new_record (jr_spec r) (dict_update (record_values r) changes)))"

definition replace_status :: "job_record \<Rightarrow> string \<Rightarrow> (string \<times> py) list \<Rightarrow> job_record res" where
  "replace_status r status changes =
     bindR (assertR (''status'' \<notin> fst ` set changes) (type_error ''got multiple values for keyword argument'')) (\<lambda>_.
       replace_fields r ((''status'', PStr status) # changes))"

definition transition_job ::
  "codec \<Rightarrow> (string \<Rightarrow> string) \<Rightarrow> path \<Rightarrow> string \<Rightarrow> string \<Rightarrow> (string \<times> py) list \<Rightarrow> job_record fio" where
  "transition_job Y H p expected status changes =
     exclusive_lock (job_lock_path p) True False
       (bindI (read_job Y H p None) (\<lambda>r.
        thenI (assertI (jr_status r = PStr expected)
                 (Exn CInvalidJobTransition (''Expected job status '' @ repr_str expected @ '', found '' @ repr (jr_status r))))
          (thenI (assertI (status \<in> set (valid_transitions expected))
                 (Exn CInvalidJobTransition (''Invalid job transition '' @ repr_str expected @ '' -> '' @ repr_str status)))
            (bindI (liftR (replace_status r status changes)) (\<lambda>r'.
               thenI (write_job Y H p r') (ret r'))))))"

definition cancel_job :: "codec \<Rightarrow> (string \<Rightarrow> string) \<Rightarrow> path \<Rightarrow> job_record fio" where
  "cancel_job Y H p =
     exclusive_lock (job_lock_path p) True False
       (bindI (read_job Y H p None) (\<lambda>r.
        thenI (assertI (jr_status r \<in> {PStr ''queued'', PStr ''waiting_for_memory''})
                 (Exn CInvalidJobTransition ''Only queued or waiting_for_memory jobs can be cancelled''))
            (bindI (liftR (replace_status r ''cancelled'' [])) (\<lambda>r'.
               thenI (write_job Y H p r') (ret r')))))"

section \<open>Listing\<close>

definition active_statuses :: "string list" where
  "active_statuses = [''queued'', ''waiting_for_memory'', ''running'']"

text \<open>\<open>sorted(dir.glob("*.yaml"))\<close>, nothing where there is no directory.\<close>

definition job_files :: "path \<Rightarrow> fs \<Rightarrow> path list" where
  "job_files d fs =
     (if is_dir fs d then map (\<lambda>n. d @ [n]) (sort (filter (\<lambda>n. endswith n ''.yaml'') (listdir fs d))) else [])"

fun active_jobs :: "codec \<Rightarrow> (string \<Rightarrow> string) \<Rightarrow> path list \<Rightarrow> string option \<Rightarrow> job_record list fio" where
  "active_jobs Y H [] agent = ret []"
| "active_jobs Y H (p # ps) agent =
     bindI (try_only [COSError, CKeyError, CTypeError, CValueError, CYAMLError]
              (bindI (read_job Y H p None) (\<lambda>r. ret (Some r))) (\<lambda>_. ret None)) (\<lambda>found.
     bindI (active_jobs Y H ps agent) (\<lambda>rest.
       ret (case found of
              None \<Rightarrow> rest
            | Some r \<Rightarrow>
                if text_of (jr_status r) \<in> set active_statuses \<and>
                   (agent = None \<or> js_agent_name (jr_spec r) = PStr (the agent))
                then r # rest else rest)))"

section \<open>Facts about records\<close>

lemma record_values_keys: "map fst (record_values r) = record_fields"
  by (simp add: record_values_def record_fields_def)

lemma distinct_record_fields: "distinct record_fields"
  by (simp add: record_fields_def)

definition field_value :: "(string \<times> py) list \<Rightarrow> string \<Rightarrow> py" where
  "field_value d k = get_or d k
     (if k = ''authority_digest'' then PStr [] else if k = ''status'' then PStr ''queued''
      else if k = ''changed_files'' then PList [] else PNone)"

lemma record_values_new: "record_values (new_record s d) = map (\<lambda>k. (k, field_value d k)) record_fields"
  by (simp add: record_values_def new_record_def record_fields_def field_value_def get_def get_or_def)

lemma replace_fields_get:
  assumes "replace_fields r changes = Inr r'" "distinct (map fst changes)"
  shows "jr_spec r' = jr_spec r"
    and "map_of (record_values r') = map_of (record_values r) ++ map_of changes"
proof -
  let ?d = "dict_update (record_values r) changes"
  from assms(1) have r': "r' = new_record (jr_spec r) ?d" and k: "fst ` set changes \<subseteq> set record_fields"
    by (auto simp: replace_fields_def bindR_Inr_iff kwargs_def)
  then show "jr_spec r' = jr_spec r" by (simp add: new_record_def)
  have m: "map_of ?d = map_of (record_values r) ++ map_of changes"
    by (rule map_of_dict_update [OF assms(2)])
  have vk: "fst ` set (record_values r) = set record_fields" for r
    by (simp only: set_map [symmetric] record_values_keys)
  have dom: "dom (map_of ?d) = set record_fields"
    unfolding m dom_map_add dom_map_of_conv_image_fst vk using k by blast
  have "map_of (record_values (new_record s d)) = map_of d" if dm: "dom (map_of d) = set record_fields" for s d
  proof
    fix k
    show "map_of (record_values (new_record s d)) k = map_of d k"
    proof (cases "k \<in> set record_fields")
      case True
      with dm have "k \<in> dom (map_of d)" by simp
      then obtain x where "map_of d k = Some x" by blast
      with True show ?thesis by (simp add: record_values_new map_of_map_restrict field_value_def get_or_def)
    next
      case False
      with dm have "map_of d k = None" by auto
      with False show ?thesis by (simp add: record_values_new map_of_map_restrict)
    qed
  qed
  from this [OF dom] show "map_of (record_values r') = map_of (record_values r) ++ map_of changes"
    by (simp add: r' m)
qed

lemma replace_status_spec:
  assumes "replace_status r status changes = Inr r'" "distinct (map fst changes)"
  shows "jr_spec r' = jr_spec r" "jr_status r' = PStr status"
    and "''authority_digest'' \<notin> fst ` set changes \<Longrightarrow> jr_authority_digest r' = jr_authority_digest r"
proof -
  from assms(1) have r: "replace_fields r ((''status'', PStr status) # changes) = Inr r'"
    and n: "''status'' \<notin> fst ` set changes"
    by (auto simp: replace_status_def bindR_Inr_iff)
  have d: "distinct (map fst ((''status'', PStr status) # changes))" using n assms(2) by auto
  note g = replace_fields_get [OF r d]
  show "jr_spec r' = jr_spec r" by (rule g(1))
  have s: "map_of changes ''status'' = None" using n by (simp add: map_of_eq_None_iff)
  have v: "map_of (record_values r') ''status'' = Some (jr_status r')"
    "map_of (record_values r') ''authority_digest'' = Some (jr_authority_digest r')"
    "map_of (record_values r) ''authority_digest'' = Some (jr_authority_digest r)"
    by (simp_all add: record_values_def)
  from v(1) s show "jr_status r' = PStr status" by (simp add: g(2) map_add_def)
  assume "''authority_digest'' \<notin> fst ` set changes"
  then have "map_of changes ''authority_digest'' = None" by (simp add: map_of_eq_None_iff)
  with v(2,3) show "jr_authority_digest r' = jr_authority_digest r" by (simp add: g(2) map_add_def)
qed

section \<open>What a job file holds\<close>

definition job_text :: "codec \<Rightarrow> job_record \<Rightarrow> bytes" where
  "job_text Y r = utf8_encode (dump Y (PDict (record_to_dict r)))"

definition holds :: "codec \<Rightarrow> (string \<Rightarrow> string) \<Rightarrow> path \<Rightarrow> job_record \<Rightarrow> (path \<Rightarrow> node option) \<Rightarrow> bool" where
  "holds Y H p r g \<longleftrightarrow> g p = Some (File (job_text Y r)) \<and> record_ok H r \<and> json_ok (PDict (record_to_dict r))"

lemma read_bytes_clean:
  "clean rt (files w) \<Longrightarrow> below rt p \<Longrightarrow> node_at (files w) p = Some (File b) \<Longrightarrow> read_bytes p w = (Inr b, w)"
  by (simp add: read_bytes_def stat_clean)

lemma read_job_holds:
  assumes "codec_ok Y" "clean rt (files w)" "below rt p" "holds Y H p r (node_at (files w))"
  shows "read_job Y H p None w = (Inr r, w)"
proof -
  have "read_text p w = (Inr (dump Y (PDict (record_to_dict r))), w)"
    using read_bytes_clean [OF assms(2,3)] assms(4)
    by (simp add: read_text_def holds_def job_text_def bindI_apply)
  then show ?thesis using assms(1,4) codec_okD [of Y] record_roundtrip [of H r]
    by (simp add: read_job_def bindI_apply thenI_apply holds_def)
qed

lemma valid_transitions_known: "s \<in> set (valid_transitions a) \<Longrightarrow> s \<in> set valid_statuses"
  by (auto simp: valid_transitions_def valid_statuses_def split: if_splits)

lemma distinct_record_to_dict: "distinct (map fst (record_to_dict r))"
  using distinct_record_fields
  by (simp add: record_to_dict_def record_values_keys) (simp add: record_fields_def)

lemma json_ok_replace:
  assumes "replace_status r status changes = Inr r'" "distinct (map fst changes)"
    and "json_ok (PDict (record_to_dict r))" "list_all (\<lambda>(k, v). json_ok v) changes"
  shows "json_ok (PDict (record_to_dict r'))"
proof -
  let ?c = "(''status'', PStr status) # changes"
  from assms(1) have r': "r' = new_record (jr_spec r) (dict_update (record_values r) ?c)"
    by (auto simp: replace_status_def replace_fields_def bindR_Inr_iff)
  have v: "list_all (\<lambda>(k, v). json_ok v) (dict_update (record_values r) ?c)"
    using set_dict_update [of "record_values r" ?c] assms(3,4)
    by (fastforce simp: record_to_dict_def list_all_iff)
  have "json_ok (field_value d k)" if d: "list_all (\<lambda>(k, v). json_ok v) d" for d k
  proof (cases "map_of d k")
    case None
    then show ?thesis by (simp only: field_value_def get_or_def option.case) simp
  next
    case (Some x)
    then have "(k, x) \<in> set d" by (rule map_of_SomeD)
    with d Some show ?thesis by (auto simp only: field_value_def get_or_def option.case list_all_iff)
  qed
  with v have "list_all (\<lambda>(k, v). json_ok v) (record_values r')"
    unfolding r' record_values_new by (simp add: list_all_iff)
  moreover have "json_ok (PDict (spec_to_dict (jr_spec r)))"
    using assms(3) by (simp add: record_to_dict_def)
  moreover have "jr_spec r' = jr_spec r" by (simp add: r' new_record_def)
  ultimately show ?thesis using distinct_record_to_dict [of r']
    by (simp add: record_to_dict_def)
qed

lemma job_lock_path_safe:
  assumes "below rt p" "strict_prefix rt p" "last p \<noteq> []"
  shows "below rt (job_lock_path p)" "job_lock_path p \<noteq> p" "butlast (job_lock_path p) = butlast p"
proof -
  note b = strictly_below [OF assms(1,2)]
  have "last p @ ''.lock'' \<noteq> ''..''" by (cases "last p") auto
  with b below_append [of rt "butlast p"] show "below rt (job_lock_path p)"
    by (simp add: job_lock_path_def)
  have "last p @ ''.lock'' \<noteq> last p" by simp
  with b show "job_lock_path p \<noteq> p" by (metis job_lock_path_def last_snoc)
  show "butlast (job_lock_path p) = butlast p" by (simp add: job_lock_path_def)
qed

text \<open>The setting of a job file: a clean store, an existing directory, a direct file in it.\<close>

definition job_place :: "path \<Rightarrow> path \<Rightarrow> world \<Rightarrow> bool" where
  "job_place rt p w \<longleftrightarrow> clean rt (files w) \<and> below rt p \<and> strict_prefix rt p \<and> last p \<noteq> [] \<and>
     node_at (files w) (butlast p) = Some Dir"

text \<open>\<open>write_job\<close> of the record \<open>r'\<close> over \<open>r\<close>.\<close>

lemma write_job_outcome:
  assumes "job_place rt p w" "holds Y H p r (node_at (files w))"
    and "replace_status r status changes = Inr r'" "distinct (map fst changes)"
    and "status \<in> set valid_statuses" "list_all (\<lambda>(k, v). json_ok v) changes"
    and "write_job Y H p r' w = (res, w')"
  shows "clean rt (files w')" "node_at (files w') (butlast p) = Some Dir"
    "res = Inr () \<Longrightarrow> holds Y H p r' (node_at (files w'))"
    "holds Y H p r (node_at (files w')) \<or> holds Y H p r' (node_at (files w'))"
proof -
  from assms(1) have pl: "clean rt (files w)" "below rt p" "strict_prefix rt p" "last p \<noteq> []"
      "node_at (files w) (butlast p) = Some Dir"
    by (simp_all add: job_place_def)
  note sb = strictly_below [OF pl(2,3)]
  have bp: "butlast p \<noteq> p" using assms(2) pl(5) by (auto simp: holds_def)
  have bt: "butlast p \<notin> temp_paths p"
    using sb temp_paths_not_prefix [of "butlast p" p] by (auto simp: prefixeq_butlast)
  have "clean rt (files w') \<and> node_at (files w') (butlast p) = Some Dir \<and>
     (res = Inr () \<longrightarrow> holds Y H p r' (node_at (files w'))) \<and>
     (holds Y H p r (node_at (files w')) \<or> holds Y H p r' (node_at (files w')))"
  proof (cases "jr_authority_digest r' = PStr (immutable_digest H (jr_spec r'))")
    case False
    with assms(7) have "w' = w" "res \<noteq> Inr ()" by (auto simp: write_job_def thenI_apply)
    with assms(2) pl show ?thesis by simp
  next
    case True
    note sp = replace_status_spec [OF assms(3,4)]
    have ok': "record_ok H r'" "json_ok (PDict (record_to_dict r'))"
      using assms(2,5) True sp(1,2) json_ok_replace [OF assms(3,4) _ assms(6)]
      by (auto simp: record_ok_def holds_def)
    from True assms(7) have "atomic_write_bytes p (job_text Y r') w = (res, w')"
      by (simp add: write_job_def thenI_apply atomic_write_text_def job_text_def)
    note out = atomic_write_outcome [OF pl this]
    from out have "node_at (files w') p \<in> {node_at (files w) p, Some (File (job_text Y r'))}" by blast
    then have "holds Y H p r (node_at (files w')) \<or> holds Y H p r' (node_at (files w'))"
      using assms(2) ok' by (auto simp: holds_def)
    moreover have "res = Inr () \<longrightarrow> holds Y H p r' (node_at (files w'))"
      using out ok' by (simp add: holds_def)
    moreover have "node_at (files w') (butlast p) = Some Dir" using out bp bt pl(5) by metis
    ultimately show ?thesis using out by blast
  qed
  then show "clean rt (files w')" "node_at (files w') (butlast p) = Some Dir"
    "res = Inr () \<Longrightarrow> holds Y H p r' (node_at (files w'))"
    "holds Y H p r (node_at (files w')) \<or> holds Y H p r' (node_at (files w'))" by blast+
qed

text \<open>
  The common shape of a transition and a cancellation: under the lock the record is read,
  \<open>guard\<close> decides, and the record with the new status is written.
\<close>

definition guarded_update ::
  "codec \<Rightarrow> (string \<Rightarrow> string) \<Rightarrow> path \<Rightarrow> (job_record \<Rightarrow> unit res) \<Rightarrow> string \<Rightarrow> (string \<times> py) list \<Rightarrow> job_record fio" where
  "guarded_update Y H p guard status changes =
     exclusive_lock (job_lock_path p) True False
       (bindI (read_job Y H p None) (\<lambda>r.
        thenI (liftR (guard r))
            (bindI (liftR (replace_status r status changes)) (\<lambda>r'.
               thenI (write_job Y H p r') (ret r')))))"

definition transition_guard :: "string \<Rightarrow> string \<Rightarrow> job_record \<Rightarrow> unit res" where
  "transition_guard expected status r =
     bindR (assertR (jr_status r = PStr expected)
              (Exn CInvalidJobTransition (''Expected job status '' @ repr_str expected @ '', found '' @ repr (jr_status r)))) (\<lambda>_.
       assertR (status \<in> set (valid_transitions expected))
              (Exn CInvalidJobTransition (''Invalid job transition '' @ repr_str expected @ '' -> '' @ repr_str status)))"

definition cancel_guard :: "job_record \<Rightarrow> unit res" where
  "cancel_guard r = assertR (jr_status r \<in> {PStr ''queued'', PStr ''waiting_for_memory''})
     (Exn CInvalidJobTransition ''Only queued or waiting_for_memory jobs can be cancelled'')"

lemma transition_job_guarded:
  "transition_job Y H p expected status changes =
     guarded_update Y H p (transition_guard expected status) status changes"
  unfolding transition_job_def guarded_update_def transition_guard_def thenI_def assertI_def
  by (auto simp: bindI_def fun_eq_iff assertR_def liftR_def split: prod.splits sum.splits
      intro!: arg_cong [where f = "\<lambda>m. exclusive_lock (job_lock_path p) True False m _"])

lemma cancel_job_guarded: "cancel_job Y H p = guarded_update Y H p cancel_guard ''cancelled'' []"
  by (simp add: cancel_job_def guarded_update_def cancel_guard_def thenI_def assertI_def)

lemma guarded_update_outcome:
  assumes "codec_ok Y" "job_place rt p w" "holds Y H p r (node_at (files w))"
    and "distinct (map fst changes)" "list_all (\<lambda>(k, v). json_ok v) changes" "status \<in> set valid_statuses"
    and "guarded_update Y H p guard status changes w = (res, w')"
  shows "job_place rt p w'"
    "res = Inr r' \<Longrightarrow> guard r = Inr () \<and> replace_status r status changes = Inr r' \<and> holds Y H p r' (node_at (files w'))"
    "holds Y H p r (node_at (files w')) \<or>
     (guard r = Inr () \<and> (\<exists>x. replace_status r status changes = Inr x \<and> holds Y H p x (node_at (files w'))))"
proof -
  from assms(2) have pl: "clean rt (files w)" "below rt p" "strict_prefix rt p" "last p \<noteq> []"
      "node_at (files w) (butlast p) = Some Dir"
    by (simp_all add: job_place_def)
  note lk = job_lock_path_safe [OF pl(2-4)]
  let ?body = "bindI (read_job Y H p None) (\<lambda>r. thenI (liftR (guard r))
            (bindI (liftR (replace_status r status changes)) (\<lambda>r'. thenI (write_job Y H p r') (ret r'))))"
  obtain w1 where w1: "clean rt (files w1)" "\<forall>x. x \<noteq> job_lock_path p \<longrightarrow> node_at (files w1) x = node_at (files w) x"
    "(\<exists>e. res = Inl e \<and> w' = w1) \<or> ?body w1 = (res, w')"
    using exclusive_lock_cases [OF pl(1) lk(1) _ assms(7) [unfolded guarded_update_def]] pl(5) lk(3) by auto
  have nb: "butlast p \<noteq> job_lock_path p"
    by (metis job_lock_path_def append_butlast_last_id lk(3) append_self_conv not_Cons_self2 butlast_snoc)
  have h1: "holds Y H p r (node_at (files w1))" using assms(3) w1(2) lk(2) by (simp add: holds_def)
  have pl1: "job_place rt p w1" using pl w1(1,2) nb by (simp add: job_place_def)
  have rd: "read_job Y H p None w1 = (Inr r, w1)"
    by (rule read_job_holds [OF assms(1) w1(1) pl(2) h1])
  have "job_place rt p w' \<and>
    (\<forall>r'. res = Inr r' \<longrightarrow> guard r = Inr () \<and> replace_status r status changes = Inr r' \<and> holds Y H p r' (node_at (files w'))) \<and>
    (holds Y H p r (node_at (files w')) \<or>
     (guard r = Inr () \<and> (\<exists>x. replace_status r status changes = Inr x \<and> holds Y H p x (node_at (files w')))))"
    (is ?goal)
  proof (cases "\<exists>x. guard r = Inr () \<and> replace_status r status changes = Inr x \<and> ?body w1 = (res, w')")
    case False
    then have "w' = w1 \<and> (\<exists>e. res = Inl e)"
      using w1(3) rd by (cases "guard r"; cases "replace_status r status changes")
        (auto simp: bindI_apply thenI_apply)
    with h1 pl1 show ?goal by auto
  next
    case True
    then obtain x where x: "guard r = Inr ()" "replace_status r status changes = Inr x" "?body w1 = (res, w')"
      by blast
    obtain rw w2 where wr: "write_job Y H p x w1 = (rw, w2)" by fastforce
    note o = write_job_outcome [OF pl1 h1 x(2) assms(4,6,5) wr]
    from x rd wr have "w' = w2 \<and> (res = Inr x \<and> rw = Inr () \<or> (\<exists>e. res = Inl e))"
      by (cases rw) (auto simp: bindI_apply thenI_apply)
    with o x pl show ?goal by (auto simp: job_place_def)
  qed
  then show "job_place rt p w'"
    "res = Inr r' \<Longrightarrow> guard r = Inr () \<and> replace_status r status changes = Inr r' \<and> holds Y H p r' (node_at (files w'))"
    "holds Y H p r (node_at (files w')) \<or>
     (guard r = Inr () \<and> (\<exists>x. replace_status r status changes = Inr x \<and> holds Y H p x (node_at (files w'))))"
    by blast+
qed

lemma guarded_update_works:
  assumes "codec_ok Y" "job_place rt p w" "holds Y H p r (node_at (files w))" "sched w = []"
    and "node_at (files w) (job_lock_path p) = None"
    and "guard r = Inr ()" "replace_status r status changes = Inr r'"
    and "jr_authority_digest r' = PStr (immutable_digest H (jr_spec r'))"
  shows "\<exists>w'. guarded_update Y H p guard status changes w = (Inr r', w')"
proof -
  from assms(2) have pl: "clean rt (files w)" "below rt p" "strict_prefix rt p" "last p \<noteq> []"
      "node_at (files w) (butlast p) = Some Dir"
    by (simp_all add: job_place_def)
  note lk = job_lock_path_safe [OF pl(2-4)]
  let ?body = "bindI (read_job Y H p None) (\<lambda>r. thenI (liftR (guard r))
            (bindI (liftR (replace_status r status changes)) (\<lambda>r'. thenI (write_job Y H p r') (ret r'))))"
  obtain w1 where w1: "guarded_update Y H p guard status changes w = ?body w1" "sched w1 = []"
      "clean rt (files w1)" "\<forall>x. x \<noteq> job_lock_path p \<longrightarrow> node_at (files w1) x = node_at (files w) x"
    using exclusive_lock_works [OF pl(1) lk(1), of ?body] assms(4,5) pl(5) lk(3)
    by (auto simp: guarded_update_def)
  have nb: "butlast p \<noteq> job_lock_path p" using assms(5) pl(5) by auto
  have h1: "holds Y H p r (node_at (files w1))" using assms(3) w1(4) lk(2) by (simp add: holds_def)
  have d1: "node_at (files w1) (butlast p) = Some Dir" using pl(5) w1(4) nb by simp
  have rd: "read_job Y H p None w1 = (Inr r, w1)"
    by (rule read_job_holds [OF assms(1) w1(3) pl(2) h1])
  obtain w' where "atomic_write_bytes p (job_text Y r') w1 = (Inr (), w')"
    using atomic_write_works [OF w1(3) pl(2-4) d1 _ w1(2)] h1 by (auto simp: holds_def)
  then have "write_job Y H p r' w1 = (Inr (), w')"
    using assms(8) by (simp add: write_job_def thenI_apply atomic_write_text_def job_text_def)
  with w1(1) rd assms(6,7) show ?thesis by (simp add: bindI_apply thenI_apply)
qed

section \<open>The life cycle\<close>

lemma transition_outcome:
  assumes "codec_ok Y" "job_place rt p w" "holds Y H p r (node_at (files w))"
    and "distinct (map fst changes)" "list_all (\<lambda>(k, v). json_ok v) changes"
    and "transition_job Y H p expected status changes w = (res, w')"
  shows "job_place rt p w' \<and> (\<forall>r'. res = Inr r' \<longrightarrow>
      jr_status r = PStr expected \<and> status \<in> set (valid_transitions expected) \<and>
      jr_status r' = PStr status \<and> jr_spec r' = jr_spec r \<and>
      holds Y H p r' (node_at (files w')) \<and> read_job Y H p None w' = (Inr r', w')) \<and>
    (holds Y H p r (node_at (files w')) \<or>
      (jr_status r = PStr expected \<and> status \<in> set (valid_transitions expected) \<and>
       (\<exists>x. replace_status r status changes = Inr x \<and> holds Y H p x (node_at (files w'))))) \<and>
    (sched w = [] \<and> node_at (files w) (job_lock_path p) = None \<and> jr_status r = PStr expected \<and>
      status \<in> set (valid_transitions expected) \<and> fst ` set changes \<subseteq> set record_fields - {''status'', ''authority_digest''}
      \<longrightarrow> (\<exists>r'. res = Inr r'))"
proof -
  let ?g = "transition_guard expected status"
  have g: "?g r = Inr () \<longleftrightarrow> jr_status r = PStr expected \<and> status \<in> set (valid_transitions expected)"
    by (auto simp: transition_guard_def bindR_Inr_iff)
  note run = assms(6) [unfolded transition_job_guarded]
  show ?thesis
  proof (cases "status \<in> set valid_statuses")
    case True
    note o = guarded_update_outcome [OF assms(1-5) True run]
    have rp: "below rt p" using assms(2) by (simp add: job_place_def)
    have 1: "jr_status r' = PStr status \<and> jr_spec r' = jr_spec r \<and> read_job Y H p None w' = (Inr r', w')"
      if "res = Inr r'" for r'
    proof -
      from o(2) [OF that] have x: "replace_status r status changes = Inr r'" and h: "holds Y H p r' (node_at (files w'))"
        by simp_all
      from o(1) have "clean rt (files w')" by (simp add: job_place_def)
      with replace_status_spec [OF x assms(4)] read_job_holds [OF assms(1) _ rp h] show ?thesis by simp
    qed
    have 3: "\<exists>r'. res = Inr r'"
      if c: "sched w = []" "node_at (files w) (job_lock_path p) = None" "?g r = Inr ()"
        "fst ` set changes \<subseteq> set record_fields - {''status'', ''authority_digest''}"
    proof -
      have "''status'' \<in> set record_fields" by (simp add: record_fields_def)
      with c(4) obtain x where x: "replace_status r status changes = Inr x"
        by (auto simp: replace_status_def replace_fields_def bindR_Inr_iff kwargs_def)
      have "jr_authority_digest x = PStr (immutable_digest H (jr_spec x))"
        using replace_status_spec [OF x assms(4)] c(4) assms(3) by (auto simp: holds_def record_ok_def)
      with guarded_update_works [where guard = ?g, OF assms(1-3) c(1,2,3) x] run show ?thesis by auto
    qed
    from 1 3 o g show ?thesis by blast
  next
    case False
    then have "status \<notin> set (valid_transitions expected)" using valid_transitions_known by blast
    with g have ng: "?g r \<noteq> Inr ()" by simp
    have "holds Y H p r (node_at (files w'))" and "\<forall>r'. res \<noteq> Inr r'" and "job_place rt p w'"
    proof -
      note lk = job_lock_path_safe [of rt p]
      obtain w1 where w1: "clean rt (files w1)" "\<forall>x. x \<noteq> job_lock_path p \<longrightarrow> node_at (files w1) x = node_at (files w) x"
        "(\<exists>e. res = Inl e \<and> w' = w1) \<or>
         bindI (read_job Y H p None) (\<lambda>r. thenI (liftR (?g r))
            (bindI (liftR (replace_status r status changes)) (\<lambda>r'. thenI (write_job Y H p r') (ret r')))) w1 = (res, w')"
        using exclusive_lock_cases [of rt w "job_lock_path p", OF _ _ _ run [unfolded guarded_update_def]] assms(2) lk
        by (auto simp: job_place_def)
      have h1: "holds Y H p r (node_at (files w1))"
        using assms(2,3) w1(2) lk(2) by (simp add: holds_def job_place_def)
      have rd: "read_job Y H p None w1 = (Inr r, w1)"
        by (rule read_job_holds [OF assms(1) w1(1) _ h1]) (use assms(2) in \<open>simp add: job_place_def\<close>)
      from w1(3) rd ng have "w' = w1 \<and> (\<exists>e. res = Inl e)"
        by (cases "?g r") (auto simp: bindI_apply thenI_apply)
      moreover have "butlast p \<noteq> job_lock_path p" by (metis job_lock_path_def last_snoc butlast_snoc append_butlast_last_id lk(3) append_self_conv not_Cons_self2)
      moreover note h1 w1(1,2) assms(2)
      ultimately show "holds Y H p r (node_at (files w'))" "\<forall>r'. res \<noteq> Inr r'" "job_place rt p w'"
        by (auto simp: job_place_def)
    qed
    with False \<open>status \<notin> set (valid_transitions expected)\<close> show ?thesis by blast
  qed
qed

text \<open>
  C3 - A job transition is atomic and legal. Whatever fault or crash interrupts it, the job
  file still holds the old record or the new one. If the call returns, the job was in the expected
  status, the new status is one the table allows, the file holds the returned record and reads
  back as it, and the specification is unchanged; if the status did not match, the old record
  is in place. On a machine that works an allowed transition returns.
\<close>

theorem transition_job_outcome:
  assumes "codec_ok Y" "job_place rt p w" "holds Y H p r (node_at (files w))"
    and "distinct (map fst changes)" "list_all (\<lambda>(k, v). json_ok v) changes"
    and "transition_job Y H p expected status changes w = (res, w')"
  shows "(\<forall>r'. res = Inr r' \<longrightarrow>
      jr_status r = PStr expected \<and> status \<in> set (valid_transitions expected) \<and>
      jr_status r' = PStr status \<and> jr_spec r' = jr_spec r \<and>
      holds Y H p r' (node_at (files w')) \<and> read_job Y H p None w' = (Inr r', w')) \<and>
    (holds Y H p r (node_at (files w')) \<or>
      (jr_status r = PStr expected \<and> status \<in> set (valid_transitions expected) \<and>
       (\<exists>x. replace_status r status changes = Inr x \<and> holds Y H p x (node_at (files w'))))) \<and>
    (sched w = [] \<and> node_at (files w) (job_lock_path p) = None \<and> jr_status r = PStr expected \<and>
      status \<in> set (valid_transitions expected) \<and> fst ` set changes \<subseteq> set record_fields - {''status'', ''authority_digest''}
      \<longrightarrow> (\<exists>r'. res = Inr r'))"
  using transition_outcome [OF assms] by blast

subsection \<open>Sequences of operations\<close>

inductive job_edge :: "job_record \<Rightarrow> job_record \<Rightarrow> bool" where
  step: "\<lbrakk>jr_status r = PStr a; b \<in> set (valid_transitions a); replace_status r b changes = Inr r';
    distinct (map fst changes)\<rbrakk> \<Longrightarrow> job_edge r r'"

inductive_cases job_edgeE: "job_edge r r'"

datatype job_op = Transition string string "(string \<times> py) list" | Cancel

fun run_job_op :: "codec \<Rightarrow> (string \<Rightarrow> string) \<Rightarrow> path \<Rightarrow> job_op \<Rightarrow> world \<Rightarrow> world" where
  "run_job_op Y H p (Transition a b changes) w = snd (transition_job Y H p a b changes w)"
| "run_job_op Y H p Cancel w = snd (cancel_job Y H p w)"

fun job_op_ok :: "job_op \<Rightarrow> bool" where
  "job_op_ok (Transition a b changes) \<longleftrightarrow> distinct (map fst changes) \<and> list_all (\<lambda>(k, v). json_ok v) changes"
| "job_op_ok Cancel \<longleftrightarrow> True"

definition terminal :: "job_record \<Rightarrow> bool" where
  "terminal r \<longleftrightarrow> jr_status r \<in> {PStr ''complete'', PStr ''failed'', PStr ''cancelled''}"

lemma terminal_no_edge: "terminal r \<Longrightarrow> \<not> job_edge r r'"
  by (auto simp: terminal_def valid_transitions_def elim!: job_edgeE)

lemma terminal_absorbing: "job_edge\<^sup>*\<^sup>* r r' \<Longrightarrow> terminal r \<Longrightarrow> r' = r"
  by (induction rule: converse_rtranclp_induct) (auto dest: terminal_no_edge)

lemma edge_spec: "job_edge\<^sup>*\<^sup>* r r' \<Longrightarrow> jr_spec r' = jr_spec r"
proof (induction rule: rtranclp_induct)
  case (step y z)
  from step.hyps(2) show ?case
    by (rule job_edgeE) (use step.IH replace_status_spec(1) in simp)
qed simp

text \<open>A record that is complete or failed can only have come from a running or waiting job.\<close>

lemma run_job_op_edge:
  assumes "codec_ok Y" "job_place rt p w" "holds Y H p r (node_at (files w))" "job_op_ok op"
  shows "job_place rt p (run_job_op Y H p op w) \<and>
    (\<exists>r'. job_edge\<^sup>*\<^sup>* r r' \<and> holds Y H p r' (node_at (files (run_job_op Y H p op w))))"
proof (cases op)
  case (Transition a b changes)
  obtain res w' where run: "transition_job Y H p a b changes w = (res, w')" by fastforce
  have ok: "distinct (map fst changes)" "list_all (\<lambda>(k, v). json_ok v) changes"
    using assms(4) Transition by simp_all
  have "job_edge r x" if "jr_status r = PStr a" "b \<in> set (valid_transitions a)" "replace_status r b changes = Inr x" for x
    using that ok(1) by (rule job_edge.step)
  with transition_outcome [OF assms(1-3) ok run] Transition run show ?thesis by auto
next
  case Cancel
  obtain res w' where run: "cancel_job Y H p w = (res, w')" by fastforce
  have "''cancelled'' \<in> set valid_statuses" by (simp add: valid_statuses_def)
  note o = guarded_update_outcome [OF assms(1-3) _ _ this run [unfolded cancel_job_guarded]]
  have e: "job_edge r x" if "cancel_guard r = Inr ()" "replace_status r ''cancelled'' [] = Inr x" for x
    using that by (auto simp: cancel_guard_def valid_transitions_def intro: job_edge.step [of r _ "''cancelled''" "[]"])
  from o e Cancel run show ?thesis by auto
qed

interpretation job_ops: simulation
  "\<lambda>w r. codec_ok Y \<and> job_place rt p w \<and> holds Y H p r (node_at (files w))"
  "run_job_op Y H p" job_edge job_op_ok for Y rt p H
  by unfold_locales (use run_job_op_edge in blast)

text \<open>
  C5 - The life cycle of a job. After any sequence of transitions and cancellations, each
  with whatever faults and crashes, the job file holds a record that the original one reaches
  along the transition table, with the same specification; a complete, failed or cancelled
  job never changes again.
\<close>

theorem job_lifecycle:
  assumes "codec_ok Y" "job_place rt p w" "holds Y H p r (node_at (files w))" "list_all job_op_ok ops"
  shows "\<exists>r'. holds Y H p r' (node_at (files (fold (run_job_op Y H p) ops w))) \<and> job_edge\<^sup>*\<^sup>* r r' \<and>
    jr_spec r' = jr_spec r \<and> (terminal r \<longrightarrow> r' = r)"
proof -
  from job_ops.run_simulates [where Y = Y and rt = rt and p = p and H = H and c = w and a = r and ops = ops] assms
  have "\<exists>r'. holds Y H p r' (node_at (files (fold (run_job_op Y H p) ops w))) \<and> job_edge\<^sup>*\<^sup>* r r'" by blast
  then show ?thesis using terminal_absorbing edge_spec by blast
qed

subsection \<open>A concrete job\<close>

definition demo_store :: "string \<Rightarrow> fate list \<Rightarrow> world" where
  "demo_store st sc =
     \<lparr>files = [([''s''], Dir), ([''s'', ''j1.yaml''], File (job_text json_codec (demo_record st)))],
      sched = sc, busy = []\<rparr>"

lemma demo_store_place: "job_place [''s''] [''s'', ''j1.yaml''] (demo_store st sc)"
proof -
  have "clean [''s''] (files (demo_store st sc))"
    by (rule clean_checkI) (simp add: clean_check_def demo_store_def node_at_def)
  then show ?thesis
    by (simp add: job_place_def below_def strict_prefix_def demo_store_def node_at_def)
qed

lemma demo_record_json: "json_ok (PDict (record_to_dict (demo_record st)))"
  using demo_spec_json distinct_record_to_dict [of "demo_record st"]
  by (simp add: record_to_dict_def record_values_def demo_record_def new_record_def)

lemma demo_store_holds:
  "st \<in> set valid_statuses \<Longrightarrow>
     holds json_codec id [''s'', ''j1.yaml''] (demo_record st) (node_at (files (demo_store st sc)))"
  unfolding holds_def using demo_record_ok demo_record_json [of st] by (simp add: demo_store_def node_at_def)

lemma transition_job_outcome_witness:
  "\<exists>r' w'. transition_job json_codec id [''s'', ''j1.yaml''] ''queued'' ''running'' [(''worker_pid'', PInt 7)]
      (demo_store ''queued'' []) = (Inr r', w') \<and> jr_status r' = PStr ''running'' \<and> jr_spec r' = demo_spec"
proof -
  let ?w = "demo_store ''queued'' []" and ?p = "[''s'', ''j1.yaml'']"
  obtain res w' where run: "transition_job json_codec id ?p ''queued'' ''running'' [(''worker_pid'', PInt 7)] ?w = (res, w')"
    by fastforce
  have h: "holds json_codec id ?p (demo_record ''queued'') (node_at (files ?w))"
    by (rule demo_store_holds) (simp add: valid_statuses_def)
  note t = transition_job_outcome [OF codec_ok_json demo_store_place h _ _ run]
  have "sched ?w = []" "node_at (files ?w) (job_lock_path ?p) = None"
    by (simp_all add: demo_store_def job_lock_path_def node_at_def)
  moreover have "jr_status (demo_record ''queued'') = PStr ''queued''" "jr_spec (demo_record ''queued'') = demo_spec"
    by (simp_all add: demo_record_def new_record_def)
  moreover have "''running'' \<in> set (valid_transitions ''queued'')" by (simp add: valid_transitions_def)
  moreover have "fst ` set [(''worker_pid'', PInt 7)] \<subseteq> set record_fields - {''status'', ''authority_digest''}"
    by (simp add: record_fields_def)
  ultimately obtain r' where "res = Inr r'" using t by auto
  with t run \<open>jr_spec (demo_record ''queued'') = demo_spec\<close> show ?thesis by auto
qed

lemma job_lifecycle_witness:
  "\<exists>r'. holds json_codec id [''s'', ''j1.yaml''] r' (node_at (files (fold (run_job_op json_codec id [''s'', ''j1.yaml''])
      [Cancel, Transition ''running'' ''failed'' []] (demo_store ''complete'' [Proceed, Fault])))) \<and>
    r' = demo_record ''complete''"
proof -
  have st: "''complete'' \<in> set valid_statuses" by (simp add: valid_statuses_def)
  have "terminal (demo_record ''complete'')" by (simp add: terminal_def demo_record_def new_record_def)
  with job_lifecycle [OF codec_ok_json demo_store_place demo_store_holds [OF st],
      of "[Cancel, Transition ''running'' ''failed'' []]" "[Proceed, Fault]"]
  show ?thesis by auto
qed

section \<open>Lock order\<close>

lemma canonical_paths_ordered:
  "sorted_wrt (\<lambda>a b. path_str a < path_str b) (canonical_group_operation_lock_paths fs roots)"
  "set (canonical_group_operation_lock_paths fs roots) \<subseteq> (\<lambda>r. resolve fs (group_operation_lock_path r)) ` set roots"
  "r \<in> set roots \<Longrightarrow> \<exists>p \<in> set (canonical_group_operation_lock_paths fs roots).
     path_str p = path_str (resolve fs (group_operation_lock_path r))"
proof -
  let ?f = "\<lambda>r. resolve fs (group_operation_lock_path r)"
  let ?new = "map (\<lambda>r. (path_str (?f r), ?f r)) roots"
  define u where "u = dict_update [] ?new"
  have d: "distinct (map fst u)" unfolding u_def by (rule distinct_keys_dict_update) simp
  have inv: "k = path_str p \<and> p \<in> ?f ` set roots" if "(k, p) \<in> set u" for k p
    using that set_dict_update [of "[]" ?new] by (auto simp: u_def)
  have keys: "fst ` set u = path_str ` ?f ` set roots"
    by (auto simp: u_def set_dict_update_keys image_image)
  have look: "\<exists>p. map_of u k = Some p \<and> path_str p = k \<and> p \<in> ?f ` set roots" if "k \<in> set (map fst u)" for k
    using that inv d by (auto simp: map_of_eq_Some_iff)
  have c: "canonical_group_operation_lock_paths fs roots = map (\<lambda>k. the (map_of u k)) (sort (map fst u))"
    by (simp add: canonical_group_operation_lock_paths_def u_def Let_def)
  have "sorted_wrt (<) (sort (map fst u))" using d by (simp add: strict_sorted_iff)
  then show "sorted_wrt (\<lambda>a b. path_str a < path_str b) (canonical_group_operation_lock_paths fs roots)"
    unfolding c sorted_wrt_map
    by (rule sorted_wrt_mono_rel [rotated]) (metis look option.sel set_sort)
  show "set (canonical_group_operation_lock_paths fs roots) \<subseteq> ?f ` set roots"
    unfolding c using look by fastforce
  assume "r \<in> set roots"
  then have "path_str (?f r) \<in> set (map fst u)" using keys by auto
  with look [OF this] show "\<exists>p \<in> set (canonical_group_operation_lock_paths fs roots). path_str p = path_str (?f r)"
    unfolding c by (intro bexI [of _ "the (map_of u (path_str (?f r)))"]) auto
qed

text \<open>
  C19 - Operations on several groups never deadlock: each takes the operation locks of its
  groups in the order \<open>canonical_group_operation_lock_paths\<close> gives, so in every state of any
  number of such processes no chain of waiting closes, and where one waits another can move:
  it can take its next lock, or it has all its locks and its block runs to the release.
\<close>

theorem group_locks_no_deadlock:
  assumes "\<And>p. p \<in> set ps \<Longrightarrow> \<exists>roots. plan p = canonical_group_operation_lock_paths fs roots"
  shows "(\<forall>i. \<not> (waits_for ps)\<^sup>+\<^sup>+ i i) \<and> (\<forall>i < length ps. wants (ps ! i) \<noteq> None \<longrightarrow>
    (\<exists>k l. k < length ps \<and> wants (ps ! k) = Some l \<and> (\<forall>j < length ps. l \<notin> held (ps ! j))) \<or>
    (\<exists>j < length ps. wants (ps ! j) = None \<and> held (ps ! j) \<noteq> {}))"
proof -
  have ord: "\<forall>p\<in>set ps. sorted_wrt (\<lambda>a b. path_str a < path_str b) (plan p)"
    using assms canonical_paths_ordered(1) by metis
  show ?thesis using no_wait_cycle [OF ord] ordered_progress [OF ord] by blast
qed

lemma group_locks_no_deadlock_witness:
  "let ps = [\<lparr>plan = canonical_group_operation_lock_paths [] [[''b''], [''a'']], got = 1\<rparr>,
             \<lparr>plan = canonical_group_operation_lock_paths [] [[''a''], [''b'']], got = 0\<rparr>] in
   \<not> (waits_for ps)\<^sup>+\<^sup>+ 0 0"
  unfolding Let_def
  by (rule conjunct1 [OF group_locks_no_deadlock [where fs = "[]"], THEN spec]) auto

end
