(* ===== verification/ConfigRaw.thy ===== *)
theory ConfigRaw
  imports PyValue
begin

text \<open>
  The validation of a decoded \<^verbatim>\<open>config.yaml\<close>: the collectors of
  \<^verbatim>\<open>agency/configuration/models.py\<close> that look at the raw document, from
  \<open>_collect_schema_issues\<close> and \<open>_collect_shape_issues\<close> to \<open>_validate_raw_config\<close>. Each
  returns the issues in the order the code appends them; the one expression that can raise
  (looking up an unhashable channel) makes its callers fallible. The facts at the end say
  which documents pass without an issue.
\<close>

section \<open>Building issues\<close>

definition build_issue :: "string \<Rightarrow> string \<Rightarrow> string \<Rightarrow> string \<Rightarrow> string \<Rightarrow> validation_issue" where
  "build_issue code scope field message hint =
     \<lparr>iss_code = code, iss_scope = scope, iss_field = field, iss_message = message, iss_hint = hint\<rparr>"

definition before_last :: "char \<Rightarrow> string \<Rightarrow> string" where
  "before_last c s = rev (tl (dropWhile (\<lambda>d. d \<noteq> c) (rev s)))"

definition shape_scope :: "string \<Rightarrow> string" where
  "shape_scope field =
     (if CHR ''['' \<in> set field \<and> CHR ''.'' \<notin> set field then takeWhile (\<lambda>c. c \<noteq> CHR ''['') field
      else if CHR ''.'' \<in> set field then before_last CHR ''.'' field
      else field)"

definition shape_issue :: "string \<Rightarrow> string \<Rightarrow> validation_issue" where
  "shape_issue field expected =
     build_issue ''invalid-field-shape'' (shape_scope field) field
       (field @ '' must be a '' @ expected @ ''.'') (''Set '' @ field @ '' to a '' @ expected @ '' value.'')"

definition routine_entry_issue :: "string \<Rightarrow> validation_issue" where
  "routine_entry_issue field =
     build_issue ''invalid-routine-entry'' field field ''Routine entry must be a mapping.''
       ''Define each routine as a mapping with id, skill, and schedule.''"

definition indexed :: "string \<Rightarrow> nat \<Rightarrow> string" where
  "indexed field i = field @ ''['' @ show_nat i @ '']''"

definition validate_routine_arguments :: "py \<Rightarrow> string \<Rightarrow> string \<Rightarrow> validation_issue list" where
  "validate_routine_arguments arguments scope field =
     (if \<not> is_list arguments then [shape_issue field ''list'']
      else concat (map (\<lambda>(i, v).
        if \<not> is_str v then [shape_issue (indexed field i) ''string'']
        else if v = PStr [] then
          [build_issue ''invalid-routine-argument'' scope (indexed field i)
             ''Routine arguments must be non-empty strings.''
             ''Remove empty arguments and keep each CLI argument as an explicit string.'']
        else []) (enumerate 0 (items arguments))))"

section \<open>Shapes\<close>

definition mapping_shape :: "py \<Rightarrow> string \<Rightarrow> validation_issue list" where
  "mapping_shape v field = (if v \<noteq> PNone \<and> \<not> is_mapping v then [shape_issue field ''mapping''] else [])"

definition list_shape :: "py \<Rightarrow> string \<Rightarrow> validation_issue list" where
  "list_shape v field = (if v \<noteq> PNone \<and> \<not> is_list v then [shape_issue field ''list''] else [])"

definition runtime_shape :: "string \<Rightarrow> py \<Rightarrow> validation_issue list" where
  "runtime_shape field runtime =
     mapping_shape runtime (field @ ''.runtime'') @
     (if is_mapping runtime then
        (let sandbox = get (entries runtime) ''sandbox''; tools = get (entries runtime) ''tools'' in
         mapping_shape sandbox (field @ ''.runtime.sandbox'') @
         (if is_mapping sandbox then
            list_shape (get (entries sandbox) ''roots'') (field @ ''.runtime.sandbox.roots'') @
            list_shape (get (entries sandbox) ''additional_roots'') (field @ ''.runtime.sandbox.additional_roots'')
          else []) @
         mapping_shape tools (field @ ''.runtime.tools'') @
         (if is_mapping tools then list_shape (get (entries tools) ''names'') (field @ ''.runtime.tools.names'')
          else []))
      else [])"

definition routine_shape :: "string \<Rightarrow> py \<Rightarrow> validation_issue list" where
  "routine_shape field routine =
     (if \<not> is_mapping routine then [routine_entry_issue field]
      else let schedule = get (entries routine) ''schedule'' in
        (if schedule \<noteq> PNone \<and> \<not> is_mapping schedule then
           [build_issue ''invalid-dispatch-rule'' field (field @ ''.schedule'')
              ''Dispatch rule must be a mapping with exactly one of at or every.''
              ''Set schedule to a mapping containing either at or every.'']
         else []) @
        mapping_shape (get (entries routine) ''memory'') (field @ ''.memory'') @
        list_shape (get (entries routine) ''arguments'') (field @ ''.arguments''))"

definition agent_shape :: "string \<Rightarrow> py \<Rightarrow> validation_issue list" where
  "agent_shape field agent =
     (if \<not> is_mapping agent then []
      else let d = entries agent; routines = get d ''routines'' in
        mapping_shape (get d ''identity'') (field @ ''.identity'') @
        mapping_shape (get d ''capabilities'') (field @ ''.capabilities'') @
        runtime_shape field (get d ''runtime'') @
        mapping_shape (get d ''default_memory'') (field @ ''.default_memory'') @
        list_shape routines (field @ ''.routines'') @
        (if is_list routines then
           concat (map (\<lambda>(i, r). routine_shape (indexed (field @ ''.routines'') i) r) (enumerate 0 (items routines)))
         else []))"

definition dispatch_shape :: "string \<Rightarrow> py \<Rightarrow> validation_issue list" where
  "dispatch_shape field dispatch =
     (if dispatch \<noteq> PNone \<and> \<not> is_mapping dispatch then [shape_issue (field @ ''.dispatch'') ''mapping'']
      else if is_mapping dispatch \<and> ''agents'' \<in> fst ` set (entries dispatch) then
        [build_issue ''group-dispatch-agents-not-supported'' (field @ ''.dispatch'') (field @ ''.dispatch.agents'')
           ''Group dispatch schedules belong on agent routines and are not supported in the current config.''
           ''Move schedules into each agent's routines on the configured instances.'']
      else [])"

definition group_shape :: "string \<Rightarrow> py \<Rightarrow> validation_issue list" where
  "group_shape field grp =
     (if \<not> is_mapping grp then [shape_issue field ''mapping'']
      else let d = entries grp; agents = get d ''agents'' in
        runtime_shape field (get d ''runtime'') @
        dispatch_shape field (get d ''dispatch'') @
        list_shape (get d ''workspaces'') (field @ ''.workspaces'') @
        list_shape agents (field @ ''.agents'') @
        (if is_list agents then
           concat (map (\<lambda>(i, a). agent_shape (indexed (field @ ''.agents'') i) a) (enumerate 0 (items agents)))
         else []))"

definition memory_shape :: "py \<Rightarrow> validation_issue list" where
  "memory_shape memory =
     mapping_shape memory ''memory'' @
     (if is_mapping memory then
        (let channels = get (entries memory) ''channels'' in
         mapping_shape channels ''memory.channels'' @
         (if is_mapping channels then
            concat (map (\<lambda>(name, c). if is_mapping c then [] else [shape_issue (''memory.channels.'' @ name) ''mapping''])
              (entries channels))
          else []))
      else [])"

definition collect_shape_issues :: "(string \<times> py) list \<Rightarrow> validation_issue list" where
  "collect_shape_issues raw =
     mapping_shape (get raw ''agency'') ''agency'' @
     memory_shape (get raw ''memory'') @
     (let groups = get raw ''groups'' in
      if \<not> is_mapping groups then [shape_issue ''groups'' ''mapping'']
      else concat (map (\<lambda>(name, g). group_shape (''groups.'' @ name) g) (entries groups)))"

definition root_keys :: "string list" where
  "root_keys = [''schema_version'', ''agency'', ''memory'', ''groups'']"

definition collect_schema_issues :: "(string \<times> py) list \<Rightarrow> validation_issue list" where
  "collect_schema_issues raw =
     concat (map (\<lambda>(key, v). if key \<in> set root_keys then []
       else [build_issue ''invalid-config'' ''config'' key ''Extra inputs are not permitted.''
               ''Remove the unsupported top-level key.'']) raw)"

section \<open>Values\<close>

definition slug_hint :: string where
  "slug_hint = ''Use a lowercase stable slug containing only letters, digits, and single hyphen separators.''"

definition validate_identifier :: "string \<Rightarrow> string \<Rightarrow> string \<Rightarrow> validation_issue list" where
  "validate_identifier kind value scope =
     (if slug_match value then []
      else [build_issue (''invalid-'' @ kind @ ''-name'') scope kind
              (''Invalid '' @ kind @ '' identifier: '' @ value) slug_hint])"

definition validate_rule :: "py \<Rightarrow> string \<Rightarrow> validation_issue list" where
  "validate_rule rule scope =
     (if \<not> is_mapping rule then
        [build_issue ''invalid-dispatch-rule'' scope ''schedule''
           ''Dispatch rule must be a mapping with exactly one of at or every.''
           ''Set schedule to a mapping containing either at or every.'']
      else if truthy (get (entries rule) ''at'') = truthy (get (entries rule) ''every'') then
        [build_issue ''invalid-dispatch-rule'' scope ''schedule''
           ''Dispatch rule must define exactly one of at or every.''
           ''Set either at or every, but not both and not neither.'']
      else [])"

text \<open>The declared channels are the keys of the \<open>memory.channels\<close> mapping.\<close>

definition validate_memory_selector ::
  "py \<Rightarrow> string \<Rightarrow> bool \<Rightarrow> string \<Rightarrow> string list \<Rightarrow> validation_issue list res" where
  "validate_memory_selector selector scope allow_routine field_prefix declared =
     (if \<not> is_mapping selector then Inr [shape_issue field_prefix ''mapping'']
      else let sel = get (entries selector) ''scope''; channel = get (entries selector) ''channel'' in
        if sel = PStr ''routine'' \<and> \<not> allow_routine then
          Inr [build_issue ''invalid-memory-scope'' scope (field_prefix @ ''.scope'')
                 ''Agent default memory cannot use routine scope.''
                 ''Choose run, agent, group, or channel for an agent default memory selector.'']
        else if sel = PStr ''channel'' \<and> \<not> truthy channel then
          Inr [build_issue ''missing-memory-channel'' scope (field_prefix @ ''.channel'')
                 ''Channel memory selectors require a channel.''
                 ''Set channel to a declared memory channel key.'']
        else if sel \<noteq> PStr ''channel'' \<and> channel \<noteq> PNone then
          Inr [build_issue ''invalid-memory-selector-shape'' scope (field_prefix @ ''.channel'')
                 ''Only channel memory selectors may define a channel.''
                 ''Remove channel unless scope is channel.'']
        else if sel = PStr ''channel'' then
          bindR (in_str_set channel declared) (\<lambda>known.
            Inr (if known then [] else
              [build_issue ''missing-memory-channel'' scope (field_prefix @ ''.channel'')
                 (''Unknown memory channel: '' @ str_of channel)
                 ''Declare the channel under memory.channels or point to an existing key.'']))
        else Inr [])"

definition blank_str :: "py \<Rightarrow> bool" where
  "blank_str v \<longleftrightarrow> \<not> is_str v \<or> strip (text_of v) = []"

definition validate_blueprint :: "py \<Rightarrow> string \<Rightarrow> validation_issue list" where
  "validate_blueprint agent scope =
     (if \<not> is_mapping agent then []
      else let b = get (entries agent) ''blueprint'' in
        if blank_str b then
          [build_issue ''missing-blueprint'' scope ''blueprint'' ''Blueprint is required.''
             ''Set blueprint to a non-empty identifier for the agent instance.'']
        else validate_identifier ''blueprint'' (text_of b) scope)"

definition validate_runtime_tools :: "py \<Rightarrow> string \<Rightarrow> validation_issue list" where
  "validate_runtime_tools runtime scope =
     (if \<not> is_mapping runtime then []
      else let tools = por (get (entries runtime) ''tools'') (PDict []) in
        if \<not> is_mapping tools \<or> get (entries tools) ''mode'' \<noteq> PStr ''allowlist'' then []
        else let names = por (get (entries tools) ''names'') (PList []) in
          if \<not> is_list names then []
          else concat (map (\<lambda>(i, n).
                 if blank_str n then
                   [build_issue ''invalid-allowlist-name'' scope (indexed ''runtime.tools.names'' i)
                      ''Allowlist names must be non-empty trimmed strings.''
                      ''Remove blank entries and keep each allowlist name as a trimmed string.'']
                 else []) (enumerate 0 (items names))) @
               (if list_all blank_str (items names) then
                  [build_issue ''empty-allowlist'' scope ''runtime.tools.names''
                     ''Allowlist mode requires at least one tool name.''
                     ''Add one or more tool names to the allowlist.'']
                else []))"

definition validate_group_runtime :: "py \<Rightarrow> string \<Rightarrow> validation_issue list" where
  "validate_group_runtime runtime scope =
     (if \<not> is_mapping runtime then []
      else let sandbox = por (get (entries runtime) ''sandbox'') (PDict []) in
        if \<not> is_mapping sandbox then []
        else
          (if truthy (get (entries sandbox) ''additional_roots'') then
             [build_issue ''invalid-config'' scope (scope @ ''.runtime.sandbox.additional_roots'')
                ''Group runtime sandbox does not support additional_roots.''
                ''Remove runtime.sandbox.additional_roots and use runtime.sandbox.roots for group-owned sandbox roots.'']
           else []) @
          (if get (entries sandbox) ''mode'' = PStr ''unrestricted'' \<and> truthy (get (entries sandbox) ''roots'') then
             [build_issue ''sandbox-contradiction'' scope ''runtime.sandbox.roots''
                ''Unrestricted sandbox cannot add roots.'' ''Remove roots or switch to restricted mode.'']
           else []) @
          validate_runtime_tools runtime scope)"

definition validate_agent_runtime :: "py \<Rightarrow> string \<Rightarrow> validation_issue list" where
  "validate_agent_runtime runtime scope =
     (if \<not> is_mapping runtime then []
      else let sandbox = por (get (entries runtime) ''sandbox'') (PDict []) in
        if \<not> is_mapping sandbox then []
        else
          (if truthy (get (entries sandbox) ''roots'') then
             [build_issue ''invalid-config'' scope (scope @ ''.runtime.sandbox.roots'')
                ''Agent runtime sandbox roots are not supported.''
                ''Remove runtime.sandbox.roots and use runtime.sandbox.additional_roots instead.'']
           else []) @
          (if truthy (get (entries sandbox) ''additional_roots'') \<and>
              get (entries sandbox) ''mode'' = PStr ''unrestricted'' then
             [build_issue ''sandbox-contradiction'' scope ''runtime.sandbox.additional_roots''
                ''Unrestricted sandbox cannot add roots.'' ''Remove additional roots or switch to restricted mode.'']
           else []) @
          validate_runtime_tools runtime scope)"

definition validate_default_group :: "py \<Rightarrow> (string \<times> py) list \<Rightarrow> validation_issue list" where
  "validate_default_group default_group groups =
     (if default_group = PNone \<or> default_group = PStr [] then []
      else if \<not> is_str default_group then
        [build_issue ''invalid-group-name'' ''agency'' ''agency.default_group''
           (''Invalid group identifier: '' @ str_of default_group) slug_hint]
      else if validate_identifier ''group'' (text_of default_group) ''agency'' \<noteq> [] then
        map (\<lambda>i. i\<lparr>iss_field := ''agency.default_group''\<rparr>)
          (validate_identifier ''group'' (text_of default_group) ''agency'')
      else if text_of default_group \<notin> fst ` set groups then
        [build_issue ''missing-default-group'' ''agency'' ''agency.default_group''
           (''Default group is not declared: '' @ text_of default_group)
           ''Set agency.default_group to a declared group key or leave it blank when omission is intended.'']
      else [])"

section \<open>The whole document\<close>

text \<open>\<open>str(d.get(k, "")).strip()\<close> is empty.\<close>

definition missing_text :: "(string \<times> py) list \<Rightarrow> string \<Rightarrow> bool" where
  "missing_text d k \<longleftrightarrow> strip (str_of (get_or d k (PStr []))) = []"

definition mapping_or_empty :: "py \<Rightarrow> (string \<times> py) list" where
  "mapping_or_empty v = (if is_mapping v then entries v else [])"

definition list_or_empty :: "py \<Rightarrow> py list" where
  "list_or_empty v = (if is_list v then items v else [])"

definition append_issues :: "validation_issue list \<Rightarrow> validation_issue list res \<Rightarrow> validation_issue list res" where
  "append_issues is r = bindR r (\<lambda>js. Inr (is @ js))"

definition concat_issues :: "validation_issue list res list \<Rightarrow> validation_issue list res" where
  "concat_issues rs = foldr (\<lambda>r rest. bindR r (\<lambda>is. append_issues is rest)) rs (Inr [])"

text \<open>One routine; \<open>seen\<close> holds the ids before it.\<close>

definition check_routine ::
  "string list \<Rightarrow> string \<Rightarrow> string \<Rightarrow> string list \<Rightarrow> (string \<times> py) list \<Rightarrow> validation_issue list res" where
  "check_routine declared scope field seen d =
     (let rid = get d ''id''; memory = get d ''memory''; arguments = get d ''arguments'' in
      concat_issues
        [Inr (if is_str rid \<and> text_of rid \<in> set seen then
                [build_issue ''duplicate-routine-name'' scope ''routines''
                   (''Duplicate routine id: '' @ text_of rid) ''Give each routine a unique id within the agent.'']
              else []),
         Inr (if is_str rid then validate_identifier ''routine'' (text_of rid) scope else []),
         Inr (validate_rule (por (get d ''schedule'') (PDict [])) scope),
         (if memory \<noteq> PNone then validate_memory_selector memory scope True ''memory'' declared else Inr []),
         Inr (if arguments \<noteq> PNone then validate_routine_arguments arguments scope (field @ ''.arguments'') else [])])"

fun check_routines ::
  "string list \<Rightarrow> string \<Rightarrow> string \<Rightarrow> nat \<Rightarrow> string list \<Rightarrow> py list \<Rightarrow> validation_issue list res" where
  "check_routines declared scope field i seen [] = Inr []"
| "check_routines declared scope field i seen (r # rs) =
     (if \<not> is_mapping r then
        append_issues [routine_entry_issue (indexed field i)] (check_routines declared scope field (Suc i) seen rs)
      else bindR (check_routine declared scope (indexed field i) seen (entries r)) (\<lambda>is.
        append_issues is (check_routines declared scope field (Suc i)
          (if is_str (get (entries r) ''id'') then text_of (get (entries r) ''id'') # seen else seen) rs)))"

text \<open>One agent with a usable name; \<open>seen\<close> holds the names before it.\<close>

definition check_agent ::
  "string list \<Rightarrow> string \<Rightarrow> nat \<Rightarrow> string list \<Rightarrow> string \<Rightarrow> py \<Rightarrow> validation_issue list res" where
  "check_agent declared grp i seen name agent =
     (let d = entries agent; scope = ''groups.'' @ grp @ ''.agents.'' @ name;
          default_memory = por (get d ''default_memory'') (PDict []) in
      concat_issues
        [Inr (validate_identifier ''agent'' name scope),
         Inr (if name \<in> set seen then
                [build_issue ''duplicate-agent-name'' (''groups.'' @ grp) ''agents''
                   (''Duplicate agent name: '' @ name) ''Give each agent a unique name within the group.'']
              else []),
         Inr (validate_blueprint agent scope),
         Inr (if missing_text d ''integration'' then
                [build_issue ''missing-explicit-integration'' scope ''integration''
                   ''Each agent must declare an explicit integration.'' ''Set integration on every agent instance.'']
              else []),
         (if truthy default_memory then
            validate_memory_selector default_memory scope False ''default_memory'' declared
          else Inr []),
         check_routines declared scope (indexed (''groups.'' @ grp @ ''.agents'') i @ ''.routines'') 0 []
           (list_or_empty (get d ''routines'')),
         Inr (validate_agent_runtime (por (get d ''runtime'') (PDict [])) scope)])"

fun check_agents :: "string list \<Rightarrow> string \<Rightarrow> nat \<Rightarrow> string list \<Rightarrow> py list \<Rightarrow> validation_issue list res" where
  "check_agents declared grp i seen [] = Inr []"
| "check_agents declared grp i seen (a # as) =
     (if \<not> is_mapping a then
        append_issues [build_issue ''invalid-agent-entry'' (indexed (''groups.'' @ grp @ ''.agents'') i)
            (indexed ''agents'' i) ''Agent entry must be a mapping.''
            ''Define each agent as a mapping with name, blueprint, and integration.'']
          (check_agents declared grp (Suc i) seen as)
      else if blank_str (get (entries a) ''name'') then
        append_issues [build_issue ''missing-agent-name'' (indexed (''groups.'' @ grp @ ''.agents'') i)
            (indexed ''agents'' i @ ''.name'') ''Agent name is required.''
            ''Set agent.name to a non-empty identifier.'']
          (check_agents declared grp (Suc i) seen as)
      else let name = text_of (get (entries a) ''name'') in
        bindR (check_agent declared grp i seen name a) (\<lambda>is.
          append_issues is (check_agents declared grp (Suc i) (name # seen) as)))"

definition check_dispatch :: "string \<Rightarrow> (string \<times> py) list \<Rightarrow> validation_issue list" where
  "check_dispatch grp dispatch =
     concat (map (\<lambda>(key, v). if key \<in> {''enabled'', ''daily_limit'', ''agents''} then []
       else [build_issue ''invalid-config'' (''groups.'' @ grp @ ''.dispatch'')
               (''groups.'' @ grp @ ''.dispatch.'' @ key) (''Unknown group dispatch field: '' @ key)
               ''Remove the unsupported field or migrate it to a supported location.'']) dispatch)"

definition group_path_issue :: "string \<Rightarrow> (string \<times> py) list \<Rightarrow> string \<Rightarrow> string \<Rightarrow> validation_issue list" where
  "group_path_issue grp d field code =
     (if missing_text d field then
        [build_issue (''missing-group-'' @ code) (''groups.'' @ grp) (''groups.'' @ grp @ ''.'' @ field)
           (''Group '' @ field @ '' is required.'')
           (''Set groups.'' @ grp @ ''.'' @ field @ '' relative to config.yaml.'')]
      else [])"

definition check_group :: "string list \<Rightarrow> string \<times> py \<Rightarrow> validation_issue list res" where
  "check_group declared g =
     (case g of (name, grp) \<Rightarrow>
        append_issues (validate_identifier ''group'' name (''groups.'' @ name))
          (if \<not> is_mapping grp then Inr []
           else let d = entries grp in concat_issues
             [Inr (if missing_text d ''default_integration'' then
                     [build_issue ''missing-default-integration'' (''groups.'' @ name) ''default_integration''
                        ''Group default integration is required.''
                        ''Set group.default_integration to a non-empty integration name.'']
                   else []),
              Inr (group_path_issue name d ''workspace_path'' ''workspace-path''),
              Inr (group_path_issue name d ''path'' ''path''),
              Inr (validate_group_runtime (por (get d ''runtime'') (PDict [])) (''groups.'' @ name)),
              check_agents declared name 0 [] (list_or_empty (get d ''agents'')),
              Inr (check_dispatch name (mapping_or_empty (get d ''dispatch'')))]))"

definition is_schema_3 :: "py \<Rightarrow> bool" where
  "is_schema_3 v \<longleftrightarrow> v = PInt 3 \<or> v = PFloat ''3.0''"

definition required_paths :: "string list" where
  "required_paths = [''agent_library'', ''compilation_cache'', ''memory_store'']"

definition validate_raw_config :: "(string \<times> py) list \<Rightarrow> validation_issue list res" where
  "validate_raw_config raw =
     (let agency = mapping_or_empty (get raw ''agency'');
          memory = mapping_or_empty (get raw ''memory'');
          channels = mapping_or_empty (get memory ''channels'');
          groups = mapping_or_empty (get raw ''groups'') in
      concat_issues
        (Inr (if is_schema_3 (get raw ''schema_version'') then []
               else [build_issue ''unsupported-schema-version'' ''config'' ''schema_version''
                       ''schema_version must be 3.'' ''Create a fresh schema_version: 3 configuration.'']) #
          Inr (concat (map (\<lambda>(c, v). validate_identifier ''channel'' c (''memory.channels.'' @ c)) channels)) #
          Inr (concat (map (\<lambda>f. if missing_text agency f then
                 [build_issue (''missing-'' @ f) ''agency'' f (f @ '' is required.'')
                    (''Set agency.'' @ f @ '' relative to config.yaml.'')] else []) required_paths)) #
          Inr (validate_default_group (get_or agency ''default_group'' (PStr [])) groups) #
         map (check_group (map fst channels)) groups))"

section \<open>Which documents pass\<close>

lemma append_issues_Nil [simp]: "append_issues is r = Inr [] \<longleftrightarrow> is = [] \<and> r = Inr []"
  by (cases r) (auto simp: append_issues_def)

lemma concat_issues_Nil [simp]:
  "concat_issues [] = Inr []" 
  "concat_issues (r # rs) = Inr [] \<longleftrightarrow> r = Inr [] \<and> concat_issues rs = Inr []"
  by (auto simp: concat_issues_def bindR_Inr_iff)

lemma concat_issues_Nil_iff: "concat_issues rs = Inr [] \<longleftrightarrow> (\<forall>r\<in>set rs. r = Inr [])"
  by (induction rs) auto

lemma append_issues_simps [simp]: "append_issues is (Inr js) = Inr (is @ js)"
  by (simp add: append_issues_def)

text \<open>A memory selector names a channel exactly when its scope is \<open>channel\<close>, and a declared one.\<close>

definition selector_ok :: "bool \<Rightarrow> string list \<Rightarrow> py \<Rightarrow> bool" where
  "selector_ok allow_routine declared v \<longleftrightarrow> is_mapping v \<and>
     (let s = get (entries v) ''scope''; c = get (entries v) ''channel'' in
      (s = PStr ''routine'' \<longrightarrow> allow_routine) \<and>
      (if s = PStr ''channel'' then \<exists>n. c = PStr n \<and> n \<noteq> [] \<and> n \<in> set declared else c = PNone))"

lemma validate_memory_selector_ok:
  "validate_memory_selector v scope allow pre declared = Inr [] \<longleftrightarrow> selector_ok allow declared v"
proof (cases "is_mapping v")
  case True
  let ?c = "get (entries v) ''channel''"
  have "in_str_set ?c declared = Inr True \<longleftrightarrow> (\<exists>n. ?c = PStr n \<and> n \<in> set declared)"
    by (rule in_str_set_True)
  with True show ?thesis
    by (auto simp: validate_memory_selector_def selector_ok_def Let_def bindR_Inr_iff split: if_splits)
qed (simp add: validate_memory_selector_def selector_ok_def)

definition rule_ok :: "py \<Rightarrow> bool" where
  "rule_ok v \<longleftrightarrow> is_mapping v \<and> truthy (get (entries v) ''at'') \<noteq> truthy (get (entries v) ''every'')"

lemma validate_rule_ok: "validate_rule v scope = [] \<longleftrightarrow> rule_ok v"
  by (simp add: validate_rule_def rule_ok_def)

definition arguments_ok :: "py \<Rightarrow> bool" where
  "arguments_ok v \<longleftrightarrow> (\<exists>ss. v = PList (map PStr ss) \<and> [] \<notin> set ss)"

lemma enumerate_all: "(\<forall>(i, x)\<in>set (enumerate n xs). P x) \<longleftrightarrow> (\<forall>x\<in>set xs. P x)"
  by (induction xs arbitrary: n) auto

lemma enumerate_issues_Nil:
  "(\<forall>q\<in>set (enumerate n xs). (case q of (i, x) \<Rightarrow> if P x then [f i x] else []) = []) \<longleftrightarrow> list_all (\<lambda>x. \<not> P x) xs"
  by (induction xs arbitrary: n) auto

lemma validate_routine_arguments_ok: "validate_routine_arguments v scope field = [] \<longleftrightarrow> arguments_ok v"
proof -
  have "validate_routine_arguments v scope field = [] \<longleftrightarrow>
      is_list v \<and> (\<forall>(i, x)\<in>set (enumerate 0 (items v)). is_str x \<and> x \<noteq> PStr [])"
    by (auto simp: validate_routine_arguments_def split: if_splits)
  also have "\<dots> \<longleftrightarrow> is_list v \<and> (\<forall>x\<in>set (items v). is_str x \<and> x \<noteq> PStr [])"
    by (simp only: enumerate_all [where P = "\<lambda>x. is_str x \<and> x \<noteq> PStr []"])
  also have "\<dots> \<longleftrightarrow> arguments_ok v"
  proof
    assume l: "is_list v \<and> (\<forall>x\<in>set (items v). is_str x \<and> x \<noteq> PStr [])"
    then have "v = PList (map PStr (map text_of (items v)))"
      by (cases v) (auto simp: is_str_iff intro!: map_idI [symmetric])
    moreover from l have "[] \<notin> set (map text_of (items v))" by (auto simp: is_str_iff)
    ultimately show "arguments_ok v" unfolding arguments_ok_def by blast
  qed (auto simp: arguments_ok_def)
  finally show ?thesis .
qed

lemma validate_identifier_ok: "validate_identifier kind v scope = [] \<longleftrightarrow> slug_match v"
  by (simp add: validate_identifier_def)

definition tools_ok :: "py \<Rightarrow> bool" where
  "tools_ok runtime \<longleftrightarrow>
     (let tools = por (get (entries runtime) ''tools'') (PDict []); names = por (get (entries tools) ''names'') (PList []) in
      is_mapping runtime \<and> is_mapping tools \<and> get (entries tools) ''mode'' = PStr ''allowlist'' \<and> is_list names \<longrightarrow>
      items names \<noteq> [] \<and> list_all (\<lambda>n. \<not> blank_str n) (items names))"

lemma validate_runtime_tools_ok: "validate_runtime_tools runtime scope = [] \<longleftrightarrow> tools_ok runtime"
proof -
  have ne: "list_all (\<lambda>x. \<not> blank_str x) xs \<and> \<not> list_all blank_str xs \<longleftrightarrow> xs \<noteq> [] \<and> list_all (\<lambda>x. \<not> blank_str x) xs" for xs
    by (cases xs) auto
  define tools where "tools = por (get (entries runtime) ''tools'') (PDict [])"
  define names where "names = por (get (entries tools) ''names'') (PList [])"
  show ?thesis
  proof (cases "is_mapping runtime \<and> is_mapping tools \<and> get (entries tools) ''mode'' = PStr ''allowlist'' \<and> is_list names")
    case True
    then show ?thesis using ne [of "items names"]
      by (simp add: validate_runtime_tools_def tools_ok_def tools_def [symmetric] names_def [symmetric]
          enumerate_issues_Nil) blast
  next
    case False
    then show ?thesis
      by (auto simp: validate_runtime_tools_def tools_ok_def tools_def [symmetric] names_def [symmetric])
  qed
qed

definition group_runtime_ok :: "py \<Rightarrow> bool" where
  "group_runtime_ok runtime \<longleftrightarrow>
     (let sandbox = por (get (entries runtime) ''sandbox'') (PDict []) in
      is_mapping runtime \<and> is_mapping sandbox \<longrightarrow>
      \<not> truthy (get (entries sandbox) ''additional_roots'') \<and>
      \<not> (get (entries sandbox) ''mode'' = PStr ''unrestricted'' \<and> truthy (get (entries sandbox) ''roots'')) \<and>
      tools_ok runtime)"

definition agent_runtime_ok :: "py \<Rightarrow> bool" where
  "agent_runtime_ok runtime \<longleftrightarrow>
     (let sandbox = por (get (entries runtime) ''sandbox'') (PDict []) in
      is_mapping runtime \<and> is_mapping sandbox \<longrightarrow>
      \<not> truthy (get (entries sandbox) ''roots'') \<and>
      \<not> (get (entries sandbox) ''mode'' = PStr ''unrestricted'' \<and> truthy (get (entries sandbox) ''additional_roots'')) \<and>
      tools_ok runtime)"

lemma validate_runtimes_ok:
  "validate_group_runtime runtime scope = [] \<longleftrightarrow> group_runtime_ok runtime"
  "validate_agent_runtime runtime scope = [] \<longleftrightarrow> agent_runtime_ok runtime"
  by (auto simp: validate_group_runtime_def group_runtime_ok_def validate_agent_runtime_def agent_runtime_ok_def
      Let_def validate_runtime_tools_ok)

definition routine_ok :: "string list \<Rightarrow> py \<Rightarrow> bool" where
  "routine_ok declared r \<longleftrightarrow> is_mapping r \<and>
     (let d = entries r in
      (is_str (get d ''id'') \<longrightarrow> slug_match (text_of (get d ''id''))) \<and>
      rule_ok (por (get d ''schedule'') (PDict [])) \<and>
      (get d ''memory'' \<noteq> PNone \<longrightarrow> selector_ok True declared (get d ''memory'')) \<and>
      (get d ''arguments'' \<noteq> PNone \<longrightarrow> arguments_ok (get d ''arguments'')))"

text \<open>The string ids of a list of routines, in order.\<close>

definition string_ids :: "string \<Rightarrow> py list \<Rightarrow> string list" where
  "string_ids key rs = map text_of (filter is_str (map (\<lambda>r. get (entries r) key) rs))"

lemma check_routines_ok:
  "check_routines declared scope field i seen rs = Inr [] \<longleftrightarrow>
     list_all (routine_ok declared) rs \<and> distinct (string_ids ''id'' rs) \<and>
     set (string_ids ''id'' rs) \<inter> set seen = {}"
proof (induction rs arbitrary: i seen)
  case Nil
  then show ?case by (simp add: string_ids_def)
next
  case (Cons r rs)
  have r: "check_routine declared scope f seen (entries r) = Inr [] \<longleftrightarrow>
      (is_str (get (entries r) ''id'') \<longrightarrow> text_of (get (entries r) ''id'') \<notin> set seen) \<and> routine_ok declared r"
    if "is_mapping r" for f
    using that
    by (auto simp: check_routine_def routine_ok_def Let_def validate_identifier_ok validate_rule_ok
        validate_memory_selector_ok validate_routine_arguments_ok)
  show ?case
  proof (cases "is_mapping r")
    case False
    then show ?thesis by (simp add: routine_ok_def)
  next
    case True
    then show ?thesis
      using r [OF True] Cons.IH
      by (auto simp: bindR_Inr_iff string_ids_def)
  qed
qed

definition agent_ok :: "string list \<Rightarrow> py \<Rightarrow> bool" where
  "agent_ok declared a \<longleftrightarrow> is_mapping a \<and>
     (let d = entries a; m = por (get d ''default_memory'') (PDict []); rs = list_or_empty (get d ''routines'') in
      \<not> blank_str (get d ''name'') \<and> slug_match (text_of (get d ''name'')) \<and>
      \<not> blank_str (get d ''blueprint'') \<and> slug_match (text_of (get d ''blueprint'')) \<and>
      \<not> missing_text d ''integration'' \<and>
      (truthy m \<longrightarrow> selector_ok False declared m) \<and>
      list_all (routine_ok declared) rs \<and> distinct (string_ids ''id'' rs) \<and>
      agent_runtime_ok (por (get d ''runtime'') (PDict [])))"

lemma check_agents_ok:
  "check_agents declared g i seen as = Inr [] \<longleftrightarrow>
     list_all (agent_ok declared) as \<and> distinct (string_ids ''name'' as) \<and>
     set (string_ids ''name'' as) \<inter> set seen = {}"
proof (induction as arbitrary: i seen)
  case Nil
  then show ?case by (simp add: string_ids_def)
next
  case (Cons a as)
  let ?n = "get (entries a) ''name''"
  have a: "check_agent declared g i seen (text_of ?n) a = Inr [] \<longleftrightarrow>
      text_of ?n \<notin> set seen \<and> agent_ok declared a"
    if "is_mapping a" "\<not> blank_str ?n"
    using that
    by (auto simp: check_agent_def agent_ok_def Let_def validate_identifier_ok check_routines_ok
        validate_memory_selector_ok validate_blueprint_def validate_runtimes_ok)
  show ?case
  proof (cases "is_mapping a \<and> \<not> blank_str ?n")
    case False
    then show ?thesis by (auto simp: agent_ok_def Let_def)
  next
    case True
    then have "is_str ?n" by (simp add: blank_str_def)
    with True show ?thesis
      using a Cons.IH by (auto simp: bindR_Inr_iff string_ids_def Let_def)
  qed
qed

definition group_ok :: "string list \<Rightarrow> string \<times> py \<Rightarrow> bool" where
  "group_ok declared g \<longleftrightarrow> slug_match (fst g) \<and>
     (is_mapping (snd g) \<longrightarrow>
      (let d = entries (snd g); agents = list_or_empty (get d ''agents'') in
       \<not> missing_text d ''default_integration'' \<and> \<not> missing_text d ''workspace_path'' \<and> \<not> missing_text d ''path'' \<and>
       group_runtime_ok (por (get d ''runtime'') (PDict [])) \<and>
       list_all (agent_ok declared) agents \<and> distinct (string_ids ''name'' agents) \<and>
       fst ` set (mapping_or_empty (get d ''dispatch'')) \<subseteq> {''enabled'', ''daily_limit'', ''agents''}))"

lemma check_group_ok: "check_group declared g = Inr [] \<longleftrightarrow> group_ok declared g"
proof -
  have "check_dispatch n d = [] \<longleftrightarrow> fst ` set d \<subseteq> {''enabled'', ''daily_limit'', ''agents''}" for n d
    unfolding check_dispatch_def concat_eq_Nil_conv set_map ball_simps by (auto simp: image_subset_iff split: if_splits)
  then show ?thesis
    by (cases g) (simp add: check_group_def group_ok_def Let_def validate_identifier_ok group_path_issue_def
        validate_runtimes_ok check_agents_ok)
qed

definition default_group_ok :: "py \<Rightarrow> (string \<times> py) list \<Rightarrow> bool" where
  "default_group_ok v groups \<longleftrightarrow> v = PNone \<or> v = PStr [] \<or>
     (is_str v \<and> slug_match (text_of v) \<and> text_of v \<in> fst ` set groups)"

lemma validate_default_group_ok: "validate_default_group v groups = [] \<longleftrightarrow> default_group_ok v groups"
  by (simp add: validate_default_group_def default_group_ok_def validate_identifier_def)

definition raw_ok :: "(string \<times> py) list \<Rightarrow> bool" where
  "raw_ok raw \<longleftrightarrow>
     (let agency = mapping_or_empty (get raw ''agency'');
          channels = mapping_or_empty (get (mapping_or_empty (get raw ''memory'')) ''channels'');
          groups = mapping_or_empty (get raw ''groups'') in
      is_schema_3 (get raw ''schema_version'') \<and>
      (\<forall>c\<in>fst ` set channels. slug_match c) \<and>
      (\<forall>f\<in>set required_paths. \<not> missing_text agency f) \<and>
      default_group_ok (get_or agency ''default_group'' (PStr [])) groups \<and>
      (\<forall>g\<in>set groups. group_ok (map fst channels) g))"

lemma validate_raw_config_ok:
  "validate_raw_config raw = Inr [] \<longleftrightarrow> raw_ok raw"
proof -
  have ch: "concat (map (\<lambda>(c, v). validate_identifier ''channel'' c (''memory.channels.'' @ c)) cs) = [] \<longleftrightarrow>
      (\<forall>c\<in>fst ` set cs. slug_match c)" for cs :: "(string \<times> py) list"
    by (auto simp: validate_identifier_ok)
  have paths: "concat (map (\<lambda>f. if missing_text d f then
         [build_issue (''missing-'' @ f) ''agency'' f (f @ '' is required.'')
            (''Set agency.'' @ f @ '' relative to config.yaml.'')] else []) fs) = [] \<longleftrightarrow>
      (\<forall>f\<in>set fs. \<not> missing_text d f)" for d fs
    by auto
  have groups: "concat_issues (map (check_group declared) gs) = Inr [] \<longleftrightarrow> (\<forall>g\<in>set gs. group_ok declared g)"
    for declared gs by (simp add: concat_issues_Nil_iff check_group_ok)
  show ?thesis
    unfolding validate_raw_config_def raw_ok_def Let_def concat_issues_Nil
      sum.inject ch paths groups validate_default_group_ok
    by (cases "is_schema_3 (get raw ''schema_version'')") simp_all
qed

text \<open>
  C17 - The raw validator is silent exactly on well-formed configurations: schema version 3,
  slugs for channels, groups, agents, blueprints and routines, agent names distinct in their group and
  routine ids in their agent, the required paths and integrations set, every schedule exactly one
  of \<open>at\<close> and \<open>every\<close>, every memory selector naming a declared channel exactly when its scope
  is \<open>channel\<close>, no contradictory sandbox, no empty allow-list, no unknown dispatch key.
\<close>

theorem validate_raw_config_accepts_iff:
  "validate_raw_config raw = Inr [] \<longleftrightarrow> raw_ok raw"
  by (rule validate_raw_config_ok)

text \<open>
  The identifier pattern is applied with \<open>re.match\<close>, whose \<open>$\<close> also matches before a final
  line feed: a name with a trailing line feed passes, and the job store, which uses
  \<open>fullmatch\<close> on the same pattern, refuses it.
\<close>

lemma identifier_trailing_newline:
  "validate_identifier ''group'' (''ops'' @ [CHR 0x0A]) scope = [] \<and> \<not> slug_fullmatch (''ops'' @ [CHR 0x0A])"
proof -
  have "slug_match (''ops'' @ [CHR 0x0A])" "\<not> slug_fullmatch (''ops'' @ [CHR 0x0A])" by code_simp+
  then show ?thesis by (simp add: validate_identifier_ok del: append.simps)
qed

end
