(* ===== verification/ConfigModel.thy ===== *)
theory ConfigModel
  imports ConfigRaw FileSystem
begin

text \<open>
  The typed configuration and the pipeline that leads to it: the data models of
  \<^verbatim>\<open>agency/configuration/models.py\<close>, \<open>_prepare_for_model\<close>, the checks after parsing,
  \<open>parse_config\<close> and \<open>validate_config\<close>.

  pydantic's \<open>AgencyConfig.model_validate\<close> is a parameter \<open>V\<close>: from the prepared mapping to a
  typed configuration or a list of located messages. A \<open>Path\<close> is its text; the fields the
  models allow beyond those named are dropped.
\<close>

section \<open>The models\<close>

record memory_selector =
  ms_scope :: string
  ms_channel :: "string option"

record runtime_sandbox =
  sb_mode :: string
  sb_roots :: "string list"
  sb_additional_roots :: "string list"

record runtime_tools =
  tl_mode :: string
  tl_names :: "string list"

record runtime_config =
  rt_timeout :: int
  rt_sandbox :: runtime_sandbox
  rt_tools :: runtime_tools

record schedule_rule =
  sr_at :: "string option"
  sr_every :: "string option"

record routine =
  ro_id :: string
  ro_skill :: string
  ro_arguments :: "string list"
  ro_schedule :: schedule_rule
  ro_memory :: "memory_selector option"
  ro_enabled :: bool

record agent_instance =
  ai_name :: string
  ai_blueprint :: string
  ai_integration :: string
  ai_integration_config :: "(string \<times> py) list"
  ai_write :: bool
  ai_runtime :: runtime_config
  ai_runtime_set :: "string list"
  ai_default_memory :: "memory_selector option"
  ai_routines :: "routine list"

record group_config =
  gc_name :: string
  gc_workspace_path :: string
  gc_path :: string
  gc_default_integration :: string
  gc_runtime :: runtime_config
  gc_dispatch_enabled :: bool
  gc_daily_limit :: int
  gc_agents :: "(string \<times> agent_instance) list"

record agency_config =
  ac_default_group :: string
  ac_dispatch_interval :: int
  ac_agent_library :: "string option"
  ac_compilation_cache :: "string option"
  ac_memory_store :: "string option"
  ac_channels :: "(string \<times> string) list"
  ac_groups :: "(string \<times> group_config) list"

record parsed_config =
  pc_raw :: "(string \<times> py) list"
  pc_resolved :: agency_config

type_synonym validator = "(string \<times> py) list \<Rightarrow> (string list \<times> string) list + agency_config"

section \<open>Paths in a configuration\<close>

definition is_absolute :: "string \<Rightarrow> bool" where
  "is_absolute s \<longleftrightarrow> startswith s ''/''"

text \<open>The components of a path text, without empty ones and \<open>.\<close>.\<close>

definition to_path :: "string \<Rightarrow> path" where
  "to_path s = filter (\<lambda>c. c \<noteq> [] \<and> c \<noteq> ''.'') (split_on CHR ''/'' s)"

definition path_from_config :: "fs \<Rightarrow> py \<Rightarrow> path \<Rightarrow> string" where
  "path_from_config fs v config_dir =
     (let s = str_of v in
      path_str (resolve fs (if is_absolute s then to_path s else config_dir @ to_path s)))"

definition set_path :: "fs \<Rightarrow> path \<Rightarrow> string \<Rightarrow> (string \<times> py) list \<Rightarrow> (string \<times> py) list" where
  "set_path fs base k d =
     (if get d k = PNone then d else AList.update k (PStr (path_from_config fs (get d k) base)) d)"

section \<open>Preparing the document\<close>

text \<open>\<open>if k in d: d[k] = tuple(f(x) for x in d.get(k) or [])\<close>\<close>

definition map_key :: "(py \<Rightarrow> py) \<Rightarrow> string \<Rightarrow> (string \<times> py) list \<Rightarrow> (string \<times> py) list res" where
  "map_key f k d =
     (if k \<in> fst ` set d then
        bindR (if truthy (get d k) then iter_py (get d k) else Inr []) (\<lambda>xs.
          Inr (AList.update k (PList (map f xs)) d))
      else Inr d)"

definition dict_or_empty :: "py \<Rightarrow> (string \<times> py) list res" where
  "dict_or_empty v = (if truthy v then dict_of v else Inr [])"

definition prepare_runtime :: "fs \<Rightarrow> py \<Rightarrow> path option \<Rightarrow> (string \<times> py) list res" where
  "prepare_runtime fs runtime base =
     (let entry = mapping_or_empty runtime in
      bindR (if ''sandbox'' \<in> fst ` set entry then
               bindR (dict_or_empty (get entry ''sandbox'')) (\<lambda>sb.
               bindR (case base of
                        None \<Rightarrow> Inr sb
                      | Some b \<Rightarrow> bindR (map_key (\<lambda>r. PStr (path_from_config fs r b)) ''roots'' sb)
                          (map_key (\<lambda>r. PStr (path_from_config fs r b)) ''additional_roots'')) (\<lambda>sb'.
                 Inr (AList.update ''sandbox'' (PDict sb') entry)))
             else Inr entry) (\<lambda>entry'.
      if ''tools'' \<in> fst ` set entry' then
        bindR (dict_or_empty (get entry' ''tools'')) (\<lambda>tools.
        bindR (if get tools ''names'' \<noteq> PNone then map_key (\<lambda>n. PStr (str_of n)) ''names'' tools else Inr tools)
          (\<lambda>tools'. Inr (AList.update ''tools'' (PDict tools') entry')))
      else Inr entry'))"

definition prepare_routine :: "py \<Rightarrow> py res" where
  "prepare_routine r =
     (let d = entries r in
      bindR (if get d ''arguments'' \<noteq> PNone then map_key id ''arguments'' d else Inr d) (\<lambda>d'. Inr (PDict d')))"

definition prepare_agent :: "fs \<Rightarrow> path option \<Rightarrow> py \<Rightarrow> py res" where
  "prepare_agent fs base agent =
     (let d = entries agent in
      bindR (prepare_runtime fs (por (get d ''runtime'') (PDict [])) base) (\<lambda>runtime.
      let d1 = AList.update ''runtime'' (PDict runtime) d in
      if get d1 ''routines'' = PNone then Inr (PDict d1)
      else bindR (if truthy (get d1 ''routines'') then iter_py (get d1 ''routines'') else Inr []) (\<lambda>rs.
           bindR (mapR prepare_routine (filter is_mapping rs)) (\<lambda>rs'.
             Inr (PDict (AList.update ''routines'' (PList rs') d1))))))"

text \<open>The agents become a mapping by name; a later agent of the same name replaces an earlier one.\<close>

definition prepare_group :: "fs \<Rightarrow> path \<Rightarrow> py \<Rightarrow> py res" where
  "prepare_group fs config_dir g =
     (let d1 = set_path fs config_dir ''path'' (set_path fs config_dir ''workspace_path'' (entries g));
          base = (if get d1 ''workspace_path'' = PNone then None else Some (to_path (str_of (get d1 ''workspace_path'')))) in
      bindR (prepare_runtime fs (por (get d1 ''runtime'') (PDict [])) base) (\<lambda>runtime.
      let d2 = AList.update ''runtime'' (PDict runtime) d1 in
      bindR (if truthy (get d2 ''agents'') then iter_py (get d2 ''agents'') else Inr []) (\<lambda>agents.
      let named = filter (\<lambda>a. is_mapping a \<and> \<not> blank_str (get (entries a) ''name'')) agents in
      bindR (mapR (\<lambda>a. bindR (prepare_agent fs base a) (\<lambda>v. Inr (text_of (get (entries a) ''name''), v))) named) (\<lambda>as.
      let d3 = AList.update ''agents'' (PDict (dict_update [] as)) d2 in
      if get d3 ''workspaces'' = PNone then Inr (PDict d3)
      else bindR (map_key id ''workspaces'' d3) (\<lambda>d4. Inr (PDict d4))))))"

definition prepare_for_model :: "fs \<Rightarrow> path \<Rightarrow> (string \<times> py) list \<Rightarrow> (string \<times> py) list res" where
  "prepare_for_model fs config_path raw =
     (let config_dir = resolve fs (butlast config_path) in
      bindR (dict_or_empty (get raw ''agency'')) (\<lambda>agency.
      let agency' = set_path fs config_dir ''memory_store'' (set_path fs config_dir ''compilation_cache''
                      (set_path fs config_dir ''agent_library'' agency)) in
      bindR (dict_or_empty (get raw ''groups'')) (\<lambda>groups.
      bindR (mapR (\<lambda>(name, g). bindR (prepare_group fs config_dir g) (\<lambda>v. Inr (name, v)))
               (filter (\<lambda>(name, g). is_mapping g) groups)) (\<lambda>groups'.
        Inr (AList.update ''groups'' (PDict groups') (AList.update ''agency'' (PDict agency') raw))))))"

section \<open>The pipeline\<close>

definition sorted_issues :: "validation_issue list \<Rightarrow> validation_issue list" where
  "sorted_issues = sort_key issue_key"

text \<open>\<open>".".join(str(part) for part in loc) or "config"\<close>\<close>

definition pydantic_issue :: "string list \<times> string \<Rightarrow> validation_issue" where
  "pydantic_issue e =
     (let loc = (if join ''.'' (fst e) = [] then ''config'' else join ''.'' (fst e)) in
      build_issue ''invalid-config'' loc loc (snd e) ''Fix the reported field shape or value.'')"

definition path_field_issue :: "string \<Rightarrow> string option \<Rightarrow> validation_issue list" where
  "path_field_issue f v =
     (case v of
        None \<Rightarrow> [build_issue (''missing-'' @ f) ''agency'' f (f @ '' is required.'')
                  (''Set agency.'' @ f @ '' relative to config.yaml.'')]
      | Some p \<Rightarrow> if is_absolute p then []
                 else [build_issue (''invalid-'' @ f) ''agency'' f (f @ '' must resolve to an absolute path.'')
                         ''Use a path relative to the config directory or an absolute path.''])"

definition group_field_issue :: "string \<Rightarrow> string \<Rightarrow> string \<Rightarrow> string \<Rightarrow> validation_issue list" where
  "group_field_issue name field code v =
     (if is_absolute v then []
      else [build_issue (''missing-group-'' @ code) (''groups.'' @ name) (''groups.'' @ name @ ''.'' @ field)
              (''Group '' @ field @ '' is required.'')
              (''Set groups.'' @ name @ ''.'' @ field @ '' relative to config.yaml.'')])"

definition collect_post_parse_issues :: "agency_config \<Rightarrow> validation_issue list" where
  "collect_post_parse_issues c =
     path_field_issue ''agent_library'' (ac_agent_library c) @
     path_field_issue ''compilation_cache'' (ac_compilation_cache c) @
     path_field_issue ''memory_store'' (ac_memory_store c) @
     concat (map (\<lambda>(name, g). group_field_issue name ''workspace_path'' ''workspace-path'' (gc_workspace_path g) @
                              group_field_issue name ''path'' ''path'' (gc_path g)) (ac_groups c))"

definition build_pipeline_result ::
  "validator \<Rightarrow> fs \<Rightarrow> path \<Rightarrow> (string \<times> py) list \<Rightarrow> (parsed_config option \<times> validation_issue list) res" where
  "build_pipeline_result V fs config_path raw =
     bindR (validate_raw_config raw) (\<lambda>raw_issues.
     let issues = collect_schema_issues raw @ collect_shape_issues raw @ raw_issues in
     if issues \<noteq> [] then Inr (None, sorted_issues issues)
     else bindR (prepare_for_model fs config_path raw) (\<lambda>prepared.
       case V prepared of
         Inl errors \<Rightarrow> Inr (None, sorted_issues (map pydantic_issue errors))
       | Inr resolved \<Rightarrow>
           let post = sorted_issues (collect_post_parse_issues resolved) in
           Inr (if post = [] then Some \<lparr>pc_raw = raw, pc_resolved = resolved\<rparr> else None, post)))"

definition parse_config :: "validator \<Rightarrow> fs \<Rightarrow> path \<Rightarrow> (string \<times> py) list \<Rightarrow> parsed_config res" where
  "parse_config V fs config_path raw =
     bindR (build_pipeline_result V fs config_path raw) (\<lambda>(parsed, issues).
       if issues \<noteq> [] then Inl (Invalid CValidationFailed issues)
       else case parsed of Some p \<Rightarrow> Inr p | None \<Rightarrow> Inl (Exn CAssertionError []))"

definition validate_config :: "validator \<Rightarrow> fs \<Rightarrow> path \<Rightarrow> (string \<times> py) list \<Rightarrow> validation_issue list res" where
  "validate_config V fs config_path raw =
     bindR (build_pipeline_result V fs config_path raw) (\<lambda>(parsed, issues). Inr issues)"

section \<open>Facts\<close>

lemma sorted_issues_Nil [simp]: "sorted_issues is = [] \<longleftrightarrow> is = []"
  unfolding sorted_issues_def by (metis length_0_conv length_sort)

lemma sorted_issues_sorted: "sorted (map issue_key (sorted_issues is))"
  by (simp add: sorted_issues_def)

lemma set_sorted_issues [simp]: "set (sorted_issues is) = set is"
  by (simp add: sorted_issues_def)

lemma collect_schema_issues_Nil: "collect_schema_issues raw = [] \<longleftrightarrow> fst ` set raw \<subseteq> set root_keys"
  by (induction raw) (auto simp: collect_schema_issues_def split: if_splits)

lemma pipeline_cases:
  assumes "build_pipeline_result V fs cp raw = Inr (parsed, issues)" and "\<And>d. V d \<noteq> Inl []"
  obtains "issues \<noteq> []" "parsed = None" "sorted (map issue_key issues)"
  | p where "issues = []" "parsed = Some p" "pc_raw p = raw" "raw_ok raw" "collect_shape_issues raw = []"
      "fst ` set raw \<subseteq> set root_keys" "collect_post_parse_issues (pc_resolved p) = []"
      "\<exists>prepared. prepare_for_model fs cp raw = Inr prepared \<and> V prepared = Inr (pc_resolved p)"
proof -
  from assms(1) obtain ri where ri: "validate_raw_config raw = Inr ri"
    by (auto simp: build_pipeline_result_def bindR_Inr_iff)
  let ?is = "collect_schema_issues raw @ collect_shape_issues raw @ ri"
  show thesis
  proof (cases "?is = []")
    case False
    with assms(1) ri have "parsed = None" "issues = sorted_issues ?is"
      by (auto simp: build_pipeline_result_def Let_def)
    with False that(1) show thesis by (metis sorted_issues_Nil sorted_issues_sorted)
  next
    case True
    with ri have ok: "raw_ok raw" by (simp add: validate_raw_config_ok)
    from True have sh: "collect_shape_issues raw = []" "fst ` set raw \<subseteq> set root_keys"
      by (auto simp: collect_schema_issues_Nil)
    from True assms(1) ri obtain prepared where pr: "prepare_for_model fs cp raw = Inr prepared"
      "(case V prepared of
         Inl errors \<Rightarrow> Inr (None, sorted_issues (map pydantic_issue errors))
       | Inr resolved \<Rightarrow>
           let post = sorted_issues (collect_post_parse_issues resolved) in
           Inr (if post = [] then Some \<lparr>pc_raw = raw, pc_resolved = resolved\<rparr> else None, post)) = (Inr (parsed, issues) :: _ res)"
      by (auto simp: build_pipeline_result_def Let_def bindR_Inr_iff)
    show thesis
    proof (cases "V prepared")
      case (Inl errors)
      with assms(2) have "errors \<noteq> []" by blast
      then have "map pydantic_issue errors \<noteq> []" by simp
      with pr(2) Inl that(1) [OF _ _ ] show thesis
        using sorted_issues_sorted [of "map pydantic_issue errors"] sorted_issues_Nil [of "map pydantic_issue errors"]
        by auto
    next
      case (Inr resolved)
      show thesis
      proof (cases "collect_post_parse_issues resolved = []")
        case True
        with pr Inr have "issues = []" "parsed = Some \<lparr>pc_raw = raw, pc_resolved = resolved\<rparr>" by (auto simp: Let_def)
        with that(2) [of "\<lparr>pc_raw = raw, pc_resolved = resolved\<rparr>"] ok sh True pr(1) Inr show thesis by simp
      next
        case False
        with pr Inr have "issues = sorted_issues (collect_post_parse_issues resolved)" "parsed = None"
          by (auto simp: Let_def)
        with False that(1) sorted_issues_sorted show thesis by simp
      qed
    qed
  qed
qed

text \<open>
  C24 - \<open>parse_config\<close> and \<open>validate_config\<close> agree: if the pipeline runs, the configuration is
  returned exactly when no issue is reported, otherwise the sorted issues are raised; and a
  configuration that is returned keeps the document, has passed every collector, is what the
  model library made of the prepared document, and has absolute store and group paths.
\<close>

theorem parse_config_iff_no_issues:
  assumes "\<And>d. V d \<noteq> Inl []"
    and "validate_config V fs cp raw = Inr issues"
  shows "(case parse_config V fs cp raw of
      Inr p \<Rightarrow> issues = [] \<and> pc_raw p = raw \<and> raw_ok raw \<and> collect_shape_issues raw = [] \<and>
        fst ` set raw \<subseteq> set root_keys \<and>
        (\<exists>d. prepare_for_model fs cp raw = Inr d \<and> V d = Inr (pc_resolved p)) \<and>
        (\<forall>(n, g) \<in> set (ac_groups (pc_resolved p)). is_absolute (gc_path g) \<and> is_absolute (gc_workspace_path g)) \<and>
        (\<exists>m. ac_memory_store (pc_resolved p) = Some m \<and> is_absolute m)
    | Inl e \<Rightarrow> issues \<noteq> [] \<and> e = Invalid CValidationFailed issues \<and> sorted (map issue_key issues))"
proof -
  from assms(2) obtain parsed where b: "build_pipeline_result V fs cp raw = Inr (parsed, issues)"
    by (auto simp: validate_config_def bindR_Inr_iff)
  from b assms(1) show ?thesis
  proof (cases rule: pipeline_cases)
    case 1
    with b show ?thesis by (simp add: parse_config_def)
  next
    case (2 p)
    have "path_field_issue f (Some v) = [] \<longleftrightarrow> is_absolute v" "path_field_issue f None \<noteq> []" for f v
      by (simp_all add: path_field_issue_def)
    with 2(7) have "\<exists>m. ac_memory_store (pc_resolved p) = Some m \<and> is_absolute m"
      by (cases "ac_memory_store (pc_resolved p)") (auto simp: collect_post_parse_issues_def)
    moreover from 2(7) have "\<forall>(n, g) \<in> set (ac_groups (pc_resolved p)). is_absolute (gc_path g) \<and> is_absolute (gc_workspace_path g)"
      by (auto simp: collect_post_parse_issues_def group_field_issue_def split: if_splits)
    ultimately show ?thesis using b 2 by (simp add: parse_config_def)
  qed
qed

definition sample_raw :: "(string \<times> py) list" where
  "sample_raw =
     [(''schema_version'', PInt 3),
      (''agency'', PDict [(''agent_library'', PStr ''lib''), (''compilation_cache'', PStr ''cache''),
                         (''memory_store'', PStr ''mem'')]),
      (''groups'', PDict [])]"

text \<open>A validator for documents without groups: it reads the three store paths.\<close>

definition sample_validator :: validator where
  "sample_validator d =
     (let a = entries (get d ''agency''); path = (\<lambda>k. Some (text_of (get a k))) in
      Inr \<lparr>ac_default_group = [], ac_dispatch_interval = 15, ac_agent_library = path ''agent_library'',
           ac_compilation_cache = path ''compilation_cache'', ac_memory_store = path ''memory_store'',
           ac_channels = [], ac_groups = []\<rparr>)"

lemma parse_config_iff_no_issues_witness:
  "(case parse_config sample_validator [] [''etc'', ''config.yaml''] sample_raw of
      Inr p \<Rightarrow> pc_raw p = sample_raw \<and> raw_ok sample_raw | Inl e \<Rightarrow> False)"
proof -
  have "validate_config sample_validator [] [''etc'', ''config.yaml''] sample_raw = Inr []" by code_simp
  from parse_config_iff_no_issues [OF _ this] show ?thesis
    by (auto simp: sample_validator_def Let_def split: sum.splits)
qed

end
