(* ===== verification/Policy.thy ===== *)
theory Policy
  imports ConfigModel
begin

text \<open>
  The runtime policy of an agent: \<^verbatim>\<open>agency/configuration/effective.py\<close> and
  \<^verbatim>\<open>agency/configuration/group_paths.py\<close>, with the policy checks of
  \<^verbatim>\<open>agency/integrations/__init__.py\<close>. An integration is what these checks read of it; the
  registry is a dictionary of integrations.

  Configured paths are absolute texts (\<open>_path_from_config\<close> has resolved them), so resolving one
  does not depend on the working directory. Which runtime fields an agent sets itself is
  \<^const>\<open>ai_runtime_set\<close>, with \<open>sandbox.mode\<close> for the mode of its sandbox.
\<close>

section \<open>Group paths\<close>

record group_paths =
  gp_workspace_root :: path
  gp_group_root :: path
  gp_observations :: path
  gp_proposals :: path
  gp_decisions :: path
  gp_locks :: path
  gp_logs :: path

definition resolve_text :: "fs \<Rightarrow> string \<Rightarrow> path" where
  "resolve_text fs s = resolve fs (to_path s)"

definition resolve_group_paths :: "fs \<Rightarrow> group_config \<Rightarrow> group_paths" where
  "resolve_group_paths fs g =
     (let workspace_root = resolve_text fs (gc_workspace_path g); group_root = resolve_text fs (gc_path g) in
      \<lparr>gp_workspace_root = workspace_root, gp_group_root = group_root,
       gp_observations = group_root @ [''observations''], gp_proposals = group_root @ [''proposals''],
       gp_decisions = group_root @ [''decisions''], gp_locks = group_root @ [''locks''],
       gp_logs = group_root @ [''logs'']\<rparr>)"

definition record_directories :: "group_paths \<Rightarrow> path list" where
  "record_directories p = [gp_observations p, gp_proposals p, gp_decisions p, gp_locks p, gp_logs p]"

section \<open>Integrations\<close>

record effective_policy =
  ep_timeout :: int
  ep_sandbox_mode :: string
  ep_sandbox_roots :: "path list"
  ep_tool_mode :: string
  ep_tool_names :: "string list"

text \<open>The projector is \<^const>\<open>None\<close> or its two skill capabilities.\<close>

record integration =
  in_name :: string
  in_supports_execution :: bool
  in_path_modes :: "string list"
  in_tool_modes :: "string list"
  in_projector :: "(bool \<times> bool) option"

definition integration_scope :: "integration \<Rightarrow> string" where
  "integration_scope i = ''integrations.'' @ in_name i"

definition validate_runtime_policy :: "integration \<Rightarrow> effective_policy \<Rightarrow> validation_issue list" where
  "validate_runtime_policy i p =
     (if ep_sandbox_mode p \<notin> set (in_path_modes i) then
        [build_issue ''unsupported-path-policy'' (integration_scope i) ''runtime.sandbox.mode''
           (''Integration '' @ [CHR 0x27] @ in_name i @ [CHR 0x27] @ '' cannot enforce sandbox mode '' @
            [CHR 0x27] @ ep_sandbox_mode p @ [CHR 0x27] @ ''.'')
           ''Use a supported sandbox mode for this integration.'']
      else []) @
     (if ep_tool_mode p \<notin> set (in_tool_modes i) then
        [build_issue ''unsupported-tool-policy'' (integration_scope i) ''runtime.tools.mode''
           (''Integration '' @ [CHR 0x27] @ in_name i @ [CHR 0x27] @ '' cannot enforce tool mode '' @
            [CHR 0x27] @ ep_tool_mode p @ [CHR 0x27] @ ''.'')
           ''Use a supported tool mode for this integration.'']
      else [])"

text \<open>\<open>validate_run\<close> for a request with a policy and maybe a skill.\<close>

definition validate_run :: "integration \<Rightarrow> effective_policy \<Rightarrow> string option \<Rightarrow> validation_issue list" where
  "validate_run i p skill =
     validate_runtime_policy i p @
     (if \<not> in_supports_execution i then
        [build_issue ''integration-not-executable'' (integration_scope i) ''runtime.execution''
           (''Integration '' @ [CHR 0x27] @ in_name i @ [CHR 0x27] @ '' does not support runtime execution.'')
           ''Choose an executable integration before scheduling or launching a run.'']
      else case in_projector i of
        None \<Rightarrow>
          [build_issue ''missing-runtime-projector'' (integration_scope i) ''runtime.projector''
             (''Integration '' @ [CHR 0x27] @ in_name i @ [CHR 0x27] @ '' has no runtime projector.'')
             ''Attach a runtime projector before executing this integration.'']
      | Some (discovers, activates) \<Rightarrow>
          if skill \<noteq> None \<and> \<not> (discovers \<and> activates) then
            [build_issue ''unsupported-skill-activation'' (integration_scope i) ''runtime.skill''
               (''Integration '' @ [CHR 0x27] @ in_name i @ [CHR 0x27] @
                '' cannot reliably discover and activate routine skills with the current CLI contract.'')
               ''Use a verified skill-compatible integration or run without a routine skill.'']
          else [])"

definition require_valid_run :: "integration \<Rightarrow> bool \<Rightarrow> effective_policy \<Rightarrow> string option \<Rightarrow> unit res" where
  "require_valid_run i enforce p skill =
     (if \<not> enforce then Inr ()
      else if validate_run i p skill \<noteq> [] then Inl (Invalid CValidationFailed (validate_run i p skill))
      else Inr ())"

definition get_integration :: "(string \<times> integration) list \<Rightarrow> string \<Rightarrow> integration res" where
  "get_integration registry name =
     (case map_of registry name of Some i \<Rightarrow> Inr i | None \<Rightarrow> Inl (Exn CKeyError name))"

section \<open>The effective policy\<close>

fun merge_roots_from :: "fs \<Rightarrow> string list \<Rightarrow> path list \<Rightarrow> path list" where
  "merge_roots_from fs seen [] = []"
| "merge_roots_from fs seen (r # rs) =
     (let canonical = resolve fs r; key = path_str canonical in
      if key \<in> set seen then merge_roots_from fs seen rs
      else canonical # merge_roots_from fs (key # seen) rs)"

definition merge_roots :: "fs \<Rightarrow> path list list \<Rightarrow> path list" where
  "merge_roots fs root_sets = merge_roots_from fs [] (concat root_sets)"

definition get_group :: "agency_config \<Rightarrow> string \<Rightarrow> group_config res" where
  "get_group c group_id =
     (case map_of (ac_groups c) group_id of Some g \<Rightarrow> Inr g
      | None \<Rightarrow> Inl (Exn CKeyError (''Unknown group: '' @ group_id)))"

definition get_agent :: "group_config \<Rightarrow> string \<Rightarrow> agent_instance res" where
  "get_agent g agent_id =
     (case map_of (gc_agents g) agent_id of Some a \<Rightarrow> Inr a
      | None \<Rightarrow> Inl (Exn CKeyError (''Unknown agent: '' @ agent_id)))"

definition resolve_timeout :: "group_config \<Rightarrow> agent_instance \<Rightarrow> int option \<Rightarrow> int" where
  "resolve_timeout g a override =
     (case override of
        Some t \<Rightarrow> t
      | None \<Rightarrow> if ''timeout'' \<in> set (ai_runtime_set a) then rt_timeout (ai_runtime a) else rt_timeout (gc_runtime g))"

definition resolve_tools :: "group_config \<Rightarrow> agent_instance \<Rightarrow> runtime_tools" where
  "resolve_tools g a = (if ''tools'' \<in> set (ai_runtime_set a) then rt_tools (ai_runtime a) else rt_tools (gc_runtime g))"

definition sandbox_mode :: "group_config \<Rightarrow> agent_instance \<Rightarrow> string" where
  "sandbox_mode g a =
     (if ''sandbox.mode'' \<in> set (ai_runtime_set a) then sb_mode (rt_sandbox (ai_runtime a))
      else sb_mode (rt_sandbox (gc_runtime g)))"

definition resolve_sandbox ::
  "fs \<Rightarrow> group_config \<Rightarrow> agent_instance \<Rightarrow> string \<Rightarrow> string \<Rightarrow> (string \<times> path list) res" where
  "resolve_sandbox fs g a group_id agent_id =
     (let mode = sandbox_mode g a; additional = sb_additional_roots (rt_sandbox (ai_runtime a)) in
      if mode = ''unrestricted'' then
        if additional \<noteq> [] then
          Inl (Invalid CValidationFailed
            [build_issue ''sandbox-contradiction'' (''groups.'' @ group_id @ ''.agents.'' @ agent_id)
               ''runtime.sandbox.additional_roots'' ''Unrestricted sandbox cannot add roots.''
               ''Remove additional roots or switch to restricted mode.''])
        else Inr (mode, [])
      else let paths = resolve_group_paths fs g in
        Inr (mode, merge_roots fs
          [[gp_workspace_root paths, gp_group_root paths],
           map to_path (sb_roots (rt_sandbox (gc_runtime g))), map to_path additional]))"

definition resolve_effective_policy ::
  "fs \<Rightarrow> (string \<times> integration) list \<Rightarrow> agency_config \<Rightarrow> string \<Rightarrow> string \<Rightarrow> int option \<Rightarrow> effective_policy res" where
  "resolve_effective_policy fs registry c group_id agent_id override =
     bindR (get_group c group_id) (\<lambda>g.
     bindR (get_agent g agent_id) (\<lambda>a.
     bindR (resolve_sandbox fs g a group_id agent_id) (\<lambda>(mode, roots).
     let p = \<lparr>ep_timeout = resolve_timeout g a override, ep_sandbox_mode = mode, ep_sandbox_roots = roots,
              ep_tool_mode = tl_mode (resolve_tools g a), ep_tool_names = tl_names (resolve_tools g a)\<rparr> in
     case get_integration registry (ai_integration a) of
       Inl _ \<Rightarrow> Inl (Invalid CValidationFailed
         [build_issue ''unknown-integration'' (''groups.'' @ group_id @ ''.agents.'' @ agent_id) ''integration''
            (''Integration '' @ [CHR 0x27] @ ai_integration a @ [CHR 0x27] @ '' is not registered.'')
            ''Choose an installed integration or register it before running this agent.''])
     | Inr i \<Rightarrow>
         let issues = validate_runtime_policy i p in
         if issues \<noteq> [] then Inl (Invalid CValidationFailed issues) else Inr p)))"

section \<open>Facts\<close>

lemma merge_roots_from_facts:
  "set (merge_roots_from fs seen rs) \<subseteq> resolve fs ` set rs"
  "distinct (map path_str (merge_roots_from fs seen rs))"
  "path_str ` set (merge_roots_from fs seen rs) = path_str ` resolve fs ` set rs - set seen"
  by (induction rs arbitrary: seen) (auto simp: Let_def)

lemma merge_roots_first:
  "merge_roots fs ((r # rs) # rest) = resolve fs r # merge_roots_from fs [path_str (resolve fs r)] (rs @ concat rest)"
  by (simp add: merge_roots_def Let_def)

lemma validate_runtime_policy_ok:
  "validate_runtime_policy i p = [] \<longleftrightarrow>
     ep_sandbox_mode p \<in> set (in_path_modes i) \<and> ep_tool_mode p \<in> set (in_tool_modes i)"
  by (simp add: validate_runtime_policy_def)

text \<open>
  C22 - A policy that is resolved is enforceable and confined. The integration of the agent is registered and
  supports the sandbox mode and the tool mode; a restricted sandbox starts with the resolved
  workspace, covers the workspace, the group root, the group's roots and the agent's additional
  roots and nothing else, each once; an unrestricted one names no roots. The timeout is the override, else
  the agent's own, else the group's.
\<close>

theorem effective_policy_confined:
  assumes "resolve_effective_policy fs registry c gid aid override = Inr p"
  shows "\<exists>g a i. map_of (ac_groups c) gid = Some g \<and> map_of (gc_agents g) aid = Some a \<and>
    map_of registry (ai_integration a) = Some i \<and>
    ep_sandbox_mode p = sandbox_mode g a \<and>
    ep_sandbox_mode p \<in> set (in_path_modes i) \<and> ep_tool_mode p \<in> set (in_tool_modes i) \<and>
    ep_timeout p = resolve_timeout g a override \<and>
    (if ep_sandbox_mode p = ''unrestricted''
     then ep_sandbox_roots p = [] \<and> sb_additional_roots (rt_sandbox (ai_runtime a)) = []
     else hd (ep_sandbox_roots p) = resolve fs (resolve_text fs (gc_workspace_path g)) \<and>
       distinct (map path_str (ep_sandbox_roots p)) \<and>
       path_str ` set (ep_sandbox_roots p) = path_str ` resolve fs `
         ({resolve_text fs (gc_workspace_path g), resolve_text fs (gc_path g)} \<union>
          to_path ` set (sb_roots (rt_sandbox (gc_runtime g))) \<union>
          to_path ` set (sb_additional_roots (rt_sandbox (ai_runtime a)))))"
proof -
  from assms obtain g where g: "map_of (ac_groups c) gid = Some g"
    by (cases "map_of (ac_groups c) gid") (auto simp: resolve_effective_policy_def get_group_def)
  with assms obtain a where a: "map_of (gc_agents g) aid = Some a"
    by (cases "map_of (gc_agents g) aid") (auto simp: resolve_effective_policy_def get_group_def get_agent_def)
  with assms g obtain mode roots where sb: "resolve_sandbox fs g a gid aid = Inr (mode, roots)"
    by (cases "resolve_sandbox fs g a gid aid")
       (auto simp: resolve_effective_policy_def get_group_def get_agent_def)
  with assms g a obtain i where i: "map_of registry (ai_integration a) = Some i"
    by (cases "map_of registry (ai_integration a)")
       (auto simp: resolve_effective_policy_def get_group_def get_agent_def get_integration_def Let_def)
  from assms g a sb i have p: "ep_sandbox_mode p = mode" "ep_sandbox_roots p = roots"
    "ep_timeout p = resolve_timeout g a override" "validate_runtime_policy i p = []"
    by (auto simp: resolve_effective_policy_def get_group_def get_agent_def get_integration_def Let_def
        split: if_splits)
  from sb have m: "mode = sandbox_mode g a"
    by (auto simp: resolve_sandbox_def Let_def split: if_splits)
  have r: "if mode = ''unrestricted'' then roots = [] \<and> sb_additional_roots (rt_sandbox (ai_runtime a)) = []
    else roots = merge_roots fs [[resolve_text fs (gc_workspace_path g), resolve_text fs (gc_path g)],
      map to_path (sb_roots (rt_sandbox (gc_runtime g))), map to_path (sb_additional_roots (rt_sandbox (ai_runtime a)))]"
    using sb by (auto simp: resolve_sandbox_def Let_def resolve_group_paths_def split: if_splits)
  show ?thesis
  proof (cases "mode = ''unrestricted''")
    case True
    with g a i p m r show ?thesis by (auto simp: validate_runtime_policy_ok)
  next
    case False
    with r have r': "roots = merge_roots fs [[resolve_text fs (gc_workspace_path g), resolve_text fs (gc_path g)],
      map to_path (sb_roots (rt_sandbox (gc_runtime g))), map to_path (sb_additional_roots (rt_sandbox (ai_runtime a)))]"
      by simp
    have "hd roots = resolve fs (resolve_text fs (gc_workspace_path g))"
      unfolding r' merge_roots_first by simp
    moreover have "distinct (map path_str roots)"
      unfolding r' merge_roots_def by (rule merge_roots_from_facts)
    moreover have "path_str ` set roots = path_str ` resolve fs `
         ({resolve_text fs (gc_workspace_path g), resolve_text fs (gc_path g)} \<union>
          to_path ` set (sb_roots (rt_sandbox (gc_runtime g))) \<union>
          to_path ` set (sb_additional_roots (rt_sandbox (ai_runtime a))))"
      unfolding r' merge_roots_def merge_roots_from_facts(3) by (simp add: image_Un insert_commute)
    ultimately show ?thesis using False g a i p m by (auto simp: validate_runtime_policy_ok)
  qed
qed

definition demo_agent :: agent_instance where
  "demo_agent =
     \<lparr>ai_name = ''writer'', ai_blueprint = ''writer'', ai_integration = ''copilot'', ai_integration_config = [],
      ai_write = True,
      ai_runtime = \<lparr>rt_timeout = 60, rt_sandbox = \<lparr>sb_mode = ''restricted'', sb_roots = [],
                     sb_additional_roots = [''/data'', ''/w'']\<rparr>, rt_tools = \<lparr>tl_mode = ''all'', tl_names = []\<rparr>\<rparr>,
      ai_runtime_set = [''timeout'', ''sandbox.mode''], ai_default_memory = None, ai_routines = []\<rparr>"

definition demo_group :: group_config where
  "demo_group =
     \<lparr>gc_name = ''Ops'', gc_workspace_path = ''/w'', gc_path = ''/g'', gc_default_integration = ''copilot'',
      gc_runtime = \<lparr>rt_timeout = 1800, rt_sandbox = \<lparr>sb_mode = ''unrestricted'', sb_roots = [], sb_additional_roots = []\<rparr>,
                    rt_tools = \<lparr>tl_mode = ''all'', tl_names = []\<rparr>\<rparr>,
      gc_dispatch_enabled = True, gc_daily_limit = 20, gc_agents = [(''writer'', demo_agent)]\<rparr>"

definition demo_config :: agency_config where
  "demo_config =
     \<lparr>ac_default_group = [], ac_dispatch_interval = 15, ac_agent_library = Some ''/lib'',
      ac_compilation_cache = Some ''/cache'', ac_memory_store = Some ''/mem'', ac_channels = [(''news'', ''News'')],
      ac_groups = [(''ops'', demo_group)]\<rparr>"

definition demo_copilot :: integration where
  "demo_copilot =
     \<lparr>in_name = ''copilot'', in_supports_execution = True, in_path_modes = [''restricted'', ''unrestricted''],
      in_tool_modes = [''all'', ''allowlist''], in_projector = Some (True, True)\<rparr>"

lemma effective_policy_confined_witness:
  "case resolve_effective_policy [] [(''copilot'', demo_copilot)] demo_config ''ops'' ''writer'' None of
     Inl e \<Rightarrow> False
   | Inr p \<Rightarrow> ep_sandbox_roots p = [[''w''], [''g''], [''data'']] \<and> ep_timeout p = 60 \<and>
       distinct (map path_str (ep_sandbox_roots p))"
proof -
  let ?p = "\<lparr>ep_timeout = 60, ep_sandbox_mode = ''restricted'', ep_sandbox_roots = [[''w''], [''g''], [''data'']],
    ep_tool_mode = ''all'', ep_tool_names = []\<rparr>"
  have r: "resolve_effective_policy [] [(''copilot'', demo_copilot)] demo_config ''ops'' ''writer'' None = Inr ?p"
    by code_simp
  from effective_policy_confined [OF r] have "distinct (map path_str (ep_sandbox_roots ?p))" by auto
  with r show ?thesis by simp
qed

text \<open>A run of a valid request can be enforced and, with a skill, activated.\<close>

lemma validate_run_ok:
  "validate_run i p skill = [] \<longleftrightarrow> validate_runtime_policy i p = [] \<and> in_supports_execution i \<and>
     (\<exists>d a. in_projector i = Some (d, a) \<and> (skill \<noteq> None \<longrightarrow> d \<and> a))"
  by (auto simp: validate_run_def split: option.splits if_splits)

end
