(* ===== verification/ConfigPaths.thy ===== *)
theory ConfigPaths
  imports Policy
begin

text \<open>
  Which directories the program may use: \<^verbatim>\<open>agency/configuration/paths.py\<close>. The stores, the
  group roots and the workspaces have to be real directories (or creatable ones) and pairwise
  disjoint; sandbox roots have to stay clear of the stores. \<open>A fs p writable\<close> is the answer of
  \<open>os.access\<close>, a parameter: permissions are not part of the file system model.
\<close>

type_synonym access = "fs \<Rightarrow> path \<Rightarrow> bool \<Rightarrow> bool"

definition job_store_root :: "fs \<Rightarrow> path \<Rightarrow> path" where
  "job_store_root fs memory_store = resolve fs (resolve fs memory_store @ [''.jobs''])"

record authority =
  au_scope :: string
  au_field :: string
  au_label :: string
  au_path :: path

definition path_key :: "fs \<Rightarrow> path \<Rightarrow> path" where
  "path_key fs p = resolve fs p"

text \<open>Equal, or one among the parents of the other.\<close>

definition overlap :: "fs \<Rightarrow> path \<Rightarrow> path \<Rightarrow> bool" where
  "overlap fs left right \<longleftrightarrow>
     (let l = path_key fs left; r = path_key fs right in l = r \<or> strict_prefix l r \<or> strict_prefix r l)"

text \<open>The root always exists, so there always is an existing parent.\<close>

function nearest_existing_parent :: "fs \<Rightarrow> path \<Rightarrow> path" where
  "nearest_existing_parent fs p =
     (if path_exists fs p \<or> p = [] then p else nearest_existing_parent fs (butlast p))"
  by pat_completeness auto
termination
  by (relation "measure (\<lambda>(fs, p). length p)") (auto simp: length_greater_0_conv)

declare nearest_existing_parent.simps [simp del]

definition is_symlink :: "fs \<Rightarrow> path \<Rightarrow> bool" where
  "is_symlink fs p \<longleftrightarrow> is_link (lstat_node fs p)"

definition validate_existing_directory ::
  "access \<Rightarrow> fs \<Rightarrow> path \<Rightarrow> string \<Rightarrow> string \<Rightarrow> string \<Rightarrow> bool \<Rightarrow> validation_issue list" where
  "validate_existing_directory A fs path0 code scope field writable =
     (let p = resolve fs path0 in
      if is_symlink fs p then
        [build_issue code scope field
           (''Configured path must be a real directory, not a symlink or reparse point: '' @ path_str p)
           ''Use a real local directory that Agency can access directly.'']
      else if \<not> is_dir fs p then
        [build_issue code scope field (''Configured path must exist as a directory: '' @ path_str p)
           ''Create the directory and grant Agency the required access.'']
      else if \<not> A fs p writable then
        [build_issue code scope field
           (''Configured directory is not '' @ (if writable then ''readable and writable'' else ''readable'') @
            '': '' @ path_str p)
           ''Grant Agency the required filesystem permissions.'']
      else [])"

definition validate_creatable_directory ::
  "access \<Rightarrow> fs \<Rightarrow> path \<Rightarrow> string \<Rightarrow> string \<Rightarrow> string \<Rightarrow> validation_issue list" where
  "validate_creatable_directory A fs path0 code scope field =
     (let p = resolve fs path0 in
      if path_exists fs p then validate_existing_directory A fs p code scope field True
      else let parent = nearest_existing_parent fs p in
        if is_symlink fs parent \<or> \<not> is_dir fs parent \<or> \<not> A fs parent True then
          [build_issue ''unwritable-control-parent'' scope field
             (''No writable real parent can create configured directory: '' @ path_str p)
             ''Choose a local path whose nearest existing parent is a writable real directory.'']
        else [])"

definition overlap_issue :: "authority \<Rightarrow> authority \<Rightarrow> string \<Rightarrow> validation_issue" where
  "overlap_issue a other hint =
     build_issue ''unsafe-path-overlap'' (au_scope a) (au_field a)
       (''Resolved authority '' @ au_label a @ ''='' @ path_str (au_path a) @ '' overlaps '' @
        au_label other @ ''='' @ path_str (au_path other)) hint"

definition disjoint_hint :: string where
  "disjoint_hint = ''Use disjoint local directories for global stores, group roots, and workspaces.''"

definition sandbox_hint :: string where
  "sandbox_hint =
     ''Move control-plane storage and configured runtime-writable roots into disjoint directories.''"

fun overlap_issues :: "fs \<Rightarrow> authority list \<Rightarrow> validation_issue list" where
  "overlap_issues fs [] = []"
| "overlap_issues fs (l # rs) =
     concat (map (\<lambda>r. if overlap fs (au_path l) (au_path r)
                      then [overlap_issue l r disjoint_hint, overlap_issue r l disjoint_hint] else []) rs) @
     overlap_issues fs rs"

definition control_authorities :: "fs \<Rightarrow> string \<Rightarrow> string \<Rightarrow> string \<Rightarrow> authority list" where
  "control_authorities fs library cache memory =
     [\<lparr>au_scope = ''agency'', au_field = ''agent_library'', au_label = ''agency.agent_library'', au_path = resolve_text fs library\<rparr>,
      \<lparr>au_scope = ''agency'', au_field = ''compilation_cache'', au_label = ''agency.compilation_cache'', au_path = resolve_text fs cache\<rparr>,
      \<lparr>au_scope = ''agency'', au_field = ''memory_store'', au_label = ''agency.memory_store'', au_path = resolve_text fs memory\<rparr>]"

definition group_scope :: "string \<Rightarrow> string" where
  "group_scope gid = ''groups.'' @ gid"

definition group_authorities :: "fs \<Rightarrow> string \<times> group_config \<Rightarrow> authority list" where
  "group_authorities fs e =
     (case e of (gid, g) \<Rightarrow>
       [\<lparr>au_scope = group_scope gid, au_field = ''workspace_path'', au_label = group_scope gid @ ''.workspace_path'',
         au_path = gp_workspace_root (resolve_group_paths fs g)\<rparr>,
        \<lparr>au_scope = group_scope gid, au_field = ''path'', au_label = group_scope gid @ ''.path'',
         au_path = gp_group_root (resolve_group_paths fs g)\<rparr>])"

definition group_directory_issues :: "access \<Rightarrow> fs \<Rightarrow> string \<times> group_config \<Rightarrow> validation_issue list" where
  "group_directory_issues A fs e =
     (case e of (gid, g) \<Rightarrow>
       validate_existing_directory A fs (gp_workspace_root (resolve_group_paths fs g))
         ''invalid-group-workspace'' (group_scope gid) ''workspace_path'' True @
       validate_creatable_directory A fs (gp_group_root (resolve_group_paths fs g))
         ''invalid-group-root'' (group_scope gid) ''path'')"

text \<open>One configured sandbox root, against the three control directories.\<close>

definition sandbox_root_issues ::
  "access \<Rightarrow> fs \<Rightarrow> authority list \<Rightarrow> string \<Rightarrow> string \<Rightarrow> string \<Rightarrow> validation_issue list" where
  "sandbox_root_issues A fs controls scope field root_text =
     (let root = to_path root_text;
          a = \<lparr>au_scope = scope, au_field = field, au_label = scope @ ''.'' @ field, au_path = resolve fs root\<rparr> in
      validate_existing_directory A fs root ''invalid-sandbox-root'' scope field True @
      concat (map (\<lambda>c. if overlap fs (au_path c) (au_path a) then [overlap_issue a c sandbox_hint] else []) controls))"

definition group_sandbox_issues ::
  "access \<Rightarrow> fs \<Rightarrow> authority list \<Rightarrow> string \<times> group_config \<Rightarrow> validation_issue list" where
  "group_sandbox_issues A fs controls e =
     (case e of (gid, g) \<Rightarrow>
       (if sb_mode (rt_sandbox (gc_runtime g)) = ''restricted'' then
          concat (map (\<lambda>(i, r). sandbox_root_issues A fs controls (group_scope gid)
                     (indexed ''runtime.sandbox.roots'' i) r)
            (enumerate 0 (sb_roots (rt_sandbox (gc_runtime g)))))
        else []) @
       concat (map (\<lambda>(aid, a).
         concat (map (\<lambda>(i, r). sandbox_root_issues A fs controls (group_scope gid @ ''.agents.'' @ aid)
                    (indexed ''runtime.sandbox.additional_roots'' i) r)
           (enumerate 0 (sb_additional_roots (rt_sandbox (ai_runtime a)))))) (gc_agents g)))"

text \<open>\<open>Path(None)\<close> raises \<open>TypeError\<close>; a parsed configuration has all three paths.\<close>

definition store_paths :: "agency_config \<Rightarrow> (string \<times> string \<times> string) res" where
  "store_paths c =
     (case (ac_agent_library c, ac_compilation_cache c, ac_memory_store c) of
        (Some l, Some k, Some m) \<Rightarrow> Inr (l, k, m)
      | _ \<Rightarrow> Inl (Exn CTypeError ''expected str, bytes or os.PathLike object, not NoneType''))"

definition validate_resolved_paths :: "access \<Rightarrow> fs \<Rightarrow> agency_config \<Rightarrow> validation_issue list res" where
  "validate_resolved_paths A fs c =
     bindR (store_paths c) (\<lambda>(library, cache, memory).
     let controls = control_authorities fs library cache memory in
     Inr (sorted_issues
       (validate_existing_directory A fs (resolve_text fs library) ''invalid-agent-library'' ''agency'' ''agent_library'' False @
        validate_creatable_directory A fs (resolve_text fs cache) ''invalid-control-directory'' ''agency'' ''compilation_cache'' @
        validate_creatable_directory A fs (resolve_text fs memory) ''invalid-control-directory'' ''agency'' ''memory_store'' @
        concat (map (group_directory_issues A fs) (ac_groups c)) @
        overlap_issues fs (controls @ concat (map (group_authorities fs) (ac_groups c))) @
        concat (map (group_sandbox_issues A fs controls) (ac_groups c)))))"

section \<open>Creating the directories\<close>

definition assert_real_directory :: "path \<Rightarrow> unit fio" where
  "assert_real_directory p =
     bindI (see (\<lambda>fs. lstat_node fs p)) (\<lambda>n. case n of
         None \<Rightarrow> raise (Exn CValueError (''Missing directory: '' @ path_str p))
       | Some (Link _) \<Rightarrow> raise (Exn CValueError (''Directory must not be a symlink or reparse point: '' @ path_str p))
       | Some Dir \<Rightarrow> ret ()
       | Some _ \<Rightarrow> raise (Exn CValueError (''Path is not a directory: '' @ path_str p)))"

text \<open>\<open>_path_chain\<close>: the root first, the path itself last.\<close>

definition path_chain :: "path \<Rightarrow> path list" where
  "path_chain p = map (\<lambda>i. take i p) [0..<Suc (length p)]"

definition ensure_component :: "bool \<Rightarrow> path \<Rightarrow> unit fio" where
  "ensure_component create p =
     bindI (see (\<lambda>fs. path_exists fs p)) (\<lambda>there.
       if there then assert_real_directory p
       else if \<not> create then raise (Exn CValueError (''Missing directory: '' @ path_str p))
       else thenI (mkdir_one p) (assert_real_directory p))"

definition ensure_real_directory :: "path \<Rightarrow> bool \<Rightarrow> path fio" where
  "ensure_real_directory p create =
     thenI (forI (ensure_component create) (path_chain p)) (see (\<lambda>fs. resolve fs p))"

definition storage_directories :: "fs \<Rightarrow> string \<Rightarrow> string \<Rightarrow> agency_config \<Rightarrow> path list" where
  "storage_directories fs cache memory c =
     [to_path cache, to_path memory, job_store_root fs (to_path memory)] @
     concat (map (\<lambda>(gid, g). gp_group_root (resolve_group_paths fs g) # record_directories (resolve_group_paths fs g))
       (ac_groups c))"

definition initialize_storage_directories :: "agency_config \<Rightarrow> unit fio" where
  "initialize_storage_directories c =
     bindI (liftR (store_paths c)) (\<lambda>(library, cache, memory).
     bindI (see (\<lambda>fs. storage_directories fs cache memory c)) (\<lambda>dirs.
       forI (\<lambda>d. thenI (ensure_real_directory d True) (ret ())) dirs))"

section \<open>Facts\<close>

lemma overlap_iff: "overlap fs l r \<longleftrightarrow> prefix (path_key fs l) (path_key fs r) \<or> prefix (path_key fs r) (path_key fs l)"
  by (auto simp: overlap_def Let_def prefix_order.le_less)

lemma overlap_issues_Nil:
  "overlap_issues fs as = [] \<longleftrightarrow> sorted_wrt (\<lambda>a b. \<not> overlap fs (au_path a) (au_path b)) as"
  by (induction as) auto

definition directory_ok :: "access \<Rightarrow> fs \<Rightarrow> path \<Rightarrow> bool \<Rightarrow> bool" where
  "directory_ok A fs p writable \<longleftrightarrow>
     \<not> is_symlink fs (resolve fs p) \<and> is_dir fs (resolve fs p) \<and> A fs (resolve fs p) writable"

lemma validate_existing_directory_Nil:
  "validate_existing_directory A fs p code scope field w = [] \<longleftrightarrow> directory_ok A fs p w"
  by (simp add: validate_existing_directory_def directory_ok_def Let_def)

lemma sandbox_root_issues_Nil:
  "sandbox_root_issues A fs controls scope field r = [] \<longleftrightarrow>
     directory_ok A fs (to_path r) True \<and>
     (\<forall>c\<in>set controls. \<not> overlap fs (au_path c) (resolve fs (to_path r)))"
  by (auto simp: sandbox_root_issues_def Let_def validate_existing_directory_Nil)

lemma enumerate_concat_Nil:
  "concat (map (\<lambda>(i, r). f i r) (enumerate n rs)) = [] \<longleftrightarrow> (\<forall>(i, r)\<in>set (enumerate n rs). f i r = [])"
  by auto

text \<open>The configured roots that reach a runtime.\<close>

definition runtime_roots :: "group_config \<Rightarrow> string list" where
  "runtime_roots g =
     (if sb_mode (rt_sandbox (gc_runtime g)) = ''restricted'' then sb_roots (rt_sandbox (gc_runtime g)) else []) @
     concat (map (\<lambda>(aid, a). sb_additional_roots (rt_sandbox (ai_runtime a))) (gc_agents g))"

lemma group_sandbox_issues_Nil:
  "group_sandbox_issues A fs controls (gid, g) = [] \<longleftrightarrow>
     (\<forall>r\<in>set (runtime_roots g). directory_ok A fs (to_path r) True \<and>
        (\<forall>c\<in>set controls. \<not> overlap fs (au_path c) (resolve fs (to_path r))))"
proof -
  let ?ok = "\<lambda>r. directory_ok A fs (to_path r) True \<and>
        (\<forall>c\<in>set controls. \<not> overlap fs (au_path c) (resolve fs (to_path r)))"
  have e: "concat (map (\<lambda>(i, r). sandbox_root_issues A fs controls scope (indexed field i) r) (enumerate 0 rs)) = []
      \<longleftrightarrow> (\<forall>r\<in>set rs. ?ok r)" for scope field rs
    unfolding enumerate_concat_Nil sandbox_root_issues_Nil
    using enumerate_all [of 0 rs ?ok] by simp
  have agents: "concat (map (\<lambda>(aid, a).
         concat (map (\<lambda>(i, r). sandbox_root_issues A fs controls (group_scope gid @ ''.agents.'' @ aid)
                    (indexed ''runtime.sandbox.additional_roots'' i) r)
           (enumerate 0 (sb_additional_roots (rt_sandbox (ai_runtime a)))))) as) = [] \<longleftrightarrow>
      (\<forall>(aid, a)\<in>set as. \<forall>r\<in>set (sb_additional_roots (rt_sandbox (ai_runtime a))). ?ok r)"
    for as :: "(string \<times> agent_instance) list"
  proof (induction as)
    case Nil
    then show ?case by simp
  next
    case (Cons x as)
    obtain aid a where x: "x = (aid, a)" by (cases x)
    show ?case using Cons e by (simp add: x del: concat_eq_Nil_conv)
  qed
  show ?thesis
    unfolding group_sandbox_issues_def prod.case append_is_Nil_conv agents
    by (simp add: e runtime_roots_def del: concat_eq_Nil_conv) fastforce
qed


definition demo_fs :: fs where
  "demo_fs = map (\<lambda>n. ([n], Dir)) [''lib'', ''cache'', ''mem'', ''w'', ''g'', ''data'']"


end
