(* ===== verification/ConfigStore.thy ===== *)
theory ConfigStore
  imports JobStore ConfigPaths Simulation
begin

text \<open>
  \<^verbatim>\<open>agency/configuration/store.py\<close>: the configuration file as a store with compare-and-set.
  The YAML codec (with the options of this file), the hash, the model validator and the
  answers of \<open>os.access\<close> are the record \<open>config_env\<close>. The path of a store is the resolved one.
\<close>

record config_env =
  ce_yaml :: codec
  ce_hash :: "bytes \<Rightarrow> string"
  ce_validator :: validator
  ce_access :: access

record config_snapshot =
  cs_path :: path
  cs_revision :: string
  cs_raw :: "(string \<times> py) list"
  cs_config :: agency_config

record config_file_snapshot =
  cf_path :: path
  cf_revision :: string
  cf_payload :: "bytes option"

definition absent_revision :: string where
  "absent_revision = ''absent''"

definition config_revision :: "config_env \<Rightarrow> bytes \<Rightarrow> string" where
  "config_revision E payload = ce_hash E payload"

text \<open>\<open>path.with_suffix(path.suffix + ".lock")\<close> adds to the name.\<close>

definition config_lock_path :: "path \<Rightarrow> path" where
  "config_lock_path p = butlast p @ [last p @ ''.lock'']"

definition load_raw_mapping :: "config_env \<Rightarrow> bytes \<Rightarrow> (string \<times> py) list res" where
  "load_raw_mapping E payload =
     (case utf8_decode payload of
        None \<Rightarrow> Inl (Exn CUnicodeDecodeError ''invalid start byte'')
      | Some text \<Rightarrow> bindR (load (ce_yaml E) text) (\<lambda>loaded. case loaded of
            PNone \<Rightarrow> Inr []
          | PDict d \<Rightarrow> Inr d
          | _ \<Rightarrow> Inl (type_error ''config.yaml must decode to a mapping'')))"

definition config_snapshot_of :: "config_env \<Rightarrow> path \<Rightarrow> bytes \<Rightarrow> config_snapshot fio" where
  "config_snapshot_of E p payload =
     bindI (liftR (load_raw_mapping E payload)) (\<lambda>raw.
     bindI (see (\<lambda>fs. parse_config (ce_validator E) fs p raw)) (\<lambda>parsed.
     bindI (liftR parsed) (\<lambda>c.
       ret \<lparr>cs_path = p, cs_revision = config_revision E payload, cs_raw = raw, cs_config = pc_resolved c\<rparr>)))"

definition validated_config :: "config_env \<Rightarrow> path \<Rightarrow> (string \<times> py) list \<Rightarrow> agency_config fio" where
  "validated_config E p raw =
     bindI (see (\<lambda>fs. bindR (parse_config (ce_validator E) fs p raw) (\<lambda>parsed.
        bindR (validate_resolved_paths (ce_access E) fs (pc_resolved parsed)) (\<lambda>issues.
        if issues \<noteq> [] then Inl (Invalid CValidationFailed issues) else Inr (pc_resolved parsed))))) liftR"

definition config_payload :: "config_env \<Rightarrow> (string \<times> py) list \<Rightarrow> bytes" where
  "config_payload E raw = utf8_encode (dump (ce_yaml E) (PDict raw))"

definition encode_config :: "config_env \<Rightarrow> path \<Rightarrow> (string \<times> py) list \<Rightarrow> bytes fio" where
  "encode_config E p raw = thenI (validated_config E p raw) (ret (config_payload E raw))"

section \<open>Reading\<close>

definition config_load :: "config_env \<Rightarrow> path \<Rightarrow> bool \<Rightarrow> config_snapshot fio" where
  "config_load E p wait =
     bindI (exclusive_lock (config_lock_path p) wait False (read_bytes p)) (config_snapshot_of E p)"

definition read_if_exists :: "path \<Rightarrow> bytes option fio" where
  "read_if_exists p =
     bindI (see (\<lambda>fs. path_exists fs p)) (\<lambda>there.
       if there then bindI (read_bytes p) (\<lambda>b. ret (Some b)) else ret None)"

definition file_revision :: "config_env \<Rightarrow> bytes option \<Rightarrow> string" where
  "file_revision E payload = (case payload of Some b \<Rightarrow> config_revision E b | None \<Rightarrow> absent_revision)"

definition config_inspect :: "config_env \<Rightarrow> path \<Rightarrow> bool \<Rightarrow> config_file_snapshot fio" where
  "config_inspect E p wait =
     bindI (exclusive_lock (config_lock_path p) wait False (read_if_exists p)) (\<lambda>payload.
       ret \<lparr>cf_path = p, cf_revision = file_revision E payload, cf_payload = payload\<rparr>)"

section \<open>Writing\<close>

definition conflict :: "string \<Rightarrow> exn" where
  "conflict text = Exn CConfigConflictError text"

text \<open>The last steps of every write: validate, create the directories, write.\<close>

definition commit_config :: "config_env \<Rightarrow> path \<Rightarrow> (string \<times> py) list \<Rightarrow> bytes \<Rightarrow> unit fio" where
  "commit_config E p raw payload =
     bindI (validated_config E p raw) (\<lambda>candidate.
     thenI (initialize_storage_directories candidate)
       (atomic_write_bytes p payload))"

definition config_create :: "config_env \<Rightarrow> path \<Rightarrow> (string \<times> py) list \<Rightarrow> config_snapshot fio" where
  "config_create E p raw =
     bindI (exclusive_lock (config_lock_path p) True False
       (bindI (see (\<lambda>fs. path_exists fs p)) (\<lambda>there.
        thenI (assertI (\<not> there) (Exn CFileExistsError (path_str p)))
          (bindI (encode_config E p raw) (\<lambda>payload.
           thenI (commit_config E p raw payload) (ret payload))))))
       (config_snapshot_of E p)"

definition config_replace :: "config_env \<Rightarrow> path \<Rightarrow> string \<Rightarrow> (string \<times> py) list \<Rightarrow> config_snapshot fio" where
  "config_replace E p expected raw =
     bindI (exclusive_lock (config_lock_path p) True False
       (bindI (read_if_exists p) (\<lambda>original.
        thenI (assertI (file_revision E original = expected) (conflict ''config.yaml changed; reload before saving''))
          (bindI (encode_config E p raw) (\<lambda>updated.
           bindI (read_if_exists p) (\<lambda>current.
           thenI (assertI (current = original) (conflict ''config.yaml changed outside the Agency lock''))
             (thenI (commit_config E p raw updated) (ret updated))))))))
       (config_snapshot_of E p)"

text \<open>\<open>patcher(raw)\<close> changes a copy of the document or raises.\<close>

definition config_patch ::
  "config_env \<Rightarrow> path \<Rightarrow> string \<Rightarrow> ((string \<times> py) list \<Rightarrow> (string \<times> py) list res) \<Rightarrow> config_snapshot fio" where
  "config_patch E p expected patcher =
     bindI (exclusive_lock (config_lock_path p) True False
       (bindI (read_bytes p) (\<lambda>original.
        thenI (assertI (config_revision E original = expected) (conflict ''config.yaml changed; reload before saving''))
          (bindI (liftR (load_raw_mapping E original)) (\<lambda>raw0.
           bindI (liftR (patcher raw0)) (\<lambda>raw.
           bindI (encode_config E p raw) (\<lambda>updated.
           bindI (read_bytes p) (\<lambda>current.
           thenI (assertI (current = original) (conflict ''config.yaml changed outside the Agency lock''))
             (thenI (commit_config E p raw updated) (ret updated))))))))))
       (config_snapshot_of E p)"

section \<open>What a write does to the files\<close>

text \<open>Nothing but new directories: what was there is as it was.\<close>

definition dirs_added :: "path \<Rightarrow> (path \<Rightarrow> node option) \<Rightarrow> world \<Rightarrow> bool" where
  "dirs_added rt g w \<longleftrightarrow> clean rt (files w) \<and>
     (\<forall>q. node_at (files w) q = g q \<or> (g q = None \<and> node_at (files w) q = Some Dir))"

lemma dirs_added_self: "clean rt (files w) \<Longrightarrow> dirs_added rt (node_at (files w)) w"
  by (simp add: dirs_added_def)

lemma keeps_dirs_mkdir [keeps_intros]: "keeps (dirs_added rt g) (os_mkdir q)"
  unfolding keeps_def
proof (intro allI impI)
  fix w assume d: "dirs_added rt g w"
  obtain r w' where run: "os_mkdir q w = (r, w')" by fastforce
  from syscall_result [OF run [unfolded os_mkdir_def]] show "dirs_added rt g (snd (os_mkdir q w))"
  proof
    assume "r \<noteq> Inr () \<and> files w' = files w"
    with d run show ?thesis by (simp add: dirs_added_def)
  next
    assume "r = Inr () \<and> sys_mkdir q (files w) = Inr (files w')"
    then have q: "q \<noteq> []" "node_at (files w) (place (files w) q) = None"
      "node_at (files w) (butlast (place (files w) q)) = Some Dir"
      "files w' = put (place (files w) q) Dir (files w)"
      by (auto simp: sys_mkdir_def Let_def split: if_splits)
    have "place (files w) q \<noteq> []" using q(1) by (simp add: place_def)
    moreover from this d q have "clean rt (files w')" by (auto simp: dirs_added_def intro!: clean_put)
    moreover from d q(2) have "g (place (files w) q) = None"
      unfolding dirs_added_def by (metis option.distinct(1))
    ultimately show ?thesis using d q(4) run by (simp add: dirs_added_def)
  qed
qed

lemma keeps_assert_real_directory [keeps_intros]: "keeps P (assert_real_directory q)"
  unfolding assert_real_directory_def
  by (intro keeps_bindI keeps_see) (auto split: option.splits node.splits intro: keeps_pure)

lemma keeps_ensure_component [keeps_intros]: "keeps (dirs_added rt g) (ensure_component c q)"
  unfolding ensure_component_def mkdir_one_def
  by (intro keeps_bindI keeps_see) (auto intro!: keeps_intros)

lemma keeps_initialize_storage_directories [keeps_intros]:
  "keeps (dirs_added rt g) (initialize_storage_directories c)"
  unfolding initialize_storage_directories_def ensure_real_directory_def
  by (auto intro!: keeps_intros split: prod.splits)

definition config_kept :: "path \<Rightarrow> path \<Rightarrow> (path \<Rightarrow> node option) \<Rightarrow> world \<Rightarrow> bool" where
  "config_kept rt p g w \<longleftrightarrow> clean rt (files w) \<and> node_at (files w) (butlast p) = Some Dir \<and>
     (\<forall>q b. q \<noteq> p \<and> q \<noteq> config_lock_path p \<and> q \<notin> temp_paths p \<and> g q = Some (File b)
        \<longrightarrow> node_at (files w) q = Some (File b))"

lemma config_lock_path_safe:
  assumes "below rt p" "strict_prefix rt p" "last p \<noteq> []"
  shows "below rt (config_lock_path p)" "config_lock_path p \<noteq> p" "butlast (config_lock_path p) = butlast p"
  using job_lock_path_safe [OF assms] by (simp_all add: config_lock_path_def job_lock_path_def)

lemma validated_config_state: "validated_config E p raw w = (r, w') \<Longrightarrow> w' = w"
  by (auto simp: validated_config_def bindI_apply)

lemma encode_config_Inr:
  "encode_config E p raw w = (Inr payload, w') \<longleftrightarrow>
     w' = w \<and> payload = config_payload E raw \<and> (\<exists>c. validated_config E p raw w = (Inr c, w))"
  by (auto simp: encode_config_def thenI_Inr_iff dest: validated_config_state)

lemma encode_config_state: "encode_config E p raw w = (r, w') \<Longrightarrow> w' = w"
  by (auto simp: encode_config_def thenI_apply split: prod.splits sum.splits dest: validated_config_state)

lemma commit_config_outcome:
  assumes "job_place rt p w" "commit_config E p raw payload w = (r, w')"
  shows "config_kept rt p (node_at (files w)) w'"
    "r = Inr () \<Longrightarrow> node_at (files w') p = Some (File payload) \<and> (\<exists>c. validated_config E p raw w = (Inr c, w))"
    "node_at (files w') p = node_at (files w) p \<or> node_at (files w') p = Some (File payload) \<or>
     (node_at (files w) p = None \<and> node_at (files w') p = Some Dir)"
proof -
  from assms(1) have pl: "clean rt (files w)" "below rt p" "strict_prefix rt p" "last p \<noteq> []"
      "node_at (files w) (butlast p) = Some Dir"
    by (simp_all add: job_place_def)
  obtain rv wv where v: "validated_config E p raw w = (rv, wv)" by fastforce
  with validated_config_state have wv: "wv = w" by blast
  have "config_kept rt p (node_at (files w)) w' \<and>
    (r = Inr () \<longrightarrow> node_at (files w') p = Some (File payload) \<and> (\<exists>c. validated_config E p raw w = (Inr c, w))) \<and>
    (node_at (files w') p = node_at (files w) p \<or> node_at (files w') p = Some (File payload) \<or>
     (node_at (files w) p = None \<and> node_at (files w') p = Some Dir))" (is ?goal)
  proof (cases rv)
    case (Inl e)
    with assms(2) v wv have "w' = w" "r \<noteq> Inr ()" by (auto simp: commit_config_def bindI_apply)
    with pl show ?goal by (simp add: config_kept_def)
  next
    case (Inr c)
    obtain ri w1 where i: "initialize_storage_directories c w = (ri, w1)" by fastforce
    from keepsD [OF keeps_initialize_storage_directories dirs_added_self [OF pl(1)] i]
    have d: "clean rt (files w1)"
      "\<And>q. node_at (files w1) q = node_at (files w) q \<or> (node_at (files w) q = None \<and> node_at (files w1) q = Some Dir)"
      by (auto simp: dirs_added_def)
    have dp: "node_at (files w1) (butlast p) = Some Dir" using d(2) [of "butlast p"] pl(5) by auto
    have fr: "node_at (files w) q = Some (File b) \<Longrightarrow> node_at (files w1) q = Some (File b)" for q b
      using d(2) [of q] by auto
    show ?goal
    proof (cases ri)
      case (Inl e)
      with assms(2) v wv Inr i have "w' = w1" "r \<noteq> Inr ()"
        by (auto simp: commit_config_def bindI_apply thenI_apply)
      with d dp fr show ?goal by (auto simp: config_kept_def)
    next
      case ok: (Inr u)
      with assms(2) v wv Inr i have a: "atomic_write_bytes p payload w1 = (r, w')"
        by (simp add: commit_config_def bindI_apply thenI_apply)
      note out = atomic_write_outcome [OF d(1) pl(2-4) dp a]
      have bt: "butlast p \<noteq> p" "butlast p \<notin> temp_paths p"
        using strictly_below [OF pl(2,3)] temp_paths_not_prefix [of "butlast p" p]
        by (auto simp: prefixeq_butlast) (metis append_butlast_last_id append_self_conv not_Cons_self2)
      with out dp have "node_at (files w') (butlast p) = Some Dir" by metis
      moreover have "node_at (files w') q = Some (File b)"
        if "q \<noteq> p" "q \<notin> temp_paths p" "node_at (files w) q = Some (File b)" for q b
        using out that fr by metis
      ultimately have "config_kept rt p (node_at (files w)) w'" using out by (simp add: config_kept_def)
      moreover from out d(2) [of p] have "node_at (files w') p = node_at (files w) p \<or> node_at (files w') p = Some (File payload) \<or>
        (node_at (files w) p = None \<and> node_at (files w') p = Some Dir)" by auto
      moreover have "r = Inr () \<longrightarrow> node_at (files w') p = Some (File payload)" using out by simp
      ultimately show ?goal using v wv Inr by auto
    qed
  qed
  then show "config_kept rt p (node_at (files w)) w'"
    "r = Inr () \<Longrightarrow> node_at (files w') p = Some (File payload) \<and> (\<exists>c. validated_config E p raw w = (Inr c, w))"
    "node_at (files w') p = node_at (files w) p \<or> node_at (files w') p = Some (File payload) \<or>
     (node_at (files w) p = None \<and> node_at (files w') p = Some Dir)" by blast+
qed

section \<open>Compare and set\<close>

definition config_content :: "path \<Rightarrow> world \<Rightarrow> bytes option" where
  "config_content p w = (case node_at (files w) p of Some (File b) \<Rightarrow> Some b | _ \<Rightarrow> None)"

lemma read_bytes_Inr:
  assumes "job_place rt p w" "read_bytes p w = (Inr b, w')"
  shows "w' = w \<and> config_content p w = Some b"
  using assms by (auto simp: read_bytes_def job_place_def stat_clean config_content_def
      split: option.splits node.splits)

lemma read_bytes_state: "read_bytes p w = (r, w') \<Longrightarrow> w' = w"
  by (auto simp: read_bytes_def split: option.splits node.splits)

lemma read_if_exists_Inr:
  assumes "job_place rt p w" "read_if_exists p w = (Inr b, w')"
  shows "w' = w \<and> config_content p w = b"
proof (cases "node_at (files w) p")
  case None
  with assms show ?thesis
    by (auto simp: read_if_exists_def job_place_def exists_clean config_content_def)
next
  case (Some n)
  with assms have "\<exists>c. b = Some c \<and> read_bytes p w = (Inr c, w')"
    by (auto simp: read_if_exists_def job_place_def exists_clean bindI_Inr_iff)
  with read_bytes_Inr [OF assms(1)] show ?thesis by auto
qed

lemma read_if_exists_state: "read_if_exists p w = (r, w') \<Longrightarrow> w' = w"
  by (auto simp: read_if_exists_def bindI_apply split: prod.splits sum.splits if_splits dest: read_bytes_state)

lemma config_snapshot_of_outcome:
  "config_snapshot_of E p payload w = (r, w') \<Longrightarrow>
     w' = w \<and> (\<forall>s. r = Inr s \<longrightarrow> cs_path s = p \<and> cs_revision s = config_revision E payload \<and>
       load_raw_mapping E payload = Inr (cs_raw s) \<and>
       parse_config (ce_validator E) (files w) p (cs_raw s) = Inr \<lparr>pc_raw = cs_raw s, pc_resolved = cs_config s\<rparr>)"
  by (auto simp: config_snapshot_of_def bindI_apply parse_config_def bindR_def build_pipeline_result_def Let_def
      split: sum.splits prod.splits option.splits if_splits)

text \<open>
  The locked block of a write, in a state of \<open>pre\<close>: it stops in the state it started from, or
  \<open>guard\<close> holds of the content and it commits \<open>raw\<close>. The rules follow the block step by step.
\<close>

definition commits ::
  "config_env \<Rightarrow> path \<Rightarrow> (world \<Rightarrow> bool) \<Rightarrow> (bytes option \<Rightarrow> (string \<times> py) list \<Rightarrow> bool) \<Rightarrow> bytes fio \<Rightarrow> bool" where
  "commits E p pre guard block \<longleftrightarrow> (\<forall>rt w r w'. job_place rt p w \<longrightarrow> pre w \<longrightarrow> block w = (r, w') \<longrightarrow>
     (w' = w \<and> (\<exists>e. r = Inl e)) \<or>
     (\<exists>raw rc. guard (config_content p w) raw \<and> commit_config E p raw (config_payload E raw) w = (rc, w') \<and>
        r = (case rc of Inl e \<Rightarrow> Inl e | Inr _ \<Rightarrow> Inr (config_payload E raw))))"

definition reads :: "path \<Rightarrow> 'a fio \<Rightarrow> ('a \<Rightarrow> world \<Rightarrow> bool) \<Rightarrow> bool" where
  "reads p m R \<longleftrightarrow> (\<forall>rt w r w'. job_place rt p w \<longrightarrow> m w = (r, w') \<longrightarrow> w' = w \<and> (\<forall>x. r = Inr x \<longrightarrow> R x w))"

named_theorems reads_intros \<open>steps that only read\<close>

lemma reads_read_bytes [reads_intros]: "reads p (read_bytes p) (\<lambda>b w. config_content p w = Some b)"
  unfolding reads_def using read_bytes_state read_bytes_Inr by blast

lemma reads_read_if_exists [reads_intros]: "reads p (read_if_exists p) (\<lambda>b w. config_content p w = b)"
  unfolding reads_def using read_if_exists_state read_if_exists_Inr by blast

lemma reads_encode [reads_intros]: "reads p (encode_config E p raw) (\<lambda>b w. b = config_payload E raw)"
  unfolding reads_def using encode_config_state encode_config_Inr by blast

lemma reads_exists [reads_intros]:
  "reads p (see (\<lambda>fs. path_exists fs p)) (\<lambda>b w. \<not> b \<longrightarrow> node_at (files w) p = None)"
  by (auto simp: reads_def job_place_def exists_clean)

lemma reads_liftR [reads_intros]: "reads p (liftR m) (\<lambda>x w. m = Inr x)"
  by (auto simp: reads_def)

lemma commits_bind:
  assumes "reads p m R" "\<And>x. commits E p (\<lambda>w. pre w \<and> R x w) guard (f x)"
  shows "commits E p pre guard (bindI m f)"
  unfolding commits_def
proof (intro allI impI)
  fix rt w r w' assume a: "job_place rt p w" "pre w" "bindI m f w = (r, w')"
  obtain rm wm where m: "m w = (rm, wm)" by fastforce
  with assms(1) a(1) have wm: "wm = w" "\<And>x. rm = Inr x \<Longrightarrow> R x w" by (auto simp: reads_def)
  show "(w' = w \<and> (\<exists>e. r = Inl e)) \<or>
     (\<exists>raw rc. guard (config_content p w) raw \<and> commit_config E p raw (config_payload E raw) w = (rc, w') \<and>
        r = (case rc of Inl e \<Rightarrow> Inl e | Inr _ \<Rightarrow> Inr (config_payload E raw)))"
  proof (cases rm)
    case (Inl e)
    with a(3) m wm show ?thesis by (auto simp: bindI_apply)
  next
    case (Inr x)
    with a(3) m wm(1) have "f x w = (r, w')" by (simp add: bindI_apply)
    with assms(2) [of x, unfolded commits_def] a(1,2) wm(2) [OF Inr] show ?thesis by blast
  qed
qed

lemma commits_assert:
  "commits E p (\<lambda>w. pre w \<and> b) guard m \<Longrightarrow> commits E p pre guard (thenI (assertI b e) m)"
  unfolding commits_def by (cases b) (auto simp: thenI_apply)

lemma commits_tail:
  assumes "\<And>w. pre w \<Longrightarrow> guard (config_content p w) raw \<and> payload = config_payload E raw"
  shows "commits E p pre guard (thenI (commit_config E p raw payload) (ret payload))"
  using assms unfolding commits_def thenI_apply
  by (fastforce split: prod.splits sum.splits)

lemma replace_commits:
  "commits E p (\<lambda>w. True) (\<lambda>c raw'. file_revision E c = expected \<and> raw' = raw)
     (bindI (read_if_exists p) (\<lambda>original.
        thenI (assertI (file_revision E original = expected) (conflict ''config.yaml changed; reload before saving''))
          (bindI (encode_config E p raw) (\<lambda>updated.
           bindI (read_if_exists p) (\<lambda>current.
           thenI (assertI (current = original) (conflict ''config.yaml changed outside the Agency lock''))
             (thenI (commit_config E p raw updated) (ret updated)))))))"
  by (rule commits_bind commits_assert commits_tail reads_intros | simp)+

lemma patch_commits:
  "commits E p (\<lambda>w. True) (\<lambda>c raw. \<exists>b raw0. c = Some b \<and> config_revision E b = expected \<and>
       load_raw_mapping E b = Inr raw0 \<and> patcher raw0 = Inr raw)
     (bindI (read_bytes p) (\<lambda>original.
        thenI (assertI (config_revision E original = expected) (conflict ''config.yaml changed; reload before saving''))
          (bindI (liftR (load_raw_mapping E original)) (\<lambda>raw0.
           bindI (liftR (patcher raw0)) (\<lambda>raw.
           bindI (encode_config E p raw) (\<lambda>updated.
           bindI (read_bytes p) (\<lambda>current.
           thenI (assertI (current = original) (conflict ''config.yaml changed outside the Agency lock''))
             (thenI (commit_config E p raw updated) (ret updated)))))))))"
  by (rule commits_bind commits_assert commits_tail reads_intros | force)+

lemma create_commits:
  "commits E p (\<lambda>w. True) (\<lambda>c raw'. c = None \<and> raw' = raw)
     (bindI (see (\<lambda>fs. path_exists fs p)) (\<lambda>there.
        thenI (assertI (\<not> there) (Exn CFileExistsError (path_str p)))
          (bindI (encode_config E p raw) (\<lambda>payload.
           thenI (commit_config E p raw payload) (ret payload)))))"
  by (rule commits_bind commits_assert commits_tail reads_intros | simp add: config_content_def)+

text \<open>A document that passed every collector.\<close>

definition config_valid :: "(string \<times> py) list \<Rightarrow> bool" where
  "config_valid raw \<longleftrightarrow> raw_ok raw \<and> collect_shape_issues raw = [] \<and> fst ` set raw \<subseteq> set root_keys"

lemma parse_config_valid: "parse_config V fs p raw = Inr c \<Longrightarrow> config_valid raw"
  by (auto simp: parse_config_def build_pipeline_result_def Let_def bindR_Inr_iff config_valid_def
      validate_raw_config_ok collect_schema_issues_Nil split: if_splits sum.splits option.splits prod.splits)

lemma validated_config_valid: "validated_config E p raw w = (Inr c, w') \<Longrightarrow> config_valid raw"
  by (auto simp: validated_config_def bindI_apply bindR_Inr_iff dest: parse_config_valid)

lemma locked_commit_outcome:
  assumes "job_place rt p w" "commits E p (\<lambda>w. True) guard block"
    and "bindI (exclusive_lock (config_lock_path p) True False block) (config_snapshot_of E p) w = (r, w')"
  shows "job_place rt p w' \<and> config_kept rt p (node_at (files w)) w' \<and>
    (\<forall>s. r = Inr s \<longrightarrow> (\<exists>raw. guard (config_content p w) raw \<and> config_valid raw \<and>
       config_content p w' = Some (config_payload E raw) \<and>
       cs_path s = p \<and> cs_revision s = config_revision E (config_payload E raw) \<and>
       load_raw_mapping E (config_payload E raw) = Inr (cs_raw s) \<and>
       parse_config (ce_validator E) (files w') p (cs_raw s) = Inr \<lparr>pc_raw = cs_raw s, pc_resolved = cs_config s\<rparr>)) \<and>
    (config_content p w' = config_content p w \<or>
     (\<exists>raw. guard (config_content p w) raw \<and> config_valid raw \<and>
        config_content p w' = Some (config_payload E raw)))"
proof -
  from assms(1) have pl: "clean rt (files w)" "below rt p" "strict_prefix rt p" "last p \<noteq> []"
      "node_at (files w) (butlast p) = Some Dir"
    by (simp_all add: job_place_def)
  note lk = config_lock_path_safe [OF pl(2-4)]
  have nb: "butlast p \<noteq> config_lock_path p"
    by (metis config_lock_path_def append_butlast_last_id lk(3) append_self_conv not_Cons_self2 butlast_snoc)
  obtain rl wl where l: "exclusive_lock (config_lock_path p) True False block w = (rl, wl)" by fastforce
  obtain w1 where w1: "clean rt (files w1)" "\<forall>x. x \<noteq> config_lock_path p \<longrightarrow> node_at (files w1) x = node_at (files w) x"
    "(\<exists>e. rl = Inl e \<and> wl = w1) \<or> block w1 = (rl, wl)"
    using exclusive_lock_cases [OF pl(1) lk(1) _ l] pl(5) lk(3) by auto
  have pl1: "job_place rt p w1" using pl w1(1,2) nb by (simp add: job_place_def)
  have c1: "config_content p w1 = config_content p w" using w1(2) lk(2) by (simp add: config_content_def)
  have k1: "config_kept rt p (node_at (files w)) w1"
    using w1 pl(5) nb by (auto simp: config_kept_def)
  consider (stop) e where "rl = Inl e" "wl = w1"
    | (commit) raw rc where "guard (config_content p w) raw" "commit_config E p raw (config_payload E raw) w1 = (rc, wl)"
        "rl = (case rc of Inl e \<Rightarrow> Inl e | Inr _ \<Rightarrow> Inr (config_payload E raw))"
    using w1(3) assms(2) pl1 c1 unfolding commits_def by metis
  then show ?thesis
  proof cases
    case stop
    with assms(3) l have "w' = w1" "r = Inl e" by (auto simp: bindI_apply)
    with pl1 c1 k1 show ?thesis by simp
  next
    case (commit raw rc)
    note o = commit_config_outcome [OF pl1 commit(2)]
    have pl2: "job_place rt p wl" using o(1) pl by (simp add: job_place_def config_kept_def)
    have k2: "config_kept rt p (node_at (files w)) wl"
      using o(1) w1(2) unfolding config_kept_def by simp
    have valid: "config_content p wl = config_content p w1 \<or>
        (config_valid raw \<and> config_content p wl = Some (config_payload E raw))"
    proof (cases "config_valid raw")
      case False
      then have "\<not> (\<exists>c x. validated_config E p raw w1 = (Inr c, x))" using validated_config_valid by blast
      then have "wl = w1" using commit(2) validated_config_state
        by (auto simp: commit_config_def bindI_apply split: prod.splits sum.splits)
      then show ?thesis by simp
    next
      case True
      with o(3) show ?thesis by (auto simp: config_content_def)
    qed
    have fin: "w' = wl" using assms(3) l by (auto simp: bindI_apply split: sum.splits dest: config_snapshot_of_outcome)
    have "\<forall>s. r = Inr s \<longrightarrow> config_valid raw \<and> config_content p w' = Some (config_payload E raw) \<and>
       cs_path s = p \<and> cs_revision s = config_revision E (config_payload E raw) \<and>
       load_raw_mapping E (config_payload E raw) = Inr (cs_raw s) \<and>
       parse_config (ce_validator E) (files w') p (cs_raw s) = Inr \<lparr>pc_raw = cs_raw s, pc_resolved = cs_config s\<rparr>"
    proof (cases rc)
      case (Inl e)
      with commit(3) assms(3) l show ?thesis by (auto simp: bindI_apply)
    next
      case (Inr u)
      with o(2) have v: "config_content p wl = Some (config_payload E raw)" "config_valid raw"
        by (auto simp: config_content_def dest: validated_config_valid)
      from Inr commit(3) assms(3) l have "config_snapshot_of E p (config_payload E raw) wl = (r, w')"
        by (simp add: bindI_apply)
      with v fin config_snapshot_of_outcome show ?thesis by blast
    qed
    with pl2 k2 valid c1 commit(1) fin show ?thesis by auto
  qed
qed

lemmas config_replace_facts = locked_commit_outcome [OF _ replace_commits, folded config_replace_def]
lemmas config_patch_facts = locked_commit_outcome [OF _ patch_commits, folded config_patch_def]
lemmas config_create_facts = locked_commit_outcome [OF _ create_commits, folded config_create_def]

text \<open>
  C7 - Replacing the configuration is a compare-and-set, whatever fault or crash interrupts it. If the
  call returns, the file had the expected revision, the document passed every check, the file now
  holds its text, and the snapshot is read back from it. In every case the file holds what it
  held or, if the revision matched, the new text; every other file outside the temporary names
  and the lock is as it was.
\<close>

theorem config_replace_compare_and_set:
  assumes "job_place rt p w" "config_replace E p expected raw w = (r, w')"
  shows "(\<forall>s. r = Inr s \<longrightarrow> file_revision E (config_content p w) = expected \<and> config_valid raw \<and>
      config_content p w' = Some (config_payload E raw) \<and>
      cs_revision s = config_revision E (config_payload E raw) \<and>
      (codec_ok (ce_yaml E) \<and> json_ok (PDict raw) \<longrightarrow> cs_raw s = raw)) \<and>
    (config_content p w' = config_content p w \<or>
      (file_revision E (config_content p w) = expected \<and> config_valid raw \<and>
       config_content p w' = Some (config_payload E raw))) \<and>
    config_kept rt p (node_at (files w)) w'"
proof -
  have "load_raw_mapping E (config_payload E raw) = Inr raw" if "codec_ok (ce_yaml E)" "json_ok (PDict raw)"
    using codec_okD [OF that] by (simp add: load_raw_mapping_def config_payload_def)
  with config_replace_facts [OF assms] show ?thesis by auto
qed

definition demo_env :: config_env where
  "demo_env = \<lparr>ce_yaml = json_codec, ce_hash = id, ce_validator = sample_validator, ce_access = (\<lambda>fs p w. True)\<rparr>"

definition config_world :: "fate list \<Rightarrow> world" where
  "config_world sc = \<lparr>files = [([''etc''], Dir), ([''etc'', ''lib''], Dir)], sched = sc, busy = []\<rparr>"

lemma config_world_place: "job_place [''etc''] [''etc'', ''config.yaml''] (config_world sc)"
proof -
  have "clean [''etc''] (files (config_world sc))"
    by (rule clean_checkI) (simp add: clean_check_def config_world_def node_at_def)
  then show ?thesis
    by (simp add: job_place_def below_def strict_prefix_def config_world_def node_at_def)
qed

definition wins :: "config_env \<Rightarrow> path \<Rightarrow> string \<Rightarrow> (string \<times> py) list \<Rightarrow> world \<Rightarrow> bool" where
  "wins E p r raw w \<longleftrightarrow> (case fst (config_replace E p r raw w) of Inr s \<Rightarrow> True | Inl e \<Rightarrow> False)"

lemma winsI: "config_replace E p r raw w = (Inr s, w') \<Longrightarrow> wins E p r raw w"
  by (simp add: wins_def)

lemma winsD: "wins E p r raw w \<Longrightarrow> \<exists>s w'. config_replace E p r raw w = (Inr s, w')"
  by (cases "config_replace E p r raw w") (auto simp: wins_def split: sum.splits)

lemma demo_wins: "wins demo_env [''etc'', ''config.yaml''] ''absent'' sample_raw (config_world [])"
  by code_simp

lemma config_replace_compare_and_set_witness:
  "\<exists>s w'. config_replace demo_env [''etc'', ''config.yaml''] ''absent'' sample_raw (config_world []) = (Inr s, w') \<and>
     config_content [''etc'', ''config.yaml''] w' = Some (json (PDict sample_raw))"
proof -
  let ?p = "[''etc'', ''config.yaml'']"
  from winsD [OF demo_wins] obtain s w'
    where run: "config_replace demo_env ?p ''absent'' sample_raw (config_world []) = (Inr s, w')" by blast
  have "config_payload demo_env sample_raw = json (PDict sample_raw)" by code_simp
  with config_replace_compare_and_set [OF config_world_place run] run show ?thesis by auto
qed

section \<open>Two writers\<close>

definition after_replace :: "config_env \<Rightarrow> path \<Rightarrow> string \<Rightarrow> (string \<times> py) list \<Rightarrow> world \<Rightarrow> world" where
  "after_replace E p r raw w = snd (config_replace E p r raw w)"

interpretation config_cas: compare_and_set "config_content p" "config_payload E" "file_revision E"
  "job_place rt p" "wins E p" "after_replace E p" for E rt p
proof unfold_locales
  fix s r d
  assume pl: "job_place rt p s"
  obtain res s' where run: "config_replace E p r d s = (res, s')" by fastforce
  then have a: "after_replace E p r d s = s'" by (simp add: after_replace_def)
  note facts = config_replace_facts [OF pl run]
  show "job_place rt p (after_replace E p r d s)" using facts a by blast
  show "config_content p (after_replace E p r d s) = config_content p s" if "file_revision E (config_content p s) \<noteq> r"
    using facts that a by auto
  assume "wins E p r d s"
  with winsD run obtain x where "res = Inr x" by fastforce
  with facts a show "file_revision E (config_content p s) = r"
    and "config_content p (after_replace E p r d s) = Some (config_payload E d)" by auto
qed

text \<open>
  C8 - No update of the configuration is lost. Two editors start from the same revision; when the
  first one's replace returns and changes the revision, the second one's does not return, and neither do
  any later ones from that revision: the file keeps what the first one wrote.
\<close>

theorem config_no_lost_update:
  assumes "job_place rt p w" "config_replace E p base raw w = (Inr s, w')"
    and "config_revision E (config_payload E raw) \<noteq> base"
  shows "config_content p (fold (\<lambda>d v. snd (config_replace E p base d v)) others w') = Some (config_payload E raw) \<and>
    (\<forall>x v t. config_replace E p base x (fold (\<lambda>d v. snd (config_replace E p base d v)) others w') \<noteq> (Inr t, v))"
proof -
  let ?after = "\<lambda>d v. snd (config_replace E p base d v)"
  have e: "after_replace E p base = ?after" by (simp add: fun_eq_iff after_replace_def)
  have win: "wins E p base raw w" and w': "after_replace E p base raw w = w'"
    using assms(2) by (simp_all add: wins_def after_replace_def)
  have c: "config_content p w' = Some (config_payload E raw)" and pl: "job_place rt p w'"
    using config_cas.won_content [OF assms(1) win] config_cas.place_kept [OF assms(1), of E base raw] w' by simp_all
  have stale: "file_revision E (config_content p w') \<noteq> base" using c assms(3) by (simp add: file_revision_def)
  note later = config_cas.stale_writers_lose [OF pl stale, of others, unfolded e]
  have "\<not> wins E p base x (fold ?after others w')" for x
    using config_cas.won_revision [of rt p "fold ?after others w'" E base x] later stale by auto
  then have "config_replace E p base x (fold ?after others w') \<noteq> (Inr t, v)" for x v t
    using winsI by blast
  with later c show ?thesis by simp
qed

lemma config_no_lost_update_witness:
  "\<exists>s w'. config_replace demo_env [''etc'', ''config.yaml''] ''absent'' sample_raw (config_world []) = (Inr s, w') \<and>
     (\<forall>x v t. config_replace demo_env [''etc'', ''config.yaml''] ''absent'' x w' \<noteq> (Inr t, v))"
proof -
  let ?p = "[''etc'', ''config.yaml'']"
  from winsD [OF demo_wins] obtain s w'
    where run: "config_replace demo_env ?p ''absent'' sample_raw (config_world []) = (Inr s, w')" by blast
  have "config_revision demo_env (config_payload demo_env sample_raw) \<noteq> ''absent''" by code_simp
  from config_no_lost_update [OF config_world_place run this, of "[]"] run show ?thesis by auto
qed

section \<open>Any sequence of operations\<close>

datatype config_op =
    CLoad
  | CInspect
  | CCreate "(string \<times> py) list"
  | CReplace string "(string \<times> py) list"
  | CPatch string "(string \<times> py) list \<Rightarrow> (string \<times> py) list res"

fun run_config_op :: "config_env \<Rightarrow> path \<Rightarrow> config_op \<Rightarrow> world \<Rightarrow> world" where
  "run_config_op E p CLoad w = snd (config_load E p True w)"
| "run_config_op E p CInspect w = snd (config_inspect E p True w)"
| "run_config_op E p (CCreate raw) w = snd (config_create E p raw w)"
| "run_config_op E p (CReplace r raw) w = snd (config_replace E p r raw w)"
| "run_config_op E p (CPatch r f) w = snd (config_patch E p r f w)"

inductive config_edge :: "config_env \<Rightarrow> bytes option \<Rightarrow> bytes option \<Rightarrow> bool" for E where
  stored: "config_valid raw \<Longrightarrow> config_edge E c (Some (config_payload E raw))"

inductive_cases config_edgeE: "config_edge E c c'"

lemma config_edge_step: "config_valid raw \<Longrightarrow> (config_edge E)\<^sup>*\<^sup>* c (Some (config_payload E raw))"
  by (rule r_into_rtranclp) (rule config_edge.stored)

lemma locked_read_keeps:
  assumes "job_place rt p w" "exclusive_lock (config_lock_path p) wait False m w = (r, w')"
    and "\<And>v r v'. m v = (r, v') \<Longrightarrow> v' = v"
  shows "job_place rt p w' \<and> config_content p w' = config_content p w"
proof -
  from assms(1) have pl: "clean rt (files w)" "below rt p" "strict_prefix rt p" "last p \<noteq> []"
      "node_at (files w) (butlast p) = Some Dir"
    by (simp_all add: job_place_def)
  note lk = config_lock_path_safe [OF pl(2-4)]
  have nb: "butlast p \<noteq> config_lock_path p"
    by (metis config_lock_path_def append_butlast_last_id lk(3) append_self_conv not_Cons_self2 butlast_snoc)
  obtain w1 where w1: "clean rt (files w1)" "\<forall>x. x \<noteq> config_lock_path p \<longrightarrow> node_at (files w1) x = node_at (files w) x"
    "(\<exists>e. r = Inl e \<and> w' = w1) \<or> m w1 = (r, w')"
    using exclusive_lock_cases [OF pl(1) lk(1) _ assms(2)] pl(5) lk(3) by auto
  from w1(3) assms(3) have "w' = w1" by blast
  with w1(1,2) pl lk(2) nb show ?thesis by (simp add: job_place_def config_content_def)
qed

lemma config_load_keeps:
  "job_place rt p w \<Longrightarrow> config_load E p wait w = (r, w') \<Longrightarrow>
     job_place rt p w' \<and> config_content p w' = config_content p w"
  unfolding config_load_def bindI_apply
  by (auto split: prod.splits sum.splits dest!: config_snapshot_of_outcome
      dest: locked_read_keeps [OF _ _ read_bytes_state])

lemma config_inspect_keeps:
  "job_place rt p w \<Longrightarrow> config_inspect E p wait w = (r, w') \<Longrightarrow>
     job_place rt p w' \<and> config_content p w' = config_content p w"
  unfolding config_inspect_def bindI_apply
  by (auto split: prod.splits sum.splits dest: locked_read_keeps [OF _ _ read_if_exists_state])

interpretation config_ops: simulation "\<lambda>w c. job_place rt p w \<and> config_content p w = c"
  "run_config_op E p" "config_edge E" "\<lambda>op. True" for E rt p
proof unfold_locales
  fix w c op assume w: "job_place rt p w \<and> config_content p w = c"
  then have pl: "job_place rt p w" by simp
  show "\<exists>c'. (config_edge E)\<^sup>*\<^sup>* c c' \<and> job_place rt p (run_config_op E p op w) \<and>
      config_content p (run_config_op E p op w) = c'"
  proof (cases op)
    case CLoad
    then show ?thesis using w config_load_keeps [OF pl, of E True]
      by (cases "config_load E p True w") auto
  next
    case CInspect
    then show ?thesis using w config_inspect_keeps [OF pl, of E True]
      by (cases "config_inspect E p True w") auto
  next
    case (CCreate raw)
    obtain r w2 where run: "config_create E p raw w = (r, w2)" by fastforce
    with config_create_facts [OF pl run] w CCreate show ?thesis by (auto simp: config_edge_step)
  next
    case (CReplace e raw)
    obtain r w2 where run: "config_replace E p e raw w = (r, w2)" by fastforce
    with config_replace_facts [OF pl run] w CReplace show ?thesis by (auto simp: config_edge_step)
  next
    case (CPatch e f)
    obtain r w2 where run: "config_patch E p e f w = (r, w2)" by fastforce
    with config_patch_facts [OF pl run] w CPatch show ?thesis by (auto simp: config_edge_step)
  qed
qed



end
