(* ===== verification/GroupOperations.thy ===== *)
theory GroupOperations
  imports ConfigStore
begin

text \<open>
  \<open>revision_bound_group_operation\<close> of \<^verbatim>\<open>agency/jobs/store.py\<close>: an operation on groups runs under
  their operation locks, with a configuration that has not moved since the locks were chosen.
\<close>

definition group_path_identity :: "fs \<Rightarrow> config_snapshot \<Rightarrow> string list \<Rightarrow> (string \<times> path) list res" where
  "group_path_identity fs s ids =
     mapR (\<lambda>gid. case map_of (ac_groups (cs_config s)) gid of
             None \<Rightarrow> Inl (value_error (''Unknown group: '' @ gid))
           | Some g \<Rightarrow> Inr (gid, resolve_text fs (gc_path g))) ids"

definition relevant_ids :: "bool \<Rightarrow> string list \<Rightarrow> config_snapshot \<Rightarrow> string list" where
  "relevant_ids all_groups ids s =
     (if all_groups then sort (map fst (ac_groups (cs_config s))) else sort (remdups ids))"

definition check_unmoved ::
  "config_snapshot \<Rightarrow> string list \<Rightarrow> (string \<times> path) list \<Rightarrow> string list \<Rightarrow> config_snapshot \<Rightarrow> unit fio" where
  "check_unmoved initial ids identity locked_ids locked =
     (let moved = conflict ''config group paths changed while acquiring operation locks'' in
      if cs_revision locked \<noteq> cs_revision initial \<or> locked_ids \<noteq> ids then raise moved
      else bindI (see (\<lambda>fs. group_path_identity fs locked locked_ids)) (\<lambda>r.
           bindI (liftR r) (\<lambda>now. assertI (now = identity) moved)))"

definition revision_bound_group_operation ::
  "config_env \<Rightarrow> path \<Rightarrow> string list \<Rightarrow> path list \<Rightarrow> bool \<Rightarrow> string option \<Rightarrow> (config_snapshot \<Rightarrow> 'a fio) \<Rightarrow> 'a fio" where
  "revision_bound_group_operation E p group_ids proposed_paths all_groups expected body =
     bindI (config_load E p True) (\<lambda>initial.
     let ids = relevant_ids all_groups group_ids initial in
     bindI (see (\<lambda>fs. group_path_identity fs initial ids)) (\<lambda>r.
     bindI (liftR r) (\<lambda>identity.
     acquire_group_operation_locks (map snd identity @ proposed_paths)
       (bindI (config_load E p True) (\<lambda>locked.
        thenI (check_unmoved initial ids identity (if all_groups then relevant_ids True [] locked else ids) locked)
          (thenI (assertI (expected = None \<or> expected = Some (cs_revision locked))
                   (conflict ''config.yaml changed; reload before saving''))
             (body locked)))))))"

lemma with_locks_Inr: "with_locks ps m w = (Inr x, w') \<Longrightarrow> \<exists>w1. m w1 = (Inr x, w')"
proof (induction ps arbitrary: w)
  case Nil
  then show ?case by (auto simp: with_locks_def)
next
  case (Cons p ps)
  from Cons.prems have "\<exists>v. with_locks ps m v = (Inr x, w')"
    by (auto simp: with_locks_def exclusive_lock_def thenI_Inr_iff bindI_Inr_iff split: if_splits)
  with Cons.IH show ?case by blast
qed

lemma mapR_Inr_map_of:
  "mapR f xs = Inr ys \<Longrightarrow> x \<in> set xs \<Longrightarrow> \<exists>y. f x = Inr y \<and> y \<in> set ys"
  by (induction xs arbitrary: ys) (auto simp: bindR_Inr_iff)


definition bound_env :: config_env where
  "bound_env = demo_env\<lparr>ce_yaml := \<lparr>dump = (\<lambda>v. ''cfg''), load = (\<lambda>s. Inr (PDict sample_raw))\<rparr>\<rparr>"

definition bound_world :: world where
  "bound_world = \<lparr>files = [([''etc''], Dir), ([''etc'', ''config.yaml''], File ''cfg'')], sched = [], busy = []\<rparr>"

definition bound_run :: "path list res" where
  "bound_run = fst (revision_bound_group_operation bound_env [''etc'', ''config.yaml''] [] [[''g'']] False (Some ''cfg'')
     (\<lambda>s. see (map fst)) bound_world)"

lemma bound_run_works: "(case bound_run of Inr ps \<Rightarrow> [''g'', ''locks'', ''.operations.lock''] \<in> set ps | Inl e \<Rightarrow> False)"
  by code_simp


end
