(* ===== verification/Patches.thy ===== *)
theory Patches
  imports ConfigStore
begin

text \<open>
  \<^verbatim>\<open>agency/configuration/patches.py\<close>: the edits of the configuration document. An edit works on
  a copy of the document and returns it changed or raises; the store commits the result
  (\<^const>\<open>config_patch\<close>). Documents are association lists in insertion order, so an updated key keeps its
  place and a new one goes to the end, as in a Python dictionary. Names are compared as decoded values.
\<close>

type_synonym doc = "(string \<times> py) list"

section \<open>The patches\<close>

record tool_policy =
  tp_mode :: string
  tp_names :: "string list"

record agency_settings_patch =
  as_title :: string
  as_default_group :: string
  as_ai_backend :: string
  as_theme :: string
  as_dispatch_interval :: int
  as_agent_library :: string
  as_compilation_cache :: string
  as_memory_store :: string

record group_settings_patch =
  gs_name :: string
  gs_workspace_path :: string
  gs_path :: string
  gs_default_integration :: string

record group_dispatch_patch =
  gd_enabled :: bool
  gd_daily_limit :: int

text \<open>\<open>GroupSettingsStatePatch\<close> and \<open>GroupCreateStatePatch\<close> have the same fields.\<close>

record group_state_patch = group_settings_patch +
  gt_runtime_timeout :: int
  gt_sandbox_mode :: string
  gt_sandbox_roots :: "string list"
  gt_tool_mode :: string
  gt_tool_names :: "string list"
  gt_dispatch_enabled :: bool
  gt_dispatch_daily_limit :: int
  gt_workspaces :: "doc list"

record agent_profile_patch =
  ap_display_name :: string
  ap_title :: string
  ap_emoji :: string
  ap_can_write :: bool

record agent_runtime_patch =
  ar_timeout :: "int option"
  ar_additional_roots :: "string list"
  ar_tools :: "tool_policy option"

section \<open>Editing documents\<close>

definition str_list :: "string list \<Rightarrow> py" where
  "str_list xs = PList (map PStr xs)"

text \<open>\<open>v = d.setdefault(k, default)\<close>, then \<open>f\<close> changes \<open>v\<close> in place.\<close>

definition edit_key :: "string \<Rightarrow> py \<Rightarrow> (py \<Rightarrow> py res) \<Rightarrow> doc \<Rightarrow> doc res" where
  "edit_key k dflt f d = bindR (f (get_or d k dflt)) (\<lambda>v. Inr (AList.update k v d))"

text \<open>\<open>if not isinstance(v, dict): raise TypeError(...)\<close>, then \<open>f\<close> changes the mapping.\<close>

fun edit_mapping :: "string \<Rightarrow> (doc \<Rightarrow> doc res) \<Rightarrow> py \<Rightarrow> py res" where
  "edit_mapping text f (PDict d) = bindR (f d) (\<lambda>d'. Inr (PDict d'))"
| "edit_mapping text f _ = Inl (type_error text)"

text \<open>\<open>mapping.update(...)\<close> for the mapping under a key.\<close>

definition merge_key :: "string \<Rightarrow> string \<Rightarrow> doc \<Rightarrow> doc \<Rightarrow> doc res" where
  "merge_key text k new d = edit_key k (PDict []) (edit_mapping text (\<lambda>m. Inr (dict_update m new))) d"

definition clear_known_keys :: "string list \<Rightarrow> doc \<Rightarrow> doc" where
  "clear_known_keys ks d = filter (\<lambda>(k, v). k \<notin> set ks) d"

definition on_groups :: "(doc \<Rightarrow> doc res) \<Rightarrow> doc \<Rightarrow> doc res" where
  "on_groups f raw = edit_key ''groups'' (PDict []) (edit_mapping ''groups must be a mapping'' f) raw"

definition on_group :: "string \<Rightarrow> (doc \<Rightarrow> doc res) \<Rightarrow> doc \<Rightarrow> doc res" where
  "on_group gid f raw =
     on_groups (\<lambda>gs. bindR (dict_item gs gid) (\<lambda>v.
       bindR (edit_mapping (''groups.'' @ gid @ '' must be a mapping'') f v) (\<lambda>v'.
         Inr (AList.update gid v' gs)))) raw"

definition on_agents :: "(py list \<Rightarrow> py list res) \<Rightarrow> doc \<Rightarrow> doc res" where
  "on_agents f g =
     edit_key ''agents'' (PList []) (\<lambda>v. case v of
         PList xs \<Rightarrow> bindR (f xs) (\<lambda>ys. Inr (PList ys))
       | _ \<Rightarrow> Inl (type_error ''agents must be a list'')) g"

text \<open>\<open>isinstance(entry, dict) and entry.get("name") == name\<close>\<close>

definition named :: "py \<Rightarrow> py \<Rightarrow> bool" where
  "named name v \<longleftrightarrow> (case v of PDict e \<Rightarrow> get e ''name'' = name | _ \<Rightarrow> False)"

fun edit_first :: "string \<Rightarrow> (doc \<Rightarrow> doc res) \<Rightarrow> py list \<Rightarrow> py list res" where
  "edit_first aid f [] = Inl (Exn CKeyError aid)"
| "edit_first aid f (x # xs) =
     (if named (PStr aid) x then bindR (f (entries x)) (\<lambda>e. Inr (PDict e # xs))
      else bindR (edit_first aid f xs) (\<lambda>ys. Inr (x # ys)))"

fun remove_first :: "string \<Rightarrow> py list \<Rightarrow> py list res" where
  "remove_first aid [] = Inl (Exn CKeyError aid)"
| "remove_first aid (x # xs) =
     (if named (PStr aid) x then Inr xs else bindR (remove_first aid xs) (\<lambda>ys. Inr (x # ys)))"

definition on_agent :: "string \<Rightarrow> string \<Rightarrow> (doc \<Rightarrow> doc res) \<Rightarrow> doc \<Rightarrow> doc res" where
  "on_agent gid aid f raw = on_group gid (on_agents (edit_first aid f)) raw"

definition tool_mapping :: "tool_policy option \<Rightarrow> doc" where
  "tool_mapping policy =
     (case policy of None \<Rightarrow> [(''mode'', PStr ''all'')]
      | Some t \<Rightarrow> (''mode'', PStr (tp_mode t)) #
          (if tp_mode t = ''allowlist'' then [(''names'', str_list (tp_names t))] else []))"

section \<open>The edits\<close>

text \<open>A value that is not a mapping refuses item assignment with \<open>TypeError\<close>.\<close>

definition apply_agency_settings :: "agency_settings_patch \<Rightarrow> doc \<Rightarrow> doc res" where
  "apply_agency_settings s raw =
     edit_key ''agency'' (PDict []) (edit_mapping ''object does not support item assignment'' (\<lambda>agency.
       merge_key ''object does not support item assignment'' ''dispatch'' [(''interval'', PInt (as_dispatch_interval s))]
         (dict_update agency
           [(''title'', PStr (as_title s)), (''default_group'', PStr (as_default_group s)),
            (''ai_backend'', PStr (as_ai_backend s)), (''theme'', PStr (as_theme s)),
            (''agent_library'', PStr (as_agent_library s)), (''compilation_cache'', PStr (as_compilation_cache s)),
            (''memory_store'', PStr (as_memory_store s))]))) raw"

definition settings_fields :: "'a group_settings_patch_scheme \<Rightarrow> doc" where
  "settings_fields s =
     [(''name'', PStr (gs_name s)), (''workspace_path'', PStr (gs_workspace_path s)),
      (''path'', PStr (gs_path s)), (''default_integration'', PStr (gs_default_integration s))]"

definition add_group :: "string \<Rightarrow> doc \<Rightarrow> doc \<Rightarrow> doc res" where
  "add_group gid g raw =
     on_groups (\<lambda>gs. if gid \<in> fst ` set gs then Inl (value_error (''Group already exists: '' @ gid))
                     else Inr (AList.update gid (PDict g) gs)) raw"

definition apply_create_group :: "string \<Rightarrow> group_settings_patch \<Rightarrow> doc \<Rightarrow> doc res" where
  "apply_create_group gid s raw = add_group gid (settings_fields s @ [(''agents'', PList [])]) raw"

definition apply_create_group_state :: "string \<Rightarrow> group_state_patch \<Rightarrow> doc \<Rightarrow> doc res" where
  "apply_create_group_state gid s raw =
     add_group gid (settings_fields s @
       [(''runtime'', PDict
           [(''timeout'', PInt (gt_runtime_timeout s)),
            (''sandbox'', PDict [(''mode'', PStr (gt_sandbox_mode s)), (''roots'', str_list (gt_sandbox_roots s))]),
            (''tools'', PDict [(''mode'', PStr (gt_tool_mode s)), (''names'', str_list (gt_tool_names s))])]),
        (''dispatch'', PDict [(''enabled'', PBool (gt_dispatch_enabled s)), (''daily_limit'', PInt (gt_dispatch_daily_limit s))]),
        (''workspaces'', PList (map PDict (gt_workspaces s))),
        (''agents'', PList [])]) raw"

definition apply_group_settings :: "string \<Rightarrow> group_settings_patch \<Rightarrow> doc \<Rightarrow> doc res" where
  "apply_group_settings gid s raw = on_group gid (\<lambda>g. Inr (dict_update g (settings_fields s))) raw"

definition apply_group_dispatch :: "string \<Rightarrow> group_dispatch_patch \<Rightarrow> doc \<Rightarrow> doc res" where
  "apply_group_dispatch gid s raw =
     on_group gid (\<lambda>g. Inr (AList.update ''dispatch''
       (PDict [(''enabled'', PBool (gd_enabled s)), (''daily_limit'', PInt (gd_daily_limit s))]) g)) raw"

definition apply_group_settings_state :: "string \<Rightarrow> group_state_patch \<Rightarrow> doc \<Rightarrow> doc res" where
  "apply_group_settings_state gid s raw =
     on_group gid (\<lambda>g.
       bindR (edit_key ''runtime'' (PDict []) (edit_mapping (''groups.'' @ gid @ ''.runtime must be a mapping'') (\<lambda>runtime.
                bindR (merge_key (''groups.'' @ gid @ ''.runtime.sandbox must be a mapping'') ''sandbox''
                         [(''mode'', PStr (gt_sandbox_mode s)), (''roots'', str_list (gt_sandbox_roots s))]
                         (AList.update ''timeout'' (PInt (gt_runtime_timeout s)) runtime)) (\<lambda>runtime.
                merge_key (''groups.'' @ gid @ ''.runtime.tools must be a mapping'') ''tools''
                  [(''mode'', PStr (gt_tool_mode s)), (''names'', str_list (gt_tool_names s))] runtime)))
              (dict_update g (settings_fields s))) (\<lambda>g.
       bindR (merge_key (''groups.'' @ gid @ ''.dispatch must be a mapping'') ''dispatch''
                [(''enabled'', PBool (gt_dispatch_enabled s)), (''daily_limit'', PInt (gt_dispatch_daily_limit s))] g) (\<lambda>g.
       Inr (AList.update ''workspaces'' (PList (map PDict (gt_workspaces s))) g)))) raw"

definition apply_create_agent :: "string \<Rightarrow> doc \<Rightarrow> doc \<Rightarrow> doc res" where
  "apply_create_agent gid agent raw =
     on_group gid (on_agents (\<lambda>xs.
       if list_ex (named (get agent ''name'')) xs
       then Inl (value_error (''Agent already exists: '' @ str_of (get agent ''name'')))
       else Inr (xs @ [PDict agent]))) raw"

definition agent_text :: "string \<Rightarrow> string \<Rightarrow> string \<Rightarrow> string" where
  "agent_text gid aid field = ''groups.'' @ gid @ ''.agents.'' @ aid @ ''.'' @ field @ '' must be a mapping''"

definition apply_agent_profile :: "string \<Rightarrow> string \<Rightarrow> agent_profile_patch \<Rightarrow> doc \<Rightarrow> doc res" where
  "apply_agent_profile gid aid s raw =
     on_agent gid aid (\<lambda>a.
       bindR (merge_key (agent_text gid aid ''identity'') ''identity''
                [(''display_name'', PStr (ap_display_name s)), (''title'', PStr (ap_title s)), (''emoji'', PStr (ap_emoji s))] a) (\<lambda>a.
       merge_key (agent_text gid aid ''capabilities'') ''capabilities'' [(''write'', PBool (ap_can_write s))] a)) raw"

definition runtime_timeout :: "int option \<Rightarrow> doc \<Rightarrow> doc" where
  "runtime_timeout t runtime =
     (case t of None \<Rightarrow> clear_known_keys [''timeout''] runtime | Some n \<Rightarrow> AList.update ''timeout'' (PInt n) runtime)"

definition runtime_tools_edit :: "tool_policy option \<Rightarrow> doc \<Rightarrow> doc" where
  "runtime_tools_edit policy tools =
     (case policy of
        None \<Rightarrow> clear_known_keys [''mode'', ''names''] tools
      | Some t \<Rightarrow>
          let merged = dict_update tools (tool_mapping policy) in
          if tp_mode t \<noteq> ''allowlist'' then clear_known_keys [''names''] merged else merged)"

text \<open>
  The sandbox mapping is merged before the tools are checked and its roots are set or cleared at
  the end; the mapping itself stays in place in between.
\<close>

definition apply_agent_runtime :: "string \<Rightarrow> string \<Rightarrow> agent_runtime_patch \<Rightarrow> doc \<Rightarrow> doc res" where
  "apply_agent_runtime gid aid s raw =
     on_agent gid aid (edit_key ''runtime'' (PDict []) (edit_mapping (agent_text gid aid ''runtime'') (\<lambda>runtime.
       bindR (merge_key (agent_text gid aid ''runtime.sandbox'') ''sandbox''
                [(''additional_roots'', str_list (ar_additional_roots s))] (runtime_timeout (ar_timeout s) runtime)) (\<lambda>runtime.
       bindR (edit_key ''tools'' (PDict []) (edit_mapping (agent_text gid aid ''runtime.tools'')
                (\<lambda>tools. Inr (runtime_tools_edit (ar_tools s) tools))) runtime) (\<lambda>runtime.
       edit_key ''sandbox'' (PDict []) (edit_mapping (agent_text gid aid ''runtime.sandbox'') (\<lambda>sandbox.
         Inr (if ar_additional_roots s \<noteq> []
              then AList.update ''additional_roots'' (str_list (ar_additional_roots s)) sandbox
              else clear_known_keys [''additional_roots''] sandbox))) runtime))))) raw"

definition apply_agent_routines :: "string \<Rightarrow> string \<Rightarrow> doc list \<Rightarrow> doc \<Rightarrow> doc res" where
  "apply_agent_routines gid aid routines raw =
     on_agent gid aid (\<lambda>a. Inr (AList.update ''routines'' (PList (map PDict routines)) a)) raw"

definition apply_remove_agent :: "string \<Rightarrow> string \<Rightarrow> doc \<Rightarrow> doc res" where
  "apply_remove_agent gid aid raw = on_group gid (on_agents (remove_first aid)) raw"

definition apply_memory_channels :: "(string \<times> doc) list \<Rightarrow> doc \<Rightarrow> doc res" where
  "apply_memory_channels channels raw =
     edit_key ''memory'' (PDict []) (edit_mapping ''object does not support item assignment'' (\<lambda>m.
       Inr (AList.update ''channels'' (PDict (map (\<lambda>(k, d). (k, PDict d)) channels)) m))) raw"

definition apply_dismiss_tip :: "string \<Rightarrow> doc \<Rightarrow> doc res" where
  "apply_dismiss_tip tip raw =
     edit_key ''agency'' (PDict []) (\<lambda>v. case v of
         PDict agency \<Rightarrow>
           let dismissed = items (get agency ''tips_dismissed'') in
           Inr (PDict (AList.update ''tips_dismissed''
             (PList (if PStr tip \<in> set dismissed then dismissed else dismissed @ [PStr tip])) agency))
       | _ \<Rightarrow> Inl (Exn CAttributeError ''object has no attribute get'')) raw"

definition apply_hide_all_tips :: "doc \<Rightarrow> doc res" where
  "apply_hide_all_tips raw =
     edit_key ''agency'' (PDict []) (edit_mapping ''object does not support item assignment'' (\<lambda>agency.
       Inr (AList.update ''show_tips'' (PBool False) agency))) raw"

text \<open>\<open>next(iter(groups), "")\<close> is the first remaining group.\<close>

definition apply_delete_group :: "string \<Rightarrow> doc \<Rightarrow> doc res" where
  "apply_delete_group gid raw =
     bindR (on_groups (\<lambda>gs. bindR (dict_item gs gid) (\<lambda>v. Inr (AList.delete gid gs))) raw) (\<lambda>raw1.
     edit_key ''agency'' (PDict []) (\<lambda>v. case v of
         PDict agency \<Rightarrow>
           Inr (PDict (if get agency ''default_group'' = PStr gid
                       then AList.update ''default_group''
                              (PStr (case entries (get raw1 ''groups'') of [] \<Rightarrow> [] | (g, x) # gs \<Rightarrow> g)) agency
                       else agency))
       | _ \<Rightarrow> Inl (Exn CAttributeError ''object has no attribute get'')) raw1)"

datatype patch_op =
    PatchAgencySettings agency_settings_patch
  | CreateGroup string group_settings_patch
  | CreateGroupState string group_state_patch
  | PatchGroupSettings string group_settings_patch
  | PatchGroupDispatch string group_dispatch_patch
  | PatchGroupSettingsState string group_state_patch
  | CreateAgentInstance string doc
  | PatchAgentProfile string string agent_profile_patch
  | PatchAgentRuntime string string agent_runtime_patch
  | ReplaceAgentRoutines string string "doc list"
  | RemoveAgentInstance string string
  | PatchMemoryChannels "(string \<times> doc) list"
  | DismissTip string
  | HideAllTips
  | DeleteGroup string

fun apply_patch :: "patch_op \<Rightarrow> doc \<Rightarrow> doc res" where
  "apply_patch (PatchAgencySettings s) = apply_agency_settings s"
| "apply_patch (CreateGroup gid s) = apply_create_group gid s"
| "apply_patch (CreateGroupState gid s) = apply_create_group_state gid s"
| "apply_patch (PatchGroupSettings gid s) = apply_group_settings gid s"
| "apply_patch (PatchGroupDispatch gid s) = apply_group_dispatch gid s"
| "apply_patch (PatchGroupSettingsState gid s) = apply_group_settings_state gid s"
| "apply_patch (CreateAgentInstance gid a) = apply_create_agent gid a"
| "apply_patch (PatchAgentProfile gid aid s) = apply_agent_profile gid aid s"
| "apply_patch (PatchAgentRuntime gid aid s) = apply_agent_runtime gid aid s"
| "apply_patch (ReplaceAgentRoutines gid aid rs) = apply_agent_routines gid aid rs"
| "apply_patch (RemoveAgentInstance gid aid) = apply_remove_agent gid aid"
| "apply_patch (PatchMemoryChannels cs) = apply_memory_channels cs"
| "apply_patch (DismissTip t) = apply_dismiss_tip t"
| "apply_patch HideAllTips = apply_hide_all_tips"
| "apply_patch (DeleteGroup gid) = apply_delete_group gid"

definition run_patch :: "config_env \<Rightarrow> path \<Rightarrow> string \<Rightarrow> patch_op \<Rightarrow> config_snapshot fio" where
  "run_patch E p expected op = config_patch E p expected (apply_patch op)"

section \<open>What an edit leaves alone\<close>

definition groups_of :: "doc \<Rightarrow> doc" where
  "groups_of raw = entries (get raw ''groups'')"

definition group_of :: "doc \<Rightarrow> string \<Rightarrow> doc" where
  "group_of raw gid = entries (get (groups_of raw) gid)"

definition agents_of :: "doc \<Rightarrow> string \<Rightarrow> py list" where
  "agents_of raw gid = items (get (group_of raw gid) ''agents'')"

text \<open>
  The part of the document an edit is about: keys of the document, a group (and other
  root keys), or the agents of one name in a group.
\<close>

datatype scope =
    RootScope "string list"
  | GroupScope string "string list"
  | AgentScope string string

fun patch_scope :: "patch_op \<Rightarrow> scope" where
  "patch_scope (PatchAgencySettings s) = RootScope [''agency'']"
| "patch_scope (CreateGroup gid s) = GroupScope gid []"
| "patch_scope (CreateGroupState gid s) = GroupScope gid []"
| "patch_scope (PatchGroupSettings gid s) = GroupScope gid []"
| "patch_scope (PatchGroupDispatch gid s) = GroupScope gid []"
| "patch_scope (PatchGroupSettingsState gid s) = GroupScope gid []"
| "patch_scope (CreateAgentInstance gid a) = AgentScope gid (text_of (get a ''name''))"
| "patch_scope (PatchAgentProfile gid aid s) = AgentScope gid aid"
| "patch_scope (PatchAgentRuntime gid aid s) = AgentScope gid aid"
| "patch_scope (ReplaceAgentRoutines gid aid rs) = AgentScope gid aid"
| "patch_scope (RemoveAgentInstance gid aid) = AgentScope gid aid"
| "patch_scope (PatchMemoryChannels cs) = RootScope [''memory'']"
| "patch_scope (DismissTip t) = RootScope [''agency'']"
| "patch_scope HideAllTips = RootScope [''agency'']"
| "patch_scope (DeleteGroup gid) = GroupScope gid [''agency'']"

definition same_keys :: "string list \<Rightarrow> doc \<Rightarrow> doc \<Rightarrow> bool" where
  "same_keys ks d d' \<longleftrightarrow> (\<forall>k. k \<notin> set ks \<longrightarrow> map_of d' k = map_of d k)"

fun same_outside :: "scope \<Rightarrow> doc \<Rightarrow> doc \<Rightarrow> bool" where
  "same_outside (RootScope ks) raw raw' \<longleftrightarrow> same_keys ks raw raw'"
| "same_outside (GroupScope gid ks) raw raw' \<longleftrightarrow>
     same_keys (''groups'' # ks) raw raw' \<and> same_keys [gid] (groups_of raw) (groups_of raw')"
| "same_outside (AgentScope gid aid) raw raw' \<longleftrightarrow>
     same_keys [''groups''] raw raw' \<and> same_keys [gid] (groups_of raw) (groups_of raw') \<and>
     same_keys [''agents''] (group_of raw gid) (group_of raw' gid) \<and>
     filter (\<lambda>v. \<not> named (PStr aid) v) (agents_of raw' gid) = filter (\<lambda>v. \<not> named (PStr aid) v) (agents_of raw gid)"

text \<open>An agent that is added has a name, which is a string.\<close>

fun patch_named :: "patch_op \<Rightarrow> bool" where
  "patch_named (CreateAgentInstance gid a) \<longleftrightarrow> is_str (get a ''name'')"
| "patch_named _ \<longleftrightarrow> True"

named_theorems edit_results \<open>when an edit returns, and what\<close>

lemma edit_key_Inr [edit_results]:
  "edit_key k dflt f d = Inr d' \<longleftrightarrow> (\<exists>v. f (get_or d k dflt) = Inr v \<and> d' = AList.update k v d)"
  by (auto simp: edit_key_def bindR_Inr_iff)

lemma edit_mapping_Inr [edit_results]:
  "edit_mapping t f v = Inr v' \<longleftrightarrow> (\<exists>d d'. v = PDict d \<and> f d = Inr d' \<and> v' = PDict d')"
  by (cases v) (auto simp: bindR_Inr_iff)

lemma merge_key_Inr [edit_results]:
  "merge_key t k new d = Inr d' \<longleftrightarrow>
     (\<exists>m. get_or d k (PDict []) = PDict m \<and> d' = AList.update k (PDict (dict_update m new)) d)"
  by (auto simp: merge_key_def edit_results)

lemma on_groups_Inr [edit_results]:
  "on_groups f raw = Inr raw' \<longleftrightarrow>
     (\<exists>gs'. get_or raw ''groups'' (PDict []) = PDict (groups_of raw) \<and> f (groups_of raw) = Inr gs' \<and>
       raw' = AList.update ''groups'' (PDict gs') raw)"
  by (auto simp: on_groups_def edit_results groups_of_def get_def get_or_def split: option.splits)

lemma on_group_Inr [edit_results]:
  "on_group gid f raw = Inr raw' \<longleftrightarrow>
     (\<exists>g'. get_or raw ''groups'' (PDict []) = PDict (groups_of raw) \<and>
       map_of (groups_of raw) gid = Some (PDict (group_of raw gid)) \<and> f (group_of raw gid) = Inr g' \<and>
       raw' = AList.update ''groups'' (PDict (AList.update gid (PDict g') (groups_of raw))) raw)"
  by (auto simp: on_group_def edit_results bindR_Inr_iff dict_item_def group_of_def get_def split: option.splits)

lemma on_agents_Inr [edit_results]:
  "on_agents f g = Inr g' \<longleftrightarrow>
     (\<exists>ys. get_or g ''agents'' (PList []) = PList (items (get g ''agents'')) \<and> f (items (get g ''agents'')) = Inr ys \<and>
       g' = AList.update ''agents'' (PList ys) g)"
  by (auto simp: on_agents_def edit_results bindR_Inr_iff get_def get_or_def split: option.splits py.splits)

lemma same_keys_update [simp]: "k \<in> set ks \<Longrightarrow> same_keys ks d (AList.update k v d)"
  by (auto simp: same_keys_def update_conv')

lemma same_keys_trans: "same_keys ks a b \<Longrightarrow> same_keys ks b c \<Longrightarrow> same_keys ks a c"
  by (simp add: same_keys_def)

lemma same_keys_refl [simp]: "same_keys ks d d"
  by (simp add: same_keys_def)

lemma groups_of_update [simp]:
  "groups_of (AList.update ''groups'' (PDict gs) raw) = gs"
  "k \<noteq> ''groups'' \<Longrightarrow> groups_of (AList.update k v raw) = groups_of raw"
  by (simp_all add: groups_of_def)

lemma group_of_update [simp]:
  "group_of (AList.update ''groups'' (PDict (AList.update gid (PDict g) gs)) raw) gid = g"
  by (simp add: group_of_def)

lemma on_groups_scope:
  assumes "on_groups f raw = Inr raw'" "\<And>gs gs'. f gs = Inr gs' \<Longrightarrow> same_keys [gid] gs gs'"
  shows "same_outside (GroupScope gid []) raw raw'"
  using assms by (auto simp: edit_results)

lemma on_group_scope: "on_group gid f raw = Inr raw' \<Longrightarrow> same_outside (GroupScope gid []) raw raw'"
  by (auto simp: edit_results)

lemma edit_first_filter:
  assumes "edit_first aid f xs = Inr ys" "\<And>e e'. f e = Inr e' \<Longrightarrow> get e' ''name'' = get e ''name''"
  shows "filter (\<lambda>v. \<not> named (PStr aid) v) ys = filter (\<lambda>v. \<not> named (PStr aid) v) xs"
  using assms(1)
proof (induction xs arbitrary: ys)
  case (Cons x xs)
  show ?case
  proof (cases "named (PStr aid) x")
    case True
    with Cons.prems obtain e' where "f (entries x) = Inr e'" "ys = PDict e' # xs" by (auto simp: bindR_Inr_iff)
    with True assms(2) have "named (PStr aid) (PDict e')" by (cases x) (auto simp: named_def)
    with True \<open>ys = _\<close> show ?thesis by simp
  next
    case False
    with Cons.prems obtain zs where "edit_first aid f xs = Inr zs" "ys = x # zs" by (auto simp: bindR_Inr_iff)
    with False Cons.IH show ?thesis by simp
  qed
qed simp

lemma remove_first_filter:
  "remove_first aid xs = Inr ys \<Longrightarrow>
     filter (\<lambda>v. \<not> named (PStr aid) v) ys = filter (\<lambda>v. \<not> named (PStr aid) v) xs"
  by (induction xs arbitrary: ys) (auto simp: bindR_Inr_iff split: if_splits)

lemma on_agents_scope:
  assumes "on_group gid (on_agents f) raw = Inr raw'"
    and "\<And>xs ys. f xs = Inr ys \<Longrightarrow> filter (\<lambda>v. \<not> named (PStr aid) v) ys = filter (\<lambda>v. \<not> named (PStr aid) v) xs"
  shows "same_outside (AgentScope gid aid) raw raw'"
  using assms by (auto simp: edit_results agents_of_def)

lemma on_agent_scope:
  assumes "on_agent gid aid f raw = Inr raw'" "\<And>e e'. f e = Inr e' \<Longrightarrow> get e' ''name'' = get e ''name''"
  shows "same_outside (AgentScope gid aid) raw raw'"
  using assms(1) unfolding on_agent_def by (rule on_agents_scope) (rule edit_first_filter [OF _ assms(2)])

lemma edit_key_get: "edit_key k dflt f d = Inr d' \<Longrightarrow> j \<noteq> k \<Longrightarrow> get d' j = get d j"
  by (auto simp: edit_results)

lemma delete_group_scope:
  assumes "apply_delete_group gid raw = Inr raw'"
  shows "same_outside (GroupScope gid [''agency'']) raw raw'"
proof -
  from assms obtain raw1 v where r: "on_groups (\<lambda>gs. bindR (dict_item gs gid) (\<lambda>v. Inr (AList.delete gid gs))) raw = Inr raw1"
    "raw' = AList.update ''agency'' v raw1"
    by (auto simp: apply_delete_group_def bindR_Inr_iff edit_key_Inr)
  from on_groups_scope [OF r(1), of gid] have "same_outside (GroupScope gid []) raw raw1"
    by (auto simp: bindR_Inr_iff same_keys_def delete_conv')
  with r(2) show ?thesis by (auto simp: same_keys_def update_conv')
qed

lemma add_group_scope: "add_group gid g raw = Inr raw' \<Longrightarrow> same_outside (GroupScope gid []) raw raw'"
  unfolding add_group_def by (erule on_groups_scope) (auto split: if_splits)

lemma patch_frame:
  assumes "apply_patch op raw = Inr raw'" "patch_named op"
  shows "same_outside (patch_scope op) raw raw'"
proof (cases op)
  case (CreateAgentInstance gid a)
  with assms(2) obtain n where n: "get a ''name'' = PStr n" by (auto simp: is_str_iff)
  from assms(1) CreateAgentInstance have "apply_create_agent gid a raw = Inr raw'" by simp
  then have "same_outside (AgentScope gid n) raw raw'" unfolding apply_create_agent_def
    by (rule on_agents_scope) (use n in \<open>auto simp: named_def split: if_splits\<close>)
  with n CreateAgentInstance show ?thesis by simp
next
  case (PatchAgentProfile gid aid s)
  with assms(1) have "apply_agent_profile gid aid s raw = Inr raw'" by simp
  then have "same_outside (AgentScope gid aid) raw raw'" unfolding apply_agent_profile_def
    by (rule on_agent_scope) (auto simp: bindR_Inr_iff merge_key_Inr)
  with PatchAgentProfile show ?thesis by simp
next
  case (PatchAgentRuntime gid aid s)
  with assms(1) have "apply_agent_runtime gid aid s raw = Inr raw'" by simp
  then have "same_outside (AgentScope gid aid) raw raw'" unfolding apply_agent_runtime_def
    by (rule on_agent_scope) (erule edit_key_get, simp)
  with PatchAgentRuntime show ?thesis by simp
next
  case (ReplaceAgentRoutines gid aid rs)
  with assms(1) have "apply_agent_routines gid aid rs raw = Inr raw'" by simp
  then have "same_outside (AgentScope gid aid) raw raw'" unfolding apply_agent_routines_def
    by (rule on_agent_scope) auto
  with ReplaceAgentRoutines show ?thesis by simp
next
  case (RemoveAgentInstance gid aid)
  with assms(1) have "on_group gid (on_agents (remove_first aid)) raw = Inr raw'" by (simp add: apply_remove_agent_def)
  then have "same_outside (AgentScope gid aid) raw raw'" by (rule on_agents_scope) (rule remove_first_filter)
  with RemoveAgentInstance show ?thesis by simp
next
  case (DeleteGroup gid)
  with assms(1) delete_group_scope show ?thesis by simp
qed (use assms(1) in \<open>auto simp: apply_create_group_def apply_create_group_state_def apply_group_settings_def
    apply_group_dispatch_def apply_group_settings_state_def apply_agency_settings_def apply_memory_channels_def
    apply_dismiss_tip_def apply_hide_all_tips_def edit_key_Inr dest!: add_group_scope on_group_scope
    simp del: same_outside.simps(2)\<close>)

text \<open>
  C26 - A committed edit changes only what it is about. When an edit of the configuration
  returns, the file had the expected revision, the document in it differs from the one committed
  in nothing outside the scope of the edit (other keys of the document, other groups, other
  fields of the group, the agents of other names and their order), and the document committed
  passed every check.
\<close>

theorem patch_changes_only_its_scope:
  assumes "job_place rt p w" "run_patch E p expected op w = (Inr s, w')" "patch_named op"
  shows "\<exists>b old new. config_content p w = Some b \<and> config_revision E b = expected \<and>
    load_raw_mapping E b = Inr old \<and> apply_patch op old = Inr new \<and> same_outside (patch_scope op) old new \<and>
    config_valid new \<and> config_content p w' = Some (config_payload E new)"
  using config_patch_facts [OF assms(1,2) [unfolded run_patch_def]] patch_frame [OF _ assms(3)] by blast

section \<open>What an edit does\<close>

lemma remove_first_append:
  "\<not> list_ex (named (PStr aid)) xs \<Longrightarrow> named (PStr aid) x \<Longrightarrow> remove_first aid (xs @ [x]) = Inr xs"
  by (induction xs) auto

text \<open>
  Adding an agent and removing it again restores the document, and adding is refused
  exactly when the group has an agent of that name.
\<close>

theorem create_agent_then_remove:
  assumes "map_of raw ''groups'' = Some (PDict gs)" "map_of gs gid = Some (PDict g)"
    and "map_of g ''agents'' = Some (PList xs)" "get agent ''name'' = PStr aid"
  shows "(case apply_create_agent gid agent raw of
      Inr raw' \<Rightarrow> \<not> list_ex (named (PStr aid)) xs \<and> agents_of raw' gid = xs @ [PDict agent] \<and>
        apply_remove_agent gid aid raw' = Inr raw
    | Inl e \<Rightarrow> list_ex (named (PStr aid)) xs \<and> e = value_error (''Agent already exists: '' @ aid))"
proof -
  have gs: "groups_of raw = gs" "get_or raw ''groups'' (PDict []) = PDict gs" "group_of raw gid = g"
    "get_or g ''agents'' (PList []) = PList xs" "items (get g ''agents'') = xs"
    using assms(1-3) by (simp_all add: groups_of_def group_of_def get_def get_or_def)
  show ?thesis
  proof (cases "list_ex (named (PStr aid)) xs")
    case True
    have "apply_create_agent gid agent raw = Inl (value_error (''Agent already exists: '' @ aid))"
      using True gs assms by (simp add: apply_create_agent_def on_group_def on_groups_def edit_key_def
          dict_item_def on_agents_def str_of_def)
    with True show ?thesis by simp
  next
    case False
    let ?g' = "AList.update ''agents'' (PList (xs @ [PDict agent])) g"
    let ?raw' = "AList.update ''groups'' (PDict (AList.update gid (PDict ?g') gs)) raw"
    have c: "apply_create_agent gid agent raw = Inr ?raw'"
      using False gs assms by (simp add: apply_create_agent_def edit_results)
    have n: "named (PStr aid) (PDict agent)" using assms(4) by (simp add: named_def)
    have undo: "AList.update ''agents'' (PList xs) ?g' = g" "AList.update gid (PDict g) (AList.update gid (PDict ?g') gs) = gs"
      "AList.update ''groups'' (PDict gs) ?raw' = raw"
      using assms(1-3) by (simp_all add: update_last update_triv)
    have "apply_remove_agent gid aid ?raw' = Inr raw"
      unfolding apply_remove_agent_def on_group_Inr on_agents_Inr
      using remove_first_append [OF False n] undo
      by (simp add: get_or_def update_conv')
    with c False show ?thesis by (simp add: agents_of_def)
  qed
qed

definition demo_doc :: doc where
  "demo_doc =
     [(''agency'', PDict [(''default_group'', PStr ''ops'')]),
      (''groups'', PDict [(''ops'', PDict [(''name'', PStr ''Ops''), (''agents'', PList [PDict [(''name'', PStr ''a'')]])]),
                        (''lab'', PDict [(''agents'', PList [])])])]"

lemma create_agent_then_remove_witness:
  "apply_create_agent ''ops'' [(''name'', PStr ''b'')] demo_doc \<noteq> Inr demo_doc \<and>
   (case apply_create_agent ''ops'' [(''name'', PStr ''b'')] demo_doc of
      Inr raw' \<Rightarrow> apply_remove_agent ''ops'' ''b'' raw' = Inr demo_doc | Inl e \<Rightarrow> False)"
proof -
  have "map_of demo_doc ''groups'' = Some (PDict [(''ops'', PDict [(''name'', PStr ''Ops''), (''agents'', PList [PDict [(''name'', PStr ''a'')]])]),
      (''lab'', PDict [(''agents'', PList [])])])"
    by (simp add: demo_doc_def)
  from create_agent_then_remove [OF this, of "''ops''" "[(''name'', PStr ''Ops''), (''agents'', PList [PDict [(''name'', PStr ''a'')]])]"
      "[PDict [(''name'', PStr ''a'')]]" "[(''name'', PStr ''b'')]" "''b''"]
  have "case apply_create_agent ''ops'' [(''name'', PStr ''b'')] demo_doc of
      Inr raw' \<Rightarrow> apply_remove_agent ''ops'' ''b'' raw' = Inr demo_doc | Inl e \<Rightarrow> False"
    by (auto simp: named_def split: sum.splits)
  moreover have "apply_create_agent ''ops'' [(''name'', PStr ''b'')] demo_doc \<noteq> Inr demo_doc" by code_simp
  ultimately show ?thesis by blast
qed

definition default_group_of :: "doc \<Rightarrow> py" where
  "default_group_of raw = get (entries (get raw ''agency'')) ''default_group''"

definition default_group_ok :: "doc \<Rightarrow> bool" where
  "default_group_ok raw \<longleftrightarrow>
     default_group_of raw \<in> insert PNone (insert (PStr []) (PStr ` fst ` set (groups_of raw)))"

text \<open>
  Deleting a group takes exactly that group away and leaves no dangling default: the other
  groups are as they were, in their order; a default that named the group becomes the first
  remaining group, or empty when there is none; any other default stays.
\<close>

theorem delete_group_default:
  assumes "apply_delete_group gid raw = Inr raw'"
  shows "gid \<in> fst ` set (groups_of raw) \<and> groups_of raw' = filter (\<lambda>(k, v). gid \<noteq> k) (groups_of raw) \<and>
    default_group_of raw' =
      (if default_group_of raw = PStr gid
       then PStr (case groups_of raw' of [] \<Rightarrow> [] | (g, v) # gs \<Rightarrow> g) else default_group_of raw) \<and>
    (default_group_ok raw \<longrightarrow> default_group_ok raw')"
proof -
  from assms obtain raw1 v where r: "on_groups (\<lambda>gs. bindR (dict_item gs gid) (\<lambda>v. Inr (AList.delete gid gs))) raw = Inr raw1"
    "raw' = AList.update ''agency'' v raw1"
    "(case get_or raw1 ''agency'' (PDict []) of
         PDict agency \<Rightarrow>
           Inr (PDict (if get agency ''default_group'' = PStr gid
                       then AList.update ''default_group''
                              (PStr (case entries (get raw1 ''groups'') of [] \<Rightarrow> [] | (g, x) # gs \<Rightarrow> g)) agency
                       else agency))
       | _ \<Rightarrow> Inl (Exn CAttributeError ''object has no attribute get'')) = Inr v"
    by (auto simp: apply_delete_group_def bindR_Inr_iff edit_key_Inr)
  from r(1) have 1: "gid \<in> fst ` set (groups_of raw)" "groups_of raw1 = AList.delete gid (groups_of raw)"
      "get_or raw1 ''agency'' (PDict []) = get_or raw ''agency'' (PDict [])"
    by (auto simp: edit_results bindR_Inr_iff dict_item_def get_or_def update_conv' image_iff split: option.splits
        dest!: map_of_SomeD) force
  from r(3) obtain agency where a: "get_or raw1 ''agency'' (PDict []) = PDict agency" by (auto split: py.splits)
  have ag: "entries (get raw ''agency'') = agency"
    using a 1(3) by (auto simp: get_or_def get_def split: option.splits)
  have g: "groups_of raw' = filter (\<lambda>(k, v). gid \<noteq> k) (groups_of raw)"
    using r(2) 1(2) by (simp add: AList.delete_eq)
  have gr: "entries (get raw1 ''groups'') = groups_of raw'" using r(2) by (simp add: groups_of_def)
  have d: "default_group_of raw' =
      (if default_group_of raw = PStr gid
       then PStr (case groups_of raw' of [] \<Rightarrow> [] | (g, v) # gs \<Rightarrow> g) else default_group_of raw)"
  proof -
    have v: "v = PDict (if get agency ''default_group'' = PStr gid
        then AList.update ''default_group'' (PStr (case groups_of raw' of [] \<Rightarrow> [] | (g, x) # gs \<Rightarrow> g)) agency
        else agency)"
      using r(3) unfolding a gr by simp
    have b: "default_group_of raw = get agency ''default_group''" by (simp add: default_group_of_def ag)
    have "default_group_of raw' = get (entries v) ''default_group''" by (simp add: default_group_of_def r(2))
    then show ?thesis unfolding b by (simp add: v)
  qed
  have "default_group_ok raw'" if "default_group_ok raw"
  proof (cases "default_group_of raw = PStr gid")
    case True
    with d show ?thesis by (cases "groups_of raw'") (auto simp: default_group_ok_def)
  next
    case False
    with d have e: "default_group_of raw' = default_group_of raw" by simp
    have "k \<in> fst ` set (groups_of raw')" if "k \<in> fst ` set (groups_of raw)" "k \<noteq> gid" for k
      using that unfolding g by auto
    then have kept: "PStr k \<in> PStr ` fst ` set (groups_of raw')" if "k \<in> fst ` set (groups_of raw)" "k \<noteq> gid" for k
      using that by simp
    from \<open>default_group_ok raw\<close> consider "default_group_of raw = PNone" | "default_group_of raw = PStr []"
      | k where "k \<in> fst ` set (groups_of raw)" "default_group_of raw = PStr k"
      unfolding default_group_ok_def by blast
    then show ?thesis
    proof cases
      case (3 k)
      with False kept [of k] show ?thesis by (simp add: default_group_ok_def e)
    qed (simp_all add: default_group_ok_def e)
  qed
  with 1(1) g d show ?thesis by blast
qed

lemma delete_group_default_witness:
  "\<exists>raw'. apply_delete_group ''ops'' demo_doc = Inr raw' \<and> default_group_of raw' = PStr ''lab'' \<and> default_group_ok raw'"
proof -
  let ?r = "[(''agency'', PDict [(''default_group'', PStr ''lab'')]), (''groups'', PDict [(''lab'', PDict [(''agents'', PList [])])])]"
  have r: "apply_delete_group ''ops'' demo_doc = Inr ?r" by code_simp
  have "default_group_ok demo_doc" by code_simp
  with delete_group_default [OF r] r show ?thesis by (auto simp: default_group_of_def)
qed

lemma map_of_clear [simp]: "map_of (clear_known_keys ks d) k = (if k \<in> set ks then None else map_of d k)"
  by (induction d) (auto simp: clear_known_keys_def)

lemma edit_first_find:
  assumes "edit_first aid f xs = Inr ys" "\<And>e e'. f e = Inr e' \<Longrightarrow> get e' ''name'' = get e ''name''"
  shows "\<exists>e e'. find (named (PStr aid)) xs = Some (PDict e) \<and> f e = Inr e' \<and> find (named (PStr aid)) ys = Some (PDict e')"
  using assms(1)
proof (induction xs arbitrary: ys)
  case (Cons x xs)
  show ?case
  proof (cases "named (PStr aid) x")
    case True
    then obtain e where x: "x = PDict e" by (cases x) (auto simp: named_def)
    with Cons.prems True obtain e' where e: "f e = Inr e'" "ys = PDict e' # xs" by (auto simp: bindR_Inr_iff)
    with True assms(2) x have "named (PStr aid) (PDict e')" by (auto simp: named_def)
    with True e x show ?thesis by simp
  next
    case False
    with Cons.prems obtain zs where "edit_first aid f xs = Inr zs" "ys = x # zs" by (auto simp: bindR_Inr_iff)
    with False Cons.IH show ?thesis by simp
  qed
qed simp

definition agent_of :: "doc \<Rightarrow> string \<Rightarrow> string \<Rightarrow> doc" where
  "agent_of raw gid aid =
     (case find (named (PStr aid)) (agents_of raw gid) of Some v \<Rightarrow> entries v | None \<Rightarrow> [])"

lemma on_agent_edit:
  assumes "on_agent gid aid f raw = Inr raw'" "\<And>e e'. f e = Inr e' \<Longrightarrow> get e' ''name'' = get e ''name''"
  shows "f (agent_of raw gid aid) = Inr (agent_of raw' gid aid)"
proof -
  from assms(1) obtain ys where "edit_first aid f (agents_of raw gid) = Inr ys" "agents_of raw' gid = ys"
    by (auto simp: on_agent_def edit_results agents_of_def)
  with edit_first_find [OF _ assms(2)] show ?thesis by (force simp: agent_of_def)
qed

lemma on_agent_edit_key:
  "on_agent gid aid (edit_key k dflt f) raw = Inr raw' \<Longrightarrow> k \<noteq> ''name'' \<Longrightarrow>
     edit_key k dflt f (agent_of raw gid aid) = Inr (agent_of raw' gid aid)"
  by (erule on_agent_edit) (auto dest: edit_key_get)

text \<open>
  The runtime form of an agent is stored as the rest of the program reads it. After the edit the agent
  has a timeout exactly if one was given, additional roots exactly if there are any, and a tool
  mode exactly if a policy was given, with names exactly for an allow list: what is not
  given is absent, and so inherited from the group.
\<close>

theorem agent_runtime_patch_readback:
  assumes "apply_agent_runtime gid aid s raw = Inr raw'"
  shows "let runtime = entries (get (agent_of raw' gid aid) ''runtime'');
      sandbox = entries (get runtime ''sandbox''); tools = entries (get runtime ''tools'') in
    map_of runtime ''timeout'' = map_option PInt (ar_timeout s) \<and>
    map_of sandbox ''additional_roots'' =
      (if ar_additional_roots s = [] then None else Some (str_list (ar_additional_roots s))) \<and>
    map_of tools ''mode'' = map_option (PStr \<circ> tp_mode) (ar_tools s) \<and>
    map_of tools ''names'' = (case ar_tools s of
       Some t \<Rightarrow> if tp_mode t = ''allowlist'' then Some (str_list (tp_names t)) else None | None \<Rightarrow> None)"
proof -
  have upd: "map_of (dict_update d (tool_mapping (Some t))) = (map_of d)(''mode'' \<mapsto> PStr (tp_mode t),
      ''names'' := (if tp_mode t = ''allowlist'' then Some (str_list (tp_names t)) else map_of d ''names''))" for d t
    by (auto simp: map_of_dict_update tool_mapping_def fun_eq_iff map_add_def)
  have tools: "map_of (runtime_tools_edit p d) ''mode'' = map_option (PStr \<circ> tp_mode) p"
    "map_of (runtime_tools_edit p d) ''names'' = (case p of
       Some t \<Rightarrow> if tp_mode t = ''allowlist'' then Some (str_list (tp_names t)) else None | None \<Rightarrow> None)" for p d
    by (cases p; simp add: runtime_tools_edit_def upd Let_def)+
  have timeout: "map_of (runtime_timeout t d) ''timeout'' = map_option PInt t" for t d
    by (cases t) (simp_all add: runtime_timeout_def update_conv')
  have "''runtime'' \<noteq> ''name''" by simp
  from on_agent_edit_key [OF assms [unfolded apply_agent_runtime_def] this]
  obtain r0 m t sb where e: "agent_of raw' gid aid = AList.update ''runtime'' (PDict
      (AList.update ''sandbox'' (PDict (if ar_additional_roots s \<noteq> []
              then AList.update ''additional_roots'' (str_list (ar_additional_roots s)) sb
              else clear_known_keys [''additional_roots''] sb))
        (AList.update ''tools'' (PDict (runtime_tools_edit (ar_tools s) t))
          (AList.update ''sandbox'' (PDict m) (runtime_timeout (ar_timeout s) r0))))) (agent_of raw gid aid)"
    unfolding edit_key_Inr edit_mapping_Inr bindR_Inr_iff merge_key_Inr by blast
  show ?thesis
    by (simp add: e Let_def get_def update_conv' tools timeout)
qed

definition demo_runtime_patch :: agent_runtime_patch where
  "demo_runtime_patch = \<lparr>ar_timeout = Some 60, ar_additional_roots = [],
     ar_tools = Some \<lparr>tp_mode = ''allowlist'', tp_names = [''git'']\<rparr>\<rparr>"

lemma agent_runtime_patch_readback_witness:
  "\<exists>raw'. apply_agent_runtime ''ops'' ''a'' demo_runtime_patch demo_doc = Inr raw' \<and>
     (let runtime = entries (get (agent_of raw' ''ops'' ''a'') ''runtime'') in
      map_of runtime ''timeout'' = Some (PInt 60) \<and>
      map_of (entries (get runtime ''tools'')) ''names'' = Some (str_list [''git'']))"
proof -
  have "(case apply_agent_runtime ''ops'' ''a'' demo_runtime_patch demo_doc of Inr x \<Rightarrow> True | Inl e \<Rightarrow> False)"
    by code_simp
  then obtain raw' where r: "apply_agent_runtime ''ops'' ''a'' demo_runtime_patch demo_doc = Inr raw'"
    by (auto split: sum.splits)
  with agent_runtime_patch_readback [OF r] show ?thesis by (simp add: Let_def demo_runtime_patch_def)
qed

text \<open>A store whose codec knows one text.\<close>

definition patch_env :: config_env where
  "patch_env = demo_env\<lparr>ce_yaml := \<lparr>dump = (\<lambda>v. ''new''), load = (\<lambda>s. Inr (PDict sample_raw))\<rparr>\<rparr>"

definition patch_world :: world where
  "patch_world = \<lparr>files = [([''etc''], Dir), ([''etc'', ''lib''], Dir), ([''etc'', ''config.yaml''], File ''cfg'')],
     sched = [], busy = []\<rparr>"

lemma patch_world_runs:
  "(case fst (run_patch patch_env [''etc'', ''config.yaml''] ''cfg'' (PatchMemoryChannels []) patch_world) of
      Inr s \<Rightarrow> True | Inl e \<Rightarrow> False)"
  by code_simp

lemma patch_changes_only_its_scope_witness:
  "\<exists>s w' old new. run_patch patch_env [''etc'', ''config.yaml''] ''cfg'' (PatchMemoryChannels []) patch_world = (Inr s, w') \<and>
     same_outside (RootScope [''memory'']) old new \<and> config_valid new \<and>
     config_content [''etc'', ''config.yaml''] w' = Some ''new''"
proof -
  let ?p = "[''etc'', ''config.yaml'']"
  have c: "clean [''etc''] (files patch_world)"
    by (rule clean_checkI) (simp add: clean_check_def patch_world_def node_at_def)
  then have pl: "job_place [''etc''] ?p patch_world"
    by (simp add: job_place_def below_def strict_prefix_def patch_world_def node_at_def)
  from patch_world_runs obtain s w' where run: "run_patch patch_env ?p ''cfg'' (PatchMemoryChannels []) patch_world = (Inr s, w')"
    by (cases "run_patch patch_env ?p ''cfg'' (PatchMemoryChannels []) patch_world") (auto split: sum.splits)
  have "config_payload patch_env new = ''new''" for new
    by (simp add: config_payload_def patch_env_def)
  with patch_changes_only_its_scope [OF pl run] run show ?thesis by fastforce
qed

end
