(* ===== verification/DirOps.thy ===== *)
theory DirOps
  imports Locks
begin

text \<open>
  Facts about directories that the stores share: what a listing shows, what moving a whole
  directory does, and rules for what an operation does when it returns.
\<close>

section \<open>Results that are known\<close>

lemma keeps_bindI_res:
  assumes "keeps P m" "\<And>w x w'. P w \<Longrightarrow> m w = (Inr x, w') \<Longrightarrow> R x" "\<And>x. R x \<Longrightarrow> keeps P (f x)"
  shows "keeps P (bindI m f)"
  unfolding keeps_def
proof (intro allI impI)
  fix w assume w: "P w"
  obtain r w1 where m: "m w = (r, w1)" by fastforce
  have w1: "P w1" by (rule keepsD [OF assms(1) w m])
  show "P (snd (bindI m f w))"
  proof (cases r)
    case (Inl e)
    with m w1 show ?thesis by (simp add: bindI_def)
  next
    case (Inr x)
    with m assms(2) [OF w] assms(3) [of x] w1 show ?thesis by (auto simp: bindI_def keeps_def)
  qed
qed

text \<open>\<open>succeeds P m Q\<close>: if \<open>m\<close> returns from a state of \<open>P\<close>, it returns in a state of \<open>Q\<close>.\<close>

definition succeeds :: "('s \<Rightarrow> bool) \<Rightarrow> ('s, 'a) io \<Rightarrow> ('a \<Rightarrow> 's \<Rightarrow> bool) \<Rightarrow> bool" where
  "succeeds P m Q \<longleftrightarrow> (\<forall>w x w'. P w \<longrightarrow> m w = (Inr x, w') \<longrightarrow> Q x w')"

named_theorems succeeds_intros \<open>what an operation that returns has done\<close>

lemma succeedsI: "(\<And>w x w'. P w \<Longrightarrow> m w = (Inr x, w') \<Longrightarrow> Q x w') \<Longrightarrow> succeeds P m Q"
  by (simp add: succeeds_def)

lemma succeedsD: "succeeds P m Q \<Longrightarrow> P w \<Longrightarrow> m w = (Inr x, w') \<Longrightarrow> Q x w'"
  by (simp add: succeeds_def)

lemma succeeds_pre: "succeeds P m Q \<Longrightarrow> (\<And>w. P' w \<Longrightarrow> P w) \<Longrightarrow> succeeds P' m Q"
  unfolding succeeds_def by blast

lemma succeeds_weaken: "succeeds P m Q \<Longrightarrow> (\<And>x w. Q x w \<Longrightarrow> Q' x w) \<Longrightarrow> succeeds P m Q'"
  by (simp add: succeeds_def)

lemma succeeds_ret: "succeeds (Q x) (ret x) Q"
  by (simp add: succeeds_def)

lemma succeeds_raise: "succeeds P (raise e) Q"
  by (simp add: succeeds_def)

lemma succeeds_bindI:
  "succeeds P m R \<Longrightarrow> (\<And>x. succeeds (R x) (f x) Q) \<Longrightarrow> succeeds P (bindI m f) Q"
  unfolding succeeds_def bindI_Inr_iff by blast

lemma succeeds_thenI: "succeeds P m (\<lambda>_. R) \<Longrightarrow> succeeds R n Q \<Longrightarrow> succeeds P (thenI m n) Q"
  unfolding thenI_def by (rule succeeds_bindI)

lemma succeeds_tryI:
  "succeeds P m Q \<Longrightarrow> (\<And>e. succeeds (\<lambda>_. True) (h e) Q) \<Longrightarrow> succeeds P (tryI m h) Q"
  unfolding succeeds_def tryI_def by (fastforce split: prod.splits sum.splits if_splits)

lemma succeeds_finallyI:
  "succeeds P m R \<Longrightarrow> (\<And>x. succeeds (R x) c (\<lambda>_. Q x)) \<Longrightarrow> succeeds P (finallyI m c) Q"
  unfolding succeeds_def finallyI_def by (fastforce split: prod.splits sum.splits exn.splits)

section \<open>Listings\<close>

lemma listdir_clean:
  assumes "clean rt fs" "below rt d"
  shows "set (listdir fs d) = {n. node_at fs (d @ [n]) \<noteq> None \<and> n \<noteq> ''.'' \<and> n \<noteq> ''..''}"
    and "distinct (listdir fs d)"
proof -
  have r: "resolve fs d = d" by (rule resolve_clean [OF assms])
  have dist: "distinct (map fst fs)" using assms(1) by (simp add: clean_def)
  let ?es = "filter (\<lambda>e. is_child d (fst e)) fs"
  have "n \<in> (last \<circ> fst) ` set ?es \<longleftrightarrow> node_at fs (d @ [n]) \<noteq> None" for n
  proof
    assume "n \<in> (last \<circ> fst) ` set ?es"
    then obtain p x where p: "(p, x) \<in> set fs" "is_child d p" "n = last p" by auto
    then have "p = d @ [n]" by (auto simp: is_child_def)
    with p(1) dist show "node_at fs (d @ [n]) \<noteq> None" by (simp add: node_at_entry [THEN iffD2])
  next
    assume "node_at fs (d @ [n]) \<noteq> None"
    then obtain x where "(d @ [n], x) \<in> set fs" using dist by (auto simp: node_at_entry)
    then show "n \<in> (last \<circ> fst) ` set ?es" by (force simp: is_child_def)
  qed
  then show "set (listdir fs d) = {n. node_at fs (d @ [n]) \<noteq> None \<and> n \<noteq> ''.'' \<and> n \<noteq> ''..''}"
    unfolding listdir_def r by auto
  have "distinct (map fst ?es)" using dist by (rule distinct_map_filter)
  moreover have "inj_on last (fst ` set ?es)"
  proof (rule inj_onI)
    fix p q assume "p \<in> fst ` set ?es" "q \<in> fst ` set ?es" "last p = last q"
    moreover from this have "p \<noteq> []" "q \<noteq> []" "butlast p = butlast q" by (auto simp: is_child_def)
    ultimately show "p = q" by (metis append_butlast_last_id)
  qed
  ultimately have "distinct (map last (map fst ?es))" by (simp only: distinct_map set_map)
  then show "distinct (listdir fs d)" unfolding listdir_def r by (simp add: o_def)
qed

lemma iterdir_Inr:
  "iterdir d w = (Inr ns, w') \<Longrightarrow> w' = w \<and> ns = listdir (files w) d"
  by (auto simp: iterdir_def split: option.splits node.splits)

lemma iterdir_names: "iterdir d w = (Inr ns, w') \<Longrightarrow> \<forall>n\<in>set ns. n \<noteq> ''..''"
  by (auto simp: listdir_def dest!: iterdir_Inr)

section \<open>Moving a directory\<close>

lemma move_tree_lookup:
  assumes "distinct (map fst fs)" "s \<noteq> []" "d \<noteq> []" "\<not> prefix s d" "\<not> prefix d s"
  shows "node_at (move_tree s d fs) q =
      (if prefix d q then node_at fs (s @ drop (length d) q) else if prefix s q then None else node_at fs q)"
    and "distinct (map fst (move_tree s d fs))"
proof -
  let ?f = "\<lambda>(p, n :: node). if prefix s p then (d @ drop (length s) p, n) else (p, n)"
  let ?g = "\<lambda>p. if prefix s p then d @ drop (length s) p else p"
  let ?es = "filter (\<lambda>(p, n). \<not> prefix d p) fs"
  have keys: "map fst (move_tree s d fs) = map ?g (map fst ?es)"
    by (auto simp: move_tree_def)
  have pd: "\<not> prefix d p" if "p \<in> fst ` set ?es" for p using that by auto
  have inj: "inj_on ?g (fst ` set ?es)"
  proof (rule inj_onI)
    fix p q assume pq: "p \<in> fst ` set ?es" "q \<in> fst ` set ?es" "?g p = ?g q"
    from pd [OF pq(1)] pd [OF pq(2)] pq(3) show "p = q"
      by (auto split: if_splits simp: prefix_def)
  qed
  have de: "distinct (map fst ?es)" using assms(1) by (rule distinct_map_filter)
  then show dm: "distinct (map fst (move_tree s d fs))"
    unfolding keys by (simp only: distinct_map [of ?g] inj set_map)
  have mem: "(q, n) \<in> set (move_tree s d fs) \<longleftrightarrow>
      (prefix d q \<and> (s @ drop (length d) q, n) \<in> set fs) \<or> (\<not> prefix d q \<and> \<not> prefix s q \<and> (q, n) \<in> set fs)" for q n
  proof
    assume "(q, n) \<in> set (move_tree s d fs)"
    then obtain p where p: "(p, n) \<in> set fs" "\<not> prefix d p" "q = ?g p"
      by (auto simp: move_tree_def split: if_splits)
    then show "(prefix d q \<and> (s @ drop (length d) q, n) \<in> set fs) \<or> (\<not> prefix d q \<and> \<not> prefix s q \<and> (q, n) \<in> set fs)"
      by (auto simp: prefix_def split: if_splits)
  next
    assume "(prefix d q \<and> (s @ drop (length d) q, n) \<in> set fs) \<or> (\<not> prefix d q \<and> \<not> prefix s q \<and> (q, n) \<in> set fs)"
    then show "(q, n) \<in> set (move_tree s d fs)"
    proof
      assume a: "prefix d q \<and> (s @ drop (length d) q, n) \<in> set fs"
      let ?p = "s @ drop (length d) q"
      have "\<not> prefix d ?p" using assms(4,5) by (metis prefix_append prefix_same_cases prefixI)
      with a have "(?p, n) \<in> set ?es" by simp
      moreover have "?f (?p, n) = (q, n)" using a by (auto simp: prefix_def)
      ultimately show ?thesis unfolding move_tree_def by (metis (no_types, lifting) image_eqI list.set_map)
    next
      assume "\<not> prefix d q \<and> \<not> prefix s q \<and> (q, n) \<in> set fs"
      then show ?thesis by (force simp: move_tree_def)
    qed
  qed
  show "node_at (move_tree s d fs) q =
      (if prefix d q then node_at fs (s @ drop (length d) q) else if prefix s q then None else node_at fs q)"
  proof (cases "q = []")
    case True
    with assms show ?thesis by simp
  next
    case False
    have some: "node_at (move_tree s d fs) q = Some n \<longleftrightarrow>
      (if prefix d q then node_at fs (s @ drop (length d) q) else if prefix s q then None else node_at fs q) = Some n" for n
      using False assms(1,2) mem [of q n] by (auto simp: node_at_entry [OF dm] node_at_entry [OF assms(1)])
    have "a = b" if "\<And>n. a = Some n \<longleftrightarrow> b = Some n" for a b :: "node option"
      using that by (metis not_Some_eq)
    from this [OF some] show ?thesis .
  qed
qed

lemma clean_move_tree:
  assumes "clean rt fs" "below rt s" "below rt d" "prefix rt s" "strict_prefix rt d" "s \<noteq> []"
    and "\<not> prefix s d" "\<not> prefix d s" "node_at fs (butlast d) = Some Dir" "node_at fs s \<noteq> None"
  shows "clean rt (move_tree s d fs)"
proof -
  have dist: "distinct (map fst fs)" and tr: "tree fs" using assms(1) by (auto simp: clean_def)
  have dn: "d \<noteq> []" using assms(5) by auto
  note L = move_tree_lookup(1) [OF dist assms(6) dn assms(7,8)]
  have "tree (move_tree s d fs)"
    unfolding tree_def
  proof (intro allI impI)
    fix q assume q: "q \<noteq> []" "node_at (move_tree s d fs) q \<noteq> None"
    show "node_at (move_tree s d fs) (butlast q) = Some Dir"
    proof (cases "prefix d q")
      case True
      with q L have n: "node_at fs (s @ drop (length d) q) \<noteq> None" by simp
      show ?thesis
      proof (cases "q = d")
        case True
        have "\<not> prefix d (butlast d)" using dn by (metis length_butlast less_le_not_le prefix_length_le diff_less length_greater_0_conv less_numeral_extra(1))
        moreover have "\<not> prefix s (butlast d)" using assms(7) by (metis prefix_order.trans prefixeq_butlast)
        ultimately show ?thesis using True assms(9) by (simp add: L)
      next
        case False
        with True obtain x xs where q': "q = d @ x # xs" by (metis prefixE append_Nil2 list.exhaust)
        then have "node_at fs (butlast (s @ x # xs)) = Some Dir"
          using n tr [unfolded tree_def] by auto
        moreover have "butlast q = d @ butlast (x # xs)" by (simp add: q' butlast_append)
        ultimately show ?thesis by (simp add: L butlast_append)
      qed
    next
      case False
      with q L have n: "node_at fs q \<noteq> None" "\<not> prefix s q" by (auto split: if_splits)
      with q(1) tr have "node_at fs (butlast q) = Some Dir" by (simp add: tree_def)
      moreover have "\<not> prefix d (butlast q)" using False by (metis prefix_order.trans prefixeq_butlast)
      moreover have "\<not> prefix s (butlast q)" using n(2) by (metis prefix_order.trans prefixeq_butlast)
      ultimately show ?thesis by (simp add: L)
    qed
  qed
  moreover have "\<not> is_link (node_at (move_tree s d fs) p)" if "prefix p rt \<or> prefix rt p" for p
  proof (cases "prefix d p")
    case True
    have "prefix rt (s @ drop (length d) p)" using assms(4) by simp
    with assms(1) have "\<not> is_link (node_at fs (s @ drop (length d) p))" by (simp add: clean_def)
    with True show ?thesis by (simp add: L)
  next
    case False
    have "\<not> is_link (node_at fs p)" using that assms(1) by (auto simp: clean_def)
    with False show ?thesis by (simp add: L)
  qed
  ultimately show ?thesis
    using assms(1) move_tree_lookup(2) [OF dist assms(6) dn assms(7,8)] by (simp add: clean_def)
qed

text \<open>Any rename between two places of a region.\<close>

lemma sys_rename_region:
  assumes "clean rt fs" "below rt s" "below rt d" "prefix rt s" "strict_prefix rt d" "sys_rename s d fs = Inr fs'"
  shows "clean rt fs' \<and> (\<forall>q. \<not> prefix s q \<longrightarrow> \<not> prefix d q \<longrightarrow> node_at fs' q = node_at fs q)"
proof (cases "node_at fs s = Some Dir")
  case False
  then obtain n where n: "node_at fs s = Some n" "n \<noteq> Dir" "\<not> is_link (Some n)"
    using assms by (cases "node_at fs s") (auto simp: sys_rename_def Let_def place_clean clean_def)
  from assms n have r: "node_at fs d \<noteq> Some Dir" "node_at fs (butlast d) = Some Dir"
    "fs' = (if s = d then fs else put d n (drop_entry s fs))"
    by (auto simp: sys_rename_def Let_def place_clean split: node.splits if_splits)
  have ne: "s \<noteq> []" "d \<noteq> []" using n assms(5) by auto
  from n(1,2) r(2) have "butlast d \<noteq> s" by auto
  with assms(1) ne n r have "clean rt fs'" by (auto intro!: clean_put clean_drop_entry)
  with r(3) ne show ?thesis by auto
next
  case True
  from True assms have r: "s \<noteq> []" "d \<noteq> []" "\<not> strict_prefix s d" "node_at fs (butlast d) = Some Dir"
    by (auto simp: sys_rename_def Let_def place_clean split: if_splits)
  show ?thesis
  proof (cases "s = d")
    case True
    with assms r show ?thesis
      by (auto simp: sys_rename_def Let_def place_clean True split: if_splits option.splits node.splits)
  next
    case False
    with True assms r have f: "fs' = move_tree s d fs" and e: "node_at fs d = None \<or> (node_at fs d = Some Dir \<and> \<not> list_ex (\<lambda>e. is_child d (fst e)) fs)"
      by (auto simp: sys_rename_def Let_def place_clean split: if_splits option.splits node.splits)
    have dist: "distinct (map fst fs)" and tr: "tree fs" using assms(1) by (auto simp: clean_def)
    have nds: "\<not> prefix d s"
    proof
      assume "prefix d s"
      with False obtain x xs where s: "s = d @ x # xs" by (metis prefixE append_Nil2 list.exhaust)
      have dd: "node_at fs d = Some Dir"
        by (rule tree_prefix_dir [OF tr]) (use True s in \<open>auto simp: strict_prefix_def\<close>)
      have "node_at fs (d @ [x]) \<noteq> None"
        using True tree_prefix_dir [OF tr, of s "d @ [x]"] s by (cases xs) (auto simp: strict_prefix_def prefix_def)
      then obtain m where "(d @ [x], m) \<in> set fs" using dist by (auto simp: node_at_entry)
      then have "list_ex (\<lambda>e. is_child d (fst e)) fs" by (auto simp: list_ex_iff is_child_def intro!: bexI)
      with e dd show False by simp
    qed
    have nsd: "\<not> prefix s d" using r(3) False by (simp add: strict_prefix_def)
    have "clean rt fs'"
      unfolding f by (rule clean_move_tree [OF assms(1-5) r(1) nsd nds r(4)]) (use True in simp)
    with f show ?thesis by (simp add: move_tree_lookup [OF dist r(1,2) nsd nds])
  qed
qed

lemma keeps_os_replace [keeps_intros]:
  assumes "below rt s" "below rt d" "prefix rt s" "strict_prefix rt d"
    and "\<And>q. prefix s q \<Longrightarrow> q \<in> S" "\<And>q. prefix d q \<Longrightarrow> q \<in> S"
  shows "keeps (confined rt S g) (os_replace s d)"
  unfolding os_replace_def
proof (rule keeps_syscall)
  fix w fs' assume c: "confined rt S g w" and r: "sys_rename s d (files w) = Inr fs'"
  from sys_rename_region [OF confined_clean [OF c] assms(1-4) r] c assms(5,6)
  show "confined rt S g (w\<lparr>files := fs'\<rparr>)" unfolding confined_def by auto metis
qed

text \<open>Making a directory that stays there changes nothing.\<close>

lemma keeps_mkdir_there:
  assumes "below rt p" "g p = Some Dir" "p \<notin> S"
  shows "keeps (confined rt S g) (mkdir_p p)"
  unfolding keeps_def
proof (intro allI impI)
  fix w assume c: "confined rt S g w"
  then have "node_at (files w) p = Some Dir" using assms(2,3) by (simp add: confined_def)
  from mkdir_p_there [OF confined_clean [OF c] assms(1) this] c show "confined rt S g (snd (mkdir_p p w))" by simp
qed

lemma keeps_mkdir_path:
  assumes "below rt p" "\<And>q. prefix q p \<Longrightarrow> q \<noteq> [] \<Longrightarrow> q \<in> S \<or> g q = Some Dir"
  shows "keeps (confined rt S g) (mkdir_p p)"
  unfolding mkdir_p_def
proof (rule keeps_forI)
  fix q assume "q \<in> set (map (\<lambda>i. take i p) [1..<Suc (length p)])"
  then have q: "prefix q p" "q \<noteq> []" by (auto simp: take_is_prefix)
  have bq: "below rt q" by (rule below_prefix [OF assms(1) q(1)])
  from assms(2) [OF q] show "keeps (confined rt S g) (mkdir_one q)"
  proof
    assume "q \<in> S"
    with bq show ?thesis by (rule keeps_mkdir_one)
  next
    assume d: "g q = Some Dir"
    show ?thesis
    proof (cases "q \<in> S")
      case True
      with bq show ?thesis by (rule keeps_mkdir_one)
    next
      case False
      with d have "is_dir (files w) q" if "confined rt S g w" for w
        using that is_dir_clean [OF confined_clean [OF that] bq] by (simp add: confined_def)
      then show ?thesis by (simp add: keeps_def mkdir_one_def)
    qed
  qed
qed

lemma forI_append: "forI f (xs @ ys) = thenI (forI f xs) (forI f ys)"
  by (induction xs) (simp_all add: thenI_def bindI_assoc del: io_apply)

lemma mkdir_p_makes:
  assumes "clean rt (files w)" "below rt p" "mkdir_p p w = (Inr u, w')"
  shows "clean rt (files w') \<and> node_at (files w') p = Some Dir"
proof (cases "p = []")
  case True
  with assms show ?thesis by (simp add: mkdir_p_def)
next
  case False
  have "keeps (confined rt UNIV g) (mkdir_p p)" for g by (rule keeps_mkdir_p [OF assms(2)]) auto
  from keepsD [OF this confined_self [OF assms(1)] assms(3)]
  have c: "clean rt (files w')" by (simp add: confined_def)
  have "map (\<lambda>i. take i p) [1..<Suc (length p)] = map (\<lambda>i. take i p) [1..<length p] @ [p]"
    using False by (simp add: Suc_le_eq)
  with assms(3) obtain w1 where w1: "forI mkdir_one (map (\<lambda>i. take i p) [1..<length p]) w = (Inr (), w1)"
    "mkdir_one p w1 = (Inr (), w')"
    unfolding mkdir_p_def by (auto simp: forI_append thenI_Inr_iff)
  have "keeps (confined rt UNIV g) (forI mkdir_one (map (\<lambda>i. take i p) [1..<length p]))" for g
    by (rule keeps_forI) (auto intro!: keeps_mkdir_one below_take [OF assms(2)])
  from keepsD [OF this confined_self [OF assms(1)] w1(1)] have c1: "clean rt (files w1)" by (simp add: confined_def)
  show ?thesis
  proof (cases "is_dir (files w1) p")
    case True
    with w1(2) c c1 assms(2) show ?thesis by (simp add: mkdir_one_def is_dir_clean)
  next
    case notdir: False
    with w1(2) have "os_mkdir p w1 = (Inr (), w')" by (simp add: mkdir_one_def)
    then have "sys_mkdir p (files w1) = Inr (files w')" unfolding os_mkdir_def by (rule syscall_Inr)
    from sys_mkdir_effect [OF this c1 assms(2)] show ?thesis by simp
  qed
qed

lemma keeps_atomic_write [keeps_intros]:
  assumes "below rt p" "strict_prefix rt p" "last p \<noteq> []" "p \<in> S" "temp_paths p \<subseteq> S"
    and "\<And>q. prefix q (butlast p) \<Longrightarrow> q \<noteq> [] \<Longrightarrow> q \<in> S \<or> g q = Some Dir"
  shows "keeps (confined rt S g) (atomic_write_bytes p payload)"
  unfolding keeps_def
proof (intro allI impI)
  fix w assume c: "confined rt S g w"
  note bp = below_butlast [OF assms(1)]
  obtain r1 w1 where m: "mkdir_p (butlast p) w = (r1, w1)" by fastforce
  from keepsD [OF keeps_mkdir_path [OF bp assms(6)] c m] have c1: "confined rt S g w1" .
  show "confined rt S g (snd (atomic_write_bytes p payload w))"
  proof (cases r1)
    case (Inl e)
    with m c1 show ?thesis by (simp add: atomic_write_bytes_def thenI_apply)
  next
    case (Inr u)
    from mkdir_p_makes [OF confined_clean [OF c] bp m [unfolded Inr]]
    have d: "clean rt (files w1)" "node_at (files w1) (butlast p) = Some Dir" by simp_all
    have "mkdir_p (butlast p) w1 = (Inr (), w1)" by (rule mkdir_p_there [OF d(1) bp d(2)])
    with m Inr have same: "atomic_write_bytes p payload w = atomic_write_bytes p payload w1"
      by (simp add: atomic_write_bytes_def thenI_apply)
    obtain r w' where run: "atomic_write_bytes p payload w1 = (r, w')" by fastforce
    from atomic_write_outcome [OF d(1) assms(1-3) d(2) run] c1 assms(4,5) same run
    show ?thesis unfolding confined_def by (metis snd_conv subsetD)
  qed
qed

section \<open>Exact effects\<close>

text \<open>The file system is clean below \<open>rt\<close> and its lookup function is \<open>g\<close>.\<close>

definition exact :: "path \<Rightarrow> (path \<Rightarrow> node option) \<Rightarrow> world \<Rightarrow> bool" where
  "exact rt g w \<longleftrightarrow> clean rt (files w) \<and> node_at (files w) = g"

lemma exact_self: "clean rt (files w) \<Longrightarrow> exact rt (node_at (files w)) w"
  by (simp add: exact_def)

lemma succeeds_see: "succeeds (exact rt g) (see f) (\<lambda>x w. exact rt g w \<and> x = f (files w))"
  by (auto simp: succeeds_def)

lemma succeeds_mkdir:
  "below rt p \<Longrightarrow> succeeds (exact rt g) (os_mkdir p) (\<lambda>_. exact rt (g(p \<mapsto> Dir)))"
  unfolding os_mkdir_def
  by (rule succeedsI) (auto simp: exact_def dest!: syscall_Inr dest: sys_mkdir_effect)

lemma succeeds_write:
  "below rt p \<Longrightarrow> succeeds (exact rt g) (write_bytes p b) (\<lambda>_. exact rt (g(p \<mapsto> File b)))"
  unfolding write_bytes_def
  by (rule succeedsI) (auto simp: exact_def dest!: syscall_Inr dest: sys_write_effect)

lemma succeeds_unlink:
  "below rt p \<Longrightarrow> succeeds (exact rt g) (unlink p) (\<lambda>_. exact rt (g(p := None)))"
  unfolding unlink_def
  by (rule succeedsI) (auto simp: exact_def dest!: syscall_Inr dest: sys_unlink_effect)

lemma succeeds_rmdir:
  "below rt p \<Longrightarrow> succeeds (exact rt g) (rmdir p) (\<lambda>_. exact rt (g(p := None)))"
  unfolding rmdir_def
  by (rule succeedsI) (auto simp: exact_def dest!: syscall_Inr dest: sys_rmdir_effect)

lemma succeeds_rename:
  assumes "below rt src" "below rt dst" "g src = Some (File b)" "src \<noteq> dst"
  shows "succeeds (exact rt g) (os_replace src dst) (\<lambda>_. exact rt (g(src := None, dst \<mapsto> File b)))"
  unfolding os_replace_def
  by (rule succeedsI) (use assms in \<open>auto simp: exact_def dest!: syscall_Inr dest: sys_rename_effect\<close>)

lemma succeeds_atomic_write:
  assumes "below rt p" "strict_prefix rt p" "last p \<noteq> []" "g (butlast p) = Some Dir"
  shows "succeeds (exact rt g) (atomic_write_bytes p payload) (\<lambda>_. exact rt (g(p \<mapsto> File payload)))"
proof (rule succeedsI)
  fix w u w' assume "exact rt g w" and run: "atomic_write_bytes p payload w = (Inr u, w')"
  then have c: "clean rt (files w)" and g: "node_at (files w) = g" by (simp_all add: exact_def)
  from atomic_write_outcome [OF c assms(1-3) _ run] assms(4) g
  show "exact rt (g(p \<mapsto> File payload)) w'" by (simp add: exact_def)
qed

lemma succeeds_iterdir:
  "below rt d \<Longrightarrow> succeeds (exact rt g) (iterdir d) (\<lambda>ns w. exact rt g w \<and> distinct ns \<and>
     set ns = {n. g (d @ [n]) \<noteq> None \<and> n \<noteq> ''.'' \<and> n \<noteq> ''..''})"
  by (rule succeedsI) (auto simp: exact_def listdir_clean dest!: iterdir_Inr)

lemma succeeds_mkdir_p_there:
  assumes "below rt p" "g p = Some Dir"
  shows "succeeds (exact rt g) (mkdir_p p) (\<lambda>_. exact rt g)"
  by (rule succeedsI) (use assms mkdir_p_there in \<open>auto simp: exact_def\<close>)

lemma succeeds_forI:
  assumes "\<And>x ys zs. xs = ys @ x # zs \<Longrightarrow> succeeds (I ys) (f x) (\<lambda>_. I (ys @ [x]))"
  shows "succeeds (I []) (forI f xs) (\<lambda>_. I xs)"
proof -
  have "succeeds (I ys) (forI f zs) (\<lambda>_. I (ys @ zs))" if "xs = ys @ zs" for ys zs
    using that
  proof (induction zs arbitrary: ys)
    case Nil
    then show ?case by (auto simp: succeeds_def)
  next
    case (Cons z zs)
    from Cons.prems have "succeeds (I ys) (f z) (\<lambda>_. I (ys @ [z]))" by (rule assms)
    moreover have "succeeds (I (ys @ [z])) (forI f zs) (\<lambda>_. I ((ys @ [z]) @ zs))"
      by (rule Cons.IH) (use Cons.prems in simp)
    ultimately show ?case by (auto intro: succeeds_thenI)
  qed
  from this [of "[]" xs] show ?thesis by simp
qed

end
