(* ===== verification/JobAuthority.thy ===== *)
theory JobAuthority
  imports JobStore ConfigPaths DirOps
begin

text \<open>
  \<^verbatim>\<open>agency/jobs/authority.py\<close>: the store of job documents that the program trusts, and the
  reference to a job that a worker is started with. A store is its root directory; \<open>Y\<close> is the
  YAML codec and \<open>H\<close> the hash. Identifiers that come out of a document are \<^typ>\<open>py\<close> values.
\<close>

section \<open>References\<close>

record authority_ref =
  af_store_root :: path
  af_group_id :: string
  af_job_id :: string
  af_digest :: string

definition authority_path :: "fs \<Rightarrow> authority_ref \<Rightarrow> path" where
  "authority_path fs a = resolve fs (af_store_root a @ [af_group_id a, af_job_id a @ ''.yaml''])"

definition worker_args :: "authority_ref \<Rightarrow> string list" where
  "worker_args a =
     [''--store-root'', path_str (af_store_root a), ''--group-id'', af_group_id a,
      ''--job-id'', af_job_id a, ''--immutable-digest'', af_digest a]"

definition authority_error :: "string \<Rightarrow> exn" where
  "authority_error text = Exn CJobAuthorityError text"

section \<open>The store\<close>

definition authority_store :: "fs \<Rightarrow> path \<Rightarrow> path" where
  "authority_store fs memory_store = job_store_root fs (resolve fs memory_store)"

definition from_store_root :: "fs \<Rightarrow> path \<Rightarrow> path res" where
  "from_store_root fs r =
     (let resolved = resolve fs r in
      bindR (assertR (resolved \<noteq> [] \<and> last resolved = ''.jobs'')
               (authority_error ''job authority store root must be the canonical .jobs directory'')) (\<lambda>_.
      bindR (assertR (authority_store fs (butlast resolved) = resolved)
               (authority_error ''job authority store root does not match the trusted canonical path'')) (\<lambda>_.
      Inr (authority_store fs (butlast resolved)))))"

definition authority_group_id :: "py \<Rightarrow> string res" where
  "authority_group_id v =
     bindR (assertR (is_str v \<and> slug_fullmatch (text_of v)) (value_error ''group_id must be a canonical stable identifier''))
       (\<lambda>_. Inr (text_of v))"

definition job_id_text :: "string \<Rightarrow> bool" where
  "job_id_text s \<longleftrightarrow> s \<noteq> [] \<and> is_alnum (hd s) \<and>
     list_all (\<lambda>c. is_alnum c \<or> c \<in> {CHR ''_'', CHR ''.'', CHR ''-''}) (tl s)"

definition authority_job_id :: "py \<Rightarrow> string res" where
  "authority_job_id v =
     bindR (assertR (is_str v \<and> job_id_text (text_of v)) (value_error ''job_id must be a canonical safe filename segment''))
       (\<lambda>_. Inr (text_of v))"

definition authority_job_path :: "fs \<Rightarrow> path \<Rightarrow> py \<Rightarrow> py \<Rightarrow> path res" where
  "authority_job_path fs r group_id job_id =
     bindR (authority_group_id group_id) (\<lambda>g.
     bindR (authority_job_id job_id) (\<lambda>j.
     let p = resolve fs (r @ [g, j @ ''.yaml'']) in
     bindR (assertR (butlast p = resolve fs (r @ [g])) (value_error ''job path escaped the authoritative store'')) (\<lambda>_.
     Inr p)))"

definition authority_group_root :: "fs \<Rightarrow> path \<Rightarrow> py \<Rightarrow> path res" where
  "authority_group_root fs r group_id = bindR (authority_group_id group_id) (\<lambda>g. Inr (resolve fs (r @ [g])))"

definition authority_artifact_root :: "fs \<Rightarrow> path \<Rightarrow> py \<Rightarrow> py \<Rightarrow> path res" where
  "authority_artifact_root fs r group_id job_id =
     bindR (authority_group_root fs r group_id) (\<lambda>d.
     bindR (authority_job_id job_id) (\<lambda>j.
     let p = resolve fs (d @ [''artifacts'', j]) in
     bindR (assertR (butlast p = resolve fs (d @ [''artifacts''])) (value_error ''artifact path escaped the authoritative store'')) (\<lambda>_.
     Inr p)))"

definition authority_reference :: "fs \<Rightarrow> path \<Rightarrow> py \<Rightarrow> py \<Rightarrow> py \<Rightarrow> authority_ref res" where
  "authority_reference fs r group_id job_id digest =
     bindR (authority_job_path fs r group_id job_id) (\<lambda>_.
     bindR (assertR (is_str digest \<and> hex64 (text_of digest)) (value_error ''immutable_digest must be a SHA-256 digest'')) (\<lambda>_.
     Inr \<lparr>af_store_root = r, af_group_id = text_of group_id, af_job_id = text_of job_id, af_digest = text_of digest\<rparr>))"

definition authority_create :: "codec \<Rightarrow> (string \<Rightarrow> string) \<Rightarrow> path \<Rightarrow> job_record \<Rightarrow> authority_ref fio" where
  "authority_create Y H r record =
     bindI (see (\<lambda>fs. authority_reference fs r (js_group_key (jr_spec record)) (js_job_id (jr_spec record)) (jr_authority_digest record))) (\<lambda>reference.
     bindI (liftR reference) (\<lambda>a.
     bindI (see (\<lambda>fs. (authority_path fs a, path_exists fs (authority_path fs a)))) (\<lambda>(p, there).
       thenI (assertI (\<not> there) (Exn CFileExistsError (path_str p)))
       (thenI (write_job Y H p record) (ret a)))))"

definition authority_read :: "codec \<Rightarrow> (string \<Rightarrow> string) \<Rightarrow> path \<Rightarrow> authority_ref \<Rightarrow> job_record fio" where
  "authority_read Y H r a =
     bindI (see (\<lambda>fs. authority_reference fs r (PStr (af_group_id a)) (PStr (af_job_id a)) (PStr (af_digest a)))) (\<lambda>reference.
     bindI (liftR reference) (\<lambda>expected.
     bindI (see (\<lambda>fs. (resolve fs (af_store_root a), authority_path fs expected))) (\<lambda>(own, p).
       thenI (assertI (own = r) (authority_error ''job authority store does not match the trusted root''))
         (try_only [CTypeError, CValueError] (read_job Y H p (Some (af_digest expected)))
           (\<lambda>_. raise (authority_error ''immutable job authority failed integrity validation''))))))"

definition authority_write :: "codec \<Rightarrow> (string \<Rightarrow> string) \<Rightarrow> authority_ref \<Rightarrow> job_record \<Rightarrow> unit fio" where
  "authority_write Y H a record =
     thenI (assertI (js_group_key (jr_spec record) = PStr (af_group_id a) \<and> js_job_id (jr_spec record) = PStr (af_job_id a))
              (authority_error ''job identity does not match its authority reference''))
     (thenI (assertI (jr_authority_digest record = PStr (af_digest a)) (authority_error ''immutable job authority digest changed''))
     (bindI (see (\<lambda>fs. authority_path fs a)) (\<lambda>p. write_job Y H p record)))"

definition authority_paths :: "fs \<Rightarrow> path \<Rightarrow> py \<Rightarrow> path list res" where
  "authority_paths fs r group_id = bindR (authority_group_root fs r group_id) (\<lambda>d. Inr (job_files d fs))"

definition authority_active :: "codec \<Rightarrow> (string \<Rightarrow> string) \<Rightarrow> path \<Rightarrow> py \<Rightarrow> string option \<Rightarrow> job_record list fio" where
  "authority_active Y H r group_id agent =
     bindI (see (\<lambda>fs. authority_paths fs r group_id)) (\<lambda>ps.
     bindI (liftR ps) (\<lambda>paths. active_jobs Y H paths agent))"

section \<open>Identifiers\<close>

lemma authority_group_id_Inr [simp]: "authority_group_id v = Inr g \<longleftrightarrow> v = PStr g \<and> slug_fullmatch g"
  by (cases v) (auto simp: authority_group_id_def bindR_Inr_iff)

lemma authority_job_id_Inr [simp]: "authority_job_id v = Inr j \<longleftrightarrow> v = PStr j \<and> job_id_text j"
  by (cases v) (auto simp: authority_job_id_def bindR_Inr_iff)

lemma authority_reference_Inr:
  "authority_reference fs r gid jid dg = Inr a \<longleftrightarrow>
     gid = PStr (af_group_id a) \<and> slug_fullmatch (af_group_id a) \<and> jid = PStr (af_job_id a) \<and> job_id_text (af_job_id a) \<and>
     dg = PStr (af_digest a) \<and> hex64 (af_digest a) \<and> af_store_root a = r \<and>
     butlast (authority_path fs a) = resolve fs (r @ [af_group_id a])"
  by (cases a; cases gid; cases jid; cases dg)
     (auto simp: authority_reference_def authority_job_path_def bindR_Inr_iff Let_def authority_path_def)

lemma slug_segment: "slug_fullmatch g \<Longrightarrow> g \<noteq> [] \<and> g \<noteq> ''..''"
  using slug_fullmatch_not_Nil [of g] slug_fullmatch_safe [of g] by auto

lemma job_file_name: "job_id_text j \<Longrightarrow> j @ ''.yaml'' \<noteq> ''..''"
  by (cases j) auto

lemma job_file_below:
  assumes "clean r fs" "slug_fullmatch g" "job_id_text j"
  shows "below r (r @ [g, j @ ''.yaml''])" "below r (r @ [g])" "strict_prefix r (r @ [g, j @ ''.yaml''])"
  using assms slug_segment [of g] job_file_name [of j] by (auto simp: below_def clean_def strict_prefix_def)

lemma authority_path_clean:
  assumes "clean r fs" "slug_fullmatch (af_group_id a)" "job_id_text (af_job_id a)" "af_store_root a = r"
  shows "authority_path fs a = r @ [af_group_id a, af_job_id a @ ''.yaml'']"
  using resolve_clean [OF assms(1) job_file_below(1) [OF assms(1-3)]] assms(4) by (simp add: authority_path_def)

lemma atomic_write_makes:
  assumes "clean rt (files w)" "below rt p" "strict_prefix rt p" "last p \<noteq> []" "atomic_write_bytes p payload w = (Inr u, w')"
  shows "clean rt (files w')" "node_at (files w') p = Some (File payload)"
    "q \<noteq> p \<Longrightarrow> \<not> prefix q p \<Longrightarrow> node_at (files w') q = node_at (files w) q"
proof -
  obtain w1 where m: "mkdir_p (butlast p) w = (Inr (), w1)"
    using assms(5) by (auto simp: atomic_write_bytes_def thenI_Inr_iff)
  note bp = strictly_below [OF assms(2,3)]
  note mk = mkdir_p_makes [OF assms(1) below_butlast [OF assms(2)] m]
  have eq: "atomic_write_bytes p payload w = atomic_write_bytes p payload w1"
    using m mkdir_p_there [OF conjunct1 [OF mk] below_butlast [OF assms(2)] conjunct2 [OF mk]]
    by (simp add: atomic_write_bytes_def thenI_apply)
  note o = atomic_write_outcome [OF conjunct1 [OF mk] assms(2-4) conjunct2 [OF mk], of payload "Inr u" w']
  from o eq assms(5)
  have n: "node_at (files w') = (node_at (files w1))(p \<mapsto> File payload)" "clean rt (files w')" by simp_all
  then show "clean rt (files w')" "node_at (files w') p = Some (File payload)" by simp_all
  assume q: "q \<noteq> p" "\<not> prefix q p"
  have "keeps (confined rt {q. prefix q p} (node_at (files w))) (mkdir_p (butlast p))"
    by (rule keeps_mkdir_p [OF below_butlast [OF assms(2)]]) (auto intro: prefix_order.trans [OF _ prefixeq_butlast])
  from keepsD [OF this confined_self [OF assms(1)] m] q show "node_at (files w') q = node_at (files w) q"
    by (simp add: n confined_def)
qed

section \<open>What a reference promises\<close>

lemma read_text_same: "read_text p w = (r, w') \<Longrightarrow> w' = w"
  by (auto simp: read_text_def read_bytes_def bindI_apply split: option.splits node.splits prod.splits sum.splits if_splits)

lemma read_job_expected:
  "read_job Y H p None w = (Inr x, w') \<Longrightarrow> jr_authority_digest x = PStr d \<Longrightarrow> read_job Y H p (Some d) w = (Inr x, w')"
  by (auto simp: read_job_def bindI_Inr_iff thenI_Inr_iff)

lemma read_job_authentic:
  assumes "read_job Y H p (Some d) w = (Inr x, w')"
  shows "w' = w \<and> record_ok H x \<and> jr_authority_digest x = PStr d"
  using assms by (auto simp: read_job_def bindI_Inr_iff thenI_Inr_iff dest: record_from_dict_ok read_text_same split: if_splits)

lemma authority_read_authentic:
  assumes "authority_read Y H r a w = (Inr x, w')"
  shows "w' = w \<and> record_ok H x \<and> immutable_digest H (jr_spec x) = af_digest a"
proof -
  from assms obtain p where "try_only [CTypeError, CValueError] (read_job Y H p (Some (af_digest a)))
      (\<lambda>_. raise (authority_error ''immutable job authority failed integrity validation'')) w = (Inr x, w')"
    by (auto simp: authority_read_def bindI_Inr_iff thenI_Inr_iff authority_reference_Inr split: if_splits)
  then have "read_job Y H p (Some (af_digest a)) w = (Inr x, w')"
    by (auto simp: try_only_def tryI_apply split: prod.splits sum.splits if_splits)
  from read_job_authentic [OF this] show ?thesis by (auto simp: record_ok_def)
qed

lemma authority_create_result:
  assumes "clean r (files w)" "authority_create Y H r record w = (Inr a, w')"
  shows "authority_reference (files w) r (js_group_key (jr_spec record)) (js_job_id (jr_spec record)) (jr_authority_digest record) = Inr a"
    and "node_at (files w) (authority_path (files w) a) = None" and "clean r (files w')"
    and "node_at (files w') (authority_path (files w) a) = Some (File (job_text Y record))"
    and "af_digest a = immutable_digest H (jr_spec record)"
    and "\<And>q. \<not> prefix q (authority_path (files w) a) \<Longrightarrow> node_at (files w') q = node_at (files w) q"
proof -
  from assms(2) have a: "authority_reference (files w) r (js_group_key (jr_spec record)) (js_job_id (jr_spec record)) (jr_authority_digest record) = Inr a"
    and e: "\<not> path_exists (files w) (authority_path (files w) a)" and wr: "write_job Y H (authority_path (files w) a) record w = (Inr (), w')"
    by (auto simp: authority_create_def bindI_Inr_iff thenI_Inr_iff split: if_splits)
  note ai = a [unfolded authority_reference_Inr]
  have p: "authority_path (files w) a = r @ [af_group_id a, af_job_id a @ ''.yaml'']"
    by (rule authority_path_clean [OF assms(1)]) (use ai in simp_all)
  note jb = job_file_below [OF assms(1), of "af_group_id a" "af_job_id a"]
  from wr have d: "jr_authority_digest record = PStr (immutable_digest H (jr_spec record))"
    and aw: "atomic_write_bytes (authority_path (files w) a) (job_text Y record) w = (Inr (), w')"
    by (auto simp: write_job_def thenI_Inr_iff atomic_write_text_def job_text_def split: if_splits)
  note aw' = atomic_write_makes [OF assms(1) _ _ _ aw]
  show "authority_reference (files w) r (js_group_key (jr_spec record)) (js_job_id (jr_spec record)) (jr_authority_digest record) = Inr a" by (rule a)
  show "node_at (files w) (authority_path (files w) a) = None"
    using e exists_clean [OF assms(1) jb(1)] ai by (simp add: p)
  show "clean r (files w')" "node_at (files w') (authority_path (files w) a) = Some (File (job_text Y record))"
    using aw'(1,2) jb ai by (simp_all add: p)
  show "af_digest a = immutable_digest H (jr_spec record)" using d ai by simp
  fix q assume "\<not> prefix q (authority_path (files w) a)"
  then show "node_at (files w') q = node_at (files w) q"
    using aw'(3) [of q] jb ai by (auto simp: p)
qed

text \<open>
  C28 - A reference binds the job it was made for. Creating a job only ever fills an empty place of the store, and
  reading it back through the reference gives the record. Whatever is done to the files afterwards, a
  worker that gets anything through the reference gets a valid record whose specification has the
  digest of the one that was created - so, unless the hash collides, that very specification.
\<close>

theorem job_reference_binds:
  assumes "codec_ok Y" "clean r (files w)" "json_ok (PDict (record_to_dict record))" "record_ok H record"
    and "authority_create Y H r record w = (Inr a, w')"
  shows "node_at (files w) (r @ [af_group_id a, af_job_id a @ ''.yaml'']) = None \<and>
    js_group_key (jr_spec record) = PStr (af_group_id a) \<and> js_job_id (jr_spec record) = PStr (af_job_id a) \<and>
    authority_read Y H r a w' = (Inr record, w') \<and>
    (\<forall>v x v'. authority_read Y H r a v = (Inr x, v') \<longrightarrow> v' = v \<and> record_ok H x \<and>
       immutable_digest H (jr_spec x) = immutable_digest H (jr_spec record))"
proof -
  note c = authority_create_result [OF assms(2,5)]
  note ai = c(1) [unfolded authority_reference_Inr]
  have p: "authority_path (files w) a = r @ [af_group_id a, af_job_id a @ ''.yaml'']"
    "authority_path (files w') a = r @ [af_group_id a, af_job_id a @ ''.yaml'']"
    by (rule authority_path_clean [OF assms(2)] authority_path_clean [OF c(3)]; use ai in simp)+
  note jb = job_file_below [OF c(3), of "af_group_id a" "af_job_id a"]
  have g: "resolve (files w') (r @ [af_group_id a]) = r @ [af_group_id a]" "resolve (files w') r = r"
    using resolve_clean [OF c(3)] jb(2) ai below_prefix [of r "r @ [af_group_id a]" r] by auto
  have "authority_reference (files w') r (PStr (af_group_id a)) (PStr (af_job_id a)) (PStr (af_digest a)) = Inr a"
    using ai resolve_clean [OF assms(2) job_file_below(2) [OF assms(2), of "af_group_id a" "af_job_id a"]]
    by (simp add: authority_reference_Inr p g)
  moreover have "holds Y H (authority_path (files w') a) record (node_at (files w'))"
    using c(4) assms(3,4) by (simp add: holds_def p)
  from read_job_holds [OF assms(1) c(3) _ this] jb(1) ai
  have "read_job Y H (authority_path (files w') a) None w' = (Inr record, w')" by (simp add: p)
  then have "read_job Y H (authority_path (files w') a) (Some (af_digest a)) w' = (Inr record, w')"
    using ai c(5) assms(4) by (intro read_job_expected) (simp_all add: record_ok_def)
  ultimately have "authority_read Y H r a w' = (Inr record, w')"
    using ai g(2) by (simp only: authority_read_def bindI_see bindI_liftR case_prod_conv thenI_apply assertI_apply
        try_only_def tryI_apply simp_thms if_True prod.case sum.case)
  moreover have "v' = v \<and> record_ok H x \<and> immutable_digest H (jr_spec x) = immutable_digest H (jr_spec record)"
    if "authority_read Y H r a v = (Inr x, v')" for v x v'
    using authority_read_authentic [OF that] c(5) by simp
  ultimately show ?thesis using c(2) [unfolded p(1)] ai by blast
qed

definition demo_hash :: "string \<Rightarrow> string" where
  "demo_hash s = replicate 64 (CHR ''0'')"

definition demo_job :: job_record where
  "demo_job = new_record demo_spec [(''authority_digest'', PStr (immutable_digest demo_hash demo_spec))]"

definition demo_job_world :: world where
  "demo_job_world = \<lparr>files = [([''m''], Dir), ([''m'', ''.jobs''], Dir), ([''m'', ''.jobs'', ''g''], Dir)], sched = [], busy = []\<rparr>"

definition demo_job_ref :: authority_ref where
  "demo_job_ref = \<lparr>af_store_root = [''m'', ''.jobs''], af_group_id = ''g'', af_job_id = ''j1'', af_digest = replicate 64 (CHR ''0'')\<rparr>"

lemma demo_job_facts:
  "clean [''m'', ''.jobs''] (files demo_job_world)" "record_ok demo_hash demo_job" "json_ok (PDict (record_to_dict demo_job))"
  "authority_reference (files demo_job_world) [''m'', ''.jobs''] (js_group_key (jr_spec demo_job))
     (js_job_id (jr_spec demo_job)) (jr_authority_digest demo_job) = Inr demo_job_ref"
proof -
  have "clean_check [''m'', ''.jobs''] (files demo_job_world)" by code_simp
  then show c: "clean [''m'', ''.jobs''] (files demo_job_world)" by (rule clean_checkI)
  have s: "js_group_key demo_spec = PStr ''g''" "js_job_id demo_spec = PStr ''j1''" by (simp_all add: demo_spec_def)
  have d: "jr_spec demo_job = demo_spec" "jr_authority_digest demo_job = PStr (replicate 64 (CHR ''0''))"
    "jr_status demo_job = PStr ''queued''"
    by (simp_all add: demo_job_def new_record_def immutable_digest_def demo_hash_def)
  show "record_ok demo_hash demo_job"
    by (simp add: record_ok_def d demo_spec_ok immutable_digest_def demo_hash_def valid_statuses_def)
  show "json_ok (PDict (record_to_dict demo_job))"
    using demo_spec_json distinct_record_to_dict [of demo_job]
    by (simp add: record_to_dict_def d record_values_def) (simp add: demo_job_def new_record_def immutable_digest_def demo_hash_def)
  have t: "slug_fullmatch ''g''" "job_id_text ''j1''" "hex64 (replicate 64 (CHR ''0''))" by code_simp+
  from resolve_clean [OF c job_file_below(2) [OF c t(1,2)]] authority_path_clean [OF c, of demo_job_ref] t
  show "authority_reference (files demo_job_world) [''m'', ''.jobs''] (js_group_key (jr_spec demo_job))
     (js_job_id (jr_spec demo_job)) (jr_authority_digest demo_job) = Inr demo_job_ref"
    by (simp add: authority_reference_Inr demo_job_ref_def d s)
qed

lemma demo_job_created:
  "\<exists>w'. authority_create json_codec demo_hash [''m'', ''.jobs''] demo_job demo_job_world = (Inr demo_job_ref, w')"
proof -
  let ?p = "[''m'', ''.jobs'', ''g'', ''j1.yaml'']"
  have t: "slug_fullmatch ''g''" "job_id_text ''j1''" by code_simp+
  have p: "authority_path (files demo_job_world) demo_job_ref = ?p"
    using authority_path_clean [OF demo_job_facts(1), of demo_job_ref] t by (simp add: demo_job_ref_def)
  note b = job_file_below [OF demo_job_facts(1) t, unfolded append.simps]
  have n: "node_at (files demo_job_world) ?p = None" "node_at (files demo_job_world) [''m'', ''.jobs'', ''g''] = Some Dir"
    "sched demo_job_world = []"
    by (simp_all add: demo_job_world_def node_at_def)
  have d: "jr_authority_digest demo_job = PStr (immutable_digest demo_hash (jr_spec demo_job))"
    using demo_job_facts(2) by (simp add: record_ok_def)
  from atomic_write_works [OF demo_job_facts(1) b(1) b(3), of "job_text json_codec demo_job"] n
  obtain w' where "atomic_write_bytes ?p (job_text json_codec demo_job) demo_job_world = (Inr (), w')" by auto
  then have "write_job json_codec demo_hash ?p demo_job demo_job_world = (Inr (), w')"
    using d by (simp add: write_job_def thenI_apply atomic_write_text_def job_text_def)
  moreover have "\<not> path_exists (files demo_job_world) ?p" using exists_clean [OF demo_job_facts(1) b(1)] n by simp
  ultimately show ?thesis
    by (simp add: authority_create_def demo_job_facts(4) p thenI_apply)
qed

lemma job_reference_binds_witness:
  "\<exists>w'. authority_create json_codec demo_hash [''m'', ''.jobs''] demo_job demo_job_world = (Inr demo_job_ref, w') \<and>
     authority_read json_codec demo_hash [''m'', ''.jobs''] demo_job_ref w' = (Inr demo_job, w')"
proof -
  from demo_job_created obtain w' where
    c: "authority_create json_codec demo_hash [''m'', ''.jobs''] demo_job demo_job_world = (Inr demo_job_ref, w')" ..
  with job_reference_binds [OF codec_ok_json demo_job_facts(1,3,2) c] show ?thesis by blast
qed

end
