(* ===== verification/Snapshot.thy ===== *)
theory Snapshot
  imports DirOps PyValue
begin

text \<open>
  \<^verbatim>\<open>agency/fs/snapshot.py\<close>: reading a directory tree while other processes may write to it. The
  state of a scan is the view of the file system that the next system call will see, followed by
  the views of the calls after it: other processes may change the tree between any two calls, and
  a theorem for every sequence of views covers all that they do. A view also tells the
  modification time, the device and the inode of a path. The hash, \<open>str.casefold\<close> and the depth
  at which the interpreter stops a recursion are the record \<open>asset_env\<close>. Reparse points exist on
  Windows only.
\<close>

record asset_env =
  ae_hash :: "bytes \<Rightarrow> string"
  ae_casefold :: "string \<Rightarrow> string"
  ae_depth :: nat

record view =
  vw_fs :: fs
  vw_meta :: "path \<Rightarrow> int \<times> int \<times> int"

type_synonym 'a scan = "(view \<times> view list, 'a) io"

text \<open>One system call that reads.\<close>

definition look :: "(view \<Rightarrow> 'a) \<Rightarrow> 'a scan" where
  "look f s = (case s of
     (v, []) \<Rightarrow> (Inr (f v), (v, []))
   | (v, v' # vs) \<Rightarrow> (Inr (f v), (v', vs)))"

fun foldI :: "('a \<Rightarrow> 'b \<Rightarrow> ('s, 'b) io) \<Rightarrow> 'a list \<Rightarrow> 'b \<Rightarrow> ('s, 'b) io" where
  "foldI f [] acc = ret acc"
| "foldI f (x # xs) acc = bindI (f x acc) (foldI f xs)"

section \<open>Files and snapshots\<close>

text \<open>A relative path is the list of its parts.\<close>

record snapshot_file =
  sf_path :: path
  sf_content :: bytes

record tree_snapshot =
  ts_files :: "snapshot_file list"
  ts_digest :: string

record inventory_entry =
  ie_path :: path
  ie_size :: nat
  ie_meta :: "int \<times> int \<times> int"

record scan_result =
  sc_files :: "snapshot_file list"
  sc_inventory :: "inventory_entry list"

definition as_posix :: "path \<Rightarrow> string" where
  "as_posix p = (if p = [] then ''.'' else join ''/'' p)"

text \<open>\<open>PurePosixPath(text)\<close> of a relative path.\<close>

definition posix_parts :: "string \<Rightarrow> path" where
  "posix_parts s = filter (\<lambda>c. c \<noteq> [] \<and> c \<noteq> ''.'') (split_on CHR ''/'' s)"

definition snapshot_entry :: "tree_snapshot \<Rightarrow> string \<Rightarrow> snapshot_file res" where
  "snapshot_entry s relative_path =
     (case find (\<lambda>f. sf_path f = posix_parts relative_path) (ts_files s) of
        Some f \<Rightarrow> Inr f | None \<Rightarrow> Inl (Exn CKeyError relative_path))"

section \<open>Names\<close>

definition asset_issue :: "string \<Rightarrow> string \<Rightarrow> string \<Rightarrow> string \<Rightarrow> exn" where
  "asset_issue code fld message hint = Invalid CAssetValidationError
     [\<lparr>iss_code = code, iss_scope = ''blueprint'', iss_field = fld, iss_message = message, iss_hint = hint\<rparr>]"

definition asset_error :: "string \<Rightarrow> string \<Rightarrow> string \<Rightarrow> exn" where
  "asset_error fld message hint = asset_issue ''invalid-blueprint-asset'' fld message hint"

definition windows_reserved :: "string list" where
  "windows_reserved = [''con'', ''prn'', ''aux'', ''nul''] @
     map (\<lambda>c. ''com'' @ [c]) ''123456789'' @ map (\<lambda>c. ''lpt'' @ [c]) ''123456789''"

text \<open>\<open>name.rstrip(" .").split(".", 1)[0].casefold()\<close>\<close>

definition asset_stem :: "asset_env \<Rightarrow> string \<Rightarrow> string" where
  "asset_stem E n =
     ae_casefold E (takeWhile (\<lambda>c. c \<noteq> CHR ''.'')
       (rev (dropWhile (\<lambda>c. c = CHR '' '' \<or> c = CHR ''.'') (rev n))))"

definition validate_name :: "asset_env \<Rightarrow> string \<Rightarrow> string \<Rightarrow> unit res" where
  "validate_name E n fld =
     bindR (assertR (n \<notin> {[], ''.'', ''..''})
              (asset_error fld (''Invalid path segment: '' @ repr_str n @ ''.'') ''Remove empty or relative path segments.'')) (\<lambda>_.
     bindR (assertR (\<not> endswith n '' '' \<and> \<not> endswith n ''.'')
              (asset_error fld (''Path segment is not stable on Windows: '' @ repr_str n @ ''.'')
                ''Remove trailing spaces or dots from file and directory names.'')) (\<lambda>_.
       assertR (asset_stem E n \<notin> set windows_reserved)
              (asset_error fld (''Windows reserved path segment is not allowed: '' @ repr_str n @ ''.'')
                ''Rename the file or directory to a non-reserved name.'')))"

text \<open>The parts are names of directory entries; a part with a leading slash would be absolute.\<close>

definition relative_path :: "asset_env \<Rightarrow> string list \<Rightarrow> path res" where
  "relative_path E parts =
     bindR (foldR (\<lambda>(i, part) _. validate_name E part (''path['' @ show_nat i @ '']''))
              (zip [0..<length parts] parts) ()) (\<lambda>_.
     bindR (assertR (\<not> list_ex (\<lambda>p. startswith p ''/'' \<or> p \<in> {[], ''.'', ''..''}) parts)
              (asset_error ''path'' (''Blueprint path escapes are not allowed: '' @ repr_str (as_posix parts) @ ''.'')
                ''Keep every captured file inside the blueprint root.'')) (\<lambda>_.
       Inr parts))"

definition casefold_key :: "asset_env \<Rightarrow> path \<Rightarrow> string" where
  "casefold_key E p = ae_casefold E (as_posix p)"

section \<open>Scanning\<close>

definition root_stat :: "path \<Rightarrow> unit scan" where
  "root_stat d =
     bindI (look (\<lambda>v. lstat_node (vw_fs v) d)) (\<lambda>n. case n of
       None \<Rightarrow> raise (asset_issue ''missing-blueprint-root'' ''root'' (''Blueprint root does not exist: '' @ path_str d @ ''.'')
                       ''Create the blueprint directory before capturing it.'')
     | Some Dir \<Rightarrow> ret ()
     | Some _ \<Rightarrow> raise (asset_issue ''invalid-blueprint-root'' ''root'' (''Blueprint root is not a directory: '' @ path_str d @ ''.'')
                       ''Point capture_tree() at a real directory.''))"

definition unstable :: "string \<Rightarrow> exn" where
  "unstable what = asset_issue ''unstable-blueprint-source'' ''root'' (''Blueprint source changed while scanning: '' @ what @ ''.'')
     ''Retry after the source tree stops changing.''"

text \<open>\<open>os.scandir\<close>: a missing directory is a change under way.\<close>

definition scandir :: "path \<Rightarrow> path \<Rightarrow> string list scan" where
  "scandir d p =
     bindI (look (\<lambda>v. (stat_node (vw_fs v) p, listdir (vw_fs v) p))) (\<lambda>(n, names). case n of
       None \<Rightarrow> raise (unstable (path_str d))
     | Some Dir \<Rightarrow> ret names
     | Some _ \<Rightarrow> raise (Exn CNotADirectoryError ''Not a directory''))"

definition scan_read :: "path \<Rightarrow> bytes scan" where
  "scan_read p = bindI (look (\<lambda>v. stat_node (vw_fs v) p)) (\<lambda>n. case n of
       Some (File b) \<Rightarrow> ret b
     | Some Dir \<Rightarrow> raise (Exn CIsADirectoryError ''Is a directory'')
     | Some _ \<Rightarrow> raise (Exn COSError ''Unsupported node'')
     | None \<Rightarrow> raise missing)"

record scan_acc =
  sa_files :: "snapshot_file list"
  sa_inventory :: "inventory_entry list"
  sa_exact :: "path list"
  sa_folded :: "string list"

definition node_size :: "node option \<Rightarrow> nat" where
  "node_size n = (case n of Some (File b) \<Rightarrow> length b | _ \<Rightarrow> 0)"

text \<open>One entry of a directory; \<open>deeper\<close> visits it when it is a directory.\<close>

definition scan_entry ::
  "asset_env \<Rightarrow> (path \<Rightarrow> string list \<Rightarrow> scan_acc \<Rightarrow> scan_acc scan) \<Rightarrow> path \<Rightarrow> string list \<Rightarrow> string \<Rightarrow> scan_acc \<Rightarrow> scan_acc scan" where
  "scan_entry E deeper p parts n acc =
     bindI (liftR (relative_path E (parts @ [n]))) (\<lambda>relative.
     thenI (assertI (relative \<notin> set (sa_exact acc) \<and> casefold_key E relative \<notin> set (sa_folded acc))
              (asset_issue ''duplicate-blueprint-path'' ''path''
                (''Blueprint contains duplicate normalized or case-folded paths: '' @ as_posix relative @ ''.'')
                ''Rename colliding files so every relative path is unique on all supported platforms.''))
     (bindI (look (\<lambda>v. (lstat_node (vw_fs v) (p @ [n]), vw_meta v (p @ [n])))) (\<lambda>(st, meta).
      thenI (assertI (st \<noteq> None) (unstable (as_posix relative)))
      (let acc = acc\<lparr>sa_exact := relative # sa_exact acc, sa_folded := casefold_key E relative # sa_folded acc\<rparr> in
       if st = Some Dir then deeper (p @ [n]) (parts @ [n]) acc
       else thenI (assertI (is_regular st)
                (asset_error (as_posix relative) (''Only regular files are allowed in blueprints: '' @ as_posix relative @ ''.'')
                  ''Remove device, pipe, or other special filesystem entries from the blueprint source.''))
         (bindI (scan_read (p @ [n])) (\<lambda>content.
            ret (acc\<lparr>sa_files := sa_files acc @ [\<lparr>sf_path = relative, sf_content = content\<rparr>],
                     sa_inventory := sa_inventory acc @ [\<lparr>ie_path = relative, ie_size = node_size st, ie_meta = meta\<rparr>]\<rparr>)))))))"

primrec visit :: "nat \<Rightarrow> asset_env \<Rightarrow> path \<Rightarrow> path \<Rightarrow> string list \<Rightarrow> scan_acc \<Rightarrow> scan_acc scan" where
  "visit 0 E d p parts acc = raise (Exn CRuntimeError ''maximum recursion depth exceeded'')"
| "visit (Suc k) E d p parts acc =
     bindI (scandir d p) (\<lambda>names.
       foldI (scan_entry E (visit k E d) p parts) (sort_key (ae_casefold E) names) acc)"

definition scan_tree :: "asset_env \<Rightarrow> path \<Rightarrow> scan_result scan" where
  "scan_tree E d =
     thenI (root_stat d)
       (bindI (visit (ae_depth E) E d d [] \<lparr>sa_files = [], sa_inventory = [], sa_exact = [], sa_folded = []\<rparr>) (\<lambda>acc.
          ret \<lparr>sc_files = sort_key (\<lambda>f. as_posix (sf_path f)) (sa_files acc),
               sc_inventory = sort_key (\<lambda>i. as_posix (ie_path i)) (sa_inventory acc)\<rparr>))"

section \<open>The digest of a source tree\<close>

definition path_prefix :: bytes where
  "path_prefix = ''agency-blueprint-source:v1'' @ [CHR 0x00]"

text \<open>\<open>n.to_bytes(k, "big", signed=False)\<close>: \<open>k\<close> bytes, or \<open>OverflowError\<close>.\<close>

primrec to_bytes :: "nat \<Rightarrow> nat \<Rightarrow> bytes res" where
  "to_bytes 0 n = (if n = 0 then Inr [] else Inl (Exn COverflowError ''int too big to convert''))"
| "to_bytes (Suc k) n = bindR (to_bytes k (n div 256)) (\<lambda>b. Inr (b @ [char_of (n mod 256)]))"

definition framed :: "bytes \<Rightarrow> bytes res" where
  "framed b = bindR (to_bytes 8 (length b)) (\<lambda>n. Inr (n @ b))"

definition digest_file :: "snapshot_file \<Rightarrow> bytes \<Rightarrow> bytes res" where
  "digest_file f acc =
     bindR (framed (utf8_encode (as_posix (sf_path f)))) (\<lambda>p.
     bindR (framed (sf_content f)) (\<lambda>c. Inr (acc @ p @ c)))"

definition source_text :: "snapshot_file list \<Rightarrow> bytes res" where
  "source_text fl = foldR digest_file (sort_key (\<lambda>f. as_posix (sf_path f)) fl) path_prefix"

definition compute_source_digest :: "asset_env \<Rightarrow> snapshot_file list \<Rightarrow> string res" where
  "compute_source_digest E fl = bindR (source_text fl) (\<lambda>t. Inr (ae_hash E t))"

section \<open>Capturing\<close>

text \<open>Two scans with the same inventory make a snapshot; otherwise the next attempt.\<close>

primrec capture_attempts :: "nat \<Rightarrow> asset_env \<Rightarrow> path \<Rightarrow> tree_snapshot scan" where
  "capture_attempts 0 E d = raise (unstable (path_str d))"
| "capture_attempts (Suc n) E d =
     bindI (scan_tree E d) (\<lambda>one.
     bindI (scan_tree E d) (\<lambda>two.
       if sc_inventory one = sc_inventory two
       then bindI (liftR (compute_source_digest E (sc_files two))) (\<lambda>digest.
              ret \<lparr>ts_files = sc_files two, ts_digest = digest\<rparr>)
       else capture_attempts n E d))"

definition capture_tree :: "asset_env \<Rightarrow> path \<Rightarrow> int \<Rightarrow> tree_snapshot scan" where
  "capture_tree E d attempts =
     thenI (assertI (1 \<le> attempts) (Exn CValueError ''attempts must be at least 1''))
       (capture_attempts (nat attempts) E d)"

text \<open>A capture in a world where nobody else writes.\<close>

definition still :: "fs \<Rightarrow> view" where
  "still fs = \<lparr>vw_fs = fs, vw_meta = \<lambda>_. (0, 0, 0)\<rparr>"

definition quietly :: "'a scan \<Rightarrow> 'a fio" where
  "quietly m w = (fst (m (still (files w), [])), w)"


section \<open>The framing is injective\<close>

primrec big_endian :: "nat \<Rightarrow> nat \<Rightarrow> bytes" where
  "big_endian 0 n = []"
| "big_endian (Suc k) n = big_endian k (n div 256) @ [char_of (n mod 256)]"

lemma to_bytes_Inr: "to_bytes k n = Inr b \<longleftrightarrow> n < 256 ^ k \<and> b = big_endian k n"
  by (induction k arbitrary: n b) (auto simp: bindR_Inr_iff div_less_iff_less_mult mult.commute)

lemma length_big_endian [simp]: "length (big_endian k n) = k"
  by (induction k arbitrary: n) auto

lemma big_endian_Nil [simp]: "big_endian k n = [] \<longleftrightarrow> k = 0"
  by (cases k) auto

lemma big_endian_inject: "n < 256 ^ k \<Longrightarrow> m < 256 ^ k \<Longrightarrow> big_endian k n = big_endian k m \<Longrightarrow> n = m"
proof (induction k arbitrary: n m)
  case 0
  then show ?case by simp
next
  case (Suc k)
  have "of_char (char_of (n mod 256) :: char) = (of_char (char_of (m mod 256) :: char) :: nat)"
    using Suc.prems(3) by simp
  then have e: "n mod 256 = m mod 256" by simp
  have "n div 256 = m div 256"
    by (rule Suc.IH) (use Suc.prems in \<open>auto simp: less_mult_imp_div_less mult.commute\<close>)
  with e show ?case by (metis div_mult_mod_eq)
qed

lemma framed_Inr: "framed b = Inr x \<longleftrightarrow> length b < 2 ^ 64 \<and> x = big_endian 8 (length b) @ b"
  by (auto simp: framed_def bindR_Inr_iff to_bytes_Inr)

lemma framed_prefix_free:
  assumes "framed a = Inr x" "framed b = Inr y" "x @ s = y @ t"
  shows "a = b \<and> s = t"
proof -
  from assms have "big_endian 8 (length a) @ a @ s = big_endian 8 (length b) @ b @ t"
    by (auto simp: framed_Inr)
  then have h: "big_endian 8 (length a) = big_endian 8 (length b)" and r: "a @ s = b @ t"
    by (simp_all add: append_eq_append_conv)
  from assms have "length a = length b"
    by (intro big_endian_inject [OF _ _ h]) (auto simp: framed_Inr)
  with r show ?thesis by simp
qed

text \<open>What the files after the prefix contribute.\<close>

fun frames :: "snapshot_file list \<Rightarrow> bytes res" where
  "frames [] = Inr []"
| "frames (f # fl) =
     bindR (framed (utf8_encode (as_posix (sf_path f)))) (\<lambda>p.
     bindR (framed (sf_content f)) (\<lambda>c.
     bindR (frames fl) (\<lambda>r. Inr (p @ c @ r))))"

lemma foldR_digest_file: "foldR digest_file fl acc = bindR (frames fl) (\<lambda>u. Inr (acc @ u))"
proof (induction fl arbitrary: acc)
  case Nil
  then show ?case by simp
next
  case (Cons f fl)
  have one: "digest_file f acc = bindR (framed (utf8_encode (as_posix (sf_path f)))) (\<lambda>p.
      bindR (framed (sf_content f)) (\<lambda>c. Inr (acc @ p @ c)))"
    by (simp add: digest_file_def)
  show ?case
    by (cases "framed (utf8_encode (as_posix (sf_path f)))"; cases "framed (sf_content f)"; cases "frames fl")
       (simp_all add: one Cons.IH)
qed

definition file_key :: "snapshot_file \<Rightarrow> string \<times> bytes" where
  "file_key f = (as_posix (sf_path f), sf_content f)"

lemma frames_inject:
  "frames fl = Inr t \<Longrightarrow> frames gl = Inr t \<Longrightarrow> map file_key fl = map file_key gl"
proof (induction fl arbitrary: gl t)
  case Nil
  then show ?case by (cases gl) (auto simp: bindR_Inr_iff framed_Inr)
next
  case (Cons f fl)
  from Cons.prems(1) obtain p c r where f: "framed (utf8_encode (as_posix (sf_path f))) = Inr p"
      "framed (sf_content f) = Inr c" "frames fl = Inr r" and t: "t = p @ c @ r"
    by (auto simp: bindR_Inr_iff)
  from Cons.prems(2) t f obtain g hl where gl: "gl = g # hl"
    by (cases gl) (auto simp: framed_Inr)
  with Cons.prems(2) obtain p' c' r' where g: "framed (utf8_encode (as_posix (sf_path g))) = Inr p'"
      "framed (sf_content g) = Inr c'" "frames hl = Inr r'" and t': "t = p' @ c' @ r'"
    by (auto simp: bindR_Inr_iff)
  note pq = framed_prefix_free [OF f(1) g(1) t [unfolded t', symmetric]]
  then have a: "as_posix (sf_path f) = as_posix (sf_path g)" by simp
  from framed_prefix_free [OF f(2) g(2) conjunct2 [OF pq]]
  have b: "sf_content f = sf_content g" and "r = r'" by simp_all
  with Cons.IH [OF f(3)] g(3) have "map file_key fl = map file_key hl" by simp
  moreover from a b have "file_key f = file_key g" by (simp add: file_key_def)
  ultimately show ?case by (simp add: gl)
qed

lemma frames_defined:
  "(\<exists>t. frames fl = Inr t) \<longleftrightarrow>
     (\<forall>f\<in>set fl. length (utf8_encode (as_posix (sf_path f))) < 2 ^ 64 \<and> length (sf_content f) < 2 ^ 64)"
  by (induction fl) (auto simp: bindR_Inr_iff framed_Inr)

section \<open>The text of a path\<close>

definition plain_path :: "path \<Rightarrow> bool" where
  "plain_path p \<longleftrightarrow> p \<noteq> [] \<and> list_all (\<lambda>c. c \<noteq> [] \<and> c \<noteq> ''.'' \<and> CHR ''/'' \<notin> set c) p"

lemma split_on_append:
  "sep \<notin> set c \<Longrightarrow> split_on sep (c @ sep # s) = c # split_on sep s"
  by (induction c) auto

lemma split_on_join: "p \<noteq> [] \<Longrightarrow> list_all (\<lambda>c. CHR ''/'' \<notin> set c) p \<Longrightarrow> split_on CHR ''/'' (join ''/'' p) = p"
proof (induction p rule: induct_list012)
  case (3 c d p)
  then show ?case using split_on_append [of "CHR ''/''" c "join ''/'' (d # p)"] by simp
qed (simp_all add: split_on_id)

lemma posix_parts_as_posix: "plain_path p \<Longrightarrow> posix_parts (as_posix p) = p"
proof -
  assume p: "plain_path p"
  then have "split_on CHR ''/'' (join ''/'' p) = p"
    by (intro split_on_join) (auto simp: plain_path_def list_all_iff)
  with p show ?thesis by (auto simp: posix_parts_def as_posix_def plain_path_def list_all_iff intro!: filter_True)
qed

lemma file_key_inject:
  "list_all (\<lambda>f. plain_path (sf_path f)) fl \<Longrightarrow> list_all (\<lambda>f. plain_path (sf_path f)) gl \<Longrightarrow>
   map file_key fl = map file_key gl \<Longrightarrow> fl = gl"
proof (induction fl arbitrary: gl)
  case (Cons f fl)
  then obtain g hl where gl: "gl = g # hl" by (cases gl) auto
  from Cons.prems gl have "as_posix (sf_path f) = as_posix (sf_path g)" "sf_content f = sf_content g"
    by (auto simp: file_key_def)
  moreover from this(1) have "sf_path f = sf_path g"
    using Cons.prems gl posix_parts_as_posix by (metis list.pred_inject(2))
  ultimately show ?case using Cons gl by (simp add: snapshot_file.equality)
qed simp

text \<open>
  C35 - The digest of a source tree. It exists exactly when every path and every content has
  fewer than 2^64 bytes (beyond that the eight length bytes raise \<open>OverflowError\<close>). Unless two
  different texts have the same hash, two trees with the same digest have the same files with the
  same contents: the length bytes keep paths and contents apart whatever bytes they consist of.
\<close>

theorem source_digest_determines_tree:
  assumes "\<And>x y. source_text a = Inr x \<Longrightarrow> source_text b = Inr y \<Longrightarrow> ae_hash E x = ae_hash E y \<Longrightarrow> x = y"
    and "list_all (\<lambda>f. plain_path (sf_path f)) a" "list_all (\<lambda>f. plain_path (sf_path f)) b"
  shows "((\<exists>d. compute_source_digest E a = Inr d) \<longleftrightarrow>
          (\<forall>f\<in>set a. length (utf8_encode (as_posix (sf_path f))) < 2 ^ 64 \<and> length (sf_content f) < 2 ^ 64)) \<and>
         (\<forall>d. compute_source_digest E a = Inr d \<and> compute_source_digest E b = Inr d \<longrightarrow>
            sort_key (\<lambda>f. as_posix (sf_path f)) a = sort_key (\<lambda>f. as_posix (sf_path f)) b)"
proof (intro conjI allI impI; (elim conjE)?)
  let ?s = "sort_key (\<lambda>f. as_posix (sf_path f))"
  show "(\<exists>d. compute_source_digest E a = Inr d) \<longleftrightarrow>
    (\<forall>f\<in>set a. length (utf8_encode (as_posix (sf_path f))) < 2 ^ 64 \<and> length (sf_content f) < 2 ^ 64)"
    using frames_defined [of "?s a"]
    by (simp add: compute_source_digest_def source_text_def foldR_digest_file bindR_Inr_iff)
  fix d assume "compute_source_digest E a = Inr d" "compute_source_digest E b = Inr d"
  then obtain t u where t: "frames (?s a) = Inr t" and u: "frames (?s b) = Inr u"
    and h: "ae_hash E (path_prefix @ t) = ae_hash E (path_prefix @ u)"
    by (auto simp: compute_source_digest_def source_text_def foldR_digest_file bindR_Inr_iff)
  have "source_text a = Inr (path_prefix @ t)" "source_text b = Inr (path_prefix @ u)"
    by (simp_all only: source_text_def foldR_digest_file t u bindR_simps)
  from assms(1) [OF this h] have "t = u" by simp
  with frames_inject t u have "map file_key (?s a) = map file_key (?s b)" by blast
  with assms(2,3) show "?s a = ?s b" by (intro file_key_inject) (auto simp: list_all_iff)
qed

section \<open>What a scan accepts\<close>

lemma look_Inr: "look f s = (Inr x, s') \<longleftrightarrow> x = f (fst s) \<and> s' = (case snd s of [] \<Rightarrow> s | v # vs \<Rightarrow> (v, vs))"
  by (auto simp: look_def split: prod.splits list.splits)

lemma foldI_Inr:
  assumes "\<And>x acc s acc' s'. x \<in> set xs \<Longrightarrow> P acc \<Longrightarrow> f x acc s = (Inr acc', s') \<Longrightarrow> P acc'"
    and "P acc" "foldI f xs acc s = (Inr acc', s')"
  shows "P acc'"
  using assms
proof (induction xs arbitrary: acc s)
  case (Cons x xs)
  from Cons.prems(3) obtain a t where x: "f x acc s = (Inr a, t)" "foldI f xs a t = (Inr acc', s')"
    by (auto simp: bindI_Inr_iff)
  with Cons.prems(1) [OF _ Cons.prems(2) x(1)] show ?case by (intro Cons.IH [OF Cons.prems(1) _ x(2)]) auto
qed simp

lemma relative_path_Inr: "relative_path E p = Inr q \<Longrightarrow> q = p"
  by (auto simp: relative_path_def bindR_Inr_iff)

text \<open>The files found so far lie at valid paths, and no two paths are equal up to case.\<close>

definition acc_ok :: "asset_env \<Rightarrow> scan_acc \<Rightarrow> bool" where
  "acc_ok E acc \<longleftrightarrow>
     sa_folded acc = map (casefold_key E) (sa_exact acc) \<and> distinct (sa_folded acc) \<and>
     distinct (map sf_path (sa_files acc)) \<and> (\<forall>f\<in>set (sa_files acc). sf_path f \<in> set (sa_exact acc)) \<and>
     (\<forall>p\<in>set (sa_exact acc). p \<noteq> [] \<and> relative_path E p = Inr p)"

lemma scan_entry_cases:
  assumes "scan_entry E deeper p parts n acc s = (Inr acc', s')"
  obtains st meta t acc1 where
    "relative_path E (parts @ [n]) = Inr (parts @ [n])" "parts @ [n] \<notin> set (sa_exact acc)"
    "casefold_key E (parts @ [n]) \<notin> set (sa_folded acc)"
    "look (\<lambda>v. (lstat_node (vw_fs v) (p @ [n]), vw_meta v (p @ [n]))) s = (Inr (st, meta), t)"
    "acc1 = acc\<lparr>sa_exact := (parts @ [n]) # sa_exact acc, sa_folded := casefold_key E (parts @ [n]) # sa_folded acc\<rparr>"
    "st = Some Dir \<and> deeper (p @ [n]) (parts @ [n]) acc1 t = (Inr acc', s') \<or>
     (is_regular st \<and> (\<exists>b. scan_read (p @ [n]) t = (Inr b, s') \<and>
        acc' = acc1\<lparr>sa_files := sa_files acc @ [\<lparr>sf_path = parts @ [n], sf_content = b\<rparr>],
          sa_inventory := sa_inventory acc @ [\<lparr>ie_path = parts @ [n], ie_size = node_size st, ie_meta = meta\<rparr>]\<rparr>))"
  using assms unfolding scan_entry_def
  by (auto simp: bindI_Inr_iff thenI_Inr_iff Let_def dest!: relative_path_Inr split: if_splits)

lemma scan_entry_ok:
  assumes "\<And>q ps a t a' t'. acc_ok E a \<Longrightarrow> deeper q ps a t = (Inr a', t') \<Longrightarrow> acc_ok E a'"
    and "acc_ok E acc" "scan_entry E deeper p parts n acc s = (Inr acc', s')"
  shows "acc_ok E acc'"
  using assms(3)
proof (cases rule: scan_entry_cases)
  case (1 st meta t acc1)
  from 1(1-3,5) assms(2) have a: "acc_ok E acc1" by (auto simp: acc_ok_def)
  from 1(6) show ?thesis
  proof
    assume "st = Some Dir \<and> deeper (p @ [n]) (parts @ [n]) acc1 t = (Inr acc', s')"
    with assms(1) [OF a] show ?thesis by blast
  next
    assume "is_regular st \<and> (\<exists>b. scan_read (p @ [n]) t = (Inr b, s') \<and>
        acc' = acc1\<lparr>sa_files := sa_files acc @ [\<lparr>sf_path = parts @ [n], sf_content = b\<rparr>],
          sa_inventory := sa_inventory acc @ [\<lparr>ie_path = parts @ [n], ie_size = node_size st, ie_meta = meta\<rparr>]\<rparr>)"
    moreover have "\<forall>f\<in>set (sa_files acc). sf_path f \<noteq> parts @ [n]" using 1(2) assms(2) by (auto simp: acc_ok_def)
    ultimately show ?thesis using a 1(5) assms(2) by (auto simp: acc_ok_def)
  qed
qed

lemma visit_ok:
  "acc_ok E acc \<Longrightarrow> visit k E d p parts acc s = (Inr acc', s') \<Longrightarrow> acc_ok E acc'"
proof (induction k arbitrary: p parts acc s acc' s')
  case (Suc k)
  from Suc.prems(2) obtain names t where "foldI (scan_entry E (visit k E d) p parts) names acc t = (Inr acc', s')"
    by (auto simp: bindI_Inr_iff)
  then show ?case
    by (rule foldI_Inr [where P = "acc_ok E", rotated 2]) (use Suc in \<open>auto elim!: scan_entry_ok [rotated 2]\<close>)
qed simp

definition snapshot_ok :: "asset_env \<Rightarrow> snapshot_file list \<Rightarrow> bool" where
  "snapshot_ok E fl \<longleftrightarrow>
     sorted (map (\<lambda>f. as_posix (sf_path f)) fl) \<and> distinct (map (\<lambda>f. casefold_key E (sf_path f)) fl) \<and>
     (\<forall>f\<in>set fl. sf_path f \<noteq> [] \<and> relative_path E (sf_path f) = Inr (sf_path f))"

lemma scan_tree_ok: "scan_tree E d s = (Inr r, s') \<Longrightarrow> snapshot_ok E (sc_files r)"
proof -
  assume "scan_tree E d s = (Inr r, s')"
  then obtain t acc where v: "visit (ae_depth E) E d d [] \<lparr>sa_files = [], sa_inventory = [], sa_exact = [], sa_folded = []\<rparr> t = (Inr acc, s')"
    and r: "sc_files r = sort_key (\<lambda>f. as_posix (sf_path f)) (sa_files acc)"
    by (auto simp: scan_tree_def thenI_Inr_iff bindI_Inr_iff)
  have a: "acc_ok E acc" by (rule visit_ok [OF _ v]) (simp add: acc_ok_def)
  have "inj_on (casefold_key E) (set (sa_exact acc))" using a by (auto simp: acc_ok_def distinct_map)
  then have "inj_on (casefold_key E \<circ> sf_path) (set (sa_files acc))"
    using a by (intro comp_inj_on) (auto simp: acc_ok_def distinct_map elim: inj_on_subset)
  moreover have "distinct (sa_files acc)" using a by (auto simp: acc_ok_def distinct_map)
  ultimately have "distinct (map (\<lambda>f. casefold_key E (sf_path f)) (sc_files r))"
    by (simp add: r distinct_map o_def)
  with a show ?thesis by (auto simp: snapshot_ok_def r acc_ok_def)
qed

lemma capture_attempts_Inr:
  assumes "capture_attempts n E d s = (Inr snap, s')"
  obtains s1 one s2 two where "scan_tree E d s1 = (Inr one, s2)" "scan_tree E d s2 = (Inr two, s')"
    "sc_inventory one = sc_inventory two" "compute_source_digest E (sc_files two) = Inr (ts_digest snap)"
    "ts_files snap = sc_files two"
  using assms
proof (induction n arbitrary: s)
  case (Suc n)
  from Suc.prems(2) obtain one t two u where o: "scan_tree E d s = (Inr one, t)" "scan_tree E d t = (Inr two, u)"
    and r: "(if sc_inventory one = sc_inventory two
       then bindI (liftR (compute_source_digest E (sc_files two))) (\<lambda>digest. ret \<lparr>ts_files = sc_files two, ts_digest = digest\<rparr>)
       else capture_attempts n E d) u = (Inr snap, s')"
    by (auto simp: bindI_Inr_iff)
  show ?case
  proof (cases "sc_inventory one = sc_inventory two")
    case True
    with r have "u = s'" "compute_source_digest E (sc_files two) = Inr (ts_digest snap)" "ts_files snap = sc_files two"
      by (auto simp: bindI_Inr_iff)
    with True o show ?thesis by (intro Suc.prems(1) [of s one t two]) simp_all
  next
    case False
    with r have "capture_attempts n E d u = (Inr snap, s')" by simp
    then show ?thesis by (rule Suc.IH [rotated]) (rule Suc.prems(1))
  qed
qed simp

text \<open>
  C34 - What a snapshot is, whatever other processes do to the tree between any two system
  calls: its digest is the digest of its files; the files are sorted by path, their paths are
  valid on all platforms (no empty or relative segment, no trailing dot or space, no reserved
  name) and no two are equal up to case.
\<close>

theorem capture_tree_sound:
  assumes "capture_tree E d attempts s = (Inr snap, s')"
  shows "compute_source_digest E (ts_files snap) = Inr (ts_digest snap) \<and> snapshot_ok E (ts_files snap)"
proof -
  from assms have "capture_attempts (nat attempts) E d s = (Inr snap, s')"
    by (auto simp: capture_tree_def thenI_Inr_iff split: if_splits)
  then show ?thesis by (rule capture_attempts_Inr) (auto dest: scan_tree_ok)
qed

section \<open>A tree that nobody changes\<close>

definition still_state :: "fs \<Rightarrow> view \<times> view list \<Rightarrow> bool" where
  "still_state fs s \<longleftrightarrow> vw_fs (fst s) = fs \<and> snd s = []"

lemma look_still: "still_state fs s \<Longrightarrow> look f s = (Inr (f (fst s)), s)"
  by (cases s) (auto simp: look_def still_state_def)

text \<open>The regular files of a tree, with their paths below its root.\<close>

definition tree_files :: "path \<Rightarrow> fs \<Rightarrow> snapshot_file set" where
  "tree_files d fs =
     {\<lparr>sf_path = q, sf_content = b\<rparr> | q b. q \<noteq> [] \<and> ''.'' \<notin> set q \<and> ''..'' \<notin> set q \<and> node_at fs (d @ q) = Some (File b)}"

definition files_under :: "path \<Rightarrow> fs \<Rightarrow> path \<Rightarrow> snapshot_file set" where
  "files_under d fs ps = {f \<in> tree_files d fs. prefix ps (sf_path f)}"

lemma files_under_file:
  assumes "tree fs" "node_at fs (d @ ps) = Some (File b)" "ps \<noteq> []" "''.'' \<notin> set ps" "''..'' \<notin> set ps"
  shows "files_under d fs ps = {\<lparr>sf_path = ps, sf_content = b\<rparr>}"
proof -
  have "q = ps" if q: "node_at fs (d @ q) = Some (File c)" "prefix ps q" for q c
  proof (rule ccontr)
    assume "q \<noteq> ps"
    with q have "strict_prefix (d @ ps) (d @ q)" by (auto simp: strict_prefix_def)
    from tree_prefix_dir [OF assms(1) _ this] q(1) assms(2) show False by simp
  qed
  with assms show ?thesis by (fastforce simp: files_under_def tree_files_def)
qed

lemma files_under_dir:
  assumes "clean d fs" "below d (d @ ps)" "node_at fs (d @ ps) = Some Dir"
  shows "files_under d fs ps = (\<Union>n\<in>set (listdir fs (d @ ps)). files_under d fs (ps @ [n]))"
proof (intro equalityI subsetI)
  fix f assume f: "f \<in> files_under d fs ps"
  then obtain b where b: "node_at fs (d @ sf_path f) = Some (File b)" and p: "prefix ps (sf_path f)"
    and dots: "''.'' \<notin> set (sf_path f)" "''..'' \<notin> set (sf_path f)"
    by (auto simp: files_under_def tree_files_def)
  from b assms(3) p obtain n qs where q: "sf_path f = ps @ n # qs"
    by (auto simp: prefix_def) (metis append_Nil2 list.exhaust node.distinct(1) option.inject)
  have "node_at fs (d @ ps @ [n]) \<noteq> None"
  proof (cases "qs = []")
    case True
    with b q show ?thesis by simp
  next
    case False
    then have "strict_prefix (d @ ps @ [n]) (d @ sf_path f)" by (simp add: q strict_prefix_def)
    with tree_prefix_dir [of fs "d @ sf_path f"] b assms(1) show ?thesis by (simp add: clean_def)
  qed
  with dots q have "n \<in> set (listdir fs (d @ ps))" by (auto simp: listdir_clean(1) [OF assms(1,2)])
  moreover have "f \<in> files_under d fs (ps @ [n])" using f q by (simp add: files_under_def)
  ultimately show "f \<in> (\<Union>n\<in>set (listdir fs (d @ ps)). files_under d fs (ps @ [n]))" by blast
qed (auto simp: files_under_def dest: append_prefixD)

lemma foldI_union:
  assumes "\<And>x acc acc' s'. x \<in> set xs \<Longrightarrow> f x acc s = (Inr acc', s') \<Longrightarrow> s' = s \<and> set (sa_files acc') = set (sa_files acc) \<union> F x"
    and "foldI f xs acc s = (Inr acc', s')"
  shows "s' = s \<and> set (sa_files acc') = set (sa_files acc) \<union> (\<Union>x\<in>set xs. F x)"
  using assms
proof (induction xs arbitrary: acc)
  case (Cons x xs)
  from Cons.prems(2) obtain a t where x: "f x acc s = (Inr a, t)" "foldI f xs a t = (Inr acc', s')"
    by (auto simp: bindI_Inr_iff)
  with Cons.prems(1) [OF _ x(1)] have "t = s" and a: "set (sa_files a) = set (sa_files acc) \<union> F x" by auto
  with Cons.IH [OF Cons.prems(1)] x(2) show ?case by auto
qed simp

lemma visit_complete:
  assumes "clean d fs" "still_state fs s" "''..'' \<notin> set ps" "node_at fs (d @ ps) = Some Dir"
    and "visit k E d (d @ ps) ps acc s = (Inr acc', s')"
  shows "s' = s \<and> set (sa_files acc') = set (sa_files acc) \<union> files_under d fs ps"
  using assms(3-)
proof (induction k arbitrary: ps acc acc' s')
  case (Suc k)
  have b: "below d (d @ ps)" using Suc.prems(1) assms(1) by (simp add: below_def clean_def)
  have "scandir d (d @ ps) s = (Inr (listdir fs (d @ ps)), s)"
    using Suc.prems(2) assms(2) stat_clean [OF assms(1) b]
    by (simp add: scandir_def bindI_apply look_still still_state_def)
  with Suc.prems(3) have v: "foldI (scan_entry E (visit k E d) (d @ ps) ps) (sort_key (ae_casefold E) (listdir fs (d @ ps))) acc s = (Inr acc', s')"
    by (simp add: bindI_apply)
  let ?names = "sort_key (ae_casefold E) (listdir fs (d @ ps))"
  have "s' = s \<and> set (sa_files acc') = set (sa_files acc) \<union> (\<Union>n\<in>set ?names. files_under d fs (ps @ [n]))"
  proof (rule foldI_union [OF _ v])
    fix x a a' t assume x: "x \<in> set ?names" and e: "scan_entry E (visit k E d) (d @ ps) ps x a s = (Inr a', t)"
    from x have x': "x \<noteq> ''.''" "x \<noteq> ''..''" by (auto simp: listdir_def)
    have bx: "below d (d @ ps @ [x])" using x' Suc.prems(1) assms(1) by (simp add: below_def clean_def)
    from e show "t = s \<and> set (sa_files a') = set (sa_files a) \<union> files_under d fs (ps @ [x])"
    proof (cases rule: scan_entry_cases)
      case (1 st meta u a1)
      have st: "st = node_at fs (d @ ps @ [x])" and u: "u = s"
        using 1(4) look_still [OF assms(2), of "\<lambda>v. (lstat_node (vw_fs v) ((d @ ps) @ [x]), vw_meta v ((d @ ps) @ [x]))"]
          lstat_clean [OF assms(1) bx] assms(2) by (simp_all add: still_state_def)
      have rp: "''.'' \<notin> set (ps @ [x])" using 1(1) by (auto simp: relative_path_def bindR_Inr_iff list_ex_iff)
      from 1(6) show ?thesis
      proof
        assume "st = Some Dir \<and> visit k E d ((d @ ps) @ [x]) (ps @ [x]) a1 u = (Inr a', t)"
        with Suc.IH [of "ps @ [x]" a1 a' t] Suc.prems(1) x' st u 1(5) show ?thesis by simp
      next
        assume r: "is_regular st \<and> (\<exists>b. scan_read ((d @ ps) @ [x]) u = (Inr b, t) \<and>
          a' = a1\<lparr>sa_files := sa_files a @ [\<lparr>sf_path = ps @ [x], sf_content = b\<rparr>],
            sa_inventory := sa_inventory a @ [\<lparr>ie_path = ps @ [x], ie_size = node_size st, ie_meta = meta\<rparr>]\<rparr>)"
        then obtain c where c: "node_at fs (d @ ps @ [x]) = Some (File c)"
          by (cases st rule: is_regular.cases) (auto simp: st)
        have "scan_read ((d @ ps) @ [x]) u = (Inr c, s)"
          using assms(2) c stat_clean [OF assms(1) bx] by (simp add: scan_read_def u look_still bindI_apply still_state_def)
        with r files_under_file [OF _ c] rp Suc.prems(1) x' assms(1) show ?thesis by (auto simp: clean_def)
      qed
    qed
  qed
  with files_under_dir [OF assms(1) b Suc.prems(2)] show ?case by simp
qed simp

lemma scan_tree_complete:
  assumes "clean d fs" "still_state fs s" "scan_tree E d s = (Inr r, s')"
  shows "s' = s \<and> set (sc_files r) = tree_files d fs"
proof -
  have b: "below d d" using assms(1) by (simp add: below_def clean_def)
  from assms(3) obtain t acc where rs: "root_stat d s = (Inr (), t)"
    and v: "visit (ae_depth E) E d d [] \<lparr>sa_files = [], sa_inventory = [], sa_exact = [], sa_folded = []\<rparr> t = (Inr acc, s')"
    and r: "sc_files r = sort_key (\<lambda>f. as_posix (sf_path f)) (sa_files acc)"
    by (auto simp: scan_tree_def thenI_Inr_iff bindI_Inr_iff)
  from rs have "t = s" "node_at fs d = Some Dir"
    using assms(2) lstat_clean [OF assms(1) b]
    by (auto simp: root_stat_def bindI_apply look_still still_state_def split: option.splits node.splits)
  with visit_complete [OF assms(1,2), of "[]"] v r show ?thesis
    by (auto simp: files_under_def)
qed

text \<open>
  C40 - A snapshot of a tree that nobody changes meanwhile is the whole tree: it has exactly the
  regular files below the root, each with the bytes it holds, and reading it changes nothing.
\<close>

theorem capture_tree_complete:
  assumes "clean d (files w)" "quietly (capture_tree E d attempts) w = (Inr snap, w')"
  shows "w' = w \<and> set (ts_files snap) = tree_files d (files w)"
proof -
  let ?s = "(still (files w), [])"
  have s: "still_state (files w) ?s" by (simp add: still_state_def still_def)
  from assms(2) have "fst (capture_tree E d attempts ?s) = Inr snap" and w: "w' = w"
    by (auto simp: quietly_def)
  then have "fst (capture_attempts (nat attempts) E d ?s) = Inr snap"
    by (auto simp: capture_tree_def thenI_apply split: if_splits)
  then obtain n s' where c: "capture_attempts (Suc n) E d ?s = (Inr snap, s')"
    by (cases "nat attempts") (auto simp: prod_eq_iff)
  then obtain one t where o: "scan_tree E d ?s = (Inr one, t)" by (auto simp: bindI_Inr_iff)
  from scan_tree_complete [OF assms(1) s o] have t: "t = ?s" and f: "set (sc_files one) = tree_files d (files w)" by auto
  have "capture_attempts (Suc n) E d ?s =
      bindI (liftR (compute_source_digest E (sc_files one))) (\<lambda>digest. ret \<lparr>ts_files = sc_files one, ts_digest = digest\<rparr>) ?s"
    using o by (simp add: t bindI_apply)
  with c have "bindI (liftR (compute_source_digest E (sc_files one))) (\<lambda>digest. ret \<lparr>ts_files = sc_files one, ts_digest = digest\<rparr>) ?s = (Inr snap, s')"
    by (simp only:)
  then have "ts_files snap = sc_files one" by (auto simp: bindI_Inr_iff)
  with f w show ?thesis by simp
qed

text \<open>A small blueprint and the environments of the examples.\<close>

definition demo_assets :: asset_env where
  "demo_assets = \<lparr>ae_hash = id, ae_casefold = id, ae_depth = 10\<rparr>"

definition demo_blueprint_world :: world where
  "demo_blueprint_world =
     \<lparr>files = [([''lib''], Dir), ([''lib'', ''AGENTS.md''], File ''# Agent''), ([''lib'', ''docs''], Dir),
               ([''lib'', ''docs'', ''a.md''], File ''x'')], sched = [], busy = []\<rparr>"

definition demo_snapshot :: tree_snapshot where
  "demo_snapshot =
     (case fst (quietly (capture_tree demo_assets [''lib''] 3) demo_blueprint_world) of
        Inr s \<Rightarrow> s | Inl _ \<Rightarrow> \<lparr>ts_files = [], ts_digest = []\<rparr>)"

lemma demo_snapshot: "quietly (capture_tree demo_assets [''lib''] 3) demo_blueprint_world = (Inr demo_snapshot, demo_blueprint_world)"
  "map sf_path (ts_files demo_snapshot) = [[''AGENTS.md''], [''docs'', ''a.md'']]"
proof -
  have "case fst (quietly (capture_tree demo_assets [''lib''] 3) demo_blueprint_world) of Inr s \<Rightarrow> True | Inl _ \<Rightarrow> False"
    by code_simp
  then have "fst (quietly (capture_tree demo_assets [''lib''] 3) demo_blueprint_world) = Inr demo_snapshot"
    by (simp add: demo_snapshot_def split: sum.splits)
  then show "quietly (capture_tree demo_assets [''lib''] 3) demo_blueprint_world = (Inr demo_snapshot, demo_blueprint_world)"
    by (simp add: quietly_def)
  show "map sf_path (ts_files demo_snapshot) = [[''AGENTS.md''], [''docs'', ''a.md'']]" by code_simp
qed

text \<open>A file that is written between the two scans of the first attempt and is stable after that.\<close>

definition demo_file_view :: "bytes \<Rightarrow> view" where
  "demo_file_view b = still [([''lib''], Dir), ([''lib'', ''A''], File b)]"

definition demo_changing :: "view \<times> view list" where
  "demo_changing = (demo_file_view ''x'', replicate 4 (demo_file_view ''x'') @ [demo_file_view ''xy''])"

lemma outcome_cases:
  assumes "case fst r of Inr x \<Rightarrow> P x | Inl _ \<Rightarrow> False"
  obtains x where "r = (Inr x, snd r)" "fst r = Inr x" "P x"
  using assms by (cases r; cases "fst r") auto

lemma capture_tree_sound_witness:
  "\<exists>snap. fst (capture_tree demo_assets [''lib''] 3 demo_changing) = Inr snap \<and>
     map sf_content (ts_files snap) = [''xy''] \<and> snapshot_ok demo_assets (ts_files snap)"
proof -
  have "case fst (capture_tree demo_assets [''lib''] 3 demo_changing) of
      Inr snap \<Rightarrow> map sf_content (ts_files snap) = [''xy''] | Inl _ \<Rightarrow> False"
    by code_simp
  then show ?thesis
  proof (rule outcome_cases)
    fix snap assume r: "capture_tree demo_assets [''lib''] 3 demo_changing = (Inr snap, snd (capture_tree demo_assets [''lib''] 3 demo_changing))"
      and f: "fst (capture_tree demo_assets [''lib''] 3 demo_changing) = Inr snap"
      and p: "map sf_content (ts_files snap) = [''xy'']"
    show ?thesis by (intro exI [of _ snap] conjI f p conjunct2 [OF capture_tree_sound [OF r]])
  qed
qed

lemma capture_tree_complete_witness:
  "set (ts_files demo_snapshot) = tree_files [''lib''] (files demo_blueprint_world)"
proof -
  have "clean_check [''lib''] (files demo_blueprint_world)" by code_simp
  from conjunct2 [OF capture_tree_complete [OF clean_checkI [OF this] demo_snapshot(1)]] show ?thesis .
qed

lemma source_digest_determines_tree_witness:
  "compute_source_digest demo_assets [\<lparr>sf_path = [''a''], sf_content = ''bc''\<rparr>] \<noteq>
   compute_source_digest demo_assets [\<lparr>sf_path = [''ab''], sf_content = ''c''\<rparr>]"
proof -
  let ?a = "[\<lparr>sf_path = [''a''], sf_content = ''bc''\<rparr>]" and ?b = "[\<lparr>sf_path = [''ab''], sf_content = ''c''\<rparr>]"
  have "list_all (\<lambda>f. plain_path (sf_path f)) ?a" "list_all (\<lambda>f. plain_path (sf_path f)) ?b"
    by (simp_all add: plain_path_def)
  from source_digest_determines_tree [where E = demo_assets, OF _ this]
  have "((\<exists>d. compute_source_digest demo_assets ?a = Inr d) \<longleftrightarrow> True) \<and>
      (\<forall>d. compute_source_digest demo_assets ?a = Inr d \<and> compute_source_digest demo_assets ?b = Inr d \<longrightarrow>
        sort_key (\<lambda>f. as_posix (sf_path f)) ?a = sort_key (\<lambda>f. as_posix (sf_path f)) ?b)"
    by (simp add: demo_assets_def as_posix_def)
  then obtain d where "compute_source_digest demo_assets ?a = Inr d"
    "compute_source_digest demo_assets ?b \<noteq> Inr d" by auto
  then show ?thesis by simp
qed

end
