(* ===== verification/Blueprints.thy ===== *)
theory Blueprints
  imports Snapshot Json
begin

text \<open>
  \<^verbatim>\<open>agency/blueprints/library.py\<close> and \<^verbatim>\<open>agency/blueprints/models.py\<close>: what a blueprint in the
  agent library has to be. The YAML codec is a field of \<open>blueprint_env\<close>.
\<close>

record blueprint_env =
  be_assets :: asset_env
  be_yaml :: codec

record blueprint_inspection =
  bi_key :: string
  bi_path :: path
  bi_title :: string
  bi_skills :: "string list"
  bi_snapshot :: tree_snapshot

section \<open>Names\<close>

definition validate_skill_name :: "string \<Rightarrow> py \<Rightarrow> string \<Rightarrow> string res" where
  "validate_skill_name skill_path name fld =
     (let hint = ''Set frontmatter name to the exact skill directory slug using 1-64 lowercase letters, digits, or hyphens.'' in
      bindR (assertR (is_str name \<and> slug_fullmatch (text_of name))
               (asset_issue ''invalid-skill-name'' fld (''Skill name must be a lowercase stable slug: '' @ skill_path @ ''.'') hint)) (\<lambda>_.
      bindR (assertR (length (text_of name) \<le> 64)
               (asset_issue ''invalid-skill-name'' fld (''Skill name must be at most 64 characters: '' @ skill_path @ ''.'') hint)) (\<lambda>_.
        Inr (text_of name))))"

definition validate_key :: "string \<Rightarrow> unit res" where
  "validate_key key =
     assertR (slug_fullmatch key)
       (asset_issue ''invalid-blueprint-identifier'' ''key'' (''Invalid blueprint identifier: '' @ key)
         ''Use a lowercase stable slug containing only letters, digits, and single hyphen separators.'')"

section \<open>Skills\<close>

text \<open>
  The frontmatter pattern. \<open>newline\<close> is \<open>\r?\n\<close> at the start of a text, \<open>closes\<close> the rest of the
  pattern after the lazy group: a line break, three hyphens, and the end or another line break.
\<close>

definition newline :: "string \<Rightarrow> string option" where
  "newline s = (if startswith s [CHR 0x0D, CHR 0x0A] then Some (drop 2 s)
                else if startswith s [CHR 0x0A] then Some (drop 1 s) else None)"

definition closes :: "string \<Rightarrow> bool" where
  "closes s = (case newline s of None \<Rightarrow> False
     | Some t \<Rightarrow> startswith t ''---'' \<and> (drop 3 t = [] \<or> newline (drop 3 t) \<noteq> None))"

fun until_close :: "string \<Rightarrow> string option" where
  "until_close s =
     (if closes s then Some [] else case s of [] \<Rightarrow> None | c # cs \<Rightarrow> map_option (\<lambda>t. c # t) (until_close cs))"

declare until_close.simps [simp del]

definition frontmatter_match :: "string \<Rightarrow> string option" where
  "frontmatter_match payload =
     (if startswith payload ''---'' then Option.bind (newline (drop 3 payload)) until_close else None)"

definition skill_file :: "string \<Rightarrow> string" where
  "skill_file name = ''.agents/skills/'' @ name @ ''/SKILL.md''"

definition skill_issue :: "string \<Rightarrow> string \<Rightarrow> string \<Rightarrow> string \<Rightarrow> exn" where
  "skill_issue code skill_path message hint = asset_issue code skill_path (message @ skill_path @ ''.'') hint"

text \<open>\<open>yaml.safe_load(text) or {}\<close>, where a YAML error becomes an issue.\<close>

definition skill_frontmatter :: "blueprint_env \<Rightarrow> string \<Rightarrow> string \<Rightarrow> py res" where
  "skill_frontmatter B skill_path text =
     (case load (be_yaml B) text of
        Inr v \<Rightarrow> Inr (por v (PDict []))
      | Inl e \<Rightarrow> if caught_by [CYAMLError] e
                 then Inl (skill_issue ''invalid-skill-frontmatter'' skill_path ''Skill markdown frontmatter is invalid YAML: '' ''Fix the YAML frontmatter in SKILL.md.'')
                 else Inl e)"

definition parse_skill :: "blueprint_env \<Rightarrow> tree_snapshot \<Rightarrow> string \<Rightarrow> unit res" where
  "parse_skill B snapshot skill_name =
     (let p = skill_file skill_name in
      bindR (snapshot_entry snapshot p) (\<lambda>f.
      case utf8_decode (sf_content f) of
        None \<Rightarrow> Inl (skill_issue ''invalid-skill-encoding'' p ''Skill markdown must be valid UTF-8: '' ''Rewrite SKILL.md using UTF-8 encoding.'')
      | Some payload \<Rightarrow>
      case frontmatter_match payload of
        None \<Rightarrow> Inl (skill_issue ''invalid-skill-frontmatter'' p ''Skill markdown frontmatter is incomplete: '' ''Terminate the YAML frontmatter before the markdown body.'')
      | Some text \<Rightarrow>
      bindR (skill_frontmatter B p text) (\<lambda>frontmatter.
      bindR (assertR (is_mapping frontmatter)
               (skill_issue ''invalid-skill-frontmatter'' p ''Skill frontmatter must be a mapping: '' ''Set skill frontmatter to a YAML mapping with name and description.'')) (\<lambda>_.
      let name = get (entries frontmatter) ''name''; description = get (entries frontmatter) ''description'' in
      bindR (validate_skill_name p name p) (\<lambda>_.
      bindR (assertR (name = PStr skill_name)
               (skill_issue ''skill-name-mismatch'' p ''Skill name must exactly match its directory: '' ''Rename the directory or the frontmatter name so they match exactly.'')) (\<lambda>_.
      bindR (assertR (is_str description)
               (skill_issue ''missing-skill-description'' p ''Skill description is required: '' ''Set a non-empty human description in SKILL.md frontmatter.'')) (\<lambda>_.
      bindR (assertR (strip (text_of description) \<noteq> [])
               (skill_issue ''missing-skill-description'' p ''Skill description is required: '' ''Set a non-empty human description in SKILL.md frontmatter.'')) (\<lambda>_.
        assertR (length (text_of description) \<le> 1024)
               (skill_issue ''description-too-long'' p ''Skill description must be at most 1024 characters: '' ''Shorten the skill description to 1024 characters or fewer.'')))))))))"

section \<open>The title\<close>

definition load_agents_md :: "tree_snapshot \<Rightarrow> string res" where
  "load_agents_md snapshot =
     bindR (snapshot_entry snapshot ''AGENTS.md'') (\<lambda>f.
       case utf8_decode (sf_content f) of
         Some s \<Rightarrow> Inr s
       | None \<Rightarrow> Inl (asset_issue ''invalid-blueprint-encoding'' ''AGENTS.md''
                       ''Blueprint root AGENTS.md must be valid UTF-8: AGENTS.md.'' ''Rewrite AGENTS.md using UTF-8 encoding.''))"

text \<open>The first line that starts with a hash, without its hashes.\<close>

definition extract_title :: "tree_snapshot \<Rightarrow> string \<Rightarrow> string res" where
  "extract_title snapshot key =
     bindR (load_agents_md snapshot) (\<lambda>text.
       Inr (case find (\<lambda>l. startswith l ''#'') (map strip (splitlines text)) of
              None \<Rightarrow> key
            | Some l \<Rightarrow> (let t = strip (dropWhile (\<lambda>c. c = CHR ''#'') l) in if t = [] then key else t)))"

section \<open>Inspecting\<close>

definition skill_prefix :: path where
  "skill_prefix = [''.agents'', ''skills'']"

definition collect_skill :: "snapshot_file \<Rightarrow> string list \<Rightarrow> string list res" where
  "collect_skill f skills =
     (let parts = sf_path f in
      if last parts \<noteq> ''SKILL.md'' then Inr skills
      else bindR (assertR (length parts = 4 \<and> take 2 parts = skill_prefix \<and> parts ! 3 = ''SKILL.md'')
               (asset_issue ''invalid-skill-location'' (as_posix parts)
                 (''Skills are only allowed at .agents/skills/<name>/SKILL.md: '' @ as_posix parts @ ''.'')
                 ''Move SKILL.md into a standard skill directory.'')) (\<lambda>_.
             Inr (List.insert (parts ! 2) skills)))"

definition check_skill_directory :: "snapshot_file \<Rightarrow> unit res" where
  "check_skill_directory f =
     (let parts = sf_path f in
      assertR (take 2 parts = skill_prefix \<and> 3 \<le> length parts \<longrightarrow> slug_fullmatch (parts ! 2))
        (asset_issue ''invalid-skill-directory'' (as_posix parts)
          (''Skill directory must be a lowercase stable slug: '' @ as_posix parts @ ''.'')
          ''Rename the skill directory to match the Agent Skills identifier contract.''))"

definition inspect_snapshot :: "blueprint_env \<Rightarrow> string \<Rightarrow> path \<Rightarrow> tree_snapshot \<Rightarrow> blueprint_inspection res" where
  "inspect_snapshot B key p snapshot =
     bindR (case snapshot_entry snapshot ''AGENTS.md'' of
              Inr _ \<Rightarrow> Inr ()
            | Inl _ \<Rightarrow> Inl (asset_issue ''missing-blueprint-agents'' ''AGENTS.md''
                            (''Blueprint must contain a root AGENTS.md: '' @ key @ ''.'') ''Add AGENTS.md at the blueprint root.'')) (\<lambda>_.
     bindR (foldR collect_skill (ts_files snapshot) []) (\<lambda>skills.
     bindR (foldR (\<lambda>f _. check_skill_directory f) (ts_files snapshot) ()) (\<lambda>_.
     bindR (assertR (skills \<noteq> [])
              (asset_issue ''missing-blueprint-skills'' ''skills''
                (''Blueprint must contain at least one standard Agent Skill: '' @ key @ ''.'')
                ''Add .agents/skills/<name>/SKILL.md to the blueprint.'')) (\<lambda>_.
     bindR (foldR (\<lambda>s _. parse_skill B snapshot s) (sorted_set skills) ()) (\<lambda>_.
     bindR (extract_title snapshot key) (\<lambda>title.
       Inr \<lparr>bi_key = key, bi_path = p, bi_title = title, bi_skills = sorted_set skills, bi_snapshot = snapshot\<rparr>))))))"

definition inspect_blueprint :: "blueprint_env \<Rightarrow> path \<Rightarrow> string \<Rightarrow> blueprint_inspection scan" where
  "inspect_blueprint B d key =
     bindI (look (\<lambda>v. resolve (vw_fs v) d)) (\<lambda>library_root.
     thenI (liftR (validate_key key))
     (bindI (capture_tree (be_assets B) (library_root @ [key]) 3) (\<lambda>snapshot.
       liftR (inspect_snapshot B key (library_root @ [key]) snapshot))))"

definition list_blueprints :: "blueprint_env \<Rightarrow> path \<Rightarrow> blueprint_inspection list scan" where
  "list_blueprints B d =
     bindI (look (\<lambda>v. resolve (vw_fs v) d)) (\<lambda>library_root.
     bindI (look (\<lambda>v. (stat_node (vw_fs v) library_root, filter (\<lambda>n. is_dir (vw_fs v) (library_root @ [n])) (listdir (vw_fs v) library_root))))
       (\<lambda>(n, names). case n of
          None \<Rightarrow> raise missing
        | Some Dir \<Rightarrow> mapI (inspect_blueprint B library_root) (sort names)
        | Some _ \<Rightarrow> raise (Exn CNotADirectoryError ''Not a directory'')))"

section \<open>Well-formed blueprints\<close>

text \<open>
  The contract of a blueprint, stated over its files: a skill of the name \<open>s\<close> has a \<open>SKILL.md\<close>
  with a YAML mapping that repeats the name of its directory and describes it.
\<close>

definition has_content :: "tree_snapshot \<Rightarrow> path \<Rightarrow> string \<Rightarrow> bool" where
  "has_content snapshot p text \<longleftrightarrow>
     (\<exists>b. find (\<lambda>f. sf_path f = p) (ts_files snapshot) = Some \<lparr>sf_path = p, sf_content = b\<rparr> \<and> utf8_decode b = Some text)"

definition skill_document :: "blueprint_env \<Rightarrow> string \<Rightarrow> string \<Rightarrow> bool" where
  "skill_document B s payload \<longleftrightarrow>
     (\<exists>text v d. frontmatter_match payload = Some text \<and> load (be_yaml B) text = Inr v \<and> is_mapping v \<and>
        get (entries v) ''name'' = PStr s \<and> slug_fullmatch s \<and> length s \<le> 64 \<and>
        get (entries v) ''description'' = PStr d \<and> strip d \<noteq> [] \<and> length d \<le> 1024)"

definition blueprint_skills :: "tree_snapshot \<Rightarrow> string set" where
  "blueprint_skills snapshot = {s. \<exists>f\<in>set (ts_files snapshot). sf_path f = skill_prefix @ [s, ''SKILL.md'']}"

definition blueprint_ok :: "blueprint_env \<Rightarrow> tree_snapshot \<Rightarrow> bool" where
  "blueprint_ok B snapshot \<longleftrightarrow>
     (\<exists>text. has_content snapshot [''AGENTS.md''] text) \<and>
     (\<forall>f\<in>set (ts_files snapshot). last (sf_path f) = ''SKILL.md'' \<longrightarrow> (\<exists>s. sf_path f = skill_prefix @ [s, ''SKILL.md''])) \<and>
     (\<forall>f\<in>set (ts_files snapshot). \<forall>s q. sf_path f = skill_prefix @ s # q \<longrightarrow> slug_fullmatch s) \<and>
     blueprint_skills snapshot \<noteq> {} \<and>
     (\<forall>s\<in>blueprint_skills snapshot. \<exists>payload. has_content snapshot (skill_prefix @ [s, ''SKILL.md'']) payload \<and> skill_document B s payload)"

section \<open>What the inspection accepts\<close>

definition skill_located :: "snapshot_file \<Rightarrow> bool" where
  "skill_located f \<longleftrightarrow> (last (sf_path f) = ''SKILL.md'' \<longrightarrow> (\<exists>s. sf_path f = skill_prefix @ [s, ''SKILL.md'']))"

lemma four_parts:
  "length ps = 4 \<and> take 2 ps = skill_prefix \<and> ps ! 3 = x \<longleftrightarrow> (\<exists>s. ps = skill_prefix @ [s, x])"
proof -
  have "length ps = 4 \<longleftrightarrow> (\<exists>a b c d. ps = [a, b, c, d])"
    by (auto simp: eval_nat_numeral length_Suc_conv)
  then show ?thesis by (auto simp: skill_prefix_def)
qed

lemma collect_skill_Inr:
  "collect_skill f acc = Inr r \<longleftrightarrow>
     skill_located f \<and> r = (if last (sf_path f) = ''SKILL.md'' then List.insert (sf_path f ! 2) acc else acc)"
  by (auto simp: collect_skill_def skill_located_def Let_def bindR_Inr_iff four_parts)

lemma collect_skills:
  "foldR collect_skill fl acc = Inr r \<Longrightarrow> (\<forall>f\<in>set fl. skill_located f) \<and>
     set r = set acc \<union> {s. \<exists>f\<in>set fl. sf_path f = skill_prefix @ [s, ''SKILL.md'']}"
proof (induction fl arbitrary: acc)
  case (Cons f fl)
  from Cons.prems have f: "skill_located f"
    and r: "foldR collect_skill fl (if last (sf_path f) = ''SKILL.md'' then List.insert (sf_path f ! 2) acc else acc) = Inr r"
    by (auto simp: bindR_Inr_iff collect_skill_Inr)
  from Cons.IH [OF r] f show ?case
    by (auto simp: skill_located_def skill_prefix_def numeral_2_eq_2 split: if_splits)
qed simp

lemma collect_skills_works: "\<forall>f\<in>set fl. skill_located f \<Longrightarrow> \<exists>r. foldR collect_skill fl acc = Inr r"
proof (induction fl arbitrary: acc)
  case (Cons f fl)
  then have "collect_skill f acc = Inr (if last (sf_path f) = ''SKILL.md'' then List.insert (sf_path f ! 2) acc else acc)"
    by (simp add: collect_skill_Inr)
  with Cons show ?case by simp
qed simp

lemma foldR_units: "foldR (\<lambda>x _. g x) xs () = Inr u \<longleftrightarrow> (\<forall>x\<in>set xs. g x = Inr ())"
  by (induction xs) (auto simp: bindR_Inr_iff)

lemma skill_directory_iff:
  "check_skill_directory f = Inr u \<longleftrightarrow> (\<forall>s q. sf_path f = skill_prefix @ s # q \<longrightarrow> slug_fullmatch s)"
proof -
  have "take 2 ps = skill_prefix \<and> 3 \<le> length ps \<longleftrightarrow> (\<exists>s q. ps = skill_prefix @ s # q)" for ps
  proof
    assume a: "take 2 ps = skill_prefix \<and> 3 \<le> length ps"
    then have "ps = skill_prefix @ drop 2 ps" by (metis append_take_drop_id)
    with a show "\<exists>s q. ps = skill_prefix @ s # q" by (cases "drop 2 ps") auto
  qed (auto simp: skill_prefix_def)
  then show ?thesis by (auto simp: check_skill_directory_def Let_def skill_prefix_def)
qed

lemma skill_file_parts: "slug_fullmatch s \<Longrightarrow> posix_parts (skill_file s) = skill_prefix @ [s, ''SKILL.md'']"
proof -
  assume s: "slug_fullmatch s"
  have p: "plain_path (skill_prefix @ [s, ''SKILL.md''])"
    using slug_fullmatch_chars [OF s, of "CHR ''/''"] slug_fullmatch_chars [OF s, of "CHR ''.''"] slug_fullmatch_not_Nil [of s] s
    by (auto simp: plain_path_def skill_prefix_def)
  have "as_posix (skill_prefix @ [s, ''SKILL.md'']) = skill_file s"
    by (simp add: as_posix_def skill_prefix_def skill_file_def)
  with posix_parts_as_posix [OF p] show ?thesis by simp
qed

lemma entry_content:
  "(\<exists>f. snapshot_entry sn t = Inr f \<and> utf8_decode (sf_content f) = Some text) \<longleftrightarrow> has_content sn (posix_parts t) text"
proof
  assume "has_content sn (posix_parts t) text"
  then show "\<exists>f. snapshot_entry sn t = Inr f \<and> utf8_decode (sf_content f) = Some text"
    by (auto simp: has_content_def snapshot_entry_def)
next
  assume "\<exists>f. snapshot_entry sn t = Inr f \<and> utf8_decode (sf_content f) = Some text"
  then obtain f where f: "find (\<lambda>f. sf_path f = posix_parts t) (ts_files sn) = Some f" "utf8_decode (sf_content f) = Some text"
    by (auto simp: snapshot_entry_def split: option.splits)
  then have "f = \<lparr>sf_path = posix_parts t, sf_content = sf_content f\<rparr>"
    by (auto dest: find_SomeD simp: snapshot_file.equality)
  with f show "has_content sn (posix_parts t) text" unfolding has_content_def by metis
qed

lemma skill_frontmatter_Inr:
  "skill_frontmatter B p text = Inr v \<longleftrightarrow> (\<exists>w. load (be_yaml B) text = Inr w \<and> v = por w (PDict []))"
  by (auto simp: skill_frontmatter_def split: sum.splits)

lemma por_name:
  "is_mapping (por v (PDict [])) \<and> get (entries (por v (PDict []))) ''name'' = PStr s \<longleftrightarrow>
   is_mapping v \<and> get (entries v) ''name'' = PStr s"
  "get (entries (por v (PDict []))) ''name'' = PStr s \<Longrightarrow> por v (PDict []) = v"
proof -
  have "\<not> truthy v \<Longrightarrow> entries v = []" by (cases v) auto
  then show "is_mapping (por v (PDict [])) \<and> get (entries (por v (PDict []))) ''name'' = PStr s \<longleftrightarrow>
      is_mapping v \<and> get (entries v) ''name'' = PStr s"
    "get (entries (por v (PDict []))) ''name'' = PStr s \<Longrightarrow> por v (PDict []) = v"
    by (cases "truthy v"; simp add: por_def get_def)+
qed

lemma validate_skill_name_Inr:
  "validate_skill_name p v fld = Inr n \<longleftrightarrow> v = PStr n \<and> slug_fullmatch n \<and> length n \<le> 64"
  by (auto simp: validate_skill_name_def Let_def bindR_Inr_iff is_str_iff)

lemma option_case_Inr: "(case x of None \<Rightarrow> Inl e | Some y \<Rightarrow> g y) = Inr z \<longleftrightarrow> (\<exists>y. x = Some y \<and> g y = Inr z)"
  by (cases x) auto

text \<open>What the frontmatter of a skill has to say.\<close>

definition frontmatter_ok :: "string \<Rightarrow> py \<Rightarrow> bool" where
  "frontmatter_ok s v \<longleftrightarrow> is_mapping v \<and> get (entries v) ''name'' = PStr s \<and> slug_fullmatch s \<and> length s \<le> 64 \<and>
     (\<exists>d. get (entries v) ''description'' = PStr d \<and> strip d \<noteq> [] \<and> length d \<le> 1024)"

lemma frontmatter_or: "frontmatter_ok s (por v (PDict [])) \<longleftrightarrow> frontmatter_ok s v"
  using por_name [of v s] by (auto simp: frontmatter_ok_def)

lemma skill_document_iff:
  "skill_document B s payload \<longleftrightarrow>
     (\<exists>text v. frontmatter_match payload = Some text \<and> load (be_yaml B) text = Inr v \<and> frontmatter_ok s v)"
  unfolding skill_document_def frontmatter_ok_def by blast

lemma parse_skill_chain:
  "parse_skill B sn s = Inr u \<longleftrightarrow>
    (\<exists>f payload text v. snapshot_entry sn (skill_file s) = Inr f \<and> utf8_decode (sf_content f) = Some payload \<and>
       frontmatter_match payload = Some text \<and> load (be_yaml B) text = Inr v \<and> frontmatter_ok s (por v (PDict [])))"
proof -
  have tail: "(bindR (assertR (is_mapping v) e1) (\<lambda>_. bindR (validate_skill_name q (get (entries v) ''name'') q) (\<lambda>_.
      bindR (assertR (get (entries v) ''name'' = PStr s) e2) (\<lambda>_. bindR (assertR (is_str (get (entries v) ''description'')) e3) (\<lambda>_.
      bindR (assertR (strip (text_of (get (entries v) ''description'')) \<noteq> []) e4) (\<lambda>_.
        assertR (length (text_of (get (entries v) ''description'')) \<le> 1024) e5))))) = Inr u) \<longleftrightarrow> frontmatter_ok s v" for v q e1 e2 e3 e4 e5
    by (auto simp: bindR_Inr_iff validate_skill_name_Inr frontmatter_ok_def is_str_iff)
  show ?thesis
    unfolding parse_skill_def Let_def bindR_Inr_iff [of "snapshot_entry _ _"] bindR_Inr_iff [of "skill_frontmatter _ _ _"]
      option_case_Inr skill_frontmatter_Inr tail
    by blast
qed

lemma parse_skill_iff:
  assumes "slug_fullmatch s"
  shows "parse_skill B sn s = Inr u \<longleftrightarrow>
    (\<exists>payload. has_content sn (skill_prefix @ [s, ''SKILL.md'']) payload \<and> skill_document B s payload)"
  unfolding entry_content [symmetric, of sn "skill_file s", unfolded skill_file_parts [OF assms]]
    parse_skill_chain frontmatter_or skill_document_iff
  by blast

lemma inspect_snapshot_chain:
  "inspect_snapshot B key p sn = Inr i \<longleftrightarrow>
    (\<exists>f skills title. snapshot_entry sn ''AGENTS.md'' = Inr f \<and> foldR collect_skill (ts_files sn) [] = Inr skills \<and>
       (\<forall>f\<in>set (ts_files sn). check_skill_directory f = Inr ()) \<and> skills \<noteq> [] \<and>
       (\<forall>s\<in>set skills. parse_skill B sn s = Inr ()) \<and> extract_title sn key = Inr title \<and>
       i = \<lparr>bi_key = key, bi_path = p, bi_title = title, bi_skills = sorted_set skills, bi_snapshot = sn\<rparr>)"
proof -
  have c: "(case r of Inr _ \<Rightarrow> Inr () | Inl _ \<Rightarrow> Inl e) = Inr u \<longleftrightarrow> (\<exists>f. r = Inr f)" for r :: "snapshot_file res" and e u
    by (cases r) auto
  show ?thesis
    unfolding inspect_snapshot_def bindR_Inr_iff [of "case _ of Inl _ \<Rightarrow> _ | Inr _ \<Rightarrow> _"] bindR_Inr_iff [of "foldR _ _ _"]
      bindR_Inr_iff [of "assertR _ _"] bindR_Inr_iff [of "extract_title _ _"] foldR_units c assertR_Inr_iff set_sorted_set
    by auto
qed

lemma extract_title_works:
  "(\<exists>f. snapshot_entry sn ''AGENTS.md'' = Inr f) \<and> (\<exists>t. extract_title sn key = Inr t) \<longleftrightarrow>
   (\<exists>text. has_content sn [''AGENTS.md''] text)"
proof -
  have "posix_parts ''AGENTS.md'' = [''AGENTS.md'']" by (simp add: posix_parts_def)
  with entry_content [of sn "''AGENTS.md''"] show ?thesis
    by (auto simp: extract_title_def load_agents_md_def bindR_Inr_iff option_case_Inr)
qed

text \<open>
  C36 - A blueprint is accepted exactly when it fulfils its contract: a readable AGENTS.md at the
  root, every SKILL.md directly in a directory of \<open>.agents/skills\<close>, lower-case slugs as the names
  of these directories, at least one skill, and in each skill a frontmatter that repeats the name
  of the directory (at most 64 characters) and describes the skill (not blank, at most 1024
  characters). The inspection then lists exactly the skills, sorted and without duplicates.
\<close>

theorem inspect_snapshot_accepts_iff:
  "((\<exists>i. inspect_snapshot B key p sn = Inr i) \<longleftrightarrow> blueprint_ok B sn) \<and>
   (\<forall>i. inspect_snapshot B key p sn = Inr i \<longrightarrow>
      bi_key i = key \<and> bi_path i = p \<and> bi_snapshot i = sn \<and> set (bi_skills i) = blueprint_skills sn \<and>
      sorted (bi_skills i) \<and> distinct (bi_skills i))"
proof (intro conjI allI impI)
  let ?fl = "ts_files sn"
  have loc: "(\<forall>f\<in>set ?fl. skill_located f) \<longleftrightarrow>
      (\<forall>f\<in>set ?fl. last (sf_path f) = ''SKILL.md'' \<longrightarrow> (\<exists>s. sf_path f = skill_prefix @ [s, ''SKILL.md'']))"
    by (simp add: skill_located_def)
  have slugs: "slug_fullmatch s" if "\<forall>f\<in>set ?fl. check_skill_directory f = Inr ()" "s \<in> blueprint_skills sn" for s
    using that unfolding blueprint_skills_def skill_directory_iff by auto
  show "(\<exists>i. inspect_snapshot B key p sn = Inr i) \<longleftrightarrow> blueprint_ok B sn"
  proof
    assume "\<exists>i. inspect_snapshot B key p sn = Inr i"
    then obtain f skills title where c: "snapshot_entry sn ''AGENTS.md'' = Inr f" "foldR collect_skill ?fl [] = Inr skills"
        "\<forall>f\<in>set ?fl. check_skill_directory f = Inr ()" "skills \<noteq> []" "\<forall>s\<in>set skills. parse_skill B sn s = Inr ()"
        "extract_title sn key = Inr title"
      by (auto simp: inspect_snapshot_chain)
    from collect_skills [OF c(2)] have k: "\<forall>f\<in>set ?fl. skill_located f" "set skills = blueprint_skills sn"
      by (simp_all add: blueprint_skills_def)
    show "blueprint_ok B sn"
      unfolding blueprint_ok_def extract_title_works [symmetric, of sn key] loc [symmetric]
    proof (intro conjI)
      show "\<forall>f\<in>set ?fl. \<forall>s q. sf_path f = skill_prefix @ s # q \<longrightarrow> slug_fullmatch s"
        using c(3) by (simp add: skill_directory_iff)
      show "\<forall>s\<in>blueprint_skills sn. \<exists>payload. has_content sn (skill_prefix @ [s, ''SKILL.md'']) payload \<and> skill_document B s payload"
        using c(5) k(2) slugs [OF c(3)] parse_skill_iff by blast
      show "blueprint_skills sn \<noteq> {}" using c(4) k(2) by (metis set_empty)
    qed (use c k in blast)+
  next
    assume ok: "blueprint_ok B sn"
    then have "\<forall>f\<in>set ?fl. skill_located f" by (simp add: blueprint_ok_def loc)
    then obtain skills where s: "foldR collect_skill ?fl [] = Inr skills" using collect_skills_works by blast
    then have k: "set skills = blueprint_skills sn" using collect_skills by (fastforce simp: blueprint_skills_def)
    from ok have d: "\<forall>f\<in>set ?fl. check_skill_directory f = Inr ()" by (simp add: blueprint_ok_def skill_directory_iff)
    from ok have "\<forall>x\<in>set skills. parse_skill B sn x = Inr ()"
      using slugs [OF d] parse_skill_iff unfolding k blueprint_ok_def by blast
    moreover from ok k have "skills \<noteq> []" by (auto simp: blueprint_ok_def)
    moreover from ok have "(\<exists>f. snapshot_entry sn ''AGENTS.md'' = Inr f) \<and> (\<exists>t. extract_title sn key = Inr t)"
      unfolding extract_title_works by (simp add: blueprint_ok_def)
    ultimately show "\<exists>i. inspect_snapshot B key p sn = Inr i"
      unfolding inspect_snapshot_chain using s d by blast
  qed
  fix i assume "inspect_snapshot B key p sn = Inr i"
  then obtain skills title where "foldR collect_skill ?fl [] = Inr skills"
    "i = \<lparr>bi_key = key, bi_path = p, bi_title = title, bi_skills = sorted_set skills, bi_snapshot = sn\<rparr>"
    unfolding inspect_snapshot_chain by blast
  with collect_skills [OF this(1)] show "bi_key i = key" "bi_path i = p" "bi_snapshot i = sn"
    "set (bi_skills i) = blueprint_skills sn" "sorted (bi_skills i)" "distinct (bi_skills i)"
    by (auto simp: blueprint_skills_def)
qed

definition demo_library :: blueprint_env where
  "demo_library =
     \<lparr>be_assets = demo_assets,
      be_yaml = \<lparr>dump = \<lambda>_. [], load = \<lambda>_. Inr (PDict [(''name'', PStr ''review''), (''description'', PStr ''Reviews'')])\<rparr>\<rparr>"

definition demo_source :: tree_snapshot where
  "demo_source =
     \<lparr>ts_files = [\<lparr>sf_path = [''.agents'', ''skills'', ''review'', ''SKILL.md''],
                    sf_content = ''---'' @ [CHR 0x0A] @ ''x'' @ [CHR 0x0A] @ ''---''\<rparr>,
                  \<lparr>sf_path = [''AGENTS.md''], sf_content = ''# Agent''\<rparr>], ts_digest = ''d''\<rparr>"

lemma inspect_snapshot_accepts_iff_witness:
  "blueprint_ok demo_library demo_source \<and> blueprint_skills demo_source = {''review''}"
proof -
  have "case inspect_snapshot demo_library ''k'' [''k''] demo_source of
      Inr i \<Rightarrow> bi_skills i = [''review''] \<and> bi_title i = ''Agent'' | Inl _ \<Rightarrow> False"
    by code_simp
  then obtain i where i: "inspect_snapshot demo_library ''k'' [''k''] demo_source = Inr i" "bi_skills i = [''review'']"
    by (auto split: sum.splits)
  note a = inspect_snapshot_accepts_iff [of demo_library "''k''" "[''k'']" demo_source]
  from conjunct1 [OF a] i(1) have "blueprint_ok demo_library demo_source" by blast
  moreover from spec [OF conjunct2 [OF a], of i] i have "blueprint_skills demo_source = {''review''}" by simp
  ultimately show ?thesis ..
qed

end
