(* ===== verification/TreeOps.thy ===== *)
theory TreeOps
  imports DirOps
begin

text \<open>
  Two operations of the standard library on directories: \<open>tempfile.mkdtemp\<close> and
  \<open>shutil.rmtree\<close>, and \<open>Path.touch\<close>; and rules about what steps establish when they return and when they raise.
\<close>

definition mkdtemp :: "path \<Rightarrow> string \<Rightarrow> path fio" where
  "mkdtemp d pre =
     bindI (see (\<lambda>fs. d @ [fresh_name fs (resolve fs d) pre])) (\<lambda>p. thenI (os_mkdir p) (ret p))"

text \<open>
  \<open>shutil.rmtree(p, ignore_errors=ign)\<close>: a link is refused; with \<open>ign\<close> an I/O error is
  skipped where it happens. The first argument bounds the depth of the recursion; one more than
  the number of entries is enough.
\<close>

definition tolerating :: "bool \<Rightarrow> unit fio \<Rightarrow> unit fio" where
  "tolerating ign m = (if ign then try_only [COSError] m (\<lambda>_. ret ()) else m)"

primrec shutil_rmtree :: "nat \<Rightarrow> bool \<Rightarrow> path \<Rightarrow> unit fio" where
  "shutil_rmtree 0 ign p = raise (Exn CRuntimeError ''maximum recursion depth exceeded'')"
| "shutil_rmtree (Suc k) ign p =
     bindI (see (\<lambda>fs. (lstat_node fs p, listdir fs p))) (\<lambda>(st, names). case st of
       None \<Rightarrow> tolerating ign (raise missing)
     | Some Dir \<Rightarrow>
         thenI (forI (\<lambda>n. bindI (see (\<lambda>fs. lstat_node fs (p @ [n]))) (\<lambda>e.
                   if e = Some Dir then shutil_rmtree k ign (p @ [n]) else tolerating ign (unlink (p @ [n])))) names)
           (tolerating ign (rmdir p))
     | Some (Link _) \<Rightarrow> tolerating ign (raise (Exn COSError ''Cannot call rmtree on a symbolic link''))
     | Some _ \<Rightarrow> tolerating ign (raise (Exn CNotADirectoryError ''Not a directory'')))"

definition shutil_rmtree_at :: "bool \<Rightarrow> path \<Rightarrow> unit fio" where
  "shutil_rmtree_at ign p = bindI (see length) (\<lambda>n. shutil_rmtree (Suc n) ign p)"

text \<open>\<open>Path.touch()\<close>: makes an empty file, or leaves a file with its bytes.\<close>

definition touch :: "path \<Rightarrow> unit fio" where
  "touch p = bindI (see (\<lambda>fs. stat_node fs p)) (\<lambda>n. case n of
       None \<Rightarrow> write_bytes p []
     | Some (File b) \<Rightarrow> write_bytes p b
     | Some _ \<Rightarrow> ret ())"

lemma keeps_tolerating [keeps_intros]: "keeps P m \<Longrightarrow> keeps P (tolerating ign m)"
  by (auto simp: tolerating_def intro!: keeps_try_only)

lemma keeps_mkdtemp:
  assumes "below rt d" "prefix rt d" "\<And>n. startswith n pre \<Longrightarrow> d @ [n] \<in> S"
  shows "keeps (confined rt S g) (mkdtemp d pre)"
  unfolding mkdtemp_def
proof (rule keeps_bindI_res [OF keeps_see, where R = "\<lambda>p. \<exists>n. p = d @ [n] \<and> startswith n pre \<and> last n = CHR ''x''"])
  fix w x w' assume "see (\<lambda>fs. d @ [fresh_name fs (resolve fs d) pre]) w = (Inr x, w')"
  then show "\<exists>n. x = d @ [n] \<and> startswith n pre \<and> last n = CHR ''x''" using fresh_name_free(2,3) by auto
next
  fix x assume "\<exists>n. x = d @ [n] \<and> startswith n pre \<and> last n = CHR ''x''"
  then obtain n where n: "x = d @ [n]" "startswith n pre" "last n = CHR ''x''" by auto
  moreover from n(3) have "n \<noteq> ''..''" by auto
  ultimately show "keeps (confined rt S g) (thenI (os_mkdir x) (ret x))"
    using assms by (intro keeps_thenI keeps_os_mkdir keeps_pure) (auto intro: below_append)
qed

lemma mkdtemp_result:
  "mkdtemp d pre w = (Inr p, w') \<Longrightarrow> \<exists>n. p = d @ [n] \<and> startswith n pre \<and> last n = CHR ''x''"
  using fresh_name_free(2,3) by (auto simp: mkdtemp_def thenI_Inr_iff)

lemma keeps_shutil_rmtree:
  assumes "below rt p" "prefix rt p" "\<And>q. prefix p q \<Longrightarrow> q \<in> S"
  shows "keeps (confined rt S g) (shutil_rmtree k ign p)"
  using assms
proof (induction k arbitrary: p)
  case 0
  then show ?case by (simp add: keeps_pure del: io_apply)
next
  case (Suc k)
  have del: "keeps (confined rt S g)
      (forI (\<lambda>n. bindI (see (\<lambda>fs. lstat_node fs (p @ [n]))) (\<lambda>e.
         if e = Some Dir then shutil_rmtree k ign (p @ [n]) else tolerating ign (unlink (p @ [n])))) names)"
    if "''..'' \<notin> set names" for names
  proof (rule keeps_forI)
    fix n assume "n \<in> set names"
    with that have n: "n \<noteq> ''..''" by auto
    have b: "below rt (p @ [n])" by (rule below_append [OF Suc.prems(1,2) n])
    have q: "\<And>q. prefix (p @ [n]) q \<Longrightarrow> q \<in> S" using Suc.prems(3) append_prefixD by blast
    have "keeps (confined rt S g) (if e = Some Dir then shutil_rmtree k ign (p @ [n]) else tolerating ign (unlink (p @ [n])))" for e
      using Suc.IH [OF b _ q] Suc.prems(2) q [OF prefix_order.refl] b by (simp add: keeps_tolerating keeps_unlink)
    then show "keeps (confined rt S g) (bindI (see (\<lambda>fs. lstat_node fs (p @ [n]))) (\<lambda>e.
         if e = Some Dir then shutil_rmtree k ign (p @ [n]) else tolerating ign (unlink (p @ [n]))))"
      by (intro keeps_bindI keeps_see)
  qed
  show ?case
    unfolding shutil_rmtree.simps
  proof (rule keeps_bindI_res [OF keeps_see, where R = "\<lambda>x. ''..'' \<notin> set (snd x)"])
    fix x :: "node option \<times> string list" assume "''..'' \<notin> set (snd x)"
    with del [of "snd x"] Suc.prems(1,3)
    show "keeps (confined rt S g) (case x of (st, names) \<Rightarrow> case st of
       None \<Rightarrow> tolerating ign (raise missing)
     | Some Dir \<Rightarrow>
         thenI (forI (\<lambda>n. bindI (see (\<lambda>fs. lstat_node fs (p @ [n]))) (\<lambda>e.
                   if e = Some Dir then shutil_rmtree k ign (p @ [n]) else tolerating ign (unlink (p @ [n])))) names)
           (tolerating ign (rmdir p))
     | Some (Link _) \<Rightarrow> tolerating ign (raise (Exn COSError ''Cannot call rmtree on a symbolic link''))
     | Some _ \<Rightarrow> tolerating ign (raise (Exn CNotADirectoryError ''Not a directory'')))"
      by (cases x) (auto intro!: keeps_thenI keeps_tolerating keeps_rmdir keeps_pure simp del: io_apply split: option.splits node.splits)
  qed (auto simp: listdir_def)
qed

lemma keeps_shutil_rmtree_at:
  "below rt p \<Longrightarrow> prefix rt p \<Longrightarrow> (\<And>q. prefix p q \<Longrightarrow> q \<in> S) \<Longrightarrow> keeps (confined rt S g) (shutil_rmtree_at ign p)"
  unfolding shutil_rmtree_at_def by (intro keeps_bindI keeps_see keeps_shutil_rmtree)

section \<open>What an operation does not touch\<close>

text \<open>
  \<open>spares rt U R m\<close>: below \<open>rt\<close> the file system stays clean, \<open>m\<close> changes nothing outside
  \<open>U\<close> and nothing in \<open>R\<close>, whatever the start.
\<close>

definition spares :: "path \<Rightarrow> path set \<Rightarrow> path set \<Rightarrow> 'a fio \<Rightarrow> bool" where
  "spares rt U R m \<longleftrightarrow> (\<forall>g. keeps (confined rt (U - R) g) m)"

text \<open>A place \<open>R\<close> of the file system as it was (or as it should be) while the rest may change.\<close>

definition pinned :: "path \<Rightarrow> path set \<Rightarrow> path set \<Rightarrow> (path \<Rightarrow> node option) \<Rightarrow> (path \<Rightarrow> node option) \<Rightarrow> world \<Rightarrow> bool" where
  "pinned rt U R g h w \<longleftrightarrow> confined rt U g w \<and> (\<forall>q\<in>R. node_at (files w) q = h q)"

lemma spares_keeps: "spares rt U R m \<Longrightarrow> keeps (pinned rt U R g h) m"
  unfolding keeps_def
proof (intro allI impI)
  fix w assume s: "spares rt U R m" and p: "pinned rt U R g h w"
  have "keeps (confined rt (U - R) (node_at (files w))) m" using s by (simp add: spares_def)
  with p have "confined rt (U - R) (node_at (files w)) (snd (m w))"
    by (simp add: keeps_def pinned_def confined_def)
  with p show "pinned rt U R g h (snd (m w))" by (auto simp: pinned_def confined_def)
qed

lemma hoare_exclusive_lock:
  assumes "keeps K (mkdir_p (butlast p))" "keeps K (open_append p)" "hoare K m Q E" "\<And>x s. K s \<Longrightarrow> E x s"
  shows "hoare K (exclusive_lock p wait c m) Q E"
proof -
  have step: "hoare K n (\<lambda>_. K) E" if "keeps K n" for n
    by (rule hoare_weaken [OF hoare_keeps [OF that]]) (auto intro: assms(4))
  have "hoare K (if held \<and> \<not> wait then raise x else m) Q E" for held x
    using assms(3,4) hoare_weaken [OF hoare_raise [of E x Q]] by auto
  then show ?thesis
    unfolding exclusive_lock_def
    by (intro hoare_thenI [OF step [OF assms(1)]] hoare_thenI [OF step [OF assms(2)]] hoare_thenI [OF step] hoare_bindI [OF step])
       (auto intro: keeps_pure simp del: assertI_apply io_apply)
qed

lemma hoare_try_only:
  assumes "hoare P m Q (\<lambda>_. K)" "\<And>e. hoare K (h e) Q (\<lambda>_. E)" "\<And>s. K s \<Longrightarrow> E s"
  shows "hoare P (try_only cs m h) Q (\<lambda>_. E)"
  unfolding try_only_def
proof (rule hoare_tryI [OF assms(1)])
  fix e
  have "hoare K (raise e) Q (\<lambda>_. E)" using assms(3) by (simp add: hoare_def)
  with assms(2) show "hoare K (if caught_by cs e then h e else raise e) Q (\<lambda>_. E)" by simp
qed (rule assms(3))

section \<open>Rules for branches and results\<close>

lemma hoare_ite: "(b \<Longrightarrow> hoare P m Q E) \<Longrightarrow> (\<not> b \<Longrightarrow> hoare P n Q E) \<Longrightarrow> hoare P (if b then m else n) Q E"
  by simp

lemma hoare_raise_if: "(\<And>s. P s \<Longrightarrow> E s) \<Longrightarrow> hoare P (raise e) Q (\<lambda>_. E)"
  by (simp add: hoare_def)

lemma hoare_ret_if: "(\<And>s. P s \<Longrightarrow> Q x s) \<Longrightarrow> hoare P (ret x) Q E"
  by (simp add: hoare_def)

lemma hoare_gets: "(\<And>s. P s \<Longrightarrow> Q (f s) s) \<Longrightarrow> hoare P (gets_st f) Q E"
  by (simp add: hoare_def)

lemma hoare_liftR: "(\<And>s x. P s \<Longrightarrow> r = Inr x \<Longrightarrow> Q x s) \<Longrightarrow> (\<And>s. P s \<Longrightarrow> E s) \<Longrightarrow> hoare P (liftR r) Q (\<lambda>_. E)"
  by (cases r) (simp_all add: hoare_def)

lemma hoare_see: "(\<And>s. P s \<Longrightarrow> Q (f (files s)) s) \<Longrightarrow> hoare P (see f) Q E"
  by (simp add: hoare_def)

lemma hoare_whenI: "hoare P m (\<lambda>_. P) E \<Longrightarrow> hoare P (whenI b m) (\<lambda>_. P) E"
  by (cases b) (simp_all add: hoare_def)

lemma hoare_finallyI:
  assumes "hoare P m R F" "\<And>x. hoare (R x) c (\<lambda>_. Q x) (\<lambda>_. E)" "\<And>e. hoare (F e) c (\<lambda>_. E) (\<lambda>_. E)" "\<And>s. F Crashed s \<Longrightarrow> E s"
  shows "hoare P (finallyI m c) Q (\<lambda>_. E)"
proof -
  have "case finallyI m c s of (Inr x, s') \<Rightarrow> Q x s' | (Inl e, s') \<Rightarrow> E s'" if p: "P s" for s
  proof (cases "m s")
    case (Pair r s1)
    obtain r2 s2 where c: "c s1 = (r2, s2)" by fastforce
    show ?thesis
    proof (cases r)
      case (Inl e)
      with Pair p have f: "F e s1" by (auto dest: hoareD_Inl [OF assms(1)])
      then have "E s2" using c hoareD_Inr [OF assms(3) f] hoareD_Inl [OF assms(3) f] by (cases r2) auto
      with Inl Pair f c assms(4) show ?thesis by (cases e) (auto simp: finallyI_def split: sum.splits)
    next
      case (Inr x)
      with Pair p have "R x s1" by (auto dest: hoareD_Inr [OF assms(1)])
      with c hoareD_Inr [OF assms(2) this] hoareD_Inl [OF assms(2) this] Inr Pair show ?thesis
        by (cases r2) (auto simp: finallyI_def)
    qed
  qed
  then show ?thesis by (simp add: hoare_def)
qed

lemma hoare_pure: "(b \<Longrightarrow> hoare P m Q E) \<Longrightarrow> hoare (\<lambda>s. P s \<and> b) m Q E"
  by (cases b) (simp_all add: hoare_def)

lemma hoare_result:
  assumes "keeps P m" "\<And>w x w'. P w \<Longrightarrow> m w = (Inr x, w') \<Longrightarrow> R x" "\<And>s. P s \<Longrightarrow> E s"
  shows "hoare P m (\<lambda>x s. P s \<and> R x) (\<lambda>_. E)"
  by (rule hoareI) (use assms in \<open>auto dest: keepsD\<close>)

lemma keeps_hoare: "hoare P m (\<lambda>_. P) (\<lambda>_. P) \<Longrightarrow> keeps P m"
  unfolding keeps_def
proof (intro allI impI)
  fix w assume "hoare P m (\<lambda>_. P) (\<lambda>_. P)" "P w"
  then show "P (snd (m w))" by (cases "m w"; cases "fst (m w)") (auto dest: hoareD_Inr hoareD_Inl)
qed

end
