(* ===== verification/Selectors.thy ===== *)
theory Selectors
  imports ConfigModel Json
begin

text \<open>
  \<^verbatim>\<open>agency/memory/selectors.py\<close>: which memory a run uses, and the identity of that memory: the
  hash of a canonical JSON text of its criteria. \<open>H\<close> is the hash (\<open>sha256(...).hexdigest()\<close>).
\<close>

record resolved_memory =
  rm_selector :: memory_selector
  rm_canonical_json :: string
  rm_hash :: string
  rm_directory :: path

definition memory_hash_domain :: bytes where
  "memory_hash_domain = ''agency-memory:v1'' @ [CHR 0x00]"

definition validate_selector_shape :: "memory_selector \<Rightarrow> unit res" where
  "validate_selector_shape s =
     assertR (ms_scope s = ''channel'' \<or> ms_channel s = None)
       (Exn CValueError ''channel field is only valid for channel scope'')"

definition run_selector :: memory_selector where
  "run_selector = \<lparr>ms_scope = ''run'', ms_channel = None\<rparr>"

definition select_effective_memory ::
  "memory_selector option \<Rightarrow> memory_selector option \<Rightarrow> memory_selector option \<Rightarrow> memory_selector" where
  "select_effective_memory manual_override routine_selector agent_default =
     (case manual_override of Some s \<Rightarrow> s
      | None \<Rightarrow> case routine_selector of Some s \<Rightarrow> s
      | None \<Rightarrow> case agent_default of Some s \<Rightarrow> s
      | None \<Rightarrow> run_selector)"

text \<open>Who asks: the job, the group, the agent and maybe the routine.\<close>

record memory_request =
  mr_job_id :: string
  mr_group_key :: string
  mr_agent_name :: string
  mr_routine_id :: "string option"

definition scope_criteria :: "memory_request \<Rightarrow> string list \<Rightarrow> memory_selector \<Rightarrow> (string \<times> py) list res" where
  "scope_criteria q channels s =
     (if ms_scope s = ''run'' then Inr [(''job'', PStr (mr_job_id q))]
      else if ms_scope s = ''routine'' then
        (case mr_routine_id q of
           None \<Rightarrow> Inl (Exn CValueError ''routine memory requires a routine ID'')
         | Some r \<Rightarrow> Inr [(''group'', PStr (mr_group_key q)), (''agent'', PStr (mr_agent_name q)), (''routine'', PStr r)])
      else if ms_scope s = ''agent'' then
        Inr [(''group'', PStr (mr_group_key q)), (''agent'', PStr (mr_agent_name q))]
      else if ms_scope s = ''group'' then Inr [(''group'', PStr (mr_group_key q))]
      else if ms_scope s = ''channel'' then
        (case ms_channel s of
           Some c \<Rightarrow> if c \<in> set channels then Inr [(''channel'', PStr c)]
                     else Inl (Exn CValueError (''unknown global memory channel: '' @ c))
         | None \<Rightarrow> Inl (Exn CValueError ''unknown global memory channel: None''))
      else Inr [])"

definition memory_criteria :: "memory_request \<Rightarrow> string list \<Rightarrow> memory_selector \<Rightarrow> py res" where
  "memory_criteria q channels s =
     bindR (scope_criteria q channels s) (\<lambda>c.
       Inr (PDict ((''version'', PInt 1) # (''scope'', PStr (ms_scope s)) # c)))"

definition memory_identity :: "(bytes \<Rightarrow> string) \<Rightarrow> string \<Rightarrow> string" where
  "memory_identity H canonical_json = H (memory_hash_domain @ utf8_encode canonical_json)"

definition make_resolved :: "(bytes \<Rightarrow> string) \<Rightarrow> fs \<Rightarrow> path \<Rightarrow> memory_selector \<Rightarrow> string \<Rightarrow> resolved_memory" where
  "make_resolved H fs store_root s canonical_json =
     (let h = memory_identity H canonical_json in
      \<lparr>rm_selector = s, rm_canonical_json = canonical_json, rm_hash = h,
       rm_directory = resolve fs store_root @ [h]\<rparr>)"

definition resolve_memory_selector ::
  "(bytes \<Rightarrow> string) \<Rightarrow> fs \<Rightarrow> path \<Rightarrow> memory_request \<Rightarrow> string list \<Rightarrow> memory_selector \<Rightarrow> resolved_memory res" where
  "resolve_memory_selector H fs store_root q channels s =
     bindR (validate_selector_shape s) (\<lambda>_.
     bindR (memory_criteria q channels s) (\<lambda>criteria.
       Inr (make_resolved H fs store_root s (json_dumps criteria))))"

definition expected_keys :: "(string \<times> string list) list" where
  "expected_keys =
     [(''run'', [''version'', ''scope'', ''job'']),
      (''routine'', [''version'', ''scope'', ''group'', ''agent'', ''routine'']),
      (''agent'', [''version'', ''scope'', ''group'', ''agent'']),
      (''group'', [''version'', ''scope'', ''group'']),
      (''channel'', [''version'', ''scope'', ''channel''])]"

text \<open>\<open>criteria.get("version") != 1\<close>: \<open>True\<close> and \<open>1.0\<close> are equal to 1 in Python.\<close>

definition is_one :: "py \<Rightarrow> bool" where
  "is_one v \<longleftrightarrow> v \<in> {PInt 1, PBool True, PFloat ''1.0''}"

definition resolved_memory_from_canonical ::
  "(bytes \<Rightarrow> string) \<Rightarrow> fs \<Rightarrow> path \<Rightarrow> memory_selector \<Rightarrow> string \<Rightarrow> resolved_memory res" where
  "resolved_memory_from_canonical H fs store_root s canonical_json =
     bindR (validate_selector_shape s) (\<lambda>_.
     bindR (case json_loads canonical_json of
              Inr v \<Rightarrow> Inr v
            | Inl e \<Rightarrow> if caught_by [CJSONDecodeError] e
                       then Inl (Exn CValueError ''memory canonical JSON is invalid'') else Inl e) (\<lambda>v.
     bindR (assertR (is_mapping v) (Exn CValueError ''memory canonical JSON must encode an object'')) (\<lambda>_.
     let criteria = entries v in
     bindR (assertR (json_dumps v = canonical_json) (Exn CValueError ''memory canonical JSON is not canonical'')) (\<lambda>_.
     bindR (assertR (is_one (get criteria ''version'') \<and> get criteria ''scope'' = PStr (ms_scope s))
              (Exn CValueError ''memory canonical criteria do not match selector'')) (\<lambda>_.
     case map_of expected_keys (ms_scope s) of
       None \<Rightarrow> Inl (Exn CKeyError (ms_scope s))
     | Some ks \<Rightarrow>
         bindR (assertR (fst ` set criteria = set ks) (Exn CValueError ''memory canonical criteria keys are invalid'')) (\<lambda>_.
         bindR (assertR (ms_scope s \<noteq> ''channel'' \<or> (\<exists>c\<in>set_option (ms_channel s). get criteria ''channel'' = PStr c) \<or>
                    (ms_channel s = None \<and> get criteria ''channel'' = PNone))
                  (Exn CValueError ''memory canonical channel does not match selector'')) (\<lambda>_.
         Inr (make_resolved H fs store_root s canonical_json))))))))"

section \<open>Facts\<close>

lemma memory_criteria_json_ok:
  "memory_criteria q channels s = Inr v \<Longrightarrow> json_ok v"
  by (auto simp: memory_criteria_def scope_criteria_def bindR_Inr_iff split: if_splits option.splits)

text \<open>
  What a request amounts to: the part of it that the scope of the selector looks at.
\<close>

definition memory_owner :: "memory_request \<Rightarrow> memory_selector \<Rightarrow> string list" where
  "memory_owner q s =
     ms_scope s #
     (if ms_scope s = ''run'' then [mr_job_id q]
      else if ms_scope s = ''routine'' then [mr_group_key q, mr_agent_name q, the (mr_routine_id q)]
      else if ms_scope s = ''agent'' then [mr_group_key q, mr_agent_name q]
      else if ms_scope s = ''group'' then [mr_group_key q]
      else if ms_scope s = ''channel'' then [the (ms_channel s)]
      else [])"

lemma memory_criteria_get:
  assumes "memory_criteria q channels s = Inr v"
  shows "\<exists>d. v = PDict d \<and> distinct (map fst d) \<and> list_all (\<lambda>(k, v). sort_dicts v = v) d \<and> get d ''scope'' = PStr (ms_scope s) \<and>
    get d ''version'' = PInt 1 \<and>
    (ms_scope s = ''run'' \<longrightarrow> get d ''job'' = PStr (mr_job_id q)) \<and>
    (ms_scope s \<in> {''routine'', ''agent'', ''group''} \<longrightarrow> get d ''group'' = PStr (mr_group_key q)) \<and>
    (ms_scope s \<in> {''routine'', ''agent''} \<longrightarrow> get d ''agent'' = PStr (mr_agent_name q)) \<and>
    (ms_scope s = ''routine'' \<longrightarrow> get d ''routine'' = PStr (the (mr_routine_id q))) \<and>
    (ms_scope s = ''channel'' \<longrightarrow> (\<exists>c. ms_channel s = Some c \<and> c \<in> set channels \<and> get d ''channel'' = PStr c)) \<and>
    (\<forall>ks. map_of expected_keys (ms_scope s) = Some ks \<longrightarrow> fst ` set d = set ks)"
  using assms by (auto simp: memory_criteria_def scope_criteria_def bindR_Inr_iff expected_keys_def
      split: if_splits option.splits)

lemma memory_owner_determined:
  assumes "memory_criteria q channels s = Inr v" "memory_criteria q' channels' s' = Inr v'"
    and "sort_dicts v = sort_dicts v'"
  shows "memory_owner q s = memory_owner q' s'"
proof -
  from memory_criteria_get [OF assms(1)] obtain d where d: "v = PDict d" "distinct (map fst d)"
    "get d ''scope'' = PStr (ms_scope s)"
    "ms_scope s = ''run'' \<longrightarrow> get d ''job'' = PStr (mr_job_id q)"
    "ms_scope s \<in> {''routine'', ''agent'', ''group''} \<longrightarrow> get d ''group'' = PStr (mr_group_key q)"
    "ms_scope s \<in> {''routine'', ''agent''} \<longrightarrow> get d ''agent'' = PStr (mr_agent_name q)"
    "ms_scope s = ''routine'' \<longrightarrow> get d ''routine'' = PStr (the (mr_routine_id q))"
    "ms_scope s = ''channel'' \<longrightarrow> (\<exists>c. ms_channel s = Some c \<and> get d ''channel'' = PStr c)"
    by blast
  from memory_criteria_get [OF assms(2)] obtain e where e: "v' = PDict e" "distinct (map fst e)"
    "get e ''scope'' = PStr (ms_scope s')"
    "ms_scope s' = ''run'' \<longrightarrow> get e ''job'' = PStr (mr_job_id q')"
    "ms_scope s' \<in> {''routine'', ''agent'', ''group''} \<longrightarrow> get e ''group'' = PStr (mr_group_key q')"
    "ms_scope s' \<in> {''routine'', ''agent''} \<longrightarrow> get e ''agent'' = PStr (mr_agent_name q')"
    "ms_scope s' = ''routine'' \<longrightarrow> get e ''routine'' = PStr (the (mr_routine_id q'))"
    "ms_scope s' = ''channel'' \<longrightarrow> (\<exists>c. ms_channel s' = Some c \<and> get e ''channel'' = PStr c)"
    by blast
  have g: "sort_dicts (get d k) = sort_dicts (get e k)" for k
    by (rule sort_dicts_get [OF d(2) e(2)]) (use assms(3) d(1) e(1) in simp)
  from g [of "''scope''"] d(3) e(3) have sc: "ms_scope s' = ms_scope s" by simp
  show ?thesis
    using d(4-8) e(4-8) g [of "''job''"] g [of "''group''"] g [of "''agent''"] g [of "''routine''"] g [of "''channel''"]
    unfolding memory_owner_def sc by (cases "ms_scope s = ''run''"; cases "ms_scope s = ''routine''";
      cases "ms_scope s = ''agent''"; cases "ms_scope s = ''group''"; cases "ms_scope s = ''channel''") auto
qed

lemma memory_owner_same:
  assumes "memory_criteria q channels s = Inr v" "memory_criteria q' channels' s' = Inr v'"
    and "memory_owner q s = memory_owner q' s'"
  shows "v = v'"
proof -
  have sc: "ms_scope s' = ms_scope s" using assms(3) by (simp add: memory_owner_def)
  consider "ms_scope s = ''run''" | "ms_scope s = ''routine''" | "ms_scope s = ''agent''" | "ms_scope s = ''group''"
    | "ms_scope s = ''channel''" | "ms_scope s \<notin> {''run'', ''routine'', ''agent'', ''group'', ''channel''}" by auto
  then have same: "scope_criteria q channels s = scope_criteria q' channels' s'"
    if "scope_criteria q channels s = Inr a" "scope_criteria q' channels' s' = Inr b" for a b
  proof cases
    case 2
    with that sc assms(3) show ?thesis by (simp add: scope_criteria_def memory_owner_def split: option.splits)
  next
    case 5
    with that sc assms(3) show ?thesis
      by (simp add: scope_criteria_def memory_owner_def split: option.splits if_splits)
  qed (use that sc assms(3) in \<open>simp_all add: scope_criteria_def memory_owner_def\<close>)
  from assms(1,2) obtain a b where "scope_criteria q channels s = Inr a" "scope_criteria q' channels' s' = Inr b"
    by (auto simp: memory_criteria_def bindR_Inr_iff)
  with same [OF this] assms(1,2) show ?thesis by (simp add: memory_criteria_def sc)
qed

lemma resolve_memory_selector_Inr:
  "resolve_memory_selector H fs rt q channels s = Inr r \<longleftrightarrow>
     (ms_scope s = ''channel'' \<or> ms_channel s = None) \<and>
     (\<exists>v. memory_criteria q channels s = Inr v \<and> r = make_resolved H fs rt s (json_dumps v))"
  by (auto simp: resolve_memory_selector_def validate_selector_shape_def bindR_Inr_iff)

text \<open>
  C27 - Two runs share a memory exactly when they own the same one. For a hash without collision on
  the two canonical texts, the resolved hashes (and so the directories under one store) are
  equal if and only if the selectors have the same scope and the requests agree on everything
  that scope depends on: the job, the group, agent and routine, the group and agent, the group, or the channel.
\<close>

theorem memory_identity_iff_owner:
  assumes "resolve_memory_selector H fs rt q channels s = Inr r"
    and "resolve_memory_selector H fs rt q' channels' s' = Inr r'"
    and "inj_on H {memory_hash_domain @ utf8_encode (rm_canonical_json r), memory_hash_domain @ utf8_encode (rm_canonical_json r')}"
  shows "(rm_hash r = rm_hash r' \<longleftrightarrow> memory_owner q s = memory_owner q' s') \<and>
    (rm_directory r = rm_directory r' \<longleftrightarrow> rm_hash r = rm_hash r')"
proof -
  from assms(1) obtain v where v: "memory_criteria q channels s = Inr v" "r = make_resolved H fs rt s (json_dumps v)"
    by (auto simp: resolve_memory_selector_Inr)
  from assms(2) obtain v' where v': "memory_criteria q' channels' s' = Inr v'" "r' = make_resolved H fs rt s' (json_dumps v')"
    by (auto simp: resolve_memory_selector_Inr)
  have dir: "rm_directory r = rm_directory r' \<longleftrightarrow> rm_hash r = rm_hash r'"
    by (simp add: v(2) v'(2) make_resolved_def Let_def)
  have "rm_hash r = rm_hash r' \<longleftrightarrow> memory_owner q s = memory_owner q' s'"
  proof
    assume "rm_hash r = rm_hash r'"
    then have "H (memory_hash_domain @ utf8_encode (rm_canonical_json r)) = H (memory_hash_domain @ utf8_encode (rm_canonical_json r'))"
      by (simp add: v(2) v'(2) make_resolved_def Let_def memory_identity_def)
    from inj_onD [OF assms(3) this] have "json_dumps v = json_dumps v'"
      by (simp add: v(2) v'(2) make_resolved_def Let_def)
    from json_dumps_inject [OF memory_criteria_json_ok [OF v(1)] memory_criteria_json_ok [OF v'(1)] this]
    show "memory_owner q s = memory_owner q' s'" by (rule memory_owner_determined [OF v(1) v'(1)])
  next
    assume "memory_owner q s = memory_owner q' s'"
    from memory_owner_same [OF v(1) v'(1) this] show "rm_hash r = rm_hash r'"
      by (simp add: v(2) v'(2) make_resolved_def Let_def)
  qed
  with dir show ?thesis by blast
qed

definition demo_request :: memory_request where
  "demo_request = \<lparr>mr_job_id = ''j1'', mr_group_key = ''ops'', mr_agent_name = ''a'', mr_routine_id = None\<rparr>"

lemma memory_identity_iff_owner_witness:
  "\<exists>r r'. resolve_memory_selector id [] [''m''] demo_request [] \<lparr>ms_scope = ''agent'', ms_channel = None\<rparr> = Inr r \<and>
     resolve_memory_selector id [] [''m''] (demo_request\<lparr>mr_job_id := ''j2''\<rparr>) [] \<lparr>ms_scope = ''agent'', ms_channel = None\<rparr> = Inr r' \<and>
     rm_directory r = rm_directory r'"
proof -
  let ?s = "\<lparr>ms_scope = ''agent'', ms_channel = None\<rparr>"
  obtain r where r: "resolve_memory_selector id [] [''m''] demo_request [] ?s = Inr r"
    by (simp add: resolve_memory_selector_Inr memory_criteria_def scope_criteria_def)
  obtain r' where r': "resolve_memory_selector id [] [''m''] (demo_request\<lparr>mr_job_id := ''j2''\<rparr>) [] ?s = Inr r'"
    by (simp add: resolve_memory_selector_Inr memory_criteria_def scope_criteria_def)
  have "memory_owner demo_request ?s = memory_owner (demo_request\<lparr>mr_job_id := ''j2''\<rparr>) ?s"
    by (simp add: memory_owner_def demo_request_def)
  with memory_identity_iff_owner [OF r r'] r r' show ?thesis by simp
qed

text \<open>
  What is resolved can be recovered from its journal: parsing the canonical text of a
  resolved memory with its selector gives the same resolved memory, identity and directory
  included.
\<close>

theorem memory_canonical_roundtrip:
  assumes "resolve_memory_selector H fs rt q channels s = Inr r" "ms_scope s \<in> fst ` set expected_keys"
  shows "resolved_memory_from_canonical H fs rt s (rm_canonical_json r) = Inr r"
proof -
  from assms(1) obtain v where v: "ms_scope s = ''channel'' \<or> ms_channel s = None" "memory_criteria q channels s = Inr v"
      "r = make_resolved H fs rt s (json_dumps v)"
    by (auto simp: resolve_memory_selector_Inr)
  from memory_criteria_get [OF v(2)] obtain d where d: "v = PDict d" "distinct (map fst d)"
    "list_all (\<lambda>(k, v). sort_dicts v = v) d" "get d ''scope'' = PStr (ms_scope s)" "get d ''version'' = PInt 1"
    "ms_scope s = ''channel'' \<longrightarrow> (\<exists>c. ms_channel s = Some c \<and> get d ''channel'' = PStr c)"
    "\<forall>ks. map_of expected_keys (ms_scope s) = Some ks \<longrightarrow> fst ` set d = set ks"
    by blast
  have flat: "map (\<lambda>(k, v). (k, sort_dicts v)) d' = d'" if "set d' = set d" for d'
    using d(3) that by (intro map_idI) (auto simp: list_all_iff)
  let ?d = "sort_key fst d"
  have s: "sort_dicts v = PDict ?d" by (simp add: d(1) flat)
  have ss: "sort_dicts (PDict ?d) = PDict ?d"
    by (simp add: flat sort_key_id_if_sorted)
  have canon: "json_loads (json_dumps v) = Inr (PDict ?d)" "json_dumps (PDict ?d) = json_dumps v"
    using json_loads_dumps [OF memory_criteria_json_ok [OF v(2)]] s ss by (simp_all add: json_dumps_def)
  have "distinct (map fst ?d)" using d(2) by (simp only: distinct_map_sort_key)
  then have m: "map_of ?d = map_of d"
    using d(2) by (subst map_of_inject_set) simp_all
  have g: "get ?d k = get d k" for k by (simp add: get_def m)
  obtain ks where ks: "map_of expected_keys (ms_scope s) = Some ks" "fst ` set ?d = set ks"
    using assms(2) d(7) by (metis map_of_eq_None_iff not_None_eq set_sort)
  have ch: "ms_scope s \<noteq> ''channel'' \<or> (\<exists>c\<in>set_option (ms_channel s). get ?d ''channel'' = PStr c)"
    using d(6) g by auto
  show ?thesis
    using v(1,3) canon ks d(4,5) g ch
    by (simp add: resolved_memory_from_canonical_def validate_selector_shape_def make_resolved_def Let_def is_one_def)
qed

lemma memory_canonical_roundtrip_witness:
  "\<exists>r. resolve_memory_selector id [] [''m''] demo_request [''news''] \<lparr>ms_scope = ''channel'', ms_channel = Some ''news''\<rparr> = Inr r \<and>
     resolved_memory_from_canonical id [] [''m''] \<lparr>ms_scope = ''channel'', ms_channel = Some ''news''\<rparr> (rm_canonical_json r) = Inr r"
proof -
  let ?s = "\<lparr>ms_scope = ''channel'', ms_channel = Some ''news''\<rparr>"
  obtain r where r: "resolve_memory_selector id [] [''m''] demo_request [''news''] ?s = Inr r"
    by (simp add: resolve_memory_selector_Inr memory_criteria_def scope_criteria_def)
  have "ms_scope ?s \<in> fst ` set expected_keys" by (simp add: expected_keys_def)
  from memory_canonical_roundtrip [OF r this] r show ?thesis by blast
qed

end
