(* ===== verification/MemoryNames.thy ===== *)
theory MemoryNames
  imports Selectors
begin

text \<open>
  The names and the revision of a memory, from \<^verbatim>\<open>agency/memory/store.py\<close>. What the program takes
  from the Unicode tables (NFKC, case folding, upper case), the YAML codec and the hash are the
  record \<open>memory_env\<close>.
\<close>

record memory_env =
  me_yaml :: codec
  me_hash :: "bytes \<Rightarrow> string"
  me_nfkc :: "string \<Rightarrow> string"
  me_casefold :: "string \<Rightarrow> string"
  me_upper :: "string \<Rightarrow> string"

type_synonym memory_files = "(string \<times> bytes) list"

record memory_snapshot =
  mn_resolved :: resolved_memory
  mn_files :: memory_files
  mn_revision :: string

definition store_error :: "string \<Rightarrow> exn" where
  "store_error text = Exn CMemoryStoreError text"

section \<open>\<open>PurePath\<close>: name, suffix and stem\<close>

definition path_name :: "string \<Rightarrow> string" where
  "path_name s =
     (let parts = filter (\<lambda>c. c \<noteq> [] \<and> c \<noteq> ''.'') (split_on CHR ''/'' s) in
      if parts = [] then [] else last parts)"

text \<open>The last dot counts unless it is the first or the last character.\<close>

definition suffix_split :: "string \<Rightarrow> string \<times> string" where
  "suffix_split n =
     (let ext = takeWhile (\<lambda>c. c \<noteq> CHR ''.'') (rev n); rest = dropWhile (\<lambda>c. c \<noteq> CHR ''.'') (rev n) in
      if ext = [] \<or> length rest \<le> 1 then (n, [])
      else (rev (tl rest), CHR ''.'' # rev ext))"

definition path_stem :: "string \<Rightarrow> string" where
  "path_stem s = fst (suffix_split (path_name s))"

definition path_suffix :: "string \<Rightarrow> string" where
  "path_suffix s = snd (suffix_split (path_name s))"

section \<open>Names\<close>

definition windows_reserved_names :: "string list" where
  "windows_reserved_names =
     [''CON'', ''PRN'', ''AUX'', ''NUL''] @
     map (\<lambda>n. ''COM'' @ show_nat n) [1..<10] @ map (\<lambda>n. ''LPT'' @ show_nat n) [1..<10]"

definition normalized_key :: "memory_env \<Rightarrow> string \<Rightarrow> string" where
  "normalized_key E s = me_casefold E (me_nfkc E s)"

definition name_error :: "string \<Rightarrow> string \<Rightarrow> exn" where
  "name_error text name = Exn CValueError (text @ name)"

text \<open>\<open>seen\<close> maps the normalized keys of the names so far to the names.\<close>

definition validate_filename :: "memory_env \<Rightarrow> string \<Rightarrow> (string \<times> string) list \<Rightarrow> (string \<times> string) list res" where
  "validate_filename E name seen =
     bindR (assertR (path_name name = name) (name_error ''memory filename must be direct: '' name)) (\<lambda>_.
     bindR (assertR (name \<notin> {[], ''.'', ''..''}) (Exn CValueError ''memory filename must not be empty'')) (\<lambda>_.
     bindR (assertR (\<not> endswith name '' '' \<and> \<not> endswith name ''.'')
              (name_error ''memory filename has trailing ambiguity: '' name)) (\<lambda>_.
     bindR (assertR (\<not> startswith name ''.'')
              (name_error ''memory filename must not be hidden infrastructure: '' name)) (\<lambda>_.
     bindR (assertR (CHR ''/'' \<notin> set name \<and> CHR 0x5C \<notin> set name)
              (name_error ''memory filename must be direct: '' name)) (\<lambda>_.
     bindR (assertR (path_suffix name = ''.md'') (name_error ''memory contains non-markdown file: '' name)) (\<lambda>_.
     bindR (assertR (me_upper E (path_stem name) \<notin> set windows_reserved_names)
              (name_error ''memory filename uses reserved name: '' name)) (\<lambda>_.
     let folded = normalized_key E name in
     case map_of seen folded of
       Some previous \<Rightarrow>
         if previous \<noteq> name
         then Inl (Exn CValueError (''memory filenames must not case-fold collide: '' @ previous @ '', '' @ name))
         else Inr (AList.update folded name seen)
     | None \<Rightarrow> Inr (AList.update folded name seen))))))))"

text \<open>The payloads are byte strings already; a mapping has each name once.\<close>

definition normalize_candidate_files :: "memory_env \<Rightarrow> memory_files \<Rightarrow> memory_files res" where
  "normalize_candidate_files E fl =
     bindR (assertR (fl \<noteq> []) (Exn CValueError ''memory must contain at least one markdown file'')) (\<lambda>_.
     bindR (foldR (\<lambda>(name, payload) seen.
              bindR (validate_filename E name seen) (\<lambda>seen.
              bindR (assertR (path_suffix name = ''.md'') (name_error ''memory contains non-markdown file: '' name)) (\<lambda>_.
                Inr seen))) fl []) (\<lambda>_.
       Inr fl))"

definition is_hex64 :: "string \<Rightarrow> bool" where
  "is_hex64 s \<longleftrightarrow> length s = 64 \<and> list_all (\<lambda>c. is_digit c \<or> between CHR ''a'' CHR ''f'' c) s"

definition validate_memory_hash :: "string \<Rightarrow> string res" where
  "validate_memory_hash h =
     bindR (assertR (is_hex64 h) (Exn CValueError ''memory hash must be exactly 64 lowercase hex characters'')) (\<lambda>_. Inr h)"

definition validate_resolved_memory :: "resolved_memory \<Rightarrow> path option \<Rightarrow> unit res" where
  "validate_resolved_memory r expected_root =
     bindR (validate_memory_hash (rm_hash r)) (\<lambda>_.
     let rt = (case expected_root of Some p \<Rightarrow> p | None \<Rightarrow> butlast (rm_directory r)) in
     bindR (assertR (butlast (rm_directory r) = rt)
              (store_error ''memory directory must stay under the configured memory root'')) (\<lambda>_.
       assertR (rm_directory r \<noteq> [] \<and> last (rm_directory r) = rm_hash r)
              (store_error ''memory directory name must match the resolved hash'')))"

definition validate_job_id :: "memory_env \<Rightarrow> string \<Rightarrow> string res" where
  "validate_job_id E job_id =
     (let unsafe = Exn CValueError ''job id must be one safe filename segment'' in
      bindR (assertR (job_id \<notin> {[], ''.'', ''..''}) unsafe) (\<lambda>_.
      bindR (assertR (\<not> endswith job_id '' '' \<and> \<not> endswith job_id ''.'')
               (Exn CValueError ''job id must not have trailing dot or space'')) (\<lambda>_.
      bindR (assertR (CHR ''/'' \<notin> set job_id \<and> CHR 0x5C \<notin> set job_id) unsafe) (\<lambda>_.
      bindR (assertR (path_name job_id = job_id) unsafe) (\<lambda>_.
      bindR (assertR (me_nfkc E job_id = job_id)
               (Exn CValueError ''job id must not be ambiguous under Unicode normalization'')) (\<lambda>_.
      bindR (assertR (normalized_key E job_id = job_id)
               (Exn CValueError ''job id must not be ambiguous under case normalization'')) (\<lambda>_.
      bindR (assertR (me_upper E (path_stem job_id) \<notin> set windows_reserved_names)
               (Exn CValueError ''job id uses a reserved Windows basename'')) (\<lambda>_.
        Inr job_id))))))))"

section \<open>The revision\<close>

definition revision_domain :: bytes where
  "revision_domain = ''agency-memory-content:v1'' @ [CHR 0x00]"

definition revision_entry :: "string \<times> bytes \<Rightarrow> bytes" where
  "revision_entry f = (case f of (name, payload) \<Rightarrow> utf8_encode name @ [CHR 0x00] @ payload @ [CHR 0x00])"

definition revision_payload :: "memory_files \<Rightarrow> bytes" where
  "revision_payload fl = revision_domain @ concat (map revision_entry (sort_key fst fl))"

definition memory_content_revision :: "memory_env \<Rightarrow> memory_files \<Rightarrow> string" where
  "memory_content_revision E fl = me_hash E (revision_payload fl)"

section \<open>Facts\<close>

definition filename_ok :: "memory_env \<Rightarrow> string \<Rightarrow> bool" where
  "filename_ok E name \<longleftrightarrow> path_name name = name \<and> name \<notin> {[], ''.'', ''..''} \<and>
     \<not> endswith name '' '' \<and> \<not> endswith name ''.'' \<and> \<not> startswith name ''.'' \<and>
     CHR ''/'' \<notin> set name \<and> CHR 0x5C \<notin> set name \<and> path_suffix name = ''.md'' \<and>
     me_upper E (path_stem name) \<notin> set windows_reserved_names"

lemma validate_filename_Inr:
  "validate_filename E name seen = Inr seen' \<longleftrightarrow>
     filename_ok E name \<and> map_of seen (normalized_key E name) \<in> {None, Some name} \<and>
     seen' = AList.update (normalized_key E name) name seen"
  by (auto simp: validate_filename_def filename_ok_def bindR_Inr_iff Let_def split: option.splits)

text \<open>Valid names, no two of which collide.\<close>

definition names_ok :: "memory_env \<Rightarrow> string list \<Rightarrow> bool" where
  "names_ok E names \<longleftrightarrow> list_all (filename_ok E) names \<and>
     (\<forall>a\<in>set names. \<forall>b\<in>set names. normalized_key E a = normalized_key E b \<longrightarrow> a = b)"

text \<open>What \<open>seen\<close> knows: the names so far under their own keys.\<close>

definition seen_ok :: "memory_env \<Rightarrow> string list \<Rightarrow> (string \<times> string) list \<Rightarrow> bool" where
  "seen_ok E names seen \<longleftrightarrow> (\<forall>k n. map_of seen k = Some n \<longleftrightarrow> n \<in> set names \<and> normalized_key E n = k)"

lemma seen_ok_step:
  assumes "seen_ok E names seen" "validate_filename E n seen = Inr seen'"
  shows "seen_ok E (n # names) seen' \<and> filename_ok E n \<and> (\<forall>a\<in>set names. normalized_key E a = normalized_key E n \<longrightarrow> a = n)"
proof -
  from assms(2) have v: "filename_ok E n" "map_of seen (normalized_key E n) \<in> {None, Some n}"
      "seen' = AList.update (normalized_key E n) n seen"
    by (auto simp: validate_filename_Inr)
  have u: "a = n" if "a \<in> set names" "normalized_key E a = normalized_key E n" for a
  proof -
    from that assms(1) have "map_of seen (normalized_key E n) = Some a" unfolding seen_ok_def by blast
    with v(2) show "a = n" by simp
  qed
  have "seen_ok E (n # names) seen'"
    unfolding seen_ok_def v(3) update_conv'
    using assms(1)[unfolded seen_ok_def] u by auto
  with v(1) u show ?thesis by blast
qed

lemma candidate_fold:
  assumes "seen_ok E done seen"
  shows "(\<exists>s. foldR (\<lambda>(name, payload) seen. bindR (validate_filename E name seen) (\<lambda>seen.
            bindR (assertR (path_suffix name = ''.md'') (name_error t name)) (\<lambda>_. Inr seen))) fl seen = Inr s)
    \<longleftrightarrow> list_all (filename_ok E) (map fst fl) \<and>
       (\<forall>a\<in>set (map fst fl). \<forall>b\<in>set (done @ map fst fl). normalized_key E a = normalized_key E b \<longrightarrow> a = b)"
  using assms
proof (induction fl arbitrary: seen "done")
  case Nil
  then show ?case by simp
next
  case (Cons f fl)
  obtain n b where f: "f = (n, b)" by (cases f)
  let ?F = "foldR (\<lambda>(name, payload) seen. bindR (validate_filename E name seen) (\<lambda>seen.
            bindR (assertR (path_suffix name = ''.md'') (name_error t name)) (\<lambda>_. Inr seen)))"
  show ?case
  proof (cases "validate_filename E n seen")
    case (Inl e)
    then have "\<not> (filename_ok E n \<and> map_of seen (normalized_key E n) \<in> {None, Some n})"
      by (metis Inl validate_filename_Inr sum.distinct(1))
    moreover have "map_of seen (normalized_key E n) \<in> {None, Some n}"
      if "\<forall>b\<in>set done. normalized_key E n = normalized_key E b \<longrightarrow> n = b"
      using Cons.prems that unfolding seen_ok_def by (cases "map_of seen (normalized_key E n)") auto
    ultimately show ?thesis using Inl by (auto simp: f)
  next
    case (Inr seen')
    note st = seen_ok_step [OF Cons.prems Inr]
    then have "path_suffix n = ''.md''" by (simp add: filename_ok_def)
    then have "(\<exists>s. ?F (f # fl) seen = Inr s) \<longleftrightarrow> (\<exists>s. ?F fl seen' = Inr s)"
      using Inr by (simp add: f)
    also have "\<dots> \<longleftrightarrow> list_all (filename_ok E) (map fst fl) \<and>
       (\<forall>a\<in>set (map fst fl). \<forall>b\<in>set ((n # done) @ map fst fl). normalized_key E a = normalized_key E b \<longrightarrow> a = b)"
      using Cons.IH st by blast
    finally show ?thesis using st by (auto simp: f)
  qed
qed

lemma normalize_candidate_files_Inr:
  "normalize_candidate_files E fl = Inr x \<longleftrightarrow> fl \<noteq> [] \<and> names_ok E (map fst fl) \<and> x = fl"
proof -
  have "seen_ok E [] []" by (simp add: seen_ok_def)
  from candidate_fold [OF this, of "''memory contains non-markdown file: ''" fl]
  show ?thesis by (auto simp: normalize_candidate_files_def bindR_Inr_iff names_ok_def)
qed

text \<open>
  A set of memory files is accepted exactly when it is not empty, every name is a direct, visible
  markdown name without trailing ambiguity that Windows does not reserve, and no two names
  are the same after Unicode and case folding; it is accepted as it is.
\<close>

theorem normalize_candidate_files_accepts_iff:
  "normalize_candidate_files E fl = Inr x \<longleftrightarrow>
     fl \<noteq> [] \<and> x = fl \<and> (\<forall>n\<in>set (map fst fl). filename_ok E n) \<and>
     (\<forall>a\<in>set (map fst fl). \<forall>b\<in>set (map fst fl). normalized_key E a = normalized_key E b \<longrightarrow> a = b)"
  by (auto simp: normalize_candidate_files_Inr names_ok_def list_all_iff)

definition ascii_lower :: "char \<Rightarrow> char" where
  "ascii_lower c = (if between CHR ''A'' CHR ''Z'' c then char_of (of_char c + 32 :: nat) else c)"

definition ascii_upper :: "char \<Rightarrow> char" where
  "ascii_upper c = (if between CHR ''a'' CHR ''z'' c then char_of (of_char c - 32 :: nat) else c)"

text \<open>The tables restricted to ASCII, and hashes that are the payload itself.\<close>

definition ascii_env :: memory_env where
  "ascii_env = \<lparr>me_yaml = json_codec, me_hash = id, me_nfkc = id, me_casefold = map ascii_lower, me_upper = map ascii_upper\<rparr>"

lemma normalize_candidate_files_accepts_iff_witness:
  "normalize_candidate_files ascii_env [(''memory.md'', ''a''), (''notes.md'', ''b'')] = Inr [(''memory.md'', ''a''), (''notes.md'', ''b'')] \<and>
   normalize_candidate_files ascii_env [(''memory.md'', ''a''), (''Memory.md'', ''b'')] \<noteq> Inr [(''memory.md'', ''a''), (''Memory.md'', ''b'')]"
proof -
  have ok: "filename_ok ascii_env ''memory.md''" "filename_ok ascii_env ''notes.md''" by code_simp+
  have k: "normalized_key ascii_env ''memory.md'' \<noteq> normalized_key ascii_env ''notes.md''"
    "normalized_key ascii_env ''memory.md'' = normalized_key ascii_env ''Memory.md''" by code_simp+
  have "normalize_candidate_files ascii_env [(''memory.md'', ''a''), (''notes.md'', ''b'')] = Inr [(''memory.md'', ''a''), (''notes.md'', ''b'')]"
    unfolding normalize_candidate_files_accepts_iff using ok k(1) by auto
  moreover have "normalize_candidate_files ascii_env [(''memory.md'', ''a''), (''Memory.md'', ''b'')] \<noteq> Inr [(''memory.md'', ''a''), (''Memory.md'', ''b'')]"
    unfolding normalize_candidate_files_accepts_iff using k(2) by auto
  ultimately show ?thesis by blast
qed

subsection \<open>What the revision determines\<close>

definition nul_free :: "memory_files \<Rightarrow> bool" where
  "nul_free fl \<longleftrightarrow> list_all (\<lambda>(n, b). CHR 0x00 \<notin> set n \<and> CHR 0x00 \<notin> set b) fl"

lemma stop_at_first:
  "a @ z # r = b @ z # s \<Longrightarrow> z \<notin> set a \<Longrightarrow> z \<notin> set b \<Longrightarrow> a = b \<and> r = s"
proof (induction a arbitrary: b)
  case Nil
  then show ?case by (cases b) auto
next
  case (Cons x a)
  then show ?case by (cases b) auto
qed

lemma utf8_encode_nul: "CHR 0x00 \<notin> set s \<Longrightarrow> CHR 0x00 \<notin> set (utf8_encode s)"
proof (induction s)
  case (Cons c s)
  have "(char_of n :: char) \<noteq> CHR 0x00" if "0 < n" "n < 256" for n :: nat
  proof
    assume "(char_of n :: char) = CHR 0x00"
    then have "(of_char (char_of n :: char) :: nat) = of_char (CHR 0x00)" by simp
    with that show False by simp
  qed
  note nz = this
  have c: "(of_char c :: nat) < 256" by (rule of_char_less)
  have "(char_of (192 + of_char c div 64 :: nat) :: char) \<noteq> CHR 0x00" by (rule nz) (use less_mult_imp_div_less [of "of_char c :: nat" 4 64] c in linarith)+
  moreover have "(char_of (128 + of_char c mod 64 :: nat) :: char) \<noteq> CHR 0x00"
    by (rule nz) (use mod_less_divisor [of 64 "of_char c :: nat"] in linarith)+
  ultimately show ?case using Cons by (simp only: utf8_encode.simps Let_def set_simps if_distrib [of set])
      (auto simp del: char_of_eq_iff)
qed simp

lemma revision_entries_inject:
  assumes "concat (map revision_entry xs) = concat (map revision_entry ys)" "nul_free xs" "nul_free ys"
  shows "xs = ys"
  using assms
proof (induction xs arbitrary: ys)
  case Nil
  then show ?case by (cases ys) (auto simp: revision_entry_def)
next
  case (Cons x xs)
  obtain n b where x: "x = (n, b)" by (cases x)
  from Cons.prems(1) have "ys \<noteq> []" by (auto simp: x revision_entry_def)
  then obtain m c zs where ys: "ys = (m, c) # zs" by (metis list.exhaust surj_pair)
  let ?r = "concat (map revision_entry xs)" and ?s = "concat (map revision_entry zs)"
  have nf: "CHR 0x00 \<notin> set n" "CHR 0x00 \<notin> set b" "CHR 0x00 \<notin> set m" "CHR 0x00 \<notin> set c" "nul_free xs" "nul_free zs"
    using Cons.prems(2,3) by (auto simp: x ys nul_free_def)
  have "utf8_encode n @ CHR 0x00 # (b @ CHR 0x00 # ?r) = utf8_encode m @ CHR 0x00 # (c @ CHR 0x00 # ?s)"
    using Cons.prems(1) by (simp add: x ys) (simp add: revision_entry_def [of "(n, b)"] revision_entry_def [of "(m, c)"])
  from stop_at_first [OF this] nf have "n = m" "b @ CHR 0x00 # ?r = c @ CHR 0x00 # ?s"
    by (auto simp: utf8_encode_nul)
  from stop_at_first [OF this(2) nf(2,4)] \<open>n = m\<close> Cons.IH [of zs] nf(5,6) show ?case by (simp add: x ys)
qed



text \<open>
  The separator can be part of a payload, so two different memories can have one revision:
  a single file whose text contains a NUL, a name, a NUL and a text, and two files.
\<close>

lemma revision_collides:
  "memory_content_revision E [(''a.md'', ''x'' @ [CHR 0x00] @ ''b.md'' @ [CHR 0x00] @ ''y'')] =
   memory_content_revision E [(''a.md'', ''x''), (''b.md'', ''y'')]"
proof -
  have "revision_payload [(''a.md'', ''x'' @ [CHR 0x00] @ ''b.md'' @ [CHR 0x00] @ ''y'')] =
     revision_payload [(''a.md'', ''x''), (''b.md'', ''y'')]"
    by code_simp
  then show ?thesis by (simp add: memory_content_revision_def)
qed

end
