(* ===== verification/Compilation.thy ===== *)
theory Compilation
  imports Blueprints TreeOps Locks MemoryNames
begin

text \<open>
  \<^verbatim>\<open>agency/blueprints/projectors.py\<close>, \<^verbatim>\<open>agency/projector_capabilities.py\<close> and
  \<^verbatim>\<open>agency/blueprints/cache.py\<close>: how a blueprint becomes the directory an agent runs in, the
  cache of these directories and the pins that keep them. What the cache takes from the system is
  the record \<open>cache_env\<close>: the permission bits of a runtime file (by its relative path) and the text of the
  current time.
\<close>

section \<open>Projectors\<close>

record projector_capabilities =
  pc_instruction_target :: path
  pc_skills_target :: path
  pc_discovers_skills :: bool
  pc_activates_selected_skill :: bool

record projector =
  pj_version :: string
  pj_capabilities :: projector_capabilities

definition projector_issue :: "string \<Rightarrow> string \<Rightarrow> string \<Rightarrow> string \<Rightarrow> validation_issue" where
  "projector_issue code fld message hint =
     \<lparr>iss_code = code, iss_scope = ''runtime-projector'', iss_field = fld, iss_message = message, iss_hint = hint\<rparr>"

text \<open>Where one source file goes, or \<^const>\<open>None\<close>; the later of two files with one target wins.\<close>

definition mapped_target :: "projector \<Rightarrow> path \<Rightarrow> path option" where
  "mapped_target pj p =
     (if p = [''AGENTS.md''] then Some (pc_instruction_target (pj_capabilities pj))
      else if take 2 p = [''.agents'', ''skills''] then Some (pc_skills_target (pj_capabilities pj) @ drop 2 p)
      else None)"

definition mapped_paths :: "projector \<Rightarrow> tree_snapshot \<Rightarrow> (path \<times> bytes) list" where
  "mapped_paths pj source =
     fold (\<lambda>f m. case mapped_target pj (sf_path f) of None \<Rightarrow> m | Some t \<Rightarrow> AList.update t (sf_content f) m)
       (ts_files source) []"

definition project :: "projector \<Rightarrow> tree_snapshot \<Rightarrow> path \<Rightarrow> unit fio" where
  "project pj source destination =
     forI (\<lambda>(relative, content).
       thenI (mkdir_p (butlast (destination @ relative))) (write_bytes (destination @ relative) content))
       (mapped_paths pj source)"

text \<open>The regular files that \<open>rglob("*")\<close> finds below a directory, relative to \<open>destination\<close>.\<close>

definition found_files :: "fs \<Rightarrow> path \<Rightarrow> path \<Rightarrow> path list" where
  "found_files fs destination target =
     (let candidate = destination @ target; d = resolve fs candidate in
      if is_file fs candidate then [target]
      else if is_dir fs candidate
      then map (\<lambda>e. target @ drop (length d) (fst e))
             (filter (\<lambda>e. strict_prefix d (fst e) \<and> is_file fs (fst e)) fs)
      else [])"

definition check_projected :: "fs \<Rightarrow> path \<Rightarrow> path \<times> bytes \<Rightarrow> validation_issue list" where
  "check_projected fs destination entry =
     (case entry of (relative, content) \<Rightarrow> case stat_node fs (destination @ relative) of
        Some (File b) \<Rightarrow>
          if b = content then []
          else [projector_issue ''projector-byte-mismatch'' (as_posix relative)
                  (''Projected runtime file does not match source bytes: '' @ as_posix relative @ ''.'')
                  ''Rewrite the projection without mutating instruction or skill file bytes.'']
      | _ \<Rightarrow> [projector_issue ''projector-missing-path'' (as_posix relative)
                (''Projected runtime file is missing: '' @ as_posix relative @ ''.'')
                ''Rebuild the runtime projection and ensure every expected file is written.''])"

definition validate_output :: "projector \<Rightarrow> tree_snapshot \<Rightarrow> path \<Rightarrow> fs \<Rightarrow> validation_issue list" where
  "validate_output pj source destination fs =
     (let expected = mapped_paths pj source;
          actual = found_files fs destination (pc_instruction_target (pj_capabilities pj)) @
                   found_files fs destination (pc_skills_target (pj_capabilities pj)) in
      concat (map (check_projected fs destination) expected) @
      map (\<lambda>relative. projector_issue ''projector-unexpected-path'' (as_posix relative)
             (''Projected runtime contains an unexpected file: '' @ as_posix relative @ ''.'')
             ''Remove files that are not part of the runtime projection contract.'')
        (sort_key as_posix (filter (\<lambda>p. p \<notin> fst ` set expected) (remdups actual))))"

definition projectors :: "(string \<times> projector) list" where
  "projectors =
     [(''copilot'', \<lparr>pj_version = ''v1'', pj_capabilities =
        \<lparr>pc_instruction_target = [''AGENTS.md''], pc_skills_target = [''.agents'', ''skills''],
         pc_discovers_skills = True, pc_activates_selected_skill = True\<rparr>\<rparr>),
      (''claude-code'', \<lparr>pj_version = ''v1'', pj_capabilities =
        \<lparr>pc_instruction_target = [''CLAUDE.md''], pc_skills_target = [''.claude'', ''skills''],
         pc_discovers_skills = False, pc_activates_selected_skill = False\<rparr>\<rparr>),
      (''gemini'', \<lparr>pj_version = ''v1'', pj_capabilities =
        \<lparr>pc_instruction_target = [''GEMINI.md''], pc_skills_target = [''.agents'', ''skills''],
         pc_discovers_skills = False, pc_activates_selected_skill = False\<rparr>\<rparr>)]"

definition get_projector :: "string \<Rightarrow> projector res" where
  "get_projector integration =
     (case map_of projectors integration of
        Some p \<Rightarrow> Inr p
      | None \<Rightarrow> Inl (Exn CKeyError (''No runtime projector registered for integration: '' @ integration)))"

section \<open>Where things are\<close>

record cache_ref =
  cf_integration :: string
  cf_projector_version :: string
  cf_source_digest :: string

record compiled_artifact =
  ca_ref :: cache_ref
  ca_entry_path :: path
  ca_runtime_path :: path
  ca_manifest_path :: path

record cache_env =
  ce_assets :: asset_env
  ce_mode :: "path \<Rightarrow> nat"
  ce_timestamp :: string

definition cache_key :: "cache_ref \<Rightarrow> string" where
  "cache_key r = cf_integration r @ ''--'' @ cf_projector_version r @ ''--'' @ cf_source_digest r"

definition entry_path :: "path \<Rightarrow> cache_ref \<Rightarrow> path" where
  "entry_path d r = d @ [cf_integration r, cf_projector_version r, cf_source_digest r]"

definition artifact_at :: "path \<Rightarrow> cache_ref \<Rightarrow> compiled_artifact" where
  "artifact_at entry r =
     \<lparr>ca_ref = r, ca_entry_path = entry, ca_runtime_path = entry @ [''runtime''], ca_manifest_path = entry @ [''manifest.json'']\<rparr>"

definition artifact_from_entry :: "path \<Rightarrow> cache_ref \<Rightarrow> compiled_artifact" where
  "artifact_from_entry d r = artifact_at (entry_path d r) r"

definition cache_lock_path :: "path \<Rightarrow> cache_ref \<Rightarrow> path" where
  "cache_lock_path d r = d @ [''_locks'', cache_key r @ ''.lock'']"

definition pins_dir :: "path \<Rightarrow> cache_ref \<Rightarrow> path" where
  "pins_dir d r = d @ [''_pins'', cache_key r]"

definition quarantine_root :: "path \<Rightarrow> path" where
  "quarantine_root d = d @ [''_quarantine'']"

section \<open>Manifests\<close>

text \<open>\<open>json.dumps(v, sort_keys=True, indent=2, separators=(",", ": "))\<close>, ASCII only.\<close>

definition ascii_char :: "char \<Rightarrow> string" where
  "ascii_char c =
     (let n = of_char c :: nat in
      if 126 < n then [CHR 0x5C, CHR ''u'', CHR ''0'', CHR ''0'', hex_digit (n div 16), hex_digit (n mod 16)]
      else json_char c)"

definition ascii_str :: "string \<Rightarrow> string" where
  "ascii_str s = CHR 0x22 # concat (map ascii_char s) @ [CHR 0x22]"

definition line_indent :: "nat \<Rightarrow> string" where
  "line_indent n = CHR 0x0A # replicate (2 * n) CHR '' ''"

fun json_indent :: "nat \<Rightarrow> py \<Rightarrow> string" where
  "json_indent n (PStr s) = ascii_str s"
| "json_indent n (PList xs) =
     (if xs = [] then ''[]''
      else ''['' @ line_indent (Suc n) @ join ('','' @ line_indent (Suc n)) (map (json_indent (Suc n)) xs) @ line_indent n @ '']'')"
| "json_indent n (PDict d) =
     (if d = [] then ''{}''
      else ''{'' @ line_indent (Suc n) @ join ('','' @ line_indent (Suc n))
             (map (\<lambda>(k, v). ascii_str k @ '': '' @ json_indent (Suc n) v) d) @ line_indent n @ ''}'')"
| "json_indent n v = json v"

definition manifest_text :: "py \<Rightarrow> string" where
  "manifest_text payload = json_indent 0 (sort_dicts payload) @ [CHR 0x0A]"

definition bad_artifact :: "string \<Rightarrow> exn" where
  "bad_artifact text = Exn CValueError text"

text \<open>One entry below the runtime directory: nothing for a directory, an error for a special node.\<close>

definition inventory_item :: "cache_env \<Rightarrow> path \<Rightarrow> path \<times> node \<Rightarrow> (string \<times> py) list res" where
  "inventory_item C d entry =
     (case entry of (p, n) \<Rightarrow>
      let relative = as_posix (drop (length d) p) in
      case n of
        Dir \<Rightarrow> Inr []
      | File b \<Rightarrow> Inr [(relative, PDict [(''path'', PStr relative), (''size'', PInt (int (length b))),
                                        (''sha256'', PStr (ae_hash (ce_assets C) b)), (''mode'', PInt (int (ce_mode C (drop (length d) p))))])]
      | _ \<Rightarrow> Inl (bad_artifact (''Runtime projection contains a non-regular file: '' @ relative)))"

definition validate_runtime_inventory :: "cache_env \<Rightarrow> path \<Rightarrow> py fio" where
  "validate_runtime_inventory C runtime =
     bindI (see (\<lambda>fs. (is_dir fs runtime, resolve fs runtime, fs))) (\<lambda>(there, d, fs).
       thenI (assertI there (bad_artifact (''Runtime directory is missing: '' @ path_str runtime)))
         (bindI (liftR (mapR (inventory_item C d) (filter (\<lambda>e. strict_prefix d (fst e)) fs))) (\<lambda>found.
            ret (PList (map snd (sort_key fst (concat found)))))))"

definition ref_dict :: "cache_ref \<Rightarrow> py" where
  "ref_dict r = PDict [(''integration'', PStr (cf_integration r)), (''projector_version'', PStr (cf_projector_version r)),
                       (''source_digest'', PStr (cf_source_digest r))]"

definition manifest_payload :: "cache_env \<Rightarrow> cache_ref \<Rightarrow> path \<Rightarrow> py fio" where
  "manifest_payload C r runtime =
     bindI (validate_runtime_inventory C runtime) (\<lambda>inventory.
       ret (PDict [(''schema_version'', PInt 1), (''ref'', ref_dict r), (''runtime_files'', inventory)]))"

text \<open>\<open>payload != expected\<close> does not look at the order of keys.\<close>

definition validate_artifact :: "cache_env \<Rightarrow> path \<Rightarrow> cache_ref \<Rightarrow> tree_snapshot \<Rightarrow> projector \<Rightarrow> compiled_artifact fio" where
  "validate_artifact C entry r source pj =
     (let a = artifact_at entry r in
      bindI (see (\<lambda>fs. (is_dir fs entry, is_file fs (ca_manifest_path a), validate_output pj source (ca_runtime_path a) fs)))
        (\<lambda>(there, manifest, issues).
          thenI (assertI there (bad_artifact (''Compiled artifact is missing: '' @ path_str entry)))
          (thenI (assertI manifest (bad_artifact (''Compiled artifact manifest is missing: '' @ path_str (ca_manifest_path a))))
          (thenI (assertI (issues = []) (bad_artifact ''Compiled artifact projection does not match source bytes''))
          (bindI (read_text (ca_manifest_path a)) (\<lambda>text.
           bindI (liftR (json_loads text)) (\<lambda>payload.
           bindI (manifest_payload C r (ca_runtime_path a)) (\<lambda>expected.
             thenI (assertI (sort_dicts payload = sort_dicts expected) (bad_artifact ''Compiled artifact manifest does not match runtime content''))
             (thenI (assertI (text = manifest_text expected) (bad_artifact ''Compiled artifact manifest is not deterministic''))
               (ret a)))))))))) "

section \<open>The cache\<close>

definition publish_directory :: "path \<Rightarrow> path \<Rightarrow> unit fio" where
  "publish_directory source destination = thenI (mkdir_p (butlast destination)) (os_replace source destination)"

definition quarantine_artifact :: "cache_env \<Rightarrow> path \<Rightarrow> cache_ref \<Rightarrow> path \<Rightarrow> unit fio" where
  "quarantine_artifact C d r entry =
     thenI (mkdir_p (quarantine_root d))
       (os_replace entry (quarantine_root d @ [ce_timestamp C @ ''-'' @ cache_key r]))"

text \<open>The body of \<open>with exclusive_lock\<close> once the entry is known to be missing or set aside.\<close>

definition compile_entry :: "cache_env \<Rightarrow> cache_ref \<Rightarrow> tree_snapshot \<Rightarrow> projector \<Rightarrow> path \<Rightarrow> unit fio" where
  "compile_entry C r source pj entry =
     thenI (mkdir_p (butlast entry))
       (bindI (mkdtemp (butlast entry) (''.'' @ last entry @ ''.tmp-'')) (\<lambda>tmp.
          tryI
            (thenI (mkdir_p (tmp @ [''runtime'']))
            (thenI (project pj source (tmp @ [''runtime'']))
            (bindI (see (validate_output pj source (tmp @ [''runtime'']))) (\<lambda>issues.
             thenI (assertI (issues = []) (bad_artifact ''Projected runtime failed validation''))
             (bindI (manifest_payload C r (tmp @ [''runtime''])) (\<lambda>manifest.
              thenI (atomic_write_text (tmp @ [''manifest.json'']) (manifest_text manifest))
              (bindI (validate_artifact C tmp r source pj) (\<lambda>_. publish_directory tmp entry))))))))
            (\<lambda>e. thenI (shutil_rmtree_at True tmp) (raise e))))"

definition ensure_compiled :: "cache_env \<Rightarrow> path \<Rightarrow> cache_ref \<Rightarrow> tree_snapshot \<Rightarrow> projector \<Rightarrow> compiled_artifact fio" where
  "ensure_compiled C d r source pj =
     bindI (see (\<lambda>fs. resolve fs d)) (\<lambda>d.
     let entry = entry_path d r; ready = bindI (validate_artifact C entry r source pj) (\<lambda>a. ret (Some a)) in
     bindI (try_only [CValueError] ready (\<lambda>_. ret None)) (\<lambda>first. case first of
       Some a \<Rightarrow> ret a
     | None \<Rightarrow>
         bindI (exclusive_lock (cache_lock_path d r) True False
           (bindI (try_only [CValueError] ready (\<lambda>_.
                     bindI (see (\<lambda>fs. path_exists fs entry)) (\<lambda>there.
                       thenI (whenI there (quarantine_artifact C d r entry)) (ret None)))) (\<lambda>second. case second of
              Some a \<Rightarrow> ret (Some a)
            | None \<Rightarrow> thenI (compile_entry C r source pj entry) (ret None)))) (\<lambda>locked. case locked of
         Some a \<Rightarrow> ret a
       | None \<Rightarrow> validate_artifact C entry r source pj)))"

definition cache_ensure_compiled :: "cache_env \<Rightarrow> path \<Rightarrow> (string \<times> projector) list \<Rightarrow> string \<Rightarrow> blueprint_inspection \<Rightarrow> compiled_artifact fio" where
  "cache_ensure_compiled C d registry integration inspection =
     (case map_of registry integration of
        None \<Rightarrow> raise (Exn CKeyError integration)
      | Some pj \<Rightarrow>
          ensure_compiled C d \<lparr>cf_integration = integration, cf_projector_version = pj_version pj,
                                cf_source_digest = ts_digest (bi_snapshot inspection)\<rparr> (bi_snapshot inspection) pj)"

section \<open>Pins\<close>

definition pin_error :: exn where
  "pin_error = Exn CValueError ''job_id must be a non-empty safe filename segment''"

text \<open>\<open>job_id.split(".", 1)[0].rstrip(" .").casefold()\<close>\<close>

definition pin_stem :: "cache_env \<Rightarrow> string \<Rightarrow> string" where
  "pin_stem C j =
     ae_casefold (ce_assets C) (rev (dropWhile (\<lambda>c. c = CHR '' '' \<or> c = CHR ''.'') (rev (takeWhile (\<lambda>c. c \<noteq> CHR ''.'') j))))"

definition validate_pin_id :: "cache_env \<Rightarrow> py \<Rightarrow> string res" where
  "validate_pin_id C v =
     bindR (assertR (is_str v \<and> text_of v \<noteq> []) pin_error) (\<lambda>_.
     let j = text_of v in
     bindR (assertR (j \<notin> {''.'', ''..''}) pin_error) (\<lambda>_.
     bindR (assertR (last j \<notin> {CHR ''.'', CHR '' ''}) pin_error) (\<lambda>_.
     bindR (assertR (path_name j = j \<and> \<not> startswith j ''/'') pin_error) (\<lambda>_.
     bindR (assertR (CHR ''/'' \<notin> set j) pin_error) (\<lambda>_.
     bindR (assertR (pin_stem C j \<notin> set windows_reserved) pin_error) (\<lambda>_. Inr j))))))"

definition pin_artifact :: "cache_env \<Rightarrow> path \<Rightarrow> cache_ref \<Rightarrow> py \<Rightarrow> path fio" where
  "pin_artifact C d r v =
     bindI (liftR (validate_pin_id C v)) (\<lambda>j.
     bindI (see (\<lambda>fs. pins_dir (resolve fs d) r @ [j])) (\<lambda>p.
       thenI (atomic_write_text p []) (ret p)))"

definition release_pin :: "cache_env \<Rightarrow> path \<Rightarrow> cache_ref \<Rightarrow> py \<Rightarrow> unit fio" where
  "release_pin C d r v =
     bindI (liftR (validate_pin_id C v)) (\<lambda>j.
     bindI (see (\<lambda>fs. pins_dir (resolve fs d) r @ [j])) (\<lambda>p.
       bindI (try_only [CFileNotFoundError] (thenI (unlink p) (ret True)) (\<lambda>_. ret False)) (\<lambda>removed.
         if removed then try_only [COSError] (rmdir (butlast p)) (\<lambda>_. ret ()) else ret ())))"

definition active_pins :: "cache_env \<Rightarrow> path \<Rightarrow> cache_ref \<Rightarrow> string list fio" where
  "active_pins C d r =
     bindI (see (\<lambda>fs. pins_dir (resolve fs d) r)) (\<lambda>p.
     bindI (see (\<lambda>fs. path_exists fs p)) (\<lambda>there.
       if \<not> there then ret []
       else bindI (iterdir p) (\<lambda>names.
         bindI (see (\<lambda>fs. filter (\<lambda>n. is_regular (lstat_node fs (p @ [n]))) names)) (\<lambda>regular.
           ret (sort (filter (\<lambda>n. validate_pin_id C (PStr n) = Inr n) regular))))))"

section \<open>What a valid artifact holds\<close>

definition targets :: "projector \<Rightarrow> path \<Rightarrow> bool" where
  "targets pj q \<longleftrightarrow> prefix (pc_instruction_target (pj_capabilities pj)) q \<or> prefix (pc_skills_target (pj_capabilities pj)) q"

text \<open>
  A compiled entry: below the targets of the projector the runtime directory has exactly the
  projected files, and there is a manifest.
\<close>

definition compiled :: "projector \<Rightarrow> tree_snapshot \<Rightarrow> path \<Rightarrow> (path \<Rightarrow> node option) \<Rightarrow> bool" where
  "compiled pj source e g \<longleftrightarrow>
     g e = Some Dir \<and> is_regular (g (e @ [''manifest.json''])) \<and>
     (\<forall>q b. targets pj q \<longrightarrow> ''..'' \<notin> set q \<longrightarrow> g (e @ ''runtime'' # q) = Some (File b) \<longleftrightarrow> (q, b) \<in> set (mapped_paths pj source))"

lemma mapped_paths_targets:
  "(q, b) \<in> set (mapped_paths pj source) \<Longrightarrow> targets pj q"
proof -
  have "\<forall>(q, b)\<in>set (fold (\<lambda>f m. case mapped_target pj (sf_path f) of None \<Rightarrow> m | Some t \<Rightarrow> AList.update t (sf_content f) m) fl m).
      targets pj q" if "\<forall>(q, b)\<in>set m. targets pj q" for fl m
    using that
  proof (induction fl arbitrary: m)
    case (Cons f fl)
    show ?case
    proof (cases "mapped_target pj (sf_path f)")
      case None
      with Cons show ?thesis by simp
    next
      case (Some t)
      then have "targets pj t" by (auto simp: mapped_target_def targets_def split: if_splits)
      with Cons.prems have "\<forall>(q, b)\<in>set (AList.update t (sf_content f) m). targets pj q"
        using set_alist_update [of t "sf_content f" m] by blast
      from Cons.IH [OF this] Some show ?thesis by simp
    qed
  qed simp
  from this [of "[]" "ts_files source"] show "(q, b) \<in> set (mapped_paths pj source) \<Longrightarrow> targets pj q"
    by (auto simp: mapped_paths_def)
qed

text \<open>The targets have no parent references.\<close>

definition projection_ok :: "projector \<Rightarrow> tree_snapshot \<Rightarrow> bool" where
  "projection_ok pj source \<longleftrightarrow>
     ''..'' \<notin> set (pc_instruction_target (pj_capabilities pj)) \<and> ''..'' \<notin> set (pc_skills_target (pj_capabilities pj)) \<and>
     list_all (\<lambda>(q, b). ''..'' \<notin> set q) (mapped_paths pj source)"

lemma found_files_clean:
  assumes "clean d fs" "below d (e @ t)" "prefix d e" "node_at fs (e @ q) = Some (File b)" "prefix t q" "''..'' \<notin> set q"
  shows "q \<in> set (found_files fs e t)"
proof -
  have tr: "tree fs" using assms(1) by (simp add: clean_def)
  have bq: "below d (e @ q)" using assms(1,2,3,6) by (auto simp: below_def clean_def)
  have st: "stat_node fs (e @ t) = node_at fs (e @ t)" by (rule stat_clean [OF assms(1,2)])
  show ?thesis
  proof (cases "q = t")
    case True
    with st assms(4) show ?thesis by (simp add: found_files_def is_file_def)
  next
    case False
    with assms(5) have sp: "strict_prefix (e @ t) (e @ q)" by (auto simp: strict_prefix_def)
    with tree_prefix_dir [OF tr _ this] assms(4) have dir: "node_at fs (e @ t) = Some Dir" by simp
    have "(e @ q, File b) \<in> set fs"
      using assms(1,4) sp node_at_entry [of fs "e @ q" "File b"] by (force simp: clean_def)
    moreover have "is_file fs (e @ q)" using stat_clean [OF assms(1) bq] assms(4) by (simp add: is_file_def)
    moreover have "q = t @ drop (length (e @ t)) (e @ q)" using assms(5) by (auto simp: prefix_def)
    ultimately have "q \<in> (\<lambda>x. t @ drop (length (e @ t)) (fst x)) ` {x \<in> set fs. strict_prefix (e @ t) (fst x) \<and> is_file fs (fst x)}"
      using sp by (intro image_eqI [where x = "(e @ q, File b)"]) auto
    with dir st show ?thesis
      by (simp add: found_files_def Let_def is_file_def is_dir_def resolve_clean [OF assms(1,2)])
  qed
qed

lemma validate_output_exact:
  assumes "clean d fs" "prefix d e" "''..'' \<notin> set e" "projection_ok pj source" "validate_output pj source e fs = []"
    and "targets pj q" "''..'' \<notin> set q"
  shows "node_at fs (e @ q) = Some (File b) \<longleftrightarrow> (q, b) \<in> set (mapped_paths pj source)"
proof -
  have "''..'' \<notin> set d" using assms(1) by (simp add: clean_def)
  then have below: "below d (e @ p)" if "''..'' \<notin> set p" for p
    using assms(2,3) that by (auto simp: below_def)
  have mapped: "node_at fs (e @ p) = Some (File c)" if "(p, c) \<in> set (mapped_paths pj source)" for p c
  proof -
    have "check_projected fs e (p, c) = []" using assms(5) that by (auto simp: validate_output_def Let_def)
    then have "stat_node fs (e @ p) = Some (File c)"
      by (auto simp: check_projected_def split: option.splits node.splits if_splits)
    moreover have "''..'' \<notin> set p" using assms(4) that by (auto simp: projection_ok_def list_all_iff)
    ultimately show ?thesis using stat_clean [OF assms(1) below] by simp
  qed
  have un: "fst ` set (mapped_paths pj source) \<supseteq> set (found_files fs e (pc_instruction_target (pj_capabilities pj))) \<union>
      set (found_files fs e (pc_skills_target (pj_capabilities pj)))"
  proof -
    have "sort_key as_posix (filter (\<lambda>p. p \<notin> fst ` set (mapped_paths pj source)) (remdups
        (found_files fs e (pc_instruction_target (pj_capabilities pj)) @ found_files fs e (pc_skills_target (pj_capabilities pj))))) = []"
      using assms(5) by (simp add: validate_output_def Let_def)
    from arg_cong [where f = set, OF this] show ?thesis by auto
  qed
  show ?thesis
  proof
    assume f: "node_at fs (e @ q) = Some (File b)"
    have "q \<in> fst ` set (mapped_paths pj source)"
      using assms(4,6) un found_files_clean [OF assms(1) below assms(2) f _ assms(7)]
      by (auto simp: targets_def projection_ok_def)
    then obtain c where c: "(q, c) \<in> set (mapped_paths pj source)" by auto
    with mapped f show "(q, b) \<in> set (mapped_paths pj source)" by fastforce
  qed (rule mapped)
qed

lemma validate_artifact_result:
  assumes "clean d (files w)" "prefix d e" "''..'' \<notin> set e" "projection_ok pj source"
    and "validate_artifact C e r source pj w = (Inr a, w')"
  shows "w' = w \<and> a = artifact_at e r \<and> compiled pj source e (node_at (files w))"
proof -
  have "''..'' \<notin> set d" using assms(1) by (simp add: clean_def)
  then have below: "below d (e @ p)" if "''..'' \<notin> set p" for p
    using assms(2,3) that by (auto simp: below_def)
  from assms(5) have v: "is_dir (files w) e" "is_file (files w) (e @ [''manifest.json''])"
      "validate_output pj source (e @ [''runtime'']) (files w) = []" "a = artifact_at e r" "w' = w"
    by (auto simp: validate_artifact_def artifact_at_def Let_def thenI_Inr_iff bindI_Inr_iff manifest_payload_def
        validate_runtime_inventory_def read_text_def read_bytes_def split: if_splits option.splits node.splits)
  have "node_at (files w) (e @ ''runtime'' # q) = Some (File b) \<longleftrightarrow> (q, b) \<in> set (mapped_paths pj source)"
    if "targets pj q" "''..'' \<notin> set q" for q b
    using validate_output_exact [OF assms(1) _ _ assms(4) v(3) that] assms(2,3) by simp
  with v stat_clean [OF assms(1) below, of "[]"] stat_clean [OF assms(1) below, of "[''manifest.json'']"]
  show ?thesis by (simp add: compiled_def is_dir_def is_file_def)
qed

lemma keeps_validate_artifact [keeps_intros]: "keeps P (validate_artifact C e r source pj)"
  by (auto simp: validate_artifact_def Let_def manifest_payload_def validate_runtime_inventory_def read_text_def
      intro!: keeps_intros split: option.splits simp del: io_apply)

section \<open>Compiling is atomic\<close>

text \<open>
  The entry \<open>e\<close> of the cache \<open>d\<close> has a place of its own: \<open>U\<close> is what the compilation may
  change, \<open>R\<close> is the entry.
\<close>

definition cache_tree :: "path \<Rightarrow> path set" where
  "cache_tree d = {q. q \<noteq> [] \<and> (prefix d q \<or> prefix q d)}"

definition below_entry :: "path \<Rightarrow> path set" where
  "below_entry e = {q. prefix e q}"

definition cache_place :: "path \<Rightarrow> cache_ref \<Rightarrow> bool" where
  "cache_place d r \<longleftrightarrow> d \<noteq> [] \<and> ''..'' \<notin> set (entry_path d r)"

lemma spares_thenI: "spares d U R m \<Longrightarrow> spares d U R n \<Longrightarrow> spares d U R (thenI m n)"
  by (auto simp: spares_def intro!: keeps_thenI)

lemma spares_mkdir_p:
  assumes "''..'' \<notin> set p" "prefix d p" "d \<noteq> []" "\<not> prefix e p"
  shows "spares d (cache_tree d) (below_entry e) (mkdir_p p)"
  unfolding spares_def
proof (intro allI keeps_mkdir_p)
  show "below d p" using assms by (simp add: below_def)
  fix q assume "prefix q p" "q \<noteq> []"
  moreover from this assms(2) have "prefix d q \<or> prefix q d" by (metis prefix_same_cases)
  ultimately show "q \<in> cache_tree d - below_entry e"
    using assms(4) by (auto simp: cache_tree_def below_entry_def dest: prefix_order.trans)
qed

lemma free_of_entry:
  assumes "prefix d p" "d \<noteq> []" "\<not> prefix e p" "\<not> prefix p e" "prefix p q"
  shows "q \<in> cache_tree d - below_entry e"
proof -
  have "\<not> prefix e q" using assms(3,4,5) by (metis prefix_same_cases)
  with assms show ?thesis by (auto simp: cache_tree_def below_entry_def dest: prefix_order.trans)
qed

lemma spares_project:
  assumes "''..'' \<notin> set t" "prefix d t" "d \<noteq> []" "\<not> prefix e t" "\<not> prefix t e" "projection_ok pj source"
  shows "spares d (cache_tree d) (below_entry e) (project pj source t)"
  unfolding spares_def project_def
proof (intro allI keeps_forI)
  fix g x assume x: "x \<in> set (mapped_paths pj source)"
  obtain q b where x': "x = (q, b)" by fastforce
  with x assms(6) have q: "''..'' \<notin> set q" by (auto simp: projection_ok_def list_all_iff)
  have n: "\<not> prefix e (t @ q)" using assms(4,5) prefix_same_cases [of e "t @ q" t] by auto
  then have nb: "\<not> prefix e (butlast (t @ q))" by (meson prefix_order.trans prefixeq_butlast)
  have w: "keeps (confined d (cache_tree d - below_entry e) g) (write_bytes (t @ q) b)"
  proof (rule keeps_write_bytes)
    show "below d (t @ q)" using assms(1,2) q by (simp add: below_def)
    show "t @ q \<in> cache_tree d - below_entry e" using free_of_entry [OF assms(2-5)] by simp
  qed
  have dirs: "keeps (confined d (cache_tree d - below_entry e) g) (mkdir_p (butlast (t @ q)))"
  proof (cases "q = []")
    case False
    then have "prefix d (butlast (t @ q))" using assms(2) by (simp add: butlast_append)
    moreover have "''..'' \<notin> set (butlast (t @ q))" using assms(1) q by (auto dest: in_set_butlastD)
    ultimately show ?thesis
      using spares_mkdir_p [of "butlast (t @ q)" d e] assms(3) nb by (simp add: spares_def)
  next
    case True
    show ?thesis
    proof (rule keeps_mkdir_p)
      show "below d (butlast (t @ q))" using below_butlast [of d t] assms(1,2) True by (simp add: below_def [of d t])
      fix p assume p: "prefix p (butlast (t @ q))" "p \<noteq> []"
      then have "prefix p t" using True by (metis append_Nil2 prefix_order.trans prefixeq_butlast)
      then have "prefix d p \<or> prefix p d" using assms(2) by (metis prefix_same_cases)
      moreover have "\<not> prefix e p" using \<open>prefix p t\<close> assms(4) by (meson prefix_order.trans)
      ultimately show "p \<in> cache_tree d - below_entry e" using p(2) by (simp add: cache_tree_def below_entry_def)
    qed
  qed
  show "keeps (confined d (cache_tree d - below_entry e) g)
      (case x of (relative, content) \<Rightarrow> thenI (mkdir_p (butlast (t @ relative))) (write_bytes (t @ relative) content))"
    using dirs w by (simp add: x' keeps_thenI)
qed

text \<open>The states a compilation goes through, seen from its entry: absent, or complete.\<close>

definition entry_absent :: "path \<Rightarrow> path \<Rightarrow> (path \<Rightarrow> node option) \<Rightarrow> world \<Rightarrow> bool" where
  "entry_absent d e g = pinned d (cache_tree d) (below_entry e) g (\<lambda>_. None)"

definition entry_complete :: "projector \<Rightarrow> tree_snapshot \<Rightarrow> path \<Rightarrow> path \<Rightarrow> (path \<Rightarrow> node option) \<Rightarrow> world \<Rightarrow> bool" where
  "entry_complete pj source d e g w \<longleftrightarrow> confined d (cache_tree d) g w \<and> compiled pj source e (node_at (files w))"

text \<open>A temporary directory beside the entry.\<close>

definition beside :: "path \<Rightarrow> path \<Rightarrow> path \<Rightarrow> bool" where
  "beside d e t \<longleftrightarrow> d \<noteq> [] \<and> ''..'' \<notin> set e \<and> ''..'' \<notin> set t \<and> strict_prefix d e \<and> strict_prefix d t \<and>
     butlast t = butlast e \<and> t \<noteq> e \<and> last t \<noteq> []"

lemma besideD:
  assumes "beside d e t"
  shows "prefix d t" "d \<noteq> []" "\<not> prefix e t" "\<not> prefix t e" "''..'' \<notin> set t" "strict_prefix d t" "below d t" "below d e"
proof -
  from assms have b: "butlast t = butlast e" "t \<noteq> e" "d \<noteq> []" "strict_prefix d e" "strict_prefix d t"
    by (simp_all add: beside_def)
  then have ne: "t \<noteq> []" "e \<noteq> []" by auto
  with b(1) have "length t = length e" by (metis length_butlast length_greater_0_conv Suc_pred' diff_Suc_1)
  with b(2) show "\<not> prefix e t" "\<not> prefix t e" by (auto simp: prefix_def)
  show "prefix d t" "d \<noteq> []" "''..'' \<notin> set t" "strict_prefix d t" "below d t" "below d e"
    using assms by (auto simp: beside_def below_def)
qed

lemma publish_directory_outcome:
  assumes "beside d e t"
  shows "hoare (\<lambda>w. entry_absent d e g w \<and> compiled pj source t (node_at (files w))) (publish_directory t e)
           (\<lambda>_. entry_complete pj source d e g) (\<lambda>_. entry_absent d e g)"
proof -
  note b = besideD [OF assms]
  have be: "butlast t = butlast e" "strict_prefix d e" using assms by (simp_all add: beside_def)
  have bb: "below d (butlast e)" by (rule below_butlast [OF b(8)])
  have step: "case publish_directory t e w of (Inr x, w') \<Rightarrow> entry_complete pj source d e g w' | (Inl x, w') \<Rightarrow> entry_absent d e g w'"
    if w: "entry_absent d e g w" "compiled pj source t (node_at (files w))" for w
  proof -
    from w(1) have c: "clean d (files w)" and conf: "confined d (cache_tree d) g w"
      and none: "\<And>q. prefix e q \<Longrightarrow> node_at (files w) q = None"
      by (auto simp: entry_absent_def pinned_def confined_def below_entry_def)
    from w(2) have td: "node_at (files w) t = Some Dir" by (simp add: compiled_def)
    have tn: "t \<noteq> []" using b(6) by auto
    have par: "node_at (files w) (butlast e) = Some Dir"
      using c td tn be(1) by (metis clean_def option.distinct(1) tree_def)
    have m: "mkdir_p (butlast e) w = (Inr (), w)" by (rule mkdir_p_there [OF c bb par])
    obtain r w' where r: "os_replace t e w = (r, w')" by fastforce
    have "case r of Inr _ \<Rightarrow> entry_complete pj source d e g w' | Inl _ \<Rightarrow> entry_absent d e g w'"
    proof (cases r)
      case (Inl x)
      with r have "files w' = files w" by (auto simp: os_replace_def dest: syscall_Inl)
      with w(1) Inl show ?thesis by (simp add: entry_absent_def pinned_def confined_def)
    next
      case (Inr u)
      with r have s: "sys_rename t e (files w) = Inr (files w')" by (auto simp: os_replace_def dest: syscall_Inr)
      then have mv: "files w' = move_tree t e (files w)"
        using td none [OF prefix_order.refl] b(7,8) c tn
        by (auto simp: sys_rename_def Let_def place_clean split: if_splits)
      have dist: "distinct (map fst (files w))" using c by (simp add: clean_def)
      have en: "e \<noteq> []" using be(2) by auto
      have look: "node_at (files w') (e @ q) = node_at (files w) (t @ q)" for q
        by (simp add: mv move_tree_lookup(1) [OF dist tn en b(4,3)])
      have reg: "clean d (files w') \<and> (\<forall>q. \<not> prefix t q \<longrightarrow> \<not> prefix e q \<longrightarrow> node_at (files w') q = node_at (files w) q)"
        by (rule sys_rename_region [OF c b(7,8,1) be(2) s])
      have "q \<notin> cache_tree d \<Longrightarrow> \<not> prefix t q \<and> \<not> prefix e q" for q
        using b(1,2) be(2) tn en by (auto simp: cache_tree_def strict_prefix_def dest: prefix_order.trans)
      with conf reg have "confined d (cache_tree d) g w'" by (simp add: confined_def)
      moreover have "compiled pj source e (node_at (files w'))"
        using w(2) look [of "[]"] look by (simp add: compiled_def)
      ultimately show ?thesis using Inr by (simp add: entry_complete_def)
    qed
    with m r show ?thesis by (auto simp: publish_directory_def thenI_apply split: sum.splits)
  qed
  then show ?thesis by (simp add: hoare_def case_prod_unfold)
qed

lemma spares_hoare: "spares d (cache_tree d) (below_entry e) m \<Longrightarrow> hoare (entry_absent d e g) m (\<lambda>_. entry_absent d e g) (\<lambda>_. entry_absent d e g)"
  unfolding entry_absent_def by (rule hoare_keeps [OF spares_keeps])

lemma compile_body_outcome:
  assumes "beside d e t" "projection_ok pj source"
  shows "hoare (entry_absent d e g)
     (thenI (mkdir_p (t @ [''runtime'']))
     (thenI (project pj source (t @ [''runtime'']))
     (bindI (see (validate_output pj source (t @ [''runtime'']))) (\<lambda>issues.
      thenI (assertI (issues = []) (bad_artifact ''Projected runtime failed validation''))
      (bindI (manifest_payload C r (t @ [''runtime''])) (\<lambda>manifest.
       thenI (atomic_write_text (t @ [''manifest.json'']) (manifest_text manifest))
       (bindI (validate_artifact C t r source pj) (\<lambda>_. publish_directory t e))))))))
     (\<lambda>_. entry_complete pj source d e g) (\<lambda>_. entry_absent d e g)"
proof -
  note b = besideD [OF assms(1)]
  have rt: "''..'' \<notin> set (t @ [''runtime''])" "prefix d (t @ [''runtime''])" using b(1,5) by (auto intro: prefix_prefix)
  have rn: "\<not> prefix e (t @ [''runtime''])" "\<not> prefix (t @ [''runtime'']) e"
    using b(3,4) prefix_same_cases [of e "t @ [''runtime'']" t] append_prefixD by (auto simp del: prefix_snoc)
  have aw: "spares d (cache_tree d) (below_entry e) (atomic_write_text (t @ [''manifest.json'']) x)" for x
    unfolding spares_def atomic_write_text_def
  proof (intro allI keeps_atomic_write)
    show "below d (t @ [''manifest.json''])" "strict_prefix d (t @ [''manifest.json''])" "last (t @ [''manifest.json'']) \<noteq> []"
      using b(1,5) by (auto simp: below_def strict_prefix_def)
    have "prefix t (t @ p)" for p by simp
    then show "t @ [''manifest.json''] \<in> cache_tree d - below_entry e"
      "temp_paths (t @ [''manifest.json'']) \<subseteq> cache_tree d - below_entry e"
      using free_of_entry [OF b(1-4)] by (auto simp: temp_paths_def)
    fix g q assume q: "prefix q (butlast (t @ [''manifest.json'']))" "q \<noteq> []"
    then have "prefix d q \<or> prefix q d" using prefix_same_cases [of q t d] b(1) by auto
    moreover have "\<not> prefix e q" using q(1) b(3) by (auto dest: prefix_order.trans)
    ultimately show "q \<in> cache_tree d - below_entry e \<or> g q = Some Dir" using q(2) by (simp add: cache_tree_def below_entry_def)
  qed
  have mp: "spares d (cache_tree d) (below_entry e) (manifest_payload C r x)" for x
    unfolding spares_def manifest_payload_def validate_runtime_inventory_def
    by (auto intro!: keeps_intros simp del: io_apply)
  have va: "hoare (entry_absent d e g) (validate_artifact C t r source pj)
      (\<lambda>_ w. entry_absent d e g w \<and> compiled pj source t (node_at (files w))) (\<lambda>_. entry_absent d e g)"
  proof (rule hoareI)
    fix w x w' assume w: "entry_absent d e g w" and v: "validate_artifact C t r source pj w = (Inr x, w')"
    then have "clean d (files w)" by (simp add: entry_absent_def pinned_def confined_def)
    from validate_artifact_result [OF this b(1,5) assms(2) v] w
    show "entry_absent d e g w' \<and> compiled pj source t (node_at (files w'))" by simp
  next
    fix w x w' assume w: "entry_absent d e g w" and v: "validate_artifact C t r source pj w = (Inl x, w')"
    from keepsD [where P = "entry_absent d e g", OF keeps_validate_artifact w v] show "entry_absent d e g w'" .
  qed
  have see: "hoare (entry_absent d e g) (see f) (\<lambda>_. entry_absent d e g) (\<lambda>_. entry_absent d e g)" for f
    by (rule hoare_keeps [OF keeps_see])
  have as: "hoare (entry_absent d e g) (assertI x y) (\<lambda>_. entry_absent d e g) (\<lambda>_. entry_absent d e g)" for x y
    by (rule hoare_keeps) (simp add: keeps_pure del: assertI_apply)
  show ?thesis
    by (rule hoare_thenI [OF spares_hoare [OF spares_mkdir_p [OF rt b(2) rn(1)]]],
        rule hoare_thenI [OF spares_hoare [OF spares_project [OF rt b(2) rn assms(2)]]],
        rule hoare_bindI [OF see], rule hoare_thenI [OF as], rule hoare_bindI [OF spares_hoare [OF mp]],
        rule hoare_thenI [OF spares_hoare [OF aw]], rule hoare_bindI [OF va], rule publish_directory_outcome [OF assms(1)])
qed

lemma entry_place:
  assumes "cache_place d r"
  shows "strict_prefix d (entry_path d r)" "prefix d (butlast (entry_path d r))" "\<not> prefix (entry_path d r) (butlast (entry_path d r))"
    "''..'' \<notin> set (entry_path d r)" "''..'' \<notin> set (butlast (entry_path d r))" "d \<noteq> []" "''..'' \<notin> set d"
  using assms by (auto simp: cache_place_def entry_path_def strict_prefix_def prefix_def butlast_append)

lemma temp_beside:
  assumes "cache_place d r" "startswith n (''.'' @ last (entry_path d r) @ ''.tmp-'')" "last n = CHR ''x''"
  shows "beside d (entry_path d r) (butlast (entry_path d r) @ [n])"
proof -
  let ?s = "cf_source_digest r"
  have n: "n \<noteq> ?s" "n \<noteq> []" "n \<noteq> ''..''"
    using assms(2,3) by (auto simp: startswith_def entry_path_def dest: arg_cong [where f = length])
  show ?thesis
    unfolding beside_def using entry_place [OF assms(1)] n
    by (auto simp: entry_path_def butlast_append strict_prefix_def)
qed

lemma compile_entry_outcome:
  assumes "cache_place d r" "projection_ok pj source"
  defines "e \<equiv> entry_path d r"
  shows "hoare (entry_absent d e g) (compile_entry C r source pj e) (\<lambda>_. entry_complete pj source d e g) (\<lambda>_. entry_absent d e g)"
proof -
  note pl = entry_place [OF assms(1), folded e_def]
  let ?pre = "''.'' @ last e @ ''.tmp-''"
  have sp: "spares d (cache_tree d) (below_entry e) (mkdtemp (butlast e) ?pre)"
    unfolding spares_def
  proof (intro allI keeps_mkdtemp)
    show "below d (butlast e)" "prefix d (butlast e)" using pl by (simp_all add: below_def)
    fix n assume "startswith n ?pre"
    then have "n \<noteq> cf_source_digest r" by (auto simp: startswith_def e_def entry_path_def dest: arg_cong [where f = length])
    then show "butlast e @ [n] \<in> cache_tree d - below_entry e"
      by (simp add: cache_tree_def below_entry_def e_def entry_path_def butlast_append)
  qed
  have tmp: "hoare (entry_absent d e g) (mkdtemp (butlast e) ?pre) (\<lambda>t w. entry_absent d e g w \<and> beside d e t) (\<lambda>_. entry_absent d e g)"
  proof (rule hoareI)
    fix w t w' assume w: "entry_absent d e g w" and m: "mkdtemp (butlast e) ?pre w = (Inr t, w')"
    from mkdtemp_result [OF m] temp_beside [OF assms(1)] have "beside d e t" unfolding e_def by auto
    with hoareD_Inr [OF spares_hoare [OF sp] w m] show "entry_absent d e g w' \<and> beside d e t" by simp
  qed (auto dest: hoareD_Inl [OF spares_hoare [OF sp]])
  have clear: "hoare (entry_absent d e g) (thenI (shutil_rmtree_at True t) (raise x)) Q (\<lambda>_. entry_absent d e g)"
    if "beside d e t" for t x Q
  proof (rule hoare_thenI [OF spares_hoare hoare_raise])
    note b = besideD [OF that]
    show "spares d (cache_tree d) (below_entry e) (shutil_rmtree_at True t)"
      unfolding spares_def by (intro allI keeps_shutil_rmtree_at b(7,1) free_of_entry [OF b(1-4)])
  qed
  show ?thesis
    unfolding compile_entry_def
  proof (rule hoare_thenI [OF spares_hoare [OF spares_mkdir_p [OF pl(5,2,6,3)]] hoare_bindI [OF tmp]])
    fix t
    show "hoare (\<lambda>w. entry_absent d e g w \<and> beside d e t)
        (tryI (thenI (mkdir_p (t @ [''runtime''])) (thenI (project pj source (t @ [''runtime'']))
            (bindI (see (validate_output pj source (t @ [''runtime'']))) (\<lambda>issues.
               thenI (assertI (issues = []) (bad_artifact ''Projected runtime failed validation''))
              (bindI (manifest_payload C r (t @ [''runtime''])) (\<lambda>manifest.
                 thenI (atomic_write_text (t @ [''manifest.json'']) (manifest_text manifest))
                (bindI (validate_artifact C t r source pj) (\<lambda>_. publish_directory t e))))))))
          (\<lambda>x. thenI (shutil_rmtree_at True t) (raise x))) (\<lambda>_. entry_complete pj source d e g) (\<lambda>_. entry_absent d e g)"
    proof (cases "beside d e t")
      case True
      show ?thesis
        by (rule hoare_pre [OF hoare_tryI [OF compile_body_outcome [OF True assms(2)] clear [OF True]]]) simp_all
    qed (simp add: hoare_def)
  qed
qed

section \<open>Asking the cache\<close>

text \<open>The entry as it was.\<close>

definition entry_same :: "path \<Rightarrow> path \<Rightarrow> (path \<Rightarrow> node option) \<Rightarrow> world \<Rightarrow> bool" where
  "entry_same d e g = pinned d (cache_tree d) (below_entry e) g g"

lemma validate_artifact_state: "validate_artifact C e r source pj w = (res, w') \<Longrightarrow> w' = w"
  using keepsD [OF keeps_validate_artifact [where P = "\<lambda>x. x = w"] refl] .

lemma rename_away:
  assumes "clean d (files w)" "prefix d e" "e \<noteq> []" "''..'' \<notin> set e" "strict_prefix d t" "''..'' \<notin> set t"
    and "\<not> prefix e t" "\<not> prefix t e" "os_replace e t w = (Inr u, w')"
  shows "clean d (files w') \<and> (\<forall>q. \<not> prefix e q \<longrightarrow> \<not> prefix t q \<longrightarrow> node_at (files w') q = node_at (files w) q) \<and>
    (\<forall>p. prefix e p \<longrightarrow> node_at (files w') p = None)"
proof -
  have dd: "''..'' \<notin> set d" "prefix d t" "t \<noteq> []" using assms(1,5) by (auto simp: clean_def strict_prefix_def)
  have b: "below d e" "below d t" using assms(2,4,6) dd by (simp_all add: below_def)
  from assms(9) have s: "sys_rename e t (files w) = Inr (files w')" by (auto simp: os_replace_def dest: syscall_Inr)
  have dist: "distinct (map fst (files w))" and tr: "tree (files w)" using assms(1) by (simp_all add: clean_def)
  have "node_at (files w') p = None" if p: "prefix e p" for p
  proof -
    have nt: "\<not> prefix t p" using p assms(7,8) prefix_same_cases by blast
    show ?thesis
    proof (cases "node_at (files w) e = Some Dir")
      case True
      with s assms(7,8) have "files w' = move_tree e t (files w)"
        by (auto simp: sys_rename_def Let_def place_clean [OF assms(1) b(1)] place_clean [OF assms(1) b(2)] split: if_splits option.splits node.splits)
      with nt p show ?thesis by (simp add: move_tree_lookup(1) [OF dist assms(3) dd(3) assms(7,8)])
    next
      case False
      then obtain n where "node_at (files w) e = Some n" "n \<noteq> Dir" "files w' = put t n (drop_entry e (files w))"
        using s assms(8) by (cases "node_at (files w) e")
          (auto simp: sys_rename_def Let_def place_clean [OF assms(1) b(1)] place_clean [OF assms(1) b(2)] split: if_splits option.splits node.splits)
      moreover have "node_at (files w) p = None" if "p \<noteq> e"
      proof (rule ccontr)
        assume n: "node_at (files w) p \<noteq> None"
        from p that have "strict_prefix e p" by (simp add: strict_prefix_def)
        from tree_prefix_dir [OF tr n this] False show False by simp
      qed
      ultimately show ?thesis using assms(3) dd(3) nt by auto
    qed
  qed
  with sys_rename_region [OF assms(1) b assms(2,5) s] show ?thesis by blast
qed

lemma quarantine_outcome:
  assumes "cache_place d r"
  defines "e \<equiv> entry_path d r"
  shows "hoare (entry_same d e g) (quarantine_artifact C d r e) (\<lambda>_. entry_absent d e g) (\<lambda>_. entry_same d e g)"
proof -
  note pl = entry_place [OF assms(1), folded e_def]
  define t where "t = quarantine_root d @ [ce_timestamp C @ ''-'' @ cache_key r]"
  have "ce_timestamp C @ ''-'' @ cache_key r \<noteq> ''..''"
    by (auto simp: cache_key_def append_eq_Cons_conv)
  moreover have "length (ce_timestamp C @ ''-'' @ cache_key r) \<noteq> length (cf_projector_version r)"
    by (simp add: cache_key_def)
  then have "ce_timestamp C @ ''-'' @ cache_key r \<noteq> cf_projector_version r" by metis
  ultimately have t: "''..'' \<notin> set t" "prefix d t" "strict_prefix d t" "t \<noteq> []" "\<not> prefix e t" "\<not> prefix t e"
    and q: "''..'' \<notin> set (quarantine_root d)" "prefix d (quarantine_root d)" "\<not> prefix e (quarantine_root d)" "prefix d e" "e \<noteq> []"
    using pl by (auto simp: t_def quarantine_root_def e_def entry_path_def strict_prefix_def)
  have dirs: "hoare (entry_same d e g) (mkdir_p (quarantine_root d)) (\<lambda>_. entry_same d e g) (\<lambda>_. entry_same d e g)"
    unfolding entry_same_def by (rule hoare_keeps [OF spares_keeps [OF spares_mkdir_p [OF q(1,2) pl(6) q(3)]]])
  have mv: "hoare (entry_same d e g) (os_replace e t) (\<lambda>_. entry_absent d e g) (\<lambda>_. entry_same d e g)"
  proof (rule hoareI)
    fix w x w' assume w: "entry_same d e g w" and run: "os_replace e t w = (Inr x, w')"
    then have "clean d (files w)" by (simp add: entry_same_def pinned_def confined_def)
    note reg = rename_away [OF this q(4,5) pl(4) t(3,1,5,6) run]
    have "p \<notin> cache_tree d \<Longrightarrow> \<not> prefix e p \<and> \<not> prefix t p" for p
      using q(4,5) t(2,4) prefix_order.trans [of d e p] prefix_order.trans [of d t p] by (auto simp: cache_tree_def)
    with w reg show "entry_absent d e g w'"
      by (simp add: entry_same_def entry_absent_def pinned_def confined_def below_entry_def)
  next
    fix w x w' assume w: "entry_same d e g w" and run: "os_replace e t w = (Inl x, w')"
    then have "files w' = files w" by (auto simp: os_replace_def dest: syscall_Inl)
    with w show "entry_same d e g w'" by (simp add: entry_same_def pinned_def confined_def)
  qed
  show ?thesis unfolding quarantine_artifact_def t_def [symmetric] by (rule hoare_thenI [OF dirs mv])
qed

lemma entry_same_clean: "entry_same d e g w \<Longrightarrow> clean d (files w)"
  by (simp add: entry_same_def pinned_def confined_def)

text \<open>A step of the request ends with the artifact of the entry, or goes on.\<close>

definition found :: "projector \<Rightarrow> tree_snapshot \<Rightarrow> path \<Rightarrow> cache_ref \<Rightarrow> (path \<Rightarrow> node option) \<Rightarrow> (world \<Rightarrow> bool) \<Rightarrow> compiled_artifact option \<Rightarrow> world \<Rightarrow> bool" where
  "found pj source d r g on_none x w \<longleftrightarrow>
     (case x of None \<Rightarrow> on_none w | Some a \<Rightarrow> a = artifact_from_entry d r \<and> entry_complete pj source d (entry_path d r) g w)"

lemma ready_outcome:
  assumes "cache_place d r" "projection_ok pj source"
  shows "hoare (entry_same d (entry_path d r) g) (bindI (validate_artifact C (entry_path d r) r source pj) (\<lambda>a. ret (Some a)))
    (found pj source d r g K) (\<lambda>_. entry_same d (entry_path d r) g)"
proof (rule hoareI)
  note pl = entry_place [OF assms(1)]
  fix w x w' assume w: "entry_same d (entry_path d r) g w"
    and run: "bindI (validate_artifact C (entry_path d r) r source pj) (\<lambda>a. ret (Some a)) w = (Inr x, w')"
  then obtain a where a: "validate_artifact C (entry_path d r) r source pj w = (Inr a, w')" "x = Some a" by (auto simp: bindI_Inr_iff)
  from validate_artifact_result [OF entry_same_clean [OF w] _ pl(4) assms(2) a(1)] pl(1) w a(2)
  show "found pj source d r g K x w'"
    by (simp add: found_def artifact_from_entry_def entry_complete_def entry_same_def pinned_def strict_prefix_def)
qed (auto simp: bindI_Inl_iff dest: validate_artifact_state)

lemma entry_gone:
  assumes "cache_place d r" "entry_same d (entry_path d r) g w" "\<not> path_exists (files w) (entry_path d r)"
  shows "entry_absent d (entry_path d r) g w"
proof -
  let ?e = "entry_path d r"
  note c = entry_same_clean [OF assms(2)]
  have be: "below d ?e" using entry_place [OF assms(1)] by (simp add: below_def strict_prefix_def)
  from assms(3) have n: "node_at (files w) ?e = None" by (simp add: path_exists_def stat_clean [OF c be])
  have "node_at (files w) q = None" if q: "prefix ?e q" for q
  proof (rule ccontr)
    assume a: "node_at (files w) q \<noteq> None"
    with n q have "strict_prefix ?e q" by (auto simp: strict_prefix_def)
    with tree_prefix_dir [OF _ a this] c n show False by (simp add: clean_def)
  qed
  with assms(2) show ?thesis by (simp add: entry_absent_def entry_same_def pinned_def below_entry_def)
qed

lemma aside_outcome:
  assumes "cache_place d r"
  defines "e \<equiv> entry_path d r"
  shows "hoare (entry_same d e g) (bindI (see (\<lambda>fs. path_exists fs e)) (\<lambda>there. thenI (whenI there (quarantine_artifact C d r e)) (ret None)))
      (found pj source d r g (entry_absent d e g)) (\<lambda>_. entry_same d e g)"
proof (rule hoare_bindI [where R = "\<lambda>there w. entry_same d e g w \<and> there = path_exists (files w) e"])
  fix there
  have "hoare (\<lambda>w. entry_same d e g w \<and> there = path_exists (files w) e) (whenI there (quarantine_artifact C d r e))
      (\<lambda>_. entry_absent d e g) (\<lambda>_. entry_same d e g)"
  proof (cases there)
    case True
    then show ?thesis using quarantine_outcome [OF assms(1), folded e_def, of g C] by (simp add: hoare_def)
  next
    case False
    then show ?thesis using entry_gone [OF assms(1), folded e_def] by (auto simp: hoare_def)
  qed
  then show "hoare (\<lambda>w. entry_same d e g w \<and> there = path_exists (files w) e) (thenI (whenI there (quarantine_artifact C d r e)) (ret None))
      (found pj source d r g (entry_absent d e g)) (\<lambda>_. entry_same d e g)"
    by (rule hoare_thenI) (simp add: hoare_def found_def)
qed (simp add: hoare_def)

lemma locked_outcome:
  assumes "cache_place d r" "projection_ok pj source"
  defines "e \<equiv> entry_path d r"
  shows "hoare (entry_same d e g) (exclusive_lock (cache_lock_path d r) True False
      (bindI (try_only [CValueError] (bindI (validate_artifact C e r source pj) (\<lambda>a. ret (Some a)))
                (\<lambda>_. bindI (see (\<lambda>fs. path_exists fs e)) (\<lambda>there. thenI (whenI there (quarantine_artifact C d r e)) (ret None))))
        (\<lambda>x. case x of Some a \<Rightarrow> ret (Some a) | None \<Rightarrow> thenI (compile_entry C r source pj e) (ret None))))
    (found pj source d r g (entry_complete pj source d e g))
    (\<lambda>_ w. entry_same d e g w \<or> entry_absent d e g w)"
proof (rule hoare_exclusive_lock)
  let ?l = "cache_lock_path d r"
  note pl = entry_place [OF assms(1), folded e_def]
  have l: "''..'' \<notin> set (butlast ?l)" "prefix d (butlast ?l)" "\<not> prefix e (butlast ?l)" "\<not> prefix e ?l" "below d ?l" "?l \<noteq> []" "prefix d ?l"
    using pl by (auto simp: e_def cache_lock_path_def entry_path_def below_def butlast_append cache_key_def append_eq_Cons_conv)
  show "keeps (entry_same d e g) (mkdir_p (butlast ?l))"
    unfolding entry_same_def by (rule spares_keeps [OF spares_mkdir_p [OF l(1,2) pl(6) l(3)]])
  have "spares d (cache_tree d) (below_entry e) (open_append ?l)"
    unfolding spares_def using l by (auto intro!: keeps_open_append simp: cache_tree_def below_entry_def)
  then show "keeps (entry_same d e g) (open_append ?l)" unfolding entry_same_def by (rule spares_keeps)
  have tried: "hoare (entry_same d e g) (try_only [CValueError] (bindI (validate_artifact C e r source pj) (\<lambda>a. ret (Some a)))
        (\<lambda>_. bindI (see (\<lambda>fs. path_exists fs e)) (\<lambda>there. thenI (whenI there (quarantine_artifact C d r e)) (ret None))))
      (found pj source d r g (entry_absent d e g)) (\<lambda>_ w. entry_same d e g w \<or> entry_absent d e g w)"
  proof (rule hoare_weaken)
    show "hoare (entry_same d e g) (try_only [CValueError] (bindI (validate_artifact C e r source pj) (\<lambda>a. ret (Some a)))
        (\<lambda>_. bindI (see (\<lambda>fs. path_exists fs e)) (\<lambda>there. thenI (whenI there (quarantine_artifact C d r e)) (ret None))))
      (found pj source d r g (entry_absent d e g)) (\<lambda>_. entry_same d e g)"
      by (rule hoare_try_only [OF ready_outcome [OF assms(1,2), folded e_def] aside_outcome [OF assms(1), folded e_def]])
  qed simp_all
  have comp: "hoare (entry_absent d e g) (compile_entry C r source pj e) (\<lambda>_. entry_complete pj source d e g) (\<lambda>_ w. entry_same d e g w \<or> entry_absent d e g w)"
    using compile_entry_outcome [OF assms(1,2), folded e_def, of g C] by (auto simp: hoare_def split: prod.splits sum.splits)
  show "hoare (entry_same d e g) (bindI (try_only [CValueError] (bindI (validate_artifact C e r source pj) (\<lambda>a. ret (Some a)))
        (\<lambda>_. bindI (see (\<lambda>fs. path_exists fs e)) (\<lambda>there. thenI (whenI there (quarantine_artifact C d r e)) (ret None))))
        (\<lambda>x. case x of Some a \<Rightarrow> ret (Some a) | None \<Rightarrow> thenI (compile_entry C r source pj e) (ret None)))
      (found pj source d r g (entry_complete pj source d e g)) (\<lambda>_ w. entry_same d e g w \<or> entry_absent d e g w)"
  proof (rule hoare_bindI [OF tried])
    fix x
    have "hoare (entry_absent d e g) (thenI (compile_entry C r source pj e) (ret None))
        (found pj source d r g (entry_complete pj source d e g)) (\<lambda>_ w. entry_same d e g w \<or> entry_absent d e g w)"
      by (rule hoare_thenI [OF comp]) (simp add: hoare_def found_def)
    then show "hoare (found pj source d r g (entry_absent d e g) x)
        (case x of Some a \<Rightarrow> ret (Some a) | None \<Rightarrow> thenI (compile_entry C r source pj e) (ret None))
        (found pj source d r g (entry_complete pj source d e g)) (\<lambda>_ w. entry_same d e g w \<or> entry_absent d e g w)"
      by (cases x) (auto simp: hoare_def found_def)
  qed
qed simp

text \<open>All that a request can leave behind.\<close>

definition entry_settled :: "projector \<Rightarrow> tree_snapshot \<Rightarrow> path \<Rightarrow> path \<Rightarrow> (path \<Rightarrow> node option) \<Rightarrow> world \<Rightarrow> bool" where
  "entry_settled pj source d e g w \<longleftrightarrow>
     entry_same d e g w \<or> entry_absent d e g w \<or> entry_complete pj source d e g w"

lemma ensure_outcome:
  assumes "cache_place d r" "projection_ok pj source"
  defines "e \<equiv> entry_path d r"
  shows "hoare (entry_same d e g) (ensure_compiled C d r source pj)
    (\<lambda>a w. a = artifact_from_entry d r \<and> entry_complete pj source d e g w) (\<lambda>_. entry_settled pj source d e g)"
proof -
  note pl = entry_place [OF assms(1), folded e_def]
  have bd: "below d d" using pl(7) by (simp add: below_def)
  let ?Q = "\<lambda>a w. a = artifact_from_entry d r \<and> entry_complete pj source d e g w" and ?E = "\<lambda>_::exn. entry_settled pj source d e g"
  have rd: "hoare (entry_same d e g) (see (\<lambda>fs. resolve fs d)) (\<lambda>d' w. d' = d \<and> entry_same d e g w) ?E"
    using resolve_clean [OF entry_same_clean bd] by (auto simp: hoare_def)
  have final: "hoare (entry_complete pj source d e g) (validate_artifact C e r source pj) ?Q ?E"
  proof (rule hoareI)
    fix w a w' assume w: "entry_complete pj source d e g w" and v: "validate_artifact C e r source pj w = (Inr a, w')"
    then have "clean d (files w)" by (simp add: entry_complete_def confined_def)
    from validate_artifact_result [OF this _ pl(4) assms(2) v] pl(1) w show "?Q a w'"
      by (simp add: artifact_from_entry_def strict_prefix_def e_def)
  qed (auto simp: entry_settled_def dest: validate_artifact_state)
  have first: "hoare (entry_same d e g) (try_only [CValueError] (bindI (validate_artifact C e r source pj) (\<lambda>a. ret (Some a))) (\<lambda>_. ret None))
      (found pj source d r g (entry_same d e g)) ?E"
    by (rule hoare_try_only [OF ready_outcome [OF assms(1,2), folded e_def]]) (simp_all add: hoare_def found_def entry_settled_def)
  have cont: "hoare (found pj source d r g K x) (case x of Some a \<Rightarrow> ret a | None \<Rightarrow> m) ?Q ?E" if "hoare K m ?Q ?E" for K x m
    using that by (cases x) (auto simp: hoare_def found_def e_def)
  have locked: "hoare (entry_same d e g) (exclusive_lock (cache_lock_path d r) True False
      (bindI (try_only [CValueError] (bindI (validate_artifact C e r source pj) (\<lambda>a. ret (Some a)))
                (\<lambda>_. bindI (see (\<lambda>fs. path_exists fs e)) (\<lambda>there. thenI (whenI there (quarantine_artifact C d r e)) (ret None))))
        (\<lambda>x. case x of Some a \<Rightarrow> ret (Some a) | None \<Rightarrow> thenI (compile_entry C r source pj e) (ret None))))
    (found pj source d r g (entry_complete pj source d e g)) ?E"
    by (rule hoare_weaken [OF locked_outcome [OF assms(1,2), folded e_def]]) (auto simp: entry_settled_def)
  show ?thesis
    unfolding ensure_compiled_def Let_def
  proof (rule hoare_bindI [OF rd])
    fix d'
    have "hoare (entry_same d e g) (bindI (try_only [CValueError] (bindI (validate_artifact C e r source pj) (\<lambda>a. ret (Some a))) (\<lambda>_. ret None))
      (\<lambda>first. case first of Some a \<Rightarrow> ret a
       | None \<Rightarrow> bindI (exclusive_lock (cache_lock_path d r) True False
           (bindI (try_only [CValueError] (bindI (validate_artifact C e r source pj) (\<lambda>a. ret (Some a)))
                     (\<lambda>_. bindI (see (\<lambda>fs. path_exists fs e)) (\<lambda>there. thenI (whenI there (quarantine_artifact C d r e)) (ret None))))
             (\<lambda>second. case second of Some a \<Rightarrow> ret (Some a) | None \<Rightarrow> thenI (compile_entry C r source pj e) (ret None))))
           (\<lambda>locked. case locked of Some a \<Rightarrow> ret a | None \<Rightarrow> validate_artifact C e r source pj))) ?Q ?E"
      by (rule hoare_bindI [OF first], rule cont, rule hoare_bindI [OF locked], rule cont, rule final)
    then show "hoare (\<lambda>w. d' = d \<and> entry_same d e g w) (bindI (try_only [CValueError]
        (bindI (validate_artifact C (entry_path d' r) r source pj) (\<lambda>a. ret (Some a))) (\<lambda>_. ret None))
      (\<lambda>first. case first of None \<Rightarrow> bindI (exclusive_lock (cache_lock_path d' r) True False
           (bindI (try_only [CValueError] (bindI (validate_artifact C (entry_path d' r) r source pj) (\<lambda>a. ret (Some a)))
                     (\<lambda>_. bindI (see (\<lambda>fs. path_exists fs (entry_path d' r))) (\<lambda>there.
                        thenI (whenI there (quarantine_artifact C d' r (entry_path d' r))) (ret None))))
             (\<lambda>second. case second of None \<Rightarrow> thenI (compile_entry C r source pj (entry_path d' r)) (ret None) | Some a \<Rightarrow> ret (Some a))))
           (\<lambda>locked. case locked of None \<Rightarrow> validate_artifact C (entry_path d' r) r source pj | Some a \<Rightarrow> ret a)
        | Some a \<Rightarrow> ret a)) ?Q ?E"
      by (cases "d' = d") (simp_all add: e_def hoare_def)
  qed
qed

text \<open>
  C15 - The cache of compiled blueprints, under every fault and crash. A request that returns
  returns the artifact of its key; below the targets of the projector its runtime directory has
  exactly the projected files with the bytes of the source, next to a manifest. However the
  request ends, the entry is as it was, or absent, or complete - never half written - and nothing
  outside the cache changes. A valid entry is returned as it is.
\<close>

theorem ensure_compiled_atomic:
  assumes "clean d (files w)" "cache_place d r" "projection_ok pj source"
    and "ensure_compiled C d r source pj w = (res, w')"
  shows "(\<forall>q. q \<notin> cache_tree d \<longrightarrow> node_at (files w') q = node_at (files w) q) \<and>
    ((\<forall>q. prefix (entry_path d r) q \<longrightarrow> node_at (files w') q = node_at (files w) q) \<or>
     (\<forall>q. prefix (entry_path d r) q \<longrightarrow> node_at (files w') q = None) \<or>
     compiled pj source (entry_path d r) (node_at (files w'))) \<and>
    (\<forall>a. res = Inr a \<longrightarrow> a = artifact_from_entry d r \<and> compiled pj source (entry_path d r) (node_at (files w'))) \<and>
    (validate_artifact C (entry_path d r) r source pj w = (Inr (artifact_from_entry d r), w) \<longrightarrow> w' = w)"
proof -
  let ?e = "entry_path d r" and ?g = "node_at (files w)"
  have s: "entry_same d ?e ?g w" using assms(1) by (simp add: entry_same_def pinned_def confined_def)
  have "entry_settled pj source d ?e ?g w' \<and>
      (\<forall>a. res = Inr a \<longrightarrow> a = artifact_from_entry d r \<and> compiled pj source ?e (node_at (files w')))"
    using hoareD_Inr [OF ensure_outcome [OF assms(2,3)] s, of C] hoareD_Inl [OF ensure_outcome [OF assms(2,3)] s, of C] assms(4)
    by (cases res) (fastforce simp: entry_settled_def entry_complete_def)+
  moreover have "w' = w" if "validate_artifact C ?e r source pj w = (Inr (artifact_from_entry d r), w)"
  proof -
    have "resolve (files w) d = d" by (rule resolve_clean [OF assms(1)]) (use assms(1) in \<open>simp add: below_def clean_def\<close>)
    with assms(4) that show ?thesis
      by (simp add: ensure_compiled_def Let_def try_only_def tryI_apply bindI_apply)
  qed
  ultimately show ?thesis
    by (auto simp: entry_settled_def entry_same_def entry_absent_def entry_complete_def pinned_def confined_def below_entry_def)
qed

section \<open>Pins\<close>

text \<open>The jobs that hold a pin: the valid names of regular files in the directory of the pins.\<close>

definition pin_holders :: "cache_env \<Rightarrow> path \<Rightarrow> (path \<Rightarrow> node option) \<Rightarrow> string set" where
  "pin_holders C p g = {n. is_regular (g (p @ [n])) \<and> validate_pin_id C (PStr n) = Inr n}"

definition pins_place :: "path \<Rightarrow> cache_ref \<Rightarrow> bool" where
  "pins_place d r \<longleftrightarrow> d \<noteq> [] \<and> ''..'' \<notin> set (pins_dir d r)"

lemma validate_pin_id_Inr: "validate_pin_id C v = Inr j \<Longrightarrow> v = PStr j \<and> j \<noteq> [] \<and> j \<noteq> ''..'' \<and> j \<noteq> ''.''"
  by (auto simp: validate_pin_id_def bindR_Inr_iff Let_def is_str_iff)

lemma active_pins_result:
  assumes "clean d (files w)" "pins_place d r" "active_pins C d r w = (Inr js, w')"
  shows "w' = w \<and> set js = pin_holders C (pins_dir d r) (node_at (files w)) \<and> sorted js \<and> distinct js"
proof -
  let ?p = "pins_dir d r"
  have dd: "''..'' \<notin> set d" "''..'' \<notin> set ?p" "prefix d ?p" using assms(2) by (auto simp: pins_place_def pins_dir_def)
  have rd: "resolve (files w) d = d" by (rule resolve_clean [OF assms(1)]) (use dd in \<open>simp add: below_def\<close>)
  have bp: "below d ?p" using dd by (simp add: below_def)
  have lst: "lstat_node (files w) (?p @ [n]) = node_at (files w) (?p @ [n])" if "n \<noteq> ''..''" for n
    by (rule lstat_clean [OF assms(1)]) (use dd that in \<open>simp add: below_def\<close>)
  have st: "stat_node (files w) ?p = node_at (files w) ?p" by (rule stat_clean [OF assms(1) bp])
  show ?thesis
  proof (cases "path_exists (files w) ?p")
    case False
    then have n: "node_at (files w) ?p = None" by (simp add: path_exists_def st)
    have "node_at (files w) (?p @ [x]) = None" for x
      using assms(1) n tree_file_no_child [of "files w" ?p "?p @ [x]"] by (simp add: clean_def)
    then have "pin_holders C ?p (node_at (files w)) = {}" by (simp add: pin_holders_def)
    with False assms(3) show ?thesis by (simp add: active_pins_def rd)
  next
    case True
    with assms(3) obtain names where i: "iterdir ?p w = (Inr names, w)"
      and js: "js = sort (filter (\<lambda>n. validate_pin_id C (PStr n) = Inr n) (filter (\<lambda>n. is_regular (lstat_node (files w) (?p @ [n]))) names))"
      and w: "w' = w"
      by (auto simp: active_pins_def rd bindI_Inr_iff dest: iterdir_Inr)
    from iterdir_Inr [OF i] have nm: "names = listdir (files w) ?p" by simp
    have "n \<in> set names" if "is_regular (node_at (files w) (?p @ [n]))" "validate_pin_id C (PStr n) = Inr n" for n
      using that validate_pin_id_Inr [OF that(2)] unfolding nm listdir_clean(1) [OF assms(1) bp]
      by (cases "node_at (files w) (?p @ [n])") auto
    moreover have "n \<noteq> ''..''" if "n \<in> set names" for n using that nm by (auto simp: listdir_def)
    then have "is_regular (lstat_node (files w) (?p @ [n])) \<longleftrightarrow> is_regular (node_at (files w) (?p @ [n]))" if "n \<in> set names" for n
      using that lst by auto
    ultimately have "set js = pin_holders C ?p (node_at (files w))" by (auto simp: js pin_holders_def)
    with listdir_clean(2) [OF assms(1) bp] js nm w show ?thesis by simp
  qed
qed

lemma pin_result:
  assumes "clean d (files w)" "pins_place d r" "node_at (files w) (pins_dir d r) = Some Dir"
    and "validate_pin_id C v = Inr j" "pin_artifact C d r v w = (Inr p, w')"
  shows "pin_holders C (pins_dir d r) (node_at (files w')) = insert j (pin_holders C (pins_dir d r) (node_at (files w)))"
proof -
  let ?p = "pins_dir d r"
  note j = validate_pin_id_Inr [OF assms(4)]
  have dd: "''..'' \<notin> set d" "''..'' \<notin> set ?p" "strict_prefix d (?p @ [j])" "prefix d ?p"
    using assms(2) by (auto simp: pins_place_def pins_dir_def strict_prefix_def)
  have rd: "resolve (files w) d = d" by (rule resolve_clean [OF assms(1)]) (use dd in \<open>simp add: below_def\<close>)
  from assms(4,5) have aw: "atomic_write_bytes (?p @ [j]) [] w = (Inr (), w')"
    by (auto simp: pin_artifact_def rd thenI_Inr_iff atomic_write_text_def)
  have b: "below d (?p @ [j])" using dd j by (auto simp: below_def)
  from atomic_write_outcome [OF assms(1) b dd(3) _ _ aw] j assms(3)
  have g: "node_at (files w') = (node_at (files w))(?p @ [j] \<mapsto> File [])" by simp
  have "validate_pin_id C (PStr j) = Inr j" using assms(4) j by simp
  then show ?thesis by (auto simp: g pin_holders_def)
qed

lemma release_result:
  assumes "clean d (files w)" "pins_place d r" "validate_pin_id C v = Inr j" "release_pin C d r v w = (Inr (), w')"
  shows "pin_holders C (pins_dir d r) (node_at (files w')) = pin_holders C (pins_dir d r) (node_at (files w)) - {j}"
proof -
  let ?p = "pins_dir d r"
  note j = validate_pin_id_Inr [OF assms(3)]
  have dd: "''..'' \<notin> set d" "''..'' \<notin> set ?p" "prefix d ?p" "?p \<noteq> []"
    using assms(2) by (auto simp: pins_place_def pins_dir_def)
  have rd: "resolve (files w) d = d" by (rule resolve_clean [OF assms(1)]) (use dd in \<open>simp add: below_def\<close>)
  have b: "below d (?p @ [j])" "below d ?p" using dd j by (auto simp: below_def)
  obtain r1 w1 where u: "unlink (?p @ [j]) w = (r1, w1)" by fastforce
  show ?thesis
  proof (cases r1)
    case (Inr x)
    have s: "sys_unlink (?p @ [j]) (files w) = Inr (files w1)" using u Inr by (auto simp: unlink_def dest: syscall_Inr)
    have w1: "clean d (files w1)" "node_at (files w1) = (node_at (files w))(?p @ [j] := None)"
      using sys_unlink_effect [OF s assms(1) b(1)] by auto
    from assms(3,4) u Inr have "try_only [COSError] (rmdir ?p) (\<lambda>_. ret ()) w1 = (Inr (), w')"
      by (simp add: release_pin_def rd bindI_apply thenI_apply try_only_def tryI_apply butlast_append del: bindI_liftR)
    then obtain r2 where r2: "rmdir ?p w1 = (r2, w')" by (auto simp: try_only_def tryI_apply split: prod.splits sum.splits if_splits)
    have "node_at (files w') (?p @ [n]) = node_at (files w1) (?p @ [n])" for n
    proof (cases r2)
      case (Inr y)
      then have "sys_rmdir ?p (files w1) = Inr (files w')" using r2 by (auto simp: rmdir_def dest: syscall_Inr)
      then show ?thesis using sys_rmdir_effect [OF _ w1(1) b(2)] by auto
    next
      case (Inl y)
      then have "files w' = files w1" using r2 by (auto simp: rmdir_def dest: syscall_Inl)
      then show ?thesis by simp
    qed
    then show ?thesis by (auto simp: pin_holders_def w1)
  next
    case (Inl x)
    with u have f: "files w1 = files w" by (auto simp: unlink_def dest: syscall_Inl)
    have "x \<in> {missing, Crashed, Exn COSError ''Input/output error'', Exn CIsADirectoryError ''Is a directory''}"
      using u Inl by (auto simp: unlink_def syscall_def Let_def sys_unlink_def split: list.splits fate.splits sum.splits option.splits node.splits)
    then have "x = missing \<and> w' = w1"
      using assms(3,4) u Inl
      by (auto simp: release_pin_def rd bindI_apply thenI_apply try_only_def tryI_apply missing_def caught_by_def is_subclass_def)
    moreover have "x = missing \<Longrightarrow> node_at (files w) (?p @ [j]) = None"
      using u Inl by (auto simp: unlink_def syscall_def Let_def sys_unlink_def place_clean [OF assms(1) b(1)] missing_def
          split: list.splits fate.splits sum.splits option.splits node.splits)
    ultimately show ?thesis using f by (auto simp: pin_holders_def)
  qed
qed

text \<open>
  Pins. Where pinning a job returns, the job and no other has been added to the holders of
  the artifact, and where releasing returns, exactly the job has been taken away; both leave the
  holders of every other artifact alone. Listing the pins shows the holders, sorted.
\<close>

theorem pins_hold_exactly:
  assumes "clean d (files w)" "pins_place d r" "node_at (files w) (pins_dir d r) = Some Dir"
    and "validate_pin_id C v = Inr j"
  shows "(\<forall>p w'. pin_artifact C d r v w = (Inr p, w') \<longrightarrow>
      pin_holders C (pins_dir d r) (node_at (files w')) = insert j (pin_holders C (pins_dir d r) (node_at (files w)))) \<and>
    (\<forall>w'. release_pin C d r v w = (Inr (), w') \<longrightarrow>
      pin_holders C (pins_dir d r) (node_at (files w')) = pin_holders C (pins_dir d r) (node_at (files w)) - {j}) \<and>
    (\<forall>js w'. active_pins C d r w = (Inr js, w') \<longrightarrow>
      w' = w \<and> set js = pin_holders C (pins_dir d r) (node_at (files w)) \<and> sorted js \<and> distinct js)"
  using pin_result [OF assms] release_result [OF assms(1,2,4)] active_pins_result [OF assms(1,2)] by blast

definition demo_cache :: cache_env where
  "demo_cache = \<lparr>ce_assets = demo_assets\<lparr>ae_hash := take 2\<rparr>, ce_mode = \<lambda>_. 420, ce_timestamp = ''t''\<rparr>"

definition demo_ref :: cache_ref where
  "demo_ref = \<lparr>cf_integration = ''gemini'', cf_projector_version = ''v1'', cf_source_digest = ''d''\<rparr>"

definition demo_cache_world :: "fate list \<Rightarrow> world" where
  "demo_cache_world sc = \<lparr>files = [([''c''], Dir)], sched = sc, busy = []\<rparr>"

definition demo_projector :: projector where
  "demo_projector = \<lparr>pj_version = ''v1'', pj_capabilities =
     \<lparr>pc_instruction_target = [''GEMINI.md''], pc_skills_target = [''.agents'', ''skills''],
      pc_discovers_skills = False, pc_activates_selected_skill = False\<rparr>\<rparr>"

lemma demo_cache_clean: "clean [''c''] (files (demo_cache_world sc))"
  by (rule clean_checkI) (simp add: demo_cache_world_def clean_check_def)

lemma demo_projection_ok: "projection_ok demo_projector demo_source"
  by code_simp

text \<open>A crash while the first file is projected: the request is cut off and the entry is absent.\<close>

definition demo_crash_world :: world where
  "demo_crash_world = demo_cache_world (replicate 12 Proceed @ [Die])"

lemma ensure_compiled_atomic_witness:
  "\<exists>w'. ensure_compiled demo_cache [''c''] demo_ref demo_source demo_projector demo_crash_world = (Inl Crashed, w') \<and>
     node_at (files w') [''c'', ''gemini'', ''v1'', ''.d.tmp-x'', ''runtime'', ''.agents'', ''skills''] = Some Dir \<and>
     node_at (files w') [''c'', ''gemini'', ''v1'', ''d''] = None \<and>
     (\<forall>q. q \<notin> cache_tree [''c''] \<longrightarrow> node_at (files w') q = node_at (files demo_crash_world) q)"
proof -
  have "case ensure_compiled demo_cache [''c''] demo_ref demo_source demo_projector demo_crash_world of
    (res, w') \<Rightarrow> (case res of Inl e \<Rightarrow> e = Crashed | Inr _ \<Rightarrow> False) \<and>
      node_at (files w') [''c'', ''gemini'', ''v1'', ''.d.tmp-x'', ''runtime'', ''.agents'', ''skills''] = Some Dir \<and>
      node_at (files w') [''c'', ''gemini'', ''v1'', ''d''] = None"
    by code_simp
  moreover obtain res w' where r: "ensure_compiled demo_cache [''c''] demo_ref demo_source demo_projector demo_crash_world = (res, w')"
    by (rule prod.exhaust)
  moreover have "clean [''c''] (files demo_crash_world)" by (simp only: demo_crash_world_def demo_cache_clean)
  moreover have "cache_place [''c''] demo_ref" by code_simp
  ultimately show ?thesis
    using conjunct1 [OF ensure_compiled_atomic [OF _ _ demo_projection_ok r]]
    by (cases res) simp_all
qed

definition demo_pins_world :: world where
  "demo_pins_world = \<lparr>files = [([''c''], Dir), ([''c'', ''_pins''], Dir), ([''c'', ''_pins'', cache_key demo_ref], Dir),
     ([''c'', ''_pins'', cache_key demo_ref, ''job-1''], File [])], sched = [], busy = []\<rparr>"

lemma pins_hold_exactly_witness:
  "\<exists>w'. pin_artifact demo_cache [''c''] demo_ref (PStr ''job-2'') demo_pins_world = (Inr (pins_dir [''c''] demo_ref @ [''job-2'']), w') \<and>
     pin_holders demo_cache (pins_dir [''c''] demo_ref) (node_at (files w')) =
       insert ''job-2'' (pin_holders demo_cache (pins_dir [''c''] demo_ref) (node_at (files demo_pins_world)))"
proof -
  have "case fst (pin_artifact demo_cache [''c''] demo_ref (PStr ''job-2'') demo_pins_world) of
      Inr p \<Rightarrow> p = pins_dir [''c''] demo_ref @ [''job-2''] | Inl _ \<Rightarrow> False"
    by code_simp
  then show ?thesis
  proof (rule outcome_cases)
    fix p assume r: "pin_artifact demo_cache [''c''] demo_ref (PStr ''job-2'') demo_pins_world =
        (Inr p, snd (pin_artifact demo_cache [''c''] demo_ref (PStr ''job-2'') demo_pins_world))"
      and p: "p = pins_dir [''c''] demo_ref @ [''job-2'']"
    have "clean_check [''c''] (files demo_pins_world)" by code_simp
    note c = clean_checkI [OF this]
    have d: "pins_place [''c''] demo_ref" by code_simp
    have e: "node_at (files demo_pins_world) (pins_dir [''c''] demo_ref) = Some Dir" by code_simp
    have v: "validate_pin_id demo_cache (PStr ''job-2'') = Inr ''job-2''" by code_simp
    show ?thesis
      by (intro exI conjI, rule r [unfolded p], rule conjunct1 [OF pins_hold_exactly [OF c d e v], rule_format, OF r])
  qed
qed

end
