(* ===== verification/MemoryStore.thy ===== *)
theory MemoryStore
  imports MemoryNames DirOps
begin

text \<open>
  \<^verbatim>\<open>agency/memory/store.py\<close>: the directories of the memory store, reading and staging a memory, and
  the replacement of its files. A memory is the directory \<open>root/hash\<close> of markdown files; around
  it the store keeps \<open>.locks\<close>, \<open>.staging\<close>, \<open>.backups\<close>, \<open>.journals\<close> and \<open>.publication-backups\<close>.

  The lock lease is a record; holding it is what the enclosing \<open>exclusive_lock\<close> means.
\<close>

section \<open>Directories\<close>

definition ensure_actual_directory :: "path \<Rightarrow> string \<Rightarrow> bool \<Rightarrow> path fio" where
  "ensure_actual_directory p label create =
     thenI (whenI create (mkdir_p p))
       (bindI (see (\<lambda>fs. lstat_node fs p)) (\<lambda>n. case n of
          None \<Rightarrow> raise (store_error (''missing '' @ label @ '' directory: '' @ path_str p))
        | Some (Link _) \<Rightarrow> raise (store_error (''unsafe '' @ label @ '' directory: '' @ path_str p))
        | Some Dir \<Rightarrow> ret p
        | Some _ \<Rightarrow> raise (store_error (label @ '' path is not a directory: '' @ path_str p))))"

definition ensure_child_directory :: "path \<Rightarrow> string \<Rightarrow> string \<Rightarrow> path fio" where
  "ensure_child_directory parent name label =
     (let child = parent @ [name] in
      bindI (see (\<lambda>fs. lstat_node fs child = None)) (\<lambda>absent.
        thenI (whenI absent (os_mkdir child)) (ensure_actual_directory child label False)))"

fun ensure_components :: "string \<Rightarrow> path \<Rightarrow> string list \<Rightarrow> path fio" where
  "ensure_components label current [] = ret current"
| "ensure_components label current (c # cs) =
     bindI (ensure_child_directory current c label) (\<lambda>child. ensure_components label child cs)"

definition ensure_infrastructure_directory :: "path \<Rightarrow> string list \<Rightarrow> string \<Rightarrow> path fio" where
  "ensure_infrastructure_directory rt components label =
     bindI (ensure_actual_directory rt label True) (\<lambda>current. ensure_components label current components)"

definition ensure_safe_leaf :: "path \<Rightarrow> string \<Rightarrow> unit fio" where
  "ensure_safe_leaf p label =
     bindI (see (\<lambda>fs. lstat_node fs p)) (\<lambda>n.
       if is_link n \<or> n = Some Dir then raise (store_error (''unsafe '' @ label @ '' path: '' @ path_str p)) else ret ())"

definition create_verified_tempdir :: "path \<Rightarrow> string \<Rightarrow> string \<Rightarrow> path fio" where
  "create_verified_tempdir parent pre label =
     bindI (see (\<lambda>fs. parent @ [fresh_name fs (resolve fs parent) pre])) (\<lambda>created.
       thenI (os_mkdir created) (ensure_actual_directory created label False))"

text \<open>
  \<open>_safe_rmtree\<close>: the first argument bounds the depth of the recursion, like the interpreter's own
  limit; one more than the number of entries is always enough.
\<close>

fun safe_rmtree :: "nat \<Rightarrow> path \<Rightarrow> string \<Rightarrow> bool \<Rightarrow> unit fio" where
  "safe_rmtree 0 p label ignore_missing = raise (Exn CRuntimeError ''maximum recursion depth exceeded'')"
| "safe_rmtree (Suc n) p label ignore_missing =
     bindI (try_only [CMemoryStoreError] (bindI (ensure_actual_directory p label False) (\<lambda>_. ret True))
              (\<lambda>e. bindI (see (\<lambda>fs. path_exists fs p)) (\<lambda>there.
                 if ignore_missing \<and> \<not> there then ret False else raise e))) (\<lambda>go.
       if \<not> go then ret ()
       else bindI (iterdir p) (\<lambda>names.
         thenI (forI (\<lambda>name.
             bindI (see (\<lambda>fs. lstat_node fs (p @ [name]))) (\<lambda>entry.
               if is_link entry then raise (store_error (''unsafe '' @ label @ '' entry: '' @ path_str (p @ [name])))
               else if entry = Some Dir then safe_rmtree n (p @ [name]) label False
               else unlink (p @ [name]))) names)
           (rmdir p)))"

definition rmtree :: "path \<Rightarrow> string \<Rightarrow> bool \<Rightarrow> unit fio" where
  "rmtree p label ignore_missing = bindI (see length) (\<lambda>n. safe_rmtree (Suc n) p label ignore_missing)"

section \<open>Locks\<close>

definition store_root :: "resolved_memory \<Rightarrow> path" where
  "store_root r = butlast (rm_directory r)"

definition memory_lock_path :: "resolved_memory \<Rightarrow> path fio" where
  "memory_lock_path r =
     bindI (ensure_infrastructure_directory (store_root r) [''.locks''] ''locks'') (\<lambda>d.
     let p = d @ [rm_hash r @ ''.lock''] in
     thenI (ensure_safe_leaf p ''locks'') (ret p))"

record lock_lease =
  ll_hash :: string
  ll_lock_path :: path

definition memory_lock :: "resolved_memory \<Rightarrow> bool \<Rightarrow> (lock_lease \<Rightarrow> 'a fio) \<Rightarrow> 'a fio" where
  "memory_lock r wait body =
     thenI (liftR (validate_resolved_memory r None))
       (bindI (memory_lock_path r) (\<lambda>p.
          exclusive_lock p wait False (body \<lparr>ll_hash = rm_hash r, ll_lock_path = p\<rparr>)))"

definition validate_lock_lease :: "lock_lease \<Rightarrow> resolved_memory \<Rightarrow> unit fio" where
  "validate_lock_lease lease r =
     thenI (assertI (ll_hash lease = rm_hash r) (store_error ''memory lock lease identity mismatch''))
       (bindI (memory_lock_path r) (\<lambda>p.
          assertI (ll_lock_path lease = p) (store_error ''memory lock lease path mismatch'')))"

section \<open>Reading\<close>

definition canonical_directory :: "resolved_memory \<Rightarrow> path fio" where
  "canonical_directory r = ensure_infrastructure_directory (store_root r) [rm_hash r] ''memory''"

fun read_entries :: "memory_env \<Rightarrow> path \<Rightarrow> string list \<Rightarrow> (string \<times> string) list \<Rightarrow> memory_files fio" where
  "read_entries E d [] seen = ret []"
| "read_entries E d (n # ns) seen =
     bindI (see (\<lambda>fs. (is_link (lstat_node fs (d @ [n])), is_file fs (d @ [n])))) (\<lambda>(link, regular).
     thenI (assertI (\<not> link) (name_error ''memory contains symlink or reparse point: '' n))
     (thenI (assertI regular (name_error ''memory contains nested or non-file entry: '' n))
     (bindI (liftR (validate_filename E n seen)) (\<lambda>seen'.
     thenI (assertI (path_suffix n = ''.md'') (name_error ''memory contains non-markdown file: '' n))
     (bindI (read_bytes (d @ [n])) (\<lambda>b.
     bindI (read_entries E d ns seen') (\<lambda>rest. ret ((n, b) # rest))))))))"

definition read_canonical_files :: "memory_env \<Rightarrow> path \<Rightarrow> memory_files fio" where
  "read_canonical_files E d =
     bindI (see (\<lambda>fs. path_exists fs d)) (\<lambda>there.
       if \<not> there then ret []
       else thenI (ensure_actual_directory d ''memory'' False)
         (bindI (iterdir d) (\<lambda>names. read_entries E d (sort_key (me_casefold E) names) [])))"

definition make_snapshot :: "memory_env \<Rightarrow> resolved_memory \<Rightarrow> memory_files \<Rightarrow> memory_snapshot" where
  "make_snapshot E r fl = \<lparr>mn_resolved = r, mn_files = fl, mn_revision = memory_content_revision E fl\<rparr>"

definition read_memory_locked :: "memory_env \<Rightarrow> resolved_memory \<Rightarrow> lock_lease \<Rightarrow> memory_snapshot fio" where
  "read_memory_locked E r lease =
     thenI (validate_lock_lease lease r)
       (bindI (canonical_directory r) (\<lambda>d.
        bindI (read_canonical_files E d) (\<lambda>fl. ret (make_snapshot E r fl))))"

definition read_memory :: "memory_env \<Rightarrow> resolved_memory \<Rightarrow> bool \<Rightarrow> memory_snapshot fio" where
  "read_memory E r wait =
     thenI (liftR (validate_resolved_memory r None)) (memory_lock r wait (read_memory_locked E r))"

definition ensure_memory_locked :: "memory_env \<Rightarrow> resolved_memory \<Rightarrow> lock_lease \<Rightarrow> memory_snapshot fio" where
  "ensure_memory_locked E r lease =
     thenI (validate_lock_lease lease r)
       (bindI (canonical_directory r) (\<lambda>d.
        bindI (iterdir d) (\<lambda>names.
        thenI (whenI (names = []) (atomic_write_bytes (d @ [''memory.md'']) []))
          (bindI (read_canonical_files E d) (\<lambda>fl.
           thenI (assertI (fl \<noteq> []) (Exn CValueError ''memory must contain at least one markdown file''))
             (ret (make_snapshot E r fl)))))))"

definition ensure_memory :: "memory_env \<Rightarrow> resolved_memory \<Rightarrow> memory_snapshot fio" where
  "ensure_memory E r =
     thenI (liftR (validate_resolved_memory r None)) (memory_lock r True (ensure_memory_locked E r))"

section \<open>Staging\<close>

record memory_stage =
  mt_resolved :: resolved_memory
  mt_job_id :: string
  mt_directory :: path
  mt_base_revision :: string

definition write_files :: "path \<Rightarrow> memory_files \<Rightarrow> unit fio" where
  "write_files d fl = forI (\<lambda>(n, b). atomic_write_bytes (d @ [n]) b) fl"

definition stage_memory_locked ::
  "memory_env \<Rightarrow> resolved_memory \<Rightarrow> string \<Rightarrow> lock_lease \<Rightarrow> memory_stage fio" where
  "stage_memory_locked E r job_id lease =
     thenI (validate_lock_lease lease r)
       (bindI (ensure_memory_locked E r lease) (\<lambda>snapshot.
        bindI (liftR (validate_job_id E job_id)) (\<lambda>safe_job_id.
        bindI (ensure_infrastructure_directory (store_root r) [''.staging'', rm_hash r] ''staging'') (\<lambda>parent.
        let stage_root = parent @ [safe_job_id] in
        bindI (see (\<lambda>fs. path_exists fs stage_root)) (\<lambda>there.
        thenI (whenI there (thenI (ensure_actual_directory stage_root ''staging'' False) (rmtree stage_root ''staging'' False)))
          (thenI (ensure_child_directory parent safe_job_id ''staging'')
             (thenI (write_files stage_root (mn_files snapshot))
                (ret \<lparr>mt_resolved = r, mt_job_id = job_id, mt_directory = stage_root,
                      mt_base_revision = mn_revision snapshot\<rparr>))))))))"

definition stage_memory :: "memory_env \<Rightarrow> resolved_memory \<Rightarrow> string \<Rightarrow> memory_stage fio" where
  "stage_memory E r job_id = memory_lock r True (stage_memory_locked E r job_id)"

section \<open>Replacing the files\<close>

text \<open>
  \<open>shutil.move\<close> of a file: a rename, and if that fails a copy and the removal of the source. The
  fallback for a directory or a link is not modelled: the directories it is used on hold regular
  files.
\<close>

definition move_path :: "path \<Rightarrow> path \<Rightarrow> unit fio" where
  "move_path src dst =
     bindI (see (\<lambda>fs. is_dir fs dst)) (\<lambda>into.
     let real = (if into then dst @ [last src] else dst) in
     bindI (see (\<lambda>fs. into \<and> path_exists fs real)) (\<lambda>taken.
     thenI (assertI (\<not> taken) (Exn COSError (''Destination path already exists: '' @ path_str real)))
       (try_only [COSError] (os_replace src real)
          (\<lambda>e. bindI (see (\<lambda>fs. lstat_node fs src)) (\<lambda>n.
             if n = Some Dir \<or> is_link n then raise e
             else bindI (read_bytes src) (\<lambda>b.
               thenI (write_bytes real []) (thenI (write_bytes real b) (unlink src))))))))"

definition undo_install :: "path \<Rightarrow> unit fio" where
  "undo_install p =
     bindI (see (\<lambda>fs. path_exists fs p)) (\<lambda>there.
       whenI there (try_only [CFileNotFoundError] (unlink p) (\<lambda>_. ret ())))"

definition rollback_canonical_replace :: "path \<Rightarrow> path \<Rightarrow> path list \<Rightarrow> exn option fio" where
  "rollback_canonical_replace d backup moved =
     tryI (thenI (forI undo_install moved)
            (bindI (see (\<lambda>fs. path_exists fs backup)) (\<lambda>there.
             thenI (whenI there (bindI (iterdir backup) (\<lambda>names.
                     thenI (forI (\<lambda>n. move_path (backup @ [n]) (d @ [n])) names) (rmtree backup ''backup'' False))))
               (ret None))))
       (\<lambda>e. ret (Some e))"

text \<open>The handler: roll back, then raise.\<close>

definition replace_failed :: "path \<Rightarrow> path \<Rightarrow> path list \<Rightarrow> exn \<Rightarrow> 'a fio" where
  "replace_failed d backup moved e =
     bindI (rollback_canonical_replace d backup moved) (\<lambda>r. case r of
         Some e' \<Rightarrow> raise (Exn CRuntimeError (''memory replacement failed and recovery failed: '' @ exn_text e @
                       ''; rollback error: '' @ exn_text e' @ ''; backup preserved at '' @ path_str backup))
       | None \<Rightarrow> raise (Exn CRuntimeError (''memory replacement failed and rolled back: '' @ exn_text e)))"

definition evacuate :: "path \<Rightarrow> path \<Rightarrow> unit fio" where
  "evacuate d backup =
     bindI (see (\<lambda>fs. path_exists fs d)) (\<lambda>there.
       whenI there (bindI (iterdir d) (\<lambda>names. forI (\<lambda>n. move_path (d @ [n]) (backup @ [n])) names)))"

text \<open>A target counts as moved from just before its move.\<close>

fun install_all :: "path \<Rightarrow> path \<Rightarrow> path \<Rightarrow> path list \<Rightarrow> string list \<Rightarrow> path list fio" where
  "install_all d temp backup moved [] = ret moved"
| "install_all d temp backup moved (n # ns) =
     (let target = d @ [n]; moved' = moved @ [target] in
      thenI (tryI (move_path (temp @ [n]) target) (replace_failed d backup moved'))
        (install_all d temp backup moved' ns))"

definition replace_canonical_files :: "path \<Rightarrow> memory_files \<Rightarrow> unit fio" where
  "replace_canonical_files d fl =
     thenI (ensure_actual_directory d ''memory'' False)
       (bindI (ensure_infrastructure_directory (butlast d) [''.backups''] ''backup'') (\<lambda>parent.
        bindI (create_verified_tempdir parent (last d @ ''.'') ''backup'') (\<lambda>temp.
        bindI (create_verified_tempdir parent (last d @ ''.'') ''backup'') (\<lambda>backup.
        finallyI
          (bindI (tryI (thenI (write_files temp fl) (thenI (evacuate d backup) (iterdir temp)))
                    (replace_failed d backup [])) (\<lambda>names.
           bindI (install_all d temp backup [] names) (\<lambda>moved.
             tryI (rmtree backup ''backup'' False) (replace_failed d backup moved))))
          (bindI (see (\<lambda>fs. path_exists fs temp)) (\<lambda>there. whenI there (rmtree temp ''backup'' True)))))))"

end
