(* ===== verification/StoreErrors.thy ===== *)
theory StoreErrors
  imports MemoryStore
begin

text \<open>
  Which exceptions the operations of the file system and of the memory store cannot raise. A
  caller that catches one class of errors relies on it.
\<close>

text \<open>\<open>avoids c m\<close>: \<open>m\<close> never raises an exception of exactly the class \<open>c\<close>.\<close>

definition avoids :: "exc_class \<Rightarrow> 'a fio \<Rightarrow> bool" where
  "avoids c m \<longleftrightarrow> (\<forall>w e w'. m w = (Inl e, w') \<longrightarrow> exn_class e \<noteq> Some c)"

named_theorems avoids_intros \<open>which exceptions an operation cannot raise\<close>

lemma avoidsD: "avoids c m \<Longrightarrow> m w = (Inl e, w') \<Longrightarrow> exn_class e \<noteq> Some c"
  unfolding avoids_def by blast

lemma avoidsI: "(\<And>w e w'. m w = (Inl e, w') \<Longrightarrow> exn_class e \<noteq> Some c) \<Longrightarrow> avoids c m"
  unfolding avoids_def by blast

lemma avoids_pure [avoids_intros]:
  "avoids c (ret x)" "avoids c (see f)" "avoids c (gets_st h)" "exn_class e \<noteq> Some c \<Longrightarrow> avoids c (raise e)"
  "exn_class e \<noteq> Some c \<Longrightarrow> avoids c (assertI b e)"
  "(\<And>e. r = Inl e \<Longrightarrow> exn_class e \<noteq> Some c) \<Longrightarrow> avoids c (liftR r)"
  by (auto simp: avoids_def)

lemma avoids_bindI [avoids_intros]: "avoids c m \<Longrightarrow> (\<And>x. avoids c (f x)) \<Longrightarrow> avoids c (bindI m f)"
  unfolding avoids_def bindI_Inl_iff by blast

lemma avoids_thenI [avoids_intros]: "avoids c m \<Longrightarrow> avoids c n \<Longrightarrow> avoids c (thenI m n)"
  unfolding thenI_def by (rule avoids_bindI)

lemma avoids_tryI [avoids_intros]:
  assumes "avoids c m" "\<And>e. exn_class e \<noteq> Some c \<Longrightarrow> avoids c (h e)"
  shows "avoids c (tryI m h)"
proof (rule avoidsI)
  fix w e w' assume run: "tryI m h w = (Inl e, w')"
  obtain r w1 where m: "m w = (r, w1)" by fastforce
  show "exn_class e \<noteq> Some c"
  proof (cases r)
    case (Inl e1)
    with avoidsD [OF assms(1)] m have "exn_class e1 \<noteq> Some c" by simp
    with avoidsD [OF assms(2)] run m Inl show ?thesis by (auto simp: tryI_def split: if_splits)
  qed (use run m in \<open>simp add: tryI_def\<close>)
qed

lemma avoids_try_only [avoids_intros]:
  "avoids c m \<Longrightarrow> (\<And>e. exn_class e \<noteq> Some c \<Longrightarrow> avoids c (h e)) \<Longrightarrow> avoids c (try_only cs m h)"
  unfolding try_only_def by (rule avoids_tryI) (auto intro: avoids_pure)

lemma avoids_finallyI [avoids_intros]: "avoids c m \<Longrightarrow> avoids c n \<Longrightarrow> avoids c (finallyI m n)"
  unfolding avoids_def finallyI_def by (fastforce split: prod.splits sum.splits exn.splits)

lemma avoids_whenI [avoids_intros]: "avoids c m \<Longrightarrow> avoids c (whenI b m)"
  by (cases b) (auto simp: avoids_def)

lemma avoids_forI [avoids_intros]: "(\<And>x. avoids c (f x)) \<Longrightarrow> avoids c (forI f xs)"
  by (induction xs) (auto intro!: avoids_intros simp del: io_apply)

lemma avoids_syscall:
  "c \<noteq> COSError \<Longrightarrow> (\<And>fs e. f fs = Inl e \<Longrightarrow> exn_class e \<noteq> Some c) \<Longrightarrow> avoids c (syscall f)"
  by (rule avoidsI) (auto simp: syscall_def Let_def split: list.splits fate.splits sum.splits)

definition not_os_class :: "exc_class \<Rightarrow> bool" where
  "not_os_class c \<longleftrightarrow> c \<notin> {COSError, CFileNotFoundError, CFileExistsError, CNotADirectoryError, CIsADirectoryError}"

lemma avoids_os [avoids_intros]:
  assumes "not_os_class c"
  shows "avoids c (os_mkdir p)" "avoids c (write_bytes p b)" "avoids c (unlink p)" "avoids c (rmdir p)"
    "avoids c (os_replace p q)" "avoids c fsync" "avoids c (read_bytes p)" "avoids c (iterdir p)"
proof -
  have c: "c \<noteq> COSError" using assms by (simp add: not_os_class_def)
  show "avoids c (os_mkdir p)" "avoids c (write_bytes p b)" "avoids c (unlink p)" "avoids c (rmdir p)"
    "avoids c (os_replace p q)" "avoids c fsync"
    unfolding os_mkdir_def write_bytes_def unlink_def rmdir_def os_replace_def fsync_def
    by (rule avoids_syscall [OF c], use assms in
        \<open>auto simp: not_os_class_def sys_mkdir_def sys_write_def sys_unlink_def sys_rmdir_def sys_rename_def missing_def Let_def
          split: option.splits node.splits if_splits\<close>)+
  show "avoids c (read_bytes p)" "avoids c (iterdir p)"
    using assms unfolding read_bytes_def iterdir_def
    by (intro avoids_intros; auto simp: not_os_class_def missing_def intro!: avoids_intros split: option.splits node.splits simp del: io_apply)+
qed

lemma avoids_mkdir_p [avoids_intros]: "not_os_class c \<Longrightarrow> avoids c (mkdir_p p)"
  unfolding mkdir_p_def mkdir_one_def by (intro avoids_intros) (auto intro!: avoids_intros simp del: io_apply)

lemma avoids_atomic_write [avoids_intros]: "not_os_class c \<Longrightarrow> avoids c (atomic_write_bytes p b)"
  unfolding atomic_write_bytes_def fsync_parent_directory_def replace_with_retry_def
  by (auto intro!: avoids_intros simp del: io_apply)

lemma avoids_store [avoids_intros]:
  assumes "not_os_class c" "c \<notin> {CMemoryStoreError, CRuntimeError}"
  shows "avoids c (ensure_actual_directory p l b)" "avoids c (ensure_child_directory p n l)"
    "avoids c (ensure_components l p cs)" "avoids c (safe_rmtree k p l im)" "avoids c (move_path p q)"
proof -
  have e [simp]: "exn_class (store_error t) \<noteq> Some c" for t using assms(2) by (auto simp: store_error_def)
  have o [simp]: "c \<noteq> COSError" "COSError \<noteq> c" "c \<noteq> CRuntimeError" "CRuntimeError \<noteq> c"
    using assms by (auto simp: not_os_class_def)
  show act: "avoids c (ensure_actual_directory p l b)" for p l b
    unfolding ensure_actual_directory_def
    by (intro avoids_intros assms(1); auto intro!: avoids_intros split: option.splits node.splits simp del: io_apply)
  show ch: "avoids c (ensure_child_directory p n l)" for p n l
    unfolding ensure_child_directory_def Let_def by (intro avoids_intros act assms(1))
  show "avoids c (ensure_components l p cs)"
    by (induction cs arbitrary: p) (auto intro!: avoids_intros ch simp del: io_apply)
  show "avoids c (safe_rmtree k p l im)"
    by (induction k arbitrary: p im) (auto intro!: avoids_intros act assms(1) simp del: io_apply)
  show "avoids c (move_path p q)"
    unfolding move_path_def Let_def
    by (intro avoids_intros assms(1); auto intro!: avoids_intros assms(1) simp del: io_apply)
qed

lemma avoids_rmtree [avoids_intros]:
  "not_os_class c \<Longrightarrow> c \<notin> {CMemoryStoreError, CRuntimeError} \<Longrightarrow> avoids c (rmtree p l im)"
  unfolding rmtree_def by (intro avoids_intros)

lemma avoids_infrastructure [avoids_intros]:
  "not_os_class c \<Longrightarrow> c \<notin> {CMemoryStoreError, CRuntimeError} \<Longrightarrow> avoids c (ensure_infrastructure_directory p cs l)"
  unfolding ensure_infrastructure_directory_def by (intro avoids_intros)

lemma avoids_write_files [avoids_intros]: "not_os_class c \<Longrightarrow> avoids c (write_files d fl)"
  unfolding write_files_def by (intro avoids_forI) (auto intro: avoids_intros)

lemma avoids_read [avoids_intros]:
  assumes "not_os_class c" "c \<notin> {CMemoryStoreError, CRuntimeError, CValueError}"
  shows "avoids c (read_canonical_files E d)"
proof -
  have v: "exn_class e \<noteq> Some c" if "validate_filename E n seen = Inl e" for n seen e
    using that assms(2)
    by (auto simp: validate_filename_def bindR_Inl_iff name_error_def Let_def split: option.splits if_splits)
  have vl: "avoids c (liftR (validate_filename E n seen))" for n seen
    by (rule avoids_pure(6)) (rule v)
  have "avoids c (read_entries E d ns seen)" for ns seen
    using assms(2)
    by (induction ns arbitrary: seen) (auto intro!: vl avoids_intros assms(1) simp: name_error_def simp del: io_apply)
  then show ?thesis
    unfolding read_canonical_files_def using assms by (auto intro!: avoids_intros simp del: io_apply)
qed

lemma avoids_replace [avoids_intros]:
  assumes "not_os_class c" "c \<notin> {CMemoryStoreError, CRuntimeError}"
  shows "avoids c (replace_canonical_files d fl)"
proof -
  note S = avoids_store [OF assms]
  have o [simp]: "CRuntimeError \<noteq> c" using assms by auto
  have rm: "avoids c (rmtree p l im)" for p l im unfolding rmtree_def by (intro avoids_intros S)
  have ro: "avoids c (rollback_canonical_replace d backup moved)" for backup moved
    unfolding rollback_canonical_replace_def undo_install_def by (intro avoids_intros S rm assms(1))
  have rf1: "avoids c (replace_failed d backup moved e :: 'b fio)" for backup moved e
    unfolding replace_failed_def by (intro avoids_bindI [OF ro]) (auto intro!: avoids_intros split: option.splits simp del: io_apply)
  have ins: "avoids c (install_all d temp backup moved ns)" for temp backup moved ns
    by (induction ns arbitrary: moved) (auto simp: Let_def intro!: avoids_intros S rf1 simp del: io_apply)
  show ?thesis
    unfolding replace_canonical_files_def ensure_infrastructure_directory_def create_verified_tempdir_def
      write_files_def evacuate_def
    by (intro avoids_intros S rm rf1 ins assms(1); clarsimp; intro avoids_intros assms(1))
qed

end
