(* ===== verification/Submission.thy ===== *)
theory Submission
  imports JobAuthority GroupOperations Compilation Selectors StoreErrors
begin

text \<open>
  \<^verbatim>\<open>agency/jobs/resolution.py\<close> and \<^verbatim>\<open>agency/jobs/submission.py\<close>: a request becomes a
  specification - from the configuration that was loaded under the lock of the group -, the compiled
  blueprint is pinned, the record is made durable, and only then is a worker launched. The
  launcher is a parameter: a function from the reference of a job to the process id it reports.
  An integration that takes a configuration (\<open>with_config\<close>) has the same policies with it.
\<close>

record submission_env =
  se_config :: config_env
  se_hash :: "string \<Rightarrow> string"
  se_blueprints :: blueprint_env
  se_cache :: cache_env
  se_integrations :: "(string \<times> integration) list"
  se_projectors :: "(string \<times> projector) list"
  se_now :: string

record job_request =
  rq_config_path :: path
  rq_group_key :: string
  rq_agent_name :: string
  rq_trigger :: string
  rq_task_input :: string
  rq_job_id :: string
  rq_routine_id :: "string option"
  rq_memory_override :: "memory_selector option"
  rq_timeout_override :: "int option"
  rq_trigger_context :: py

record job_handle =
  jh_job_id :: string
  jh_status :: string
  jh_job_path :: path
  jh_worker_pid :: "int option"

section \<open>Blueprint references\<close>

definition path_of_py :: "py \<Rightarrow> path res" where
  "path_of_py v = (if is_str v then Inr (to_path (text_of v))
                   else Inl (type_error ''expected str, bytes or os.PathLike object''))"

definition blueprint_cache_ref :: "blueprint_ref \<Rightarrow> cache_ref" where
  "blueprint_cache_ref b =
     \<lparr>cf_integration = str_of (br_integration b), cf_projector_version = str_of (br_projector_version b),
      cf_source_digest = str_of (br_source_digest b)\<rparr>"

definition blueprint_cache_root :: "blueprint_ref \<Rightarrow> path res" where
  "blueprint_cache_root b = bindR (path_of_py (br_cache_path b)) (\<lambda>p. Inr (butlast (butlast (butlast p))))"

section \<open>Resolving a request\<close>

definition job_invalid :: "string \<Rightarrow> exn" where
  "job_invalid text = Exn CJobValidationError text"

definition find_agent :: "group_config \<Rightarrow> string \<Rightarrow> agent_instance res" where
  "find_agent g name =
     (case map_of (gc_agents g) name of Some a \<Rightarrow> Inr a | None \<Rightarrow> Inl (job_invalid (''Unknown agent: '' @ name)))"

definition find_routine :: "agent_instance \<Rightarrow> string option \<Rightarrow> routine option" where
  "find_routine a routine_id =
     (case routine_id of None \<Rightarrow> None | Some i \<Rightarrow> find (\<lambda>r. ro_id r = i) (ai_routines a))"

definition routine_triggers :: "string list" where
  "routine_triggers = [''scheduled_prompt'', ''manual_prompt'']"

definition decision_triggers :: "string list" where
  "decision_triggers = [''decision'', ''decision_retry'']"

definition check_trigger :: "job_request \<Rightarrow> routine option \<Rightarrow> unit res" where
  "check_trigger q r =
     bindR (assertR (rq_trigger q \<in> set routine_triggers \<longrightarrow> r \<noteq> None)
              (job_invalid ''scheduled and manual jobs require an existing routine'')) (\<lambda>_.
     bindR (assertR (rq_trigger q \<in> set routine_triggers \<longrightarrow> (\<exists>x\<in>set_option r. ro_enabled x))
              (job_invalid (''Routine '' @ [CHR 0x27] @ ro_id (the r) @ [CHR 0x27] @ '' is disabled; enable it before running''))) (\<lambda>_.
     assertR (rq_trigger q \<in> set decision_triggers \<longrightarrow> rq_routine_id q = None)
       (job_invalid ''decision jobs require routine_id and skill to be null'')))"

definition bind_integration :: "(string \<times> integration) list \<Rightarrow> string \<Rightarrow> integration res" where
  "bind_integration registered name = get_integration registered name"

definition policy_snapshot_from :: "fs \<Rightarrow> effective_policy \<Rightarrow> policy_snapshot" where
  "policy_snapshot_from fs p =
     \<lparr>rp_timeout = PInt (ep_timeout p), rp_sandbox_mode = PStr (ep_sandbox_mode p),
      rp_sandbox_roots = map (\<lambda>r. PStr (path_str (resolve fs r))) (ep_sandbox_roots p),
      rp_tool_mode = PStr (ep_tool_mode p), rp_tool_names = map PStr (ep_tool_names p)\<rparr>"

fun opt_py :: "string option \<Rightarrow> py" where
  "opt_py None = PNone"
| "opt_py (Some s) = PStr s"

definition prompt_source :: "job_request \<Rightarrow> routine option \<Rightarrow> py" where
  "prompt_source q r =
     (if rq_trigger q \<in> set routine_triggers
      then PDict [(''type'', PStr ''routine''), (''routine_id'', opt_py (map_option ro_id r))]
      else if rq_trigger q = ''decision'' then PDict [(''type'', PStr ''decision'')]
      else PDict [(''type'', PStr ''decision_retry'')])"

definition binding_selector :: "memory_selector \<Rightarrow> py" where
  "binding_selector s = PDict [(''scope'', PStr (ms_scope s)), (''channel'', opt_py (ms_channel s))]"

definition build_spec ::
  "fs \<Rightarrow> string \<Rightarrow> job_request \<Rightarrow> config_snapshot \<Rightarrow> group_paths \<Rightarrow> agent_instance \<Rightarrow> routine option \<Rightarrow>
   effective_policy \<Rightarrow> blueprint_inspection \<Rightarrow> compiled_artifact \<Rightarrow> resolved_memory \<Rightarrow> job_spec" where
  "build_spec fs now q s paths a r p inspection artifact m =
     \<lparr>js_schema_version = PInt 3, js_job_id = PStr (rq_job_id q), js_config_path = PStr (path_str (cs_path s)),
      js_config_revision = PStr (cs_revision s), js_group_key = PStr (rq_group_key q),
      js_workspace_root = PStr (path_str (gp_workspace_root paths)), js_group_root = PStr (path_str (gp_group_root paths)),
      js_agent_name = PStr (rq_agent_name q), js_trigger = PStr (rq_trigger q),
      js_integration_name = PStr (ai_integration a), js_integration_config = ai_integration_config a,
      js_blueprint = \<lparr>br_key = PStr (bi_key inspection), br_source_digest = PStr (ts_digest (bi_snapshot inspection)),
        br_integration = PStr (cf_integration (ca_ref artifact)),
        br_projector_version = PStr (cf_projector_version (ca_ref artifact)),
        br_cache_path = PStr (path_str (resolve fs (ca_entry_path artifact)))\<rparr>,
      js_routine_id = opt_py (map_option ro_id r), js_skill = opt_py (map_option ro_skill r),
      js_skill_arguments = (case r of None \<Rightarrow> [] | Some x \<Rightarrow> map PStr (ro_arguments x)),
      js_task_input = PStr (rq_task_input q), js_runtime_policy = policy_snapshot_from fs p,
      js_memory = \<lparr>mb_selector = binding_selector (rm_selector m), mb_canonical_json = PStr (rm_canonical_json m),
        mb_memory_hash = PStr (rm_hash m), mb_path = PStr (path_str (resolve fs (rm_directory m)))\<rparr>,
      js_trigger_context = rq_trigger_context q, js_prompt_source = prompt_source q r,
      js_timeout_override = (case rq_timeout_override q of None \<Rightarrow> PNone | Some t \<Rightarrow> PInt t),
      js_created_at = PStr now\<rparr>"

definition memory_request_of :: "job_request \<Rightarrow> routine option \<Rightarrow> memory_request" where
  "memory_request_of q r =
     \<lparr>mr_job_id = rq_job_id q, mr_group_key = rq_group_key q, mr_agent_name = rq_agent_name q,
      mr_routine_id = map_option ro_id r\<rparr>"

definition effective_selector :: "job_request \<Rightarrow> agent_instance \<Rightarrow> routine option \<Rightarrow> memory_selector" where
  "effective_selector q a r =
     select_effective_memory (rq_memory_override q) (Option.bind r ro_memory) (ai_default_memory a)"

text \<open>What is decided from the configuration alone: group, agent, routine and integration.\<close>

definition resolve_target ::
  "(string \<times> integration) list \<Rightarrow> job_request \<Rightarrow> agency_config \<Rightarrow> (group_config \<times> agent_instance \<times> routine option \<times> integration) res" where
  "resolve_target registered q c =
     bindR (case map_of (ac_groups c) (rq_group_key q) of Some g \<Rightarrow> Inr g
            | None \<Rightarrow> Inl (job_invalid (''Unknown group: '' @ rq_group_key q))) (\<lambda>g.
     bindR (find_agent g (rq_agent_name q)) (\<lambda>a.
     let r = find_routine a (rq_routine_id q) in
     bindR (check_trigger q r) (\<lambda>_.
     bindR (bind_integration registered (ai_integration a)) (\<lambda>i. Inr (g, a, r, i)))))"

definition resolve_job_request ::
  "submission_env \<Rightarrow> path \<Rightarrow> path \<Rightarrow> job_request \<Rightarrow> config_snapshot \<Rightarrow> job_spec fio" where
  "resolve_job_request E library cache q s =
     (let c = cs_config s in
      bindI (see (\<lambda>fs. validate_resolved_paths (ce_access (se_config E)) fs c)) (\<lambda>checked.
      bindI (liftR checked) (\<lambda>issues.
      thenI (assertI (issues = []) (Invalid CValidationFailed issues))
      (bindI (liftR (resolve_target (se_integrations E) q c)) (\<lambda>(g, a, r, i).
       bindI (see (\<lambda>fs. resolve_group_paths fs g)) (\<lambda>paths.
       bindI (see (\<lambda>fs. resolve_effective_policy fs (se_integrations E) c (rq_group_key q) (rq_agent_name q) (rq_timeout_override q))) (\<lambda>policy.
       bindI (liftR policy) (\<lambda>p.
       bindI (quietly (inspect_blueprint (se_blueprints E) library (ai_blueprint a))) (\<lambda>inspection.
       bindI (cache_ensure_compiled (se_cache E) cache (se_projectors E) (ai_integration a) inspection) (\<lambda>artifact.
       bindI (see (\<lambda>fs. resolve_memory_selector (ce_hash (se_config E)) fs (to_path (the (ac_memory_store c)))
                (memory_request_of q r) (map fst (ac_channels c)) (effective_selector q a r))) (\<lambda>memory.
       bindI (liftR memory) (\<lambda>m.
       thenI (liftR (require_valid_run i True p (map_option ro_skill r)))
         (see (\<lambda>fs. build_spec fs (se_now E) q s paths a r p inspection artifact m))))))))))))))"

text \<open>\<open>_resolve_request\<close>: the libraries of the configuration, or the defaults beside it.\<close>

definition library_root :: "fs \<Rightarrow> config_snapshot \<Rightarrow> path" where
  "library_root fs s = resolve fs (case ac_agent_library (cs_config s) of Some t \<Rightarrow> to_path t
     | None \<Rightarrow> butlast (resolve fs (cs_path s)) @ [''agent-library''])"

definition cache_root :: "fs \<Rightarrow> config_snapshot \<Rightarrow> path" where
  "cache_root fs s = resolve fs (case ac_compilation_cache (cs_config s) of Some t \<Rightarrow> to_path t
     | None \<Rightarrow> butlast (resolve fs (cs_path s)) @ [''compiled-agents''])"

definition resolve_request :: "submission_env \<Rightarrow> job_request \<Rightarrow> config_snapshot \<Rightarrow> job_spec fio" where
  "resolve_request E q s =
     bindI (see (\<lambda>fs. (library_root fs s, cache_root fs s))) (\<lambda>(library, cache). resolve_job_request E library cache q s)"

section \<open>Submitting\<close>

definition failed_record :: "job_record \<Rightarrow> exn \<Rightarrow> job_record" where
  "failed_record r e = r\<lparr>jr_status := PStr ''failed'', jr_execution_summary := PStr (''Launch error: '' @ exn_text e)\<rparr>"

definition launch_failed :: "submission_env \<Rightarrow> path \<Rightarrow> cache_ref \<Rightarrow> py \<Rightarrow> authority_ref \<Rightarrow> job_record \<Rightarrow> exn \<Rightarrow> (authority_ref \<times> int option) fio" where
  "launch_failed E d k j a record e =
     thenI (release_pin (se_cache E) d k j)
       (thenI (authority_write (ce_yaml (se_config E)) (se_hash E) a (failed_record record e))
          (raise (Exn CJobSubmissionError (exn_text e))))"

definition submit_resolved ::
  "submission_env \<Rightarrow> (authority_ref \<Rightarrow> int option fio) \<Rightarrow> path \<Rightarrow> job_spec \<Rightarrow> job_handle fio" where
  "submit_resolved E launch store spec =
     (let Y = ce_yaml (se_config E); H = se_hash E; C = se_cache E; k = blueprint_cache_ref (js_blueprint spec); j = js_job_id spec in
      thenI (liftR (spec_validate spec))
      (bindI (liftR (blueprint_cache_root (js_blueprint spec))) (\<lambda>d.
       bindI (liftR (record_from_spec H spec)) (\<lambda>record.
       thenI (tryI (bindI (active_pins C d k) (\<lambda>_. ret ())) (\<lambda>_. ret ()))
       (bindI (pin_artifact C d k j) (\<lambda>_.
       bindI (see (\<lambda>fs. authority_reference fs store (js_group_key spec) j (jr_authority_digest record))) (\<lambda>reference.
       bindI (liftR reference) (\<lambda>a.
       bindI (tryI
           (bindI (authority_create Y H store record) (\<lambda>a. bindI (launch a) (\<lambda>pid. ret (a, pid))))
           (launch_failed E d k j a record)) (\<lambda>(a, pid).
         see (\<lambda>fs. \<lparr>jh_job_id = text_of j, jh_status = ''queued'', jh_job_path = authority_path fs a,
                      jh_worker_pid = pid\<rparr>))))))))))"

definition submit_locked ::
  "submission_env \<Rightarrow> (authority_ref \<Rightarrow> int option fio) \<Rightarrow> job_request \<Rightarrow> config_snapshot \<Rightarrow> job_handle fio" where
  "submit_locked E launch q s =
     bindI (see (\<lambda>fs. validate_resolved_paths (ce_access (se_config E)) fs (cs_config s))) (\<lambda>checked.
     bindI (liftR checked) (\<lambda>issues.
     thenI (assertI (issues = []) (Invalid CValidationFailed issues))
     (thenI (initialize_storage_directories (cs_config s))
     (bindI (see (\<lambda>fs. authority_store fs (to_path (the (ac_memory_store (cs_config s)))))) (\<lambda>store.
      bindI (resolve_request E q s) (submit_resolved E launch store))))))"

primrec submit_attempts ::
  "nat \<Rightarrow> submission_env \<Rightarrow> (authority_ref \<Rightarrow> int option fio) \<Rightarrow> job_request \<Rightarrow> exn option \<Rightarrow> job_handle fio" where
  "submit_attempts 0 E launch q last_conflict =
     raise (case last_conflict of Some e \<Rightarrow> e | None \<Rightarrow> conflict ''config changed while submitting job'')"
| "submit_attempts (Suc n) E launch q last_conflict =
     try_only [CConfigConflictError]
       (revision_bound_group_operation (se_config E) (rq_config_path q) [rq_group_key q] [] False None (submit_locked E launch q))
       (\<lambda>e. submit_attempts n E launch q (Some e))"

definition submit_job_request ::
  "submission_env \<Rightarrow> (authority_ref \<Rightarrow> int option fio) \<Rightarrow> job_request \<Rightarrow> job_handle fio" where
  "submit_job_request E launch q = submit_attempts 3 E launch q None"

section \<open>Two trees side by side\<close>

definition apart :: "path \<Rightarrow> path \<Rightarrow> bool" where
  "apart r d \<longleftrightarrow> \<not> prefix r d \<and> \<not> prefix d r"

lemma apart_sym: "apart r d \<Longrightarrow> apart d r"
  by (simp add: apart_def)

lemma apart_below: "apart r d \<Longrightarrow> prefix d q \<Longrightarrow> \<not> prefix r q \<and> \<not> prefix q r"
  by (meson apart_def prefix_order.trans prefix_same_cases)

lemma clean_beside:
  assumes "apart r d" "clean r fs'" "clean d fs" "below r p"
    and "\<And>q. \<not> prefix q p \<Longrightarrow> \<not> prefix r q \<Longrightarrow> node_at fs' q = node_at fs q"
  shows "clean d fs'"
proof -
  have "\<not> is_link (node_at fs' q)" if q: "prefix q d \<or> prefix d q" for q
  proof (cases "prefix q p")
    case True
    from below_prefix [OF assms(4) True] assms(2) show ?thesis by (auto simp: below_def clean_def)
  next
    case False
    have "\<not> prefix r q" using q assms(1) by (meson apart_def prefix_order.trans prefix_same_cases)
    with assms(3,5) False q show ?thesis by (auto simp: clean_def)
  qed
  with assms(2,3) show ?thesis by (simp add: clean_def)
qed

section \<open>Pins\<close>

lemma pin_made:
  assumes "clean d (files w)" "pins_place d k" "pin_artifact C d k v w = (Inr p, w')"
  shows "\<exists>j. v = PStr j \<and> p = pins_dir d k @ [j] \<and> validate_pin_id C v = Inr j \<and> clean d (files w') \<and>
    j \<in> pin_holders C (pins_dir d k) (node_at (files w')) \<and>
    (\<forall>q. \<not> prefix q p \<longrightarrow> node_at (files w') q = node_at (files w) q)"
proof -
  have rd: "resolve (files w) d = d"
    by (rule resolve_clean [OF assms(1)]) (use assms(2) in \<open>auto simp: pins_place_def pins_dir_def below_def\<close>)
  from assms(3) obtain j where j: "validate_pin_id C v = Inr j" "p = pins_dir d k @ [j]"
    "atomic_write_bytes p [] w = (Inr (), w')"
    by (auto simp: pin_artifact_def bindI_Inr_iff thenI_Inr_iff rd atomic_write_text_def)
  note v = validate_pin_id_Inr [OF j(1)]
  have b: "below d p" "strict_prefix d p" "last p \<noteq> []"
    using assms(2) v by (auto simp: j(2) pins_place_def pins_dir_def below_def strict_prefix_def)
  note m = atomic_write_makes [OF assms(1) b j(3)]
  from m(1,2) have "clean d (files w') \<and> j \<in> pin_holders C (pins_dir d k) (node_at (files w'))"
    using v j(1) by (simp add: pin_holders_def j(2))
  moreover have "node_at (files w') q = node_at (files w) q" if "\<not> prefix q p" for q
    using m(3) [of q] that by auto
  ultimately show ?thesis using v j(1,2) by blast
qed

lemma release_stays:
  assumes "clean d (files w)" "pins_place d k" "release_pin C d k v w = (res, w')"
  shows "clean d (files w') \<and> (\<forall>q. \<not> prefix d q \<longrightarrow> node_at (files w') q = node_at (files w) q)"
proof (cases "validate_pin_id C v")
  case (Inl e)
  with assms show ?thesis by (auto simp: release_pin_def)
next
  case (Inr j)
  note v = validate_pin_id_Inr [OF Inr]
  let ?p = "pins_dir d k"
  have b: "below d (?p @ [j])" "below d ?p" "prefix d (?p @ [j])" "prefix d ?p"
    using assms(2) v by (auto simp: pins_place_def pins_dir_def below_def)
  have rd: "resolve (files w) d = d"
    by (rule resolve_clean [OF assms(1)]) (use assms(2) in \<open>auto simp: pins_place_def pins_dir_def below_def\<close>)
  have "keeps (confined d {q. prefix d q} (node_at (files w)))
     (bindI (try_only [CFileNotFoundError] (thenI (unlink (?p @ [j])) (ret True)) (\<lambda>_. ret False)) (\<lambda>removed.
         if removed then try_only [COSError] (rmdir (butlast (?p @ [j]))) (\<lambda>_. ret ()) else ret ()))"
    using b by (auto intro!: keeps_intros simp del: io_apply)
  from keepsD [OF this confined_self [OF assms(1)]] assms(3) show ?thesis
    by (simp add: release_pin_def Inr rd confined_def cong: if_cong)
qed

section \<open>The launch\<close>

lemma avoids_submission_error:
  "avoids CJobSubmissionError (pin_artifact C d k v)" "avoids CJobSubmissionError (release_pin C d k v)"
  "avoids CJobSubmissionError (authority_write Y H a x)"
proof -
  have n: "not_os_class CJobSubmissionError" by (simp add: not_os_class_def)
  have v: "validate_pin_id C v = Inl e \<Longrightarrow> exn_class e \<noteq> Some CJobSubmissionError" for e
    by (auto simp: validate_pin_id_def bindR_Inl_iff Let_def pin_error_def)
  show "avoids CJobSubmissionError (pin_artifact C d k v)"
    unfolding pin_artifact_def atomic_write_text_def by (intro avoids_intros n v)
  show "avoids CJobSubmissionError (release_pin C d k v)"
    unfolding release_pin_def by (intro avoids_intros n v) (auto intro!: avoids_intros n simp del: io_apply)
  show "avoids CJobSubmissionError (authority_write Y H a x)"
    unfolding authority_write_def write_job_def atomic_write_text_def
    by (intro avoids_intros n) (simp_all add: authority_error_def value_error_def)
qed

lemma spec_errors:
  "spec_validate s = Inl e \<Longrightarrow> exn_class e \<noteq> Some CJobSubmissionError"
  "blueprint_cache_root b = Inl e \<Longrightarrow> exn_class e \<noteq> Some CJobSubmissionError"
  "record_from_spec H s = Inl e \<Longrightarrow> exn_class e \<noteq> Some CJobSubmissionError"
  "authority_reference fs r g j dg = Inl e \<Longrightarrow> exn_class e \<noteq> Some CJobSubmissionError"
proof -
  have f: "foldR (\<lambda>(n, v) _. assertR (is_str v) (type_error (n @ '' must be a string''))) xs () = Inl e \<Longrightarrow>
      exn_class e \<noteq> Some CJobSubmissionError" for xs e
    by (induction xs) (auto simp: bindR_Inl_iff type_error_def)
  show v: "spec_validate s = Inl e \<Longrightarrow> exn_class e \<noteq> Some CJobSubmissionError"
    by (auto simp: spec_validate_def bindR_Inl_iff value_error_def dest: f)
  then show "record_from_spec H s = Inl e \<Longrightarrow> exn_class e \<noteq> Some CJobSubmissionError"
    by (auto simp: record_from_spec_def bindR_Inl_iff)
  show "blueprint_cache_root b = Inl e \<Longrightarrow> exn_class e \<noteq> Some CJobSubmissionError"
    by (auto simp: blueprint_cache_root_def bindR_Inl_iff path_of_py_def type_error_def split: if_splits)
  show "authority_reference fs r g j dg = Inl e \<Longrightarrow> exn_class e \<noteq> Some CJobSubmissionError"
    by (auto simp: authority_reference_def authority_job_path_def authority_group_id_def authority_job_id_def
        bindR_Inl_iff Let_def value_error_def)
qed

definition beside_same :: "path \<Rightarrow> world \<Rightarrow> world \<Rightarrow> bool" where
  "beside_same r w w' \<longleftrightarrow> clean r (files w') \<and>
     (\<forall>q. \<not> prefix r q \<longrightarrow> \<not> prefix q r \<longrightarrow> node_at (files w') q = node_at (files w) q)"

lemma beside_same_clean: "beside_same r w w' \<Longrightarrow> apart r d \<Longrightarrow> clean d (files w) \<Longrightarrow> clean d (files w')"
  by (rule clean_beside [where r = r and p = r and fs = "files w"]) (auto simp: beside_same_def below_def clean_def)

lemma beside_same_holders:
  "beside_same r w w' \<Longrightarrow> apart r d \<Longrightarrow> prefix d p \<Longrightarrow> pin_holders C p (node_at (files w')) = pin_holders C p (node_at (files w))"
proof -
  assume b: "beside_same r w w'" "apart r d" "prefix d p"
  have "node_at (files w') (p @ [n]) = node_at (files w) (p @ [n])" for n
    using b(1) apart_below [OF b(2), of "p @ [n]"] b(3) by (simp add: beside_same_def)
  then show ?thesis by (simp add: pin_holders_def)
qed

lemma job_write_result:
  assumes "clean r (files w)" "slug_fullmatch g" "job_id_text j" "write_job Y H (r @ [g, j @ ''.yaml'']) x w = (res, w')"
  shows "beside_same r w w'" "res = Inr () \<Longrightarrow> node_at (files w') (r @ [g, j @ ''.yaml'']) = Some (File (job_text Y x))"
proof -
  let ?p = "r @ [g, j @ ''.yaml'']" and ?S = "{q. prefix r q \<or> prefix q r}"
  note b = job_file_below [OF assms(1-3)]
  have "keeps (confined r ?S (node_at (files w))) (write_job Y H ?p x)"
    unfolding write_job_def atomic_write_text_def
  proof (intro keeps_intros)
    show "below r ?p" "strict_prefix r ?p" "last ?p \<noteq> []" "?p \<in> ?S" using b by simp_all
    show "temp_paths ?p \<subseteq> ?S" by (auto simp: temp_paths_def butlast_append)
    fix q assume "prefix q (butlast ?p)" "q \<noteq> []"
    then have "prefix q (r @ [g])" by (simp add: butlast_append)
    then have "q \<in> ?S" by (auto simp: prefix_append)
    then show "q \<in> ?S \<or> node_at (files w) q = Some Dir" ..
  qed
  from keepsD [OF this confined_self [OF assms(1)] assms(4)] show "beside_same r w w'"
    by (simp add: confined_def beside_same_def)
  assume "res = Inr ()"
  with assms(4) have "atomic_write_bytes ?p (job_text Y x) w = (Inr (), w')"
    by (auto simp: write_job_def thenI_Inr_iff atomic_write_text_def job_text_def split: if_splits)
  from atomic_write_makes(2) [OF assms(1) b(1,3) _ this] show "node_at (files w') ?p = Some (File (job_text Y x))" by simp
qed

lemma create_stays:
  assumes "clean r (files w)" "authority_create Y H r record w = (res, w')"
  shows "beside_same r w w'"
proof -
  have same: "beside_same r w w" using assms(1) by (simp add: beside_same_def)
  show ?thesis
  proof (cases "authority_reference (files w) r (js_group_key (jr_spec record)) (js_job_id (jr_spec record)) (jr_authority_digest record)")
    case (Inl e)
    with assms(2) same show ?thesis by (auto simp: authority_create_def)
  next
    case (Inr a)
    note ai = Inr [unfolded authority_reference_Inr]
    have p: "authority_path (files w) a = r @ [af_group_id a, af_job_id a @ ''.yaml'']"
      by (rule authority_path_clean [OF assms(1)]) (use ai in simp_all)
    obtain res1 w1 where wr: "write_job Y H (r @ [af_group_id a, af_job_id a @ ''.yaml'']) record w = (res1, w1)" by fastforce
    from job_write_result(1) [OF assms(1) _ _ wr] ai have "beside_same r w w1" by simp
    with assms(2) same wr Inr show ?thesis
      by (auto simp: authority_create_def thenI_apply p split: if_splits sum.splits)
  qed
qed

lemma release_beside:
  assumes "clean d (files w)" "pins_place d k" "release_pin C d k v w = (res, w')"
  shows "beside_same d w w'"
  using release_stays [OF assms] by (simp add: beside_same_def)

text \<open>The launcher makes no symbolic link in the job store or the cache.\<close>

definition launcher_ok :: "path \<Rightarrow> path \<Rightarrow> (authority_ref \<Rightarrow> int option fio) \<Rightarrow> bool" where
  "launcher_ok r d launch \<longleftrightarrow>
     (\<forall>a v. clean r (files v) \<and> clean d (files v) \<longrightarrow>
        clean r (files (snd (launch a v))) \<and> clean d (files (snd (launch a v))))"

lemma launch_failed_result:
  assumes "clean r (files v)" "clean d (files v)" "apart r d" "pins_place d k"
    and "authority_reference fs r (js_group_key (jr_spec record)) (js_job_id (jr_spec record)) (jr_authority_digest record) = Inr a"
    and "launch_failed E d k (js_job_id (jr_spec record)) a record e v = (Inl e', w')" "exn_class e' = Some CJobSubmissionError"
  shows "af_job_id a \<notin> pin_holders (se_cache E) (pins_dir d k) (node_at (files w')) \<and>
    node_at (files w') (r @ [af_group_id a, af_job_id a @ ''.yaml'']) =
      Some (File (job_text (ce_yaml (se_config E)) (failed_record record e)))"
proof -
  note ai = assms(5) [unfolded authority_reference_Inr]
  let ?P = "r @ [af_group_id a, af_job_id a @ ''.yaml'']"
  from assms(6,7) obtain v1 where r: "release_pin (se_cache E) d k (PStr (af_job_id a)) v = (Inr (), v1)"
    and wr: "authority_write (ce_yaml (se_config E)) (se_hash E) a (failed_record record e) v1 = (Inr (), w')"
    using ai avoidsD [OF avoids_submission_error(2) [of "se_cache E" d k "PStr (af_job_id a)"]]
      avoidsD [OF avoids_submission_error(3) [of "ce_yaml (se_config E)" "se_hash E" a "failed_record record e"]]
    by (auto simp: launch_failed_def thenI_apply split: prod.splits sum.splits)
  from r obtain jj where vj: "validate_pin_id (se_cache E) (PStr (af_job_id a)) = Inr jj"
    by (auto simp: release_pin_def bindI_Inr_iff)
  with validate_pin_id_Inr [OF vj] have vj: "validate_pin_id (se_cache E) (PStr (af_job_id a)) = Inr (af_job_id a)" by simp
  note rb = release_beside [OF assms(2,4) r]
  have c1: "clean r (files v1)" by (rule beside_same_clean [OF rb apart_sym [OF assms(3)] assms(1)])
  have "authority_path (files v1) a = ?P" by (rule authority_path_clean [OF c1]) (use ai in simp_all)
  with wr have "write_job (ce_yaml (se_config E)) (se_hash E) ?P (failed_record record e) v1 = (Inr (), w')"
    by (auto simp: authority_write_def thenI_Inr_iff split: if_splits)
  note j = job_write_result [OF c1 _ _ this]
  have "pin_holders (se_cache E) (pins_dir d k) (node_at (files w')) = pin_holders (se_cache E) (pins_dir d k) (node_at (files v1))"
    by (rule beside_same_holders [OF j(1) assms(3)]) (use ai in \<open>simp_all add: pins_dir_def\<close>)
  with release_result [OF assms(2,4) vj r] j(2) ai show ?thesis by simp
qed

lemma launch_result:
  assumes "clean r (files w)" "clean d (files w)" "apart r d" "pins_place d k" "launcher_ok r d launch"
    and "authority_reference (files w) r (js_group_key (jr_spec record)) (js_job_id (jr_spec record)) (jr_authority_digest record) = Inr a"
    and "tryI (bindI (authority_create Y (se_hash E) r record) (\<lambda>a. bindI (launch a) (\<lambda>pid. ret (a, pid))))
           (launch_failed E d k (js_job_id (jr_spec record)) a record) w = (res, w')"
    and "Y = ce_yaml (se_config E)"
  shows "(\<forall>a' pid. res = Inr (a', pid) \<longrightarrow> a' = a \<and> (\<exists>v. launch a v = (Inr pid, w') \<and>
      node_at (files w) (r @ [af_group_id a, af_job_id a @ ''.yaml'']) = None \<and>
      node_at (files v) (r @ [af_group_id a, af_job_id a @ ''.yaml'']) = Some (File (job_text Y record)) \<and>
      pin_holders (se_cache E) (pins_dir d k) (node_at (files v)) = pin_holders (se_cache E) (pins_dir d k) (node_at (files w)))) \<and>
    (\<forall>e. res = Inl e \<and> exn_class e = Some CJobSubmissionError \<longrightarrow>
      af_job_id a \<notin> pin_holders (se_cache E) (pins_dir d k) (node_at (files w')) \<and>
      (\<exists>e0. node_at (files w') (r @ [af_group_id a, af_job_id a @ ''.yaml'']) = Some (File (job_text Y (failed_record record e0)))))"
proof -
  obtain rc w1 where cr: "authority_create Y (se_hash E) r record w = (rc, w1)" by fastforce
  note st = create_stays [OF assms(1) cr]
  have c1: "clean r (files w1)" "clean d (files w1)"
    using st beside_same_clean [OF st assms(3,2)] by (simp_all add: beside_same_def)
  have fail: "(\<forall>a' pid. res \<noteq> Inr (a', pid)) \<and> (\<forall>e. res = Inl e \<and> exn_class e = Some CJobSubmissionError \<longrightarrow>
      af_job_id a \<notin> pin_holders (se_cache E) (pins_dir d k) (node_at (files w')) \<and>
      (\<exists>e0. node_at (files w') (r @ [af_group_id a, af_job_id a @ ''.yaml'']) = Some (File (job_text Y (failed_record record e0)))))"
    if "clean r (files v)" "clean d (files v)" "launch_failed E d k (js_job_id (jr_spec record)) a record e0 v = (res, w')" for e0 v
  proof (cases res)
    case (Inr y)
    with that(3) show ?thesis by (auto simp: launch_failed_def thenI_apply split: prod.splits sum.splits)
  next
    case (Inl e)
    with launch_failed_result [OF that(1,2) assms(3,4,6)] that(3) assms(8) show ?thesis by blast
  qed
  show ?thesis
  proof (cases rc)
    case (Inl e0)
    show ?thesis
    proof (cases "e0 = Crashed")
      case True
      with assms(7) cr Inl show ?thesis by (auto simp: tryI_apply bindI_apply)
    next
      case False
      with assms(7) cr Inl have "launch_failed E d k (js_job_id (jr_spec record)) a record e0 w1 = (res, w')"
        by (simp add: tryI_apply bindI_apply)
      from fail [OF c1 this] show ?thesis by blast
    qed
  next
    case (Inr a1)
    note k = authority_create_result [OF assms(1) cr [unfolded Inr]]
    from k(1) assms(6) have a1: "a1 = a" by simp
    note ai = assms(6) [unfolded authority_reference_Inr]
    have P: "authority_path (files w) a = r @ [af_group_id a, af_job_id a @ ''.yaml'']"
      by (rule authority_path_clean [OF assms(1)]) (use ai in simp_all)
    have h: "pin_holders (se_cache E) (pins_dir d k) (node_at (files w1)) = pin_holders (se_cache E) (pins_dir d k) (node_at (files w))"
      by (rule beside_same_holders [OF st assms(3)]) (simp add: pins_dir_def)
    obtain rl w2 where l: "launch a w1 = (rl, w2)" by fastforce
    have c2: "clean r (files w2)" "clean d (files w2)" using assms(5) [unfolded launcher_ok_def, rule_format, of w1 a] c1 l by simp_all
    show ?thesis
    proof (cases rl)
      case (Inr pid)
      with assms(7) cr \<open>rc = Inr a1\<close> a1 l have "res = Inr (a, pid)" "w' = w2" by (simp_all add: tryI_apply bindI_apply)
      with l Inr k(2,4) a1 P h show ?thesis by auto
    next
      case (Inl e0)
      show ?thesis
      proof (cases "e0 = Crashed")
        case True
        with assms(7) cr \<open>rc = Inr a1\<close> a1 l Inl show ?thesis by (auto simp: tryI_apply bindI_apply)
      next
        case False
        with assms(7) cr \<open>rc = Inr a1\<close> a1 l Inl have "launch_failed E d k (js_job_id (jr_spec record)) a record e0 w2 = (res, w')"
          by (simp add: tryI_apply bindI_apply)
        from fail [OF c2 this] show ?thesis by blast
      qed
    qed
  qed
qed

text \<open>
  C18 - A worker is launched only for a job that will survive. When submission calls the launcher the place of the
  record was empty and now holds the queued record with exactly this specification, and the compiled blueprint is
  pinned for the job; on return the process is the one the launcher reported. If submission fails with the
  error it promises, the pin is gone and the record says failed - whatever was in its place before.
\<close>

theorem launched_jobs_are_durable:
  assumes "clean r (files w)" "clean d (files w)" "apart r d" "pins_place d (blueprint_cache_ref (js_blueprint spec))"
    and "launcher_ok r d launch" "blueprint_cache_root (js_blueprint spec) = Inr d"
    and "submit_resolved E launch r spec w = (res, w')"
  shows "(\<forall>h. res = Inr h \<longrightarrow> (\<exists>a v record. launch a v = (Inr (jh_worker_pid h), w') \<and>
      record_from_spec (se_hash E) spec = Inr record \<and> af_store_root a = r \<and>
      js_group_key spec = PStr (af_group_id a) \<and> js_job_id spec = PStr (af_job_id a) \<and> af_job_id a = jh_job_id h \<and>
      af_digest a = immutable_digest (se_hash E) spec \<and>
      node_at (files w) (r @ [af_group_id a, af_job_id a @ ''.yaml'']) = None \<and>
      node_at (files v) (r @ [af_group_id a, af_job_id a @ ''.yaml'']) = Some (File (job_text (ce_yaml (se_config E)) record)) \<and>
      af_job_id a \<in> pin_holders (se_cache E) (pins_dir d (blueprint_cache_ref (js_blueprint spec))) (node_at (files v)))) \<and>
    (\<forall>m. res = Inl (Exn CJobSubmissionError m) \<longrightarrow> (\<exists>g j record e. record_from_spec (se_hash E) spec = Inr record \<and>
      js_group_key spec = PStr g \<and> js_job_id spec = PStr j \<and>
      j \<notin> pin_holders (se_cache E) (pins_dir d (blueprint_cache_ref (js_blueprint spec))) (node_at (files w')) \<and>
      node_at (files w') (r @ [g, j @ ''.yaml'']) = Some (File (job_text (ce_yaml (se_config E)) (failed_record record e)))))"
proof -
  let ?k = "blueprint_cache_ref (js_blueprint spec)" and ?C = "se_cache E" and ?Y = "ce_yaml (se_config E)"
  show ?thesis
  proof (cases "record_from_spec (se_hash E) spec")
    case (Inl e)
    with assms(6,7) spec_errors(1) [of spec] spec_errors(3) [OF Inl] show ?thesis
      by (cases "spec_validate spec") (auto simp: submit_resolved_def Let_def thenI_apply)
  next
    case (Inr rd)
    then have v: "spec_validate spec = Inr ()" and rec: "jr_spec rd = spec"
      "jr_authority_digest rd = PStr (immutable_digest (se_hash E) spec)"
      by (auto simp: record_from_spec_def bindR_Inr_iff new_record_def)
    obtain ra wa where pa: "tryI (bindI (active_pins ?C d ?k) (\<lambda>_. ret ())) (\<lambda>_. ret ()) w = (ra, wa)" by fastforce
    have "keeps (\<lambda>v. v = w) (tryI (bindI (active_pins ?C d ?k) (\<lambda>_. ret ())) (\<lambda>_. ret ()))"
      unfolding active_pins_def by (auto intro!: keeps_intros simp del: io_apply)
    from keepsD [OF this refl pa] have wa: "wa = w" .
    have ran: "exn_class e \<noteq> Some CJobSubmissionError" if "ra = Inl e" for e
      using pa that by (auto simp: tryI_apply split: prod.splits sum.splits if_splits)
    obtain rp wp where pp: "pin_artifact ?C d ?k (js_job_id spec) w = (rp, wp)" by fastforce
    show ?thesis
    proof (cases "(\<exists>e. ra = Inl e) \<or> (\<exists>e. rp = Inl e)")
      case True
      with pp pa wa v Inr assms(6,7) ran
      show ?thesis using avoidsD [OF avoids_submission_error(1) [of ?C d ?k "js_job_id spec"], of w]
        by (cases ra) (auto simp: submit_resolved_def Let_def thenI_apply bindI_apply)
    next
      case False
      then obtain p where ok: "ra = Inr ()" "rp = Inr p" by (cases ra; cases rp) auto
      from pin_made [OF assms(2,4) pp [unfolded ok]] obtain j where j: "js_job_id spec = PStr j" "p = pins_dir d ?k @ [j]"
        "clean d (files wp)" "j \<in> pin_holders ?C (pins_dir d ?k) (node_at (files wp))"
        "\<And>q. \<not> prefix q p \<Longrightarrow> node_at (files wp) q = node_at (files w) q" by blast
      have pb: "below d p" "prefix d p"
        using assms(4) validate_pin_id_Inr j(1,2) pp ok
        by (auto simp: pins_place_def pins_dir_def below_def pin_artifact_def bindI_Inr_iff)
      have cr: "clean r (files wp)"
        by (rule clean_beside [OF apart_sym [OF assms(3)] j(3) assms(1) pb(1)]) (use j(5) in simp)
      have run: "submit_resolved E launch r spec w =
         bindI (liftR (authority_reference (files wp) r (js_group_key spec) (js_job_id spec) (jr_authority_digest rd))) (\<lambda>a.
         bindI (tryI (bindI (authority_create ?Y (se_hash E) r rd) (\<lambda>a. bindI (launch a) (\<lambda>pid. ret (a, pid))))
           (launch_failed E d ?k (js_job_id spec) a rd)) (\<lambda>(a, pid).
         see (\<lambda>fs. \<lparr>jh_job_id = text_of (js_job_id spec), jh_status = ''queued'', jh_job_path = authority_path fs a,
                      jh_worker_pid = pid\<rparr>))) wp"
        using v Inr assms(6) pa wa pp ok by (simp add: submit_resolved_def Let_def thenI_apply bindI_Inr)
      show ?thesis
      proof (cases "authority_reference (files wp) r (js_group_key spec) (js_job_id spec) (jr_authority_digest rd)")
        case (Inl e)
        with run assms(7) spec_errors(4) [OF Inl] show ?thesis by auto
      next
        case (Inr a)
        note ai = Inr [unfolded authority_reference_Inr]
        let ?P = "r @ [af_group_id a, af_job_id a @ ''.yaml'']"
        obtain rl wl where l: "tryI (bindI (authority_create ?Y (se_hash E) r rd) (\<lambda>a. bindI (launch a) (\<lambda>pid. ret (a, pid))))
           (launch_failed E d ?k (js_job_id spec) a rd) wp = (rl, wl)" by fastforce
        have L: "(\<forall>a' pid. rl = Inr (a', pid) \<longrightarrow> a' = a \<and> (\<exists>v. launch a v = (Inr pid, wl) \<and>
            node_at (files wp) ?P = None \<and> node_at (files v) ?P = Some (File (job_text ?Y rd)) \<and>
            pin_holders ?C (pins_dir d ?k) (node_at (files v)) = pin_holders ?C (pins_dir d ?k) (node_at (files wp)))) \<and>
          (\<forall>e. rl = Inl e \<and> exn_class e = Some CJobSubmissionError \<longrightarrow>
            af_job_id a \<notin> pin_holders ?C (pins_dir d ?k) (node_at (files wl)) \<and>
            (\<exists>e0. node_at (files wl) ?P = Some (File (job_text ?Y (failed_record rd e0)))))"
          by (rule launch_result [OF cr j(3) assms(3,4,5) Inr [folded rec(1)] _ refl, unfolded rec(1)]) (rule l)
        have P: "node_at (files wp) ?P = node_at (files w) ?P"
          by (rule j(5)) (use assms(3) pb(2) in \<open>meson apart_def prefix_order.trans prefix_same_cases prefixI\<close>)
        have res: "res = (case rl of Inl e \<Rightarrow> Inl e | Inr (a', pid) \<Rightarrow>
            Inr \<lparr>jh_job_id = text_of (js_job_id spec), jh_status = ''queued'', jh_job_path = authority_path (files wl) a', jh_worker_pid = pid\<rparr>)"
          "w' = wl"
          using run assms(7) Inr l by (auto simp: bindI_apply split: sum.splits prod.splits)
        show ?thesis
        proof (cases rl)
          case (Inl e)
          with L res ai j(1) \<open>record_from_spec (se_hash E) spec = Inr rd\<close> show ?thesis by auto
        next
          case (Inr y)
          then obtain pid v where y: "y = (a, pid)" "launch a v = (Inr pid, wl)" "node_at (files w) ?P = None"
            "node_at (files v) ?P = Some (File (job_text ?Y rd))"
            "j \<in> pin_holders ?C (pins_dir d ?k) (node_at (files v))"
            using L P j(4) by (cases y) auto
          have "j = af_job_id a" using ai j(1) by simp
          with y ai rec res Inr j(1) \<open>record_from_spec (se_hash E) spec = Inr rd\<close> show ?thesis
            by (intro conjI allI impI) (auto intro!: exI [of _ a] exI [of _ v] exI [of _ rd])
        qed
      qed
    qed
  qed
qed

section \<open>A submission that works\<close>

lemma pin_works:
  assumes "clean d (files w)" "pins_place d k" "node_at (files w) (pins_dir d k) = Some Dir"
    and "validate_pin_id C v = Inr j" "node_at (files w) (pins_dir d k @ [j]) \<noteq> Some Dir" "sched w = []"
  shows "\<exists>w'. pin_artifact C d k v w = (Inr (pins_dir d k @ [j]), w') \<and> sched w' = [] \<and>
    node_at (files w') = (node_at (files w))(pins_dir d k @ [j] \<mapsto> File [])"
proof -
  note v = validate_pin_id_Inr [OF assms(4)]
  have rd: "resolve (files w) d = d"
    by (rule resolve_clean [OF assms(1)]) (use assms(2) in \<open>auto simp: pins_place_def pins_dir_def below_def\<close>)
  have b: "below d (pins_dir d k @ [j])" "strict_prefix d (pins_dir d k @ [j])" "last (pins_dir d k @ [j]) \<noteq> []"
    using assms(2) v by (auto simp: pins_place_def pins_dir_def below_def strict_prefix_def)
  from atomic_write_works [OF assms(1) b, of "[]"] assms(3,5,6)
  obtain w' where "atomic_write_bytes (pins_dir d k @ [j]) [] w = (Inr (), w')" "sched w' = []"
    "node_at (files w') = (node_at (files w))(pins_dir d k @ [j] \<mapsto> File [])" by auto
  then show ?thesis by (simp add: pin_artifact_def assms(4) rd thenI_apply atomic_write_text_def)
qed

lemma create_works:
  assumes "clean r (files w)" "node_at (files w) (r @ [af_group_id a]) = Some Dir" "sched w = []"
    and "authority_reference (files w) r (js_group_key (jr_spec x)) (js_job_id (jr_spec x)) (jr_authority_digest x) = Inr a"
    and "jr_authority_digest x = PStr (immutable_digest H (jr_spec x))"
    and "node_at (files w) (r @ [af_group_id a, af_job_id a @ ''.yaml'']) = None"
  shows "\<exists>w'. authority_create Y H r x w = (Inr a, w') \<and> sched w' = []"
proof -
  note ai = assms(4) [unfolded authority_reference_Inr]
  let ?P = "r @ [af_group_id a, af_job_id a @ ''.yaml'']"
  have p: "authority_path (files w) a = ?P" by (rule authority_path_clean [OF assms(1)]) (use ai in simp_all)
  note b = job_file_below [OF assms(1), of "af_group_id a" "af_job_id a"]
  from atomic_write_works [OF assms(1) b(1,3), of "job_text Y x"] ai assms(2,3,6)
  obtain w' where "atomic_write_bytes ?P (job_text Y x) w = (Inr (), w')" "sched w' = []"
    by (auto simp: butlast_append)
  then have "write_job Y H ?P x w = (Inr (), w')"
    using assms(5) by (simp add: write_job_def thenI_apply atomic_write_text_def job_text_def)
  moreover have "\<not> path_exists (files w) ?P" using exists_clean [OF assms(1) b(1)] ai assms(6) by simp
  ultimately show ?thesis
    using \<open>sched w' = []\<close> by (simp add: authority_create_def assms(4) p thenI_apply)
qed

definition demo_launch_spec :: job_spec where
  "demo_launch_spec = demo_spec\<lparr>js_blueprint := \<lparr>br_key = PStr ''b'', br_source_digest = PStr ''d'', br_integration = PStr ''script'',
     br_projector_version = PStr ''v1'', br_cache_path = PStr ''/c/script/v1/d''\<rparr>\<rparr>"

definition demo_submission :: submission_env where
  "demo_submission = \<lparr>se_config = demo_env, se_hash = demo_hash, se_blueprints = demo_library, se_cache = demo_cache,
     se_integrations = [], se_projectors = [], se_now = ''now''\<rparr>"

definition demo_submit_world :: world where
  "demo_submit_world = \<lparr>files = [([''m''], Dir), ([''m'', ''.jobs''], Dir), ([''m'', ''.jobs'', ''g''], Dir), ([''c''], Dir),
     ([''c'', ''_pins''], Dir), ([''c'', ''_pins'', ''script--v1--d''], Dir)], sched = [], busy = []\<rparr>"

definition demo_launcher :: "authority_ref \<Rightarrow> int option fio" where
  "demo_launcher a = ret (Some 7)"

lemma demo_submission_fields:
  "se_hash demo_submission = demo_hash" "se_cache demo_submission = demo_cache"
  "ce_yaml (se_config demo_submission) = json_codec"
  by (simp_all add: demo_submission_def demo_env_def)

lemma submit_resolved_run:
  assumes "spec_validate spec = Inr ()" "blueprint_cache_root (js_blueprint spec) = Inr d" "record_from_spec (se_hash E) spec = Inr x"
    and "tryI (bindI (active_pins (se_cache E) d (blueprint_cache_ref (js_blueprint spec))) (\<lambda>_. ret ())) (\<lambda>_. ret ()) w = (Inr (), w)"
    and "pin_artifact (se_cache E) d (blueprint_cache_ref (js_blueprint spec)) (js_job_id spec) w = (Inr p, wp)"
    and "authority_reference (files wp) r (js_group_key spec) (js_job_id spec) (jr_authority_digest x) = Inr a"
    and "authority_create (ce_yaml (se_config E)) (se_hash E) r x wp = (Inr a, wc)" "launch a wc = (Inr pid, wl)"
  shows "submit_resolved E launch r spec w =
    (Inr \<lparr>jh_job_id = text_of (js_job_id spec), jh_status = ''queued'', jh_job_path = authority_path (files wl) a, jh_worker_pid = pid\<rparr>, wl)"
  using assms by (simp add: submit_resolved_def Let_def thenI_apply bindI_Inr tryI_apply)

lemma launched_jobs_are_durable_witness:
  "\<exists>h w'. submit_resolved demo_submission demo_launcher [''m'', ''.jobs''] demo_launch_spec demo_submit_world = (Inr h, w') \<and>
     jh_worker_pid h = Some 7 \<and> jh_job_id h = ''j1'' \<and>
     node_at (files w') [''m'', ''.jobs'', ''g'', ''j1.yaml''] \<noteq> None"
proof -
  let ?r = "[''m'', ''.jobs'']" and ?d = "[''c'']" and ?s = demo_launch_spec and ?w = demo_submit_world
  let ?k = "blueprint_cache_ref (js_blueprint ?s)"
  let ?x = "new_record ?s [(''authority_digest'', PStr (immutable_digest demo_hash ?s))]"
  have "clean_check ?r (files ?w)" "clean_check ?d (files ?w)" by code_simp+
  then have c: "clean ?r (files ?w)" "clean ?d (files ?w)" by (auto intro: clean_checkI)
  have ap: "apart ?r ?d" by (simp add: apart_def)
  have k: "?k = \<lparr>cf_integration = ''script'', cf_projector_version = ''v1'', cf_source_digest = ''d''\<rparr>" by code_simp
  have pl: "pins_place ?d ?k" by (simp add: k pins_place_def pins_dir_def cache_key_def)
  have root: "blueprint_cache_root (js_blueprint ?s) = Inr ?d" by code_simp
  have l: "launcher_ok ?r ?d demo_launcher" by (simp add: launcher_ok_def demo_launcher_def)
  have "spec_ok ?s" by code_simp
  then have v: "spec_validate ?s = Inr ()" by (simp add: spec_validate_iff)
  then have rec: "record_from_spec demo_hash ?s = Inr ?x" by (simp add: record_from_spec_def)
  have id: "js_job_id ?s = PStr ''j1''" "js_group_key ?s = PStr ''g''" by (simp_all add: demo_launch_spec_def demo_spec_def)
  have x: "jr_spec ?x = ?s" "jr_authority_digest ?x = PStr (replicate 64 (CHR ''0''))"
    "jr_authority_digest ?x = PStr (immutable_digest demo_hash ?s)"
    by (simp_all add: new_record_def immutable_digest_def demo_hash_def)
  have "case fst (tryI (bindI (active_pins demo_cache ?d ?k) (\<lambda>_. ret ())) (\<lambda>_. ret ()) ?w) of Inr _ \<Rightarrow> True | Inl _ \<Rightarrow> False"
    by code_simp
  moreover have "keeps (\<lambda>v. v = ?w) (tryI (bindI (active_pins demo_cache ?d ?k) (\<lambda>_. ret ())) (\<lambda>_. ret ()))"
    unfolding active_pins_def by (auto intro!: keeps_intros simp del: io_apply)
  then have "snd (tryI (bindI (active_pins demo_cache ?d ?k) (\<lambda>_. ret ())) (\<lambda>_. ret ()) ?w) = ?w" by (simp only: keeps_def)
  ultimately have pa: "tryI (bindI (active_pins demo_cache ?d ?k) (\<lambda>_. ret ())) (\<lambda>_. ret ()) ?w = (Inr (), ?w)"
    by (auto simp: prod_eq_iff split: sum.splits)
  have vj: "validate_pin_id demo_cache (PStr ''j1'') = Inr ''j1''" by code_simp
  have n: "node_at (files ?w) (pins_dir ?d ?k) = Some Dir" "node_at (files ?w) (pins_dir ?d ?k @ [''j1'']) \<noteq> Some Dir" "sched ?w = []"
    by (simp_all add: k pins_dir_def cache_key_def demo_submit_world_def node_at_def)
  obtain wp where pp: "pin_artifact demo_cache ?d ?k (PStr ''j1'') ?w = (Inr (pins_dir ?d ?k @ [''j1'']), wp)" "sched wp = []"
    "node_at (files wp) = (node_at (files ?w))(pins_dir ?d ?k @ [''j1''] \<mapsto> File [])"
    using pin_works [OF c(2) pl n(1) vj n(2,3)] by blast
  note pm = pin_made [OF c(2) pl pp(1)]
  have cr: "clean ?r (files wp)"
    by (rule clean_beside [OF apart_sym [OF ap], of _ _ "pins_dir ?d ?k @ [''j1'']"])
       (use pm c(1) in \<open>auto simp: below_def k pins_dir_def cache_key_def\<close>)
  have t: "slug_fullmatch ''g''" "job_id_text ''j1''" "hex64 (replicate 64 (CHR ''0''))" by code_simp+
  have a: "authority_reference (files wp) ?r (js_group_key ?s) (js_job_id ?s) (jr_authority_digest ?x) = Inr demo_job_ref"
    using resolve_clean [OF cr job_file_below(2) [OF cr t(1,2)]] authority_path_clean [OF cr, of demo_job_ref] t
    by (simp add: authority_reference_Inr demo_job_ref_def x id)
  have ref: "af_group_id demo_job_ref = ''g''" "af_job_id demo_job_ref = ''j1''" by (simp_all add: demo_job_ref_def)
  have nw: "node_at (files wp) (?r @ [''g'']) = Some Dir" "node_at (files wp) (?r @ [''g'', ''j1'' @ ''.yaml'']) = None"
    by (simp_all add: pp(3) k pins_dir_def demo_submit_world_def node_at_def)
  have "\<exists>w'. authority_create json_codec demo_hash ?r ?x wp = (Inr demo_job_ref, w') \<and> sched w' = []"
    by (rule create_works [OF cr _ pp(2)]; unfold ref x(1)) (rule nw a x(3))+
  then obtain wc where cw: "authority_create json_codec demo_hash ?r ?x wp = (Inr demo_job_ref, wc)" by blast
  have "submit_resolved demo_submission demo_launcher ?r ?s ?w =
      (Inr \<lparr>jh_job_id = text_of (js_job_id ?s), jh_status = ''queued'', jh_job_path = authority_path (files wc) demo_job_ref,
             jh_worker_pid = Some 7\<rparr>, wc)"
  proof (rule submit_resolved_run)
    show "record_from_spec (se_hash demo_submission) ?s = Inr ?x" unfolding demo_submission_fields by (rule rec)
    show "pin_artifact (se_cache demo_submission) ?d ?k (js_job_id ?s) ?w = (Inr (pins_dir ?d ?k @ [''j1'']), wp)"
      unfolding demo_submission_fields id by (rule pp(1))
    show "tryI (bindI (active_pins (se_cache demo_submission) ?d ?k) (\<lambda>_. ret ())) (\<lambda>_. ret ()) ?w = (Inr (), ?w)"
      unfolding demo_submission_fields by (rule pa)
    show "authority_create (ce_yaml (se_config demo_submission)) (se_hash demo_submission) ?r ?x wp = (Inr demo_job_ref, wc)"
      unfolding demo_submission_fields by (rule cw)
    show "demo_launcher demo_job_ref wc = (Inr (Some 7), wc)" by (simp add: demo_launcher_def)
  qed (rule v root a)+
  then obtain h where r: "submit_resolved demo_submission demo_launcher ?r ?s ?w = (Inr h, wc)" "jh_worker_pid h = Some 7" by simp
  from conjunct1 [OF launched_jobs_are_durable [OF c ap pl l root r(1)], rule_format, OF refl]
  obtain a v x where A: "demo_launcher a v = (Inr (jh_worker_pid h), wc)" "af_job_id a = jh_job_id h" "js_job_id ?s = PStr (af_job_id a)"
    "js_group_key ?s = PStr (af_group_id a)" "node_at (files v) (?r @ [af_group_id a, af_job_id a @ ''.yaml'']) = Some x"
    by blast
  from A(3,4) id have "af_group_id a = ''g''" "af_job_id a = ''j1''" by simp_all
  moreover from A(1) have "v = wc" by (simp add: demo_launcher_def)
  ultimately show ?thesis using A(2,5) r by (intro exI [of _ h] exI [of _ wc]) simp
qed

section \<open>Resolved specifications are valid\<close>

lemma resolve_target_Inr:
  "resolve_target registered q c = Inr (g, a, r, i) \<longleftrightarrow>
     map_of (ac_groups c) (rq_group_key q) = Some g \<and> map_of (gc_agents g) (rq_agent_name q) = Some a \<and>
     r = find_routine a (rq_routine_id q) \<and> map_of registered (ai_integration a) = Some i \<and>
     (rq_trigger q \<in> set routine_triggers \<longrightarrow> (\<exists>x. r = Some x \<and> ro_enabled x)) \<and>
     (rq_trigger q \<in> set decision_triggers \<longrightarrow> rq_routine_id q = None)"
  by (auto simp: resolve_target_def bindR_Inr_iff find_agent_def check_trigger_def bind_integration_def get_integration_def
      Let_def split: option.splits)

lemma find_routine_Some: "find_routine a n = Some x \<Longrightarrow> x \<in> set (ai_routines a) \<and> n = Some (ro_id x)"
  by (auto simp: find_routine_def find_Some_iff split: option.splits)


definition demo_request :: job_request where
  "demo_request =
     \<lparr>rq_config_path = [''etc'', ''config.yaml''], rq_group_key = ''ops'', rq_agent_name = ''writer'', rq_trigger = ''manual_prompt'',
      rq_task_input = ''Run'', rq_job_id = ''j1'', rq_routine_id = Some ''daily'', rq_memory_override = None,
      rq_timeout_override = None, rq_trigger_context = PNone\<rparr>"

definition demo_routine :: routine where
  "demo_routine = \<lparr>ro_id = ''daily'', ro_skill = ''review'', ro_arguments = [''x''], ro_schedule = \<lparr>sr_at = None, sr_every = Some ''7d''\<rparr>,
     ro_memory = None, ro_enabled = True\<rparr>"

definition demo_routine_agent :: agent_instance where
  "demo_routine_agent = demo_agent\<lparr>ai_routines := [demo_routine]\<rparr>"

definition demo_routine_group :: group_config where
  "demo_routine_group = demo_group\<lparr>gc_agents := [(''writer'', demo_routine_agent)]\<rparr>"

definition demo_routine_snapshot :: config_snapshot where
  "demo_routine_snapshot = \<lparr>cs_path = [''etc'', ''config.yaml''], cs_revision = ''r1'', cs_raw = [],
     cs_config = demo_config\<lparr>ac_groups := [(''ops'', demo_routine_group)]\<rparr>\<rparr>"


end
