(* ===== verification/Dispatch.thy ===== *)
theory Dispatch
  imports Submission "HOL-Library.Sublist"
begin

text \<open>
  \<^verbatim>\<open>agency/dispatch/run.py\<close>: one cycle of the scheduler. A cycle sees one time: the date, the
  microseconds since midnight and the microseconds of the epoch are the record \<open>dispatch_env\<close>,
  with the fresh job ids (\<open>uuid4\<close>) and the field \<open>condition\<close>, which the routine models allow
  but do not name. The state adds to the file system the modification times and a history
  variable: the requests that were submitted, each with the state in which that was decided.
\<close>

section \<open>State and environment\<close>

record dispatch_env =
  dv_today :: string
  dv_time :: int
  dv_now :: int
  dv_condition :: "routine \<Rightarrow> bool"
  dv_job_id :: "nat \<Rightarrow> string"

record dispatch_state =
  ds_world :: world
  ds_mtime :: "path \<Rightarrow> int"
  ds_log :: "(job_request \<times> world \<times> (path \<Rightarrow> int)) list"

type_synonym 'a dio = "(dispatch_state, 'a) io"

definition on_files :: "'a fio \<Rightarrow> 'a dio" where
  "on_files m s = (case m (ds_world s) of (r, w) \<Rightarrow> (r, s\<lparr>ds_world := w\<rparr>))"

text \<open>\<open>Path.touch()\<close> with the time it leaves.\<close>

definition touch_marker :: "dispatch_env \<Rightarrow> path \<Rightarrow> unit dio" where
  "touch_marker V p s = (case touch p (ds_world s) of
     (Inl e, w) \<Rightarrow> (Inl e, s\<lparr>ds_world := w\<rparr>)
   | (Inr _, w) \<Rightarrow> (Inr (), s\<lparr>ds_world := w, ds_mtime := (ds_mtime s)(p := dv_now V)\<rparr>))"

section \<open>Rules\<close>

text \<open>
  \<open>strptime(f"{today} {target}", "%Y-%m-%d %H:%M")\<close>: the space of the format matches any run of
  white space, the hour has one or two digits, the minute as many as fit.
\<close>

definition minute_of :: "string \<Rightarrow> nat option" where
  "minute_of s = (case s of
     [c] \<Rightarrow> if is_digit c then Some (digit_val c) else None
   | [c, d] \<Rightarrow> if is_digit c \<and> digit_val c \<le> 5 \<and> is_digit d then Some (10 * digit_val c + digit_val d) else None
   | _ \<Rightarrow> None)"

definition clock_time :: "string \<Rightarrow> (nat \<times> nat) option" where
  "clock_time target =
     (case split_once '':'' (dropWhile is_space target) of
        None \<Rightarrow> None
      | Some (h, m) \<Rightarrow>
          (case h of
             [c] \<Rightarrow> if is_digit c then map_option (Pair (digit_val c)) (minute_of m) else None
           | [c, d] \<Rightarrow> if is_digit c \<and> is_digit d \<and> 10 * digit_val c + digit_val d \<le> 23
                      then map_option (Pair (10 * digit_val c + digit_val d)) (minute_of m) else None
           | _ \<Rightarrow> None))"

definition second :: int where
  "second = 1000000"

definition check_at_rule :: "dispatch_env \<Rightarrow> string \<Rightarrow> int \<Rightarrow> bool" where
  "check_at_rule V target interval =
     (case clock_time target of
        None \<Rightarrow> False
      | Some (h, m) \<Rightarrow>
          let diff = dv_time V - (int h * 3600 + int m * 60) * second in
          0 \<le> diff \<and> diff < (interval + 2) * 60 * second)"

definition interval_seconds :: "string \<Rightarrow> int option" where
  "interval_seconds s =
     (if s = [] then None
      else let digits = butlast s; unit = last s in
        if digits = [] \<or> \<not> list_all is_digit digits then None
        else if unit = CHR ''m'' then Some (int (nat_of_digits digits) * 60)
        else if unit = CHR ''h'' then Some (int (nat_of_digits digits) * 3600)
        else if unit = CHR ''d'' then Some (int (nat_of_digits digits) * 86400)
        else None)"

definition check_every_rule :: "dispatch_env \<Rightarrow> fs \<Rightarrow> (path \<Rightarrow> int) \<Rightarrow> path \<Rightarrow> string \<Rightarrow> bool" where
  "check_every_rule V fs mtime marker interval =
     (case interval_seconds interval of
        None \<Rightarrow> False
      | Some secs \<Rightarrow> \<not> path_exists fs marker \<or> secs * second \<le> dv_now V - mtime marker)"

section \<open>Markers\<close>

definition marker_char :: "char \<Rightarrow> bool" where
  "marker_char c \<longleftrightarrow> is_alnum c \<or> c \<in> {CHR ''.'', CHR ''_'', CHR ''-''}"

function dash_runs :: "string \<Rightarrow> string" where
  "dash_runs [] = []"
| "dash_runs (c # s) =
     (if marker_char c then c # dash_runs s else CHR ''-'' # dash_runs (dropWhile (\<lambda>c. \<not> marker_char c) s))"
  by pat_completeness auto
termination
  by (relation "measure length") (auto simp: less_Suc_eq_le length_dropWhile_le)

definition marker_safe :: "string \<Rightarrow> string" where
  "marker_safe value =
     (let t = strip_chars {CHR ''.'', CHR ''-''} (dash_runs value) in if t = [] then ''item'' else t)"

definition event_marker :: "dispatch_env \<Rightarrow> path \<Rightarrow> string \<Rightarrow> string \<Rightarrow> path" where
  "event_marker V log_dir agent_name routine_id =
     log_dir @ [''.event-'' @ marker_safe agent_name @ ''-'' @ marker_safe routine_id @ ''-'' @ dv_today V]"

definition every_marker :: "path \<Rightarrow> string \<Rightarrow> string \<Rightarrow> path" where
  "every_marker logs_root agent_name routine_id =
     logs_root @ [''.last-'' @ marker_safe agent_name @ ''-'' @ marker_safe routine_id]"

definition out_count :: "fs \<Rightarrow> path \<Rightarrow> int" where
  "out_count fs log_dir = int (length (filter (\<lambda>n. endswith n ''.out'') (listdir fs log_dir)))"

section \<open>The cycle\<close>

text \<open>\<open>build_routine_task_input\<close> of \<^verbatim>\<open>agency/jobs/prompts.py\<close>.\<close>

definition routine_task_input :: "string \<Rightarrow> string list \<Rightarrow> string" where
  "routine_task_input routine_id arguments =
     ''Run routine '' @ [CHR 0x27] @ routine_id @ [CHR 0x27] @
     (if arguments = [] then [] else '' with arguments: '' @ join '', '' arguments) @ ''.''"

definition routine_request :: "config_snapshot \<Rightarrow> string \<Rightarrow> string \<Rightarrow> routine \<Rightarrow> string \<Rightarrow> job_request" where
  "routine_request s group_key agent_name r job_id =
     \<lparr>rq_config_path = cs_path s, rq_group_key = group_key, rq_agent_name = agent_name, rq_trigger = ''scheduled_prompt'',
      rq_task_input = routine_task_input (ro_id r) (ro_arguments r), rq_job_id = job_id, rq_routine_id = Some (ro_id r),
      rq_memory_override = None, rq_timeout_override = None, rq_trigger_context = PNone\<rparr>"

definition or_empty :: "string option \<Rightarrow> string" where
  "or_empty t = (case t of None \<Rightarrow> [] | Some x \<Rightarrow> x)"

text \<open>The marker of a routine, \<^const>\<open>None\<close> without a schedule.\<close>

definition routine_marker :: "dispatch_env \<Rightarrow> path \<Rightarrow> path \<Rightarrow> string \<Rightarrow> routine \<Rightarrow> path option" where
  "routine_marker V logs_root log_dir agent_name r =
     (if or_empty (sr_at (ro_schedule r)) \<noteq> [] then Some (event_marker V log_dir agent_name (ro_id r))
      else if or_empty (sr_every (ro_schedule r)) \<noteq> [] then Some (every_marker logs_root agent_name (ro_id r))
      else None)"

definition should_run :: "dispatch_env \<Rightarrow> int \<Rightarrow> fs \<Rightarrow> (path \<Rightarrow> int) \<Rightarrow> path \<Rightarrow> routine \<Rightarrow> bool" where
  "should_run V interval fs mtime marker r =
     (if or_empty (sr_at (ro_schedule r)) \<noteq> []
      then \<not> path_exists fs marker \<and> check_at_rule V (or_empty (sr_at (ro_schedule r))) interval
      else check_every_rule V fs mtime marker (or_empty (sr_every (ro_schedule r))))"

definition submission_errors :: "exc_class list" where
  "submission_errors = [CTypeError, CValueError, CJobValidationError, CJobSubmissionError, COSError]"

text \<open>The body of the innermost loop: \<^const>\<open>False\<close> is \<open>break\<close>.\<close>

definition dispatch_routine ::
  "dispatch_env \<Rightarrow> (job_request \<Rightarrow> job_handle fio) \<Rightarrow> config_snapshot \<Rightarrow> string \<Rightarrow> group_config \<Rightarrow> path \<Rightarrow> path \<Rightarrow> string \<Rightarrow> routine \<Rightarrow> bool dio" where
  "dispatch_routine V submit s group_key g logs_root log_dir agent_name r =
     (if \<not> ro_enabled r \<or> dv_condition V r then ret True
      else bindI get_st (\<lambda>st.
        if gc_daily_limit g \<le> out_count (files (ds_world st)) log_dir then ret False
        else case routine_marker V logs_root log_dir agent_name r of
          None \<Rightarrow> ret True
        | Some marker \<Rightarrow>
            if \<not> should_run V (ac_dispatch_interval (cs_config s)) (files (ds_world st)) (ds_mtime st) marker r then ret True
            else let q = routine_request s group_key agent_name r (dv_job_id V (length (ds_log st))) in
              bindI (try_only submission_errors
                       (thenI (on_files (submit q))
                         (\<lambda>st'. (Inr True, st'\<lparr>ds_log := ds_log st' @ [(q, ds_world st, ds_mtime st)]\<rparr>)))
                       (\<lambda>_. ret False)) (\<lambda>submitted.
                thenI (whenI submitted (touch_marker V marker)) (ret True))))"

fun dispatch_routines :: "(routine \<Rightarrow> bool dio) \<Rightarrow> routine list \<Rightarrow> unit dio" where
  "dispatch_routines f [] = ret ()"
| "dispatch_routines f (r # rs) = bindI (f r) (\<lambda>go. if go then dispatch_routines f rs else ret ())"

definition dispatch_group ::
  "dispatch_env \<Rightarrow> (job_request \<Rightarrow> job_handle fio) \<Rightarrow> config_snapshot \<Rightarrow> string \<times> group_config \<Rightarrow> unit dio" where
  "dispatch_group V submit s entry = (case entry of (group_key, g) \<Rightarrow>
     if \<not> gc_dispatch_enabled g then ret ()
     else bindI (on_files (see (\<lambda>fs. gp_logs (resolve_group_paths fs g)))) (\<lambda>logs_root.
       let log_dir = logs_root @ [dv_today V] in
       thenI (on_files (mkdir_p log_dir))
       (bindI (on_files (see (\<lambda>fs. out_count fs log_dir))) (\<lambda>n.
         if gc_daily_limit g \<le> n then ret ()
         else forI (\<lambda>(agent_name, a).
                dispatch_routines (dispatch_routine V submit s group_key g logs_root log_dir agent_name) (ai_routines a))
              (gc_agents g)))))"

definition run_dispatch_cycle ::
  "dispatch_env \<Rightarrow> (job_request \<Rightarrow> job_handle fio) \<Rightarrow> config_snapshot \<Rightarrow> unit dio" where
  "run_dispatch_cycle V submit s = forI (dispatch_group V submit s) (ac_groups (cs_config s))"

definition dispatch_main ::
  "submission_env \<Rightarrow> (authority_ref \<Rightarrow> int option fio) \<Rightarrow> dispatch_env \<Rightarrow> path \<Rightarrow> unit dio" where
  "dispatch_main E launch V config_path =
     bindI (on_files (config_load (se_config E) config_path True)) (run_dispatch_cycle V (submit_job_request E launch))"

section \<open>What a cycle submits\<close>

definition entry_key :: "job_request \<times> world \<times> (path \<Rightarrow> int) \<Rightarrow> string \<times> string \<times> string option" where
  "entry_key x = (case x of (q, _) \<Rightarrow> (rq_group_key q, rq_agent_name q, rq_routine_id q))"

definition scheduled_keys :: "config_snapshot \<Rightarrow> (string \<times> string \<times> string option) list" where
  "scheduled_keys s = concat (map (\<lambda>(gk, g). concat (map (\<lambda>(an, a). map (\<lambda>r. (gk, an, Some (ro_id r))) (ai_routines a)) (gc_agents g)))
     (ac_groups (cs_config s)))"

text \<open>The entry of the history was due when it was decided.\<close>

definition due_entry :: "dispatch_env \<Rightarrow> config_snapshot \<Rightarrow> string \<times> group_config \<Rightarrow> job_request \<times> world \<times> (path \<Rightarrow> int) \<Rightarrow> bool" where
  "due_entry V s entry x \<longleftrightarrow> (case (entry, x) of ((gk, g), (q, w, mtime)) \<Rightarrow>
     gc_dispatch_enabled g \<and>
     (\<exists>(an, a)\<in>set (gc_agents g). \<exists>r\<in>set (ai_routines a). \<exists>fs marker.
        let logs_root = gp_logs (resolve_group_paths fs g); log_dir = logs_root @ [dv_today V] in
        ro_enabled r \<and> \<not> dv_condition V r \<and> q = routine_request s gk an r (rq_job_id q) \<and>
        out_count (files w) log_dir < gc_daily_limit g \<and>
        routine_marker V logs_root log_dir an r = Some marker \<and>
        should_run V (ac_dispatch_interval (cs_config s)) (files w) mtime marker r))"

text \<open>\<open>submits P ks m\<close>: what \<open>m\<close> adds to the history satisfies \<open>P\<close> and is an excerpt of \<open>ks\<close>, in order.\<close>

definition submits ::
  "(job_request \<times> world \<times> (path \<Rightarrow> int) \<Rightarrow> bool) \<Rightarrow> (string \<times> string \<times> string option) list \<Rightarrow> 'a dio \<Rightarrow> bool" where
  "submits P ks m \<longleftrightarrow> (\<forall>st res st'. m st = (res, st') \<longrightarrow>
     (\<exists>new. ds_log st' = ds_log st @ new \<and> list_all P new \<and> subseq (map entry_key new) ks))"

lemma submitsD: "submits P ks m \<Longrightarrow> m st = (res, st') \<Longrightarrow>
    \<exists>new. ds_log st' = ds_log st @ new \<and> list_all P new \<and> subseq (map entry_key new) ks"
  unfolding submits_def by blast

lemma submits_none: "(\<And>st. ds_log (snd (m st)) = ds_log st) \<Longrightarrow> submits P ks m"
  unfolding submits_def by (metis append_Nil2 list.simps(8) list.pred_inject(1) snd_conv list_emb_Nil)

lemma submits_silent:
  "submits P ks (ret x)" "submits P ks (on_files n)" "submits P ks (touch_marker V p)"
  by (auto intro!: submits_none simp: on_files_def touch_marker_def split: prod.splits sum.splits)

lemma submits_bindI:
  assumes "submits P ks m" "\<And>x. submits P ls (f x)"
  shows "submits P (ks @ ls) (bindI m f)"
  unfolding submits_def
proof (intro allI impI)
  fix st res st' assume run: "bindI m f st = (res, st')"
  obtain r1 st1 where m: "m st = (r1, st1)" by fastforce
  from submitsD [OF assms(1) m] obtain new1 where n1: "ds_log st1 = ds_log st @ new1" "list_all P new1" "subseq (map entry_key new1) ks" by blast
  show "\<exists>new. ds_log st' = ds_log st @ new \<and> list_all P new \<and> subseq (map entry_key new) (ks @ ls)"
  proof (cases r1)
    case (Inl e)
    with run m n1 show ?thesis by (auto simp: bindI_apply intro: list_emb_append2 subseq_rev_drop_many)
  next
    case (Inr x)
    with run m have "f x st1 = (res, st')" by (simp add: bindI_apply)
    from submitsD [OF assms(2) this] obtain new2 where "ds_log st' = ds_log st1 @ new2" "list_all P new2" "subseq (map entry_key new2) ls" by blast
    with n1 show ?thesis by (intro exI [of _ "new1 @ new2"]) (simp add: list_emb_append_mono)
  qed
qed

lemma submits_quiet_bindI: "submits P [] m \<Longrightarrow> (\<And>x. submits P ls (f x)) \<Longrightarrow> submits P ls (bindI m f)"
  using submits_bindI [of P "[]" m ls f] by simp

lemma submits_forI: "(\<And>x. x \<in> set xs \<Longrightarrow> submits P (k x) (f x)) \<Longrightarrow> submits P (concat (map k xs)) (forI f xs)"
proof (induction xs)
  case Nil
  then show ?case by (simp add: submits_silent del: io_apply)
next
  case (Cons x xs)
  then show ?case by (simp add: thenI_def submits_bindI)
qed

lemma submits_weaken: "submits P ks m \<Longrightarrow> (\<And>x. P x \<Longrightarrow> P' x) \<Longrightarrow> submits P' ks m"
  unfolding submits_def by (metis (mono_tags, lifting) list.pred_mono_strong)

lemma submits_routines: "(\<And>r. r \<in> set rs \<Longrightarrow> submits P [k r] (f r)) \<Longrightarrow> submits P (map k rs) (dispatch_routines f rs)"
proof (induction rs)
  case Nil
  then show ?case by (simp add: submits_silent del: io_apply)
next
  case (Cons r rs)
  have "submits P ([k r] @ map k rs) (bindI (f r) (\<lambda>go. if go then dispatch_routines f rs else ret ()))"
    by (rule submits_bindI) (use Cons in \<open>auto intro: submits_silent simp del: io_apply\<close>)
  then show ?case by simp
qed

lemma submits_routine:
  assumes "gc_dispatch_enabled g" "(an, a) \<in> set (gc_agents g)" "r \<in> set (ai_routines a)"
    and "logs_root = gp_logs (resolve_group_paths fs g)" "log_dir = logs_root @ [dv_today V]"
  shows "submits (due_entry V s (gk, g)) [(gk, an, Some (ro_id r))] (dispatch_routine V submit s gk g logs_root log_dir an r)"
  unfolding submits_def
proof (intro allI impI)
  fix st res st' assume run: "dispatch_routine V submit s gk g logs_root log_dir an r st = (res, st')"
  let ?q = "routine_request s gk an r (dv_job_id V (length (ds_log st)))" and ?w = "ds_world st" and ?mt = "ds_mtime st"
  let ?goal = "\<exists>new. ds_log st' = ds_log st @ new \<and> list_all (due_entry V s (gk, g)) new \<and> subseq (map entry_key new) [(gk, an, Some (ro_id r))]"
  show ?goal
  proof (cases "ds_log st' = ds_log st")
    case True
    then show ?thesis by (intro exI [of _ "[]"]) simp
  next
    case False
    have t: "ds_log (snd (touch_marker V m v)) = ds_log v" "ds_log (snd (on_files n v)) = ds_log v" for m v and n :: "'b fio"
      by (simp_all add: touch_marker_def on_files_def split: prod.splits sum.splits)
    from False run obtain marker where c: "ro_enabled r" "\<not> dv_condition V r" "out_count (files ?w) log_dir < gc_daily_limit g"
      "routine_marker V logs_root log_dir an r = Some marker"
      "should_run V (ac_dispatch_interval (cs_config s)) (files ?w) ?mt marker r"
      by (auto simp: dispatch_routine_def split: if_splits option.splits)
    obtain rs st1 where sb: "on_files (submit ?q) st = (rs, st1)" by fastforce
    then have l1: "ds_log st1 = ds_log st" using t(2) [of "submit ?q" st] by simp
    have "ds_log st' = ds_log st @ [(?q, ?w, ?mt)]"
    proof (cases rs)
      case (Inl e)
      with run c sb l1 False show ?thesis
        by (auto simp: dispatch_routine_def Let_def bindI_apply thenI_apply try_only_def tryI_apply split: if_splits)
    next
      case (Inr h)
      with run c sb l1 t(1) [of marker "st1\<lparr>ds_log := ds_log st @ [(?q, ?w, ?mt)]\<rparr>"] show ?thesis
        by (auto simp: dispatch_routine_def Let_def bindI_apply thenI_apply try_only_def tryI_apply split: prod.splits sum.splits)
    qed
    moreover have "due_entry V s (gk, g) (?q, ?w, ?mt)"
      unfolding due_entry_def prod.case Let_def
      by (intro conjI bexI [of _ "(an, a)"] bexI [of _ r] exI [of _ fs] exI [of _ marker] case_prodI)
         (use assms c in \<open>simp_all add: routine_request_def\<close>)
    ultimately show ?thesis by (intro exI [of _ "[(?q, ?w, ?mt)]"]) (simp add: entry_key_def routine_request_def)
  qed
qed

lemma submits_group:
  "submits (due_entry V s (gk, g))
     (concat (map (\<lambda>(an, a). map (\<lambda>r. (gk, an, Some (ro_id r))) (ai_routines a)) (gc_agents g)))
     (dispatch_group V submit s (gk, g))"
proof (cases "gc_dispatch_enabled g")
  case False
  then show ?thesis by (simp add: dispatch_group_def submits_silent del: io_apply)
next
  case True
  let ?ks = "concat (map (\<lambda>(an, a). map (\<lambda>r. (gk, an, Some (ro_id r))) (ai_routines a)) (gc_agents g))"
  have agents: "submits (due_entry V s (gk, g)) ?ks
      (forI (\<lambda>(an, a). dispatch_routines (dispatch_routine V submit s gk g (gp_logs (resolve_group_paths fs g))
          (gp_logs (resolve_group_paths fs g) @ [dv_today V]) an) (ai_routines a)) (gc_agents g))" for fs
    by (rule submits_forI) (auto intro!: submits_routines submits_routine [OF True])
  have "submits (due_entry V s (gk, g)) ?ks
      (let log_dir = gp_logs (resolve_group_paths fs g) @ [dv_today V] in
       thenI (on_files (mkdir_p log_dir))
       (bindI (on_files (see (\<lambda>fs. out_count fs log_dir))) (\<lambda>n.
         if gc_daily_limit g \<le> n then ret ()
         else forI (\<lambda>(an, a). dispatch_routines (dispatch_routine V submit s gk g (gp_logs (resolve_group_paths fs g)) log_dir an) (ai_routines a))
              (gc_agents g))))" for fs
    unfolding Let_def thenI_def
    by (intro submits_quiet_bindI submits_silent) (auto intro: agents submits_silent simp del: io_apply)
  moreover have "bindI (on_files (see (\<lambda>fs. gp_logs (resolve_group_paths fs g)))) F st =
      F (gp_logs (resolve_group_paths (files (ds_world st)) g)) st" for F :: "path \<Rightarrow> unit dio" and st
    by (simp add: bindI_apply on_files_def)
  ultimately show ?thesis
    unfolding submits_def dispatch_group_def using True by auto
qed


section \<open>A schedule\<close>

definition demo_timed :: "string \<Rightarrow> schedule_rule \<Rightarrow> routine" where
  "demo_timed i rule = demo_routine\<lparr>ro_id := i, ro_schedule := rule\<rparr>"

definition demo_schedule :: config_snapshot where
  "demo_schedule = demo_routine_snapshot\<lparr>cs_config := demo_config\<lparr>ac_groups :=
     [(''ops'', demo_group\<lparr>gc_daily_limit := 1, gc_agents :=
        [(''a-b'', demo_agent\<lparr>ai_routines := [demo_timed ''c'' \<lparr>sr_at = None, sr_every = Some ''7d''\<rparr>]\<rparr>),
         (''a'', demo_agent\<lparr>ai_routines := [demo_timed ''b-c'' \<lparr>sr_at = None, sr_every = Some ''1h''\<rparr>,
                                             demo_timed ''late'' \<lparr>sr_at = Some ''9:00'', sr_every = None\<rparr>]\<rparr>)]\<rparr>)]\<rparr>\<rparr>"

definition demo_clock :: dispatch_env where
  "demo_clock = \<lparr>dv_today = ''2026-07-01'', dv_time = (9 * 3600 + 300) * second, dv_now = 5000 * second,
     dv_condition = (\<lambda>_. False), dv_job_id = (\<lambda>n. replicate (Suc n) (CHR ''j''))\<rparr>"

definition demo_dispatch_state :: dispatch_state where
  "demo_dispatch_state = \<lparr>ds_world = \<lparr>files = [([''g''], Dir), ([''g'', ''logs''], Dir)], sched = [], busy = []\<rparr>,
     ds_mtime = (\<lambda>_. 0), ds_log = []\<rparr>"

definition demo_submit :: "job_request \<Rightarrow> job_handle fio" where
  "demo_submit q = ret \<lparr>jh_job_id = rq_job_id q, jh_status = ''queued'', jh_job_path = [], jh_worker_pid = None\<rparr>"

definition demo_cycle_keys :: "(string \<times> string \<times> string option) list" where
  "demo_cycle_keys = map entry_key (ds_log (snd (run_dispatch_cycle demo_clock demo_submit demo_schedule demo_dispatch_state)))"

lemma demo_cycle: "demo_cycle_keys = [(''ops'', ''a-b'', Some ''c''), (''ops'', ''a'', Some ''late'')]"
  by code_simp


text \<open>
  Two routines can share a marker: \<open>c\<close> of agent \<open>a-b\<close> and \<open>b-c\<close> of agent \<open>a\<close>. In the cycle above the
  first has just run, so the second, which has never run, is not due.
\<close>

lemma markers_collide: "every_marker logs_root ''a-b'' ''c'' = every_marker logs_root ''a'' ''b-c''"
  unfolding every_marker_def by code_simp

lemma shared_marker_starves:
  "(''ops'', ''a'', Some ''b-c'') \<notin> set demo_cycle_keys \<and> length demo_cycle_keys = 2"
  unfolding demo_cycle by simp

text \<open>The window of an \<open>at\<close> rule ends at midnight.\<close>

lemma at_window_ends_at_midnight:
  "\<not> check_at_rule (demo_clock\<lparr>dv_time := 300 * second\<rparr>) ''23:55'' 15 \<and>
   check_at_rule (demo_clock\<lparr>dv_time := (86399) * second\<rparr>) ''23:55'' 15"
  by code_simp

text \<open>
  The limit is compared with the logs of the workers, which do not exist yet when the next routine of the same cycle is
  considered: in the cycle above the daily limit is one and two jobs are submitted. An exception that is
  none of those named, such as \<open>ConfigConflictError\<close> or the \<open>KeyError\<close> of an integration that is not
  registered, ends the cycle for every later routine and group.
\<close>

lemma daily_limit_exceeded:
  "map (gc_daily_limit \<circ> snd) (ac_groups (cs_config demo_schedule)) = [1] \<and> length demo_cycle_keys = 2"
  unfolding demo_cycle by (simp add: demo_schedule_def)

definition demo_failing_submit :: "job_request \<Rightarrow> job_handle fio" where
  "demo_failing_submit q = (if rq_agent_name q = ''a-b'' then raise (Exn CKeyError ''unregistered'') else demo_submit q)"

lemma one_agent_stops_the_cycle:
  "ds_log (snd (run_dispatch_cycle demo_clock demo_failing_submit demo_schedule demo_dispatch_state)) = [] \<and>
   \<not> caught_by submission_errors (Exn CKeyError name) \<and> \<not> caught_by submission_errors (conflict text)"
proof -
  have "length (ds_log (snd (run_dispatch_cycle demo_clock demo_failing_submit demo_schedule demo_dispatch_state))) = 0" by code_simp
  then show ?thesis by (simp add: caught_by_def submission_errors_def is_subclass_def conflict_def)
qed

end
