(* ===== verification/Decisions.thy ===== *)
theory Decisions
  imports Submission
begin

text \<open>
  The status of a job in the decision file it was made from: \<open>_read_frontmatter\<close>,
  \<open>_write_frontmatter_atomic\<close> and \<open>project_decision\<close> of \<^verbatim>\<open>agency/jobs/execution.py\<close>. A decision file is a
  YAML mapping between two lines of dashes, and a text.
\<close>

section \<open>Front matter\<close>

text \<open>The universal newlines of \<open>Path.read_text\<close>.\<close>

fun universal_newlines :: "string \<Rightarrow> string" where
  "universal_newlines [] = []"
| "universal_newlines [c] = [if c = CHR 0x0D then CHR 0x0A else c]"
| "universal_newlines (c # d # s) =
     (if c = CHR 0x0D then CHR 0x0A # universal_newlines (if d = CHR 0x0A then s else d # s)
      else c # universal_newlines (d # s))"

definition skip_newlines :: "string \<Rightarrow> string" where
  "skip_newlines s = dropWhile (\<lambda>c. c = CHR 0x0D \<or> c = CHR 0x0A) s"

definition read_frontmatter :: "codec \<Rightarrow> path \<Rightarrow> (py \<times> string) fio" where
  "read_frontmatter Y p =
     bindI (read_text p) (\<lambda>raw.
       let text = universal_newlines raw in
       if \<not> startswith text ''---'' then ret (PDict [], text)
       else case split_once ''---'' (drop 3 text) of
         None \<Rightarrow> ret (PDict [], text)
       | Some (frontmatter, rest) \<Rightarrow>
           let body = skip_newlines rest in
           bindI (try_only [CYAMLError] (bindI (liftR (load Y (strip frontmatter))) (\<lambda>v. ret (por v (PDict []))))
                    (\<lambda>_. ret (PDict []))) (\<lambda>metadata.
             ret (metadata, body)))"

definition frontmatter_text :: "codec \<Rightarrow> (string \<times> py) list \<Rightarrow> string \<Rightarrow> string" where
  "frontmatter_text Y metadata body =
     ''---'' @ [CHR 0x0A] @ strip (dump Y (PDict metadata)) @ [CHR 0x0A] @ ''---'' @ [CHR 0x0A, CHR 0x0A] @ body"

definition write_frontmatter_atomic :: "codec \<Rightarrow> path \<Rightarrow> (string \<times> py) list \<Rightarrow> string \<Rightarrow> unit fio" where
  "write_frontmatter_atomic Y p metadata body = atomic_write_text p (frontmatter_text Y metadata body)"

section \<open>Projection\<close>

definition decision_path :: "py \<Rightarrow> path res" where
  "decision_path context =
     (case context of PDict c \<Rightarrow> bindR (dict_item c ''decision_path'') path_of_py
      | _ \<Rightarrow> Inl (type_error ''indices must be integers''))"

definition projected :: "job_record \<Rightarrow> (string \<times> py) list \<Rightarrow> (string \<times> py) list" where
  "projected r metadata = dict_update metadata
     [(''execution_status'', jr_status r), (''execution_agent'', js_agent_name (jr_spec r)),
      (''executed_by'', js_agent_name (jr_spec r)), (''execution_log'', jr_stdout_path r),
      (''changed_files'', jr_changed_files r), (''execution_summary'', jr_execution_summary r)]"

definition project_decision :: "codec \<Rightarrow> job_record \<Rightarrow> unit fio" where
  "project_decision Y r =
     (let context = js_trigger_context (jr_spec r) in
      if \<not> truthy context then ret ()
      else bindI (liftR (decision_path context)) (\<lambda>p.
        bindI (read_frontmatter Y p) (\<lambda>(metadata, body).
          case metadata of
            PDict d \<Rightarrow>
              if get d ''execution_job_id'' \<noteq> js_job_id (jr_spec r) then ret ()
              else write_frontmatter_atomic Y p (projected r d) body
          | _ \<Rightarrow> raise (Exn CAttributeError ''object has no attribute get''))))"

section \<open>Reading back what was written\<close>

text \<open>
  Text that survives between the dashes: it holds no row of three dashes and no carriage return, and the
  reader takes the value from it without the white space around it.
\<close>

definition plain_dump :: "codec \<Rightarrow> (string \<times> py) list \<Rightarrow> bool" where
  "plain_dump Y d \<longleftrightarrow> (let t = strip (dump Y (PDict d)) in
     \<not> contains t ''---'' \<and> CHR 0x0D \<notin> set t \<and> load Y t = Inr (PDict d))"

lemma universal_newlines_id: "CHR 0x0D \<notin> set s \<Longrightarrow> universal_newlines s = s"
  by (induction s rule: universal_newlines.induct) auto

lemma universal_newlines_no_cr: "CHR 0x0D \<notin> set (universal_newlines s)"
  by (induction s rule: universal_newlines.induct) auto

lemma split_once_dashes:
  assumes "split_once ''---'' t = None"
  shows "split_once ''---'' (t @ [CHR 0x0A] @ ''---'' @ rest) = Some (t @ [CHR 0x0A], rest)"
  using assms
proof (induction t)
  case Nil
  then show ?case by (simp add: startswith_def)
next
  case (Cons c t)
  from Cons.prems have s: "\<not> startswith (c # t) ''---''" "split_once ''---'' t = None" by (auto split: if_splits)
  then have "\<not> startswith ((c # t) @ [CHR 0x0A] @ ''---'' @ rest) ''---''"
    by (cases t; cases "tl t") (auto simp: startswith_def)
  with Cons.IH [OF s(2)] show ?case by simp
qed

lemma strip_newlines: "strip (CHR 0x0A # s @ [CHR 0x0A]) = strip s"
proof -
  have ws: "is_space (CHR 0x0A)" by (simp add: is_space_def)
  have r: "rstrip (t @ [CHR 0x0A]) = rstrip t" for t using ws by (simp add: rstrip_def)
  have "lstrip (s @ [CHR 0x0A]) = (if list_all is_space s then [] else lstrip s @ [CHR 0x0A])"
    using ws by (simp add: lstrip_def dropWhile_append list_all_iff)
  moreover have "list_all is_space s \<Longrightarrow> lstrip s = []" by (simp add: lstrip_def list_all_iff)
  moreover have "lstrip (CHR 0x0A # t) = lstrip t" for t using ws by (simp add: lstrip_def)
  ultimately show ?thesis using r [of "lstrip s"] by (cases "list_all is_space s") (simp_all add: strip_def)
qed

lemma strip_idem [simp]: "strip (strip s) = strip s"
proof -
  have r: "rstrip (rstrip t) = rstrip t" for t by (simp add: rstrip_def)
  have "lstrip (rstrip t) = rstrip t" if "lstrip t = t" for t
  proof (cases "rstrip t")
    case (Cons c u)
    have "t = rstrip t @ rev (takeWhile is_space (rev t))"
      unfolding rstrip_def by (metis rev_append rev_rev_ident takeWhile_dropWhile_id)
    with Cons have "t = c # u @ rev (takeWhile is_space (rev t))" by simp
    with that have "\<not> is_space c" by (metis lstrip_def dropWhile.simps(2) dropWhile_eq_self_iff list.sel(1) list.simps(3))
    with Cons show ?thesis by (simp add: lstrip_def)
  qed (simp add: lstrip_def)
  from this [of "lstrip s"] r show ?thesis by (simp add: strip_def lstrip_def)
qed

lemma skip_newlines_idem [simp]: "skip_newlines (skip_newlines s) = skip_newlines s"
  by (simp add: skip_newlines_def)

lemma skip_newlines_set: "c \<in> set (skip_newlines s) \<Longrightarrow> c \<in> set s"
  unfolding skip_newlines_def by (rule set_dropWhileD)

text \<open>The body of front matter has no leading newline and no carriage return.\<close>

lemma read_frontmatter_body:
  assumes "read_frontmatter Y p w = (Inr (v, body), w')" "v \<noteq> PDict []"
  shows "skip_newlines body = body" "CHR 0x0D \<notin> set body" "w' = w"
proof -
  from assms obtain raw fm rest where t: "read_text p w = (Inr raw, w)" "body = skip_newlines rest"
    "split_once ''---'' (drop 3 (universal_newlines raw)) = Some (fm, rest)" "w' = w"
    by (auto simp: read_frontmatter_def bindI_Inr_iff Let_def try_only_def tryI_apply bindI_apply dest: read_text_same
        split: if_splits option.splits sum.splits prod.splits)
  have "set rest \<subseteq> set u" if "split_once sep u = Some (a, rest)" for sep u a
    using that by (induction u arbitrary: a) (auto split: if_splits dest: in_set_dropD)
  with t(3) have "set rest \<subseteq> set (universal_newlines raw)" by (blast dest: in_set_dropD)
  with universal_newlines_no_cr [of raw] t(2) show "CHR 0x0D \<notin> set body" by (auto dest: skip_newlines_set)
  from t(2,4) show "skip_newlines body = body" "w' = w" by simp_all
qed

lemma read_frontmatter_written:
  assumes "plain_dump Y d" "skip_newlines body = body" "CHR 0x0D \<notin> set body"
    and "read_text p w = (Inr (frontmatter_text Y d body), w)"
  shows "read_frontmatter Y p w = (Inr (PDict d, body), w)"
proof -
  let ?t = "strip (dump Y (PDict d))"
  from assms(1) have t: "split_once ''---'' ?t = None" "CHR 0x0D \<notin> set ?t" "load Y ?t = Inr (PDict d)"
    by (simp_all add: plain_dump_def contains_def Let_def del: not_None_eq)
  have "split_once ''---'' (CHR 0x0A # ?t) = None" using t(1) by (simp add: startswith_def)
  from split_once_dashes [OF this, of "CHR 0x0A # CHR 0x0A # body"]
  have sp: "split_once ''---'' (CHR 0x0A # ?t @ CHR 0x0A # ''---'' @ CHR 0x0A # CHR 0x0A # body) =
      Some (CHR 0x0A # ?t @ [CHR 0x0A], CHR 0x0A # CHR 0x0A # body)" by simp
  have un: "universal_newlines (frontmatter_text Y d body) = frontmatter_text Y d body"
    by (rule universal_newlines_id) (use t(2) assms(3) in \<open>simp add: frontmatter_text_def\<close>)
  have dr: "drop 3 (frontmatter_text Y d body) = CHR 0x0A # ?t @ CHR 0x0A # ''---'' @ CHR 0x0A # CHR 0x0A # body"
    "startswith (frontmatter_text Y d body) ''---''"
    by (simp_all add: frontmatter_text_def startswith_def)
  have sk: "skip_newlines (CHR 0x0A # CHR 0x0A # body) = body"
    using assms(2) by (simp add: skip_newlines_def)
  show ?thesis
    unfolding read_frontmatter_def bindI_Inr [where m = "read_text p", OF assms(4)] un Let_def dr sp
    using dr(2) t(3) by (simp add: sk strip_newlines try_only_def tryI_apply bindI_apply)
qed

section \<open>What a projection changes\<close>

definition decision_fields :: "string list" where
  "decision_fields = [''execution_status'', ''execution_agent'', ''executed_by'', ''execution_log'', ''changed_files'',
     ''execution_summary'']"

lemma projected_get:
  "k \<notin> set decision_fields \<Longrightarrow> get (projected r d) k = get d k"
  "get (projected r d) ''execution_status'' = jr_status r"
  "get (projected r d) ''execution_summary'' = jr_execution_summary r"
  by (simp_all add: projected_def decision_fields_def get_def map_of_dict_update)

text \<open>
  C38 - A decision follows its job. A decision file that names another job is left alone. One that names this job is
  replaced atomically, whatever fails: it keeps its text and every field but the six that
  report the execution, and what was written is read back - so that the next projection
  finds the decision again - when the YAML text of the fields holds no row of three dashes.
\<close>

theorem decision_projection:
  assumes "job_place rt p w" "truthy (js_trigger_context (jr_spec r))" "decision_path (js_trigger_context (jr_spec r)) = Inr p"
    and "is_str (js_job_id (jr_spec r))" "read_frontmatter Y p w = (Inr (PDict d, body), w)"
    and "project_decision Y r w = (res, w')"
  shows "if get d ''execution_job_id'' \<noteq> js_job_id (jr_spec r) then res = Inr () \<and> w' = w
    else node_at (files w') p \<in> {node_at (files w) p, Some (File (utf8_encode (frontmatter_text Y (projected r d) body)))} \<and>
      (\<forall>q. q \<noteq> p \<and> q \<notin> temp_paths p \<longrightarrow> node_at (files w') q = node_at (files w) q) \<and>
      (\<forall>k. k \<notin> set decision_fields \<longrightarrow> get (projected r d) k = get d k) \<and>
      get (projected r d) ''execution_status'' = jr_status r \<and>
      (res = Inr () \<and> plain_dump Y (projected r d) \<longrightarrow>
         read_frontmatter Y p w' = (Inr (PDict (projected r d), body), w'))"
proof (cases "get d ''execution_job_id'' \<noteq> js_job_id (jr_spec r)")
  case True
  with assms(2,3,5,6) show ?thesis by (simp add: project_decision_def bindI_apply)
next
  case False
  with assms(4) have ne: "PDict d \<noteq> PDict []" by auto
  note bd = read_frontmatter_body [OF assms(5) ne]
  from False assms(2,3,5,6)
  have wr: "atomic_write_bytes p (utf8_encode (frontmatter_text Y (projected r d) body)) w = (res, w')"
    by (simp add: project_decision_def bindI_apply write_frontmatter_atomic_def atomic_write_text_def)
  note pl = assms(1) [unfolded job_place_def]
  note out = atomic_write_outcome [OF _ _ _ _ _ wr, of rt]
  have again: "read_frontmatter Y p w' = (Inr (PDict (projected r d), body), w')"
    if "res = Inr ()" "plain_dump Y (projected r d)"
  proof (rule read_frontmatter_written [OF that(2) bd(1,2)])
    from out pl that(1) have "clean rt (files w')" "node_at (files w') p = Some (File (utf8_encode (frontmatter_text Y (projected r d) body)))"
      by auto
    with read_bytes_clean pl show "read_text p w' = (Inr (frontmatter_text Y (projected r d) body), w')"
      by (simp add: read_text_def bindI_apply)
  qed
  from out pl False again show ?thesis by (auto simp: projected_get)
qed

section \<open>A decision file\<close>

definition demo_decision_job :: "string \<Rightarrow> job_record" where
  "demo_decision_job summary = (demo_record ''failed'')
     \<lparr>jr_spec := demo_spec\<lparr>js_trigger_context := PDict [(''decision_path'', PStr ''/d/x.md'')]\<rparr>,
      jr_execution_summary := PStr summary\<rparr>"

definition demo_metadata :: "(string \<times> py) list" where
  "demo_metadata = [(''title'', PStr ''t''), (''execution_job_id'', PStr ''j1'')]"

text \<open>A codec for the two documents below.\<close>

definition demo_yaml :: codec where
  "demo_yaml = \<lparr>
     dump = (\<lambda>v. case get (entries v) ''execution_summary'' of PStr s \<Rightarrow> s | _ \<Rightarrow> ''m''),
     load = (\<lambda>t. if t = ''m'' then Inr (PDict demo_metadata)
                 else if t = ''done'' then Inr (PDict (projected (demo_decision_job ''done'') demo_metadata))
                 else Inl (Exn CYAMLError t))\<rparr>"

definition demo_decision_world :: world where
  "demo_decision_world = \<lparr>files = [([''d''], Dir),
     ([''d'', ''x.md''], File (utf8_encode (frontmatter_text demo_yaml demo_metadata ''text'')))], sched = [], busy = []\<rparr>"

lemma demo_plain:
  "plain_dump demo_yaml demo_metadata" "plain_dump demo_yaml (projected (demo_decision_job ''done'') demo_metadata)"
  by (simp_all add: plain_dump_def contains_def demo_yaml_def projected_get demo_decision_job_def demo_metadata_def strip_def lstrip_def
      rstrip_def is_space_def startswith_def Let_def)

lemma demo_decision_read: "read_frontmatter demo_yaml [''d'', ''x.md''] demo_decision_world = (Inr (PDict demo_metadata, ''text''), demo_decision_world)"
proof (rule read_frontmatter_written [OF demo_plain(1)])
  show "skip_newlines ''text'' = ''text''" "CHR 0x0D \<notin> set ''text''" by (simp_all add: skip_newlines_def)
  have "stat_node (files demo_decision_world) [''d'', ''x.md''] = Some (File (utf8_encode (frontmatter_text demo_yaml demo_metadata ''text'')))"
    by (simp add: stat_node_def demo_decision_world_def resolve_def node_at_def)
  then show "read_text [''d'', ''x.md''] demo_decision_world = (Inr (frontmatter_text demo_yaml demo_metadata ''text''), demo_decision_world)"
    by (simp add: read_text_def read_bytes_def bindI_apply)
qed

lemma decision_projection_witness:
  "\<exists>w'. project_decision demo_yaml (demo_decision_job ''done'') demo_decision_world = (Inr (), w') \<and>
     read_frontmatter demo_yaml [''d'', ''x.md''] w' =
       (Inr (PDict (projected (demo_decision_job ''done'') demo_metadata), ''text''), w') \<and>
     get (projected (demo_decision_job ''done'') demo_metadata) ''title'' = PStr ''t''"
proof -
  let ?r = "demo_decision_job ''done''" and ?w = demo_decision_world and ?p = "[''d'', ''x.md'']"
  obtain res w' where run: "project_decision demo_yaml ?r ?w = (res, w')" by fastforce
  have "clean_check [''d''] (files ?w)" by (simp add: clean_check_def demo_decision_world_def node_at_def)
  then have c: "clean [''d''] (files ?w)" by (rule clean_checkI)
  then have pl: "job_place [''d''] ?p ?w"
    by (simp add: job_place_def below_def strict_prefix_def demo_decision_world_def node_at_def)
  have ctx: "truthy (js_trigger_context (jr_spec ?r))" "decision_path (js_trigger_context (jr_spec ?r)) = Inr ?p"
    by (simp add: demo_decision_job_def) code_simp
  have id: "js_job_id (jr_spec ?r) = PStr ''j1''" "is_str (js_job_id (jr_spec ?r))"
    by (simp_all add: demo_decision_job_def demo_spec_def)
  have m: "get demo_metadata ''execution_job_id'' = PStr ''j1''" "get demo_metadata ''title'' = PStr ''t''"
    by (simp_all add: demo_metadata_def)
  note t = decision_projection [OF pl ctx id(2) demo_decision_read run, unfolded id(1) m(1)]
  have "res = Inr ()"
  proof -
    from run demo_decision_read ctx id m
    have "atomic_write_bytes ?p (utf8_encode (frontmatter_text demo_yaml (projected ?r demo_metadata) ''text'')) ?w = (res, w')"
      by (simp add: project_decision_def bindI_apply write_frontmatter_atomic_def atomic_write_text_def)
    from atomic_write_outcome [OF c _ _ _ _ this] show ?thesis
      by (simp add: below_def strict_prefix_def demo_decision_world_def node_at_def)
  qed
  with t run demo_plain(2) m(2) show ?thesis by (auto simp: decision_fields_def)
qed

text \<open>
  A row of dashes in a value - in the summary or in the path of a changed file - cuts the fields there: when the rest
  is not a document, the file is read as one without fields, so no later projection finds its decision.
\<close>

lemma split_once_append: "split_once sep s = Some (a, b) \<Longrightarrow> split_once sep (s @ t) = Some (a, b @ t)"
proof (induction s arbitrary: a)
  case Nil
  then show ?case by (cases t) (auto simp: startswith_def split: if_splits)
next
  case (Cons c s)
  show ?case
  proof (cases "startswith (c # s) sep")
    case True
    then have "length sep \<le> length (c # s)" by (metis length_take min.cobounded1 startswith_def)
    moreover from True this have "startswith (c # s @ t) sep" by (cases sep) (auto simp: startswith_def)
    ultimately show ?thesis using True Cons.prems by (cases sep) auto
  next
    case False
    with Cons.prems obtain a' where a: "split_once sep s = Some (a', b)" "a = c # a'" by auto
    have "\<not> startswith (c # s @ t) sep" if "length sep \<le> length (c # s)"
      using that False by (cases sep) (auto simp: startswith_def)
    moreover have "length sep \<le> length (c # s)"
    proof -
      have "length sep \<le> length u" if "split_once sep u = Some (x, y)" for u x y
        using that by (induction u arbitrary: x) (auto simp: startswith_def split: if_splits dest!: arg_cong [of _ _ length])
      from this [OF a(1)] show ?thesis by simp
    qed
    ultimately show ?thesis using Cons.IH [OF a(1)] False a(2) by simp
  qed
qed

lemma dashes_lose_the_decision:
  assumes "split_once ''---'' (strip (dump Y (PDict d))) = Some (a, b)" "load Y (strip (CHR 0x0A # a)) = Inl (Exn CYAMLError m)"
    and "CHR 0x0D \<notin> set (strip (dump Y (PDict d)))" "CHR 0x0D \<notin> set body"
    and "read_text p w = (Inr (frontmatter_text Y d body), w)"
  shows "\<exists>body'. read_frontmatter Y p w = (Inr (PDict [], body'), w)"
proof -
  let ?t = "strip (dump Y (PDict d))"
  have "split_once ''---'' (CHR 0x0A # ?t) = Some (CHR 0x0A # a, b)" using assms(1) by (simp add: startswith_def)
  from split_once_append [OF this, of "[CHR 0x0A] @ ''---'' @ [CHR 0x0A, CHR 0x0A] @ body"]
  have sp: "split_once ''---'' (drop 3 (frontmatter_text Y d body)) = Some (CHR 0x0A # a, b @ [CHR 0x0A] @ ''---'' @ [CHR 0x0A, CHR 0x0A] @ body)"
    "startswith (frontmatter_text Y d body) ''---''"
    by (simp_all add: frontmatter_text_def startswith_def)
  have un: "universal_newlines (frontmatter_text Y d body) = frontmatter_text Y d body"
    by (rule universal_newlines_id) (use assms(3,4) in \<open>simp add: frontmatter_text_def\<close>)
  show ?thesis
    unfolding read_frontmatter_def bindI_Inr [where m = "read_text p", OF assms(5)] un Let_def
    using sp assms(2) by (simp add: try_only_def tryI_apply bindI_apply caught_by_def)
qed

end
