(* ===== verification/Artifacts.thy ===== *)
theory Artifacts
  imports MemoryStore
begin

text \<open>
  \<^verbatim>\<open>agency/jobs/artifacts.py\<close>: what a failed job leaves for inspection. The checks are those of the
  memory store with errors of their own.
\<close>

record job_artifact =
  ja_name :: string
  ja_path :: string
  ja_size :: int

definition artifact_to_dict :: "job_artifact \<Rightarrow> (string \<times> py) list" where
  "artifact_to_dict a =
     [(''name'', PStr (ja_name a)), (''path'', PStr (ja_path a)), (''size'', PInt (ja_size a))]"

definition artifact_error :: "string \<Rightarrow> exn" where
  "artifact_error text = Exn CValueError text"

text \<open>\<open>Path.name\<close>: empty for the root.\<close>

definition name_of :: "path \<Rightarrow> string" where
  "name_of p = (if p = [] then [] else last p)"

definition artifact_job_store :: "path \<Rightarrow> path fio" where
  "artifact_job_store candidate =
     bindI (see (\<lambda>fs. (is_link (lstat_node fs candidate), resolve fs candidate, is_dir fs candidate)))
       (\<lambda>(link, resolved, directory).
         thenI (assertI (\<not> link) (artifact_error ''job store is unsafe''))
         (thenI (assertI (name_of (butlast candidate) = ''.jobs'')
                   (artifact_error ''job store must be a canonical .jobs/<group> directory''))
         (thenI (assertI (name_of (butlast resolved) = ''.jobs'')
                   (artifact_error ''job store must be a canonical .jobs/<group> directory''))
         (thenI (assertI directory (artifact_error ''job store must be an existing directory''))
           (ret resolved)))))"

definition artifact_job_id :: "memory_env \<Rightarrow> string \<Rightarrow> string res" where
  "artifact_job_id E job_id =
     (let unsafe = artifact_error ''job id must be one safe filename segment'' in
      bindR (assertR (job_id \<notin> {[], ''.'', ''..''}) unsafe) (\<lambda>_.
      bindR (assertR (\<not> endswith job_id '' '' \<and> \<not> endswith job_id ''.'')
               (artifact_error ''job id must not have trailing dot or space'')) (\<lambda>_.
      bindR (assertR (CHR ''/'' \<notin> set job_id \<and> CHR 0x5C \<notin> set job_id) unsafe) (\<lambda>_.
      bindR (assertR (path_name job_id = job_id) unsafe) (\<lambda>_.
      bindR (assertR (me_nfkc E job_id = job_id)
               (artifact_error ''job id must not be ambiguous under Unicode normalization'')) (\<lambda>_.
      bindR (assertR (me_casefold E job_id = job_id)
               (artifact_error ''job id must not be ambiguous under case normalization'')) (\<lambda>_.
      bindR (assertR (me_upper E (path_stem job_id) \<notin> set windows_reserved_names)
               (artifact_error ''job id uses a reserved Windows basename'')) (\<lambda>_.
        Inr job_id))))))))"

definition validate_stage_filename :: "memory_env \<Rightarrow> string \<Rightarrow> unit res" where
  "validate_stage_filename E name =
     bindR (assertR (path_name name = name \<and> name \<notin> {[], ''.'', ''..''})
              (name_error ''artifacts filename must be direct: '' name)) (\<lambda>_.
     bindR (assertR (\<not> startswith name ''.'')
              (name_error ''artifacts filename must not be hidden infrastructure: '' name)) (\<lambda>_.
     bindR (assertR (\<not> endswith name '' '' \<and> \<not> endswith name ''.'')
              (name_error ''artifacts filename has trailing ambiguity: '' name)) (\<lambda>_.
     bindR (assertR (CHR ''/'' \<notin> set name \<and> CHR 0x5C \<notin> set name)
              (name_error ''artifacts filename must be direct: '' name)) (\<lambda>_.
       assertR (me_upper E (path_stem name) \<notin> set windows_reserved_names)
              (name_error ''artifacts filename uses reserved name: '' name)))))"

definition artifact_actual_directory :: "path \<Rightarrow> string \<Rightarrow> path fio" where
  "artifact_actual_directory p label =
     bindI (see (\<lambda>fs. lstat_node fs p)) (\<lambda>n. case n of
          None \<Rightarrow> raise (artifact_error (''missing '' @ label @ '' directory: '' @ path_str p))
        | Some (Link _) \<Rightarrow> raise (artifact_error (''unsafe '' @ label @ '' directory: '' @ path_str p))
        | Some Dir \<Rightarrow> ret p
        | Some _ \<Rightarrow> raise (artifact_error (label @ '' path is not a directory: '' @ path_str p)))"

definition artifact_child_directory :: "path \<Rightarrow> string \<Rightarrow> string \<Rightarrow> path fio" where
  "artifact_child_directory parent name label =
     (let child = parent @ [name] in
      bindI (see (\<lambda>fs. lstat_node fs child = None)) (\<lambda>absent.
        thenI (whenI absent (os_mkdir child)) (artifact_actual_directory child label)))"

text \<open>The first argument bounds the depth, as in \<^const>\<open>safe_rmtree\<close>.\<close>

fun artifact_rmtree :: "nat \<Rightarrow> path \<Rightarrow> string \<Rightarrow> unit fio" where
  "artifact_rmtree 0 p label = raise (Exn CRuntimeError ''maximum recursion depth exceeded'')"
| "artifact_rmtree (Suc n) p label =
     thenI (artifact_actual_directory p label)
       (bindI (iterdir p) (\<lambda>names.
         thenI (forI (\<lambda>name.
             bindI (see (\<lambda>fs. lstat_node fs (p @ [name]))) (\<lambda>entry.
               if is_link entry then raise (artifact_error (''unsafe '' @ label @ '' entry: '' @ path_str (p @ [name])))
               else if entry = Some Dir then artifact_rmtree n (p @ [name]) label
               else unlink (p @ [name]))) names)
           (rmdir p)))"

fun stage_entries :: "memory_env \<Rightarrow> path \<Rightarrow> string list \<Rightarrow> memory_files fio" where
  "stage_entries E d [] = ret []"
| "stage_entries E d (n # ns) =
     bindI (see (\<lambda>fs. (is_link (lstat_node fs (d @ [n])), is_file fs (d @ [n])))) (\<lambda>(link, regular).
     thenI (assertI (\<not> link) (name_error ''artifacts contain symlink or reparse point: '' n))
     (thenI (assertI regular (name_error ''artifacts contain nested or non-file entry: '' n))
     (thenI (liftR (validate_stage_filename E n))
     (thenI (assertI (path_suffix n = ''.md'') (name_error ''artifacts contain non-markdown file: '' n))
     (bindI (read_bytes (d @ [n])) (\<lambda>b.
     bindI (stage_entries E d ns) (\<lambda>rest. ret ((n, b) # rest))))))))"

definition read_stage_files :: "memory_env \<Rightarrow> path \<Rightarrow> memory_files fio" where
  "read_stage_files E d = bindI (iterdir d) (\<lambda>names. stage_entries E d (sort_key (me_casefold E) names))"

definition store_artifact :: "path \<Rightarrow> string \<times> bytes \<Rightarrow> job_artifact fio" where
  "store_artifact target f =
     (case f of (name, payload) \<Rightarrow>
        thenI (atomic_write_bytes (target @ [name]) payload)
          (see (\<lambda>fs. \<lparr>ja_name = name, ja_path = path_str (resolve fs (target @ [name])), ja_size = int (length payload)\<rparr>)))"

definition retain_failed_stage ::
  "memory_env \<Rightarrow> path \<Rightarrow> string \<Rightarrow> path \<Rightarrow> bytes option \<Rightarrow> job_artifact list fio" where
  "retain_failed_stage E job_store job_id stage_directory diff_bytes =
     bindI (artifact_job_store job_store) (\<lambda>store.
     bindI (liftR (artifact_job_id E job_id)) (\<lambda>safe.
     bindI (artifact_child_directory store ''artifacts'' ''artifacts'') (\<lambda>artifacts_root.
     let target = artifacts_root @ [safe] in
     bindI (see (\<lambda>fs. (path_exists fs target, length fs))) (\<lambda>(there, n).
     thenI (whenI there (artifact_rmtree (Suc n) target ''artifacts''))
     (bindI (artifact_child_directory artifacts_root safe ''artifacts'') (\<lambda>target.
     bindI (artifact_actual_directory stage_directory ''artifacts'') (\<lambda>stage_root.
     bindI (read_stage_files E stage_root) (\<lambda>fl.
     bindI (mapI (store_artifact target) fl) (\<lambda>artifacts.
     case diff_bytes of None \<Rightarrow> ret artifacts
     | Some diff \<Rightarrow> bindI (store_artifact target (''memory.diff'', diff)) (\<lambda>a. ret (artifacts @ [a])))))))))))"

end
