(* ===== verification/Publication.thy ===== *)
theory Publication
  imports Artifacts JobStore
begin

text \<open>
  \<^verbatim>\<open>agency/memory/publication.py\<close>: the transaction that puts the files of a stage in the place of
  those of a memory. A journal names the phase it has reached, a backup holds the old files until
  it is over.

  The clock, the fresh identifiers and the diff text (\<open>difflib.unified_diff\<close>) are fields of
  \<open>publication_env\<close>; the diff is written out for the reader only.
\<close>

record publication_env =
  pe_memory :: memory_env
  pe_clock :: "world \<Rightarrow> string"
  pe_uuid :: "world \<Rightarrow> string"
  pe_diff :: "memory_files \<Rightarrow> memory_files \<Rightarrow> bytes"

section \<open>Records\<close>

datatype transaction_kind = JobKind | DirectSave

record memory_transaction =
  tx_kind :: transaction_kind
  tx_operation_id :: string
  tx_resolved :: resolved_memory
  tx_old_revision :: string
  tx_new_revision :: string
  tx_old_files :: memory_files
  tx_new_files :: memory_files
  tx_stage_directory :: path
  tx_journal_path :: path
  tx_backup_path :: path
  tx_selector :: "(string \<times> py) list"
  tx_memory_hash :: string
  tx_no_change :: bool
  tx_job_store :: "path option"
  tx_job_path :: "path option"
  tx_diff_bytes :: bytes

record prepared_publication =
  pp_stage :: memory_stage
  pp_job_store :: path
  pp_job_path :: path
  pp_selector :: "(string \<times> py) list"
  pp_memory_hash :: string
  pp_old_revision :: string
  pp_new_revision :: string
  pp_old_files :: memory_files
  pp_new_files :: memory_files
  pp_diff_bytes :: bytes
  pp_journal_path :: path
  pp_backup_path :: path
  pp_no_change :: bool

record applied_publication =
  ap_prepared :: prepared_publication
  ap_published_at :: string
  ap_diff_artifact :: "job_artifact option"

record memory_publication_receipt =
  mp_selector :: "(string \<times> py) list"
  mp_memory_hash :: string
  mp_old_revision :: string
  mp_new_revision :: string
  mp_diff_artifact :: "job_artifact option"
  mp_published_at :: string
  mp_no_change :: bool

definition publication_error :: "string \<Rightarrow> exn" where
  "publication_error text = Exn CMemoryPublicationError text"

definition publication_conflict :: "string \<Rightarrow> string \<Rightarrow> string \<Rightarrow> exn" where
  "publication_conflict reason expected current =
     Exn CMemoryPublicationConflictError (''stale-stage publication conflict: '' @ reason @
       '' (expected '' @ expected @ '', found '' @ current @ '')'')"

text \<open>\<open>selector.model_dump(exclude_none=True)\<close>\<close>

definition selector_dict :: "memory_selector \<Rightarrow> (string \<times> py) list" where
  "selector_dict s =
     (''scope'', PStr (ms_scope s)) # (case ms_channel s of None \<Rightarrow> [] | Some c \<Rightarrow> [(''channel'', PStr c)])"

text \<open>Two dictionaries are equal when they have the same entries.\<close>

definition same_files :: "memory_files \<Rightarrow> memory_files \<Rightarrow> bool" where
  "same_files a b \<longleftrightarrow> set a = set b"

section \<open>Paths\<close>

definition validate_job_store :: "path \<Rightarrow> path fio" where
  "validate_job_store candidate =
     bindI (see (\<lambda>fs. (is_link (lstat_node fs candidate), resolve fs candidate, is_dir fs candidate)))
       (\<lambda>(link, resolved, directory).
         thenI (assertI (\<not> link) (publication_error ''job store is unsafe''))
         (thenI (assertI (name_of (butlast candidate) = ''.jobs'')
                   (publication_error ''job store must be a canonical .jobs/<group> directory''))
         (thenI (assertI (name_of (butlast resolved) = ''.jobs'')
                   (publication_error ''job store must be a canonical .jobs/<group> directory''))
         (thenI (assertI directory (publication_error ''job store must be an existing directory''))
           (ret resolved)))))"

definition publication_job_path :: "memory_env \<Rightarrow> path \<Rightarrow> string \<Rightarrow> path fio" where
  "publication_job_path E job_store expected_job_id =
     bindI (liftR (validate_job_id E expected_job_id)) (\<lambda>safe.
     let candidate = job_path job_store safe in
     bindI (see (\<lambda>fs. (is_link (lstat_node fs candidate), resolve fs (butlast candidate) = resolve fs job_store,
                       is_file fs candidate))) (\<lambda>(link, inside, regular).
       thenI (assertI (\<not> link) (publication_error ''job path is unsafe''))
       (thenI (assertI inside (publication_error ''job path escapes job store''))
       (thenI (assertI regular (publication_error ''job path must be a direct file in job store''))
         (ret candidate)))))"

text \<open>Where an operation keeps its journal, its backup and its stage.\<close>

definition operation_path :: "memory_env \<Rightarrow> string \<Rightarrow> string \<Rightarrow> string \<Rightarrow> path \<Rightarrow> string \<Rightarrow> string \<Rightarrow> path fio" where
  "operation_path E area label ending rt memory_hash operation_id =
     thenI (liftR (validate_memory_hash memory_hash))
       (bindI (liftR (validate_job_id E operation_id)) (\<lambda>safe.
        bindI (ensure_infrastructure_directory rt [area, memory_hash] label) (\<lambda>d.
          ret (d @ [safe @ ending]))))"

definition publication_journal_path :: "memory_env \<Rightarrow> path \<Rightarrow> string \<Rightarrow> string \<Rightarrow> path fio" where
  "publication_journal_path E rt h operation_id = operation_path E ''.journals'' ''journal'' ''.yaml'' rt h operation_id"

definition publication_backup_path :: "memory_env \<Rightarrow> path \<Rightarrow> string \<Rightarrow> string \<Rightarrow> path fio" where
  "publication_backup_path E rt h operation_id = operation_path E ''.publication-backups'' ''backup'' [] rt h operation_id"

definition publication_stage_directory :: "memory_env \<Rightarrow> path \<Rightarrow> string \<Rightarrow> string \<Rightarrow> path fio" where
  "publication_stage_directory E rt h operation_id = operation_path E ''.staging'' ''staging'' [] rt h operation_id"

section \<open>Journal, backup, clean-up\<close>

definition journal_payload :: "memory_transaction \<Rightarrow> string \<Rightarrow> (string \<times> py) list" where
  "journal_payload op phase =
     [(''kind'', PStr (case tx_kind op of JobKind \<Rightarrow> ''job'' | DirectSave \<Rightarrow> ''direct-save'')),
      (''operation_id'', PStr (tx_operation_id op)),
      (''selector'', PDict (tx_selector op)),
      (''canonical_json'', PStr (rm_canonical_json (tx_resolved op))),
      (''memory_hash'', PStr (tx_memory_hash op)),
      (''old_revision'', PStr (tx_old_revision op)),
      (''new_revision'', PStr (tx_new_revision op)),
      (''stage_directory'', PStr (name_of (tx_stage_directory op))),
      (''backup_directory'', PStr (name_of (tx_backup_path op))),
      (''phase'', PStr phase),
      (''no_change'', PBool (tx_no_change op))] @
     (if tx_kind op = JobKind then [(''job_id'', PStr (tx_operation_id op))] else [])"

definition write_transaction_journal :: "publication_env \<Rightarrow> memory_transaction \<Rightarrow> string \<Rightarrow> unit fio" where
  "write_transaction_journal P op phase =
     atomic_write_text (tx_journal_path op) (dump (me_yaml (pe_memory P)) (PDict (journal_payload op phase)))"

definition write_backup :: "path \<Rightarrow> memory_files \<Rightarrow> unit fio" where
  "write_backup p fl =
     bindI (see (\<lambda>fs. path_exists fs p)) (\<lambda>there.
     thenI (whenI there (rmtree p ''backup'' False))
       (bindI (ensure_child_directory (butlast p) (name_of p) ''backup'') (\<lambda>p. write_files p fl)))"

definition cleanup_paths :: "path \<Rightarrow> path \<Rightarrow> path \<Rightarrow> unit fio" where
  "cleanup_paths journal backup stage =
     bindI (see (\<lambda>fs. path_exists fs journal)) (\<lambda>j.
     thenI (whenI j (unlink journal))
       (bindI (see (\<lambda>fs. path_exists fs backup)) (\<lambda>b.
        thenI (whenI b (rmtree backup ''backup'' False))
          (bindI (see (\<lambda>fs. path_exists fs stage)) (\<lambda>s.
             whenI s (rmtree stage ''staging'' False))))))"

section \<open>The job\<close>

definition receipt_to_dict :: "memory_publication_receipt \<Rightarrow> (string \<times> py) list" where
  "receipt_to_dict r =
     [(''selector'', PDict (mp_selector r)), (''memory_hash'', PStr (mp_memory_hash r)),
      (''old_revision'', PStr (mp_old_revision r)), (''new_revision'', PStr (mp_new_revision r)),
      (''diff_artifact'', case mp_diff_artifact r of None \<Rightarrow> PNone | Some a \<Rightarrow> PDict (artifact_to_dict a)),
      (''published_at'', PStr (mp_published_at r)), (''no_change'', PBool (mp_no_change r))]"

text \<open>A job that has the status already is fine.\<close>

definition finish_job :: "publication_env \<Rightarrow> path \<Rightarrow> string \<Rightarrow> (string \<times> py) list \<Rightarrow> unit fio" where
  "finish_job P p status changes =
     (let Y = me_yaml (pe_memory P); H = me_hash (pe_memory P) in
      try_only [CInvalidJobTransition]
        (bindI (gets_st (pe_clock P)) (\<lambda>now.
         bindI (transition_job Y H p ''running'' status ((''completed_at'', PStr now) # changes)) (\<lambda>_. ret ())))
        (\<lambda>e. bindI (read_job Y H p None) (\<lambda>r. if jr_status r = PStr status then ret () else raise e)))"

definition mark_complete :: "publication_env \<Rightarrow> path \<Rightarrow> memory_publication_receipt \<Rightarrow> unit fio" where
  "mark_complete P p receipt = finish_job P p ''complete'' [(''memory_publication'', PDict (receipt_to_dict receipt))]"

definition mark_failed :: "publication_env \<Rightarrow> path \<Rightarrow> string \<Rightarrow> unit fio" where
  "mark_failed P p summary = finish_job P p ''failed'' [(''execution_summary'', PStr summary)]"

section \<open>The transaction\<close>

definition transaction_checkpoint :: "memory_transaction \<Rightarrow> string \<Rightarrow> unit fio" where
  "transaction_checkpoint op phase = ret ()"

text \<open>\<open>crash_at\<close> and \<open>fail_after_publish\<close> are switches for tests.\<close>

definition crash_point :: "memory_transaction \<Rightarrow> string option \<Rightarrow> string \<Rightarrow> unit fio" where
  "crash_point op crash_at phase =
     thenI (transaction_checkpoint op phase)
       (assertI (crash_at \<noteq> Some phase) (Exn CPublicationCrash (''simulated crash at '' @ phase)))"

definition publish_tail :: "publication_env \<Rightarrow> memory_transaction \<Rightarrow> string option \<Rightarrow> bool \<Rightarrow> unit fio" where
  "publish_tail P op crash_at fail_after =
     thenI (write_transaction_journal P op ''published'')
       (thenI (crash_point op crash_at ''published'')
         (assertI (\<not> fail_after) (Exn COSError ''simulated publication failure'')))"

definition run_transaction_locked :: "publication_env \<Rightarrow> memory_transaction \<Rightarrow> string option \<Rightarrow> bool \<Rightarrow> unit fio" where
  "run_transaction_locked P op crash_at fail_after =
     (let E = pe_memory P in
      bindI (canonical_directory (tx_resolved op)) (\<lambda>d.
      bindI (read_canonical_files E d) (\<lambda>current.
      thenI (assertI (memory_content_revision E current = tx_old_revision op)
               (publication_conflict ''base revision changed before apply'' (tx_old_revision op)
                  (memory_content_revision E current)))
      (thenI (write_transaction_journal P op ''prepared'')
      (thenI (crash_point op crash_at ''prepared'')
        (if tx_no_change op then publish_tail P op crash_at fail_after
         else thenI (write_backup (tx_backup_path op) (tx_old_files op))
             (thenI (write_transaction_journal P op ''backed_up'')
             (thenI (crash_point op crash_at ''backed_up'')
             (thenI (bindI (canonical_directory (tx_resolved op)) (\<lambda>d. replace_canonical_files d (tx_new_files op)))
             (thenI (crash_point op crash_at ''after_replace'')
               (publish_tail P op crash_at fail_after)))))))))))"

definition under_lock :: "resolved_memory \<Rightarrow> lock_lease option \<Rightarrow> 'a fio \<Rightarrow> 'a fio" where
  "under_lock r lease m =
     (case lease of Some _ \<Rightarrow> m
      | None \<Rightarrow> bindI (memory_lock_path r) (\<lambda>p. exclusive_lock p True False m))"

definition rollback_failed_transaction ::
  "publication_env \<Rightarrow> memory_transaction \<Rightarrow> exn \<Rightarrow> lock_lease option \<Rightarrow> bool \<Rightarrow> unit fio" where
  "rollback_failed_transaction P op e lease retain =
     thenI (under_lock (tx_resolved op) lease
              (bindI (canonical_directory (tx_resolved op)) (\<lambda>d. replace_canonical_files d (tx_old_files op))))
       (thenI (case tx_job_store op of
                 Some store \<Rightarrow>
                   if retain
                   then bindI (retain_failed_stage (pe_memory P) store (tx_operation_id op) (tx_stage_directory op)
                                 (Some (tx_diff_bytes op))) (\<lambda>_. ret ())
                   else ret ()
               | None \<Rightarrow> ret ())
       (thenI (case tx_job_path op of
                 Some p \<Rightarrow> mark_failed P p (''Memory publication failed: '' @ exn_text e)
               | None \<Rightarrow> ret ())
         (cleanup_paths (tx_journal_path op) (tx_backup_path op) (tx_stage_directory op))))"

section \<open>Publishing the stage of a job\<close>

definition prepare_publication ::
  "publication_env \<Rightarrow> memory_stage \<Rightarrow> path \<Rightarrow> path option \<Rightarrow> lock_lease option \<Rightarrow> prepared_publication fio" where
  "prepare_publication P stage job_store given_path lease =
     (let E = pe_memory P; r = mt_resolved stage in
      tryI
       (thenI (liftR (validate_resolved_memory r None))
       (thenI (case lease of Some l \<Rightarrow> validate_lock_lease l r | None \<Rightarrow> ret ())
       (bindI (validate_job_store job_store) (\<lambda>store.
        bindI (publication_job_path E store (mt_job_id stage)) (\<lambda>jp.
        bindI (see (\<lambda>fs. list_all (\<lambda>p. resolve fs p = resolve fs jp) (case given_path of Some p \<Rightarrow> [p] | None \<Rightarrow> []))) (\<lambda>same.
        thenI (assertI same (publication_error ''job path must match the canonical file in job store''))
        (bindI (bindI (canonical_directory r) (read_canonical_files E)) (\<lambda>old.
         let old_revision = memory_content_revision E old in
         thenI (assertI (old_revision = mt_base_revision stage)
                  (publication_conflict ''base revision changed before prepare'' (mt_base_revision stage) old_revision))
         (bindI (read_canonical_files E (mt_directory stage)) (\<lambda>new.
         thenI (assertI (new \<noteq> []) (publication_error ''memory stage must contain at least one markdown file''))
         (let rt = store_root r in
          bindI (publication_journal_path E rt (rm_hash r) (mt_job_id stage)) (\<lambda>journal.
          bindI (publication_backup_path E rt (rm_hash r) (mt_job_id stage)) (\<lambda>backup.
            ret \<lparr>pp_stage = stage, pp_job_store = store, pp_job_path = jp, pp_selector = selector_dict (rm_selector r),
                 pp_memory_hash = rm_hash r, pp_old_revision = old_revision,
                 pp_new_revision = memory_content_revision E new, pp_old_files = old, pp_new_files = new,
                 pp_diff_bytes = pe_diff P old new, pp_journal_path = journal, pp_backup_path = backup,
                 pp_no_change = same_files old new\<rparr>)))))))))))))
       (\<lambda>e. raise (if caught_by [CMemoryPublicationError] e then e else publication_error (exn_text e))))"

definition job_transaction :: "prepared_publication \<Rightarrow> memory_transaction" where
  "job_transaction p =
     \<lparr>tx_kind = JobKind, tx_operation_id = mt_job_id (pp_stage p), tx_resolved = mt_resolved (pp_stage p),
      tx_old_revision = pp_old_revision p, tx_new_revision = pp_new_revision p,
      tx_old_files = pp_old_files p, tx_new_files = pp_new_files p,
      tx_stage_directory = mt_directory (pp_stage p), tx_journal_path = pp_journal_path p,
      tx_backup_path = pp_backup_path p, tx_selector = pp_selector p, tx_memory_hash = pp_memory_hash p,
      tx_no_change = pp_no_change p, tx_job_store = Some (pp_job_store p), tx_job_path = Some (pp_job_path p),
      tx_diff_bytes = pp_diff_bytes p\<rparr>"

definition apply_publication ::
  "publication_env \<Rightarrow> prepared_publication \<Rightarrow> string option \<Rightarrow> bool \<Rightarrow> bool \<Rightarrow> lock_lease option \<Rightarrow> applied_publication fio" where
  "apply_publication P prepared crash_at fail_after retain lease =
     (let op = job_transaction prepared in
      tryI
        (thenI (case lease of Some l \<Rightarrow> validate_lock_lease l (tx_resolved op) | None \<Rightarrow> ret ())
        (thenI (under_lock (tx_resolved op) lease (run_transaction_locked P op crash_at fail_after))
        (bindI (gets_st (pe_clock P)) (\<lambda>now.
           ret \<lparr>ap_prepared = prepared, ap_published_at = now, ap_diff_artifact = None\<rparr>))))
        (\<lambda>e. if caught_by [CMemoryPublicationConflictError, CPublicationCrash] e then raise e
             else thenI (rollback_failed_transaction P op e lease retain) (raise (publication_error (exn_text e)))))"

definition publication_receipt :: "applied_publication \<Rightarrow> memory_publication_receipt" where
  "publication_receipt a =
     (let p = ap_prepared a in
      \<lparr>mp_selector = pp_selector p, mp_memory_hash = pp_memory_hash p, mp_old_revision = pp_old_revision p,
       mp_new_revision = pp_new_revision p, mp_diff_artifact = ap_diff_artifact a,
       mp_published_at = ap_published_at a, mp_no_change = pp_no_change p\<rparr>)"

definition finalize_publication :: "publication_env \<Rightarrow> applied_publication \<Rightarrow> memory_publication_receipt fio" where
  "finalize_publication P a =
     (let p = ap_prepared a; receipt = publication_receipt a in
      thenI (mark_complete P (pp_job_path p) receipt)
      (thenI (cleanup_paths (pp_journal_path p) (pp_backup_path p) (mt_directory (pp_stage p)))
        (ret receipt)))"

section \<open>Saving directly\<close>

definition prepare_direct_transaction ::
  "publication_env \<Rightarrow> resolved_memory \<Rightarrow> memory_files \<Rightarrow> memory_files \<Rightarrow> memory_transaction fio" where
  "prepare_direct_transaction P r old new =
     (let E = pe_memory P; rt = store_root r; h = rm_hash r in
      bindI (gets_st (\<lambda>w. ''direct-save-'' @ pe_uuid P w)) (\<lambda>operation_id.
      bindI (publication_stage_directory E rt h operation_id) (\<lambda>stage.
      bindI (see (\<lambda>fs. path_exists fs stage)) (\<lambda>there.
      thenI (whenI there (rmtree stage ''staging'' False))
      (bindI (ensure_child_directory (butlast stage) (name_of stage) ''staging'') (\<lambda>stage.
      thenI (write_files stage new)
      (bindI (publication_journal_path E rt h operation_id) (\<lambda>journal.
       bindI (publication_backup_path E rt h operation_id) (\<lambda>backup.
         ret \<lparr>tx_kind = DirectSave, tx_operation_id = operation_id, tx_resolved = r,
              tx_old_revision = memory_content_revision E old, tx_new_revision = memory_content_revision E new,
              tx_old_files = old, tx_new_files = new, tx_stage_directory = stage,
              tx_journal_path = journal, tx_backup_path = backup, tx_selector = selector_dict (rm_selector r),
              tx_memory_hash = h, tx_no_change = same_files old new, tx_job_store = None, tx_job_path = None,
              tx_diff_bytes = []\<rparr>)))))))))"

definition save_direct_locked ::
  "publication_env \<Rightarrow> resolved_memory \<Rightarrow> memory_snapshot \<Rightarrow> memory_files \<Rightarrow> lock_lease \<Rightarrow> memory_snapshot fio" where
  "save_direct_locked P r current new lease =
     thenI (validate_lock_lease lease r)
       (bindI (prepare_direct_transaction P r (mn_files current) new) (\<lambda>op.
        thenI (tryI (run_transaction_locked P op None False)
                 (\<lambda>e. if caught_by [CPublicationCrash] e then raise (publication_error (exn_text e))
                      else thenI (rollback_failed_transaction P op e (Some lease) False)
                             (raise (publication_error (exn_text e)))))
          (thenI (cleanup_paths (tx_journal_path op) (tx_backup_path op) (tx_stage_directory op))
             (ret (make_snapshot (pe_memory P) r new)))))"

definition memory_conflict :: exn where
  "memory_conflict = Exn CMemoryConflictError ''memory changed; reload before saving''"

definition try_update_memory ::
  "publication_env \<Rightarrow> resolved_memory \<Rightarrow> string \<Rightarrow> (memory_snapshot \<Rightarrow> memory_files res) \<Rightarrow> memory_snapshot fio" where
  "try_update_memory P r expected_revision updater =
     (let E = pe_memory P in
      thenI (liftR (validate_resolved_memory r None))
        (memory_lock r False (\<lambda>lease.
           bindI (ensure_memory_locked E r lease) (\<lambda>current.
           bindI (liftR (bindR (updater current) (normalize_candidate_files E))) (\<lambda>normalized.
             if mn_revision current \<noteq> expected_revision then raise memory_conflict
             else save_direct_locked P r current normalized lease)))))"

definition try_save_memory ::
  "publication_env \<Rightarrow> resolved_memory \<Rightarrow> string \<Rightarrow> memory_files \<Rightarrow> memory_snapshot fio" where
  "try_save_memory P r expected_revision fl = try_update_memory P r expected_revision (\<lambda>_. Inr fl)"

end
