(* ===== verification/Recovery.thy ===== *)
theory Recovery
  imports Publication Selectors
begin

text \<open>
  \<^verbatim>\<open>agency/memory/recovery.py\<close>: what the start of the program does with the journals that
  interrupted publications have left behind. The class \<open>MemorySelector\<close> is the parameter \<open>V\<close>:
  it makes a selector of keyword arguments or raises. A job store is given with the root of its
  group, or without it.
\<close>

record recovery_result =
  rr_recovered :: int
  rr_blocked_job_ids :: "string list"
  rr_errors :: "string list"

definition recovery_error :: "string \<Rightarrow> exn" where
  "recovery_error text = Exn CValueError text"

section \<open>Journals\<close>

record journal_identity =
  ji_memory_hash :: string
  ji_operation_id :: string

text \<open>\<open>_validate_job_id\<close> of any value; both exceptions it raises are handled alike.\<close>

definition safe_job_id :: "memory_env \<Rightarrow> py \<Rightarrow> string option" where
  "safe_job_id E v =
     (if is_str v then (case validate_job_id E (text_of v) of Inr s \<Rightarrow> Some s | Inl _ \<Rightarrow> None) else None)"

definition operation_id_from_path :: "memory_env \<Rightarrow> path \<Rightarrow> string option" where
  "operation_id_from_path E journal =
     (if path_suffix (name_of journal) \<noteq> ''.yaml'' then None
      else safe_job_id E (PStr (path_stem (name_of journal))))"

definition read_identity :: "memory_env \<Rightarrow> path \<Rightarrow> path \<Rightarrow> journal_identity fio" where
  "read_identity E journal rt =
     bindI (see (\<lambda>fs. (is_link (lstat_node fs journal), resolve fs journal, resolve fs (rt @ [''.journals'']))))
       (\<lambda>(link, canonical, journals).
         thenI (assertI (\<not> link) (recovery_error ''journal path is unsafe''))
         (thenI (assertI (butlast (butlast canonical) = journals) (recovery_error ''journal path escapes journal store''))
         (bindI (liftR (validate_memory_hash (name_of (butlast canonical)))) (\<lambda>h.
          case operation_id_from_path E canonical of
            None \<Rightarrow> raise (recovery_error ''journal filename operation id is invalid'')
          | Some oid \<Rightarrow> ret \<lparr>ji_memory_hash = h, ji_operation_id = oid\<rparr>))))"

definition read_payload :: "memory_env \<Rightarrow> path \<Rightarrow> (string \<times> py) list fio" where
  "read_payload E journal =
     bindI (read_text journal) (\<lambda>text.
     bindI (liftR (load (me_yaml E) text)) (\<lambda>loaded.
     thenI (assertI (is_mapping loaded) (recovery_error ''journal must decode to a mapping''))
       (ret (entries loaded))))"

section \<open>Job stores\<close>

record job_store_owner =
  jo_group_id :: string
  jo_path :: path
  jo_group_root :: "path option"

definition validate_owner :: "path list \<Rightarrow> string \<times> path \<times> path option \<Rightarrow> job_store_owner fio" where
  "validate_owner seen entry =
     (case entry of (group_id, candidate, group_root) \<Rightarrow>
      thenI (assertI (group_id \<noteq> []) (recovery_error ''job store owner must be a configured group id''))
      (bindI (see (\<lambda>fs. map_option (resolve fs) group_root)) (\<lambda>configured.
       thenI (assertI (name_of (butlast candidate) = ''.jobs'')
                (recovery_error ''job store must be a direct .jobs/<group> directory''))
       (bindI (see (\<lambda>fs. list_ex (\<lambda>c. path_exists fs c \<and> is_link (lstat_node fs c)) [butlast candidate, candidate])) (\<lambda>unsafe.
        thenI (assertI (\<not> unsafe) (recovery_error ''job store is unsafe''))
        (bindI (see (\<lambda>fs. (resolve fs candidate, path_exists fs (resolve fs candidate)))) (\<lambda>(canonical, there).
         thenI (assertI (name_of (butlast canonical) = ''.jobs'')
                  (recovery_error ''job store must resolve to .jobs/<group>''))
         (thenI (assertI (canonical \<notin> set seen) (recovery_error ''job stores must be canonical and distinct''))
         (thenI (whenI there (bindI (ensure_actual_directory canonical ''job'' False) (\<lambda>_. ret ())))
           (ret \<lparr>jo_group_id = group_id, jo_path = canonical, jo_group_root = configured\<rparr>))))))))))"

fun validate_owners :: "path list \<Rightarrow> (string \<times> path \<times> path option) list \<Rightarrow> job_store_owner list fio" where
  "validate_owners seen [] = ret []"
| "validate_owners seen (x # xs) =
     bindI (validate_owner seen x) (\<lambda>owner.
     bindI (validate_owners (jo_path owner # seen) xs) (\<lambda>rest. ret (owner # rest)))"

definition validate_job_stores :: "(string \<times> path \<times> path option) list \<Rightarrow> job_store_owner list fio" where
  "validate_job_stores job_stores =
     bindI (validate_owners [] job_stores) (\<lambda>owners.
       ret (sort_key (\<lambda>o'. path_str (jo_path o')) (sort_key jo_group_id owners)))"

fun matching_job_paths :: "job_store_owner list \<Rightarrow> string \<Rightarrow> (job_store_owner \<times> path) list fio" where
  "matching_job_paths [] operation_id = ret []"
| "matching_job_paths (owner # os) operation_id =
     (let candidate = job_path (jo_path owner) operation_id in
      bindI (see (\<lambda>fs. (is_link (lstat_node fs candidate), is_file fs candidate))) (\<lambda>(link, regular).
        thenI (assertI (\<not> link) (recovery_error ''job path is unsafe''))
          (bindI (matching_job_paths os operation_id) (\<lambda>rest.
             ret (if regular then (owner, candidate) # rest else rest)))))"

text \<open>The jobs that a journal nobody could recover may belong to.\<close>

definition journal_candidates :: "memory_env \<Rightarrow> path \<Rightarrow> (string \<times> py) list \<Rightarrow> string list" where
  "journal_candidates E journal payload =
     concat (map (\<lambda>c. case c of None \<Rightarrow> [] | Some s \<Rightarrow> [s])
       [operation_id_from_path E journal, safe_job_id E (get payload ''operation_id''), safe_job_id E (get payload ''job_id'')])"

definition is_blocked :: "job_store_owner list \<Rightarrow> string \<Rightarrow> string list fio" where
  "is_blocked owners operation_id =
     try_only [CValueError] (bindI (matching_job_paths owners operation_id) (\<lambda>m. ret (if m = [] then [] else [operation_id])))
       (\<lambda>_. ret [operation_id])"

definition barrier_job_ids :: "memory_env \<Rightarrow> path \<Rightarrow> job_store_owner list \<Rightarrow> string list fio" where
  "barrier_job_ids E journal owners =
     bindI (tryI (read_payload E journal) (\<lambda>_. ret [])) (\<lambda>payload.
     bindI (mapI (is_blocked owners) (journal_candidates E journal payload)) (\<lambda>blocked.
       ret (sorted_set (concat blocked))))"

section \<open>The operation of a journal\<close>

record recovery_operation =
  ro_is_job :: bool
  ro_operation_id :: string
  ro_phase :: string
  ro_no_change :: bool
  ro_selector :: "(string \<times> py) list"
  ro_canonical_json :: string
  ro_resolved :: resolved_memory
  ro_memory_hash :: string
  ro_old_revision :: string
  ro_new_revision :: string
  ro_stage_path :: path
  ro_backup_path :: path
  ro_journal_path :: path
  ro_job_path :: "path option"
  ro_owner_group_id :: "string option"
  ro_owner_group_root :: "path option"

definition safe_directory_name :: "memory_env \<Rightarrow> py \<Rightarrow> string \<Rightarrow> string \<Rightarrow> string res" where
  "safe_directory_name E v field_name expected =
     bindR (assertR (is_str v) (recovery_error (''journal '' @ field_name @ '' must be a string''))) (\<lambda>_.
     case validate_job_id E (text_of v) of
       Inl _ \<Rightarrow> Inl (recovery_error (''journal '' @ field_name @ '' is unsafe''))
     | Inr safe \<Rightarrow> bindR (assertR (safe = expected)
                     (recovery_error (''journal '' @ field_name @ '' does not match job id''))) (\<lambda>_. Inr safe))"

definition recovery_stage_path :: "path \<Rightarrow> string \<Rightarrow> string \<Rightarrow> path fio" where
  "recovery_stage_path rt memory_hash job_id =
     bindI (ensure_infrastructure_directory rt [''.staging'', memory_hash] ''staging'') (\<lambda>d.
       ensure_actual_directory (d @ [job_id]) ''staging'' False)"

definition recovery_backup_path :: "path \<Rightarrow> string \<Rightarrow> string \<Rightarrow> bool \<Rightarrow> path fio" where
  "recovery_backup_path rt memory_hash job_id required =
     bindI (ensure_infrastructure_directory rt [''.publication-backups'', memory_hash] ''backup'') (\<lambda>d.
     let p = d @ [job_id] in
     bindI (see (\<lambda>fs. path_exists fs p)) (\<lambda>there.
       if required \<or> there then ensure_actual_directory p ''backup'' False else ret p))"

definition journal_keys :: "string list" where
  "journal_keys =
     [''kind'', ''operation_id'', ''selector'', ''canonical_json'', ''memory_hash'', ''old_revision'', ''new_revision'',
      ''stage_directory'', ''backup_directory'', ''phase'', ''no_change'']"

definition required_keys :: "py \<Rightarrow> string list" where
  "required_keys kind = (if kind = PStr ''job'' then ''job_id'' # journal_keys else journal_keys)"

definition revision_ok :: "py \<Rightarrow> bool" where
  "revision_ok v \<longleftrightarrow> is_str v \<and> is_hex64 (text_of v)"

text \<open>The first half of \<open>_operation_from_payload\<close>: the closed schema and the names.\<close>

definition check_journal_names :: "memory_env \<Rightarrow> (string \<times> py) list \<Rightarrow> path \<Rightarrow> (string \<times> string) res" where
  "check_journal_names E payload journal =
     (let kind = get payload ''kind'' in
      bindR (assertR (''kind'' \<in> fst ` set payload) (recovery_error ''journal kind is required'')) (\<lambda>_.
      bindR (assertR (fst ` set payload = set (required_keys kind))
               (recovery_error ''journal keys do not match the closed schema'')) (\<lambda>_.
      bindR (in_str_set kind [''job'', ''direct-save'']) (\<lambda>known.
      bindR (assertR known (recovery_error ''journal kind is invalid'')) (\<lambda>_.
      bindR (validate_memory_hash (str_of (get payload ''memory_hash''))) (\<lambda>h.
      bindR (assertR (name_of (butlast journal) = h)
               (recovery_error ''journal memory hash does not match its directory'')) (\<lambda>_.
      bindR (validate_job_id E (str_of (get payload ''operation_id''))) (\<lambda>oid.
      bindR (if kind = PStr ''job''
             then bindR (validate_job_id E (str_of (get payload ''job_id''))) (\<lambda>jid.
                    assertR (jid = oid) (recovery_error ''journal job id does not match its operation id''))
             else Inr ()) (\<lambda>_.
      bindR (assertR (name_of journal = oid @ ''.yaml'')
               (recovery_error ''journal filename does not match its operation id'')) (\<lambda>_.
        Inr (h, oid)))))))))))"

text \<open>The second half: selector, phase, revisions and directories.\<close>

definition check_journal_values ::
  "memory_env \<Rightarrow> ((string \<times> py) list \<Rightarrow> memory_selector res) \<Rightarrow> (string \<times> py) list \<Rightarrow> string \<Rightarrow>
   (memory_selector \<times> string \<times> string) res" where
  "check_journal_values E V payload oid =
     (let sel = get payload ''selector''; cj = get payload ''canonical_json'' in
      bindR (assertR (is_mapping sel) (recovery_error ''journal selector must be a mapping'')) (\<lambda>_.
      bindR (V (entries sel)) (\<lambda>selector.
      bindR (assertR (is_str cj \<and> text_of cj \<noteq> [])
               (recovery_error ''journal canonical_json must be a non-empty string'')) (\<lambda>_.
      bindR (in_str_set (get payload ''phase'') [''prepared'', ''backed_up'', ''published'']) (\<lambda>known.
      bindR (assertR known (recovery_error ''journal phase is invalid'')) (\<lambda>_.
      bindR (assertR (get payload ''no_change'' \<in> {PBool True, PBool False})
               (recovery_error ''journal no_change must be a literal boolean'')) (\<lambda>_.
      bindR (assertR (revision_ok (get payload ''old_revision''))
               (recovery_error ''journal old_revision revision is invalid'')) (\<lambda>_.
      bindR (assertR (revision_ok (get payload ''new_revision''))
               (recovery_error ''journal new_revision revision is invalid'')) (\<lambda>_.
      bindR (safe_directory_name E (get payload ''stage_directory'') ''stage_directory'' oid) (\<lambda>stage.
      bindR (safe_directory_name E (get payload ''backup_directory'') ''backup_directory'' oid) (\<lambda>backup.
        Inr (selector, stage, backup))))))))))))"

text \<open>The record of a job is found in exactly one of the stores.\<close>

definition owning_job :: "bool \<Rightarrow> job_store_owner list \<Rightarrow> string \<Rightarrow> (path option \<times> string option \<times> path option) fio" where
  "owning_job is_job owners oid =
     (if \<not> is_job then ret (None, None, None)
      else bindI (matching_job_paths owners oid) (\<lambda>matches. case matches of
             [(owner, p)] \<Rightarrow> ret (Some p, Some (jo_group_id owner), jo_group_root owner)
           | _ \<Rightarrow> raise (recovery_error ''job journal must resolve to exactly one allowed job record'')))"

section \<open>Who owns it\<close>

text \<open>Routine ids are strings or absent.\<close>

definition spec_request :: "job_spec \<Rightarrow> memory_request" where
  "spec_request s =
     \<lparr>mr_job_id = text_of (js_job_id s), mr_group_key = text_of (js_group_key s),
      mr_agent_name = text_of (js_agent_name s),
      mr_routine_id = (case js_routine_id s of PNone \<Rightarrow> None | v \<Rightarrow> Some (text_of v))\<rparr>"

definition path_arg :: "py \<Rightarrow> path res" where
  "path_arg v =
     bindR (assertR (is_str v) (Exn CTypeError ''expected str, bytes or os.PathLike object'')) (\<lambda>_. Inr (to_path (text_of v)))"

definition selector_channels :: "memory_selector \<Rightarrow> string list" where
  "selector_channels s =
     (case ms_channel s of Some c \<Rightarrow> if ms_scope s = ''channel'' then [c] else [] | None \<Rightarrow> [])"

definition check_ownership ::
  "memory_env \<Rightarrow> ((string \<times> py) list \<Rightarrow> memory_selector res) \<Rightarrow> fs \<Rightarrow> recovery_operation \<Rightarrow> job_spec \<Rightarrow> unit res" where
  "check_ownership E V fs op spec =
     (let mem = js_memory spec; rt = butlast (rm_directory (ro_resolved op)) in
      bindR (assertR (js_job_id spec = PStr (ro_operation_id op))
               (recovery_error ''job spec id does not own journal operation'')) (\<lambda>_.
      bindR (assertR (\<exists>g\<in>set_option (ro_owner_group_id op). js_group_key spec = PStr g)
               (recovery_error ''job does not belong to its configured group owner'')) (\<lambda>_.
      bindR (case ro_owner_group_root op of
               None \<Rightarrow> Inl (recovery_error ''configured group root is required for job recovery'')
             | Some p \<Rightarrow> Inr (resolve fs p)) (\<lambda>trusted.
      bindR (path_arg (js_group_root spec)) (\<lambda>group_root.
      bindR (assertR (resolve fs group_root = trusted)
               (recovery_error ''job spec group root does not match configured group'')) (\<lambda>_.
      bindR (path_arg (mb_path mem)) (\<lambda>memory_path.
      bindR (assertR (butlast (resolve fs memory_path) = rt)
               (recovery_error ''job spec memory path is outside global store'')) (\<lambda>_.
      bindR (bindR (mapping_args (mb_selector mem)) V) (\<lambda>selector.
      bindR (resolve_memory_selector (me_hash E) fs rt (spec_request spec) (selector_channels selector) selector) (\<lambda>recomputed.
      bindR (assertR (selector_dict (rm_selector (ro_resolved op)) = selector_dict selector)
               (recovery_error ''journal selector does not match job spec'')) (\<lambda>_.
      bindR (assertR (mb_canonical_json mem = PStr (rm_canonical_json recomputed))
               (recovery_error ''job spec canonical JSON is invalid'')) (\<lambda>_.
      bindR (assertR (ro_canonical_json op = rm_canonical_json recomputed)
               (recovery_error ''journal canonical JSON does not match job spec'')) (\<lambda>_.
      bindR (assertR (mb_memory_hash mem = PStr (rm_hash recomputed))
               (recovery_error ''job spec memory hash is invalid'')) (\<lambda>_.
      bindR (assertR (ro_memory_hash op = rm_hash recomputed)
               (recovery_error ''journal memory hash does not match job spec'')) (\<lambda>_.
        assertR (resolve fs memory_path = resolve fs (rm_directory recomputed))
               (recovery_error ''job spec memory path does not match selector''))))))))))))))))"

definition validate_job_ownership ::
  "memory_env \<Rightarrow> ((string \<times> py) list \<Rightarrow> memory_selector res) \<Rightarrow> recovery_operation \<Rightarrow> path \<Rightarrow> unit fio" where
  "validate_job_ownership E V op p =
     bindI (read_job (me_yaml E) (me_hash E) p None) (\<lambda>r.
     bindI (see (\<lambda>fs. check_ownership E V fs op (jr_spec r))) liftR)"

definition validate_direct_identity :: "memory_env \<Rightarrow> recovery_operation \<Rightarrow> unit fio" where
  "validate_direct_identity E op =
     (let r = ro_resolved op in
      bindI (bindI (see (\<lambda>fs. resolved_memory_from_canonical (me_hash E) fs (butlast (rm_directory r)) (rm_selector r)
                                (ro_canonical_json op))) liftR) (\<lambda>recomputed.
        assertI (rm_hash recomputed = ro_memory_hash op) (recovery_error ''direct-save canonical identity hash mismatch'')))"

definition journal_operation ::
  "(string \<times> py) list \<Rightarrow> path \<Rightarrow> path \<Rightarrow> string \<times> string \<Rightarrow> memory_selector \<Rightarrow>
   path option \<times> string option \<times> path option \<Rightarrow> path \<Rightarrow> path \<Rightarrow> recovery_operation" where
  "journal_operation payload journal rt names selector owner stage backup =
     (let (h, oid) = names; (job, group_id, group_root) = owner; cj = text_of (get payload ''canonical_json'') in
      \<lparr>ro_is_job = (get payload ''kind'' = PStr ''job''), ro_operation_id = oid, ro_phase = text_of (get payload ''phase''),
       ro_no_change = (get payload ''no_change'' = PBool True),
       ro_selector = entries (get payload ''selector''), ro_canonical_json = cj,
       ro_resolved = \<lparr>rm_selector = selector, rm_canonical_json = cj, rm_hash = h, rm_directory = rt @ [h]\<rparr>,
       ro_memory_hash = h, ro_old_revision = text_of (get payload ''old_revision''),
       ro_new_revision = text_of (get payload ''new_revision''), ro_stage_path = stage, ro_backup_path = backup,
       ro_journal_path = journal, ro_job_path = job, ro_owner_group_id = group_id, ro_owner_group_root = group_root\<rparr>)"

definition needs_backup :: "(string \<times> py) list \<Rightarrow> bool" where
  "needs_backup payload \<longleftrightarrow>
     get payload ''no_change'' \<noteq> PBool True \<and> text_of (get payload ''phase'') \<in> {''backed_up'', ''published''}"

definition operation_from_payload ::
  "memory_env \<Rightarrow> ((string \<times> py) list \<Rightarrow> memory_selector res) \<Rightarrow> (string \<times> py) list \<Rightarrow> path \<Rightarrow> path \<Rightarrow> job_store_owner list \<Rightarrow>
   recovery_operation fio" where
  "operation_from_payload E V payload journal rt owners =
     bindI (see (\<lambda>fs. resolve fs journal)) (\<lambda>journal.
     bindI (liftR (check_journal_names E payload journal)) (\<lambda>names.
     bindI (liftR (check_journal_values E V payload (snd names))) (\<lambda>(selector, stage_name, backup_name).
     bindI (owning_job (get payload ''kind'' = PStr ''job'') owners (snd names)) (\<lambda>owner.
     bindI (recovery_stage_path rt (fst names) stage_name) (\<lambda>stage.
     bindI (recovery_backup_path rt (fst names) backup_name (needs_backup payload)) (\<lambda>backup.
     let op = journal_operation payload journal rt names selector owner stage backup in
       thenI (case ro_job_path op of Some p \<Rightarrow> validate_job_ownership E V op p | None \<Rightarrow> validate_direct_identity E op)
         (ret op)))))))"

section \<open>Recovering\<close>

definition cleanup_operation :: "recovery_operation \<Rightarrow> unit fio" where
  "cleanup_operation op = cleanup_paths (ro_journal_path op) (ro_backup_path op) (ro_stage_path op)"

definition recovered_published_at :: "publication_env \<Rightarrow> path option \<Rightarrow> string fio" where
  "recovered_published_at P job =
     (case job of None \<Rightarrow> ret []
      | Some p \<Rightarrow> bindI (read_job (me_yaml (pe_memory P)) (me_hash (pe_memory P)) p None) (\<lambda>r.
          ret (text_of (por (jr_completed_at r) (por (jr_started_at r) (PStr []))))))"

definition recovered_receipt :: "recovery_operation \<Rightarrow> string \<Rightarrow> memory_publication_receipt" where
  "recovered_receipt op published_at =
     \<lparr>mp_selector = ro_selector op, mp_memory_hash = ro_memory_hash op, mp_old_revision = ro_old_revision op,
      mp_new_revision = ro_new_revision op, mp_diff_artifact = None, mp_published_at = published_at,
      mp_no_change = ro_no_change op\<rparr>"

definition finalize_recovered_success :: "publication_env \<Rightarrow> recovery_operation \<Rightarrow> unit fio" where
  "finalize_recovered_success P op =
     thenI (case ro_job_path op of
              Some p \<Rightarrow> bindI (recovered_published_at P (Some p)) (\<lambda>t. mark_complete P p (recovered_receipt op t))
            | None \<Rightarrow> ret ())
       (cleanup_operation op)"

text \<open>What the revisions on disk have to be before anything is decided.\<close>

definition check_revisions :: "recovery_operation \<Rightarrow> string option \<Rightarrow> unit res" where
  "check_revisions op backup_revision =
     bindR (assertR (backup_revision \<in> {None, Some (ro_old_revision op)})
              (recovery_error ''backup revision does not match journal old revision'')) (\<lambda>_.
     bindR (assertR (\<not> (\<not> ro_no_change op \<and> ro_phase op \<in> {''backed_up'', ''published''} \<and> backup_revision = None))
              (recovery_error ''journal phase requires an old-revision backup'')) (\<lambda>_.
     bindR (assertR (\<not> (ro_no_change op \<and> backup_revision \<noteq> None))
              (recovery_error ''no_change journal must not have a backup'')) (\<lambda>_.
     bindR (assertR (\<not> (ro_no_change op \<and> ro_old_revision op \<noteq> ro_new_revision op))
              (recovery_error ''no_change journal revisions differ'')) (\<lambda>_.
       assertR (\<not> (\<not> ro_no_change op \<and> ro_old_revision op = ro_new_revision op))
              (recovery_error ''changed journal revisions must differ'')))))"

definition recover_locked :: "publication_env \<Rightarrow> recovery_operation \<Rightarrow> int fio" where
  "recover_locked P op =
     (let E = pe_memory P in
      bindI (bindI (canonical_directory (ro_resolved op)) (read_canonical_files E)) (\<lambda>canonical.
      bindI (read_canonical_files E (ro_stage_path op)) (\<lambda>stage.
      let current = memory_content_revision E canonical; staged = memory_content_revision E stage in
      thenI (assertI (staged = ro_new_revision op) (recovery_error ''stage revision does not match journal new revision''))
      (bindI (see (\<lambda>fs. path_exists fs (ro_backup_path op))) (\<lambda>there.
       bindI (if there then bindI (read_canonical_files E (ro_backup_path op)) (\<lambda>fl. ret (Some (memory_content_revision E fl)))
              else ret None) (\<lambda>backup.
       thenI (liftR (check_revisions op backup))
         (if ro_phase op \<in> {''backed_up'', ''published''} \<and> current = ro_new_revision op
          then thenI (finalize_recovered_success P op) (ret 1)
          else if ro_phase op = ''prepared'' \<and> ro_no_change op \<and> current = ro_old_revision op \<and>
                  ro_old_revision op = ro_new_revision op
          then thenI (finalize_recovered_success P op) (ret 1)
          else if current = ro_old_revision op
          then thenI (case ro_job_path op of
                        Some p \<Rightarrow> mark_failed P p ''Recovered incomplete memory publication with old canonical revision.''
                      | None \<Rightarrow> ret ())
                 (thenI (cleanup_operation op) (ret 1))
          else raise (recovery_error ''canonical revision is unknown; manual intervention required''))))))))"

section \<open>All journals\<close>

text \<open>\<open>sorted(journals_root.glob("*/*.yaml"))\<close> by directory and file name.\<close>

definition journal_files :: "path \<Rightarrow> fs \<Rightarrow> path list" where
  "journal_files journals fs =
     concat (map (\<lambda>d. map (\<lambda>n. journals @ [d, n]) (sort (filter (\<lambda>n. endswith n ''.yaml'') (listdir fs (journals @ [d])))))
       (sort (filter (\<lambda>d. is_dir fs (journals @ [d])) (listdir fs journals))))"

definition recover_journal ::
  "publication_env \<Rightarrow> ((string \<times> py) list \<Rightarrow> memory_selector res) \<Rightarrow> path \<Rightarrow> job_store_owner list \<Rightarrow> path \<Rightarrow> int fio" where
  "recover_journal P V rt owners journal =
     (let E = pe_memory P in
      bindI (read_identity E journal rt) (\<lambda>identity.
        memory_lock \<lparr>rm_selector = run_selector, rm_canonical_json = [], rm_hash = ji_memory_hash identity,
                     rm_directory = rt @ [ji_memory_hash identity]\<rparr> True (\<lambda>_.
          bindI (try_only [CFileNotFoundError] (bindI (read_payload E journal) (\<lambda>d. ret (Some d))) (\<lambda>_. ret None)) (\<lambda>payload.
            case payload of None \<Rightarrow> ret 0
            | Some d \<Rightarrow> bindI (operation_from_payload E V d journal rt owners) (recover_locked P)))))"

fun recover_journals ::
  "publication_env \<Rightarrow> ((string \<times> py) list \<Rightarrow> memory_selector res) \<Rightarrow> path \<Rightarrow> job_store_owner list \<Rightarrow> path list \<Rightarrow>
   recovery_result \<Rightarrow> recovery_result fio" where
  "recover_journals P V rt owners [] acc = ret acc"
| "recover_journals P V rt owners (j # js) acc =
     bindI (tryI (bindI (recover_journal P V rt owners j) (\<lambda>n. ret (acc\<lparr>rr_recovered := rr_recovered acc + n\<rparr>)))
              (\<lambda>e. bindI (barrier_job_ids (pe_memory P) j owners) (\<lambda>ids.
                 ret (acc\<lparr>rr_blocked_job_ids := sorted_set (rr_blocked_job_ids acc @ ids),
                          rr_errors := rr_errors acc @ [path_str j @ '': '' @ exn_text e]\<rparr>))))
       (recover_journals P V rt owners js)"

definition recover_publications ::
  "publication_env \<Rightarrow> ((string \<times> py) list \<Rightarrow> memory_selector res) \<Rightarrow> path \<Rightarrow> (string \<times> path \<times> path option) list \<Rightarrow>
   recovery_result fio" where
  "recover_publications P V rt job_stores =
     bindI (ensure_actual_directory rt ''memory'' True) (\<lambda>rt.
     bindI (validate_job_stores job_stores) (\<lambda>owners.
     let journals = rt @ [''.journals''] in
     bindI (see (\<lambda>fs. path_exists fs journals)) (\<lambda>there.
       if \<not> there then ret \<lparr>rr_recovered = 0, rr_blocked_job_ids = [], rr_errors = []\<rparr>
       else thenI (ensure_actual_directory journals ''journal'' False)
         (bindI (see (journal_files journals)) (\<lambda>js.
            recover_journals P V rt owners js \<lparr>rr_recovered = 0, rr_blocked_job_ids = [], rr_errors = []\<rparr>)))))"

end
