(* ===== verification/MemoryInvariants.thy ===== *)
theory MemoryInvariants
  imports MemoryStore
begin

text \<open>
  What the directory operations of \<^verbatim>\<open>MemoryStore\<close> keep, whatever interrupts them. The locale
  \<open>replacement_invariant\<close> says what an invariant of the files of a memory has to be stable under for
  \<^const>\<open>replace_canonical_files\<close> to keep it; it is interpreted twice: nothing outside the memory and
  \<open>.backups\<close> changes, and the memory holds regular files only.
\<close>

section \<open>Where the operations stay\<close>

lemma not_prefix_snoc [simp]: "\<not> prefix (p @ [x]) p" "\<not> prefix (p @ x # xs) p"
  by (auto dest!: prefix_length_le)

lemma strict_prefix_snoc [simp]: "prefix p q \<Longrightarrow> strict_prefix p (q @ [x])"
  by (metis prefix_order.le_less_trans not_prefix_snoc(1) prefixI strict_prefixI)

lemma keeps_ensure_actual [keeps_intros]: "keeps P (ensure_actual_directory p l False)"
  by (auto simp: ensure_actual_directory_def intro!: keeps_intros split: option.splits node.splits)

lemma ensure_actual_result: "ensure_actual_directory p l c w = (Inr x, w') \<Longrightarrow> x = p"
  unfolding ensure_actual_directory_def thenI_Inr_iff bindI_see
  by (elim exE conjE) (simp split: option.split_asm node.split_asm)

lemma keeps_ensure_root:
  "below rt p \<Longrightarrow> g p = Some Dir \<Longrightarrow> p \<notin> S \<Longrightarrow> keeps (confined rt S g) (ensure_actual_directory p l True)"
  unfolding ensure_actual_directory_def whenI_simps
  by (rule keeps_thenI [OF keeps_mkdir_there]) (auto intro!: keeps_intros split: option.splits node.splits)

lemma keeps_ensure_child [keeps_intros]:
  "below rt (p @ [n]) \<Longrightarrow> p @ [n] \<in> S \<Longrightarrow> keeps (confined rt S g) (ensure_child_directory p n l)"
  by (auto simp: ensure_child_directory_def Let_def intro!: keeps_intros)

lemma ensure_child_result: "ensure_child_directory p n l w = (Inr x, w') \<Longrightarrow> x = p @ [n]"
  by (auto simp: ensure_child_directory_def Let_def thenI_Inr_iff dest: ensure_actual_result)

lemma keeps_ensure_components:
  assumes "prefix rt p" "below rt p" "''..'' \<notin> set cs" "\<And>q. strict_prefix p q \<Longrightarrow> prefix q (p @ cs) \<Longrightarrow> q \<in> S"
  shows "keeps (confined rt S g) (ensure_components l p cs)"
  using assms
proof (induction cs arbitrary: p)
  case Nil
  show ?case unfolding ensure_components.simps by (rule keeps_pure)
next
  case (Cons c cs)
  have b: "below rt (p @ [c])" using Cons.prems by (auto simp: below_def)
  show ?case unfolding ensure_components.simps
  proof (rule keeps_bindI_res [where R = "\<lambda>x. x = p @ [c]"])
    show "keeps (confined rt S g) (ensure_child_directory p c l)"
      by (rule keeps_ensure_child [OF b]) (rule Cons.prems(4), auto)
    show "keeps (confined rt S g) (ensure_components l x cs)" if "x = p @ [c]" for x
      unfolding that
    proof (rule Cons.IH)
      show "q \<in> S" if "strict_prefix (p @ [c]) q" "prefix q ((p @ [c]) @ cs)" for q
        by (rule Cons.prems(4)) (use that in \<open>auto simp: strict_prefix_def prefix_def\<close>)
    qed (use Cons.prems b in auto)
  qed (auto dest: ensure_child_result)
qed

lemma ensure_components_result: "ensure_components l p cs w = (Inr x, w') \<Longrightarrow> x = p @ cs"
proof (induction cs arbitrary: p w)
  case (Cons c cs)
  then obtain w1 where "ensure_components l (p @ [c]) cs w1 = (Inr x, w')"
    by (auto simp: bindI_Inr_iff dest!: ensure_child_result)
  from Cons.IH [OF this] show ?case by simp
qed simp

lemma ensure_infrastructure_result:
  "ensure_infrastructure_directory p cs l w = (Inr x, w') \<Longrightarrow> x = p @ cs"
  by (auto simp: ensure_infrastructure_directory_def bindI_Inr_iff dest!: ensure_components_result ensure_actual_result)

text \<open>The directories of the store, below a root that exists.\<close>

lemma keeps_ensure_infrastructure [keeps_intros]:
  assumes "''..'' \<notin> set rt" "g rt = Some Dir" "rt \<notin> S" "''..'' \<notin> set cs"
    and "\<And>q. strict_prefix rt q \<Longrightarrow> prefix q (rt @ cs) \<Longrightarrow> q \<in> S"
  shows "keeps (confined rt S g) (ensure_infrastructure_directory rt cs l)"
  unfolding ensure_infrastructure_directory_def
  by (rule keeps_bindI_res [where R = "\<lambda>x. x = rt"])
     (use assms in \<open>auto simp: below_def intro!: keeps_ensure_root keeps_ensure_components dest: ensure_actual_result\<close>)
lemma keeps_rm_entry:
  assumes "prefix rt p" "below rt p" "name \<noteq> ''..''"
    and "\<And>q. prefix p q \<Longrightarrow> below rt q \<Longrightarrow> keeps K (unlink q)"
    and "\<And>q im. prefix p q \<Longrightarrow> below rt q \<Longrightarrow> keeps K (safe_rmtree n q l im)"
  shows "keeps K (bindI (see (\<lambda>fs. lstat_node fs (p @ [name]))) (\<lambda>entry.
               if is_link entry then raise (store_error (''unsafe '' @ l @ '' entry: '' @ path_str (p @ [name])))
               else if entry = Some Dir then safe_rmtree n (p @ [name]) l False
               else unlink (p @ [name])))"
proof -
  have b: "below rt (p @ [name])" by (rule below_append [OF assms(2,1,3)])
  have "keeps K (safe_rmtree n (p @ [name]) l False)" by (rule assms(5)) (use b in auto)
  moreover have "keeps K (unlink (p @ [name]))" by (rule assms(4)) (use b in auto)
  ultimately show ?thesis by (auto intro!: keeps_intros)
qed

text \<open>A tree is removed by unlinking files and removing directories below it.\<close>

lemma keeps_safe_rmtree_ops:
  assumes "prefix rt p" "below rt p"
    and "\<And>q. prefix p q \<Longrightarrow> below rt q \<Longrightarrow> keeps K (unlink q) \<and> keeps K (rmdir q)"
  shows "keeps K (safe_rmtree n p l im)"
  using assms
proof (induction n arbitrary: p im)
  case 0
  show ?case unfolding safe_rmtree.simps by (rule keeps_pure)
next
  case (Suc n)
  have IH: "keeps K (safe_rmtree n q l im)" if "prefix p q" "below rt q" for q im
    by (rule Suc.IH) (use Suc.prems that in \<open>auto intro: prefix_order.trans\<close>)
  show ?case
    unfolding safe_rmtree.simps(2)
  proof (rule keeps_bindI)
    show "keeps K (try_only [CMemoryStoreError] (bindI (ensure_actual_directory p l False) (\<lambda>_. ret True))
              (\<lambda>e. bindI (see (\<lambda>fs. path_exists fs p)) (\<lambda>there.
                 if im \<and> \<not> there then ret False else raise e)))"
      by (intro keeps_try_only keeps_bindI keeps_see keeps_ensure_actual) (auto intro!: keeps_pure)
    fix go
    have "keeps K (bindI (iterdir p) (\<lambda>names.
         thenI (forI (\<lambda>name.
             bindI (see (\<lambda>fs. lstat_node fs (p @ [name]))) (\<lambda>entry.
               if is_link entry then raise (store_error (''unsafe '' @ l @ '' entry: '' @ path_str (p @ [name])))
               else if entry = Some Dir then safe_rmtree n (p @ [name]) l False
               else unlink (p @ [name]))) names)
           (rmdir p)))"
      by (rule keeps_bindI_res [where R = "\<lambda>ns. \<forall>n\<in>set ns. n \<noteq> ''..''"])
         (use Suc.prems IH in \<open>auto intro!: keeps_thenI keeps_forI keeps_rm_entry keeps_iterdir dest: iterdir_names\<close>)
    then show "keeps K (if \<not> go then ret ()
       else bindI (iterdir p) (\<lambda>names.
         thenI (forI (\<lambda>name.
             bindI (see (\<lambda>fs. lstat_node fs (p @ [name]))) (\<lambda>entry.
               if is_link entry then raise (store_error (''unsafe '' @ l @ '' entry: '' @ path_str (p @ [name])))
               else if entry = Some Dir then safe_rmtree n (p @ [name]) l False
               else unlink (p @ [name]))) names)
           (rmdir p)))" by (cases go) (simp_all add: keeps_pure del: io_apply)
  qed
qed

lemma keeps_rmtree_ops:
  assumes "prefix rt p" "below rt p"
    and "\<And>q. prefix p q \<Longrightarrow> below rt q \<Longrightarrow> keeps K (unlink q) \<and> keeps K (rmdir q)"
  shows "keeps K (rmtree p l im)"
  unfolding rmtree_def by (rule keeps_bindI [OF keeps_see], rule keeps_safe_rmtree_ops [OF assms])

lemma keeps_rmtree [keeps_intros]:
  "prefix rt p \<Longrightarrow> below rt p \<Longrightarrow> (\<And>q. prefix p q \<Longrightarrow> q \<in> S) \<Longrightarrow> keeps (confined rt S g) (rmtree p l im)"
  by (rule keeps_rmtree_ops) (auto intro: keeps_unlink keeps_rmdir)

lemma fresh_name_plain: "fresh_name fs d (p @ ''.'') \<notin> {[], ''.'', ''..''}"
  using fresh_name_free(2,3) [of fs d "p @ ''.''"] by (auto simp: startswith_def)

lemma keeps_create_tempdir:
  assumes "prefix rt p" "below rt p" "\<And>q. strict_prefix p q \<Longrightarrow> q \<in> S"
  shows "keeps (confined rt S g) (create_verified_tempdir p (pre @ ''.'') l)"
  unfolding create_verified_tempdir_def
proof (rule keeps_bindI_res [where R = "\<lambda>x. \<exists>n. x = p @ [n] \<and> n \<noteq> ''..''"])
  fix w x w' assume "see (\<lambda>fs. p @ [fresh_name fs (resolve fs p) (pre @ ''.'')]) w = (Inr x, w')"
  with fresh_name_plain [of "files w" "resolve (files w) p" pre] show "\<exists>n. x = p @ [n] \<and> n \<noteq> ''..''" by auto
qed (use assms in \<open>auto intro!: keeps_see keeps_thenI keeps_os_mkdir keeps_ensure_actual below_append\<close>)

lemma create_tempdir_result:
  "create_verified_tempdir p (pre @ ''.'') l w = (Inr x, w') \<Longrightarrow> \<exists>n. x = p @ [n] \<and> n \<notin> {[], ''.'', ''..''}"
  using fresh_name_plain [of "files w" "resolve (files w) p" pre]
  by (auto simp: create_verified_tempdir_def thenI_Inr_iff bindI_Inr_iff dest!: ensure_actual_result)

text \<open>A move is a rename, or a copy and a removal; it may end inside a directory at its target.\<close>

lemma keeps_move_path_ops:
  assumes "\<And>real. real = d \<or> real = d @ [last s] \<Longrightarrow>
      keeps K (os_replace s real) \<and> (\<forall>b. keeps K (write_bytes real b))"
    and "keeps K (unlink s)"
  shows "keeps K (move_path s d)"
proof -
  have real: "keeps K
      (try_only [COSError] (os_replace s real)
          (\<lambda>e. bindI (see (\<lambda>fs. lstat_node fs s)) (\<lambda>n.
             if n = Some Dir \<or> is_link n then raise e
             else bindI (read_bytes s) (\<lambda>b.
               thenI (write_bytes real []) (thenI (write_bytes real b) (unlink s))))))"
    if "real = d \<or> real = d @ [last s]" for real
    using assms(1) [OF that] assms(2)
    by (intro keeps_try_only keeps_bindI keeps_see)
       (auto intro!: keeps_bindI keeps_thenI keeps_read_bytes keeps_pure)
  show ?thesis unfolding move_path_def Let_def
    by (intro keeps_bindI keeps_see keeps_thenI keeps_pure, intro real) auto
qed

lemma keeps_move_path [keeps_intros]:
  assumes "below rt s" "below rt d" "strict_prefix rt s" "strict_prefix rt d" "last s \<noteq> ''..''"
    and "\<And>q. prefix s q \<Longrightarrow> q \<in> S" "\<And>q. prefix d q \<Longrightarrow> q \<in> S"
  shows "keeps (confined rt S g) (move_path s d)"
proof (rule keeps_move_path_ops)
  fix real assume r: "real = d \<or> real = d @ [last s]"
  have d: "prefix rt d" using assms(4) by (simp add: strict_prefix_def)
  with r assms(2,4,5) have "below rt real" "prefix d real" "strict_prefix rt real"
    by (auto intro: below_append)
  with assms show "keeps (confined rt S g) (os_replace s real) \<and> (\<forall>b. keeps (confined rt S g) (write_bytes real b))"
    by (auto simp: strict_prefix_def intro!: keeps_os_replace keeps_write_bytes intro: prefix_order.trans)
qed (use assms in \<open>auto intro!: keeps_unlink\<close>)

definition plain_names :: "string list \<Rightarrow> bool" where
  "plain_names ns \<longleftrightarrow> distinct ns \<and> (\<forall>n\<in>set ns. n \<notin> {[], ''.'', ''..''})"

lemma keeps_write_files:
  assumes "prefix rt d" "below rt d" "plain_names (map fst fl)"
    and "\<And>q. strict_prefix d q \<Longrightarrow> q \<in> S" "\<And>q. prefix q d \<Longrightarrow> q \<noteq> [] \<Longrightarrow> q \<in> S \<or> g q = Some Dir"
  shows "keeps (confined rt S g) (write_files d fl)"
  unfolding write_files_def
proof (rule keeps_forI, clarsimp)
  fix n b assume "(n, b) \<in> set fl"
  with assms(3) have n: "n \<notin> {[], ''.'', ''..''}" by (force simp: plain_names_def)
  show "keeps (confined rt S g) (atomic_write_bytes (d @ [n]) b)"
  proof (rule keeps_atomic_write)
    show "below rt (d @ [n])" using below_append [OF assms(2,1)] n by simp
    show "strict_prefix rt (d @ [n])" using assms(1) by simp
    show "temp_paths (d @ [n]) \<subseteq> S" using assms(4) by (auto simp: temp_paths_def)
  qed (use assms n in auto)
qed
section \<open>Replacing the files of a memory\<close>

text \<open>
  A memory of the store: its directory is a child of the root, named like a hash, and its files
  are regular.
\<close>

definition memory_place :: "path \<Rightarrow> string \<Rightarrow> bool" where
  "memory_place rt h \<longleftrightarrow> ''..'' \<notin> set rt \<and> h \<notin> {[], ''.'', ''..'', ''.backups''}"

lemma memory_placeD:
  assumes "memory_place rt h"
  shows "below rt rt" "below rt (rt @ [h])" "below rt (rt @ [''.backups''])" "prefix rt (rt @ [h])"
    "prefix rt (rt @ [''.backups''])"
  using assms by (auto simp: memory_place_def below_def)

text \<open>What replacing the files of \<open>h\<close> may touch.\<close>

definition replace_region :: "path \<Rightarrow> string \<Rightarrow> path set" where
  "replace_region rt h = {q. strict_prefix (rt @ [h]) q \<or> prefix (rt @ [''.backups'']) q}"

lemma replace_regionI:
  "prefix (rt @ [''.backups'']) q \<Longrightarrow> q \<in> replace_region rt h"
  "prefix (rt @ [h] @ [n]) q \<Longrightarrow> q \<in> replace_region rt h"
  by (auto simp: replace_region_def strict_prefix_def prefix_def)

lemma replace_region_not: "rt \<notin> replace_region rt h" "h \<noteq> ''.backups'' \<Longrightarrow> rt @ [h] \<notin> replace_region rt h"
  by (auto simp: replace_region_def strict_prefix_def)

lemma replace_region_step:
  assumes "s = rt @ [h] \<or> prefix (rt @ [''.backups'']) s" "prefix (s @ [n]) q"
  shows "q \<in> replace_region rt h"
  using assms(1)
proof
  assume "s = rt @ [h]"
  with assms(2) have "prefix (rt @ [h] @ [n]) q" by simp
  then show ?thesis by (rule replace_regionI(2))
next
  assume "prefix (rt @ [''.backups'']) s"
  then have "prefix (rt @ [''.backups'']) (s @ [n])" by (rule prefix_prefix)
  from prefix_order.trans [OF this assms(2)] have "prefix (rt @ [''.backups'']) q" .
  then show ?thesis by (rule replace_regionI(1))
qed
text \<open>The way to the root is there.\<close>

definition root_there :: "path \<Rightarrow> (path \<Rightarrow> node option) \<Rightarrow> bool" where
  "root_there rt g \<longleftrightarrow> (\<forall>q. prefix q rt \<longrightarrow> q \<noteq> [] \<longrightarrow> g q = Some Dir) \<and> g rt = Some Dir"
lemma install_all_moved:
  "install_all d temp backup moved ns w = (Inr m, w') \<Longrightarrow>
     m = moved @ map (\<lambda>n. d @ [n]) ns \<and> forI (\<lambda>n. move_path (temp @ [n]) (d @ [n])) ns w = (Inr (), w')"
proof (induction ns arbitrary: moved w)
  case (Cons n ns)
  have "\<not> tryI (move_path (temp @ [n]) (d @ [n])) (replace_failed d backup moved') w = (Inr u, w1)"
    if "fst (move_path (temp @ [n]) (d @ [n]) w) \<noteq> Inr ()" for moved' u w1
    using that
    by (auto simp: tryI_def replace_failed_def bindI_apply split: prod.splits sum.splits if_splits option.splits)
  with Cons.prems obtain w1 where "move_path (temp @ [n]) (d @ [n]) w = (Inr (), w1)"
      "install_all d temp backup (moved @ [d @ [n]]) ns w1 = (Inr m, w')"
    by (fastforce simp: Let_def thenI_Inr_iff tryI_def split: prod.splits sum.splits)
  with Cons.IH [OF this(2)] show ?case by (simp add: thenI_Inr_iff)
qed simp
lemma never_replace_failed: "replace_failed d b moved e w \<noteq> (Inr x, w')"
  by (auto simp: replace_failed_def bindI_apply split: prod.splits sum.splits option.splits)

lemma try_replace_failed: "tryI m (replace_failed d b moved) w = (Inr x, w') \<longleftrightarrow> m w = (Inr x, w')"
  by (auto simp: tryI_def never_replace_failed split: prod.splits sum.splits)

section \<open>An invariant of the replacement\<close>

text \<open>
  \<open>P\<close> is a memory; \<open>D\<close> its directory. The files move between \<open>D\<close> and the two temporary
  directories under \<open>.backups\<close>.
\<close>

definition work_directory :: "path \<Rightarrow> path \<Rightarrow> bool" where
  "work_directory rt d \<longleftrightarrow> (\<exists>x. d = rt @ [''.backups'', x] \<and> x \<noteq> ''..'')"

locale replacement_invariant =
  fixes rt :: path and h :: string and K :: "world \<Rightarrow> bool"
  assumes keeps_parent: "keeps K (ensure_infrastructure_directory rt [''.backups''] ''backup'')"
    and keeps_tempdir: "keeps K (create_verified_tempdir (rt @ [''.backups'']) (h @ ''.'') ''backup'')"
    and keeps_writes: "work_directory rt d \<Longrightarrow> plain_names (map fst fl) \<Longrightarrow> keeps K (write_files d fl)"
    and keeps_moves: "n \<noteq> ''..'' \<Longrightarrow> work_directory rt d \<Longrightarrow>
          keeps K (move_path (d @ [n]) (rt @ [h, n])) \<and> keeps K (move_path (rt @ [h, n]) (d @ [n]))"
    and keeps_undo: "n \<noteq> ''..'' \<Longrightarrow> keeps K (undo_install (rt @ [h, n]))"
    and keeps_removal: "work_directory rt d \<Longrightarrow> keeps K (rmtree d ''backup'' im)"
begin

lemma rollback_keeps:
  assumes "work_directory rt backup" "\<forall>p\<in>set moved. \<exists>n. p = rt @ [h, n] \<and> n \<noteq> ''..''"
  shows "keeps K (rollback_canonical_replace (rt @ [h]) backup moved)"
  unfolding rollback_canonical_replace_def
proof (intro keeps_tryI keeps_thenI keeps_forI keeps_bindI [OF keeps_see] keeps_whenI keeps_pure)
  fix p assume "p \<in> set moved"
  with assms(2) keeps_undo show "keeps K (undo_install p)" by auto
next
  show "keeps K (bindI (iterdir backup) (\<lambda>names.
      thenI (forI (\<lambda>n. move_path (backup @ [n]) ((rt @ [h]) @ [n])) names) (rmtree backup ''backup'' False)))"
    by (intro keeps_bindI_res [where R = "\<lambda>ns. \<forall>n\<in>set ns. n \<noteq> ''..''"] keeps_iterdir keeps_thenI keeps_forI)
       (use assms(1) keeps_moves keeps_removal in \<open>auto dest: iterdir_names\<close>)
qed

lemma failed_keeps:
  assumes "work_directory rt backup" "\<forall>p\<in>set moved. \<exists>n. p = rt @ [h, n] \<and> n \<noteq> ''..''"
  shows "keeps K (replace_failed (rt @ [h]) backup moved e)"
  unfolding replace_failed_def
  by (intro keeps_bindI rollback_keeps [OF assms]) (auto intro!: keeps_pure split: option.splits)

lemma install_keeps:
  assumes "work_directory rt backup" "work_directory rt temp"
    and "\<forall>p\<in>set moved. \<exists>n. p = rt @ [h, n] \<and> n \<noteq> ''..''" "\<forall>n\<in>set ns. n \<noteq> ''..''"
  shows "keeps K (install_all (rt @ [h]) temp backup moved ns)"
  using assms(3,4)
proof (induction ns arbitrary: moved)
  case Nil
  show ?case unfolding install_all.simps by (rule keeps_pure)
next
  case (Cons n ns)
  have n: "n \<noteq> ''..''" using Cons.prems(2) by simp
  have m: "\<forall>p\<in>set (moved @ [rt @ [h, n]]). \<exists>n. p = rt @ [h, n] \<and> n \<noteq> ''..''" using Cons.prems(1) n by auto
  have "keeps K (move_path (temp @ [n]) (rt @ [h, n]))" using keeps_moves [OF n assms(2)] ..
  moreover have "keeps K (install_all (rt @ [h]) temp backup (moved @ [rt @ [h, n]]) ns)"
    by (rule Cons.IH [OF m]) (use Cons.prems(2) in simp)
  moreover have "keeps K (replace_failed (rt @ [h]) backup (moved @ [rt @ [h, n]]) e)" for e
    by (rule failed_keeps [OF assms(1) m])
  ultimately have "keeps K (thenI (tryI (move_path (temp @ [n]) (rt @ [h, n]))
        (replace_failed (rt @ [h]) backup (moved @ [rt @ [h, n]])))
      (install_all (rt @ [h]) temp backup (moved @ [rt @ [h, n]]) ns))"
    by (intro keeps_thenI keeps_tryI)
  then show ?case by (simp add: Let_def del: io_apply)
qed

lemma replace_step_keeps:
  assumes "work_directory rt backup" "work_directory rt temp" "plain_names (map fst fl)"
  shows "keeps K (finallyI
          (bindI (tryI (thenI (write_files temp fl) (thenI (evacuate (rt @ [h]) backup) (iterdir temp)))
                    (replace_failed (rt @ [h]) backup [])) (\<lambda>names.
           bindI (install_all (rt @ [h]) temp backup [] names) (\<lambda>moved.
             tryI (rmtree backup ''backup'' False) (replace_failed (rt @ [h]) backup moved))))
          (bindI (see (\<lambda>fs. path_exists fs temp)) (\<lambda>there. whenI there (rmtree temp ''backup'' True))))"
proof (rule keeps_finallyI)
  show "keeps K (bindI (see (\<lambda>fs. path_exists fs temp)) (\<lambda>there. whenI there (rmtree temp ''backup'' True)))"
    by (intro keeps_bindI keeps_see keeps_whenI keeps_removal assms)
  have ev: "keeps K (evacuate (rt @ [h]) backup)"
    unfolding evacuate_def
    by (intro keeps_bindI [OF keeps_see] keeps_whenI
         keeps_bindI_res [where R = "\<lambda>ns. \<forall>n\<in>set ns. n \<noteq> ''..''"] keeps_iterdir keeps_forI)
       (use keeps_moves assms(1) in \<open>auto dest: iterdir_names\<close>)
  show "keeps K (bindI (tryI (thenI (write_files temp fl) (thenI (evacuate (rt @ [h]) backup) (iterdir temp)))
                    (replace_failed (rt @ [h]) backup [])) (\<lambda>names.
           bindI (install_all (rt @ [h]) temp backup [] names) (\<lambda>moved.
             tryI (rmtree backup ''backup'' False) (replace_failed (rt @ [h]) backup moved))))"
  proof (rule keeps_bindI_res [where R = "\<lambda>ns. \<forall>n\<in>set ns. n \<noteq> ''..''"])
    show "keeps K (tryI (thenI (write_files temp fl) (thenI (evacuate (rt @ [h]) backup) (iterdir temp)))
                    (replace_failed (rt @ [h]) backup []))"
      by (intro keeps_tryI keeps_thenI keeps_writes ev keeps_iterdir failed_keeps assms) simp
  next
    fix w x w'
    assume "tryI (thenI (write_files temp fl) (thenI (evacuate (rt @ [h]) backup) (iterdir temp)))
                (replace_failed (rt @ [h]) backup []) w = (Inr x, w')"
    then show "\<forall>n\<in>set x. n \<noteq> ''..''"
      by (auto simp: try_replace_failed thenI_Inr_iff dest: iterdir_names)
  next
    fix ns assume ns: "\<forall>n\<in>set ns. n \<noteq> (''..'' :: string)"
    show "keeps K (bindI (install_all (rt @ [h]) temp backup [] ns) (\<lambda>moved.
         tryI (rmtree backup ''backup'' False) (replace_failed (rt @ [h]) backup moved)))"
    proof (rule keeps_bindI_res [where R = "\<lambda>mv. mv = map (\<lambda>n. (rt @ [h]) @ [n]) ns"])
      show "keeps K (install_all (rt @ [h]) temp backup [] ns)" by (rule install_keeps) (use assms ns in auto)
    next
      fix mv assume "mv = map (\<lambda>n. (rt @ [h]) @ [n]) ns"
      with ns show "keeps K (tryI (rmtree backup ''backup'' False) (replace_failed (rt @ [h]) backup mv))"
        by (intro keeps_tryI keeps_removal failed_keeps assms) auto
    qed (auto dest: install_all_moved)
  qed
qed

lemma replace_keeps:
  assumes "plain_names (map fst fl)"
  shows "keeps K (replace_canonical_files (rt @ [h]) fl)"
proof -
  let ?B = "rt @ [''.backups'']"
  have work: "work_directory rt x" if "\<exists>n. x = ?B @ [n] \<and> n \<notin> {[], ''.'', ''..''}" for x
    using that by (auto simp: work_directory_def)
  have "keeps K (bindI (ensure_infrastructure_directory rt [''.backups''] ''backup'') (\<lambda>parent.
        bindI (create_verified_tempdir parent (h @ ''.'') ''backup'') (\<lambda>temp.
        bindI (create_verified_tempdir parent (h @ ''.'') ''backup'') (\<lambda>backup.
        finallyI
          (bindI (tryI (thenI (write_files temp fl) (thenI (evacuate (rt @ [h]) backup) (iterdir temp)))
                    (replace_failed (rt @ [h]) backup [])) (\<lambda>names.
           bindI (install_all (rt @ [h]) temp backup [] names) (\<lambda>moved.
             tryI (rmtree backup ''backup'' False) (replace_failed (rt @ [h]) backup moved))))
          (bindI (see (\<lambda>fs. path_exists fs temp)) (\<lambda>there. whenI there (rmtree temp ''backup'' True)))))))"
  proof (rule keeps_bindI_res [where R = "\<lambda>x. x = ?B"])
    fix parent assume p: "parent = ?B"
    show "keeps K (bindI (create_verified_tempdir parent (h @ ''.'') ''backup'') (\<lambda>temp.
        bindI (create_verified_tempdir parent (h @ ''.'') ''backup'') (\<lambda>backup.
        finallyI
          (bindI (tryI (thenI (write_files temp fl) (thenI (evacuate (rt @ [h]) backup) (iterdir temp)))
                    (replace_failed (rt @ [h]) backup [])) (\<lambda>names.
           bindI (install_all (rt @ [h]) temp backup [] names) (\<lambda>moved.
             tryI (rmtree backup ''backup'' False) (replace_failed (rt @ [h]) backup moved))))
          (bindI (see (\<lambda>fs. path_exists fs temp)) (\<lambda>there. whenI there (rmtree temp ''backup'' True))))))"
      unfolding p
      by (intro keeps_bindI_res [where R = "work_directory rt"] keeps_tempdir replace_step_keeps assms)
         (auto dest!: create_tempdir_result intro: work)
  qed (auto intro: keeps_parent dest: ensure_infrastructure_result)
  then show ?thesis
    unfolding replace_canonical_files_def by (intro keeps_thenI keeps_ensure_actual) simp
qed

end


section \<open>Nothing else changes\<close>

lemma keeps_if: "(c \<Longrightarrow> keeps P m) \<Longrightarrow> keeps (\<lambda>w. c \<and> P w) m"
  by (auto simp: keeps_def)

lemma keeps_conj: "keeps P m \<Longrightarrow> keeps Q m \<Longrightarrow> keeps (\<lambda>w. P w \<and> Q w) m"
  by (simp add: keeps_def)

lemma keeps_imp: "keeps (\<lambda>w. c \<and> P w) m \<Longrightarrow> c \<Longrightarrow> keeps P m"
  by (simp add: keeps_def)

lemma work_directoryD:
  assumes "work_directory rt d" "memory_place rt h"
  shows "prefix rt d" "below rt d" "''..'' \<notin> set d" "prefix (rt @ [''.backups'']) d" "d \<noteq> rt @ [h]" "strict_prefix rt d"
    "rt @ [h, n] \<noteq> d" "d @ [n] \<noteq> rt @ [h, m]"
  using assms by (auto simp: work_directory_def memory_place_def below_def strict_prefix_def)

definition stays :: "path \<Rightarrow> string \<Rightarrow> (path \<Rightarrow> node option) \<Rightarrow> world \<Rightarrow> bool" where
  "stays rt h g w \<longleftrightarrow> (memory_place rt h \<and> root_there rt g) \<and> confined rt (replace_region rt h) g w"

lemma keeps_stays:
  "(memory_place rt h \<Longrightarrow> root_there rt g \<Longrightarrow> keeps (confined rt (replace_region rt h) g) m) \<Longrightarrow> keeps (stays rt h g) m"
  unfolding stays_def by (rule keeps_if) auto

lemma replace_region_work:
  assumes "work_directory rt d" "prefix d q"
  shows "q \<in> replace_region rt h"
proof -
  from assms(1) have "prefix (rt @ [''.backups'']) d" by (auto simp: work_directory_def)
  from prefix_order.trans [OF this assms(2)] show ?thesis by (rule replace_regionI(1))
qed

lemma stays_moves:
  assumes "memory_place rt h" "n \<noteq> ''..''" "work_directory rt d"
  shows "keeps (confined rt (replace_region rt h) g) (move_path (d @ [n]) (rt @ [h, n]))"
    and "keeps (confined rt (replace_region rt h) g) (move_path (rt @ [h, n]) (d @ [n]))"
proof -
  note W = work_directoryD [OF assms(3,1)] and P = memory_placeD [OF assms(1)]
  have b: "below rt (d @ [n])" "below rt (rt @ [h, n])" "strict_prefix rt (d @ [n])" "strict_prefix rt (rt @ [h, n])"
    using W(1,2) P(2,4) below_append [OF W(2,1) assms(2)] below_append [OF P(2,4) assms(2)]
    by (auto simp: strict_prefix_def)
  have r: "q \<in> replace_region rt h" if "prefix (d @ [n]) q" for q
    using replace_region_work [OF assms(3)] that by (metis append_prefixD)
  have r': "q \<in> replace_region rt h" if "prefix (rt @ [h, n]) q" for q
    using that replace_regionI(2) [of rt h n q] by simp
  show "keeps (confined rt (replace_region rt h) g) (move_path (d @ [n]) (rt @ [h, n]))"
    by (rule keeps_move_path) (use b r r' assms(2) in auto)
  show "keeps (confined rt (replace_region rt h) g) (move_path (rt @ [h, n]) (d @ [n]))"
    by (rule keeps_move_path) (use b r r' assms(2) in auto)
qed

lemma stays_writes:
  assumes "memory_place rt h" "root_there rt g" "work_directory rt d" "plain_names (map fst fl)"
  shows "keeps (confined rt (replace_region rt h) g) (write_files d fl)"
proof (rule keeps_write_files [OF _ _ assms(4)])
  note W = work_directoryD [OF assms(3,1)]
  show "prefix rt d" "below rt d" by (rule W)+
  show "q \<in> replace_region rt h" if "strict_prefix d q" for q
    by (rule replace_region_work [OF assms(3)]) (use that in \<open>simp add: strict_prefix_def\<close>)
  fix q assume q: "prefix q d" "q \<noteq> []"
  show "q \<in> replace_region rt h \<or> g q = Some Dir"
  proof (cases "prefix q rt")
    case True
    with assms(2) q show ?thesis by (simp add: root_there_def)
  next
    case False
    with q assms(3) have "prefix (rt @ [''.backups'']) q" by (auto simp: work_directory_def prefix_append prefix_Cons)
    then have "q \<in> replace_region rt h" by (rule replace_regionI(1))
    then show ?thesis ..
  qed
qed

interpretation stays: replacement_invariant rt h "stays rt h g" for rt h g
proof
  show "keeps (stays rt h g) (ensure_infrastructure_directory rt [''.backups''] ''backup'')"
    by (intro keeps_stays keeps_ensure_infrastructure)
       (auto simp: memory_place_def root_there_def replace_region_def strict_prefix_def prefix_append prefix_Cons)
  show "keeps (stays rt h g) (create_verified_tempdir (rt @ [''.backups'']) (h @ ''.'') ''backup'')"
    by (intro keeps_stays keeps_create_tempdir)
       (auto dest: memory_placeD intro!: replace_regionI(1) simp: strict_prefix_def)
  show "keeps (stays rt h g) (write_files d fl)" if "work_directory rt d" "plain_names (map fst fl)" for d fl
    by (intro keeps_stays stays_writes that)
  show "keeps (stays rt h g) (move_path (d @ [n]) (rt @ [h, n])) \<and> keeps (stays rt h g) (move_path (rt @ [h, n]) (d @ [n]))"
    if "n \<noteq> ''..''" "work_directory rt d" for n d
    by (intro conjI keeps_stays stays_moves that)
  show "keeps (stays rt h g) (undo_install (rt @ [h, n]))" if "n \<noteq> ''..''" for n
  proof (rule keeps_stays)
    assume "memory_place rt h"
    with that have "below rt (rt @ [h, n])" by (auto simp: memory_place_def below_def)
    moreover have "rt @ [h, n] \<in> replace_region rt h" by (auto simp: replace_region_def strict_prefix_def)
    ultimately show "keeps (confined rt (replace_region rt h) g) (undo_install (rt @ [h, n]))"
      unfolding undo_install_def by (intro keeps_bindI keeps_see keeps_whenI keeps_try_only keeps_unlink keeps_pure)
  qed
  show "keeps (stays rt h g) (rmtree d ''backup'' im)" if "work_directory rt d" for d im
    by (intro keeps_stays keeps_rmtree work_directoryD [OF that] replace_region_work [OF that])
qed

lemma keeps_replace_canonical:
  assumes "memory_place rt h" "root_there rt g" "plain_names (map fst fl)"
  shows "keeps (confined rt (replace_region rt h) g) (replace_canonical_files (rt @ [h]) fl)"
proof (rule keeps_imp)
  show "keeps (\<lambda>w. (memory_place rt h \<and> root_there rt g) \<and> confined rt (replace_region rt h) g w)
     (replace_canonical_files (rt @ [h]) fl)"
    using stays.replace_keeps [OF assms(3), of rt h g] unfolding stays_def [abs_def] .
qed (use assms in simp)

section \<open>Only regular files\<close>

text \<open>The places of the files of a memory and of the temporary directories.\<close>

definition leaf :: "path \<Rightarrow> string \<Rightarrow> path \<Rightarrow> bool" where
  "leaf rt h q \<longleftrightarrow> (\<exists>n. q = rt @ [h, n]) \<or> (\<exists>x n. q = rt @ [''.backups'', x, n])"

fun no_directory :: "node option \<Rightarrow> bool" where
  "no_directory None = True"
| "no_directory (Some (File b)) = True"
| "no_directory _ = False"

definition regular_leaves :: "path \<Rightarrow> string \<Rightarrow> world \<Rightarrow> bool" where
  "regular_leaves rt h w \<longleftrightarrow> memory_place rt h \<and> clean rt (files w) \<and>
     (\<forall>q. leaf rt h q \<longrightarrow> no_directory (node_at (files w) q))"

lemma keeps_regular_syscall:
  assumes "\<And>fs fs'. memory_place rt h \<Longrightarrow> clean rt fs \<Longrightarrow>
      \<forall>q. leaf rt h q \<longrightarrow> no_directory (node_at fs q) \<Longrightarrow> f fs = Inr fs' \<Longrightarrow>
      clean rt fs' \<and> (\<forall>q. leaf rt h q \<longrightarrow> no_directory (node_at fs' q))"
  shows "keeps (regular_leaves rt h) (syscall f)"
  unfolding keeps_def
proof (intro allI impI)
  fix w assume r: "regular_leaves rt h w"
  obtain res w' where s: "syscall f w = (res, w')" by fastforce
  from syscall_result [OF s] show "regular_leaves rt h (snd (syscall f w))"
    using assms [of "files w" "files w'"] r s by (auto simp: regular_leaves_def)
qed

lemma regular_unlink: "below rt p \<Longrightarrow> keeps (regular_leaves rt h) (unlink p)"
  unfolding unlink_def by (rule keeps_regular_syscall) (auto dest!: sys_unlink_effect)

lemma regular_rmdir: "below rt p \<Longrightarrow> keeps (regular_leaves rt h) (rmdir p)"
  unfolding rmdir_def by (rule keeps_regular_syscall) (auto dest!: sys_rmdir_effect)

lemma regular_write: "below rt p \<Longrightarrow> keeps (regular_leaves rt h) (write_bytes p b)"
  unfolding write_bytes_def by (rule keeps_regular_syscall) (auto dest!: sys_write_effect)

lemma regular_fsync: "keeps (regular_leaves rt h) fsync"
  unfolding fsync_def by (rule keeps_regular_syscall) auto

lemma regular_mkdir: "below rt p \<Longrightarrow> \<not> leaf rt h p \<Longrightarrow> keeps (regular_leaves rt h) (os_mkdir p)"
  unfolding os_mkdir_def by (rule keeps_regular_syscall) (auto dest!: sys_mkdir_effect)

lemma regular_rename:
  assumes "below rt s" "below rt d" "leaf rt h s" "s \<noteq> d"
  shows "keeps (regular_leaves rt h) (os_replace s d)"
  unfolding os_replace_def
proof (rule keeps_regular_syscall)
  fix fs fs' assume c: "clean rt fs" and l: "\<forall>q. leaf rt h q \<longrightarrow> no_directory (node_at fs q)"
    and r: "sys_rename s d fs = Inr fs'"
  have "node_at fs s \<noteq> None" using r assms(1) c by (cases "node_at fs s") (simp_all add: sys_rename_def Let_def place_clean)
  moreover have "no_directory (node_at fs s)" using l assms(3) by blast
  ultimately obtain b where "node_at fs s = Some (File b)"
    by (cases "node_at fs s" rule: no_directory.cases) auto
  from sys_rename_effect [OF r c assms(1,2) this assms(4)] l
  show "clean rt fs' \<and> (\<forall>q. leaf rt h q \<longrightarrow> no_directory (node_at fs' q))"
    by auto
qed

lemma regular_move:
  assumes "below rt s" "below rt d" "prefix rt d" "leaf rt h s" "s \<noteq> d" "\<not> prefix d s" "last s \<noteq> ''..''"
  shows "keeps (regular_leaves rt h) (move_path s d)"
proof (rule keeps_move_path_ops)
  fix real assume r: "real = d \<or> real = d @ [last s]"
  have "s \<noteq> d @ [last s]" using assms(6) by (metis prefixI)
  with r have "below rt real" "s \<noteq> real" using assms by (auto intro: below_append)
  with assms(1,4) show "keeps (regular_leaves rt h) (os_replace s real) \<and> (\<forall>b. keeps (regular_leaves rt h) (write_bytes real b))"
    by (simp add: regular_rename regular_write)
qed (rule regular_unlink [OF assms(1)])

lemma regular_mkdir_p:
  assumes "below rt p" "\<And>q. prefix q p \<Longrightarrow> \<not> leaf rt h q"
  shows "keeps (regular_leaves rt h) (mkdir_p p)"
  unfolding mkdir_p_def
proof (rule keeps_forI)
  fix q assume "q \<in> set (map (\<lambda>i. take i p) [1..<Suc (length p)])"
  then have q: "prefix q p" by (auto simp: take_is_prefix)
  have "keeps (regular_leaves rt h) (os_mkdir q)"
    by (rule regular_mkdir [OF below_prefix [OF assms(1) q] assms(2) [OF q]])
  then show "keeps (regular_leaves rt h) (mkdir_one q)"
    unfolding mkdir_one_def by (intro keeps_bindI keeps_see) (simp add: keeps_pure del: io_apply)
qed

lemma not_leaf [simp]:
  "prefix q rt \<Longrightarrow> \<not> leaf rt h q" "\<not> leaf rt h (rt @ [x])"
  "h \<noteq> ''.backups'' \<Longrightarrow> \<not> leaf rt h (rt @ [''.backups'', x])"
  by (auto simp: leaf_def dest: prefix_length_le)

lemma prefix_below_cases: "prefix q (p @ cs) \<Longrightarrow> prefix q p \<or> (\<exists>ds. ds \<noteq> [] \<and> q = p @ ds \<and> prefix ds cs)"
  by (auto simp: prefix_append)

lemma regular_writes:
  assumes "memory_place rt h" "work_directory rt d" "plain_names (map fst fl)"
  shows "keeps (regular_leaves rt h) (write_files d fl)"
  unfolding write_files_def
proof (rule keeps_forI, clarsimp)
  fix n b assume "(n, b) \<in> set fl"
  with assms(3) have n: "n \<notin> {[], ''.'', ''..''}" by (force simp: plain_names_def)
  note W = work_directoryD [OF assms(2,1)]
  from assms(2) obtain x where d: "d = rt @ [''.backups'', x]" by (auto simp: work_directory_def)
  have nl: "\<not> leaf rt h q" if "prefix q d" for q
    using prefix_below_cases [OF that [unfolded d]] assms(1)
    by (auto simp: prefix_Cons memory_place_def)
  let ?K = "regular_leaves rt h"
  have mk: "keeps ?K (mkdir_p d)" by (rule regular_mkdir_p [OF W(2) nl])
  have bn: "below rt (d @ [m])" if "m \<noteq> ''..''" for m by (rule below_append [OF W(2,1) that])
  have lf: "leaf rt h (d @ [m])" for m by (auto simp: leaf_def d)
  show "keeps ?K (atomic_write_bytes (d @ [n]) b)"
    unfolding atomic_write_bytes_def
  proof (simp only: butlast_snoc, rule keeps_thenI [OF mk], rule keeps_bindI_res [where R = "\<lambda>t. \<exists>m. t = d @ [m] \<and> m \<noteq> ''..'' \<and> startswith m (''.'' @ n @ ''.'')"])
    fix w x w' assume k: "?K w" and "see (\<lambda>fs. temp_path fs (d @ [n])) w = (Inr x, w')"
    then have x: "x = temp_path (files w) (d @ [n])" by auto
    have r: "resolve (files w) d = d" using k W(2) by (auto simp: regular_leaves_def resolve_clean)
    have "fresh_name (files w) d (''.'' @ n @ ''.'') \<noteq> ''..''"
      using fresh_name_plain [of "files w" d "''.'' @ n"] by simp
    then show "\<exists>m. x = d @ [m] \<and> m \<noteq> ''..'' \<and> startswith m (''.'' @ n @ ''.'')"
      using fresh_name_free(2) [of "files w" d "''.'' @ n @ ''.''"] by (simp add: x temp_path_def r Let_def)
  next
    fix t assume "\<exists>m. t = d @ [m] \<and> m \<noteq> ''..'' \<and> startswith m (''.'' @ n @ ''.'')"
    then obtain m where t: "t = d @ [m]" "m \<noteq> ''..''" "startswith m (''.'' @ n @ ''.'')" by auto
    have mn: "m \<noteq> n" using t(3) by (auto simp: startswith_append dest!: prefix_length_le)
    have w1: "keeps ?K (write_bytes t c)" for c using regular_write [OF bn [OF t(2)]] t(1) by simp
    have u1: "keeps ?K (unlink t)" using regular_unlink [OF bn [OF t(2)]] t(1) by simp
    have r1: "keeps ?K (replace_with_retry t (d @ [n]))"
      unfolding replace_with_retry_def t(1)
      by (rule regular_rename) (use bn t(2) n lf mn in auto)
    show "keeps ?K (thenI (write_bytes t [])
            (tryI (thenI (write_bytes t b) (thenI fsync (thenI (replace_with_retry t (d @ [n])) (fsync_parent_directory (d @ [n])))))
               (\<lambda>e. thenI (try_only [CFileNotFoundError] (unlink t) (\<lambda>_. ret ())) (raise e))))"
      unfolding fsync_parent_directory_def
      by (intro keeps_thenI keeps_tryI keeps_try_only keeps_pure w1 u1 r1 regular_fsync)
  qed (rule keeps_see)
qed

lemma regular_needs_place:
  assumes "memory_place rt h \<Longrightarrow> keeps (regular_leaves rt h) m"
  shows "keeps (regular_leaves rt h) m"
  using assms by (auto simp: keeps_def regular_leaves_def)

interpretation regular: replacement_invariant rt h "regular_leaves rt h" for rt h
proof
  let ?K = "regular_leaves rt h" and ?B = "rt @ [''.backups'']"
  have act: "keeps ?K (ensure_actual_directory rt ''backup'' True)" if "memory_place rt h"
    unfolding ensure_actual_directory_def whenI_simps
    by (rule keeps_thenI, rule regular_mkdir_p)
       (use memory_placeD(1) [OF that] in \<open>auto intro!: keeps_intros split: option.splits node.splits\<close>)
  have child: "keeps ?K (ensure_child_directory p n l)" if "below rt (p @ [n])" "\<not> leaf rt h (p @ [n])" for p n l
    unfolding ensure_child_directory_def Let_def
    by (intro keeps_bindI keeps_see keeps_thenI keeps_whenI regular_mkdir that keeps_ensure_actual)
  show "keeps ?K (ensure_infrastructure_directory rt [''.backups''] ''backup'')"
  proof (rule regular_needs_place)
    assume m: "memory_place rt h"
    show "keeps ?K (ensure_infrastructure_directory rt [''.backups''] ''backup'')"
      unfolding ensure_infrastructure_directory_def ensure_components.simps
      by (rule keeps_bindI_res [where R = "\<lambda>x. x = rt"])
         (use memory_placeD(3) [OF m] in \<open>auto intro!: act m keeps_bindI child keeps_pure dest: ensure_actual_result simp del: io_apply\<close>)
  qed
  show "keeps ?K (create_verified_tempdir ?B (h @ ''.'') ''backup'')"
  proof (rule regular_needs_place)
    assume m: "memory_place rt h"
    then have hb: "h \<noteq> ''.backups''" by (simp add: memory_place_def)
    show "keeps ?K (create_verified_tempdir ?B (h @ ''.'') ''backup'')"
      unfolding create_verified_tempdir_def
    proof (rule keeps_bindI_res [where R = "\<lambda>x. \<exists>n. x = ?B @ [n] \<and> n \<noteq> ''..''"])
      fix w x w' assume "see (\<lambda>fs. ?B @ [fresh_name fs (resolve fs ?B) (h @ ''.'')]) w = (Inr x, w')"
      with fresh_name_plain [of "files w" "resolve (files w) ?B" h] show "\<exists>n. x = ?B @ [n] \<and> n \<noteq> ''..''" by auto
    next
      fix x assume "\<exists>n. x = ?B @ [n] \<and> n \<noteq> ''..''"
      then obtain n where x: "x = ?B @ [n]" "n \<noteq> ''..''" by auto
      have "keeps ?K (os_mkdir x)"
        unfolding x(1) by (rule regular_mkdir) (use memory_placeD(3,5) [OF m] x(2) hb in \<open>auto simp: below_def\<close>)
      then show "keeps ?K (thenI (os_mkdir x) (ensure_actual_directory x ''backup'' False))"
        by (intro keeps_thenI keeps_ensure_actual)
    qed (rule keeps_see)
  qed
  show "keeps ?K (write_files d fl)" if "work_directory rt d" "plain_names (map fst fl)" for d fl
    by (rule regular_needs_place, rule regular_writes [OF _ that])
  show "keeps ?K (move_path (d @ [n]) (rt @ [h, n])) \<and> keeps ?K (move_path (rt @ [h, n]) (d @ [n]))"
    if n: "n \<noteq> ''..''" and d: "work_directory rt d" for n d
  proof (cases "memory_place rt h")
    case True
    note W = work_directoryD [OF d True] and P = memory_placeD [OF True]
    from d obtain x where dx: "d = rt @ [''.backups'', x]" by (auto simp: work_directory_def)
    have hb: "h \<noteq> ''.backups''" using True by (simp add: memory_place_def)
    have b: "below rt (d @ [n])" "below rt (rt @ [h, n])"
      using below_append [OF W(2,1) n] below_append [OF P(2,4) n] by simp_all
    have l: "leaf rt h (d @ [n])" "leaf rt h (rt @ [h, n])" by (auto simp: leaf_def dx)
    have "keeps ?K (move_path (d @ [n]) (rt @ [h, n]))"
      by (rule regular_move [OF b _ l(1)]) (use n hb dx in auto)
    moreover have "keeps ?K (move_path (rt @ [h, n]) (d @ [n]))"
      by (rule regular_move [OF b(2,1) _ l(2)]) (use n hb dx in auto)
    ultimately show ?thesis ..
  qed (auto intro: regular_needs_place)
  show "keeps ?K (undo_install (rt @ [h, n]))" if "n \<noteq> ''..''" for n
  proof (rule regular_needs_place)
    assume m: "memory_place rt h"
    have "below rt (rt @ [h, n])" using below_append [OF memory_placeD(2,4) [OF m] that] by simp
    then show "keeps ?K (undo_install (rt @ [h, n]))"
      unfolding undo_install_def by (intro keeps_bindI keeps_see keeps_whenI keeps_try_only regular_unlink keeps_pure)
  qed
  show "keeps ?K (rmtree d ''backup'' im)" if "work_directory rt d" for d im
  proof (rule regular_needs_place)
    assume m: "memory_place rt h"
    show "keeps ?K (rmtree d ''backup'' im)"
      by (rule keeps_rmtree_ops [OF work_directoryD(1,2) [OF that m]]) (simp add: regular_unlink regular_rmdir)
  qed
qed

end
