(* ===== verification/MemoryReplace.thy ===== *)
theory MemoryReplace
  imports MemoryInvariants "HOL-Library.Multiset"
begin

text \<open>
  Facts about \<^verbatim>\<open>agency/memory/store.py\<close>: what the directory operations of \<^verbatim>\<open>MemoryStore\<close> have
  done when they return, what replacing the files of a memory comes to, and what reading a memory
  shows.
\<close>

section \<open>What they have done when they return\<close>

text \<open>
  \<open>dir_holds g d fl\<close>: the directory \<open>d\<close> exists and dir_holds exactly the files \<open>fl\<close>. The names \<open>.\<close> and
  \<open>..\<close> are never entries.
\<close>

definition dir_holds :: "(path \<Rightarrow> node option) \<Rightarrow> path \<Rightarrow> memory_files \<Rightarrow> bool" where
  "dir_holds g d fl \<longleftrightarrow> g d = Some Dir \<and>
     (\<forall>n. n \<noteq> ''.'' \<longrightarrow> n \<noteq> ''..'' \<longrightarrow> g (d @ [n]) = map_option File (map_of fl n))"

lemma dir_holds_cong:
  "(\<And>q. q = d \<or> butlast q = d \<Longrightarrow> g' q = g q) \<Longrightarrow> dir_holds g d fl \<Longrightarrow> dir_holds g' d fl"
  by (simp add: dir_holds_def)

lemma succeeds_ensure_actual:
  assumes "below rt p"
  shows "succeeds (exact rt g) (ensure_actual_directory p l False) (\<lambda>x w. exact rt g w \<and> x = p \<and> g p = Some Dir)"
  by (rule succeedsI)
     (use assms in \<open>auto simp: exact_def ensure_actual_directory_def thenI_Inr_iff lstat_clean split: option.split_asm node.split_asm\<close>)

lemma succeeds_ensure_root:
  assumes "below rt p" "g p = Some Dir"
  shows "succeeds (exact rt g) (ensure_actual_directory p l True) (\<lambda>x w. exact rt g w \<and> x = p)"
proof (rule succeedsI)
  fix w x w' assume e: "exact rt g w" and run: "ensure_actual_directory p l True w = (Inr x, w')"
  then have "mkdir_p p w = (Inr (), w)" using assms mkdir_p_there by (auto simp: exact_def)
  with run have "ensure_actual_directory p l False w = (Inr x, w')"
    by (simp add: ensure_actual_directory_def thenI_apply)
  from succeedsD [OF succeeds_ensure_actual [OF assms(1)] e this] show "exact rt g w' \<and> x = p" by simp
qed

lemma succeeds_ensure_child:
  assumes "below rt (p @ [n])"
  shows "succeeds (exact rt g) (ensure_child_directory p n l) (\<lambda>x w. exact rt (g(p @ [n] \<mapsto> Dir)) w \<and> x = p @ [n])"
proof (rule succeedsI)
  fix w x w' assume e: "exact rt g w" and run: "ensure_child_directory p n l w = (Inr x, w')"
  then have l: "lstat_node (files w) (p @ [n]) = g (p @ [n])" using assms by (auto simp: exact_def lstat_clean)
  show "exact rt (g(p @ [n] \<mapsto> Dir)) w' \<and> x = p @ [n]"
  proof (cases "g (p @ [n])")
    case None
    with run l obtain w1 where w1: "os_mkdir (p @ [n]) w = (Inr (), w1)"
      "ensure_actual_directory (p @ [n]) l False w1 = (Inr x, w')"
      by (auto simp: ensure_child_directory_def Let_def thenI_Inr_iff)
    from succeedsD [OF succeeds_mkdir [OF assms] e w1(1)] have "exact rt (g(p @ [n] \<mapsto> Dir)) w1" .
    from succeedsD [OF succeeds_ensure_actual [OF assms] this w1(2)] show ?thesis by blast
  next
    case (Some m)
    with run l have "ensure_actual_directory (p @ [n]) l False w = (Inr x, w')"
      by (auto simp: ensure_child_directory_def Let_def thenI_Inr_iff)
    from succeedsD [OF succeeds_ensure_actual [OF assms] e this] show ?thesis by (auto simp: fun_upd_idem)
  qed
qed

lemma succeeds_tempdir:
  assumes "prefix rt p" "below rt p"
  shows "succeeds (exact rt g) (create_verified_tempdir p (pre @ ''.'') l)
    (\<lambda>x w. exact rt (g(x \<mapsto> Dir)) w \<and> g x = None \<and> (\<exists>n. x = p @ [n] \<and> n \<notin> {[], ''.'', ''..''}))"
proof (rule succeedsI)
  fix w x w' assume e: "exact rt g w" and run: "create_verified_tempdir p (pre @ ''.'') l w = (Inr x, w')"
  let ?n = "fresh_name (files w) (resolve (files w) p) (pre @ ''.'')"
  from run obtain w1 where w1: "os_mkdir (p @ [?n]) w = (Inr (), w1)"
    "ensure_actual_directory (p @ [?n]) l False w1 = (Inr x, w')"
    by (auto simp: create_verified_tempdir_def thenI_Inr_iff)
  have n: "?n \<notin> {[], ''.'', ''..''}" by (rule fresh_name_plain)
  then have b: "below rt (p @ [?n])" using below_append [OF assms(2,1)] by simp
  have "node_at (files w) (p @ [?n]) = None"
    using w1(1) sys_mkdir_effect [OF syscall_Inr [OF w1(1) [unfolded os_mkdir_def]] _ b] e by (auto simp: exact_def)
  then have "g (p @ [?n]) = None" using e by (auto simp: exact_def)
  with n succeedsD [OF succeeds_ensure_actual [OF b] succeedsD [OF succeeds_mkdir [OF b] e w1(1)] w1(2)]
  show "exact rt (g(x \<mapsto> Dir)) w' \<and> g x = None \<and> (\<exists>n. x = p @ [n] \<and> n \<notin> {[], ''.'', ''..''})" by blast
qed

text \<open>The lookup function after writing \<open>fl\<close> into \<open>d\<close>.\<close>

definition put_files :: "path \<Rightarrow> memory_files \<Rightarrow> (path \<Rightarrow> node option) \<Rightarrow> path \<Rightarrow> node option" where
  "put_files d fl g q =
     (if q \<noteq> [] \<and> butlast q = d \<and> map_of fl (last q) \<noteq> None then map_option File (map_of fl (last q)) else g q)"

lemma put_files_Nil [simp]: "put_files d [] g = g"
  by (simp add: put_files_def fun_eq_iff)

lemma put_files_child [simp]:
  "put_files d fl g (d @ [n]) = (case map_of fl n of Some b \<Rightarrow> Some (File b) | None \<Rightarrow> g (d @ [n]))"
  by (simp add: put_files_def split: option.splits)

lemma put_files_other: "q = [] \<or> butlast q \<noteq> d \<Longrightarrow> put_files d fl g q = g q"
  by (auto simp: put_files_def)

lemma put_files_self [simp]: "put_files d fl g d = g d"
  by (cases d rule: rev_cases) (simp_all add: put_files_def)

lemma snoc_conv: "q \<noteq> [] \<and> butlast q = d \<and> last q = n \<longleftrightarrow> q = d @ [n]"
  by (metis append_butlast_last_id snoc_eq_iff_butlast)

lemma put_files_snoc:
  assumes "n \<notin> fst ` set fl"
  shows "put_files d (fl @ [(n, b)]) g = (put_files d fl g)(d @ [n] \<mapsto> File b)"
proof (rule ext)
  fix q
  have [simp]: "map_of fl n = None" using assms by (simp add: map_of_eq_None_iff)
  show "put_files d (fl @ [(n, b)]) g q = ((put_files d fl g)(d @ [n] \<mapsto> File b)) q"
  proof (cases "q = d @ [n]")
    case True
    then show ?thesis by (simp add: map_add_def)
  next
    case False
    then have "q \<noteq> [] \<Longrightarrow> butlast q = d \<Longrightarrow> last q \<noteq> n" using snoc_conv by metis
    with False show ?thesis by (auto simp: put_files_def map_add_def split: option.splits)
  qed
qed

lemma succeeds_write_files:
  assumes "prefix rt d" "below rt d" "g d = Some Dir" "plain_names (map fst fl)"
  shows "succeeds (exact rt g) (write_files d fl) (\<lambda>_. exact rt (put_files d fl g))"
proof -
  have "succeeds (exact rt (put_files d [] g)) (write_files d fl) (\<lambda>_. exact rt (put_files d fl g))"
    unfolding write_files_def
  proof (rule succeeds_forI [where I = "\<lambda>fl. exact rt (put_files d fl g)"])
    fix x ys zs assume fl: "fl = ys @ x # zs"
    obtain n b where x: "x = (n, b)" by (cases x)
    from assms(4) fl x have n: "n \<notin> fst ` set ys" "n \<notin> {[], ''.'', ''..''}" by (auto simp: plain_names_def)
    have b: "below rt (d @ [n])" "strict_prefix rt (d @ [n])" "last (d @ [n]) \<noteq> []"
      using below_append [OF assms(2,1)] n assms(1) by (auto simp: strict_prefix_def)
    have d: "put_files d ys g (butlast (d @ [n])) = Some Dir" using assms(3) by simp
    from succeeds_atomic_write [where g = "put_files d ys g", OF b d, of b] put_files_snoc [OF n(1), of d b g]
    show "succeeds (exact rt (put_files d ys g)) ((\<lambda>(n, b). atomic_write_bytes (d @ [n]) b) x)
        (\<lambda>_. exact rt (put_files d (ys @ [x]) g))"
      by (simp only: x prod.case)
  qed
  then show ?thesis by simp
qed

text \<open>Moving the regular files \<open>ns\<close> from one directory to another.\<close>

definition moved_files :: "path \<Rightarrow> path \<Rightarrow> string list \<Rightarrow> (path \<Rightarrow> node option) \<Rightarrow> path \<Rightarrow> node option" where
  "moved_files s d ns g q =
     (if q \<noteq> [] \<and> last q \<in> set ns \<and> butlast q = s then None
      else if q \<noteq> [] \<and> last q \<in> set ns \<and> butlast q = d then g (s @ [last q]) else g q)"

lemma moved_files_Nil [simp]: "moved_files s d [] g = g"
  by (simp add: moved_files_def fun_eq_iff)

lemma moved_files_other: "q = [] \<or> butlast q \<noteq> s \<and> butlast q \<noteq> d \<Longrightarrow> moved_files s d ns g q = g q"
  by (auto simp: moved_files_def)

lemma moved_files_source [simp]: "moved_files s d ns g (s @ [n]) = (if n \<in> set ns then None else g (s @ [n]))"
  if "s \<noteq> d"
  using that by (simp add: moved_files_def)

lemma moved_files_target [simp]:
  "moved_files s d ns g (d @ [n]) = (if n \<in> set ns then g (s @ [n]) else g (d @ [n]))" if "s \<noteq> d"
  using that by (simp add: moved_files_def)

lemma moved_files_snoc:
  assumes "s \<noteq> d" "n \<notin> set ns"
  shows "moved_files s d (ns @ [n]) g = (moved_files s d ns g)(s @ [n] := None, d @ [n] := g (s @ [n]))"
proof (rule ext)
  fix q
  show "moved_files s d (ns @ [n]) g q = ((moved_files s d ns g)(s @ [n] := None, d @ [n] := g (s @ [n]))) q"
  proof (cases "q = s @ [n] \<or> q = d @ [n]")
    case True
    with assms show ?thesis by auto
  next
    case False
    then have "q \<noteq> [] \<Longrightarrow> last q = n \<Longrightarrow> butlast q \<noteq> s \<and> butlast q \<noteq> d" using snoc_conv by metis
    with False show ?thesis by (auto simp: moved_files_def)
  qed
qed

lemma succeeds_move_path:
  assumes "below rt src" "below rt dst" "src \<noteq> dst" "g src = Some (File b)" "g dst \<noteq> Some Dir"
  shows "succeeds (exact rt g) (move_path src dst) (\<lambda>_. exact rt (g(src := None, dst \<mapsto> File b)))"
proof (rule succeedsI)
  fix w u w' assume e: "exact rt g w" and run: "move_path src dst w = (Inr u, w')"
  then have d: "\<not> is_dir (files w) dst" using assms(2,5) by (auto simp: exact_def is_dir_clean)
  obtain r w1 where o: "os_replace src dst w = (r, w1)" by fastforce
  show "exact rt (g(src := None, dst \<mapsto> File b)) w'"
  proof (cases r)
    case (Inr v)
    with o run d have "w' = w1" by (auto simp: move_path_def try_only_def tryI_def thenI_Inr_iff)
    with succeedsD [OF succeeds_rename [where g = g, OF assms(1,2,4,3)] e] o Inr show ?thesis by blast
  next
    case (Inl x)
    have "files w1 = files w" using o unfolding os_replace_def Inl by (rule syscall_Inl)
    with e have e1: "exact rt g w1" by (simp add: exact_def)
    then have "lstat_node (files w1) src = Some (File b)" "stat_node (files w1) src = Some (File b)"
      using assms by (auto simp: exact_def lstat_clean stat_clean)
    with o run d Inl obtain w2 w3 where w: "write_bytes dst [] w1 = (Inr (), w2)" "write_bytes dst b w2 = (Inr (), w3)"
        "unlink src w3 = (Inr (), w')"
      by (auto simp: move_path_def try_only_def tryI_def thenI_Inr_iff bindI_Inr_iff read_bytes_def split: if_splits)
    note e2 = succeedsD [OF succeeds_write [OF assms(2)] e1 w(1)]
    note e3 = succeedsD [OF succeeds_write [OF assms(2)] e2 w(2)]
    note e4 = succeedsD [OF succeeds_unlink [OF assms(1)] e3 w(3)]
    have "(g(dst \<mapsto> File [], dst \<mapsto> File b))(src := None) = g(src := None, dst \<mapsto> File b)"
      using assms(3) by auto
    with e4 show ?thesis by (simp only:)
  qed
qed

text \<open>\<open>ns\<close> names regular files of \<open>s\<close> and no directory of \<open>d\<close>.\<close>

definition movable :: "(path \<Rightarrow> node option) \<Rightarrow> path \<Rightarrow> path \<Rightarrow> string list \<Rightarrow> bool" where
  "movable g s d ns \<longleftrightarrow> distinct ns \<and>
     (\<forall>n\<in>set ns. n \<noteq> ''..'' \<and> (\<exists>b. g (s @ [n]) = Some (File b)) \<and> g (d @ [n]) \<noteq> Some Dir)"

lemma succeeds_move_all:
  assumes "prefix rt s" "below rt s" "prefix rt d" "below rt d" "s \<noteq> d" "movable g s d ns"
  shows "succeeds (exact rt g) (forI (\<lambda>n. move_path (s @ [n]) (d @ [n])) ns) (\<lambda>_. exact rt (moved_files s d ns g))"
proof -
  have "succeeds (exact rt (moved_files s d [] g)) (forI (\<lambda>n. move_path (s @ [n]) (d @ [n])) ns)
    (\<lambda>_. exact rt (moved_files s d ns g))"
  proof (rule succeeds_forI [where I = "\<lambda>ns. exact rt (moved_files s d ns g)"])
    fix n ys zs assume ns: "ns = ys @ n # zs"
    with assms(6) obtain b where n: "n \<notin> set ys" "n \<noteq> ''..''" "g (s @ [n]) = Some (File b)" "g (d @ [n]) \<noteq> Some Dir"
      by (auto simp: movable_def)
    have "succeeds (exact rt (moved_files s d ys g)) (move_path (s @ [n]) (d @ [n]))
        (\<lambda>_. exact rt ((moved_files s d ys g)(s @ [n] := None, d @ [n] \<mapsto> File b)))"
      by (rule succeeds_move_path) (use assms n below_append in auto)
    with moved_files_snoc [OF assms(5) n(1), of g] n(3)
    show "succeeds (exact rt (moved_files s d ys g)) (move_path (s @ [n]) (d @ [n]))
        (\<lambda>_. exact rt (moved_files s d (ys @ [n]) g))" by (simp only:)
  qed
  then show ?thesis by simp
qed


text \<open>A directory that was removed is gone with all that was in it.\<close>

definition gone :: "path \<Rightarrow> (path \<Rightarrow> node option) \<Rightarrow> path \<Rightarrow> node option" where
  "gone p g q = (if prefix p q then None else g q)"

lemma safe_rmtree_gone:
  assumes "clean rt (files w)" "prefix rt p" "below rt p" "safe_rmtree n p l im w = (Inr u, w')"
  shows "node_at (files w') p = None \<and> clean rt (files w')"
proof (cases n)
  case 0
  with assms(4) show ?thesis by simp
next
  case (Suc m)
  let ?K = "confined rt UNIV (\<lambda>_. None)"
  from assms(4) [unfolded Suc safe_rmtree.simps(2)] obtain go w1 where
    go: "try_only [CMemoryStoreError] (bindI (ensure_actual_directory p l False) (\<lambda>_. ret True))
              (\<lambda>e. bindI (see (\<lambda>fs. path_exists fs p)) (\<lambda>there.
                 if im \<and> \<not> there then ret False else raise e)) w = (Inr go, w1)"
    and rest: "(if \<not> go then ret ()
       else bindI (iterdir p) (\<lambda>names.
         thenI (forI (\<lambda>name.
             bindI (see (\<lambda>fs. lstat_node fs (p @ [name]))) (\<lambda>entry.
               if is_link entry then raise (store_error (''unsafe '' @ l @ '' entry: '' @ path_str (p @ [name])))
               else if entry = Some Dir then safe_rmtree m (p @ [name]) l False
               else unlink (p @ [name]))) names)
           (rmdir p))) w1 = (Inr u, w')"
    unfolding bindI_Inr_iff by blast
  have "keeps ?K (try_only [CMemoryStoreError] (bindI (ensure_actual_directory p l False) (\<lambda>_. ret True))
              (\<lambda>e. bindI (see (\<lambda>fs. path_exists fs p)) (\<lambda>there.
                 if im \<and> \<not> there then ret False else raise e)))"
    by (intro keeps_try_only keeps_bindI keeps_see keeps_ensure_actual) (auto intro!: keeps_pure)
  from keepsD [OF this _ go] assms(1) have K1: "?K w1" by (simp add: confined_def)
  show ?thesis
  proof (cases go)
    case True
    from rest True obtain names w2 where i: "iterdir p w1 = (Inr names, w1)"
      and f: "forI (\<lambda>name.
             bindI (see (\<lambda>fs. lstat_node fs (p @ [name]))) (\<lambda>entry.
               if is_link entry then raise (store_error (''unsafe '' @ l @ '' entry: '' @ path_str (p @ [name])))
               else if entry = Some Dir then safe_rmtree m (p @ [name]) l False
               else unlink (p @ [name]))) names w1 = (Inr (), w2)"
      and r: "rmdir p w2 = (Inr u, w')" by (auto simp: bindI_Inr_iff thenI_Inr_iff dest: iterdir_Inr)
    have "keeps ?K (forI (\<lambda>name.
             bindI (see (\<lambda>fs. lstat_node fs (p @ [name]))) (\<lambda>entry.
               if is_link entry then raise (store_error (''unsafe '' @ l @ '' entry: '' @ path_str (p @ [name])))
               else if entry = Some Dir then safe_rmtree m (p @ [name]) l False
               else unlink (p @ [name]))) names)"
    proof (rule keeps_forI, rule keeps_rm_entry [OF assms(2,3)])
      show "keeps ?K (unlink q)" if "below rt q" for q by (rule keeps_unlink [OF that]) simp
      show "keeps ?K (safe_rmtree m q l im)" if "prefix p q" "below rt q" for q im
        by (rule keeps_safe_rmtree_ops [OF prefix_order.trans [OF assms(2) that(1)] that(2)])
           (auto intro: keeps_unlink keeps_rmdir)
    qed (use iterdir_names [OF i] in auto)
    from keepsD [OF this K1 f] have c: "clean rt (files w2)" by (simp add: confined_def)
    from r have "sys_rmdir p (files w2) = Inr (files w')" unfolding rmdir_def by (rule syscall_Inr)
    from sys_rmdir_effect [OF this c assms(3)] show ?thesis by simp
  next
    case False
    with rest have "w' = w1" by simp
    moreover from False go have "\<not> path_exists (files w1) p"
      by (auto simp: try_only_def tryI_def bindI_apply split: prod.splits sum.splits if_splits)
    ultimately show ?thesis using assms(3) K1 by (simp add: exists_clean confined_def)
  qed
qed

lemma succeeds_rmtree:
  assumes "prefix rt p" "below rt p"
  shows "succeeds (exact rt g) (rmtree p l im) (\<lambda>_. exact rt (gone p g))"
proof (rule succeedsI)
  fix w u w' assume e: "exact rt g w" and run: "rmtree p l im w = (Inr u, w')"
  then have c: "clean rt (files w)" by (simp add: exact_def)
  from run have s: "safe_rmtree (Suc (length (files w))) p l im w = (Inr u, w')" by (simp add: rmtree_def)
  from safe_rmtree_gone [OF c assms s] have n: "node_at (files w') p = None" and c': "clean rt (files w')" by simp_all
  have "keeps (confined rt {q. prefix p q} g) (safe_rmtree (Suc (length (files w))) p l im)"
    by (rule keeps_safe_rmtree_ops [OF assms]) (auto intro: keeps_unlink keeps_rmdir)
  from keepsD [OF this _ s] e have f: "node_at (files w') q = g q" if "\<not> prefix p q" for q
    using that by (auto simp: confined_def exact_def)
  have "node_at (files w') q = None" if "prefix p q" for q
  proof (rule ccontr)
    assume q: "node_at (files w') q \<noteq> None"
    with n that have "strict_prefix p q" by (auto simp: strict_prefix_def)
    from tree_prefix_dir [OF _ q this] c' n show False by (simp add: clean_def)
  qed
  with f c' show "exact rt (gone p g) w'" by (auto simp: exact_def gone_def fun_eq_iff)
qed


lemma succeeds_evacuate:
  assumes "prefix rt d" "below rt d" "prefix rt b" "below rt b" "d \<noteq> b" "dir_holds g d old" "\<forall>n. g (b @ [n]) = None"
  shows "succeeds (exact rt g) (evacuate d b)
    (\<lambda>_ w. \<exists>ns. set ns = {n. g (d @ [n]) \<noteq> None \<and> n \<noteq> ''.'' \<and> n \<noteq> ''..''} \<and> exact rt (moved_files d b ns g) w)"
proof (rule succeedsI)
  fix w u w' assume e: "exact rt g w" and run: "evacuate d b w = (Inr u, w')"
  have "g d = Some Dir" using assms(6) by (simp add: dir_holds_def)
  then have "path_exists (files w) d" using e assms(2) by (auto simp: exact_def exists_clean)
  with run obtain ns w1 where i: "iterdir d w = (Inr ns, w1)" and f: "forI (\<lambda>n. move_path (d @ [n]) (b @ [n])) ns w1 = (Inr u, w')"
    by (auto simp: evacuate_def bindI_Inr_iff)
  from succeedsD [OF succeeds_iterdir [OF assms(2)] e i]
  have ns: "exact rt g w1" "distinct ns" "set ns = {n. g (d @ [n]) \<noteq> None \<and> n \<noteq> ''.'' \<and> n \<noteq> ''..''}" by auto
  have "movable g d b ns"
    using ns(2,3) assms(6,7) by (auto simp: movable_def dir_holds_def)
  from succeedsD [OF succeeds_move_all [OF assms(1-5) this] ns(1) f] ns(3)
  show "\<exists>ns. set ns = {n. g (d @ [n]) \<noteq> None \<and> n \<noteq> ''.'' \<and> n \<noteq> ''..''} \<and> exact rt (moved_files d b ns g) w'" by blast
qed

lemma finallyI_Inr: "finallyI m c w = (Inr x, w') \<Longrightarrow> \<exists>w1. m w = (Inr x, w1) \<and> c w1 = (Inr (), w')"
  by (auto simp: finallyI_def split: prod.splits sum.splits exn.splits)

lemma tree_no_child: "clean rt fs \<Longrightarrow> node_at fs p = None \<Longrightarrow> node_at fs (p @ [n]) = None"
  by (rule tree_file_no_child [of fs p]) (auto simp: clean_def)

text \<open>What is left of the lookup function after a replacement that returned.\<close>

lemma replace_canonical_succeeds:
  assumes m: "memory_place rt h" and r: "root_there rt (node_at (files w))" and c: "clean rt (files w)"
    and old: "dir_holds (node_at (files w)) (rt @ [h]) old" and n: "plain_names (map fst fl)"
    and run: "replace_canonical_files (rt @ [h]) fl w = (Inr u, w')"
  shows "dir_holds (node_at (files w')) (rt @ [h]) fl \<and> clean rt (files w')"
proof -
  note P = memory_placeD [OF m]
  let ?d = "rt @ [h]" and ?B = "rt @ [''.backups'']"
  have hB: "h \<noteq> ''.backups''" using m by (simp add: memory_place_def)
  define g where "g = node_at (files w)"
  have e0: "exact rt g w" using c by (simp add: exact_def g_def)
  have gr: "g rt = Some Dir" using r by (simp add: root_there_def g_def)
  from run obtain w1 where a: "ensure_actual_directory ?d ''memory'' False w = (Inr ?d, w1)"
    and run1: "bindI (ensure_infrastructure_directory rt [''.backups''] ''backup'') (\<lambda>parent.
        bindI (create_verified_tempdir parent (h @ ''.'') ''backup'') (\<lambda>temp.
        bindI (create_verified_tempdir parent (h @ ''.'') ''backup'') (\<lambda>backup.
        finallyI
          (bindI (tryI (thenI (write_files temp fl) (thenI (evacuate ?d backup) (iterdir temp)))
                    (replace_failed ?d backup [])) (\<lambda>names.
           bindI (install_all ?d temp backup [] names) (\<lambda>moved.
             tryI (rmtree backup ''backup'' False) (replace_failed ?d backup moved))))
          (bindI (see (\<lambda>fs. path_exists fs temp)) (\<lambda>there. whenI there (rmtree temp ''backup'' True)))))) w1 = (Inr u, w')"
    by (auto simp: replace_canonical_files_def thenI_Inr_iff dest: ensure_actual_result)
  have e1: "exact rt g w1" using succeedsD [OF succeeds_ensure_actual [OF P(2)] e0 a] by simp
  from run1 obtain parent w2 where i0: "ensure_infrastructure_directory rt [''.backups''] ''backup'' w1 = (Inr parent, w2)"
    and run2: "bindI (create_verified_tempdir parent (h @ ''.'') ''backup'') (\<lambda>temp.
        bindI (create_verified_tempdir parent (h @ ''.'') ''backup'') (\<lambda>backup.
        finallyI
          (bindI (tryI (thenI (write_files temp fl) (thenI (evacuate ?d backup) (iterdir temp)))
                    (replace_failed ?d backup [])) (\<lambda>names.
           bindI (install_all ?d temp backup [] names) (\<lambda>moved.
             tryI (rmtree backup ''backup'' False) (replace_failed ?d backup moved))))
          (bindI (see (\<lambda>fs. path_exists fs temp)) (\<lambda>there. whenI there (rmtree temp ''backup'' True))))) w2 = (Inr u, w')"
    unfolding bindI_Inr_iff [of "ensure_infrastructure_directory rt [''.backups''] ''backup''"] by blast
  have par: "parent = ?B" using ensure_infrastructure_result [OF i0] by simp
  note i = i0 [unfolded par]
  from run2 [unfolded par] obtain temp w3 backup w4 where
    t: "create_verified_tempdir ?B (h @ ''.'') ''backup'' w2 = (Inr temp, w3)"
    and b: "create_verified_tempdir ?B (h @ ''.'') ''backup'' w3 = (Inr backup, w4)"
    and run3: "finallyI
          (bindI (tryI (thenI (write_files temp fl) (thenI (evacuate ?d backup) (iterdir temp)))
                    (replace_failed ?d backup [])) (\<lambda>names.
           bindI (install_all ?d temp backup [] names) (\<lambda>moved.
             tryI (rmtree backup ''backup'' False) (replace_failed ?d backup moved))))
          (bindI (see (\<lambda>fs. path_exists fs temp)) (\<lambda>there. whenI there (rmtree temp ''backup'' True))) w4 = (Inr u, w')"
    unfolding bindI_Inr_iff [of "create_verified_tempdir ?B (h @ ''.'') ''backup''"] by blast
  define g2 where "g2 = g(?B \<mapsto> Dir)"
  have e2: "exact rt g2 w2"
  proof -
    from i obtain wa wb where "ensure_actual_directory rt ''backup'' True w1 = (Inr rt, wa)"
        "ensure_child_directory rt ''.backups'' ''backup'' wa = (Inr ?B, w2)"
      by (auto simp: ensure_infrastructure_directory_def bindI_Inr_iff dest: ensure_actual_result)
    from succeedsD [OF succeeds_ensure_child [OF P(3)] succeedsD [OF succeeds_ensure_root [where g = g, OF P(1) gr] e1 this(1), THEN conjunct1] this(2)]
    show ?thesis by (simp only: g2_def)
  qed
  from succeedsD [OF succeeds_tempdir [OF P(5,3)] e2 t] obtain tn where
    e3: "exact rt (g2(temp \<mapsto> Dir)) w3" and tn: "g2 temp = None" "temp = ?B @ [tn]" "tn \<notin> {[], ''.'', ''..''}" by auto
  from succeedsD [OF succeeds_tempdir [OF P(5,3)] e3 b] obtain bn where
    e4: "exact rt (g2(temp \<mapsto> Dir, backup \<mapsto> Dir)) w4" and bn: "(g2(temp \<mapsto> Dir)) backup = None" "backup = ?B @ [bn]"
      "bn \<notin> {[], ''.'', ''..''}" by blast
  define g4 where "g4 = g2(temp \<mapsto> Dir, backup \<mapsto> Dir)"
  have tb: "temp \<noteq> backup" using bn(1) by auto
  have T: "prefix rt temp" "below rt temp" and Bk: "prefix rt backup" "below rt backup"
    using tn bn P(3) by (auto simp: below_def)
  from e2 have c2: "clean rt (files w2)" "node_at (files w2) = g2" by (simp_all add: exact_def)
  have kids2: "g2 (p @ [n]) = None" if "g2 p = None" for p n
    using tree_no_child [OF c2(1), of p n] that c2(2) by simp
  have ne: "temp \<noteq> ?d" "backup \<noteq> ?d" "temp \<noteq> ?B" "backup \<noteq> ?B" "\<And>n. temp @ [n] \<noteq> backup" "\<And>n. backup @ [n] \<noteq> temp"
    "\<And>n. ?d @ [n] \<noteq> temp" "\<And>n. ?d @ [n] \<noteq> backup" "\<And>n. ?d @ [n] \<noteq> ?B" "?d \<noteq> ?B"
    using tn bn hB by auto
  have kids: "g4 (temp @ [n]) = None" "g4 (backup @ [n]) = None" for n
  proof -
    have "g2 backup = None" using bn(1) tb by simp
    with kids2 tn(1) ne show "g4 (temp @ [n]) = None" "g4 (backup @ [n]) = None" by (auto simp: g4_def)
  qed
  have gd: "g4 ?d = Some Dir" "g4 (?d @ [n]) = g (?d @ [n])" for n
    using old ne by (auto simp: g4_def g2_def dir_holds_def g_def)
  have hd4: "dir_holds g4 ?d old" using old gd by (simp add: dir_holds_def g_def)
  from finallyI_Inr [OF run3] obtain w9 where
    "bindI (tryI (thenI (write_files temp fl) (thenI (evacuate ?d backup) (iterdir temp)))
                    (replace_failed ?d backup [])) (\<lambda>names.
           bindI (install_all ?d temp backup [] names) (\<lambda>moved.
             tryI (rmtree backup ''backup'' False) (replace_failed ?d backup moved))) w4 = (Inr u, w9)"
    and fin: "bindI (see (\<lambda>fs. path_exists fs temp)) (\<lambda>there. whenI there (rmtree temp ''backup'' True)) w9 = (Inr (), w')"
    by blast
  then obtain w5 w6 names w7 w8 where wf: "write_files temp fl w4 = (Inr (), w5)"
    and ev: "evacuate ?d backup w5 = (Inr (), w6)" and it: "iterdir temp w6 = (Inr names, w7)"
    and ins: "forI (\<lambda>n. move_path (temp @ [n]) (?d @ [n])) names w7 = (Inr (), w8)"
    and rm: "rmtree backup ''backup'' False w8 = (Inr u, w9)"
    unfolding bindI_Inr_iff try_replace_failed thenI_Inr_iff by (auto dest: install_all_moved)
  define g5 where "g5 = put_files temp fl g4"
  have "g4 temp = Some Dir" using tb by (simp add: g4_def)
  from succeedsD [OF succeeds_write_files [where g = g4, OF T this n] e4 [folded g4_def] wf] have e5: "exact rt g5 w5"
    by (simp add: g5_def)
  have d5: "g5 (?d @ [n]) = g4 (?d @ [n])" "g5 ?d = Some Dir" "g5 (backup @ [n]) = None" for n
  proof -
    show "g5 (?d @ [n]) = g4 (?d @ [n])" unfolding g5_def by (rule put_files_other) (use ne(1) in \<open>simp add: butlast_append\<close>)
    have "butlast ?d \<noteq> temp" using tn(2) by auto
    then show "g5 ?d = Some Dir" using gd(1) put_files_other [of ?d temp fl g4] by (simp add: g5_def)
    have "butlast (backup @ [n]) \<noteq> temp" using tb by simp
    then show "g5 (backup @ [n]) = None" using kids put_files_other [of "backup @ [n]" temp fl g4] by (simp add: g5_def)
  qed
  then have h5: "dir_holds g5 ?d old" using hd4 by (simp add: dir_holds_def)
  have "\<forall>n. g5 (backup @ [n]) = None" using d5 by simp
  from succeedsD [OF succeeds_evacuate [where g = g5, OF P(4,2) Bk ne(2) [symmetric] h5 this] e5 ev] obtain ns where
    ns: "set ns = {n. g5 (?d @ [n]) \<noteq> None \<and> n \<noteq> ''.'' \<and> n \<noteq> ''..''}"
    and e6: "exact rt (moved_files ?d backup ns g5) w6" by auto
  define g6 where "g6 = moved_files ?d backup ns g5"
  note e6' = e6 [folded g6_def]
  have t6: "g6 (temp @ [n]) = map_option File (map_of fl n)" for n
  proof -
    have "g6 (temp @ [n]) = g5 (temp @ [n])"
      unfolding g6_def by (rule moved_files_other) (simp only: butlast_snoc ne(1) tb simp_thms)
    with kids(1) show ?thesis by (simp add: g5_def split: option.splits)
  qed
  from succeedsD [OF succeeds_iterdir [OF T(2)] e6' it] have nm: "exact rt g6 w7" "distinct names"
    "set names = {n. g6 (temp @ [n]) \<noteq> None \<and> n \<noteq> ''.'' \<and> n \<noteq> ''..''}" by auto
  have d6: "g6 (?d @ [n]) = None" if "n \<noteq> ''.''" "n \<noteq> ''..''" for n
    using ns that moved_files_source [OF ne(2) [symmetric], of ns g5 n]
    unfolding g6_def by (cases "g5 (?d @ [n])") (simp_all del: append_assoc)
  have "movable g6 temp ?d names"
    using nm(2,3) t6 d6 by (auto simp: movable_def simp del: append_assoc)
  from succeedsD [OF succeeds_move_all [where g = g6, OF T P(4,2) ne(1) this] nm(1) ins]
  have e8: "exact rt (moved_files temp ?d names g6) w8" .
  define g8 where "g8 = moved_files temp ?d names g6"
  from succeedsD [OF succeeds_rmtree [OF Bk] e8 [folded g8_def] rm] have e9: "exact rt (gone backup g8) w9" .
  have d8: "g8 (?d @ [n]) = map_option File (map_of fl n)" if "n \<noteq> ''.''" "n \<noteq> ''..''" for n
  proof -
    have "n \<in> set names \<longleftrightarrow> map_of fl n \<noteq> None" using nm(3) t6 that by simp
    with d6 [OF that] t6 ne(1) show ?thesis by (cases "map_of fl n") (auto simp: g8_def simp del: append_assoc)
  qed
  have dd: "g8 ?d = Some Dir"
  proof -
    have "butlast ?d \<noteq> temp" "butlast ?d \<noteq> backup" "butlast ?d \<noteq> ?d" using tn bn by auto
    then show ?thesis using d5(2) by (simp add: g8_def g6_def moved_files_other)
  qed
  have nb: "\<not> prefix backup (?d @ [n])" "\<not> prefix backup ?d" "\<not> prefix temp (?d @ [n])" "\<not> prefix temp ?d" for n
    using tn bn hB by auto
  have h9: "dir_holds (gone backup g8) ?d fl" "dir_holds (gone temp (gone backup g8)) ?d fl"
    using d8 dd nb by (auto simp: dir_holds_def gone_def simp del: append_assoc)
  show ?thesis
  proof (cases "path_exists (files w9) temp")
    case True
    with fin have "rmtree temp ''backup'' True w9 = (Inr (), w')" by simp
    from succeedsD [OF succeeds_rmtree [OF T] e9 this] h9 show ?thesis by (simp add: exact_def)
  next
    case False
    with fin have "w' = w9" by simp
    with e9 h9 show ?thesis by (simp add: exact_def)
  qed
qed


section \<open>Reading a memory\<close>

lemma read_bytes_Inr_iff: "read_bytes p w = (Inr b, w') \<longleftrightarrow> w' = w \<and> stat_node (files w) p = Some (File b)"
proof (cases "stat_node (files w) p")
  case (Some n)
  then show ?thesis by (cases n) (auto simp: read_bytes_def)
qed (simp add: read_bytes_def)

lemma read_entries_result:
  assumes "clean rt (files w)" "prefix rt d" "below rt d" "read_entries E d ns seen w = (Inr fl, w')"
    and "\<forall>n\<in>set ns. n \<noteq> ''..''"
  shows "w' = w \<and> map fst fl = ns \<and> list_all (filename_ok E) ns \<and>
    list_all (\<lambda>(n, b). node_at (files w) (d @ [n]) = Some (File b)) fl"
  using assms(4,5)
proof (induction ns arbitrary: seen fl)
  case Nil
  then show ?case by simp
next
  case (Cons n ns)
  have b: "below rt (d @ [n])" using below_append [OF assms(3,2)] Cons.prems(2) by simp
  from Cons.prems(1) obtain seen' bs rest where v: "validate_filename E n seen = Inr seen'"
    and rd: "read_bytes (d @ [n]) w = (Inr bs, w)" and rs: "read_entries E d ns seen' w = (Inr rest, w')"
    and fl: "fl = (n, bs) # rest"
    by (auto simp: bindI_Inr_iff thenI_Inr_iff read_bytes_Inr_iff split: if_splits)
  have ok: "filename_ok E n" using v by (simp add: validate_filename_Inr)
  have f: "node_at (files w) (d @ [n]) = Some (File bs)"
    using rd stat_clean [OF assms(1) b] by (simp add: read_bytes_Inr_iff)
  from Cons.IH [OF rs] Cons.prems(2) have "w' = w \<and> map fst rest = ns \<and> list_all (filename_ok E) ns \<and>
      list_all (\<lambda>(n, b). node_at (files w) (d @ [n]) = Some (File b)) rest" by simp
  with ok f fl show ?case by simp
qed

lemma map_of_files:
  assumes "distinct (map fst fl)" "list_all (\<lambda>(n, b). g n = Some (File b)) fl" "g n \<noteq> None \<Longrightarrow> n \<in> fst ` set fl"
  shows "g n = map_option File (map_of fl n)"
proof (cases "map_of fl n")
  case None
  then have "n \<notin> fst ` set fl" by (simp add: map_of_eq_None_iff)
  with assms(3) None show ?thesis by auto
next
  case (Some b)
  then have "(n, b) \<in> set fl" by (rule map_of_SomeD)
  with assms(2) have "g n = Some (File b)" by (auto simp: list_all_iff)
  with Some show ?thesis by simp
qed

lemma read_canonical_files_result:
  assumes "clean rt (files w)" "prefix rt d" "below rt d" "node_at (files w) d = Some Dir"
    and "read_canonical_files E d w = (Inr fl, w')"
  shows "w' = w \<and> dir_holds (node_at (files w)) d fl \<and> plain_names (map fst fl)"
proof -
  have "path_exists (files w) d" using assms(1,3,4) by (simp add: exists_clean)
  with assms(5) obtain w1 ns w2 where a: "ensure_actual_directory d ''memory'' False w = (Inr d, w1)"
    and i: "iterdir d w1 = (Inr ns, w2)" and r: "read_entries E d (sort_key (me_casefold E) ns) [] w2 = (Inr fl, w')"
    by (auto simp: read_canonical_files_def bindI_Inr_iff thenI_Inr_iff dest: ensure_actual_result)
  have "keeps (\<lambda>v. v = w) (ensure_actual_directory d ''memory'' False)" by (rule keeps_ensure_actual)
  from keepsD [OF this _ a] have "w1 = w" by simp
  with iterdir_Inr [OF i] have i: "w2 = w" "ns = listdir (files w) d" by simp_all
  note L = listdir_clean [OF assms(1,3)]
  have s: "set (sort_key (me_casefold E) ns) = set ns" "distinct (sort_key (me_casefold E) ns)"
    using L i by simp_all
  have "\<forall>n\<in>set (sort_key (me_casefold E) ns). n \<noteq> ''..''" using L i by auto
  from read_entries_result [OF assms(1-3) r [unfolded i(1)] this]
  have f: "w' = w" "map fst fl = sort_key (me_casefold E) ns" "list_all (filename_ok E) (sort_key (me_casefold E) ns)"
    "list_all (\<lambda>(n, b). node_at (files w) (d @ [n]) = Some (File b)) fl" by simp_all
  have dist: "distinct (map fst fl)" using f(2) s(2) by simp
  have names: "fst ` set fl = set ns" using f(2) s(1) by (metis list.set_map)
  have "node_at (files w) (d @ [n]) = map_option File (map_of fl n)" if "n \<noteq> ''.''" "n \<noteq> ''..''" for n
    by (rule map_of_files [OF dist f(4)]) (use names L i that in auto)
  moreover have "plain_names (map fst fl)"
    using dist f(2,3) s(1) by (auto simp: plain_names_def list_all_iff filename_ok_def)
  ultimately show ?thesis using f(1) assms(4) by (simp add: dir_holds_def)
qed

text \<open>A directory determines its revision.\<close>

lemma dir_holds_same_revision:
  assumes "dir_holds g d fl" "dir_holds g d fl'" "plain_names (map fst fl)" "plain_names (map fst fl')"
  shows "memory_content_revision E fl = memory_content_revision E fl'"
proof -
  have "map_of fl n = map_of fl' n" for n
  proof (cases "n = ''.'' \<or> n = ''..''")
    case True
    with assms(3,4) have "n \<notin> fst ` set fl" "n \<notin> fst ` set fl'" by (auto simp: plain_names_def)
    then show ?thesis by (metis map_of_eq_None_iff)
  next
    case False
    with assms(1,2) have "map_option File (map_of fl n) = map_option File (map_of fl' n)" by (simp add: dir_holds_def)
    then show ?thesis by (cases "map_of fl n"; cases "map_of fl' n") simp_all
  qed
  then have "map_of fl = map_of fl'" by (rule ext)
  then have set: "set fl = set fl'"
    using assms(3,4) unfolding plain_names_def by (metis map_of_inject_set)
  have d: "distinct fl" "distinct fl'" "inj_on fst (set fl)"
    using assms(3,4) by (auto simp: plain_names_def distinct_map)
  then have "mset fl = mset fl'" using set by (simp add: set_eq_iff_mset_eq_distinct)
  then have "sort_key fst fl = sort_key fst fl'"
    using d set by (metis (no_types, lifting) mset_sort set_sort sort_key_inj_key_eq sorted_sort_key)
  then show ?thesis by (simp add: memory_content_revision_def revision_payload_def)
qed

section \<open>The contract of a replacement\<close>

text \<open>
  C25 - Replacing the files of a memory, whatever I/O errors or crash interrupt it, changes nothing
  outside the memory's own directory and \<open>.backups\<close>: no other memory, no journal, no stage, no
  publication backup. If it returns, the directory holds exactly the new files, whatever it held
  before.
\<close>

theorem replacement_contract:
  assumes "memory_place rt h" "root_there rt (node_at (files w))" "clean rt (files w)"
    and "dir_holds (node_at (files w)) (rt @ [h]) old" "plain_names (map fst fl)"
    and "replace_canonical_files (rt @ [h]) fl w = (r, w')"
  shows "clean rt (files w') \<and> (\<forall>q. q \<notin> replace_region rt h \<longrightarrow> node_at (files w') q = node_at (files w) q) \<and>
    (r = Inr () \<longrightarrow> dir_holds (node_at (files w')) (rt @ [h]) fl)"
proof -
  have "confined rt (replace_region rt h) (node_at (files w)) w'"
    by (rule keepsD [OF keeps_replace_canonical [OF assms(1,2,5)] confined_self [OF assms(3)] assms(6)])
  then show ?thesis
    using replace_canonical_succeeds [OF assms(1-5), of "()" w'] assms(6) by (auto simp: confined_def)
qed

text \<open>A small store: one memory with two files, another one beside it.\<close>

definition demo_memory :: "fate list \<Rightarrow> world" where
  "demo_memory sc =
     \<lparr>files = [([''m''], Dir), ([''m'', ''h1''], Dir), ([''m'', ''h1'', ''a.md''], File ''A''),
               ([''m'', ''h1'', ''b.md''], File ''B''), ([''m'', ''h2''], Dir), ([''m'', ''h2'', ''x.md''], File ''X'')],
      sched = sc, busy = []\<rparr>"

lemma replacement_contract_witness:
  "fst (replace_canonical_files [''m'', ''h1''] [(''c.md'', ''C'')] (demo_memory [])) = Inr () \<and>
   dir_holds (node_at (files (snd (replace_canonical_files [''m'', ''h1''] [(''c.md'', ''C'')] (demo_memory [])))))
     [''m'', ''h1''] [(''c.md'', ''C'')]"
proof -
  let ?run = "replace_canonical_files [''m'', ''h1''] [(''c.md'', ''C'')] (demo_memory [])"
  have c: "clean [''m''] (files (demo_memory []))" by (rule clean_checkI) code_simp
  have ok: "fst ?run = Inr ()" by code_simp
  have m: "memory_place [''m''] ''h1''" by (simp add: memory_place_def)
  have r: "root_there [''m''] (node_at (files (demo_memory [])))"
    by (auto simp: root_there_def demo_memory_def node_at_def prefix_Cons)
  have h: "dir_holds (node_at (files (demo_memory []))) ([''m''] @ [''h1'']) [(''a.md'', ''A''), (''b.md'', ''B'')]"
    by (auto simp: dir_holds_def demo_memory_def node_at_def)
  have "replace_canonical_files ([''m''] @ [''h1'']) [(''c.md'', ''C'')] (demo_memory []) = (fst ?run, snd ?run)"
    by simp
  from replacement_contract [OF m r c h _ this] ok show ?thesis by (simp add: plain_names_def)
qed

text \<open>
  The message can promise too much: when the removal of the backup fails half way, the files
  already removed from it cannot be restored, and yet the replacement reports that it rolled back.
\<close>

lemma replacement_loses_files:
  "let (r, w) = replace_canonical_files [''m'', ''h1''] [(''c.md'', ''C'')] (demo_memory (replicate 12 Proceed @ [Fault])) in
   r = Inl (Exn CRuntimeError ''memory replacement failed and rolled back: Input/output error'') \<and>
   list_all (\<lambda>(p, n). n \<noteq> File ''A'') (files w)"
  by code_simp

end
