(* ===== verification/TransactionSafety.thy ===== *)
theory TransactionSafety
  imports Publication MemoryReplace
begin

text \<open>
  The transaction of \<^verbatim>\<open>Publication\<close> under faults and crashes: wherever it stops, the old files are
  in the memory or in the backup; when it returns, the new files are in the memory. Nothing
  outside the memory, \<open>.backups\<close>, \<open>.journals\<close> and \<open>.publication-backups\<close> has changed.
\<close>

section \<open>Where a transaction works\<close>

definition area :: "path \<Rightarrow> string \<Rightarrow> path set" where
  "area rt x = {q. prefix (rt @ [x]) q}"

definition transaction_region :: "path \<Rightarrow> string \<Rightarrow> path set" where
  "transaction_region rt h = replace_region rt h \<union> area rt ''.journals'' \<union> area rt ''.publication-backups''"

text \<open>An operation on the memory \<open>h\<close> whose journal and backup are where the store keeps them.\<close>

definition transaction_at :: "path \<Rightarrow> string \<Rightarrow> memory_transaction \<Rightarrow> bool" where
  "transaction_at rt h op \<longleftrightarrow> memory_place rt h \<and>
     h \<notin> {''.journals'', ''.publication-backups'', ''.staging'', ''.locks''} \<and>
     rm_directory (tx_resolved op) = rt @ [h] \<and> rm_hash (tx_resolved op) = h \<and>
     plain_names (map fst (tx_old_files op)) \<and> plain_names (map fst (tx_new_files op)) \<and>
     (\<exists>j. tx_journal_path op = rt @ [''.journals'', h, j] \<and> j \<notin> {[], ''.'', ''..''}) \<and>
     (\<exists>b. tx_backup_path op = rt @ [''.publication-backups'', h, b] \<and> b \<notin> {[], ''.'', ''..''}) \<and>
     (\<exists>s. tx_stage_directory op = rt @ [''.staging'', h, s] \<and> s \<notin> {[], ''.'', ''..''}) \<and>
     (tx_no_change op \<longleftrightarrow> same_files (tx_old_files op) (tx_new_files op))"

lemma transaction_atD:
  assumes "transaction_at rt h op"
  shows "memory_place rt h" "store_root (tx_resolved op) = rt" "rm_hash (tx_resolved op) = h"
    "plain_names (map fst (tx_old_files op))" "plain_names (map fst (tx_new_files op))"
  using assms by (auto simp: transaction_at_def store_root_def)

lemma same_files_holds:
  assumes "same_files a b" "distinct (map fst a)" "distinct (map fst b)" "dir_holds g d a"
  shows "dir_holds g d b"
proof -
  from assms(1-3) have "map_of a = map_of b" by (simp add: same_files_def map_of_inject_set)
  with assms(4) show ?thesis by (simp add: dir_holds_def)
qed

text \<open>The directory of a memory that exists is found without changing anything.\<close>

lemma canonical_there:
  assumes "clean rt (files w)" "memory_place rt h" "root_there rt (node_at (files w))"
    and "node_at (files w) (rt @ [h]) = Some Dir" "rm_directory r = rt @ [h]" "rm_hash r = h"
  shows "canonical_directory r w = (Inr (rt @ [h]), w)"
proof -
  note P = memory_placeD [OF assms(2)]
  have "node_at (files w) rt = Some Dir" using assms(3) by (simp add: root_there_def)
  moreover from mkdir_p_there [OF assms(1) P(1) this] have "mkdir_p rt w = (Inr (), w)" .
  moreover have "lstat_node (files w) rt = node_at (files w) rt" "lstat_node (files w) (rt @ [h]) = node_at (files w) (rt @ [h])"
    using assms(1) P by (simp_all add: lstat_clean)
  ultimately have "ensure_actual_directory rt ''memory'' True w = (Inr rt, w)"
    "ensure_child_directory rt h ''memory'' w = (Inr (rt @ [h]), w)"
    using assms(4) by (simp_all add: ensure_child_directory_def ensure_actual_directory_def thenI_apply Let_def)
  with assms(5,6) show ?thesis
    by (simp add: canonical_directory_def store_root_def ensure_infrastructure_directory_def bindI_apply)
qed

lemma read_canonical_state: "read_canonical_files E d w = (r, w') \<Longrightarrow> w' = w"
proof -
  have "keeps (\<lambda>v. v = w) (read_entries E d ns seen)" for ns seen
    by (induction ns arbitrary: seen) (auto intro!: keeps_intros simp del: io_apply)
  then have "keeps (\<lambda>v. v = w) (read_canonical_files E d)"
    unfolding read_canonical_files_def
    by (intro keeps_bindI keeps_see) (auto intro!: keeps_intros simp del: io_apply)
  then show "read_canonical_files E d w = (r, w') \<Longrightarrow> w' = w" by (auto dest: keepsD)
qed

lemma read_canonical_keeps [keeps_intros]: "keeps X (read_canonical_files E d)"
  using read_canonical_state [of E d] by (metis keeps_def prod.collapse)

text \<open>Writing the journal concerns the journals only.\<close>

lemma journal_frame:
  assumes "transaction_at rt h op" "clean rt (files w)" "root_there rt (node_at (files w))"
    and "write_transaction_journal P op phase w = (r, w')"
  shows "clean rt (files w') \<and> (\<forall>q. q \<notin> area rt ''.journals'' \<longrightarrow> node_at (files w') q = node_at (files w) q)"
proof -
  from assms(1) obtain j where j: "tx_journal_path op = rt @ [''.journals'', h, j]" "j \<notin> {[], ''.'', ''..''}"
    and rt: "''..'' \<notin> set rt" "h \<noteq> ''..''" by (auto simp: transaction_at_def memory_place_def)
  have "keeps (confined rt (area rt ''.journals'') (node_at (files w))) (write_transaction_journal P op phase)"
    unfolding write_transaction_journal_def atomic_write_text_def
  proof (rule keeps_atomic_write)
    show "below rt (tx_journal_path op)" "strict_prefix rt (tx_journal_path op)" "last (tx_journal_path op) \<noteq> []"
      using j rt by (auto simp: below_def strict_prefix_def)
    show "tx_journal_path op \<in> area rt ''.journals''" by (simp add: area_def j)
    show "temp_paths (tx_journal_path op) \<subseteq> area rt ''.journals''" by (auto simp: temp_paths_def area_def j butlast_append)
    fix q assume q: "prefix q (butlast (tx_journal_path op))" "q \<noteq> []"
    then have "prefix q (rt @ [''.journals'', h])" by (simp add: j butlast_append)
    from prefix_below_cases [OF this] q(2) assms(3)
    show "q \<in> area rt ''.journals'' \<or> node_at (files w) q = Some Dir"
      by (auto simp: area_def root_there_def prefix_Cons)
  qed
  from keepsD [OF this confined_self [OF assms(2)] assms(4)] show ?thesis by (simp add: confined_def)
qed

text \<open>What is read back from the backup is what was written.\<close>

lemma put_files_holds:
  assumes "g d = Some Dir" "\<forall>n. g (d @ [n]) = None" shows "dir_holds (put_files d fl g) d fl"
  using assms by (auto simp: dir_holds_def split: option.splits)

lemma backup_outcome:
  assumes "transaction_at rt h op" "clean rt (files w)" "root_there rt (node_at (files w))"
    and "write_backup (tx_backup_path op) (tx_old_files op) w = (r, w')"
  shows "clean rt (files w') \<and> (\<forall>q. q \<notin> area rt ''.publication-backups'' \<longrightarrow> node_at (files w') q = node_at (files w) q) \<and>
    (r = Inr () \<longrightarrow> dir_holds (node_at (files w')) (tx_backup_path op) (tx_old_files op))"
proof -
  from assms(1) obtain b where b: "tx_backup_path op = rt @ [''.publication-backups'', h, b]" "b \<notin> {[], ''.'', ''..''}"
    and rt: "''..'' \<notin> set rt" "h \<noteq> ''..''" by (auto simp: transaction_at_def memory_place_def)
  define k where "k = tx_backup_path op"
  define d where "d = rt @ [''.publication-backups'', h]"
  have k: "k = d @ [b]" by (simp add: k_def d_def b)
  have kb: "below rt k" "prefix rt k" "below rt d" "prefix rt d" "butlast k = d" "name_of k = b"
    using b rt by (auto simp: k d_def below_def name_of_def butlast_append)
  note n = transaction_atD(4) [OF assms(1)]
  let ?K = "confined rt (area rt ''.publication-backups'') (node_at (files w))"
  have inside: "q \<in> area rt ''.publication-backups''" if "prefix d q" for q
    using that unfolding area_def d_def by (auto simp: prefix_def)
  have rm: "keeps ?K (rmtree k ''backup'' False)"
    by (rule keeps_rmtree [OF kb(2,1)]) (auto intro!: inside simp: k dest: append_prefixD)
  have wf: "keeps ?K (write_files k (tx_old_files op))"
  proof (rule keeps_write_files [OF kb(2,1) n])
    show "q \<in> area rt ''.publication-backups''" if "strict_prefix k q" for q
      using that by (auto intro!: inside simp: k strict_prefix_def dest: append_prefixD)
    fix q assume q: "prefix q k" "q \<noteq> []"
    then have "prefix q (rt @ [''.publication-backups'', h, b])" by (simp add: k d_def)
    from prefix_below_cases [OF this] q(2) assms(3)
    show "q \<in> area rt ''.publication-backups'' \<or> node_at (files w) q = Some Dir"
      by (auto simp: area_def root_there_def prefix_Cons)
  qed
  have ch: "keeps ?K (ensure_child_directory d b ''backup'')"
    by (rule keeps_ensure_child) (use kb k in \<open>auto intro!: inside\<close>)
  have "keeps ?K (write_backup k (tx_old_files op))"
    unfolding write_backup_def kb
    by (intro keeps_bindI keeps_see keeps_thenI keeps_whenI rm keeps_bindI_res [where R = "\<lambda>x. x = k", OF ch])
       (auto simp: k [symmetric] intro: wf dest!: ensure_child_result)
  from keepsD [OF this confined_self [OF assms(2)]] assms(4)
  have frame: "?K w'" by (simp add: k_def)
  have "dir_holds (node_at (files w')) k (tx_old_files op)" if "r = Inr ()"
  proof -
    define g where "g = node_at (files w)"
    have e: "exact rt g w" using assms(2) by (simp add: exact_def g_def)
    from assms(4) [unfolded that write_backup_def k_def [symmetric] kb(5,6) bindI_see thenI_Inr_iff bindI_Inr_iff]
    obtain x w1 y w2 where w1: "whenI (path_exists (files w) k) (rmtree k ''backup'' False) w = (Inr x, w1)"
      and y: "ensure_child_directory d b ''backup'' w1 = (Inr y, w2)" and w3': "write_files y (tx_old_files op) w2 = (Inr (), w')"
      by blast
    have "y = k" using ensure_child_result [OF y] k by simp
    then have w2: "ensure_child_directory d b ''backup'' w1 = (Inr k, w2)" and w3: "write_files k (tx_old_files op) w2 = (Inr (), w')"
      using y w3' by simp_all
    have e1: "exact rt (gone k g) w1"
    proof (cases "path_exists (files w) k")
      case True
      with w1 succeedsD [OF succeeds_rmtree [OF kb(2,1)] e] show ?thesis by simp
    next
      case False
      then have "g k = None" using kb(1) assms(2) by (simp add: exists_clean g_def)
      have "gone k g = g"
      proof (rule ext)
        fix q
        have "strict_prefix k q \<Longrightarrow> g q = None"
          using tree_prefix_dir [of "files w" q k] assms(2) \<open>g k = None\<close> unfolding clean_def g_def
          by (cases "node_at (files w) q") auto
        then show "gone k g q = g q" using \<open>g k = None\<close> by (cases "q = k") (auto simp: gone_def strict_prefix_def)
      qed
      with e w1 False show ?thesis by simp
    qed
    define g2 where "g2 = (gone k g)(k \<mapsto> Dir)"
    have "below rt (d @ [b])" using kb(1) k by simp
    from succeedsD [OF succeeds_ensure_child [OF this] e1 w2] have e2: "exact rt g2 w2" by (simp only: g2_def k)
    have g2: "g2 k = Some Dir" "\<forall>n. g2 (k @ [n]) = None" by (simp_all add: g2_def gone_def)
    from succeedsD [OF succeeds_write_files [where g = g2, OF kb(2,1) g2(1) n] e2 w3] put_files_holds [OF g2]
    show ?thesis by (simp add: exact_def)
  qed
  with frame show ?thesis by (simp add: confined_def k_def)
qed

section \<open>The transaction, whatever interrupts it\<close>

text \<open>Before the replacement: only journals and publication backups have changed.\<close>

definition calm :: "path \<Rightarrow> string \<Rightarrow> (path \<Rightarrow> node option) \<Rightarrow> world \<Rightarrow> bool" where
  "calm rt h g w \<longleftrightarrow> confined rt (area rt ''.journals'' \<union> area rt ''.publication-backups'') g w \<and> regular_leaves rt h w"

text \<open>From then on: only the region of the transaction.\<close>

definition busy_with :: "path \<Rightarrow> string \<Rightarrow> (path \<Rightarrow> node option) \<Rightarrow> world \<Rightarrow> bool" where
  "busy_with rt h g w \<longleftrightarrow> confined rt (transaction_region rt h) g w \<and> regular_leaves rt h w"

lemma memory_not_in_area:
  assumes "transaction_at rt h op" "x \<in> {''.journals'', ''.publication-backups'', ''.staging'', ''.locks''}"
  shows "q = rt @ [h] \<or> butlast q = rt @ [h] \<Longrightarrow> q \<notin> area rt x" "prefix q rt \<Longrightarrow> q \<notin> area rt x"
    "leaf rt h q \<Longrightarrow> q \<notin> area rt x"
proof -
  have hx: "h \<noteq> x" "h \<noteq> ''.backups''" "x \<noteq> ''.backups''" using assms by (auto simp: transaction_at_def memory_place_def)
  show "q \<notin> area rt x" if "q = rt @ [h] \<or> butlast q = rt @ [h]"
  proof
    assume "q \<in> area rt x"
    then obtain zs where "q = rt @ x # zs" by (auto simp: area_def prefix_def)
    with that hx show False by (auto simp: butlast_append split: if_splits)
  qed
  show "prefix q rt \<Longrightarrow> q \<notin> area rt x" by (auto simp: area_def dest!: prefix_length_le)
  show "leaf rt h q \<Longrightarrow> q \<notin> area rt x" using hx by (auto simp: area_def leaf_def prefix_def)
qed

lemma calm_facts:
  assumes "transaction_at rt h op" "root_there rt g" "dir_holds g (rt @ [h]) fl" "calm rt h g w"
  shows "clean rt (files w)" "root_there rt (node_at (files w))" "dir_holds (node_at (files w)) (rt @ [h]) fl"
    "busy_with rt h g w"
proof -
  let ?S = "area rt ''.journals'' \<union> area rt ''.publication-backups''"
  from assms(4) have c: "confined rt ?S g w" by (simp add: calm_def)
  then show "clean rt (files w)" by (rule confined_clean)
  have same: "node_at (files w) q = g q" if "q \<notin> ?S" for q by (rule confined_frame [OF c that])
  note N = memory_not_in_area [OF assms(1)]
  show "root_there rt (node_at (files w))" using assms(2) N(2) same by (simp add: root_there_def)
  show "dir_holds (node_at (files w)) (rt @ [h]) fl"
    by (rule dir_holds_cong [OF _ assms(3)]) (use N(1) same in blast)
  show "busy_with rt h g w"
    using assms(4) by (auto simp: calm_def busy_with_def confined_def transaction_region_def)
qed

lemma area_leaves:
  fixes w w' :: world
  assumes "transaction_at rt h op" "regular_leaves rt h w" "clean rt (files w')"
    and "x \<in> {''.journals'', ''.publication-backups''}" "\<forall>q. q \<notin> area rt x \<longrightarrow> node_at (files w') q = node_at (files w) q"
  shows "regular_leaves rt h w'"
  using assms(2,3,5) memory_not_in_area(3) [OF assms(1), of x] assms(4) by (auto simp: regular_leaves_def)

text \<open>What looks at nothing but the state outside the journals survives the writing of a journal.\<close>

lemma keeps_journal:
  assumes "transaction_at rt h op"
    and "\<And>w. X w \<Longrightarrow> clean rt (files w) \<and> root_there rt (node_at (files w))"
    and "\<And>w w'. X w \<Longrightarrow> clean rt (files w') \<Longrightarrow>
       \<forall>q. q \<notin> area rt ''.journals'' \<longrightarrow> node_at (files w') q = node_at (files w) q \<Longrightarrow> X w'"
  shows "keeps X (write_transaction_journal P op phase)"
  unfolding keeps_def
proof (intro allI impI)
  fix w assume x: "X w"
  obtain r w' where run: "write_transaction_journal P op phase w = (r, w')" by fastforce
  from journal_frame [OF assms(1) _ _ run] assms(2) [OF x] assms(3) [OF x, of w'] run
  show "X (snd (write_transaction_journal P op phase w))" by simp
qed

lemma keeps_crash_point [keeps_intros]: "keeps X (crash_point op c phase)"
  unfolding crash_point_def transaction_checkpoint_def by (intro keeps_thenI keeps_pure)

lemma keeps_publish_tail:
  "(\<And>phase. keeps X (write_transaction_journal P op phase)) \<Longrightarrow> keeps X (publish_tail P op c f)"
  unfolding publish_tail_def by (intro keeps_thenI keeps_crash_point keeps_pure)

lemma journal_calm:
  assumes "transaction_at rt h op" "root_there rt g" "dir_holds g (rt @ [h]) fl"
  shows "keeps (calm rt h g) (write_transaction_journal P op phase)"
proof (rule keeps_journal [OF assms(1)])
  fix w w' :: world assume c: "calm rt h g w" and w': "clean rt (files w')" and
    same: "\<forall>q. q \<notin> area rt ''.journals'' \<longrightarrow> node_at (files w') q = node_at (files w) q"
  have "regular_leaves rt h w'" by (rule area_leaves [OF assms(1) _ w' _ same]) (use c in \<open>auto simp: calm_def\<close>)
  with c w' same show "calm rt h g w'" by (auto simp: calm_def confined_def)
qed (use calm_facts [OF assms] in blast)

text \<open>The backup lies outside the journals and outside what a replacement touches.\<close>

lemma backup_outside:
  assumes "transaction_at rt h op" "q = tx_backup_path op \<or> butlast q = tx_backup_path op"
  shows "q \<notin> area rt ''.journals''" "q \<notin> replace_region rt h"
proof -
  from assms obtain b where b: "tx_backup_path op = rt @ [''.publication-backups'', h, b]" by (auto simp: transaction_at_def)
  have q: "\<exists>zs. q = rt @ ''.publication-backups'' # zs"
    using assms(2) b by (cases q rule: rev_cases) auto
  moreover have "h \<noteq> ''.publication-backups''" using assms(1) by (simp add: transaction_at_def)
  ultimately show "q \<notin> area rt ''.journals''" "q \<notin> replace_region rt h"
    by (auto simp: area_def replace_region_def strict_prefix_def prefix_def)
qed

lemma calm_backup_journal:
  assumes "transaction_at rt h op" "root_there rt g" "dir_holds g (rt @ [h]) fl"
  shows "keeps (\<lambda>w. calm rt h g w \<and> dir_holds (node_at (files w)) (tx_backup_path op) old)
    (write_transaction_journal P op phase)"
proof (rule keeps_journal [OF assms(1)])
  fix w w' :: world assume c: "calm rt h g w \<and> dir_holds (node_at (files w)) (tx_backup_path op) old" and w': "clean rt (files w')" and
    same: "\<forall>q. q \<notin> area rt ''.journals'' \<longrightarrow> node_at (files w') q = node_at (files w) q"
  have "dir_holds (node_at (files w')) (tx_backup_path op) old"
    by (rule dir_holds_cong [OF _ c [THEN conjunct2]]) (use same backup_outside(1) [OF assms(1)] in blast)
  moreover have "regular_leaves rt h w'" by (rule area_leaves [OF assms(1) _ w' _ same]) (use c in \<open>auto simp: calm_def\<close>)
  ultimately show "calm rt h g w' \<and> dir_holds (node_at (files w')) (tx_backup_path op) old"
    using c w' same by (auto simp: calm_def confined_def)
qed (use calm_facts [OF assms] in blast)

lemma busy_facts:
  assumes "transaction_at rt h op" "root_there rt g" "busy_with rt h g w"
  shows "clean rt (files w)" "root_there rt (node_at (files w))"
proof -
  from assms(3) have c: "confined rt (transaction_region rt h) g w" by (simp add: busy_with_def)
  then show "clean rt (files w)" by (rule confined_clean)
  have "q \<notin> transaction_region rt h" if "prefix q rt" for q
    using that memory_not_in_area(2) [OF assms(1)]
  proof -
    have "length q \<le> length rt" using that by (rule prefix_length_le)
    then have "q \<notin> replace_region rt h"
      by (auto simp: replace_region_def strict_prefix_def dest!: prefix_length_le)
    then show ?thesis using memory_not_in_area(2) [OF assms(1) _ that] by (simp add: transaction_region_def)
  qed
  with confined_frame [OF c] assms(2) show "root_there rt (node_at (files w))" by (simp add: root_there_def)
qed

lemma busy_journal:
  assumes "transaction_at rt h op" "root_there rt g"
  shows "keeps (\<lambda>w. busy_with rt h g w \<and> dir_holds (node_at (files w)) (tx_backup_path op) old \<and>
      dir_holds (node_at (files w)) (rt @ [h]) new) (write_transaction_journal P op phase)"
proof (rule keeps_journal [OF assms(1)])
  fix w w' :: world assume c: "busy_with rt h g w \<and> dir_holds (node_at (files w)) (tx_backup_path op) old \<and>
      dir_holds (node_at (files w)) (rt @ [h]) new" and w': "clean rt (files w')" and
    same: "\<forall>q. q \<notin> area rt ''.journals'' \<longrightarrow> node_at (files w') q = node_at (files w) q"
  have "dir_holds (node_at (files w')) (tx_backup_path op) old"
    by (rule dir_holds_cong [OF _ c [THEN conjunct2, THEN conjunct1]]) (use same backup_outside(1) [OF assms(1)] in blast)
  moreover have "dir_holds (node_at (files w')) (rt @ [h]) new"
    by (rule dir_holds_cong [OF _ c [THEN conjunct2, THEN conjunct2]])
       (use same memory_not_in_area(1) [OF assms(1), of "''.journals''"] in blast)
  moreover have "regular_leaves rt h w'" by (rule area_leaves [OF assms(1) _ w' _ same]) (use c in \<open>auto simp: busy_with_def\<close>)
  ultimately show "busy_with rt h g w' \<and> dir_holds (node_at (files w')) (tx_backup_path op) old \<and>
      dir_holds (node_at (files w')) (rt @ [h]) new"
    using c w' same by (auto simp: busy_with_def confined_def transaction_region_def)
qed (use busy_facts [OF assms] in blast)

text \<open>The old files are in the memory or in the backup.\<close>

definition old_kept :: "path \<Rightarrow> string \<Rightarrow> memory_transaction \<Rightarrow> world \<Rightarrow> bool" where
  "old_kept rt h op w \<longleftrightarrow>
     dir_holds (node_at (files w)) (rt @ [h]) (tx_old_files op) \<or>
     dir_holds (node_at (files w)) (tx_backup_path op) (tx_old_files op)"

lemma replace_busy:
  assumes "transaction_at rt h op" "root_there rt g" "plain_names (map fst fl)"
  shows "keeps (\<lambda>w. busy_with rt h g w \<and> dir_holds (node_at (files w)) (tx_backup_path op) old)
    (replace_canonical_files (rt @ [h]) fl)"
  unfolding keeps_def
proof (intro allI impI)
  fix w :: world assume b: "busy_with rt h g w \<and> dir_holds (node_at (files w)) (tx_backup_path op) old"
  obtain r w' where run: "replace_canonical_files (rt @ [h]) fl w = (r, w')" by fastforce
  note F = busy_facts [OF assms(1,2) b [THEN conjunct1]]
  have "keeps (confined rt (replace_region rt h) (node_at (files w))) (replace_canonical_files (rt @ [h]) fl)"
    by (rule keeps_replace_canonical [OF transaction_atD(1) [OF assms(1)] F(2) assms(3)])
  from keepsD [OF this confined_self [OF F(1)] run]
  have c: "confined rt (replace_region rt h) (node_at (files w)) w'" .
  have "regular_leaves rt h w'"
    by (rule keepsD [OF regular.replace_keeps [OF assms(3)] _ run]) (use b in \<open>simp add: busy_with_def\<close>)
  moreover have "dir_holds (node_at (files w')) (tx_backup_path op) old"
    by (rule dir_holds_cong [OF _ b [THEN conjunct2]])
       (use confined_frame [OF c] backup_outside(2) [OF assms(1)] in blast)
  ultimately show "busy_with rt h g (snd (replace_canonical_files (rt @ [h]) fl w)) \<and>
      dir_holds (node_at (files (snd (replace_canonical_files (rt @ [h]) fl w)))) (tx_backup_path op) old"
    using b c run by (auto simp: busy_with_def confined_def transaction_region_def)
qed

lemma canonical_hoare:
  assumes "transaction_at rt h op"
    and "\<And>w. X w \<Longrightarrow> clean rt (files w) \<and> root_there rt (node_at (files w)) \<and> node_at (files w) (rt @ [h]) = Some Dir"
  shows "hoare X (canonical_directory (tx_resolved op)) (\<lambda>d w. X w \<and> d = rt @ [h]) E"
proof (rule hoareI)
  have r: "rm_directory (tx_resolved op) = rt @ [h]" "rm_hash (tx_resolved op) = h" "memory_place rt h"
    using assms(1) by (auto simp: transaction_at_def)
  note C = canonical_there [OF _ r(3) _ _ r(1,2)]
  fix s x s' assume "X s" "canonical_directory (tx_resolved op) s = (Inr x, s')"
  with C [of s] assms(2) [of s] show "X s' \<and> x = rt @ [h]" by simp
next
  have r: "rm_directory (tx_resolved op) = rt @ [h]" "rm_hash (tx_resolved op) = h" "memory_place rt h"
    using assms(1) by (auto simp: transaction_at_def)
  note C = canonical_there [OF _ r(3) _ _ r(1,2)]
  fix s e s' assume "X s" "canonical_directory (tx_resolved op) s = (Inl e, s')"
  with C [of s] assms(2) [of s] show "E e s'" by simp
qed

lemma hoare_keeps_to: "keeps P m \<Longrightarrow> (\<And>w. P w \<Longrightarrow> R w) \<Longrightarrow> hoare P m (\<lambda>_. P) (\<lambda>_. R)"
  by (rule hoareI) (auto dest: keepsD)

lemma run_transaction_hoare:
  assumes tx: "transaction_at rt h op" and r: "root_there rt g" and old: "dir_holds g (rt @ [h]) (tx_old_files op)"
  shows "hoare (calm rt h g) (run_transaction_locked P op c f)
    (\<lambda>_ w. busy_with rt h g w \<and> old_kept rt h op w \<and> dir_holds (node_at (files w)) (rt @ [h]) (tx_new_files op))
    (\<lambda>_ w. busy_with rt h g w \<and> old_kept rt h op w)"
    (is "hoare ?A _ ?Q (\<lambda>_. ?E)")
proof -
  let ?bk = "\<lambda>w. dir_holds (node_at (files w)) (tx_backup_path op) (tx_old_files op)"
  let ?AB = "\<lambda>w. ?A w \<and> ?bk w" and ?C = "\<lambda>w. busy_with rt h g w \<and> ?bk w"
  let ?D = "\<lambda>w. busy_with rt h g w \<and> ?bk w \<and> dir_holds (node_at (files w)) (rt @ [h]) (tx_new_files op)"
  note CF = calm_facts [OF tx r old]
  have AE: "?E w" if "?A w" for w using CF [OF that] by (simp add: old_kept_def)
  have CE: "?E w" if "?C w" for w using that by (simp add: old_kept_def)
  have CD: "?E w" if "?D w" for w using that by (simp add: old_kept_def)
  have canA: "hoare X (canonical_directory (tx_resolved op)) (\<lambda>d w. X w \<and> d = rt @ [h]) (\<lambda>_. ?E)"
    if "\<And>w. X w \<Longrightarrow> ?A w" for X
    by (rule canonical_hoare [OF tx]) (use CF that in \<open>auto simp: dir_holds_def\<close>)
  have jA: "hoare ?A (write_transaction_journal P op ph) (\<lambda>_. ?A) (\<lambda>_. ?E)" for ph
    by (rule hoare_keeps_to [OF journal_calm [OF tx r old] AE])
  have jAB: "hoare ?AB (write_transaction_journal P op ph) (\<lambda>_. ?AB) (\<lambda>_. ?E)" for ph
    by (rule hoare_keeps_to [OF calm_backup_journal [OF tx r old]]) (use AE in blast)
  have cp: "hoare X (crash_point op c ph) (\<lambda>_. X) (\<lambda>_. ?E)" if "\<And>w. X w \<Longrightarrow> ?E w" for X ph
    by (rule hoare_keeps_to [OF keeps_crash_point that])
  have tailA: "hoare ?A (publish_tail P op c f) (\<lambda>_. ?A) (\<lambda>_. ?E)"
    by (rule hoare_keeps_to [OF keeps_publish_tail AE]) (rule journal_calm [OF tx r old])
  have tailD: "hoare ?D (publish_tail P op c f) (\<lambda>_. ?D) (\<lambda>_. ?E)"
    by (rule hoare_keeps_to [OF keeps_publish_tail CD]) (rule busy_journal [OF tx r])
  have bk: "hoare ?A (write_backup (tx_backup_path op) (tx_old_files op)) (\<lambda>_. ?AB) (\<lambda>_. ?E)"
  proof -
    have step: "?A w' \<and> (res = Inr () \<longrightarrow> ?bk w')"
      if "?A w" "write_backup (tx_backup_path op) (tx_old_files op) w = (res, w')" for w w' res
    proof -
      from backup_outcome [OF tx CF(1,2) [OF that(1)] that(2)]
      have o: "clean rt (files w')" "\<forall>q. q \<notin> area rt ''.publication-backups'' \<longrightarrow> node_at (files w') q = node_at (files w) q"
        "res = Inr () \<longrightarrow> ?bk w'" by simp_all
      have "regular_leaves rt h w'"
        by (rule area_leaves [OF tx _ o(1) _ o(2)]) (use that(1) in \<open>auto simp: calm_def\<close>)
      with o that(1) show ?thesis by (auto simp: calm_def confined_def)
    qed
    show ?thesis by (rule hoareI) (use step AE in fastforce)+
  qed
  have rep: "hoare ?AB (replace_canonical_files (rt @ [h]) (tx_new_files op)) (\<lambda>_. ?D) (\<lambda>_. ?E)"
  proof -
    note K = replace_busy [OF tx r transaction_atD(5) [OF tx]]
    have C: "?C w" if "?AB w" for w using that CF(4) by blast
    show ?thesis
    proof (rule hoareI)
      fix w x w' assume ab: "?AB w" and run: "replace_canonical_files (rt @ [h]) (tx_new_files op) w = (Inr x, w')"
      from replace_canonical_succeeds [OF transaction_atD(1) [OF tx] CF(2,1,3) [OF ab [THEN conjunct1]] transaction_atD(5) [OF tx] run]
        keepsD [OF K C [OF ab] run] show "?D w'" by simp
    next
      fix w e w' assume ab: "?AB w" and run: "replace_canonical_files (rt @ [h]) (tx_new_files op) w = (Inl e, w')"
      from keepsD [OF K C [OF ab] run] CE show "?E w'" by blast
    qed
  qed
  have same: "?Q x w" if "?A w" "tx_no_change op" for w and x :: unit
  proof -
    have "same_files (tx_old_files op) (tx_new_files op)" using tx that(2) by (simp add: transaction_at_def)
    from same_files_holds [OF this _ _ CF(3) [OF that(1)]] transaction_atD(4,5) [OF tx] AE [OF that(1)]
    show ?thesis by (simp add: plain_names_def)
  qed
  have body: "hoare ?A (if tx_no_change op then publish_tail P op c f
         else thenI (write_backup (tx_backup_path op) (tx_old_files op))
             (thenI (write_transaction_journal P op ''backed_up'')
             (thenI (crash_point op c ''backed_up'')
             (thenI (bindI (canonical_directory (tx_resolved op)) (\<lambda>d. replace_canonical_files d (tx_new_files op)))
             (thenI (crash_point op c ''after_replace'') (publish_tail P op c f)))))) ?Q (\<lambda>_. ?E)"
  proof (cases "tx_no_change op")
    case True
    then show ?thesis by (simp, intro hoare_weaken [OF tailA]) (use same in auto)
  next
    case False
    have "hoare ?AB (bindI (canonical_directory (tx_resolved op)) (\<lambda>d. replace_canonical_files d (tx_new_files op)))
        (\<lambda>_. ?D) (\<lambda>_. ?E)"
      by (rule hoare_bindI [OF canA], blast) (rule hoareI; use rep in \<open>auto dest: hoareD_Inr hoareD_Inl\<close>)
    then have "hoare ?A (thenI (write_backup (tx_backup_path op) (tx_old_files op))
             (thenI (write_transaction_journal P op ''backed_up'')
             (thenI (crash_point op c ''backed_up'')
             (thenI (bindI (canonical_directory (tx_resolved op)) (\<lambda>d. replace_canonical_files d (tx_new_files op)))
             (thenI (crash_point op c ''after_replace'') (publish_tail P op c f)))))) (\<lambda>_. ?D) (\<lambda>_. ?E)"
      by (intro hoare_thenI [OF bk] hoare_thenI [OF jAB] hoare_thenI [OF cp] hoare_thenI [OF _ hoare_thenI [OF cp tailD]])
         (use AE CD in blast)+
    then have "hoare ?A (thenI (write_backup (tx_backup_path op) (tx_old_files op))
             (thenI (write_transaction_journal P op ''backed_up'')
             (thenI (crash_point op c ''backed_up'')
             (thenI (bindI (canonical_directory (tx_resolved op)) (\<lambda>d. replace_canonical_files d (tx_new_files op)))
             (thenI (crash_point op c ''after_replace'') (publish_tail P op c f)))))) ?Q (\<lambda>_. ?E)"
      by (rule hoare_weaken) (auto simp: old_kept_def)
    with False show ?thesis by simp
  qed
  show ?thesis
    unfolding run_transaction_locked_def Let_def
  proof (rule hoare_bindI [OF canA], blast)
    fix d
    have "hoare ?A (bindI (read_canonical_files (pe_memory P) d) (\<lambda>current.
      thenI (assertI (memory_content_revision (pe_memory P) current = tx_old_revision op)
               (publication_conflict ''base revision changed before apply'' (tx_old_revision op)
                  (memory_content_revision (pe_memory P) current)))
      (thenI (write_transaction_journal P op ''prepared'')
      (thenI (crash_point op c ''prepared'')
        (if tx_no_change op then publish_tail P op c f
         else thenI (write_backup (tx_backup_path op) (tx_old_files op))
             (thenI (write_transaction_journal P op ''backed_up'')
             (thenI (crash_point op c ''backed_up'')
             (thenI (bindI (canonical_directory (tx_resolved op)) (\<lambda>d. replace_canonical_files d (tx_new_files op)))
             (thenI (crash_point op c ''after_replace'') (publish_tail P op c f))))))))) ) ?Q (\<lambda>_. ?E)"
      by (intro hoare_bindI [OF hoare_keeps_to [OF read_canonical_keeps AE]]
            hoare_thenI [OF hoare_keeps_to [OF keeps_pure(6) AE]] hoare_thenI [OF jA] hoare_thenI [OF cp [OF AE]] body)
    then show "hoare (\<lambda>w. ?A w \<and> d = rt @ [h]) (bindI (read_canonical_files (pe_memory P) d) (\<lambda>current.
      thenI (assertI (memory_content_revision (pe_memory P) current = tx_old_revision op)
               (publication_conflict ''base revision changed before apply'' (tx_old_revision op)
                  (memory_content_revision (pe_memory P) current)))
      (thenI (write_transaction_journal P op ''prepared'')
      (thenI (crash_point op c ''prepared'')
        (if tx_no_change op then publish_tail P op c f
         else thenI (write_backup (tx_backup_path op) (tx_old_files op))
             (thenI (write_transaction_journal P op ''backed_up'')
             (thenI (crash_point op c ''backed_up'')
             (thenI (bindI (canonical_directory (tx_resolved op)) (\<lambda>d. replace_canonical_files d (tx_new_files op)))
             (thenI (crash_point op c ''after_replace'') (publish_tail P op c f))))))))) ) ?Q (\<lambda>_. ?E)"
      by (rule hoare_pre) simp
  qed
qed


text \<open>
  C2 - The transaction that publishes new files of a memory never loses the old ones: wherever
  an I/O error, an injected crash or the death of the process stops it, the memory or the
  backup of the operation holds exactly the old files, and nothing changes outside the memory,
  the journals and the backups (so the stage is intact). If it returns, the memory holds exactly
  the new files.
\<close>

theorem transaction_keeps_old_files:
  assumes "transaction_at rt h op" "clean rt (files w)" "root_there rt (node_at (files w))"
    and "dir_holds (node_at (files w)) (rt @ [h]) (tx_old_files op)" "regular_leaves rt h w"
    and "run_transaction_locked P op crash_at fail_after w = (r, w')"
  shows "(dir_holds (node_at (files w')) (rt @ [h]) (tx_old_files op) \<or>
      dir_holds (node_at (files w')) (tx_backup_path op) (tx_old_files op)) \<and>
    (\<forall>q. q \<notin> transaction_region rt h \<longrightarrow> node_at (files w') q = node_at (files w) q) \<and>
    (r = Inr () \<longrightarrow> dir_holds (node_at (files w')) (rt @ [h]) (tx_new_files op))"
proof -
  have c: "calm rt h (node_at (files w)) w" using assms(2,5) by (simp add: calm_def confined_def)
  note H = run_transaction_hoare [OF assms(1,3,4), of P crash_at fail_after]
  have "busy_with rt h (node_at (files w)) w' \<and> old_kept rt h op w' \<and>
      (r = Inr () \<longrightarrow> dir_holds (node_at (files w')) (rt @ [h]) (tx_new_files op))"
    using hoareD_Inr [OF H c] hoareD_Inl [OF H c] assms(6) by (cases r) auto
  then show ?thesis by (auto simp: busy_with_def confined_def old_kept_def)
qed

text \<open>A small store: the memory \<open>h\<close> with two files and the directories of its journals and backups.\<close>

definition demo_layout :: "string \<Rightarrow> fate list \<Rightarrow> world" where
  "demo_layout h sc =
     \<lparr>files = [([''m''], Dir), ([''m'', h], Dir), ([''m'', h, ''a.md''], File ''A''), ([''m'', h, ''b.md''], File ''B''),
               ([''m'', ''.journals''], Dir), ([''m'', ''.journals'', h], Dir),
               ([''m'', ''.publication-backups''], Dir), ([''m'', ''.publication-backups'', h], Dir)],
      sched = sc, busy = []\<rparr>"

text \<open>Documents are written as the value of their \<open>phase\<close>; a digest is the end of the text, reversed.\<close>

definition demo_env :: memory_env where
  "demo_env = ascii_env\<lparr>me_hash := take 2 \<circ> rev,
     me_yaml := \<lparr>dump = (\<lambda>v. case v of PDict kv \<Rightarrow> (case map_of kv ''phase'' of Some (PStr s) \<Rightarrow> s | _ \<Rightarrow> []) | _ \<Rightarrow> []),
                 load = (\<lambda>_. Inl (Exn CValueError ''not a document''))\<rparr>\<rparr>"

definition demo_publication :: publication_env where
  "demo_publication =
     \<lparr>pe_memory = demo_env, pe_clock = (\<lambda>_. ''2024-01-01T00:00:00Z''), pe_uuid = (\<lambda>_. ''op1''), pe_diff = (\<lambda>_ _. ''diff'')\<rparr>"

definition demo_resolved :: "string \<Rightarrow> resolved_memory" where
  "demo_resolved h = \<lparr>rm_selector = run_selector, rm_canonical_json = [], rm_hash = h, rm_directory = [''m'', h]\<rparr>"

definition demo_transaction :: "string \<Rightarrow> memory_files \<Rightarrow> memory_files \<Rightarrow> memory_transaction" where
  "demo_transaction h old new =
     \<lparr>tx_kind = DirectSave, tx_operation_id = ''op1'', tx_resolved = demo_resolved h,
      tx_old_revision = memory_content_revision demo_env old, tx_new_revision = memory_content_revision demo_env new,
      tx_old_files = old, tx_new_files = new, tx_stage_directory = [''m'', ''.staging'', h, ''op1''],
      tx_journal_path = [''m'', ''.journals'', h, ''op1.yaml''],
      tx_backup_path = [''m'', ''.publication-backups'', h, ''op1''],
      tx_selector = [], tx_memory_hash = h, tx_no_change = same_files old new,
      tx_job_store = None, tx_job_path = None, tx_diff_bytes = ''diff''\<rparr>"

definition demo_run :: "fate list \<Rightarrow> unit res \<times> world" where
  "demo_run sc =
     run_transaction_locked demo_publication (demo_transaction ''h1'' [(''a.md'', ''A''), (''b.md'', ''B'')] [(''c.md'', ''C'')])
       None False (demo_layout ''h1'' sc)"

lemma demo_layout_settled:
  assumes "memory_place [''m''] h" "h \<notin> {''.journals'', ''.publication-backups''}"
  shows "clean [''m''] (files (demo_layout h sc))" "root_there [''m''] (node_at (files (demo_layout h sc)))"
    "dir_holds (node_at (files (demo_layout h sc))) ([''m''] @ [h]) [(''a.md'', ''A''), (''b.md'', ''B'')]"
    "regular_leaves [''m''] h (demo_layout h sc)"
proof -
  have h: "h \<noteq> ''..''" "h \<noteq> ''.''" "h \<noteq> []" "h \<noteq> ''.backups''" using assms by (auto simp: memory_place_def)
  show c: "clean [''m''] (files (demo_layout h sc))"
    by (rule clean_checkI) (use h assms(2) in \<open>simp add: demo_layout_def clean_check_def node_at_def\<close>)
  show "root_there [''m''] (node_at (files (demo_layout h sc)))"
    by (auto simp: root_there_def demo_layout_def node_at_def prefix_Cons)
  show "dir_holds (node_at (files (demo_layout h sc))) ([''m''] @ [h]) [(''a.md'', ''A''), (''b.md'', ''B'')]"
    using assms by (auto simp: dir_holds_def demo_layout_def node_at_def)
  show "regular_leaves [''m''] h (demo_layout h sc)"
    using c assms by (auto simp: regular_leaves_def leaf_def memory_place_def demo_layout_def node_at_def)
qed

lemma transaction_keeps_old_files_witness:
  "fst (demo_run []) = Inr () \<and> fst (demo_run [Fault]) \<noteq> Inr () \<and>
   dir_holds (node_at (files (snd (demo_run [])))) [''m'', ''h1''] [(''c.md'', ''C'')]"
proof -
  have ok: "fst (demo_run []) = Inr ()" by code_simp
  have fault: "fst (demo_run [Fault]) \<noteq> Inr ()" by code_simp
  have at: "transaction_at [''m''] ''h1'' (demo_transaction ''h1'' [(''a.md'', ''A''), (''b.md'', ''B'')] [(''c.md'', ''C'')])"
    by (simp add: transaction_at_def memory_place_def demo_transaction_def demo_resolved_def plain_names_def)
  have "memory_place [''m''] ''h1''" "''h1'' \<notin> {''.journals'', ''.publication-backups''}" by (simp_all add: memory_place_def)
  note S = demo_layout_settled [OF this, of "[]"]
  have run: "run_transaction_locked demo_publication (demo_transaction ''h1'' [(''a.md'', ''A''), (''b.md'', ''B'')] [(''c.md'', ''C'')])
      None False (demo_layout ''h1'' []) = (fst (demo_run []), snd (demo_run []))" by (simp add: demo_run_def)
  have old: "dir_holds (node_at (files (demo_layout ''h1'' []))) ([''m''] @ [''h1''])
      (tx_old_files (demo_transaction ''h1'' [(''a.md'', ''A''), (''b.md'', ''B'')] [(''c.md'', ''C'')]))"
    using S(3) by (simp add: demo_transaction_def)
  from transaction_keeps_old_files [OF at S(1,2) old S(4) run] ok fault
  show ?thesis by (simp add: demo_transaction_def)
qed

end
