(* ===== verification/MemorySave.thy ===== *)
theory MemorySave
  imports TransactionSafety StoreErrors
begin

text \<open>
  Saving a memory directly (\<^verbatim>\<open>try_save_memory\<close>, \<^verbatim>\<open>try_update_memory\<close>): under the lock of the memory,
  from the revision the caller has seen, all or nothing.
\<close>

section \<open>Preparing a direct save\<close>

lemma operation_path_result:
  assumes "operation_path E ar label ending rt h oid w = (Inr p, w')"
  shows "p = rt @ [ar, h, oid @ ending] \<and> oid \<notin> {[], ''.'', ''..''} \<and> is_hex64 h"
  using assms
  by (auto simp: operation_path_def thenI_Inr_iff bindI_Inr_iff validate_job_id_def validate_memory_hash_def
      bindR_Inr_iff Let_def dest!: ensure_infrastructure_result)

lemma keeps_operation_path:
  assumes "memory_place rt h" "g rt = Some Dir" "rt \<notin> S" "area rt x \<subseteq> S" "x \<noteq> ''..''"
  shows "keeps (confined rt S g) (operation_path E x label ending rt h oid)"
proof -
  have "keeps (confined rt S g) (ensure_infrastructure_directory rt [x, h] label)"
  proof (rule keeps_ensure_infrastructure)
    show "q \<in> S" if "strict_prefix rt q" "prefix q (rt @ [x, h])" for q
    proof -
      from prefix_below_cases [OF that(2)] that(1) have "prefix (rt @ [x]) q"
        by (auto simp: strict_prefix_def prefix_Cons dest: prefix_order.antisym)
      with assms(4) show ?thesis by (auto simp: area_def)
    qed
  qed (use assms in \<open>auto simp: memory_place_def\<close>)
  then show ?thesis unfolding operation_path_def by (intro keeps_thenI keeps_bindI keeps_pure)
qed

text \<open>A hash never looks like one of the store's own directories.\<close>

lemma hex64_not_dot: "is_hex64 h \<Longrightarrow> h \<noteq> CHR ''.'' # t" "is_hex64 h \<Longrightarrow> h \<noteq> []"
  by (auto simp: is_hex64_def is_digit_def between_def)

lemma hex64_place:
  assumes "is_hex64 h" "''..'' \<notin> set rt"
  shows "memory_place rt h" "h \<notin> {''.journals'', ''.publication-backups'', ''.staging'', ''.locks''}"
  using hex64_not_dot [OF assms(1)] assms(2) by (auto simp: memory_place_def)

lemma prepare_direct_result:
  assumes "prepare_direct_transaction P r old new w = (Inr op, w')" "rm_directory r = rt @ [h]" "rm_hash r = h"
    and "''..'' \<notin> set rt" "plain_names (map fst old)" "plain_names (map fst new)"
  shows "transaction_at rt h op \<and> tx_old_files op = old \<and> tx_new_files op = new \<and> tx_job_path op = None \<and>
    tx_job_store op = None \<and> tx_resolved op = r \<and> tx_old_revision op = memory_content_revision (pe_memory P) old"
proof -
  have rt: "store_root r = rt" using assms(2) by (simp add: store_root_def)
  from assms(1) [unfolded prepare_direct_transaction_def Let_def rt assms(3) bindI_gets bindI_Inr_iff thenI_Inr_iff publication_stage_directory_def publication_journal_path_def publication_backup_path_def]
  obtain oid st w0 w1 w2 w3 st' w4 j wj b wb where
    p: "operation_path (pe_memory P) ''.staging'' ''staging'' [] rt h oid w0 = (Inr st, w1)"
    and st: "ensure_child_directory (butlast st) (name_of st) ''staging'' w3 = (Inr st', w4)"
    and j: "operation_path (pe_memory P) ''.journals'' ''journal'' ''.yaml'' rt h oid w2 = (Inr j, wj)"
    and b: "operation_path (pe_memory P) ''.publication-backups'' ''backup'' [] rt h oid wj = (Inr b, wb)"
    and op0: "ret \<lparr>tx_kind = DirectSave, tx_operation_id = oid, tx_resolved = r,
              tx_old_revision = memory_content_revision (pe_memory P) old, tx_new_revision = memory_content_revision (pe_memory P) new,
              tx_old_files = old, tx_new_files = new, tx_stage_directory = st',
              tx_journal_path = j, tx_backup_path = b, tx_selector = selector_dict (rm_selector r),
              tx_memory_hash = h, tx_no_change = same_files old new, tx_job_store = None, tx_job_path = None,
              tx_diff_bytes = []\<rparr> wb = (Inr op, w')"
    by blast
  from op0 have op: "op = \<lparr>tx_kind = DirectSave, tx_operation_id = oid, tx_resolved = r,
              tx_old_revision = memory_content_revision (pe_memory P) old, tx_new_revision = memory_content_revision (pe_memory P) new,
              tx_old_files = old, tx_new_files = new, tx_stage_directory = st',
              tx_journal_path = j, tx_backup_path = b, tx_selector = selector_dict (rm_selector r),
              tx_memory_hash = h, tx_no_change = same_files old new, tx_job_store = None, tx_job_path = None,
              tx_diff_bytes = []\<rparr>" by simp
  note R = operation_path_result [OF p] operation_path_result [OF j] operation_path_result [OF b]
  have "st' = rt @ [''.staging'', h, oid]"
    using ensure_child_result [OF st] R(1) by (simp add: name_of_def butlast_append)
  moreover have "oid @ ''.yaml'' \<notin> {[], ''.'', ''..''}" by auto
  ultimately show ?thesis
    using R hex64_place [of h rt] assms(2-6) by (auto simp: transaction_at_def op)
qed

section \<open>What surrounds the transaction\<close>

text \<open>Everything outside the memory itself.\<close>

definition outer_region :: "path \<Rightarrow> path set" where
  "outer_region rt = area rt ''.staging'' \<union> area rt ''.journals'' \<union> area rt ''.publication-backups'' \<union> area rt ''.locks''"

lemma area_step: "q \<in> area rt x \<Longrightarrow> prefix q p \<Longrightarrow> p \<in> area rt x"
  by (auto simp: area_def intro: prefix_order.trans)

lemma area_of [simp]: "rt @ x # zs \<in> area rt x" "rt \<notin> area rt x"
  by (auto simp: area_def prefix_def)

lemma outer_frame:
  assumes "memory_place rt h" "h \<notin> {''.journals'', ''.publication-backups'', ''.staging'', ''.locks''}"
    and "q = rt @ [h] \<or> butlast q = rt @ [h] \<or> prefix q rt \<or> leaf rt h q"
  shows "q \<notin> outer_region rt"
proof -
  have hb: "h \<noteq> ''.backups''" using assms(1) by (simp add: memory_place_def)
  have "q \<notin> area rt x" if "x \<in> {''.journals'', ''.publication-backups'', ''.staging'', ''.locks''}" for x
  proof
    assume "q \<in> area rt x"
    then obtain zs where q: "q = rt @ x # zs" by (auto simp: area_def prefix_def)
    from assms(3) consider "q = rt @ [h]" | "butlast q = rt @ [h]" | "prefix q rt" | "leaf rt h q" by blast
    then show False
    proof cases
      case 3
      with q show False by (auto dest: prefix_length_le)
    qed (use q that assms(2) hb in \<open>auto simp: butlast_append leaf_def split: if_splits\<close>)
  qed
  then show ?thesis by (simp add: outer_region_def)
qed

text \<open>What only concerns the outside leaves the memory as it is.\<close>

definition settled :: "path \<Rightarrow> string \<Rightarrow> memory_files \<Rightarrow> world \<Rightarrow> bool" where
  "settled rt h fl w \<longleftrightarrow> memory_place rt h \<and> h \<notin> {''.journals'', ''.publication-backups'', ''.staging'', ''.locks''} \<and>
     clean rt (files w) \<and> root_there rt (node_at (files w)) \<and> dir_holds (node_at (files w)) (rt @ [h]) fl \<and>
     regular_leaves rt h w"

lemma settledD:
  assumes "settled rt h fl w"
  shows "memory_place rt h" "clean rt (files w)" "root_there rt (node_at (files w))"
    "dir_holds (node_at (files w)) (rt @ [h]) fl" "regular_leaves rt h w"
    "h \<notin> {''.journals'', ''.publication-backups'', ''.staging'', ''.locks''}"
  using assms by (simp_all add: settled_def)

lemma keeps_settled:
  assumes "\<And>g. memory_place rt h \<Longrightarrow> root_there rt g \<Longrightarrow> keeps (confined rt (outer_region rt) g) m"
  shows "keeps (settled rt h fl) m"
  unfolding keeps_def
proof (intro allI impI)
  fix w assume s: "settled rt h fl w"
  note S = settledD [OF s]
  obtain r w' where run: "m w = (r, w')" by fastforce
  from keepsD [OF assms [OF S(1,3)] confined_self [OF S(2)] run]
  have c: "confined rt (outer_region rt) (node_at (files w)) w'" .
  note F = confined_frame [OF c outer_frame [OF S(1,6)]]
  have "root_there rt (node_at (files w'))" using S(3) F by (simp add: root_there_def)
  moreover have "dir_holds (node_at (files w')) (rt @ [h]) fl" by (rule dir_holds_cong [OF _ S(4)]) (use F in blast)
  moreover have "regular_leaves rt h w'" using S(5) F c by (auto simp: regular_leaves_def confined_def)
  ultimately show "settled rt h fl (snd (m w))" using S(1,6) c run by (simp add: settled_def confined_def)
qed

lemma outer_infrastructure:
  assumes "memory_place rt h" "root_there rt g" "area rt x \<subseteq> S" "rt \<notin> S" "''..'' \<notin> set (x # cs)"
  shows "keeps (confined rt S g) (ensure_infrastructure_directory rt (x # cs) l)"
proof (rule keeps_ensure_infrastructure)
  show "q \<in> S" if "strict_prefix rt q" "prefix q (rt @ x # cs)" for q
  proof -
    from prefix_below_cases [OF that(2)] that(1) have "prefix (rt @ [x]) q"
      by (auto simp: strict_prefix_def prefix_Cons dest: prefix_order.antisym)
    with assms(3) show ?thesis by (auto simp: area_def)
  qed
qed (use assms in \<open>auto simp: memory_place_def root_there_def\<close>)

lemma rt_not_outer [simp]: "rt \<notin> outer_region rt"
  by (simp add: outer_region_def)

lemma settled_lease: "store_root r = rt \<Longrightarrow> keeps (settled rt h fl) (validate_lock_lease lease r)"
  by (rule keeps_settled)
     (auto simp: validate_lock_lease_def memory_lock_path_def ensure_safe_leaf_def Let_def outer_region_def
       intro!: keeps_intros outer_infrastructure simp del: io_apply)

lemma settled_operation_path:
  "x \<in> {''.staging'', ''.journals'', ''.publication-backups''} \<Longrightarrow>
     keeps (settled rt h fl) (operation_path E x label ending rt h oid)"
  by (rule keeps_settled, rule keeps_operation_path)
     (auto simp: root_there_def outer_region_def)

text \<open>Trees and files below one of the outer directories.\<close>

lemma settled_rmtree:
  assumes "x \<in> {''.staging'', ''.journals'', ''.publication-backups'', ''.locks''}" "''..'' \<notin> set zs"
  shows "keeps (settled rt h fl) (rmtree (rt @ x # zs) l im)"
proof (rule keeps_settled, rule keeps_rmtree)
  show "q \<in> outer_region rt" if "prefix (rt @ x # zs) q" for q
    using area_step [OF area_of(1) that] assms(1) by (auto simp: outer_region_def)
qed (use assms in \<open>auto simp: below_def memory_place_def\<close>)

lemma settled_unlink:
  assumes "x \<in> {''.staging'', ''.journals'', ''.publication-backups'', ''.locks''}" "''..'' \<notin> set zs"
  shows "keeps (settled rt h fl) (unlink (rt @ x # zs))"
  by (rule keeps_settled, rule keeps_unlink)
     (use assms in \<open>auto simp: below_def memory_place_def outer_region_def\<close>)

lemma settled_child:
  assumes "x \<in> {''.staging'', ''.journals'', ''.publication-backups'', ''.locks''}" "''..'' \<notin> set (zs @ [n])"
  shows "keeps (settled rt h fl) (ensure_child_directory (rt @ x # zs) n l)"
  by (rule keeps_settled, rule keeps_ensure_child)
     (use assms in \<open>auto simp: below_def memory_place_def outer_region_def\<close>)

lemma settled_writes:
  assumes "x \<in> {''.staging'', ''.journals'', ''.publication-backups'', ''.locks''}" "''..'' \<notin> set zs"
    and "plain_names (map fst fl')"
  shows "keeps (settled rt h fl) (write_files (rt @ x # zs) fl')"
proof (rule keeps_settled, rule keeps_write_files [OF _ _ assms(3)])
  show "q \<in> outer_region rt" if "strict_prefix (rt @ x # zs) q" for q
    using area_step [OF area_of(1), of rt x zs q] that assms(1) by (auto simp: outer_region_def strict_prefix_def)
  fix g q assume g: "root_there rt g" and q: "prefix q (rt @ x # zs)" "q \<noteq> []"
  from prefix_below_cases [OF q(1)] show "q \<in> outer_region rt \<or> g q = Some Dir"
    using g q(2) assms(1) by (auto simp: root_there_def outer_region_def prefix_Cons)
qed (use assms in \<open>auto simp: below_def memory_place_def\<close>)

text \<open>
  What a direct save does around the transaction, for any property \<open>K\<close> that the operations below the
  three outer directories keep.
\<close>

definition outer_directories :: "string list" where
  "outer_directories = [''.staging'', ''.journals'', ''.publication-backups'']"

locale transaction_area =
  fixes rt :: path and h :: string and K :: "world \<Rightarrow> bool"
  assumes keeps_path: "x \<in> set outer_directories \<Longrightarrow> keeps K (operation_path E x label ending rt h oid)"
    and keeps_removal: "x \<in> set outer_directories \<Longrightarrow> ''..'' \<notin> set zs \<Longrightarrow> keeps K (rmtree (rt @ x # zs) l im)"
    and keeps_unlinking: "x \<in> set outer_directories \<Longrightarrow> ''..'' \<notin> set zs \<Longrightarrow> keeps K (unlink (rt @ x # zs))"
    and keeps_child: "x \<in> set outer_directories \<Longrightarrow> ''..'' \<notin> set (zs @ [n]) \<Longrightarrow> keeps K (ensure_child_directory (rt @ x # zs) n l)"
    and keeps_writes: "x \<in> set outer_directories \<Longrightarrow> ''..'' \<notin> set zs \<Longrightarrow> plain_names (map fst fl) \<Longrightarrow>
      keeps K (write_files (rt @ x # zs) fl)"
begin

lemma prepare_keeps:
  assumes "store_root r = rt" "rm_hash r = h" "plain_names (map fst new)"
  shows "keeps K (prepare_direct_transaction P r old new)"
proof -
  have tail: "keeps K (thenI (write_files st new)
      (bindI (publication_journal_path (pe_memory P) rt h oid) (\<lambda>journal.
       bindI (publication_backup_path (pe_memory P) rt h oid) (\<lambda>backup. ret (mk journal backup)))))"
    if "st = rt @ [''.staging'', h, oid]" "''..'' \<notin> {h, oid}" for st oid and mk :: "path \<Rightarrow> path \<Rightarrow> memory_transaction"
    unfolding that publication_journal_path_def publication_backup_path_def
    by (intro keeps_thenI keeps_bindI keeps_path keeps_writes assms(3) keeps_pure) (use that(2) in \<open>auto simp: outer_directories_def\<close>)
  have body: "keeps K (bindI (see (\<lambda>fs. path_exists fs st)) (\<lambda>there.
      thenI (whenI there (rmtree st ''staging'' False))
      (bindI (ensure_child_directory (butlast st) (name_of st) ''staging'') (\<lambda>st'.
      thenI (write_files st' new)
      (bindI (publication_journal_path (pe_memory P) rt h oid) (\<lambda>journal.
       bindI (publication_backup_path (pe_memory P) rt h oid) (\<lambda>backup. ret (mk st' journal backup))))))))"
    if st: "st = rt @ [''.staging'', h, oid]" and nd: "''..'' \<notin> {h, oid}"
    for st oid and mk :: "path \<Rightarrow> path \<Rightarrow> path \<Rightarrow> memory_transaction"
  proof -
    have b: "butlast st = rt @ [''.staging'', h]" "name_of st = oid" by (simp_all add: st butlast_append name_of_def)
    have rm: "keeps K (rmtree st ''staging'' False)" unfolding st by (rule keeps_removal) (use nd in \<open>auto simp: outer_directories_def\<close>)
    have ch: "keeps K (ensure_child_directory (rt @ [''.staging'', h]) oid ''staging'')"
      by (rule keeps_child) (use nd in \<open>auto simp: outer_directories_def\<close>)
    show ?thesis
      unfolding b
      by (intro keeps_bindI [OF keeps_see] keeps_thenI keeps_whenI rm keeps_bindI_res [where R = "\<lambda>x. x = st", OF ch] tail)
         (use nd st in \<open>auto dest!: ensure_child_result\<close>)
  qed
  have hex: "x = rt @ [''.staging'', h, oid] \<and> ''..'' \<notin> {h, oid}"
    if "publication_stage_directory (pe_memory P) rt h oid w = (Inr x, w')" for x oid w w'
    using operation_path_result [OF that [unfolded publication_stage_directory_def]] hex64_not_dot(1) [of h "''.''"] by auto
  show ?thesis
    unfolding prepare_direct_transaction_def Let_def assms(1,2)
  proof (rule keeps_bindI [OF keeps_pure(5)])
    fix oid
    show "keeps K (bindI (publication_stage_directory (pe_memory P) rt h oid) (\<lambda>stage.
      bindI (see (\<lambda>fs. path_exists fs stage)) (\<lambda>there.
      thenI (whenI there (rmtree stage ''staging'' False))
      (bindI (ensure_child_directory (butlast stage) (name_of stage) ''staging'') (\<lambda>stage.
      thenI (write_files stage new)
      (bindI (publication_journal_path (pe_memory P) rt h oid) (\<lambda>journal.
       bindI (publication_backup_path (pe_memory P) rt h oid) (\<lambda>backup.
         ret \<lparr>tx_kind = DirectSave, tx_operation_id = oid, tx_resolved = r,
              tx_old_revision = memory_content_revision (pe_memory P) old, tx_new_revision = memory_content_revision (pe_memory P) new,
              tx_old_files = old, tx_new_files = new, tx_stage_directory = stage,
              tx_journal_path = journal, tx_backup_path = backup, tx_selector = selector_dict (rm_selector r),
              tx_memory_hash = h, tx_no_change = same_files old new, tx_job_store = None, tx_job_path = None,
              tx_diff_bytes = []\<rparr>))))))))"
    proof (rule keeps_bindI_res [where R = "\<lambda>x. x = rt @ [''.staging'', h, oid] \<and> ''..'' \<notin> {h, oid}"])
      show "keeps K (publication_stage_directory (pe_memory P) rt h oid)"
        unfolding publication_stage_directory_def by (rule keeps_path) (simp add: outer_directories_def)
    qed (use hex in \<open>auto intro: body\<close>)
  qed
qed

lemma cleanup_keeps:
  assumes "transaction_at rt h op"
  shows "keeps K (cleanup_paths (tx_journal_path op) (tx_backup_path op) (tx_stage_directory op))"
proof -
  from assms obtain j b s where p: "tx_journal_path op = rt @ [''.journals'', h, j]" "j \<noteq> ''..''"
      "tx_backup_path op = rt @ [''.publication-backups'', h, b]" "b \<noteq> ''..''"
      "tx_stage_directory op = rt @ [''.staging'', h, s]" "s \<noteq> ''..''" "h \<noteq> ''..''"
    by (auto simp: transaction_at_def memory_place_def)
  show ?thesis
    unfolding cleanup_paths_def p
    by (intro keeps_bindI keeps_see keeps_thenI keeps_whenI keeps_unlinking keeps_removal)
       (use p in \<open>auto simp: outer_directories_def\<close>)
qed

end

interpretation settled: transaction_area rt h "settled rt h fl" for rt h fl
  by unfold_locales
    (auto simp: outer_directories_def intro!: settled_operation_path settled_rmtree settled_unlink settled_child settled_writes)

lemmas settled_prepare = settled.prepare_keeps
lemmas settled_cleanup = settled.cleanup_keeps

lemma avoids_cleanup:
  "not_os_class c \<Longrightarrow> c \<notin> {CMemoryStoreError, CRuntimeError} \<Longrightarrow> avoids c (cleanup_paths a b d)"
  unfolding cleanup_paths_def by (intro avoids_intros)

section \<open>Rolling back\<close>

text \<open>Whatever regular files are there can be replaced.\<close>

lemma regular_holds_something:
  assumes "clean rt (files w)" "memory_place rt h" "regular_leaves rt h w" "node_at (files w) (rt @ [h]) = Some Dir"
  shows "\<exists>fl. dir_holds (node_at (files w)) (rt @ [h]) fl"
proof -
  let ?d = "rt @ [h]" and ?ns = "listdir (files w) (rt @ [h])"
  let ?c = "\<lambda>n. case node_at (files w) (?d @ [n]) of Some (File b) \<Rightarrow> b | _ \<Rightarrow> []"
  let ?fl = "map (\<lambda>n. (n, ?c n)) ?ns"
  note L = listdir_clean [OF assms(1) memory_placeD(2) [OF assms(2)]]
  have "node_at (files w) (?d @ [n]) = map_option File (map_of ?fl n)" if "n \<noteq> ''.''" "n \<noteq> ''..''" for n
  proof (cases "node_at (files w) (?d @ [n])")
    case None
    with L have "n \<notin> set ?ns" by simp
    then have "map_of ?fl n = None" by (simp add: map_of_map_restrict)
    with None show ?thesis by simp
  next
    case (Some m)
    with that L have "n \<in> set ?ns" by simp
    then have m1: "map_of ?fl n = Some (?c n)" by (simp add: map_of_map_restrict)
    have "no_directory (node_at (files w) (?d @ [n]))" using assms(3) by (auto simp: regular_leaves_def leaf_def)
    with Some obtain b where "m = File b" by (cases m) auto
    with m1 Some show ?thesis by simp
  qed
  with assms(4) show ?thesis by (auto simp: dir_holds_def)
qed

lemma busy_memory:
  assumes "transaction_at rt h op" "dir_holds g (rt @ [h]) fl" "busy_with rt h g w"
  shows "node_at (files w) (rt @ [h]) = Some Dir"
proof -
  have "rt @ [h] \<notin> transaction_region rt h"
    using memory_not_in_area(1) [OF assms(1), of _ "rt @ [h]"] replace_region_not(2) [of h rt] assms(1)
    by (auto simp: transaction_region_def transaction_at_def memory_place_def)
  with assms(2,3) show ?thesis by (auto simp: busy_with_def confined_def dir_holds_def)
qed

lemma root_outside:
  assumes "prefix q rt" shows "q \<notin> replace_region rt h"
proof
  assume "q \<in> replace_region rt h"
  then have "length rt < length q" by (auto simp: replace_region_def strict_prefix_def dest!: prefix_length_le)
  with prefix_length_le [OF assms] show False by simp
qed

lemma rollback_outcome:
  assumes tx: "transaction_at rt h op" and g: "root_there rt g" "dir_holds g (rt @ [h]) fl" and b: "busy_with rt h g w"
    and job: "tx_job_path op = None"
    and run: "rollback_failed_transaction P op e (Some lease) False w = (r, w')"
  shows "(r = Inr () \<longrightarrow> dir_holds (node_at (files w')) (rt @ [h]) (tx_old_files op)) \<and>
    (\<forall>e'. r = Inl e' \<longrightarrow> exn_class e' \<noteq> Some CMemoryPublicationError)"
proof -
  note T = transaction_atD [OF tx]
  have rd: "rm_directory (tx_resolved op) = rt @ [h]" using tx by (simp add: transaction_at_def)
  note B = busy_facts [OF tx g(1) b] and D = busy_memory [OF tx g(2) b]
  have reg: "regular_leaves rt h w" using b by (simp add: busy_with_def)
  obtain fl' where fl': "dir_holds (node_at (files w)) (rt @ [h]) fl'"
    using regular_holds_something [OF B(1) T(1) reg D] by blast
  have can: "canonical_directory (tx_resolved op) w = (Inr (rt @ [h]), w)"
    by (rule canonical_there [OF B(1) T(1) B(2) D rd T(3)])
  have storeless: "(case tx_job_store op of Some store \<Rightarrow> if False then m store else ret () | None \<Rightarrow> ret ()) = ret ()"
    for m :: "path \<Rightarrow> unit fio" by (simp split: option.splits del: io_apply)
  from run have eff: "thenI (replace_canonical_files (rt @ [h]) (tx_old_files op))
      (cleanup_paths (tx_journal_path op) (tx_backup_path op) (tx_stage_directory op)) w = (r, w')"
    unfolding rollback_failed_transaction_def under_lock_def job storeless
    by (simp add: thenI_def bindI_def can)
  have av: "avoids CMemoryPublicationError (thenI (replace_canonical_files (rt @ [h]) (tx_old_files op))
      (cleanup_paths (tx_journal_path op) (tx_backup_path op) (tx_stage_directory op)))"
    by (intro avoids_thenI avoids_replace avoids_cleanup) (auto simp: not_os_class_def)
  have "dir_holds (node_at (files w')) (rt @ [h]) (tx_old_files op)" if "r = Inr ()"
  proof -
    from eff that obtain w1 where w1: "replace_canonical_files (rt @ [h]) (tx_old_files op) w = (Inr (), w1)"
      "cleanup_paths (tx_journal_path op) (tx_backup_path op) (tx_stage_directory op) w1 = (Inr (), w')"
      by (auto simp: thenI_Inr_iff)
    from replace_canonical_succeeds [OF T(1) B(2,1) fl' T(4) w1(1)]
    have h1: "dir_holds (node_at (files w1)) (rt @ [h]) (tx_old_files op)" "clean rt (files w1)" by simp_all
    have "confined rt (replace_region rt h) (node_at (files w)) w1"
      by (rule keepsD [OF keeps_replace_canonical [OF T(1) B(2) T(4)] confined_self [OF B(1)] w1(1)])
    note F = confined_frame [OF this root_outside]
    have "root_there rt (node_at (files w1))" using B(2) F by (simp add: root_there_def)
    moreover have "regular_leaves rt h w1" by (rule keepsD [OF regular.replace_keeps [OF T(4)] reg w1(1)])
    ultimately have "settled rt h (tx_old_files op) w1"
      using h1 tx by (auto simp: settled_def transaction_at_def)
    from keepsD [OF settled_cleanup [OF tx] this w1(2)] show ?thesis by (rule settledD(4))
  qed
  with avoidsD [OF av] eff show ?thesis by blast
qed

section \<open>Saving\<close>

lemma avoids_run:
  assumes "not_os_class c" "c \<notin> {CMemoryStoreError, CRuntimeError, CValueError, CMemoryPublicationConflictError}"
  shows "avoids c (run_transaction_locked P op None False)"
proof -
  have w: "avoids c (write_transaction_journal P op ph)" for ph
    unfolding write_transaction_journal_def atomic_write_text_def by (intro avoids_intros assms(1))
  have p: "avoids c (crash_point op None ph)" for ph
    unfolding crash_point_def transaction_checkpoint_def by (intro avoids_thenI avoids_pure(1)) (simp add: avoids_def)
  have t: "avoids c (publish_tail P op None False)"
    unfolding publish_tail_def by (intro avoids_thenI w p) (simp add: avoids_def)
  have s: "c \<notin> {CMemoryStoreError, CRuntimeError}" using assms(2) by simp
  have cd: "avoids c (canonical_directory (tx_resolved op))"
    unfolding canonical_directory_def by (intro avoids_intros assms(1) s)
  have b: "avoids c (write_backup (tx_backup_path op) (tx_old_files op))"
    unfolding write_backup_def by (intro avoids_intros assms(1) s)
  show ?thesis
    unfolding run_transaction_locked_def Let_def
    by (rule avoids_bindI [OF cd], rule avoids_bindI [OF avoids_read])
       (use assms in \<open>auto intro!: avoids_thenI avoids_bindI avoids_pure w p t cd b avoids_replace
          simp: publication_conflict_def simp del: io_apply\<close>)
qed

lemma save_direct_outcome:
  assumes st: "settled rt h old w" and r: "rm_directory r = rt @ [h]" "rm_hash r = h"
    and n: "plain_names (map fst old)" "plain_names (map fst new)"
    and run: "save_direct_locked P r current new lease w = (res, w')" and cur: "mn_files current = old"
  shows "(\<forall>s. res = Inr s \<longrightarrow> settled rt h new w' \<and> s = make_snapshot (pe_memory P) r new) \<and>
    (\<forall>e. res = Inl e \<longrightarrow> exn_class e = Some CMemoryPublicationError \<longrightarrow> dir_holds (node_at (files w')) (rt @ [h]) old)"
proof -
  have rt: "store_root r = rt" "''..'' \<notin> set rt" using r(1) settledD(1) [OF st] by (simp_all add: store_root_def memory_place_def)
  obtain r1 w1 where v: "validate_lock_lease lease r w = (r1, w1)" by fastforce
  from keepsD [OF settled_lease [OF rt(1)] st v] have s1: "settled rt h old w1" .
  obtain r2 w2 where p: "prepare_direct_transaction P r old new w1 = (r2, w2)" by fastforce
  from keepsD [OF settled_prepare [OF rt(1) r(2) n(2)] s1 p] have s2: "settled rt h old w2" .
  show ?thesis
  proof (cases r1)
    case (Inl e)
    with run v settledD(4) [OF s1] show ?thesis by (auto simp: save_direct_locked_def thenI_apply)
  next
    case r1: (Inr u)
    show ?thesis
    proof (cases r2)
      case (Inl e)
      with run v r1 p cur settledD(4) [OF s2] show ?thesis
        by (auto simp: save_direct_locked_def thenI_apply bindI_apply)
    next
      case r2: (Inr op)
      from prepare_direct_result [OF p [unfolded r2] r rt(2) n]
      have op: "transaction_at rt h op" "tx_old_files op = old" "tx_new_files op = new" "tx_job_path op = None" by simp_all
      let ?g = "node_at (files w2)"
      note S = settledD [OF s2]
      have calm: "calm rt h ?g w2" using S by (simp add: calm_def confined_def)
      have g: "root_there rt ?g" "dir_holds ?g (rt @ [h]) (tx_old_files op)" using S op by simp_all
      note H = run_transaction_hoare [OF op(1) g, of P None False]
      obtain r3 w3 where t: "run_transaction_locked P op None False w2 = (r3, w3)" by fastforce
      show ?thesis
      proof (cases r3)
        case (Inr x)
        with hoareD_Inr [OF H calm] t have f3: "busy_with rt h ?g w3" "dir_holds (node_at (files w3)) (rt @ [h]) new"
          using op(3) by auto
        have "settled rt h new w3"
          using busy_facts [OF op(1) g(1) f3(1)] f3 S by (simp add: settled_def busy_with_def)
        obtain r4 w4 where c: "cleanup_paths (tx_journal_path op) (tx_backup_path op) (tx_stage_directory op) w3 = (r4, w4)"
          by fastforce
        from keepsD [OF settled_cleanup [OF op(1)] \<open>settled rt h new w3\<close> c] have s4: "settled rt h new w4" .
        have av: "exn_class e \<noteq> Some CMemoryPublicationError" if "r4 = Inl e" for e
          using avoidsD [OF avoids_cleanup, of CMemoryPublicationError] c that by (auto simp: not_os_class_def)
        have "res = (case r4 of Inl e \<Rightarrow> Inl e | Inr _ \<Rightarrow> Inr (make_snapshot (pe_memory P) r new)) \<and> w' = w4"
          using run v r1 p r2 cur t Inr c
          by (auto simp: save_direct_locked_def thenI_apply bindI_apply tryI_def split: sum.splits)
        with s4 av show ?thesis by (auto split: sum.splits)
      next
        case (Inl e)
        with hoareD_Inl [OF H calm] t have f3: "busy_with rt h ?g w3" by auto
        have nc: "\<not> caught_by [CPublicationCrash] e"
        proof -
          have "exn_class e \<noteq> Some CPublicationCrash"
            using avoidsD [OF avoids_run, of CPublicationCrash P op w2 e w3] t Inl by (simp add: not_os_class_def)
          moreover have "is_subclass c CPublicationCrash \<Longrightarrow> c = CPublicationCrash" for c
            by (cases c) (auto simp: is_subclass_def)
          ultimately show ?thesis by (auto simp: caught_by_def split: option.splits)
        qed
        obtain r4 w4 where rb: "rollback_failed_transaction P op e (Some lease) False w3 = (r4, w4)" by fastforce
        note R = rollback_outcome [OF op(1) g f3 op(4) rb]
        show ?thesis
        proof (cases "e = Crashed")
          case True
          with run v r1 p r2 cur t Inl show ?thesis
            by (auto simp: save_direct_locked_def thenI_apply bindI_apply tryI_def)
        next
          case False
          have "res = (case r4 of Inl e' \<Rightarrow> Inl e' | Inr _ \<Rightarrow> Inl (publication_error (exn_text e))) \<and> w' = w4"
            using run v r1 p r2 cur t Inl nc rb False
            by (auto simp: save_direct_locked_def thenI_apply bindI_apply tryI_def split: sum.splits)
          with R op(2) show ?thesis by (auto split: sum.splits)
        qed
      qed
    qed
  qed
qed

section \<open>Under the lock, from the revision that was seen\<close>

lemma exclusive_lock_split:
  assumes "exclusive_lock p wait c m w = (res, w')" "K w" "keeps K (mkdir_p (butlast p))" "keeps K (open_append p)"
  shows "\<exists>w1. K w1 \<and> ((\<exists>e. res = Inl e \<and> w' = w1) \<or> m w1 = (res, w'))"
proof -
  obtain r1 w1 where a: "mkdir_p (butlast p) w = (r1, w1)" by fastforce
  from keepsD [OF assms(3,2) a] have k1: "K w1" .
  obtain r2 w2 where b: "open_append p w1 = (r2, w2)" by fastforce
  from keepsD [OF assms(4) k1 b] have k2: "K w2" .
  show ?thesis
    using assms(1) a b k1 k2
    by (cases r1; cases r2) (auto simp: exclusive_lock_def thenI_apply bindI_apply split: if_splits)
qed

lemma memory_lock_path_result:
  "memory_lock_path r w = (Inr p, w') \<Longrightarrow> p = store_root r @ [''.locks'', rm_hash r @ ''.lock'']"
  by (auto simp: memory_lock_path_def bindI_Inr_iff Let_def thenI_Inr_iff dest!: ensure_infrastructure_result)

lemma settled_lock:
  assumes "settled rt h fl w" "rm_directory r = rt @ [h]" "rm_hash r = h" "memory_lock r wait body w = (res, w')"
  shows "\<exists>w1 lease. settled rt h fl w1 \<and> ((\<exists>e. res = Inl e \<and> w' = w1) \<or> body lease w1 = (res, w'))"
proof (cases "validate_resolved_memory r None")
  case (Inl e)
  with assms(1,4) show ?thesis by (auto simp: memory_lock_def thenI_apply)
next
  case (Inr u)
  have rt: "store_root r = rt" using assms(2) by (simp add: store_root_def)
  obtain r1 w1 where p: "memory_lock_path r w = (r1, w1)" by fastforce
  have "keeps (settled rt h fl) (memory_lock_path r)"
    by (rule keeps_settled)
       (auto simp: memory_lock_path_def rt ensure_safe_leaf_def Let_def outer_region_def
         intro!: keeps_intros outer_infrastructure simp del: io_apply)
  from keepsD [OF this assms(1) p] have s1: "settled rt h fl w1" .
  show ?thesis
  proof (cases r1)
    case (Inl e)
    with assms(4) \<open>validate_resolved_memory r None = Inr u\<close> p s1 show ?thesis
      by (auto simp: memory_lock_def thenI_apply bindI_apply)
  next
    case (Inr q)
    from memory_lock_path_result [OF p [unfolded Inr]] have q: "q = rt @ [''.locks'', h @ ''.lock'']"
      by (simp add: rt assms(3))
    have nd: "h @ ''.lock'' \<noteq> ''..''" by (cases h; cases "tl h") auto
    have mk: "keeps (settled rt h fl) (mkdir_p (butlast q))"
      by (rule keeps_settled, rule keeps_mkdir_path)
         (auto simp: q butlast_append below_def memory_place_def root_there_def outer_region_def dest!: prefix_below_cases simp: prefix_Cons)
    have op: "keeps (settled rt h fl) (open_append q)"
      by (rule keeps_settled, rule keeps_open_append)
         (use nd in \<open>auto simp: q below_def memory_place_def outer_region_def\<close>)
    from assms(4) \<open>validate_resolved_memory r None = Inr u\<close> p Inr
    have "exclusive_lock q wait False (body \<lparr>ll_hash = rm_hash r, ll_lock_path = q\<rparr>) w1 = (res, w')"
      by (simp add: memory_lock_def thenI_apply bindI_apply)
    from exclusive_lock_split [OF this s1 mk op] show ?thesis by blast
  qed
qed

lemma settled_ensure:
  assumes st: "settled rt h old w" and ne: "old \<noteq> []" "plain_names (map fst old)"
    and r: "rm_directory r = rt @ [h]" "rm_hash r = h"
    and run: "ensure_memory_locked E r lease w = (res, w')"
  shows "settled rt h old w' \<and> (\<forall>s. res = Inr s \<longrightarrow>
    dir_holds (node_at (files w')) (rt @ [h]) (mn_files s) \<and> plain_names (map fst (mn_files s)) \<and>
    mn_revision s = memory_content_revision E (mn_files s))"
proof -
  have rt: "store_root r = rt" using r(1) by (simp add: store_root_def)
  obtain r1 w1 where v: "validate_lock_lease lease r w = (r1, w1)" by fastforce
  from keepsD [OF settled_lease [OF rt] st v] have s1: "settled rt h old w1" .
  note S = settledD [OF s1] and P = memory_placeD [OF settledD(1) [OF s1]]
  have d: "node_at (files w1) (rt @ [h]) = Some Dir" using S(4) by (simp add: dir_holds_def)
  have can: "canonical_directory r w1 = (Inr (rt @ [h]), w1)" by (rule canonical_there [OF S(2,1,3) d r])
  obtain n where n: "n \<in> set (map fst old)" using ne(1) by (cases old) auto
  then have nn: "n \<noteq> ''.''" "n \<noteq> ''..''" using ne(2) by (auto simp: plain_names_def)
  have "map_of old n \<noteq> None" using n by (auto simp: map_of_eq_None_iff)
  then have "node_at (files w1) ((rt @ [h]) @ [n]) \<noteq> None" using S(4) nn by (auto simp: dir_holds_def)
  then have "listdir (files w1) (rt @ [h]) \<noteq> []" using listdir_clean(1) [OF S(2) P(2)] nn by auto
  moreover have "iterdir (rt @ [h]) w1 = (Inr (listdir (files w1) (rt @ [h])), w1)"
    using d S(2) P(2) by (simp add: iterdir_def stat_clean)
  moreover obtain r2 w2 where rd: "read_canonical_files E (rt @ [h]) w1 = (r2, w2)" by fastforce
  moreover have "w2 = w1" by (rule read_canonical_state [OF rd])
  moreover have "r2 = Inr fl \<Longrightarrow> dir_holds (node_at (files w1)) (rt @ [h]) fl \<and> plain_names (map fst fl)" for fl
    using read_canonical_files_result [OF S(2) P(4,2) d, of E fl w1] rd \<open>w2 = w1\<close> by simp
  ultimately show ?thesis
    using run v can s1
    by (cases r1; cases r2)
       (auto simp: ensure_memory_locked_def thenI_apply bindI_apply make_snapshot_def split: if_splits)
qed

lemma dir_holds_transfer:
  assumes "dir_holds g d a" "dir_holds g d b" "dir_holds g' d a"
  shows "dir_holds g' d b"
  unfolding dir_holds_def
proof (intro conjI allI impI)
  show "g' d = Some Dir" using assms(3) by (simp add: dir_holds_def)
  fix n assume n: "n \<noteq> ''.''" "n \<noteq> ''..''"
  then have "map_option File (map_of a n) = map_option File (map_of b n)" using assms(1,2) by (auto simp: dir_holds_def)
  with n assms(3) show "g' (d @ [n]) = map_option File (map_of b n)" by (simp add: dir_holds_def)
qed

lemma normalized_plain:
  "normalize_candidate_files E fl = Inr fl' \<Longrightarrow> distinct (map fst fl) \<Longrightarrow> fl' = fl \<and> plain_names (map fst fl) \<and> fl \<noteq> []"
  by (auto simp: normalize_candidate_files_Inr names_ok_def plain_names_def filename_ok_def list_all_iff)

text \<open>Two descriptions of the same directory are interchangeable, and so are their revisions.\<close>

lemma settled_transfer:
  "settled rt h a w \<Longrightarrow> dir_holds (node_at (files w)) (rt @ [h]) b \<Longrightarrow> settled rt h b w"
  by (simp add: settled_def)

text \<open>
  C4 - Saving a memory is atomic and never loses an update: a save succeeds only from the
  revision that the memory has under the lock, and then the memory holds exactly the files that
  the updater made of it; from any other revision it fails and leaves the memory as it is; and when the
  publication reports an error of its own, which it does after rolling back, the memory
  holds the old files.
\<close>

theorem memory_save_atomic:
  assumes "settled rt h old w" "old \<noteq> []" "plain_names (map fst old)"
    and "rm_directory r = rt @ [h]" "rm_hash r = h"
    and "\<forall>s x. updater s = Inr x \<longrightarrow> distinct (map fst x)"
    and "try_update_memory P r expected updater w = (res, w')"
  shows "(\<forall>s. res = Inr s \<longrightarrow> expected = memory_content_revision (pe_memory P) old \<and>
      dir_holds (node_at (files w')) (rt @ [h]) (mn_files s) \<and>
      (\<exists>seen. dir_holds (node_at (files w)) (rt @ [h]) (mn_files seen) \<and> updater seen = Inr (mn_files s))) \<and>
    (expected \<noteq> memory_content_revision (pe_memory P) old \<longrightarrow>
      (\<exists>e. res = Inl e) \<and> dir_holds (node_at (files w')) (rt @ [h]) old) \<and>
    (\<forall>e. res = Inl e \<longrightarrow> exn_class e = Some CMemoryPublicationError \<longrightarrow> dir_holds (node_at (files w')) (rt @ [h]) old)"
proof (cases "validate_resolved_memory r None")
  case (Inl e)
  with assms(1,7) settledD(4) [OF assms(1)] show ?thesis by (auto simp: try_update_memory_def thenI_apply Let_def)
next
  case (Inr u)
  define body where "body lease = bindI (ensure_memory_locked (pe_memory P) r lease) (\<lambda>current.
      bindI (liftR (bindR (updater current) (normalize_candidate_files (pe_memory P)))) (\<lambda>normalized.
        if mn_revision current \<noteq> expected then raise memory_conflict
        else save_direct_locked P r current normalized lease))" for lease
  have "memory_lock r False body w = (res, w')"
    using assms(7) Inr by (simp add: try_update_memory_def thenI_apply Let_def body_def [abs_def])
  from settled_lock [OF assms(1,4,5) this] obtain w1 lease where s1: "settled rt h old w1"
    and or: "(\<exists>e. res = Inl e \<and> w' = w1) \<or> body lease w1 = (res, w')" by blast
  note old1 = settledD(4) [OF s1] and old0 = settledD(4) [OF assms(1)]
  show ?thesis
  proof (cases "\<exists>e. res = Inl e \<and> w' = w1")
    case True
    with old1 show ?thesis by auto
  next
    case False
    with or have run: "body lease w1 = (res, w')" by blast
    obtain r2 w2 where en: "ensure_memory_locked (pe_memory P) r lease w1 = (r2, w2)" by fastforce
    note E = settled_ensure [OF s1 assms(2-5) en]
    then have s2: "settled rt h old w2" by blast
    note old2 = settledD(4) [OF s2]
    show ?thesis
    proof (cases r2)
      case (Inl e)
      with run en old2 show ?thesis by (auto simp: body_def bindI_apply)
    next
      case (Inr cur)
      with E have d: "dir_holds (node_at (files w2)) (rt @ [h]) (mn_files cur)" "plain_names (map fst (mn_files cur))"
        and rev: "mn_revision cur = memory_content_revision (pe_memory P) (mn_files cur)" by auto
      have rev': "mn_revision cur = memory_content_revision (pe_memory P) old"
        using rev dir_holds_same_revision [OF d(1) old2 d(2) assms(3)] by simp
      have seen: "dir_holds (node_at (files w)) (rt @ [h]) (mn_files cur)" by (rule dir_holds_transfer [OF old2 d(1) old0])
      show ?thesis
      proof (cases "bindR (updater cur) (normalize_candidate_files (pe_memory P))")
        case (Inl e)
        with run en Inr old2 show ?thesis by (auto simp: body_def bindI_apply)
      next
        case N: (Inr fl)
        then have up: "updater cur = Inr fl" "plain_names (map fst fl)"
          using assms(6) normalized_plain [of "pe_memory P" _ fl] by (auto simp: bindR_Inr_iff)
        show ?thesis
        proof (cases "mn_revision cur = expected")
          case False
          with run en Inr N old2 have "res = Inl memory_conflict" "w' = w2" by (auto simp: body_def bindI_apply)
          with old2 False rev' show ?thesis by (auto simp: memory_conflict_def)
        next
          case True
          with run en Inr N have sv: "save_direct_locked P r cur fl lease w2 = (res, w')" by (auto simp: body_def bindI_apply)
          from save_direct_outcome [OF settled_transfer [OF s2 d(1)] assms(4,5) d(2) up(2) sv refl]
          have A: "\<And>s. res = Inr s \<Longrightarrow> settled rt h fl w' \<and> s = make_snapshot (pe_memory P) r fl"
            and B: "\<And>e. res = Inl e \<Longrightarrow> exn_class e = Some CMemoryPublicationError \<Longrightarrow> dir_holds (node_at (files w')) (rt @ [h]) (mn_files cur)"
            by auto
          have "dir_holds (node_at (files w')) (rt @ [h]) old" if "res = Inl e" "exn_class e = Some CMemoryPublicationError" for e
            by (rule dir_holds_transfer [OF d(1) old2 B [OF that]])
          moreover have "dir_holds (node_at (files w')) (rt @ [h]) (mn_files s) \<and> mn_files s = fl" if "res = Inr s" for s
            using A [OF that] settledD(4) by (auto simp: make_snapshot_def)
          ultimately show ?thesis using True rev' seen up(1) by auto
        qed
      qed
    qed
  qed
qed

text \<open>The demonstration store with a memory of a valid name, and a save of one file over its two.\<close>

definition demo_hash :: string where
  "demo_hash = replicate 64 (CHR ''a'')"

definition demo_save :: "string \<Rightarrow> memory_snapshot res \<times> world" where
  "demo_save expected =
     try_update_memory demo_publication (demo_resolved demo_hash) expected (\<lambda>s. Inr [(''c.md'', ''C'')]) (demo_layout demo_hash [])"

lemma demo_hash_place: "memory_place [''m''] demo_hash" "demo_hash \<notin> {''.journals'', ''.publication-backups'', ''.staging'', ''.locks''}"
  by (simp_all add: memory_place_def demo_hash_def numeral_eq_Suc)

lemma memory_save_atomic_witness:
  "(\<exists>e. fst (demo_save ''stale'') = Inl e) \<and>
   dir_holds (node_at (files (snd (demo_save ''stale'')))) [''m'', demo_hash] [(''a.md'', ''A''), (''b.md'', ''B'')]"
proof -
  have stale: "''stale'' \<noteq> memory_content_revision (pe_memory demo_publication) [(''a.md'', ''A''), (''b.md'', ''B'')]" by code_simp
  have "settled [''m''] demo_hash [(''a.md'', ''A''), (''b.md'', ''B'')] (demo_layout demo_hash [])"
    using demo_layout_settled [of demo_hash "[]"] demo_hash_place by (simp add: settled_def)
  moreover have "rm_directory (demo_resolved demo_hash) = [''m''] @ [demo_hash]" "rm_hash (demo_resolved demo_hash) = demo_hash"
    by (simp_all add: demo_resolved_def)
  moreover have "try_update_memory demo_publication (demo_resolved demo_hash) ''stale'' (\<lambda>s. Inr [(''c.md'', ''C'')])
      (demo_layout demo_hash []) = (fst (demo_save ''stale''), snd (demo_save ''stale''))" by (simp add: demo_save_def)
  ultimately show ?thesis
    using memory_save_atomic [of "[''m'']" demo_hash "[(''a.md'', ''A''), (''b.md'', ''B'')]" "demo_layout demo_hash []"
        "demo_resolved demo_hash" "\<lambda>s. Inr [(''c.md'', ''C'')]" demo_publication "''stale''" "fst (demo_save ''stale'')" "snd (demo_save ''stale'')"] stale
    by (simp add: plain_names_def)
qed

end
