(* ===== verification/RecoverySafety.thy ===== *)
theory RecoverySafety
  imports Recovery MemorySave
begin

text \<open>
  Recovering the journals of interrupted publications never writes a file of a memory, whatever the
  journals say; and it discards the journal, the backup and the stage of an operation only when the
  memory holds the old or the new files.
\<close>

lemma keeps_ite: "(b \<Longrightarrow> keeps K m) \<Longrightarrow> (\<not> b \<Longrightarrow> keeps K n) \<Longrightarrow> keeps K (if b then m else n)"
  by simp

section \<open>What recovery may touch\<close>

text \<open>The directory of a memory that does not exist yet may be created.\<close>

definition recovery_region :: "path \<Rightarrow> (path \<Rightarrow> node option) \<Rightarrow> path set" where
  "recovery_region rt g = outer_region rt \<union> area rt ''.jobs'' \<union> {rt @ [h] | h. is_hex64 h \<and> g (rt @ [h]) = None}"

abbreviation recovering :: "path \<Rightarrow> (path \<Rightarrow> node option) \<Rightarrow> world \<Rightarrow> bool" where
  "recovering rt g \<equiv> confined rt (recovery_region rt g) g"

definition store_directory :: "string \<Rightarrow> bool" where
  "store_directory x \<longleftrightarrow> x \<in> {''.staging'', ''.journals'', ''.publication-backups'', ''.locks'', ''.jobs''}"

lemma store_directory_region:
  "store_directory x \<Longrightarrow> prefix (rt @ [x]) q \<Longrightarrow> q \<in> recovery_region rt g"
  by (auto simp: store_directory_def recovery_region_def outer_region_def area_def)

lemma store_directory_plain: "store_directory x \<Longrightarrow> x \<noteq> ''..''"
  by (auto simp: store_directory_def)

lemma root_not_recovered [simp]: "rt \<notin> recovery_region rt g"
  by (auto simp: recovery_region_def outer_region_def)

text \<open>A path inside one of the directories: the way to it is in the region or exists.\<close>

lemma way_there:
  assumes "store_directory x" "root_there rt g" "prefix q (rt @ x # cs)" "q \<noteq> []"
  shows "q \<in> recovery_region rt g \<or> g q = Some Dir"
proof -
  from prefix_below_cases [OF assms(3)] show ?thesis
  proof
    assume "prefix q rt"
    with assms(2,4) show ?thesis by (simp add: root_there_def)
  next
    assume "\<exists>ds. ds \<noteq> [] \<and> q = rt @ ds \<and> prefix ds (x # cs)"
    then have "prefix (rt @ [x]) q" by (auto simp: prefix_Cons)
    with assms(1) show ?thesis by (auto intro: store_directory_region)
  qed
qed

lemma keeps_store_infrastructure:
  assumes "root_there rt g" "''..'' \<notin> set rt" "store_directory x" "''..'' \<notin> set cs"
  shows "keeps (recovering rt g) (ensure_infrastructure_directory rt (x # cs) l)"
proof (rule keeps_ensure_infrastructure)
  show "q \<in> recovery_region rt g" if "strict_prefix rt q" "prefix q (rt @ x # cs)" for q
  proof -
    from prefix_below_cases [OF that(2)] that(1) have "prefix (rt @ [x]) q"
      by (auto simp: strict_prefix_def prefix_Cons dest: prefix_order.antisym)
    with assms(3) show ?thesis by (rule store_directory_region)
  qed
qed (use assms store_directory_plain in \<open>auto simp: root_there_def\<close>)

lemma keeps_store_lock:
  assumes "root_there rt g" "''..'' \<notin> set rt" "store_directory x" "''..'' \<notin> set (cs @ [n])"
    and "keeps (recovering rt g) m"
  shows "keeps (recovering rt g) (exclusive_lock (rt @ x # cs @ [n]) wait c m)"
proof -
  let ?p = "rt @ x # cs @ [n]"
  have b: "below rt ?p" using assms(2,4) store_directory_plain [OF assms(3)] by (auto simp: below_def)
  have e: "butlast ?p = rt @ x # cs" by (simp add: butlast_append)
  have mk: "keeps (recovering rt g) (mkdir_p (butlast ?p))"
  proof (rule keeps_mkdir_path [OF below_butlast [OF b]])
    fix q assume "prefix q (butlast ?p)" "q \<noteq> []"
    with way_there [OF assms(3,1), of q cs] show "q \<in> recovery_region rt g \<or> g q = Some Dir" by (simp add: e)
  qed
  have "?p \<in> recovery_region rt g" by (rule store_directory_region [OF assms(3)]) simp
  then show ?thesis
    unfolding exclusive_lock_def
    by (intro keeps_thenI keeps_bindI mk keeps_open_append b keeps_pure keeps_ite assms(5))
qed

lemma keeps_store_write:
  assumes "root_there rt g" "''..'' \<notin> set rt" "store_directory x" "''..'' \<notin> set (cs @ [n])" "n \<noteq> []"
  shows "keeps (recovering rt g) (atomic_write_bytes (rt @ x # cs @ [n]) b)"
proof (rule keeps_atomic_write)
  let ?p = "rt @ x # cs @ [n]"
  show "below rt ?p" using assms(2,4) store_directory_plain [OF assms(3)] by (auto simp: below_def)
  show "strict_prefix rt ?p" by (auto simp: strict_prefix_def)
  show "last ?p \<noteq> []" using assms(5) by simp
  show "?p \<in> recovery_region rt g" by (rule store_directory_region [OF assms(3)]) simp
  show "temp_paths ?p \<subseteq> recovery_region rt g"
    by (auto simp: temp_paths_def butlast_append intro!: store_directory_region [OF assms(3)])
  fix q assume "prefix q (butlast ?p)" "q \<noteq> []"
  with way_there [OF assms(3,1), of q cs] show "q \<in> recovery_region rt g \<or> g q = Some Dir" by (simp add: butlast_append)
qed

lemma keeps_store_unlink:
  "''..'' \<notin> set rt \<Longrightarrow> store_directory x \<Longrightarrow> ''..'' \<notin> set cs \<Longrightarrow> keeps (recovering rt g) (unlink (rt @ x # cs))"
  by (rule keeps_unlink) (auto simp: below_def dest: store_directory_plain intro: store_directory_region)

lemma keeps_store_rmtree:
  assumes "''..'' \<notin> set rt" "store_directory x" "''..'' \<notin> set cs"
  shows "keeps (recovering rt g) (rmtree (rt @ x # cs) l im)"
proof (rule keeps_rmtree)
  show "q \<in> recovery_region rt g" if "prefix (rt @ x # cs) q" for q
    by (rule store_directory_region [OF assms(2)]) (use that in \<open>auto simp: prefix_def\<close>)
qed (use assms store_directory_plain in \<open>auto simp: below_def\<close>)

section \<open>Names\<close>

lemma validated_job_id:
  assumes "validate_job_id E s = Inr x"
  shows "x = s" "s \<notin> {[], ''.'', ''..''}"
  using assms by (auto simp: validate_job_id_def bindR_Inr_iff Let_def)

lemma validated_plain: "validate_job_id E s = Inr x \<Longrightarrow> x \<notin> {[], ''.'', ''..''}"
  using validated_job_id [of E s x] by simp

lemma safe_job_id_Some: "safe_job_id E v = Some s \<Longrightarrow> v = PStr s \<and> s \<notin> {[], ''.'', ''..''}"
  by (cases v) (auto simp: safe_job_id_def split: sum.splits if_splits dest: validated_job_id)

lemma yaml_name: "oid @ ''.yaml'' \<noteq> ''..''" "oid @ ''.yaml'' \<noteq> []"
  by (cases oid; simp)+

text \<open>Job stores as the program keeps them: directories of \<open>.jobs\<close> in the memory store.\<close>

definition owner_ok :: "path \<Rightarrow> job_store_owner \<Rightarrow> bool" where
  "owner_ok rt ow \<longleftrightarrow> (\<exists>n. jo_path ow = rt @ [''.jobs'', n] \<and> n \<noteq> ''..'')"

definition stores_ok :: "path \<Rightarrow> (string \<times> path \<times> path option) list \<Rightarrow> bool" where
  "stores_ok rt js \<longleftrightarrow> (\<forall>(gid, p, gr) \<in> set js. \<exists>n. p = rt @ [''.jobs'', n] \<and> n \<noteq> ''..'')"

lemma matching_job_paths_result:
  "matching_job_paths owners oid w = (Inr ms, w') \<Longrightarrow>
     w' = w \<and> (\<forall>(ow, p) \<in> set ms. ow \<in> set owners \<and> p = job_path (jo_path ow) oid)"
  by (induction owners arbitrary: ms)
     (auto simp: Let_def bindI_Inr_iff thenI_Inr_iff split: if_splits)

lemma keeps_matching [keeps_intros]: "keeps K (matching_job_paths owners oid)"
proof (induction owners)
  case (Cons a owners)
  then show ?case unfolding matching_job_paths.simps Let_def
    by (intro keeps_bindI keeps_see) (auto intro!: keeps_intros simp del: io_apply)
qed (simp only: matching_job_paths.simps keeps_pure)

lemma keeps_read_job [keeps_intros]: "keeps K (read_job Y H p x)"
  by (auto simp: read_job_def read_text_def intro!: keeps_intros simp del: io_apply split: option.splits)

lemma keeps_read_payload [keeps_intros]: "keeps K (read_payload E j)"
  by (auto simp: read_payload_def read_text_def intro!: keeps_intros simp del: io_apply split: option.splits)

lemma keeps_barrier [keeps_intros]: "keeps K (barrier_job_ids E j owners)"
  unfolding barrier_job_ids_def is_blocked_def
  by (intro keeps_intros)

section \<open>One operation\<close>

text \<open>An operation whose journal, backup, stage and job are where the store keeps them.\<close>

definition placed :: "path \<Rightarrow> string \<Rightarrow> recovery_operation \<Rightarrow> bool" where
  "placed rt h op \<longleftrightarrow> is_hex64 h \<and> ro_phase op \<in> {''prepared'', ''backed_up'', ''published''} \<and> rm_directory (ro_resolved op) = rt @ [h] \<and> rm_hash (ro_resolved op) = h \<and>
     (\<exists>cs. ro_journal_path op = rt @ ''.journals'' # cs \<and> ''..'' \<notin> set cs) \<and>
     (\<exists>s. ro_stage_path op = rt @ [''.staging'', h, s] \<and> s \<notin> {[], ''.'', ''..''}) \<and>
     (\<exists>b. ro_backup_path op = rt @ [''.publication-backups'', h, b] \<and> b \<notin> {[], ''.'', ''..''}) \<and>
     (\<forall>p. ro_job_path op = Some p \<longrightarrow> (\<exists>n f. p = rt @ [''.jobs'', n, f] \<and> ''..'' \<notin> {n, f} \<and> f \<noteq> []))"

lemma placed_memory:
  assumes "placed rt h op"
  shows "rm_directory (ro_resolved op) = rt @ [h]" "rm_hash (ro_resolved op) = h" "store_root (ro_resolved op) = rt"
    "is_hex64 h" "''..'' \<noteq> h"
  using assms hex64_not_dot(1) [of h "''.''"]
  by (auto simp: placed_def store_root_def)

lemma keeps_finish_job:
  assumes "root_there rt g" "''..'' \<notin> set rt" "p = rt @ [''.jobs'', n, f]" "''..'' \<notin> {n, f}" "f \<noteq> []"
  shows "keeps (recovering rt g) (finish_job P p status changes)"
proof -
  have j: "store_directory ''.jobs''" by (simp add: store_directory_def)
  have lp: "job_lock_path p = rt @ ''.jobs'' # [n] @ [f @ ''.lock'']" by (simp add: job_lock_path_def assms(3) butlast_append)
  have nd: "f @ ''.lock'' \<noteq> ''..''" by (cases f) auto
  have wr: "keeps (recovering rt g) (write_job Y H p r)" for Y H r
    using keeps_store_write [OF assms(1,2) j, of "[n]" f] assms(3-5)
    by (auto simp: write_job_def atomic_write_text_def intro!: keeps_thenI keeps_pure)
  have "keeps (recovering rt g) (transition_job Y H p a b c)" for Y H a b c
    unfolding transition_job_def lp
    by (rule keeps_store_lock [OF assms(1,2) j])
       (use assms(4) nd in \<open>auto intro!: keeps_bindI keeps_thenI keeps_pure keeps_read_job wr\<close>)
  then show ?thesis
    unfolding finish_job_def Let_def
    by (intro keeps_try_only keeps_bindI keeps_pure keeps_read_job keeps_ite)
qed

lemma keeps_cleanup_operation:
  assumes "placed rt h op" "''..'' \<notin> set rt"
  shows "keeps (recovering rt g) (cleanup_operation op)"
proof -
  from assms(1) obtain cs s b where p: "ro_journal_path op = rt @ ''.journals'' # cs" "''..'' \<notin> set cs"
      "ro_stage_path op = rt @ [''.staging'', h, s]" "s \<noteq> ''..''"
      "ro_backup_path op = rt @ [''.publication-backups'', h, b]" "b \<noteq> ''..''"
    by (auto simp: placed_def)
  have d: "store_directory ''.journals''" "store_directory ''.staging''" "store_directory ''.publication-backups''"
    by (simp_all add: store_directory_def)
  show ?thesis
    unfolding cleanup_operation_def cleanup_paths_def p
    by (intro keeps_bindI keeps_see keeps_thenI keeps_whenI keeps_store_unlink keeps_store_rmtree assms(2) d)
       (use p placed_memory(5) [OF assms(1)] in auto)
qed

lemma keeps_mark:
  assumes "placed rt h op" "''..'' \<notin> set rt" "root_there rt g" "ro_job_path op = Some p"
  shows "keeps (recovering rt g) (mark_complete P p x)" "keeps (recovering rt g) (mark_failed P p y)"
proof -
  from assms(1,4) obtain n f where "p = rt @ [''.jobs'', n, f]" "''..'' \<notin> {n, f}" "f \<noteq> []" by (auto simp: placed_def)
  note k = keeps_finish_job [OF assms(3,2) this]
  show "keeps (recovering rt g) (mark_complete P p x)" "keeps (recovering rt g) (mark_failed P p y)"
    unfolding mark_complete_def mark_failed_def by (rule k)+
qed

lemma keeps_finalize_recovered:
  assumes "placed rt h op" "''..'' \<notin> set rt" "root_there rt g"
  shows "keeps (recovering rt g) (finalize_recovered_success P op)"
  unfolding finalize_recovered_success_def recovered_published_at_def
  using keeps_mark [OF assms] keeps_cleanup_operation [OF assms(1,2)]
  by (cases "ro_job_path op") (auto intro!: keeps_intros simp del: io_apply)

lemma keeps_canonical_directory:
  assumes "placed rt h op" "''..'' \<notin> set rt" "root_there rt g"
  shows "keeps (recovering rt g) (canonical_directory (ro_resolved op))"
proof -
  note M = placed_memory [OF assms(1)]
  have b: "below rt rt" "below rt (rt @ [h])" using assms(2) M(5) by (auto simp: below_def)
  have root: "keeps (recovering rt g) (ensure_actual_directory rt ''memory'' True)"
    by (rule keeps_ensure_root [OF b(1)]) (use assms(3) in \<open>auto simp: root_there_def\<close>)
  have child: "keeps (recovering rt g) (ensure_child_directory rt h ''memory'')"
  proof (cases "g (rt @ [h])")
    case None
    then show ?thesis by (intro keeps_ensure_child b) (use M(4) in \<open>auto simp: recovery_region_def\<close>)
  next
    case (Some n)
    have hex: "h \<noteq> CHR ''.'' # t" for t using hex64_not_dot(1) [OF M(4)] .
    have out: "rt @ [h] \<notin> recovery_region rt g"
      using Some hex by (auto simp: recovery_region_def outer_region_def area_def)
    have "ensure_child_directory rt h ''memory'' w = ensure_actual_directory (rt @ [h]) ''memory'' False w"
      if "recovering rt g w" for w
      using that Some confined_frame [OF that out] by (simp add: ensure_child_directory_def Let_def thenI_apply lstat_clean [OF _ b(2)] confined_def)
    then show ?thesis using keeps_ensure_actual [of "recovering rt g"] by (simp add: keeps_def)
  qed
  have tail: "keeps (recovering rt g) (ensure_components ''memory'' rt [h])"
    unfolding ensure_components.simps by (intro keeps_bindI child keeps_pure)
  show ?thesis
    unfolding canonical_directory_def M ensure_infrastructure_directory_def
    by (rule keeps_bindI_res [where R = "\<lambda>x. x = rt", OF root]) (use tail in \<open>auto dest: ensure_actual_result\<close>)
qed

lemma keeps_recover_locked:
  assumes "placed rt h op" "''..'' \<notin> set rt" "root_there rt g"
  shows "keeps (recovering rt g) (recover_locked P op)"
proof -
  note F = keeps_finalize_recovered [OF assms] and C = keeps_cleanup_operation [OF assms(1,2)]
    and M = keeps_mark [OF assms] and D = keeps_canonical_directory [OF assms]
  have "keeps (recovering rt g) (case ro_job_path op of Some p \<Rightarrow> mark_failed P p x | None \<Rightarrow> ret ())" for x
    using M(2) by (auto split: option.split simp del: io_apply intro: keeps_pure)
  then show ?thesis
    unfolding recover_locked_def Let_def
    by (intro keeps_bindI keeps_thenI keeps_ite keeps_see keeps_pure read_canonical_keeps D F C)
qed

section \<open>From a journal to its operation\<close>

lemma check_journal_names_result:
  "check_journal_names E payload j = Inr (h, oid) \<Longrightarrow> is_hex64 h \<and> oid \<notin> {[], ''.'', ''..''}"
  using validated_plain [of E _ oid]
  by (auto simp: check_journal_names_def bindR_Inr_iff Let_def validate_memory_hash_def)

lemma safe_directory_name_result: "safe_directory_name E v f oid = Inr x \<Longrightarrow> x = oid"
  by (auto simp: safe_directory_name_def bindR_Inr_iff split: sum.splits dest: validated_job_id)

lemma check_journal_values_result:
  "check_journal_values E V payload oid = Inr (sel, st, bk) \<Longrightarrow>
     st = oid \<and> bk = oid \<and> text_of (get payload ''phase'') \<in> {''prepared'', ''backed_up'', ''published''}"
  by (auto simp: check_journal_values_def bindR_Inr_iff Let_def in_str_set_def dest!: safe_directory_name_result split: if_splits)

lemma recovery_stage_result:
  "recovery_stage_path rt h n w = (Inr x, w') \<Longrightarrow> x = rt @ [''.staging'', h, n]"
  by (auto simp: recovery_stage_path_def bindI_Inr_iff dest!: ensure_infrastructure_result ensure_actual_result)

lemma recovery_backup_result:
  "recovery_backup_path rt h n b w = (Inr x, w') \<Longrightarrow> x = rt @ [''.publication-backups'', h, n]"
  by (auto simp: recovery_backup_path_def bindI_Inr_iff Let_def dest!: ensure_infrastructure_result ensure_actual_result
      split: if_splits)

lemma owning_job_result:
  assumes "owning_job b owners oid w = (Inr (job, x, y), w')" "\<forall>ow\<in>set owners. owner_ok rt ow" "oid \<notin> {[], ''.'', ''..''}"
    and "job = Some p"
  shows "\<exists>n f. p = rt @ [''.jobs'', n, f] \<and> ''..'' \<notin> {n, f} \<and> f \<noteq> []"
proof -
  from assms(1,4) obtain ms w1 where m: "matching_job_paths owners oid w = (Inr ms, w1)"
    and c: "(case ms of [(ow, q)] \<Rightarrow> ret (Some q, Some (jo_group_id ow), jo_group_root ow)
           | _ \<Rightarrow> raise (recovery_error ''job journal must resolve to exactly one allowed job record'')) w1 = (Inr (Some p, x, y), w')"
    by (auto simp: owning_job_def bindI_Inr_iff split: if_splits)
  from c obtain ow where "ms = [(ow, p)]" by (cases ms; cases "tl ms") auto
  with matching_job_paths_result [OF m] have "ow \<in> set owners" "p = job_path (jo_path ow) oid" by auto
  moreover from this assms(2) obtain n where "jo_path ow = rt @ [''.jobs'', n]" "n \<noteq> ''..''" by (auto simp: owner_ok_def)
  ultimately show ?thesis using yaml_name [of oid] by (auto simp: job_path_def)
qed

lemma keeps_recovery_paths:
  assumes "root_there rt g" "''..'' \<notin> set rt" "is_hex64 h"
  shows "keeps (recovering rt g) (recovery_stage_path rt h n)" "keeps (recovering rt g) (recovery_backup_path rt h n b)"
  unfolding recovery_stage_path_def recovery_backup_path_def Let_def
  by (intro keeps_bindI keeps_ite keeps_see keeps_ensure_actual keeps_pure keeps_store_infrastructure assms,
      use hex64_not_dot(1) [OF assms(3), of "''.''"] in \<open>auto simp: store_directory_def\<close>)+

lemma keeps_owning_job [keeps_intros]: "keeps K (owning_job b owners oid)"
  by (auto simp: owning_job_def intro!: keeps_intros simp del: io_apply split: list.split)

lemma keeps_identity [keeps_intros]: "keeps K (validate_job_ownership E V op p)" "keeps K (validate_direct_identity E op)"
  by (auto simp: validate_job_ownership_def validate_direct_identity_def Let_def intro!: keeps_bindI keeps_see keeps_read_job keeps_pure
      simp del: io_apply bindI_see)

lemma keeps_operation_from_payload:
  assumes "root_there rt g" "''..'' \<notin> set rt"
  shows "keeps (recovering rt g) (operation_from_payload E V payload j rt owners)"
proof -
  have rest: "keeps (recovering rt g) (
      bindI (liftR (check_journal_values E V payload (snd x))) (\<lambda>(selector, stage_name, backup_name).
      bindI (owning_job is_job owners (snd x)) (\<lambda>owner.
      bindI (recovery_stage_path rt (fst x) stage_name) (\<lambda>stage.
      bindI (recovery_backup_path rt (fst x) backup_name need) (\<lambda>backup.
        let op = journal_operation payload j' rt x selector owner stage backup in
        thenI (case ro_job_path op of Some p \<Rightarrow> validate_job_ownership E V op p
                | None \<Rightarrow> validate_direct_identity E op) (ret op))))))"
    if "check_journal_names E payload j'' = Inr x" for x is_job need and j' j'' :: path
  proof -
    have h: "is_hex64 (fst x)" using that check_journal_names_result [of E payload j'' "fst x" "snd x"] by simp
    note k = keeps_recovery_paths [OF assms h]
    show ?thesis unfolding Let_def
      by (intro keeps_bindI keeps_pure, clarify, intro keeps_bindI keeps_owning_job k keeps_thenI keeps_pure)
         (auto split: option.split intro: keeps_identity)
  qed
  show ?thesis
    unfolding operation_from_payload_def
    by (intro keeps_bindI [OF keeps_see] keeps_bindI_res [where R = "\<lambda>x. \<exists>j'. check_journal_names E payload j' = Inr x"] keeps_pure)
       (auto simp del: Let_def intro: rest)
qed

text \<open>In a clean store the journal is where its path says.\<close>

lemma operation_placed:
  assumes "clean rt (files w)" "below rt j" "j = rt @ ''.journals'' # cs" "\<forall>ow\<in>set owners. owner_ok rt ow"
    and "operation_from_payload E V payload j rt owners w = (Inr op, w')"
  shows "\<exists>h. placed rt h op"
proof -
  have r: "resolve (files w) j = j" by (rule resolve_clean [OF assms(1,2)])
  from assms(5) obtain h oid sel st bk job ow gr stage backup w2 w3 w4 w5 where
    n: "check_journal_names E payload j = Inr (h, oid)" and v: "check_journal_values E V payload oid = Inr (sel, st, bk)"
    and jb: "owning_job (get payload ''kind'' = PStr ''job'') owners oid w = (Inr (job, ow, gr), w2)"
    and sg: "recovery_stage_path rt h st w2 = (Inr stage, w3)"
    and bp: "recovery_backup_path rt h bk (needs_backup payload) w4 = (Inr backup, w5)"
    and op: "op = journal_operation payload j rt (h, oid) sel (job, ow, gr) stage backup"
    by (auto simp: operation_from_payload_def Let_def bindI_Inr_iff thenI_Inr_iff r)
  from check_journal_names_result [OF n] have h: "is_hex64 h" and o: "oid \<notin> {[], ''.'', ''..''}" by simp_all
  from check_journal_values_result [OF v] have sb: "st = oid" "bk = oid"
    and ph: "text_of (get payload ''phase'') \<in> {''prepared'', ''backed_up'', ''published''}" by simp_all
  have "''..'' \<notin> set cs" using assms(2,3) by (auto simp: below_def)
  with h o ph recovery_stage_result [OF sg] recovery_backup_result [OF bp] owning_job_result [OF jb assms(4) o] show ?thesis
    by (auto simp: placed_def op journal_operation_def Let_def sb assms(3))
qed

section \<open>All journals\<close>

definition journal_place :: "path \<Rightarrow> path \<Rightarrow> bool" where
  "journal_place rt j \<longleftrightarrow> (\<exists>cs. j = rt @ ''.journals'' # cs \<and> ''..'' \<notin> set cs)"

lemma journal_files_place: "j \<in> set (journal_files (rt @ [''.journals'']) fs) \<Longrightarrow> journal_place rt j"
  by (auto simp: journal_files_def journal_place_def listdir_def)

lemma read_identity_result:
  "read_identity E j rt w = (Inr i, w') \<Longrightarrow> is_hex64 (ji_memory_hash i)"
  by (auto simp: read_identity_def thenI_Inr_iff bindI_Inr_iff validate_memory_hash_def bindR_Inr_iff split: option.splits)

lemma keeps_read_identity [keeps_intros]: "keeps K (read_identity E j rt)"
  unfolding read_identity_def
  by (intro keeps_bindI keeps_see) (auto intro!: keeps_intros simp del: io_apply split: option.split)

lemma keeps_memory_lock:
  assumes "root_there rt g" "''..'' \<notin> set rt" "is_hex64 h" "\<And>l. keeps (recovering rt g) (m l)"
  shows "keeps (recovering rt g)
    (memory_lock \<lparr>rm_selector = s, rm_canonical_json = c, rm_hash = h, rm_directory = rt @ [h]\<rparr> True m)"
proof -
  have d: "store_directory ''.locks''" by (simp add: store_directory_def)
  have nd: "h @ ''.lock'' \<noteq> ''..''" by (cases h) auto
  let ?r = "\<lparr>rm_selector = s, rm_canonical_json = c, rm_hash = h, rm_directory = rt @ [h]\<rparr>"
  have lp: "keeps (recovering rt g) (memory_lock_path ?r)"
    unfolding memory_lock_path_def Let_def ensure_safe_leaf_def store_root_def
    using keeps_store_infrastructure [OF assms(1,2) d, of "[]"]
    by (auto intro!: keeps_bindI keeps_thenI keeps_ite keeps_pure keeps_see simp del: io_apply bindI_see)
  have ex: "keeps (recovering rt g) (exclusive_lock (rt @ ''.locks'' # [] @ [h @ ''.lock'']) True False (m l))" for l
    by (rule keeps_store_lock [OF assms(1,2) d _ assms(4)]) (use nd in auto)
  show ?thesis
    unfolding memory_lock_def
    by (intro keeps_thenI keeps_pure keeps_bindI_res [where R = "\<lambda>p. p = rt @ [''.locks'', h @ ''.lock'']", OF lp])
       (use ex in \<open>auto dest!: memory_lock_path_result simp: store_root_def\<close>)
qed

lemma keeps_recover_journal:
  assumes "root_there rt g" "''..'' \<notin> set rt" "journal_place rt j" "\<forall>ow\<in>set owners. owner_ok rt ow"
  shows "keeps (recovering rt g) (recover_journal P V rt owners j)"
proof -
  let ?K = "recovering rt g"
  from assms(3) obtain cs where j: "j = rt @ ''.journals'' # cs" "''..'' \<notin> set cs" by (auto simp: journal_place_def)
  with assms(2) have b: "below rt j" by (auto simp: below_def)
  have op: "keeps ?K (bindI (operation_from_payload (pe_memory P) V d j rt owners) (recover_locked P))" for d
  proof (rule keeps_bindI_res [where R = "\<lambda>op. \<exists>h. placed rt h op", OF keeps_operation_from_payload [OF assms(1,2)]])
    fix w op w' assume "recovering rt g w" "operation_from_payload (pe_memory P) V d j rt owners w = (Inr op, w')"
    then show "\<exists>h. placed rt h op" using operation_placed [OF _ b j(1) assms(4)] by (auto simp: confined_def)
  qed (use keeps_recover_locked [OF _ assms(2,1)] in blast)
  have body: "keeps ?K (bindI (try_only [CFileNotFoundError] (bindI (read_payload (pe_memory P) j) (\<lambda>d. ret (Some d))) (\<lambda>_. ret None))
      (\<lambda>payload. case payload of None \<Rightarrow> ret 0
         | Some d \<Rightarrow> bindI (operation_from_payload (pe_memory P) V d j rt owners) (recover_locked P)))"
    by (intro keeps_bindI keeps_try_only keeps_read_payload keeps_pure) (auto intro: op keeps_pure simp del: io_apply split: option.split)
  show ?thesis
    unfolding recover_journal_def Let_def
    by (rule keeps_bindI_res [where R = "\<lambda>i. is_hex64 (ji_memory_hash i)", OF keeps_read_identity])
       (auto dest: read_identity_result intro!: keeps_memory_lock [OF assms(1,2)] body)
qed

lemma keeps_recover_journals:
  assumes "root_there rt g" "''..'' \<notin> set rt" "\<forall>j\<in>set js. journal_place rt j" "\<forall>ow\<in>set owners. owner_ok rt ow"
  shows "keeps (recovering rt g) (recover_journals P V rt owners js acc)"
  using assms(3)
proof (induction js arbitrary: acc)
  case Nil
  show ?case unfolding recover_journals.simps by (rule keeps_pure)
next
  case (Cons j js)
  then show ?case unfolding recover_journals.simps
    by (intro keeps_bindI keeps_tryI keeps_recover_journal keeps_barrier keeps_pure assms(1,2,4)) auto
qed

text \<open>The stores are checked and resolved; in a clean store they are where the program keeps them.\<close>

lemma keeps_validate_owners: "keeps K (validate_owners seen js)"
proof (induction js arbitrary: seen)
  case (Cons x js)
  have "keeps K (validate_owner seen x)"
    unfolding validate_owner_def
    by (cases x) (auto intro!: keeps_intros simp del: io_apply bindI_see)
  with Cons show ?case unfolding validate_owners.simps by (intro keeps_bindI keeps_pure)
qed (simp only: validate_owners.simps keeps_pure)

lemma validate_owners_result:
  assumes "clean rt (files w)" "stores_ok rt js" "validate_owners seen js w = (Inr owners, w')"
  shows "\<forall>ow\<in>set owners. owner_ok rt ow"
  using assms
proof (induction js arbitrary: seen owners w)
  case (Cons x js)
  from Cons.prems(3) obtain ow w1 rest where o: "validate_owner seen x w = (Inr ow, w1)"
    and r: "validate_owners (jo_path ow # seen) js w1 = (Inr rest, w')" and os: "owners = ow # rest"
    by (auto simp: bindI_Inr_iff)
  have "keeps (\<lambda>v. v = w) (validate_owner seen x)"
    unfolding validate_owner_def
    by (cases x) (auto intro!: keeps_intros simp del: io_apply bindI_see)
  then have w1: "w1 = w" using o by (auto dest: keepsD)
  from Cons.prems(2) obtain gid n gr where x: "x = (gid, rt @ [''.jobs'', n], gr)" "n \<noteq> ''..''"
    by (cases x) (auto simp: stores_ok_def)
  have "below rt (rt @ [''.jobs'', n])" using x(2) Cons.prems(1) by (auto simp: below_def clean_def)
  from resolve_clean [OF Cons.prems(1) this] o x have "owner_ok rt ow"
    by (auto simp: validate_owner_def thenI_Inr_iff owner_ok_def split: if_splits)
  moreover have "\<forall>ow\<in>set rest. owner_ok rt ow"
    by (rule Cons.IH [OF Cons.prems(1) _ r [unfolded w1]]) (use Cons.prems(2) in \<open>auto simp: stores_ok_def\<close>)
  ultimately show ?case by (simp add: os)
qed simp

lemma keeps_recover_publications:
  assumes "root_there rt g" "''..'' \<notin> set rt" "stores_ok rt stores"
  shows "keeps (recovering rt g) (recover_publications P V rt stores)"
proof -
  let ?K = "recovering rt g"
  have g: "g rt = Some Dir" using assms(1) by (simp add: root_there_def)
  have root: "keeps ?K (ensure_actual_directory rt l True)" for l
    by (rule keeps_ensure_root) (use assms(2) g in \<open>auto simp: below_def\<close>)
  have stores: "keeps ?K (validate_job_stores stores)"
    unfolding validate_job_stores_def by (intro keeps_bindI keeps_validate_owners keeps_pure)
  have res: "\<forall>ow\<in>set owners. owner_ok rt ow" if "?K w" "validate_job_stores stores w = (Inr owners, w')" for w owners w'
    using that validate_owners_result [OF _ assms(3)] by (auto simp: validate_job_stores_def bindI_Inr_iff confined_def)
  have rest: "keeps ?K (bindI (see (journal_files (rt @ [''.journals'']))) (\<lambda>js. recover_journals P V rt owners js acc))"
    if "\<forall>ow\<in>set owners. owner_ok rt ow" for owners acc
    by (rule keeps_bindI_res [where R = "\<lambda>js. \<forall>j\<in>set js. journal_place rt j", OF keeps_see])
       (auto intro!: keeps_recover_journals [OF assms(1,2)] that dest: journal_files_place)
  show ?thesis
    unfolding recover_publications_def Let_def
    by (intro keeps_bindI_res [where R = "\<lambda>x. x = rt", OF root] keeps_bindI_res [where R = "\<lambda>os. \<forall>ow\<in>set os. owner_ok rt ow"])
       (auto dest: ensure_actual_result res intro: stores
         intro!: keeps_bindI [OF keeps_see] keeps_ite keeps_pure keeps_thenI keeps_ensure_actual rest simp del: io_apply bindI_see)
qed

text \<open>
  C13 - Recovery never writes a memory. Whatever the journals, the stages and the backups hold and
  wherever recovery is interrupted, no file of any memory changes and nothing outside the memory
  store does: only journals, stages, backups, locks and job records are touched, and the
  directory of a memory may be created.
\<close>

theorem recovery_keeps_memories:
  assumes "clean rt (files w)" "root_there rt (node_at (files w))" "stores_ok rt stores"
    and "recover_publications P V rt stores w = (r, w')"
  shows "(\<forall>h cs. \<not> store_directory h \<and> (cs \<noteq> [] \<or> node_at (files w) (rt @ [h]) \<noteq> None) \<longrightarrow>
      node_at (files w') (rt @ h # cs) = node_at (files w) (rt @ h # cs)) \<and>
    (\<forall>q. \<not> prefix rt q \<longrightarrow> node_at (files w') q = node_at (files w) q)"
proof -
  let ?R = "recovery_region rt (node_at (files w))"
  have "''..'' \<notin> set rt" using assms(1) by (simp add: clean_def)
  from keepsD [OF keeps_recover_publications [OF assms(2) this assms(3)] confined_self [OF assms(1)] assms(4)]
  have c: "recovering rt (node_at (files w)) w'" .
  have "rt @ h # cs \<notin> ?R" if "\<not> store_directory h" "cs \<noteq> [] \<or> node_at (files w) (rt @ [h]) \<noteq> None" for h cs
    using that by (auto simp: recovery_region_def outer_region_def area_def store_directory_def)
  moreover have "q \<notin> ?R" if "\<not> prefix rt q" for q
    using that by (auto simp: recovery_region_def outer_region_def area_def prefix_def)
  ultimately show ?thesis using confined_frame [OF c] by blast
qed

section \<open>What recovery decides\<close>

text \<open>The end of \<^const>\<open>recover_locked\<close>: the revision of the memory is known.\<close>

definition recover_known :: "publication_env \<Rightarrow> recovery_operation \<Rightarrow> string \<Rightarrow> int fio" where
  "recover_known P op current =
     (if ro_phase op \<in> {''backed_up'', ''published''} \<and> current = ro_new_revision op
          then thenI (finalize_recovered_success P op) (ret 1)
          else if ro_phase op = ''prepared'' \<and> ro_no_change op \<and> current = ro_old_revision op \<and>
                  ro_old_revision op = ro_new_revision op
          then thenI (finalize_recovered_success P op) (ret 1)
          else if current = ro_old_revision op
          then thenI (case ro_job_path op of
                        Some p \<Rightarrow> mark_failed P p ''Recovered incomplete memory publication with old canonical revision.''
                      | None \<Rightarrow> ret ())
                 (thenI (cleanup_operation op) (ret 1))
          else raise (recovery_error ''canonical revision is unknown; manual intervention required''))"

lemma recover_locked_cases:
  assumes "clean rt (files w)" "root_there rt (node_at (files w))" "node_at (files w) (rt @ [h]) = Some Dir"
    and "placed rt h op" "recover_locked P op w = (r, w')"
  shows "(w' = w \<and> (\<exists>e. r = Inl e)) \<or>
    (\<exists>fl backup. dir_holds (node_at (files w)) (rt @ [h]) fl \<and> plain_names (map fst fl) \<and>
       check_revisions op backup = Inr () \<and> recover_known P op (memory_content_revision (pe_memory P) fl) w = (r, w'))"
proof -
  note M = placed_memory [OF assms(4)]
  have mp: "memory_place rt h"
    using assms(1) M(4,5) hex64_not_dot [of h] by (auto simp: memory_place_def clean_def)
  have can: "canonical_directory (ro_resolved op) w = (Inr (rt @ [h]), w)"
    by (rule canonical_there [OF assms(1) mp assms(2,3) M(1,2)])
  obtain r1 w1 where c: "read_canonical_files (pe_memory P) (rt @ [h]) w = (r1, w1)" by fastforce
  obtain r2 w2 where s: "read_canonical_files (pe_memory P) (ro_stage_path op) w = (r2, w2)" by fastforce
  obtain r3 w3 where b: "read_canonical_files (pe_memory P) (ro_backup_path op) w = (r3, w3)" by fastforce
  note st = read_canonical_state [OF c] read_canonical_state [OF s] read_canonical_state [OF b]
  have fl: "dir_holds (node_at (files w)) (rt @ [h]) fl \<and> plain_names (map fst fl)" if "r1 = Inr fl" for fl
    using read_canonical_files_result [OF assms(1) memory_placeD(4,2) [OF mp] assms(3), of "pe_memory P" fl w] c that st by simp
  show ?thesis
  proof (cases r1)
    case (Inl e)
    with assms(5) can c st show ?thesis by (auto simp: recover_locked_def Let_def bindI_apply)
  next
    case C: (Inr fl0)
    show ?thesis
    proof (cases r2)
      case (Inl e)
      with assms(5) can c s st C show ?thesis by (auto simp: recover_locked_def Let_def bindI_apply)
    next
      case S: (Inr fl1)
      let ?rest = "\<lambda>backup. thenI (liftR (check_revisions op backup)) (recover_known P op (memory_content_revision (pe_memory P) fl0))"
      have run: "recover_locked P op w =
        thenI (assertI (memory_content_revision (pe_memory P) fl1 = ro_new_revision op)
                 (recovery_error ''stage revision does not match journal new revision''))
          (bindI (see (\<lambda>fs. path_exists fs (ro_backup_path op))) (\<lambda>there.
           bindI (if there then bindI (read_canonical_files (pe_memory P) (ro_backup_path op))
                    (\<lambda>fl. ret (Some (memory_content_revision (pe_memory P) fl))) else ret None) ?rest)) w"
        using can c s st C S by (simp add: recover_locked_def Let_def bindI_apply recover_known_def)
      have tail: "(w' = w \<and> (\<exists>e. r = Inl e)) \<or> (check_revisions op bk = Inr () \<and>
          recover_known P op (memory_content_revision (pe_memory P) fl0) w = (r, w'))"
        if "?rest bk w = (r, w')" for bk
        using that by (cases "check_revisions op bk") (auto simp: thenI_apply)
      have "(w' = w \<and> (\<exists>e. r = Inl e)) \<or> (\<exists>bk. ?rest bk w = (r, w'))"
        using assms(5) b st unfolding run
        by (cases r3; cases "path_exists (files w) (ro_backup_path op)") (auto simp: thenI_apply bindI_apply split: if_splits)
      with tail fl [OF C] show ?thesis by blast
    qed
  qed
qed

text \<open>A clean-up that returns has removed everything.\<close>

lemma succeeds_unlink_if:
  assumes "below rt p" "path_exists (files w) p \<longleftrightarrow> there" "exact rt g w" "whenI there (unlink p) w = (Inr u, w')"
  shows "exact rt (g(p := None)) w'"
proof (cases there)
  case True
  with succeedsD [OF succeeds_unlink [OF assms(1)] assms(3)] assms(4) show ?thesis by simp
next
  case False
  with assms have "w' = w" "g p = None" by (auto simp: exact_def exists_clean)
  with assms(3) show ?thesis by (metis fun_upd_triv)
qed

lemma succeeds_rmtree_if:
  assumes "prefix rt p" "below rt p" "path_exists (files w) p \<longleftrightarrow> there" "exact rt g w"
    and "whenI there (rmtree p l False) w = (Inr u, w')"
  shows "\<exists>g'. exact rt g' w' \<and> g' p = None \<and> (\<forall>q. \<not> prefix p q \<longrightarrow> g' q = g q)"
proof (cases there)
  case True
  with succeedsD [OF succeeds_rmtree [OF assms(1,2)] assms(4)] assms(5) have "exact rt (gone p g) w'" by simp
  then show ?thesis by (intro exI [of _ "gone p g"]) (simp add: gone_def)
next
  case False
  with assms have "w' = w" "g p = None" by (auto simp: exact_def exists_clean)
  with assms(4) show ?thesis by blast
qed

lemma cleanup_gone:
  assumes "clean rt (files w)" "prefix rt j" "below rt j" "prefix rt b" "below rt b" "prefix rt s" "below rt s"
    and "\<not> prefix b j" "\<not> prefix s j" "\<not> prefix s b" "cleanup_paths j b s w = (Inr (), w')"
  shows "node_at (files w') j = None \<and> node_at (files w') b = None \<and> node_at (files w') s = None \<and> clean rt (files w')"
proof -
  from assms(11) obtain w1 w2 where
    1: "whenI (path_exists (files w) j) (unlink j) w = (Inr (), w1)"
    and 2: "whenI (path_exists (files w1) b) (rmtree b ''backup'' False) w1 = (Inr (), w2)"
    and 3: "whenI (path_exists (files w2) s) (rmtree s ''staging'' False) w2 = (Inr (), w')"
    by (auto simp: cleanup_paths_def thenI_Inr_iff)
  from succeeds_unlink_if [OF assms(3) refl exact_self [OF assms(1)] 1]
  have e1: "exact rt ((node_at (files w))(j := None)) w1" .
  from succeeds_rmtree_if [OF assms(4,5) refl e1 2] obtain g2 where
    e2: "exact rt g2 w2" "g2 b = None" "g2 j = None" using assms(8) by auto
  from succeeds_rmtree_if [OF assms(6,7) refl e2(1) 3] obtain g3 where
    "exact rt g3 w'" "g3 s = None" "g3 b = None" "g3 j = None" using assms(9,10) e2 by auto
  then show ?thesis by (simp add: exact_def)
qed

lemma cleanup_operation_gone:
  assumes "clean rt (files w)" "placed rt h op" "cleanup_operation op w = (Inr (), w')"
  shows "node_at (files w') (ro_journal_path op) = None \<and> node_at (files w') (ro_backup_path op) = None \<and>
    node_at (files w') (ro_stage_path op) = None"
proof -
  from assms(2) obtain cs s b where p: "ro_journal_path op = rt @ ''.journals'' # cs" "''..'' \<notin> set cs"
      "ro_stage_path op = rt @ [''.staging'', h, s]" "s \<noteq> ''..''"
      "ro_backup_path op = rt @ [''.publication-backups'', h, b]" "b \<noteq> ''..''"
    by (auto simp: placed_def)
  show ?thesis
    using cleanup_gone [OF assms(1) _ _ _ _ _ _ _ _ _ assms(3) [unfolded cleanup_operation_def]]
      p placed_memory(5) [OF assms(2)] assms(1)
    by (auto simp: below_def clean_def)
qed

text \<open>Clean-up does not concern the jobs.\<close>

lemma cleanup_frame:
  assumes "clean rt (files w)" "placed rt h op" "cleanup_operation op w = (r, w')"
  shows "clean rt (files w') \<and> (\<forall>q. q \<notin> outer_region rt \<longrightarrow> node_at (files w') q = node_at (files w) q)"
proof -
  from assms(2) obtain cs s b where p: "ro_journal_path op = rt @ ''.journals'' # cs" "''..'' \<notin> set cs"
      "ro_stage_path op = rt @ [''.staging'', h, s]" "s \<noteq> ''..''"
      "ro_backup_path op = rt @ [''.publication-backups'', h, b]" "b \<noteq> ''..''"
    by (auto simp: placed_def)
  have u: "keeps (confined rt (outer_region rt) g) (unlink (rt @ ''.journals'' # cs))" for g
    by (rule keeps_unlink) (use p assms(1) in \<open>auto simp: below_def clean_def outer_region_def\<close>)
  have t: "keeps (confined rt (outer_region rt) g) (rmtree (rt @ x # zs) l im)"
    if "x \<in> {''.staging'', ''.publication-backups''}" "''..'' \<notin> set zs" for g x zs l im
  proof (rule keeps_rmtree)
    show "q \<in> outer_region rt" if "prefix (rt @ x # zs) q" for q
      using area_step [OF area_of(1) that] \<open>x \<in> _\<close> by (auto simp: outer_region_def)
  qed (use that assms(1) in \<open>auto simp: below_def clean_def\<close>)
  have "keeps (confined rt (outer_region rt) g) (cleanup_operation op)" for g
    unfolding cleanup_operation_def cleanup_paths_def p
    by (intro keeps_bindI keeps_see keeps_thenI keeps_whenI u t) (use p placed_memory(5) [OF assms(2)] in auto)
  from keepsD [OF this confined_self [OF assms(1)] assms(3)] show ?thesis by (simp add: confined_def)
qed

section \<open>What happens to the job\<close>

lemma finish_job_outcome:
  assumes "codec_ok (me_yaml (pe_memory P))" "job_place rt p w"
    and "holds (me_yaml (pe_memory P)) (me_hash (pe_memory P)) p rec (node_at (files w))"
    and "distinct (''completed_at'' # map fst changes)" "list_all (\<lambda>(k, v). json_ok v) changes"
    and "finish_job P p status changes w = (Inr (), w')"
  shows "\<exists>rec'. holds (me_yaml (pe_memory P)) (me_hash (pe_memory P)) p rec' (node_at (files w')) \<and>
    jr_status rec' = PStr status \<and> jr_spec rec' = jr_spec rec"
proof -
  let ?Y = "me_yaml (pe_memory P)" and ?H = "me_hash (pe_memory P)"
  let ?c = "(''completed_at'', PStr (pe_clock P w)) # changes"
  obtain r1 w1 where t: "transition_job ?Y ?H p ''running'' status ?c w = (r1, w1)" by fastforce
  have "distinct (map fst ?c)" "list_all (\<lambda>(k, v). json_ok v) ?c" using assms(4,5) by simp_all
  note o = transition_outcome [OF assms(1-3) this t]
  show ?thesis
  proof (cases r1)
    case (Inr rec')
    with assms(6) t have "w' = w1" by (simp add: finish_job_def Let_def try_only_def tryI_apply bindI_apply)
    moreover from o Inr have "jr_status rec' = PStr status \<and> jr_spec rec' = jr_spec rec \<and> holds ?Y ?H p rec' (node_at (files w1))"
      by blast
    ultimately show ?thesis by blast
  next
    case (Inl e)
    have spec: "jr_spec x = jr_spec rec" if "replace_status rec status ?c = Inr x" for x
      by (rule replace_status_spec(1) [OF that \<open>distinct (map fst ?c)\<close>])
    from o obtain rec1 where h: "holds ?Y ?H p rec1 (node_at (files w1))" and s: "jr_spec rec1 = jr_spec rec"
      and pl: "job_place rt p w1" using spec by blast
    have "clean rt (files w1)" "below rt p" using pl by (simp_all add: job_place_def)
    from read_job_holds [OF assms(1) this h] have rd: "read_job ?Y ?H p None w1 = (Inr rec1, w1)" .
    from assms(6) t Inl rd have "w' = w1 \<and> jr_status rec1 = PStr status"
      by (auto simp: finish_job_def Let_def try_only_def tryI_apply bindI_apply split: if_splits)
    with h s show ?thesis by blast
  qed
qed

lemma json_ok_receipt:
  "json_ok (PDict (ro_selector op)) \<Longrightarrow> json_ok (PDict (receipt_to_dict (recovered_receipt op t)))"
  by (simp add: receipt_to_dict_def recovered_receipt_def)

lemma finalize_recovered_outcome:
  assumes "clean rt (files w)" "root_there rt (node_at (files w))" "placed rt h op"
    and "finalize_recovered_success P op w = (Inr (), w')"
  shows "node_at (files w') (ro_journal_path op) = None \<and> node_at (files w') (ro_backup_path op) = None \<and>
    node_at (files w') (ro_stage_path op) = None"
    "ro_job_path op = Some p \<Longrightarrow> \<exists>w1 t. mark_complete P p (recovered_receipt op t) w = (Inr (), w1) \<and>
      clean rt (files w1) \<and> cleanup_operation op w1 = (Inr (), w')"
proof -
  have nd: "''..'' \<notin> set rt" using assms(1) by (simp add: clean_def)
  have "\<exists>w1. clean rt (files w1) \<and> cleanup_operation op w1 = (Inr (), w') \<and>
     (\<forall>p. ro_job_path op = Some p \<longrightarrow> (\<exists>t. mark_complete P p (recovered_receipt op t) w = (Inr (), w1)))"
  proof (cases "ro_job_path op")
    case None
    with assms(1,4) show ?thesis by (auto simp: finalize_recovered_success_def thenI_apply)
  next
    case (Some p)
    from assms(4) Some obtain t w0 w1 where
      t: "recovered_published_at P (Some p) w = (Inr t, w0)" and m: "mark_complete P p (recovered_receipt op t) w0 = (Inr (), w1)"
      and c: "cleanup_operation op w1 = (Inr (), w')"
      by (auto simp: finalize_recovered_success_def thenI_Inr_iff bindI_Inr_iff)
    have "keeps (\<lambda>v. v = w) (recovered_published_at P (Some p))"
      by (simp add: recovered_published_at_def keeps_bindI keeps_read_job keeps_pure del: io_apply)
    from keepsD [OF this refl t] have w0: "w0 = w" .
    from keepsD [OF keeps_mark(1) [OF assms(3) nd assms(2) Some] confined_self [OF assms(1)] m [unfolded w0]]
    have "clean rt (files w1)" by (simp add: confined_def)
    with c m w0 Some show ?thesis by auto
  qed
  then obtain w1 where w1: "clean rt (files w1)" "cleanup_operation op w1 = (Inr (), w')"
    "\<forall>p. ro_job_path op = Some p \<longrightarrow> (\<exists>t. mark_complete P p (recovered_receipt op t) w = (Inr (), w1))" by blast
  from cleanup_operation_gone [OF w1(1) assms(3) w1(2)]
  show "node_at (files w') (ro_journal_path op) = None \<and> node_at (files w') (ro_backup_path op) = None \<and>
    node_at (files w') (ro_stage_path op) = None" .
  show "ro_job_path op = Some p \<Longrightarrow> \<exists>w1 t. mark_complete P p (recovered_receipt op t) w = (Inr (), w1) \<and>
      clean rt (files w1) \<and> cleanup_operation op w1 = (Inr (), w')"
    using w1 by blast
qed

lemma job_not_outer: "rt @ [''.jobs'', n, f] \<notin> outer_region rt"
  by (auto simp: outer_region_def area_def)

lemma recover_known_outcome:
  assumes "clean rt (files w)" "root_there rt (node_at (files w))" "placed rt h op"
    and "check_revisions op backup = Inr ()" "recover_known P op cur w = (r, w')"
  shows "cur \<in> {ro_old_revision op, ro_new_revision op} \<or> (w' = w \<and> (\<exists>e. r = Inl e))"
    "r = Inr n \<Longrightarrow> n = 1 \<and> cur \<in> {ro_old_revision op, ro_new_revision op} \<and>
       node_at (files w') (ro_journal_path op) = None \<and> node_at (files w') (ro_backup_path op) = None \<and>
       node_at (files w') (ro_stage_path op) = None"
    "r = Inr n \<Longrightarrow> ro_job_path op = Some p \<Longrightarrow> codec_ok (me_yaml (pe_memory P)) \<Longrightarrow> job_place rt p w \<Longrightarrow>
       holds (me_yaml (pe_memory P)) (me_hash (pe_memory P)) p rec (node_at (files w)) \<Longrightarrow> json_ok (PDict (ro_selector op)) \<Longrightarrow>
       \<exists>rec'. holds (me_yaml (pe_memory P)) (me_hash (pe_memory P)) p rec' (node_at (files w')) \<and> jr_spec rec' = jr_spec rec \<and>
         jr_status rec' = PStr (if cur = ro_new_revision op then ''complete'' else ''failed'')"
proof -
  let ?Y = "me_yaml (pe_memory P)" and ?H = "me_hash (pe_memory P)"
  have nd: "''..'' \<notin> set rt" using assms(1) by (simp add: clean_def)
  have ph: "ro_phase op \<in> {''prepared'', ''backed_up'', ''published''}" using assms(3) by (simp add: placed_def)
  have ck: "ro_no_change op \<longleftrightarrow> ro_old_revision op = ro_new_revision op"
    using assms(4) by (auto simp: check_revisions_def bindR_Inr_iff)
  let ?mark = "case ro_job_path op of
      Some p \<Rightarrow> mark_failed P p ''Recovered incomplete memory publication with old canonical revision.'' | None \<Rightarrow> ret ()"
  have "(recover_known P op cur = thenI (finalize_recovered_success P op) (ret 1) \<and> cur = ro_new_revision op) \<or>
    (recover_known P op cur = thenI ?mark (thenI (cleanup_operation op) (ret 1)) \<and> cur = ro_old_revision op \<and>
       cur \<noteq> ro_new_revision op) \<or>
    recover_known P op cur = raise (recovery_error ''canonical revision is unknown; manual intervention required'')"
    unfolding recover_known_def using ph ck
    by (cases "cur = ro_new_revision op"; cases "cur = ro_old_revision op") auto
  then consider (success) "recover_known P op cur = thenI (finalize_recovered_success P op) (ret 1)" "cur = ro_new_revision op"
    | (failure) "recover_known P op cur = thenI ?mark (thenI (cleanup_operation op) (ret 1))" "cur = ro_old_revision op"
        "cur \<noteq> ro_new_revision op"
    | (unknown) "recover_known P op cur = raise (recovery_error ''canonical revision is unknown; manual intervention required'')"
    by blast
  note C = this
  show 1: "cur \<in> {ro_old_revision op, ro_new_revision op} \<or> (w' = w \<and> (\<exists>e. r = Inl e))"
    using C assms(5) by cases auto
  have *: "(r = Inr n \<longrightarrow> n = 1 \<and> cur \<in> {ro_old_revision op, ro_new_revision op} \<and>
       node_at (files w') (ro_journal_path op) = None \<and> node_at (files w') (ro_backup_path op) = None \<and>
       node_at (files w') (ro_stage_path op) = None) \<and>
    (r = Inr n \<and> ro_job_path op = Some p \<and> codec_ok ?Y \<and> job_place rt p w \<and> holds ?Y ?H p rec (node_at (files w)) \<and>
      json_ok (PDict (ro_selector op)) \<longrightarrow>
       (\<exists>rec'. holds ?Y ?H p rec' (node_at (files w')) \<and> jr_spec rec' = jr_spec rec \<and>
         jr_status rec' = PStr (if cur = ro_new_revision op then ''complete'' else ''failed'')))" (is ?goal)
  proof (cases "r = Inr n")
    case r: True
    have frame: "holds ?Y ?H p x (node_at (files w'))"
      if "cleanup_operation op w1 = (Inr (), w')" "clean rt (files w1)" "holds ?Y ?H p x (node_at (files w1))" "ro_job_path op = Some p"
      for w1 x
    proof -
      from assms(3) that(4) obtain m f where "p = rt @ [''.jobs'', m, f]" by (auto simp: placed_def)
      with cleanup_frame [OF that(2) assms(3) that(1)] job_not_outer [of rt m f] that(3) show ?thesis
        by (simp add: holds_def)
    qed
    from C show ?goal
    proof cases
      case success
      with assms(5) r have f: "finalize_recovered_success P op w = (Inr (), w')" "n = 1" by (auto simp: thenI_Inr_iff)
      note o = finalize_recovered_outcome [OF assms(1-3) f(1)]
      have "\<exists>rec'. holds ?Y ?H p rec' (node_at (files w')) \<and> jr_spec rec' = jr_spec rec \<and> jr_status rec' = PStr ''complete''"
        if H: "ro_job_path op = Some p" "codec_ok ?Y" "job_place rt p w" "holds ?Y ?H p rec (node_at (files w))"
          "json_ok (PDict (ro_selector op))"
      proof -
        from o(2) [OF H(1)] obtain w1 t where m: "mark_complete P p (recovered_receipt op t) w = (Inr (), w1)"
          "clean rt (files w1)" "cleanup_operation op w1 = (Inr (), w')" by blast
        from finish_job_outcome [OF H(2-4) _ _ m(1) [unfolded mark_complete_def]] json_ok_receipt [OF H(5), of t]
        obtain rec' where x: "holds ?Y ?H p rec' (node_at (files w1))" "jr_status rec' = PStr ''complete''" "jr_spec rec' = jr_spec rec"
          by auto
        from frame [OF m(3,2) x(1) H(1)] x show ?thesis by blast
      qed
      with o(1) success(2) f(2) show ?thesis by auto
    next
      case failure
      with assms(5) r obtain w1 where f: "?mark w = (Inr (), w1)" "cleanup_operation op w1 = (Inr (), w')" "n = 1"
        by (auto simp: thenI_Inr_iff)
      have "keeps (recovering rt (node_at (files w))) ?mark"
        using keeps_mark(2) [OF assms(3) nd assms(2)] by (auto split: option.split simp del: io_apply intro: keeps_pure)
      from keepsD [OF this confined_self [OF assms(1)] f(1)] have c1: "clean rt (files w1)" by (simp add: confined_def)
      have "\<exists>rec'. holds ?Y ?H p rec' (node_at (files w')) \<and> jr_spec rec' = jr_spec rec \<and> jr_status rec' = PStr ''failed''"
        if H: "ro_job_path op = Some p" "codec_ok ?Y" "job_place rt p w" "holds ?Y ?H p rec (node_at (files w))"
      proof -
        from f(1) H(1) have "mark_failed P p ''Recovered incomplete memory publication with old canonical revision.'' w = (Inr (), w1)"
          by simp
        from finish_job_outcome [OF H(2-4) _ _ this [unfolded mark_failed_def]]
        obtain rec' where x: "holds ?Y ?H p rec' (node_at (files w1))" "jr_status rec' = PStr ''failed''" "jr_spec rec' = jr_spec rec"
          by auto
        from frame [OF f(2) c1 x(1) H(1)] x show ?thesis by blast
      qed
      with cleanup_operation_gone [OF c1 assms(3) f(2)] failure(2,3) f(3) show ?thesis by auto
    qed (use assms(5) r in auto)
  qed simp
  then show "r = Inr n \<Longrightarrow> n = 1 \<and> cur \<in> {ro_old_revision op, ro_new_revision op} \<and>
       node_at (files w') (ro_journal_path op) = None \<and> node_at (files w') (ro_backup_path op) = None \<and>
       node_at (files w') (ro_stage_path op) = None"
    and "r = Inr n \<Longrightarrow> ro_job_path op = Some p \<Longrightarrow> codec_ok ?Y \<Longrightarrow> job_place rt p w \<Longrightarrow>
       holds ?Y ?H p rec (node_at (files w)) \<Longrightarrow> json_ok (PDict (ro_selector op)) \<Longrightarrow>
       \<exists>rec'. holds ?Y ?H p rec' (node_at (files w')) \<and> jr_spec rec' = jr_spec rec \<and>
         jr_status rec' = PStr (if cur = ro_new_revision op then ''complete'' else ''failed'')"
    by blast+
qed

lemma recover_locked_frame:
  assumes "clean rt (files w)" "root_there rt (node_at (files w))" "placed rt h op" "recover_locked P op w = (r, w')"
    and "dir_holds (node_at (files w)) (rt @ [h]) fl"
  shows "dir_holds (node_at (files w')) (rt @ [h]) fl"
proof -
  have nd: "''..'' \<notin> set rt" using assms(1) by (simp add: clean_def)
  have hex: "h \<noteq> CHR ''.'' # t" for t using hex64_not_dot(1) placed_memory(4) [OF assms(3)] by blast
  from keepsD [OF keeps_recover_locked [OF assms(3) nd assms(2)] confined_self [OF assms(1)] assms(4)]
  have c: "recovering rt (node_at (files w)) w'" .
  have "q \<notin> recovery_region rt (node_at (files w))" if "q = rt @ [h] \<or> butlast q = rt @ [h]" for q
    using that
  proof
    assume "q = rt @ [h]"
    with hex assms(5) show ?thesis by (auto simp: recovery_region_def outer_region_def area_def dir_holds_def)
  next
    assume "butlast q = rt @ [h]"
    then obtain n where "q = rt @ [h, n]" by (cases q rule: rev_cases) auto
    with hex show ?thesis by (auto simp: recovery_region_def outer_region_def area_def)
  qed
  from confined_frame [OF c this] show ?thesis by (intro dir_holds_cong [OF _ assms(5)]) auto
qed

text \<open>
  C10 - Recovery decides by what the memory holds. It returns only when the revision of the memory
  is the old or the new one of the journal; then the journal, the backup and the stage are
  gone and a job that was to publish is complete if the new files are in place and failed otherwise. With
  any other revision it raises and changes nothing. The files of the memory stay as they are.
\<close>

theorem recovery_decides:
  assumes "clean rt (files w)" "root_there rt (node_at (files w))" "placed rt h op"
    and "dir_holds (node_at (files w)) (rt @ [h]) fl" "plain_names (map fst fl)"
    and "recover_locked P op w = (r, w')"
  shows "dir_holds (node_at (files w')) (rt @ [h]) fl \<and>
    (memory_content_revision (pe_memory P) fl \<notin> {ro_old_revision op, ro_new_revision op} \<longrightarrow> (\<exists>e. r = Inl e) \<and> w' = w) \<and>
    (\<forall>n. r = Inr n \<longrightarrow> n = 1 \<and>
       node_at (files w') (ro_journal_path op) = None \<and> node_at (files w') (ro_backup_path op) = None \<and>
       node_at (files w') (ro_stage_path op) = None \<and>
       (\<forall>p rec. ro_job_path op = Some p \<and> codec_ok (me_yaml (pe_memory P)) \<and> job_place rt p w \<and>
          holds (me_yaml (pe_memory P)) (me_hash (pe_memory P)) p rec (node_at (files w)) \<and> json_ok (PDict (ro_selector op)) \<longrightarrow>
          (\<exists>rec'. holds (me_yaml (pe_memory P)) (me_hash (pe_memory P)) p rec' (node_at (files w')) \<and>
             jr_spec rec' = jr_spec rec \<and>
             jr_status rec' = PStr (if memory_content_revision (pe_memory P) fl = ro_new_revision op
                                    then ''complete'' else ''failed''))))"
proof -
  have d: "node_at (files w) (rt @ [h]) = Some Dir" using assms(4) by (simp add: dir_holds_def)
  from recover_locked_cases [OF assms(1,2) d assms(3,6)]
  have "(w' = w \<and> (\<exists>e. r = Inl e)) \<or>
    (\<exists>backup. check_revisions op backup = Inr () \<and> recover_known P op (memory_content_revision (pe_memory P) fl) w = (r, w'))"
    using dir_holds_same_revision [OF _ assms(4) _ assms(5)] by metis
  then show ?thesis
  proof
    assume "w' = w \<and> (\<exists>e. r = Inl e)"
    with assms(4) show ?thesis by auto
  next
    assume "\<exists>backup. check_revisions op backup = Inr () \<and> recover_known P op (memory_content_revision (pe_memory P) fl) w = (r, w')"
    then obtain backup where k: "check_revisions op backup = Inr ()"
      "recover_known P op (memory_content_revision (pe_memory P) fl) w = (r, w')" by blast
    note o = recover_known_outcome [OF assms(1-3) k]
    show ?thesis using o(1) o(2,3) recover_locked_frame [OF assms(1-3,6,4)] by blast
  qed
qed

text \<open>
  C6 - No crash loses a memory. Let a transaction on a settled memory stop anywhere, by an error, an
  injected crash or the death of the process, and let recovery of its journal run afterwards on what is on disk,
  and stop anywhere as well: then the memory holds files of the old or the new revision, or
  the old files are all there, in the memory or in the backup of the operation.
\<close>

theorem no_crash_loses_a_memory:
  assumes "transaction_at rt h tx" "settled rt h (tx_old_files tx) w"
    and "run_transaction_locked P tx crash_at fail_after w = (r, w1)"
    and "placed rt h op" "recover_locked P' op (w1\<lparr>sched := sc, busy := bs\<rparr>) = (r', w2)"
  shows "(\<exists>fl. dir_holds (node_at (files w2)) (rt @ [h]) fl \<and>
      memory_content_revision (pe_memory P') fl \<in> {ro_old_revision op, ro_new_revision op}) \<or>
    dir_holds (node_at (files w2)) (rt @ [h]) (tx_old_files tx) \<or>
    dir_holds (node_at (files w2)) (tx_backup_path tx) (tx_old_files tx)"
proof -
  note S = settledD [OF assms(2)]
  let ?w = "w1\<lparr>sched := sc, busy := bs\<rparr>"
  have c: "calm rt h (node_at (files w)) w" using S(2,5) by (simp add: calm_def confined_def)
  note H = run_transaction_hoare [OF assms(1) S(3,4), of P crash_at fail_after]
  have b: "busy_with rt h (node_at (files w)) w1" and old: "old_kept rt h tx w1"
    using hoareD_Inr [OF H c] hoareD_Inl [OF H c] assms(3) by (cases r; auto)+
  have cl: "clean rt (files ?w)" using b by (simp add: busy_with_def confined_def)
  have d: "node_at (files ?w) (rt @ [h]) = Some Dir" using busy_memory [OF assms(1) S(4) b] by simp
  have rt: "root_there rt (node_at (files ?w))"
  proof -
    have "q \<notin> transaction_region rt h" if "prefix q rt" for q
      using root_outside [OF that] memory_not_in_area(2) [OF assms(1) _ that] by (auto simp: transaction_region_def)
    then have "node_at (files w1) q = node_at (files w) q" if "prefix q rt" for q
      using b that by (simp add: busy_with_def confined_def)
    with S(3) show ?thesis by (simp add: root_there_def)
  qed
  from recover_locked_cases [OF cl rt d assms(4,5)] show ?thesis
  proof
    assume "w2 = ?w \<and> (\<exists>e. r' = Inl e)"
    with old show ?thesis by (auto simp: old_kept_def)
  next
    assume "\<exists>fl backup. dir_holds (node_at (files ?w)) (rt @ [h]) fl \<and> plain_names (map fst fl) \<and>
       check_revisions op backup = Inr () \<and> recover_known P' op (memory_content_revision (pe_memory P') fl) ?w = (r', w2)"
    then obtain fl backup where k: "dir_holds (node_at (files ?w)) (rt @ [h]) fl" "check_revisions op backup = Inr ()"
      "recover_known P' op (memory_content_revision (pe_memory P') fl) ?w = (r', w2)" by blast
    from recover_known_outcome(1) [OF cl rt assms(4) k(2,3)] show ?thesis
    proof
      assume "memory_content_revision (pe_memory P') fl \<in> {ro_old_revision op, ro_new_revision op}"
      with recover_locked_frame [OF cl rt assms(4,5) k(1)] show ?thesis by blast
    next
      assume "w2 = ?w \<and> (\<exists>e. r' = Inl e)"
      with old show ?thesis by (auto simp: old_kept_def)
    qed
  qed
qed

section \<open>Concrete runs\<close>

text \<open>The demonstration store with a journal that says nothing useful.\<close>

definition demo_journals :: world where
  "demo_journals = (demo_layout ''h1'' [])\<lparr>files := files (demo_layout ''h1'' []) @
     [([''m'', ''.journals'', ''h1'', ''x.yaml''], File ''?'')]\<rparr>"

definition demo_recovery :: "recovery_result res \<times> world" where
  "demo_recovery = recover_publications demo_publication (\<lambda>_. Inr run_selector) [''m''] [] demo_journals"

lemma recovery_keeps_memories_witness:
  "map_prod (map_sum id (\<lambda>r. (rr_recovered r, length (rr_errors r)))) (\<lambda>_. ()) demo_recovery = (Inr (0, 1), ()) \<and>
   node_at (files (snd demo_recovery)) [''m'', ''h1'', ''a.md''] = Some (File ''A'')"
proof -
  have run: "map_prod (map_sum id (\<lambda>r. (rr_recovered r, length (rr_errors r)))) (\<lambda>_. ()) demo_recovery = (Inr (0, 1), ())"
    by code_simp
  have c: "clean [''m''] (files demo_journals)" by (rule clean_checkI) code_simp
  have r: "root_there [''m''] (node_at (files demo_journals))"
    by (auto simp: root_there_def demo_journals_def demo_layout_def node_at_def prefix_Cons)
  have "recover_publications demo_publication (\<lambda>_. Inr run_selector) [''m''] [] demo_journals = (fst demo_recovery, snd demo_recovery)"
    by (simp add: demo_recovery_def)
  from recovery_keeps_memories [OF c r _ this]
  have "\<not> store_directory ''h1'' \<longrightarrow>
    node_at (files (snd demo_recovery)) ([''m''] @ ''h1'' # [''a.md'']) = node_at (files demo_journals) ([''m''] @ ''h1'' # [''a.md''])"
    by (simp add: stores_ok_def)
  moreover have "node_at (files demo_journals) [''m'', ''h1'', ''a.md''] = Some (File ''A'')" by code_simp
  ultimately show ?thesis using run by (simp add: store_directory_def)
qed

definition demo_operation :: "string \<Rightarrow> string \<Rightarrow> recovery_operation" where
  "demo_operation old new =
     \<lparr>ro_is_job = False, ro_operation_id = ''op1'', ro_phase = ''backed_up'', ro_no_change = False, ro_selector = [],
      ro_canonical_json = [], ro_resolved = demo_resolved demo_hash, ro_memory_hash = demo_hash,
      ro_old_revision = old, ro_new_revision = new, ro_stage_path = [''m'', ''.staging'', demo_hash, ''op1''],
      ro_backup_path = [''m'', ''.publication-backups'', demo_hash, ''op1''],
      ro_journal_path = [''m'', ''.journals'', demo_hash, ''op1.yaml''],
      ro_job_path = None, ro_owner_group_id = None, ro_owner_group_root = None\<rparr>"

lemma demo_hash_hex: "is_hex64 demo_hash"
  by (simp add: is_hex64_def demo_hash_def list_all_iff is_digit_def between_def)

lemma demo_operation_placed: "placed [''m''] demo_hash (demo_operation old new)"
  using demo_hash_hex hex64_not_dot(1) [OF demo_hash_hex, of "''.''"]
  by (simp add: placed_def demo_operation_def demo_resolved_def)

lemma recovery_decides_witness:
  "\<exists>e. recover_locked demo_publication (demo_operation ''0'' ''1'') (demo_layout demo_hash []) = (Inl e, demo_layout demo_hash [])"
proof -
  let ?w = "demo_layout demo_hash []" and ?fl = "[(''a.md'', ''A''), (''b.md'', ''B'')]"
  let ?run = "recover_locked demo_publication (demo_operation ''0'' ''1'') ?w"
  have "memory_place [''m''] demo_hash" "demo_hash \<notin> {''.journals'', ''.publication-backups''}"
    using demo_hash_place by simp_all
  note L = demo_layout_settled [OF this, of "[]"]
  have rev: "memory_content_revision (pe_memory demo_publication) ?fl \<notin> {''0'', ''1''}" by code_simp
  have "?run = (fst ?run, snd ?run)" by simp
  from recovery_decides [OF L(1,2) demo_operation_placed L(3) _ this] rev
  have "(\<exists>e. fst ?run = Inl e) \<and> snd ?run = ?w" by (simp add: plain_names_def demo_operation_def)
  then show ?thesis by (metis prod.collapse)
qed

lemma no_crash_loses_a_memory_witness:
  "let old = [(''a.md'', ''A''), (''b.md'', ''B'')]; new = [(''c.md'', ''C'')]; tx = demo_transaction demo_hash old new;
       op = demo_operation (tx_old_revision tx) (tx_new_revision tx);
       w1 = snd (run_transaction_locked demo_publication tx None False (demo_layout demo_hash [Proceed, Proceed, Die]));
       w2 = snd (recover_locked demo_publication op (w1\<lparr>sched := [], busy := []\<rparr>))
   in (\<exists>fl. dir_holds (node_at (files w2)) [''m'', demo_hash] fl \<and>
         memory_content_revision demo_env fl \<in> {memory_content_revision demo_env old, memory_content_revision demo_env new}) \<or>
      dir_holds (node_at (files w2)) [''m'', demo_hash] old \<or>
      dir_holds (node_at (files w2)) [''m'', ''.publication-backups'', demo_hash, ''op1''] old"
proof -
  let ?old = "[(''a.md'', ''A''), (''b.md'', ''B'')]" and ?new = "[(''c.md'', ''C'')]"
  let ?tx = "demo_transaction demo_hash ?old ?new" and ?w = "demo_layout demo_hash [Proceed, Proceed, Die]"
  let ?op = "demo_operation (tx_old_revision ?tx) (tx_new_revision ?tx)"
  let ?run = "run_transaction_locked demo_publication ?tx None False ?w"
  let ?rec = "recover_locked demo_publication ?op ((snd ?run)\<lparr>sched := [], busy := []\<rparr>)"
  have tx: "transaction_at [''m''] demo_hash ?tx"
    using demo_hash_place by (simp add: transaction_at_def demo_transaction_def demo_resolved_def plain_names_def)
  have st: "settled [''m''] demo_hash (tx_old_files ?tx) ?w"
    using demo_layout_settled [of demo_hash "[Proceed, Proceed, Die]"] demo_hash_place
    by (simp add: settled_def demo_transaction_def)
  have "?run = (fst ?run, snd ?run)" "?rec = (fst ?rec, snd ?rec)" by simp_all
  from no_crash_loses_a_memory [OF tx st this(1) demo_operation_placed this(2)] show ?thesis
    by (simp add: Let_def demo_transaction_def demo_operation_def demo_publication_def)
qed

text \<open>
  A process that dies while it writes the backup leaves a journal in the phase \<open>prepared\<close> and a part of the backup. The
  memory is untouched, and yet recovery refuses for ever: it reads the unfinished backup although the
  phase says that nothing depends on it.
\<close>

definition demo_staged :: "fate list \<Rightarrow> world" where
  "demo_staged sc = (demo_layout ''h1'' sc)\<lparr>files := files (demo_layout ''h1'' sc) @
     [([''m'', ''.staging''], Dir), ([''m'', ''.staging'', ''h1''], Dir), ([''m'', ''.staging'', ''h1'', ''op1''], Dir),
      ([''m'', ''.staging'', ''h1'', ''op1'', ''c.md''], File ''C'')]\<rparr>"

definition demo_small_operation :: recovery_operation where
  "demo_small_operation =
     (demo_operation (memory_content_revision demo_env [(''a.md'', ''A''), (''b.md'', ''B'')])
       (memory_content_revision demo_env [(''c.md'', ''C'')]))
     \<lparr>ro_phase := ''prepared'', ro_resolved := demo_resolved ''h1'', ro_memory_hash := ''h1'',
      ro_stage_path := [''m'', ''.staging'', ''h1'', ''op1''],
      ro_backup_path := [''m'', ''.publication-backups'', ''h1'', ''op1''],
      ro_journal_path := [''m'', ''.journals'', ''h1'', ''op1.yaml'']\<rparr>"

definition demo_interrupted :: "nat \<Rightarrow> world" where
  "demo_interrupted k =
     (snd (run_transaction_locked demo_publication (demo_transaction ''h1'' [(''a.md'', ''A''), (''b.md'', ''B'')] [(''c.md'', ''C'')])
       None False (demo_staged (replicate k Proceed @ [Die]))))\<lparr>sched := [], busy := []\<rparr>"

lemma interrupted_backup_blocks_recovery:
  "recover_locked demo_publication demo_small_operation (demo_interrupted 6) =
     (Inl (recovery_error ''backup revision does not match journal old revision''), demo_interrupted 6)"
  "node_at (files (demo_interrupted 6)) [''m'', ''h1'', ''a.md''] = Some (File ''A'')"
  "node_at (files (demo_interrupted 6)) [''m'', ''.journals'', ''h1'', ''op1.yaml''] = Some (File ''prepared'')"
  by code_simp+

lemma interrupted_journal_recovers:
  "fst (recover_locked demo_publication demo_small_operation (demo_interrupted 5)) = Inr 1"
  by code_simp

end
