(* ===== verification/Reconciliation.thy ===== *)
theory Reconciliation
  imports Decisions RecoverySafety
begin

text \<open>
  \<^verbatim>\<open>agency/jobs/reconciliation.py\<close>: what the start of the program does with the jobs that a dead
  worker left behind. The kernel's answer to the signal 0 is the parameter \<open>probe\<close>; \<open>groups\<close> are the groups
  of the configuration with the directory of each, if it has one.
\<close>

section \<open>Is the worker alive?\<close>

datatype signal_outcome = Delivered | No_such_process | Not_permitted | Other_os_error

text \<open>\<open>os.kill(pid, 0)\<close>: \<open>pid\<close> has to fit into a C integer.\<close>

definition kill_zero :: "(int \<Rightarrow> signal_outcome) \<Rightarrow> int \<Rightarrow> bool option res" where
  "kill_zero probe pid =
     (if 2 ^ 31 \<le> pid then Inl (Exn COverflowError ''signed integer is greater than maximum'')
      else Inr (case probe pid of
        Delivered \<Rightarrow> Some True
      | No_such_process \<Rightarrow> Some False
      | Not_permitted \<Rightarrow> Some True
      | Other_os_error \<Rightarrow> None))"

definition worker_alive :: "(int \<Rightarrow> signal_outcome) \<Rightarrow> py \<Rightarrow> bool option res" where
  "worker_alive probe pid =
     (if \<not> truthy pid then Inr None
      else case pid of
        PInt n \<Rightarrow> if n \<le> 0 then Inr None else kill_zero probe n
      | PBool _ \<Rightarrow> kill_zero probe 1
      | PFloat s \<Rightarrow> if startswith s ''-'' then Inr None else Inl (type_error ''integer argument expected, got float'')
      | _ \<Rightarrow> Inl (type_error ''not supported between instances''))"

section \<open>One record\<close>

record reconciliation_result =
  rc_failed :: int
  rc_left_running :: int

record reconciliation_env =
  re_publication :: publication_env
  re_cache :: cache_env
  re_probe :: "int \<Rightarrow> signal_outcome"

definition re_yaml :: "reconciliation_env \<Rightarrow> codec" where
  "re_yaml E = me_yaml (pe_memory (re_publication E))"

definition re_hash :: "reconciliation_env \<Rightarrow> string \<Rightarrow> string" where
  "re_hash E = me_hash (pe_memory (re_publication E))"

definition release_job_pin :: "cache_env \<Rightarrow> job_record \<Rightarrow> unit fio" where
  "release_job_pin C r =
     bindI (liftR (blueprint_cache_root (js_blueprint (jr_spec r)))) (\<lambda>d.
       release_pin C d (blueprint_cache_ref (js_blueprint (jr_spec r))) (js_job_id (jr_spec r)))"

text \<open>\<open>except Exception: pass\<close>, twice.\<close>

definition settle :: "codec \<Rightarrow> cache_env \<Rightarrow> job_record \<Rightarrow> unit fio" where
  "settle Y C r =
     thenI (tryI (release_job_pin C r) (\<lambda>_. ret ()))
       (tryI (project_decision Y r) (\<lambda>_. ret ()))"

definition read_job_or_skip :: "reconciliation_env \<Rightarrow> path \<Rightarrow> job_record option fio" where
  "read_job_or_skip E p =
     try_only [COSError, CKeyError, CTypeError, CValueError, CYAMLError]
       (bindI (read_job (re_yaml E) (re_hash E) p None) (\<lambda>r. ret (Some r))) (\<lambda>_. ret None)"

definition absent_summary :: "job_record \<Rightarrow> string" where
  "absent_summary r = ''Worker process (PID '' @ str_of (jr_worker_pid r) @ '') was not found.''"

definition fail_absent :: "reconciliation_env \<Rightarrow> path \<Rightarrow> job_record \<Rightarrow> job_record option fio" where
  "fail_absent E p r =
     bindI (gets_st (pe_clock (re_publication E))) (\<lambda>now.
       try_only [CInvalidJobTransition]
         (bindI (transition_job (re_yaml E) (re_hash E) p (text_of (jr_status r)) ''failed''
                   [(''completed_at'', PStr now), (''execution_summary'', PStr (absent_summary r))])
            (\<lambda>r'. ret (Some r')))
         (\<lambda>_. ret None))"

text \<open>The body of the second loop.\<close>

definition reconcile_record ::
  "reconciliation_env \<Rightarrow> bool \<Rightarrow> string list \<Rightarrow> path \<Rightarrow> reconciliation_result \<Rightarrow> reconciliation_result fio" where
  "reconcile_record E unavailable blocked p n =
     bindI (read_job_or_skip E p) (\<lambda>there. case there of
       None \<Rightarrow> ret n
     | Some r \<Rightarrow>
         if unavailable \<or> text_of (js_job_id (jr_spec r)) \<in> set blocked then ret n
         else if jr_status r \<in> {PStr ''complete'', PStr ''failed''}
         then thenI (settle (re_yaml E) (re_cache E) r) (ret n)
         else if jr_status r \<notin> {PStr ''running'', PStr ''waiting_for_memory''} then ret n
         else bindI (liftR (worker_alive (re_probe E) (jr_worker_pid r))) (\<lambda>alive.
           if alive \<noteq> Some False then ret (n\<lparr>rc_left_running := rc_left_running n + 1\<rparr>)
           else bindI (fail_absent E p r) (\<lambda>moved. case moved of
             None \<Rightarrow> ret n
           | Some r' \<Rightarrow> thenI (settle (re_yaml E) (re_cache E) r') (ret (n\<lparr>rc_failed := rc_failed n + 1\<rparr>)))))"

section \<open>All groups\<close>

fun readable_paths :: "reconciliation_env \<Rightarrow> path list \<Rightarrow> path list fio" where
  "readable_paths E [] = ret []"
| "readable_paths E (p # ps) =
     bindI (read_job_or_skip E p) (\<lambda>there.
     bindI (readable_paths E ps) (\<lambda>rest. ret (if there = None then rest else p # rest)))"

fun reconcile_records ::
  "reconciliation_env \<Rightarrow> bool \<Rightarrow> string list \<Rightarrow> path list \<Rightarrow> reconciliation_result \<Rightarrow> reconciliation_result fio" where
  "reconcile_records E unavailable blocked [] n = ret n"
| "reconcile_records E unavailable blocked (p # ps) n =
     bindI (reconcile_record E unavailable blocked p n) (reconcile_records E unavailable blocked ps)"

definition reconcile_group ::
  "reconciliation_env \<Rightarrow> path \<Rightarrow> bool \<Rightarrow> string list \<Rightarrow> string \<Rightarrow> reconciliation_result \<Rightarrow> reconciliation_result fio" where
  "reconcile_group E store unavailable blocked group_id n =
     bindI (see (\<lambda>fs. authority_paths fs store (PStr group_id))) (\<lambda>listed.
     bindI (liftR listed) (\<lambda>ps.
     bindI (readable_paths E ps) (\<lambda>readable. reconcile_records E unavailable blocked readable n)))"

fun reconcile_groups ::
  "reconciliation_env \<Rightarrow> path \<Rightarrow> bool \<Rightarrow> string list \<Rightarrow> (string \<times> path option) list \<Rightarrow> reconciliation_result \<Rightarrow>
   reconciliation_result fio" where
  "reconcile_groups E store unavailable blocked [] n = ret n"
| "reconcile_groups E store unavailable blocked ((group_id, group_root) # gs) n =
     (if group_root = None then reconcile_groups E store unavailable blocked gs n
      else bindI (reconcile_group E store unavailable blocked group_id n) (reconcile_groups E store unavailable blocked gs))"

text \<open>\<open>sorted(groups.items())\<close> with a directory, and the place of the jobs of each.\<close>

definition recovery_stores :: "path \<Rightarrow> (string \<times> path option) list \<Rightarrow> (string \<times> path \<times> path option) list" where
  "recovery_stores store groups =
     map (\<lambda>(g, d). (g, store @ [g], d)) (sort_key fst (filter (\<lambda>(g, d). d \<noteq> None) groups))"

definition reconcile_jobs ::
  "reconciliation_env \<Rightarrow> ((string \<times> py) list \<Rightarrow> memory_selector res) \<Rightarrow> (string \<times> path option) list \<Rightarrow> path \<Rightarrow>
   reconciliation_result fio" where
  "reconcile_jobs E V groups memory_store_root =
     bindI (see (\<lambda>fs. authority_store fs memory_store_root)) (\<lambda>store.
     bindI (tryI (bindI (recover_publications (re_publication E) V memory_store_root (recovery_stores store groups))
                    (\<lambda>res. ret (False, rr_blocked_job_ids res)))
              (\<lambda>_. ret (True, []))) (\<lambda>(unavailable, blocked).
       reconcile_groups E store unavailable blocked groups \<lparr>rc_failed = 0, rc_left_running = 0\<rparr>))"

section \<open>The living are spared\<close>

text \<open>The jobs that reconciliation may end: not terminal, and the worker is confirmed absent.\<close>

definition confirmed_absent :: "reconciliation_env \<Rightarrow> job_record \<Rightarrow> bool" where
  "confirmed_absent E r \<longleftrightarrow> jr_status r \<in> {PStr ''running'', PStr ''waiting_for_memory''} \<and>
     worker_alive (re_probe E) (jr_worker_pid r) = Inr (Some False)"

lemma confirmed_absent_iff:
  "confirmed_absent E r \<longleftrightarrow> jr_status r \<in> {PStr ''running'', PStr ''waiting_for_memory''} \<and>
     (\<exists>n. (jr_worker_pid r = PInt n \<or> jr_worker_pid r = PBool True \<and> n = 1) \<and> 0 < n \<and> n < 2 ^ 31 \<and> re_probe E n = No_such_process)"
  by (cases "jr_worker_pid r")
     (auto simp: confirmed_absent_def worker_alive_def kill_zero_def split: signal_outcome.splits)

text \<open>
  The cache and the decision of a job are beside the job store \<open>rt\<close>, with no symbolic links.
\<close>

definition settles_beside :: "path \<Rightarrow> job_spec \<Rightarrow> world \<Rightarrow> bool" where
  "settles_beside rt s w \<longleftrightarrow>
     (\<forall>d. blueprint_cache_root (js_blueprint s) = Inr d \<longrightarrow>
        clean d (files w) \<and> apart rt d \<and> pins_place d (blueprint_cache_ref (js_blueprint s))) \<and>
     (\<forall>p. decision_path (js_trigger_context s) = Inr p \<longrightarrow>
        (\<exists>d. clean d (files w) \<and> apart rt d \<and> below d p \<and> strict_prefix d p \<and> last p \<noteq> [] \<and>
           (\<forall>c. blueprint_cache_root (js_blueprint s) = Inr c \<longrightarrow> apart c d)))"

lemma settles_beside_same:
  assumes "settles_beside rt s w" "beside_same rt w w'"
  shows "settles_beside rt s w'"
  using assms unfolding settles_beside_def by (blast intro: beside_same_clean)

lemma project_decision_beside:
  assumes "clean d (files w)" "below d p" "strict_prefix d p" "last p \<noteq> []"
    and "decision_path (js_trigger_context (jr_spec r)) = Inr p" "project_decision Y r w = (res, w')"
  shows "beside_same d w w'"
proof -
  let ?S = "{q. prefix d q \<or> prefix q d}"
  have rd: "keeps K (read_frontmatter Y p)" for K
    unfolding read_frontmatter_def read_text_def Let_def
    by (auto intro!: keeps_intros simp del: io_apply split: option.splits)
  have pb: "prefix d (butlast p)" using strictly_below [OF assms(2,3)] by simp
  have wr: "keeps (confined d ?S (node_at (files w))) (write_frontmatter_atomic Y p m b)" for m b
    unfolding write_frontmatter_atomic_def atomic_write_text_def
  proof (rule keeps_atomic_write [OF assms(2-4)])
    show "p \<in> ?S" using assms(3) by (simp add: strict_prefix_def)
    show "temp_paths p \<subseteq> ?S" using pb by (auto simp: temp_paths_def)
    fix q assume "prefix q (butlast p)"
    then show "q \<in> ?S \<or> node_at (files w) q = Some Dir" using pb prefix_same_cases by blast
  qed
  have "keeps (confined d ?S (node_at (files w))) (project_decision Y r)"
    unfolding project_decision_def Let_def assms(5)
    by (auto intro!: keeps_intros rd wr simp del: io_apply split: py.splits)
  from keepsD [OF this confined_self [OF assms(1)] assms(6)] show ?thesis
    by (simp add: confined_def beside_same_def)
qed

text \<open>Settling touches nothing of the job store.\<close>

lemma settle_beside:
  assumes "settles_beside rt (jr_spec r) w" "clean rt (files w)" "settle Y C r w = (res, w')"
  shows "clean rt (files w') \<and> (\<forall>q. prefix rt q \<longrightarrow> node_at (files w') q = node_at (files w) q)"
proof -
  let ?s = "jr_spec r" and ?same = "\<lambda>v. clean rt (files v) \<and> (\<forall>q. prefix rt q \<longrightarrow> node_at (files v) q = node_at (files w) q)"
  have side: "?same v'" if "beside_same d v v'" "apart rt d" "?same v" for d v v'
    using beside_same_clean [OF that(1) apart_sym [OF that(2)]] apart_below [OF apart_sym [OF that(2)]] that(1,3)
    by (auto simp: beside_same_def)
  obtain r1 w1 where m: "tryI (release_job_pin C r) (\<lambda>_. ret ()) w = (r1, w1)" by fastforce
  have one: "?same w1 \<and> (w1 = w \<or> (\<exists>c. blueprint_cache_root (js_blueprint ?s) = Inr c \<and> beside_same c w w1))"
  proof (cases "blueprint_cache_root (js_blueprint ?s)")
    case (Inl e)
    with m assms(2) show ?thesis by (auto simp: release_job_pin_def tryI_apply split: if_splits)
  next
    case (Inr c)
    obtain r2 w2 where rel: "release_pin C c (blueprint_cache_ref (js_blueprint ?s)) (js_job_id ?s) w = (r2, w2)" by fastforce
    with m Inr have "w1 = w2" by (auto simp: release_job_pin_def tryI_apply split: sum.splits if_splits)
    moreover from assms(1) Inr have c: "clean c (files w)" "apart rt c" "pins_place c (blueprint_cache_ref (js_blueprint ?s))"
      by (auto simp: settles_beside_def)
    note b = release_beside [OF c(1,3) rel]
    with Inr side [OF b c(2)] assms(2) \<open>w1 = w2\<close> show ?thesis by auto
  qed
  have two: "?same w2" if "tryI (project_decision Y r) (\<lambda>_. ret ()) w1 = (r2, w2)" for r2 w2
  proof (cases "decision_path (js_trigger_context ?s)")
    case (Inl e)
    then have "project_decision Y r w1 \<in> {(Inr (), w1), (Inl e, w1)}" by (simp add: project_decision_def Let_def)
    with that one show ?thesis by (auto simp: tryI_apply split: if_splits)
  next
    case (Inr p)
    with assms(1) obtain d where d: "clean d (files w)" "apart rt d" "below d p" "strict_prefix d p" "last p \<noteq> []"
      "\<And>c. blueprint_cache_root (js_blueprint ?s) = Inr c \<Longrightarrow> apart c d" by (auto simp: settles_beside_def)
    have c1: "clean d (files w1)" using one d(1,6) beside_same_clean by blast
    obtain r3 w3 where pr: "project_decision Y r w1 = (r3, w3)" by fastforce
    from side [OF project_decision_beside [OF c1 d(3-5) Inr pr] d(2)] one have "?same w3" by blast
    with pr that show ?thesis by (auto simp: tryI_apply split: sum.splits if_splits)
  qed
  from assms(3) m one two show ?thesis by (auto simp: settle_def thenI_apply split: sum.splits)
qed

lemma transition_beside:
  assumes "job_place rt p w" "transition_job Y H p a b c w = (res, w')"
  shows "beside_same rt w w'"
proof -
  let ?S = "{q. prefix rt q \<or> prefix q rt}"
  note pl = assms(1) [unfolded job_place_def]
  note lk = job_lock_path_safe [of rt p]
  have pb: "prefix rt (butlast p)" using strictly_below [of rt p] pl by simp
  have S: "q \<in> ?S" if "prefix q (butlast p)" for q using that pb prefix_same_cases by blast
  have "prefix rt (job_lock_path p)" using pb by (simp add: job_lock_path_def)
  moreover have "temp_paths p \<subseteq> ?S" using pb by (auto simp: temp_paths_def)
  ultimately have "keeps (confined rt ?S (node_at (files w))) (transition_job Y H p a b c)"
    unfolding transition_job_def write_job_def atomic_write_text_def
    using pl lk by (auto intro!: keeps_intros simp: strict_prefix_def simp del: io_apply dest: S)
  from keepsD [OF this confined_self assms(2)] pl show ?thesis
    by (auto simp: confined_def beside_same_def)
qed

lemma holds_cong: "g p = h p \<Longrightarrow> holds Y H p r g = holds Y H p r h"
  by (simp add: holds_def)

lemma read_job_or_skip_holds:
  assumes "codec_ok (re_yaml E)" "job_place rt p w" "holds (re_yaml E) (re_hash E) p r (node_at (files w))"
  shows "read_job_or_skip E p w = (Inr (Some r), w)"
  using read_job_holds [OF assms(1) _ _ assms(3), of rt] assms(2)
  by (simp add: read_job_or_skip_def job_place_def try_only_def tryI_apply bindI_apply)

lemma fail_absent_outcome:
  assumes "codec_ok (re_yaml E)" "job_place rt p w" "holds (re_yaml E) (re_hash E) p r (node_at (files w))"
    and "jr_status r = PStr s" "fail_absent E p r w = (res, w')"
  shows "beside_same rt w w'"
    and "holds (re_yaml E) (re_hash E) p r (node_at (files w')) \<or>
      (\<exists>x. jr_status x = PStr ''failed'' \<and> jr_spec x = jr_spec r \<and> holds (re_yaml E) (re_hash E) p x (node_at (files w')))"
    and "res = Inr (Some x) \<Longrightarrow> jr_status x = PStr ''failed'' \<and> jr_spec x = jr_spec r \<and>
      holds (re_yaml E) (re_hash E) p x (node_at (files w'))"
proof -
  let ?c = "[(''completed_at'', PStr (pe_clock (re_publication E) w)), (''execution_summary'', PStr (absent_summary r))]"
  obtain r1 w1 where t: "transition_job (re_yaml E) (re_hash E) p s ''failed'' ?c w = (r1, w1)" by fastforce
  have run: "w' = w1 \<and> (res = Inr (Some x) \<longrightarrow> r1 = Inr x)" for x
    using assms(4,5) t by (auto simp: fail_absent_def bindI_apply try_only_def tryI_apply split: sum.splits if_splits)
  have d: "distinct (map fst ?c)" "list_all (\<lambda>(k, v). json_ok v) ?c" by simp_all
  note o = transition_outcome [OF assms(1-3) d t]
  from transition_beside [OF assms(2) t] run show "beside_same rt w w'" by simp
  from o run show "holds (re_yaml E) (re_hash E) p r (node_at (files w')) \<or>
      (\<exists>x. jr_status x = PStr ''failed'' \<and> jr_spec x = jr_spec r \<and> holds (re_yaml E) (re_hash E) p x (node_at (files w')))"
    using replace_status_spec(1,2) [OF _ d(1)] by metis
  from o run show "res = Inr (Some x) \<Longrightarrow> jr_status x = PStr ''failed'' \<and> jr_spec x = jr_spec r \<and>
      holds (re_yaml E) (re_hash E) p x (node_at (files w'))" by blast
qed

text \<open>The three courses a record can take.\<close>

abbreviation skipped :: "bool \<Rightarrow> string list \<Rightarrow> job_record \<Rightarrow> bool" where
  "skipped unavailable blocked r \<equiv> unavailable \<or> text_of (js_job_id (jr_spec r)) \<in> set blocked"

lemma reconcile_quiet:
  assumes "read_job_or_skip E p w = (Inr (Some r), w)" "reconcile_record E unavailable blocked p n w = (res, w')"
    and "skipped unavailable blocked r \<or> \<not> confirmed_absent E r \<and> jr_status r \<notin> {PStr ''complete'', PStr ''failed''}"
  shows "w' = w" "res = Inr n' \<Longrightarrow> rc_failed n' = rc_failed n"
proof -
  note run = assms(2) [unfolded reconcile_record_def bindI_Inr [where m = "read_job_or_skip E p", OF assms(1)] option.case]
  have "w' = w \<and> (res = Inr n' \<longrightarrow> rc_failed n' = rc_failed n)"
  proof (cases "skipped unavailable blocked r")
    case True
    note run [unfolded if_P [OF True]]
    then show ?thesis by auto
  next
    case False
    with assms(3) have st: "jr_status r \<notin> {PStr ''complete'', PStr ''failed''}" "\<not> confirmed_absent E r" by blast+
    note run1 = run [unfolded if_not_P [OF False] if_not_P [OF st(1)]]
    show ?thesis
    proof (cases "jr_status r \<notin> {PStr ''running'', PStr ''waiting_for_memory''}")
      case True
      note run1 [unfolded if_P [OF True]]
      then show ?thesis by auto
    next
      case False
      note run2 = run1 [unfolded if_not_P [OF False]]
      from st(2) False have a: "worker_alive (re_probe E) (jr_worker_pid r) \<noteq> Inr (Some False)"
        by (auto simp: confirmed_absent_def)
      show ?thesis
      proof (cases "worker_alive (re_probe E) (jr_worker_pid r)")
        case (Inl e)
        note run2 [unfolded Inl bindI_liftR]
        then show ?thesis by auto
      next
        case (Inr alive)
        with a have "alive \<noteq> Some False" by simp
        note run2 [unfolded Inr bindI_liftR if_P [OF this]]
        then show ?thesis by auto
      qed
    qed
  qed
  then show "w' = w" "res = Inr n' \<Longrightarrow> rc_failed n' = rc_failed n" by blast+
qed

lemma settled_record:
  assumes "settle Y C y v = (q, v')" "settles_beside rt (jr_spec y) v" "clean rt (files v)" "prefix rt p"
  shows "holds Z H p x (node_at (files v')) = holds Z H p x (node_at (files v))"
  using settle_beside [OF assms(2,3,1)] assms(4) by (intro holds_cong) simp

lemma reconcile_terminal:
  assumes "read_job_or_skip E p w = (Inr (Some r), w)" "reconcile_record E unavailable blocked p n w = (res, w')"
    and "\<not> skipped unavailable blocked r" "jr_status r \<in> {PStr ''complete'', PStr ''failed''}"
    and "settles_beside rt (jr_spec r) w" "clean rt (files w)" "prefix rt p"
  shows "holds Z H p x (node_at (files w')) = holds Z H p x (node_at (files w))" "res = Inr n' \<Longrightarrow> n' = n"
proof -
  obtain q v where st: "settle (re_yaml E) (re_cache E) r w = (q, v)" by fastforce
  from assms(2) st have "w' = v" "res = Inr n' \<Longrightarrow> n' = n" for n'
    unfolding reconcile_record_def bindI_Inr [where m = "read_job_or_skip E p", OF assms(1)] option.case
      if_not_P [OF assms(3)] if_P [OF assms(4)]
    by (auto simp: thenI_apply split: sum.splits)
  with settled_record [OF st assms(5-7)]
  show "holds Z H p x (node_at (files w')) = holds Z H p x (node_at (files w))" "res = Inr n' \<Longrightarrow> n' = n" by simp_all
qed

text \<open>A failed record of the same job.\<close>

definition failed_copy :: "reconciliation_env \<Rightarrow> path \<Rightarrow> job_record \<Rightarrow> world \<Rightarrow> bool" where
  "failed_copy E p r v \<longleftrightarrow>
     (\<exists>x. jr_status x = PStr ''failed'' \<and> jr_spec x = jr_spec r \<and> holds (re_yaml E) (re_hash E) p x (node_at (files v)))"

lemma reconcile_absent:
  assumes "codec_ok (re_yaml E)" "job_place rt p w" "holds (re_yaml E) (re_hash E) p r (node_at (files w))"
    and "settles_beside rt (jr_spec r) w" "reconcile_record E unavailable blocked p n w = (res, w')"
    and "\<not> skipped unavailable blocked r" "confirmed_absent E r"
  shows "holds (re_yaml E) (re_hash E) p r (node_at (files w')) \<or> failed_copy E p r w'"
    and "res = Inr n' \<Longrightarrow> n' \<noteq> n \<Longrightarrow> n' = n\<lparr>rc_failed := rc_failed n + 1\<rparr> \<and> failed_copy E p r w'"
proof -
  note rd = read_job_or_skip_holds [OF assms(1-3)]
  from assms(7) obtain s where s: "jr_status r = PStr s" "jr_status r \<notin> {PStr ''complete'', PStr ''failed''}"
    "\<not> jr_status r \<notin> {PStr ''running'', PStr ''waiting_for_memory''}"
    "worker_alive (re_probe E) (jr_worker_pid r) = Inr (Some False)" by (auto simp: confirmed_absent_def)
  obtain q v where f: "fail_absent E p r w = (q, v)" by fastforce
  note o = fail_absent_outcome [OF assms(1-3) s(1) f]
  have run: "bindI (fail_absent E p r) (\<lambda>moved. case moved of None \<Rightarrow> ret n
      | Some r' \<Rightarrow> thenI (settle (re_yaml E) (re_cache E) r') (ret (n\<lparr>rc_failed := rc_failed n + 1\<rparr>))) w = (res, w')"
    using assms(5)
    unfolding reconcile_record_def bindI_Inr [where m = "read_job_or_skip E p", OF rd] option.case
      if_not_P [OF assms(6)] if_not_P [OF s(2)] if_not_P [OF s(3)] s(4) bindI_liftR by simp
  have "(holds (re_yaml E) (re_hash E) p r (node_at (files w')) \<or> failed_copy E p r w') \<and>
     (\<forall>n'. res = Inr n' \<and> n' \<noteq> n \<longrightarrow> n' = n\<lparr>rc_failed := rc_failed n + 1\<rparr> \<and> failed_copy E p r w')"
  proof (cases "\<exists>x. q = Inr (Some x)")
    case False
    with run f have "w' = v" "\<And>n'. res = Inr n' \<Longrightarrow> n' = n" by (auto simp: bindI_apply split: sum.splits option.splits)
    with o(2) show ?thesis by (auto simp: failed_copy_def)
  next
    case True
    then obtain x where x: "q = Inr (Some x)" by blast
    obtain q2 v2 where st: "settle (re_yaml E) (re_cache E) x v = (q2, v2)" by fastforce
    from run f x st have w: "w' = v2" "\<And>n'. res = Inr n' \<Longrightarrow> n' = n\<lparr>rc_failed := rc_failed n + 1\<rparr>"
      by (auto simp: bindI_apply thenI_apply split: sum.splits)
    from o(1) have "clean rt (files v)" "settles_beside rt (jr_spec x) v"
      using settles_beside_same [OF assms(4)] o(3) [OF x] by (simp_all add: beside_same_def)
    from settled_record [OF st this(2,1), of p] assms(2) o(3) [OF x] w have "failed_copy E p r w'"
      by (auto simp: failed_copy_def job_place_def strict_prefix_def)
    with w(2) show ?thesis by blast
  qed
  then show "holds (re_yaml E) (re_hash E) p r (node_at (files w')) \<or> failed_copy E p r w'"
    and "res = Inr n' \<Longrightarrow> n' \<noteq> n \<Longrightarrow> n' = n\<lparr>rc_failed := rc_failed n + 1\<rparr> \<and> failed_copy E p r w'" by blast+
qed


text \<open>
  The process id of a record is whatever its document says. A text is neither ignored nor left running: the
  comparison raises, and reconciliation ends there for every later job and group.
\<close>

lemma malformed_pid_ends_reconciliation:
  assumes "codec_ok (re_yaml E)" "job_place rt p w" "holds (re_yaml E) (re_hash E) p r (node_at (files w))"
    and "jr_status r = PStr ''running''" "jr_worker_pid r = PStr (c # s)" "text_of (js_job_id (jr_spec r)) \<notin> set blocked"
  shows "reconcile_records E False blocked (p # ps) n w = (Inl (type_error ''not supported between instances''), w)"
  unfolding reconcile_records.simps reconcile_record_def
  using read_job_or_skip_holds [OF assms(1-3)] assms(4-6)
  by (simp add: bindI_apply worker_alive_def)

section \<open>A worker that lives\<close>

definition demo_running :: job_record where
  "demo_running = new_record demo_launch_spec
     [(''authority_digest'', PStr (immutable_digest id demo_launch_spec)), (''status'', PStr ''running''), (''worker_pid'', PInt 7)]"

definition demo_running_world :: world where
  "demo_running_world =
     \<lparr>files = [([''s''], Dir), ([''s'', ''j1.yaml''], File (job_text json_codec demo_running))], sched = [], busy = []\<rparr>"

definition demo_reconciliation :: "signal_outcome \<Rightarrow> reconciliation_env" where
  "demo_reconciliation k =
     \<lparr>re_publication = demo_publication\<lparr>pe_memory := ascii_env\<lparr>me_yaml := json_codec, me_hash := id\<rparr>\<rparr>,
      re_cache = demo_cache, re_probe = (\<lambda>_. k)\<rparr>"


end
