(* ===== verification/TreeTermination.thy ===== *)
theory TreeTermination
  imports MemoryReplace
begin

text \<open>
  Removing a tree ends: the depth that \<^const>\<open>rmtree\<close> allows is never exhausted, whatever fails on the way. The measure is the number of entries below the directory: a
  directory found in it is one of them, and nothing the removal does adds one.
\<close>

definition recursion_error :: exn where
  "recursion_error = Exn CRuntimeError ''maximum recursion depth exceeded''"

definition inside :: "path \<Rightarrow> fs \<Rightarrow> nat" where
  "inside p fs = length (filter (\<lambda>e. strict_prefix p (fst e)) fs)"

text \<open>A clean store in which no directory has more entries than \<open>c\<close> says.\<close>

definition bounded :: "path \<Rightarrow> (path \<Rightarrow> nat) \<Rightarrow> world \<Rightarrow> bool" where
  "bounded rt c w \<longleftrightarrow> clean rt (files w) \<and> (\<forall>q. inside q (files w) \<le> c q)"

lemma inside_length: "inside p fs \<le> length fs"
  by (simp add: inside_def)

lemma inside_child:
  assumes "node_at fs (p @ [n]) \<noteq> None"
  shows "inside (p @ [n]) fs < inside p fs"
proof -
  from assms obtain v where "(p @ [n], v) \<in> set fs" by (auto simp: node_at_def dest: map_of_SomeD)
  then have a: "(p @ [n], v) \<in> set (filter (\<lambda>e. strict_prefix p (fst e)) fs)" by simp
  have "filter (\<lambda>e. strict_prefix (p @ [n]) (fst e)) fs =
      filter (\<lambda>e. strict_prefix (p @ [n]) (fst e)) (filter (\<lambda>e. strict_prefix p (fst e)) fs)"
    unfolding filter_filter
    by (rule filter_cong) (auto simp: strict_prefix_def dest: append_prefixD prefix_length_le)
  also have "length \<dots> < length (filter (\<lambda>e. strict_prefix p (fst e)) fs)"
    by (rule length_filter_less [OF a]) simp
  finally show ?thesis by (simp add: inside_def)
qed

lemma inside_drop: "inside q (drop_entry p fs) \<le> inside q fs"
proof -
  have "drop_entry p fs = filter (\<lambda>e. fst e \<noteq> p) fs"
    unfolding drop_entry_def by (auto simp: AList.delete_eq case_prod_unfold intro!: filter_cong)
  then have "filter (\<lambda>e. strict_prefix q (fst e)) (drop_entry p fs) = filter (\<lambda>e. fst e \<noteq> p) (filter (\<lambda>e. strict_prefix q (fst e)) fs)"
    by (simp add: conj_commute eq_commute)
  then show ?thesis unfolding inside_def by (metis length_filter_le)
qed

lemma bounded_self: "clean rt (files w) \<Longrightarrow> bounded rt (\<lambda>q. inside q (files w)) w"
  by (simp add: bounded_def)

lemma bounded_mono: "bounded rt c w \<Longrightarrow> (\<And>q. c q \<le> d q) \<Longrightarrow> bounded rt d w"
  unfolding bounded_def using le_trans by blast

lemma keeps_bounded_syscall:
  assumes "\<And>fs fs'. clean rt fs \<Longrightarrow> f fs = Inr fs' \<Longrightarrow> clean rt fs' \<and> (\<exists>p. fs' = drop_entry p fs)"
  shows "keeps (bounded rt c) (syscall f)"
  unfolding keeps_def
proof (intro allI impI)
  fix w assume b: "bounded rt c w"
  obtain r w' where s: "syscall f w = (r, w')" by fastforce
  from syscall_result [OF s] consider "files w' = files w" | "f (files w) = Inr (files w')" by auto
  then have "bounded rt c w'"
  proof cases
    case 1
    with b show ?thesis by (simp add: bounded_def)
  next
    case 2
    with b have "clean rt (files w)" by (simp add: bounded_def)
    from assms [OF this 2] obtain p where "clean rt (files w')" "files w' = drop_entry p (files w)" by blast
    with b inside_drop [of _ p "files w"] show ?thesis by (auto simp: bounded_def intro: le_trans)
  qed
  with s show "bounded rt c (snd (syscall f w))" by simp
qed

lemma keeps_bounded:
  assumes "below rt p"
  shows "keeps (bounded rt c) (unlink p)" "keeps (bounded rt c) (rmdir p)"
  unfolding unlink_def rmdir_def using assms
  by (auto intro!: keeps_bounded_syscall dest: sys_unlink_clean sys_rmdir_clean)

text \<open>What an operation may do: stay within the bounds and not run out of depth.\<close>

definition ends :: "path \<Rightarrow> (path \<Rightarrow> nat) \<Rightarrow> 'a fio \<Rightarrow> bool" where
  "ends rt c m \<longleftrightarrow> hoare (bounded rt c) m (\<lambda>_. bounded rt c) (\<lambda>e w. bounded rt c w \<and> e \<noteq> recursion_error)"

lemma ends_thenI: "ends rt c m \<Longrightarrow> ends rt c n \<Longrightarrow> ends rt c (thenI m n)"
  unfolding ends_def by (rule hoare_thenI)

lemma ends_bindI: "ends rt c m \<Longrightarrow> (\<And>x. ends rt c (f x)) \<Longrightarrow> ends rt c (bindI m f)"
  unfolding ends_def by (rule hoare_bindI)

lemma ends_bindI_res:
  assumes "ends rt c m" "\<And>w x w'. m w = (Inr x, w') \<Longrightarrow> R x" "\<And>x. R x \<Longrightarrow> ends rt c (f x)"
  shows "ends rt c (bindI m f)"
  unfolding ends_def
proof (rule hoare_bindI [where R = "\<lambda>x w. bounded rt c w \<and> R x"])
  show "hoare (bounded rt c) m (\<lambda>x w. bounded rt c w \<and> R x) (\<lambda>e w. bounded rt c w \<and> e \<noteq> recursion_error)"
    by (rule hoareI) (use assms(1,2) in \<open>auto simp: ends_def dest: hoareD_Inr hoareD_Inl\<close>)
  fix x
  show "hoare (\<lambda>w. bounded rt c w \<and> R x) (f x) (\<lambda>_. bounded rt c) (\<lambda>e w. bounded rt c w \<and> e \<noteq> recursion_error)"
  proof (cases "R x")
    case True
    show ?thesis by (rule hoare_pre [OF assms(3) [OF True, unfolded ends_def]]) simp
  qed (simp add: hoare_def)
qed

lemma ends_forI: "(\<And>x. x \<in> set xs \<Longrightarrow> ends rt c (f x)) \<Longrightarrow> ends rt c (forI f xs)"
  unfolding ends_def by (rule hoare_forI)

lemma ends_keeps:
  "keeps (bounded rt c) m \<Longrightarrow> (\<And>w e w'. m w = (Inl e, w') \<Longrightarrow> e \<noteq> recursion_error) \<Longrightarrow> ends rt c m"
  unfolding ends_def by (rule hoareI) (auto dest: keepsD)

lemma ends_pure: "ends rt c (ret x)" "e \<noteq> recursion_error \<Longrightarrow> ends rt c (raise e)" "ends rt c (see f)"
  by (auto intro!: ends_keeps keeps_pure keeps_see simp del: io_apply simp: ret_def raise_def see_def gets_st_def)

lemma syscall_error: "syscall f w = (Inl e, w') \<Longrightarrow> e \<in> {Exn COSError ''Input/output error'', Crashed} \<or> f (files w) = Inl e"
  by (auto simp: syscall_def Let_def split: list.splits fate.splits sum.splits)

lemma ends_unlink: "below rt p \<Longrightarrow> ends rt c (unlink p)"
  by (rule ends_keeps [OF keeps_bounded(1)])
     (auto simp: unlink_def sys_unlink_def recursion_error_def missing_def Let_def dest!: syscall_error
       split: option.splits node.splits)

lemma ends_rmdir: "below rt p \<Longrightarrow> ends rt c (rmdir p)"
  by (rule ends_keeps [OF keeps_bounded(2)])
     (auto simp: rmdir_def sys_rmdir_def recursion_error_def missing_def Let_def dest!: syscall_error
       split: option.splits node.splits if_splits)

text \<open>What is decided in a state may rely on the bounds of that state.\<close>

lemma ends_see:
  assumes "\<And>w. bounded rt c w \<Longrightarrow> ends rt (\<lambda>q. inside q (files w)) (f (g (files w)))"
  shows "ends rt c (bindI (see g) f)"
  unfolding ends_def
proof (rule hoareI)
  fix w x w' assume b: "bounded rt c w" and run: "bindI (see g) f w = (Inr x, w')"
  then have "f (g (files w)) w = (Inr x, w')" by simp
  from hoareD_Inr [OF assms [OF b, unfolded ends_def] bounded_self this] b show "bounded rt c w'"
    by (auto simp: bounded_def intro: le_trans)
next
  fix w e w' assume b: "bounded rt c w" and run: "bindI (see g) f w = (Inl e, w')"
  then have "f (g (files w)) w = (Inl e, w')" by simp
  from hoareD_Inl [OF assms [OF b, unfolded ends_def] bounded_self this] b show "bounded rt c w' \<and> e \<noteq> recursion_error"
    by (auto simp: bounded_def intro: le_trans)
qed

section \<open>The memory store\<close>

lemma ends_guard:
  "ends rt c (try_only [CMemoryStoreError] (bindI (ensure_actual_directory p l False) (\<lambda>_. ret True))
              (\<lambda>e. bindI (see (\<lambda>fs. path_exists fs p)) (\<lambda>there. if im \<and> \<not> there then ret False else raise e)))"
proof (rule ends_keeps)
  show "keeps (bounded rt c) (try_only [CMemoryStoreError] (bindI (ensure_actual_directory p l False) (\<lambda>_. ret True))
              (\<lambda>e. bindI (see (\<lambda>fs. path_exists fs p)) (\<lambda>there. if im \<and> \<not> there then ret False else raise e)))"
    by (intro keeps_try_only keeps_bindI keeps_see keeps_ensure_actual) (auto intro!: keeps_pure)
  fix w e w'
  assume "try_only [CMemoryStoreError] (bindI (ensure_actual_directory p l False) (\<lambda>_. ret True))
              (\<lambda>e. bindI (see (\<lambda>fs. path_exists fs p)) (\<lambda>there. if im \<and> \<not> there then ret False else raise e)) w = (Inl e, w')"
  then show "e \<noteq> recursion_error"
    by (auto simp: try_only_def tryI_apply bindI_apply thenI_apply ensure_actual_directory_def store_error_def recursion_error_def
        split: if_splits option.splits node.splits)
qed

lemma ends_iterdir: "ends rt c (iterdir p)"
  by (rule ends_keeps [OF keeps_iterdir])
     (auto simp: iterdir_def missing_def recursion_error_def split: option.splits node.splits)

lemma safe_rmtree_ends:
  assumes "prefix rt p" "below rt p" "c p < n"
  shows "ends rt c (safe_rmtree n p l im)"
  using assms
proof (induction n arbitrary: p im c)
  case 0
  then show ?case by simp
next
  case (Suc n)
  have entry: "ends rt c (bindI (see (\<lambda>fs. lstat_node fs (p @ [name]))) (\<lambda>entry.
       if is_link entry then raise (store_error (''unsafe '' @ l @ '' entry: '' @ path_str (p @ [name])))
       else if entry = Some Dir then safe_rmtree n (p @ [name]) l False else unlink (p @ [name])))"
    if n: "name \<noteq> ''..''" for name
  proof (rule ends_see)
    fix w assume b: "bounded rt c w"
    have q: "prefix rt (p @ [name])" "below rt (p @ [name])"
      using Suc.prems(1) below_append [OF Suc.prems(2,1) n] by simp_all
    let ?e = "lstat_node (files w) (p @ [name])"
    have "ends rt (\<lambda>q. inside q (files w)) (safe_rmtree n (p @ [name]) l False)" if "?e = Some Dir"
    proof (rule Suc.IH [OF q])
      from b have "clean rt (files w)" by (simp add: bounded_def)
      from lstat_clean [OF this q(2)] that have "node_at (files w) (p @ [name]) \<noteq> None" by (metis option.distinct(1))
      from inside_child [OF this] b Suc.prems(3) show "inside (p @ [name]) (files w) < n"
        by (auto simp: bounded_def dest: spec [of _ p])
    qed
    moreover have "store_error t \<noteq> recursion_error" for t by (simp add: store_error_def recursion_error_def)
    ultimately show "ends rt (\<lambda>q. inside q (files w)) (if is_link ?e then raise (store_error (''unsafe '' @ l @ '' entry: '' @ path_str (p @ [name])))
       else if ?e = Some Dir then safe_rmtree n (p @ [name]) l False else unlink (p @ [name]))"
      using q(2) by (simp add: ends_pure ends_unlink del: io_apply)
  qed
  have names: "ends rt c (bindI (iterdir p) (\<lambda>names. thenI (forI (\<lambda>name. bindI (see (\<lambda>fs. lstat_node fs (p @ [name]))) (\<lambda>entry.
       if is_link entry then raise (store_error (''unsafe '' @ l @ '' entry: '' @ path_str (p @ [name])))
       else if entry = Some Dir then safe_rmtree n (p @ [name]) l False else unlink (p @ [name]))) names) (rmdir p)))"
    by (rule ends_bindI_res [OF ends_iterdir, where R = "\<lambda>ns. \<forall>n\<in>set ns. n \<noteq> ''..''"])
       (use entry Suc.prems(2) in \<open>auto intro!: ends_thenI ends_forI ends_rmdir dest: iterdir_names\<close>)
  show ?case
    unfolding safe_rmtree.simps
    by (intro ends_bindI ends_guard) (simp add: names ends_pure del: io_apply)
qed


text \<open>A tree of depth two, and a fault while it is removed.\<close>

definition demo_tree :: "fate list \<Rightarrow> world" where
  "demo_tree sc = \<lparr>files = [([''r''], Dir), ([''r'', ''d''], Dir), ([''r'', ''d'', ''e''], Dir), ([''r'', ''d'', ''e'', ''f''], File ''x''),
     ([''r'', ''k''], File ''y'')], sched = sc, busy = []\<rparr>"


end
