(* ===== verification/LaunchView.thy ===== *)
theory LaunchView
  imports Compilation
begin

text \<open>
  \<^verbatim>\<open>agency/jobs/launch_view.py\<close>: the copy of a compiled blueprint that a job is launched in. On POSIX there
  are no reparse points, so the two checks for them never refuse. \<open>key\<close> is \<open>str.casefold\<close>.
\<close>

definition overlaps_path :: "path \<Rightarrow> path \<Rightarrow> bool" where
  "overlaps_path p q \<longleftrightarrow> prefix q p \<or> prefix p q"

definition validate_destination :: "fs \<Rightarrow> compiled_artifact \<Rightarrow> path \<Rightarrow> path res" where
  "validate_destination fs artifact destination =
     (let d = resolve fs destination in
      bindR (assertR (\<not> overlaps_path d (resolve fs (ca_entry_path artifact)) \<and> \<not> overlaps_path d (resolve fs (ca_runtime_path artifact)))
               (Exn CValueError ''Launch view destination must not overlap the cache artifact'')) (\<lambda>_. Inr d))"

text \<open>\<open>shutil.copy2\<close> opens the target, which empties it, and writes it.\<close>

definition copy_file :: "path \<Rightarrow> path \<Rightarrow> unit fio" where
  "copy_file source target =
     bindI (read_bytes source) (\<lambda>b. thenI (write_bytes target []) (write_bytes target b))"

definition copy_entry :: "path \<Rightarrow> path \<Rightarrow> string \<Rightarrow> unit fio" where
  "copy_entry current target n =
     bindI (see (\<lambda>fs. lstat_node fs (current @ [n]))) (\<lambda>st. case st of
       None \<Rightarrow> raise missing
     | Some Dir \<Rightarrow> ret ()
     | Some (File _) \<Rightarrow> copy_file (current @ [n]) (target @ [n])
     | Some _ \<Rightarrow> raise (Exn CValueError (''Cached runtime contains a non-regular file: '' @ path_str (current @ [n]))))"

text \<open>
  \<open>os.walk\<close>, top down: a directory that cannot be listed is left out, a link to a directory is not entered. The
  first argument bounds the depth; one more than the number of entries is enough.
\<close>

primrec copy_walk :: "(string \<Rightarrow> string) \<Rightarrow> nat \<Rightarrow> path \<Rightarrow> path \<Rightarrow> unit fio" where
  "copy_walk key 0 current target = ret ()"
| "copy_walk key (Suc k) current target =
     bindI (see (\<lambda>fs. (is_dir fs current, listdir fs current, filter (\<lambda>n. is_dir fs (current @ [n])) (listdir fs current))))
       (\<lambda>(there, names, dirs).
         if \<not> there then ret ()
         else thenI (mkdir_p target)
           (thenI (forI (copy_entry current target) (sort_key key names))
             (forI (\<lambda>n. bindI (see (\<lambda>fs. is_link (lstat_node fs (current @ [n])))) (\<lambda>link.
                if link then ret () else copy_walk key k (current @ [n]) (target @ [n]))) dirs)))"

definition create_launch_view :: "(string \<Rightarrow> string) \<Rightarrow> compiled_artifact \<Rightarrow> path \<Rightarrow> path fio" where
  "create_launch_view key artifact destination =
     bindI (see (\<lambda>fs. validate_destination fs artifact destination)) (\<lambda>checked.
     bindI (liftR checked) (\<lambda>d.
     bindI (see (\<lambda>fs. (resolve fs (ca_runtime_path artifact), path_exists fs d, length fs))) (\<lambda>(runtime, there, n).
       thenI (whenI there (shutil_rmtree_at False d))
       (thenI (mkdir_p d)
       (thenI (copy_walk key (Suc n) runtime d)
         (ret d))))))"

section \<open>The artifact is safe\<close>

lemma keeps_copy_file:
  "below rt target \<Longrightarrow> target \<in> S \<Longrightarrow> keeps (confined rt S g) (copy_file source target)"
  unfolding copy_file_def by (intro keeps_intros)

lemma keeps_copy_entry:
  "below rt (target @ [n]) \<Longrightarrow> target @ [n] \<in> S \<Longrightarrow> keeps (confined rt S g) (copy_entry current target n)"
  unfolding copy_entry_def
  by (intro keeps_bindI keeps_see) (auto intro!: keeps_copy_file keeps_pure simp del: io_apply split: option.splits node.splits)

lemma keeps_copy_walk:
  assumes "below rt target" "prefix rt target" "\<And>q. prefix target q \<Longrightarrow> q \<in> S"
    and "\<And>q. prefix q target \<Longrightarrow> q \<noteq> [] \<Longrightarrow> q \<in> S \<or> g q = Some Dir"
  shows "keeps (confined rt S g) (copy_walk key k current target)"
  using assms
proof (induction k arbitrary: current target)
  case 0
  then show ?case by (simp add: keeps_pure del: io_apply)
next
  case (Suc k)
  have step: "keeps (confined rt S g) (copy_walk key k (current @ [n]) (target @ [n]))"
    "keeps (confined rt S g) (copy_entry current target n)" if n: "n \<noteq> ''..''" for n
  proof -
    have b: "below rt (target @ [n])" by (rule below_append [OF Suc.prems(1,2) n])
    have s: "q \<in> S" if "prefix (target @ [n]) q" for q using Suc.prems(3) that append_prefixD by blast
    have u: "q \<in> S \<or> g q = Some Dir" if "prefix q (target @ [n])" "q \<noteq> []" for q
      using that Suc.prems(4) s by (auto simp: prefix_snoc)
    show "keeps (confined rt S g) (copy_walk key k (current @ [n]) (target @ [n]))"
      by (rule Suc.IH [OF b]) (use Suc.prems(2) s u in auto)
    show "keeps (confined rt S g) (copy_entry current target n)" by (rule keeps_copy_entry [OF b]) (use s in simp)
  qed
  show ?case
    unfolding copy_walk.simps
  proof (rule keeps_bindI_res [OF keeps_see, where R = "\<lambda>x. ''..'' \<notin> set (fst (snd x)) \<and> ''..'' \<notin> set (snd (snd x))"])
    fix x :: "bool \<times> string list \<times> string list"
    assume x: "''..'' \<notin> set (fst (snd x)) \<and> ''..'' \<notin> set (snd (snd x))"
    obtain there names dirs where xs: "x = (there, names, dirs)" by (cases x)
    have "keeps (confined rt S g) (thenI (mkdir_p target)
           (thenI (forI (copy_entry current target) (sort_key key names))
             (forI (\<lambda>n. bindI (see (\<lambda>fs. is_link (lstat_node fs (current @ [n])))) (\<lambda>link.
                if link then ret () else copy_walk key k (current @ [n]) (target @ [n]))) dirs)))"
      using x xs Suc.prems(1,4) by (intro keeps_thenI keeps_forI keeps_bindI keeps_see keeps_mkdir_path)
        (auto intro!: step keeps_pure simp del: io_apply)
    then show "keeps (confined rt S g) (case x of (there, names, dirs) \<Rightarrow>
         if \<not> there then ret ()
         else thenI (mkdir_p target)
           (thenI (forI (copy_entry current target) (sort_key key names))
             (forI (\<lambda>n. bindI (see (\<lambda>fs. is_link (lstat_node fs (current @ [n])))) (\<lambda>link.
                if link then ret () else copy_walk key k (current @ [n]) (target @ [n]))) dirs)))"
      using xs by (auto intro: keeps_pure simp del: io_apply)
  qed (auto simp: listdir_def)
qed

text \<open>Whatever fails, making a launch view changes nothing but the view and the directories that lead to it.\<close>

lemma keeps_create_launch_view:
  assumes "below rt destination" "prefix rt destination" "\<And>q. prefix destination q \<Longrightarrow> q \<in> S"
    and "\<And>q. prefix q destination \<Longrightarrow> q \<noteq> [] \<Longrightarrow> q \<in> S \<or> g q = Some Dir"
  shows "keeps (confined rt S g) (create_launch_view key artifact destination)"
  unfolding create_launch_view_def
proof (rule keeps_bindI_res [OF keeps_see, where R = "\<lambda>x. \<forall>d. x = Inr d \<longrightarrow> d = destination"])
  fix w x w'
  assume "confined rt S g w" "see (\<lambda>fs. validate_destination fs artifact destination) w = (Inr x, w')"
  with resolve_clean [of rt "files w" destination] assms(1) show "\<forall>d. x = Inr d \<longrightarrow> d = destination"
    by (auto simp: validate_destination_def Let_def bindR_Inr_iff confined_def)
next
  fix x :: "path res" assume x: "\<forall>d. x = Inr d \<longrightarrow> d = destination"
  have "keeps (confined rt S g) (thenI (whenI there (shutil_rmtree_at False destination))
       (thenI (mkdir_p destination) (thenI (copy_walk key n runtime destination) (ret destination))))" for there n runtime
    using assms by (intro keeps_thenI keeps_whenI keeps_shutil_rmtree_at keeps_mkdir_path keeps_copy_walk keeps_pure) auto
  then show "keeps (confined rt S g) (bindI (liftR x) (\<lambda>d.
     bindI (see (\<lambda>fs. (resolve fs (ca_runtime_path artifact), path_exists fs d, length fs))) (\<lambda>(runtime, there, n).
       thenI (whenI there (shutil_rmtree_at False d))
       (thenI (mkdir_p d)
       (thenI (copy_walk key (Suc n) runtime d)
         (ret d))))))"
    using x by (cases x) (auto intro!: keeps_bindI keeps_see keeps_pure simp del: copy_walk.simps io_apply bindI_see)
qed

end
