(* ===== verification/Execution.thy ===== *)
theory Execution
  imports LaunchView Reconciliation Changes
begin

text \<open>
  \<^verbatim>\<open>agency/jobs/execution.py\<close>: what a worker does with a job. It takes the job out of the queue, waits for the
  memory, works in a copy of it, runs the agent, records what happened, publishes the memory, and
  leaves a terminal record. The agent itself is the parameter \<open>xe_run\<close>; \<open>xe_git\<close> answers for git and \<open>xe_diff\<close>
  is the unified diff of two sets of files.

  Python's exception handlers see the local variables of the block they guard. Here the block is cut into
  stages at the assignments the handlers read (\<open>started\<close>, \<open>base_sha\<close>), and each stage has the
  handlers with the values they have there. The lock is held from the stage that takes it to the end.
\<close>

section \<open>The agent\<close>

record run_request =
  rn_workspace_root :: path
  rn_launch_dir :: path
  rn_task_file :: path
  rn_timeout :: py
  rn_policy :: policy_snapshot
  rn_skill :: py
  rn_skill_arguments :: "py list"
  rn_enforce_validation :: bool
  rn_memory_dir :: path

record run_result =
  rl_exit_code :: int
  rl_stdout :: string
  rl_stderr :: string
  rl_duration :: py
  rl_changed_files :: "file_change list"

record execution_env =
  xe_publication :: publication_env
  xe_cache :: cache_env
  xe_selector :: "(string \<times> py) list \<Rightarrow> memory_selector res"
  xe_integrations :: "(string \<times> integration) list"
  xe_run :: "string \<Rightarrow> (string \<times> py) list \<Rightarrow> run_request \<Rightarrow> run_result fio"
  xe_git :: "world \<Rightarrow> path \<Rightarrow> string list \<Rightarrow> string option"
  xe_diff :: "memory_files \<Rightarrow> memory_files \<Rightarrow> bytes"
  xe_date :: "world \<Rightarrow> string"
  xe_pid :: int

definition xe_memory :: "execution_env \<Rightarrow> memory_env" where
  "xe_memory X = pe_memory (xe_publication X)"

definition xe_yaml :: "execution_env \<Rightarrow> codec" where
  "xe_yaml X = me_yaml (xe_memory X)"

definition xe_hash :: "execution_env \<Rightarrow> bytes \<Rightarrow> string" where
  "xe_hash X = me_hash (xe_memory X)"

section \<open>What the specification says\<close>

definition spec_memory :: "execution_env \<Rightarrow> job_spec \<Rightarrow> resolved_memory res" where
  "spec_memory X s =
     bindR (dict_of (mb_selector (js_memory s))) (\<lambda>payload.
     bindR (dict_item payload ''scope'') (\<lambda>scope.
     bindR (xe_selector X [(''scope'', scope), (''channel'', get payload ''channel'')]) (\<lambda>selector.
     bindR (path_of_py (mb_path (js_memory s))) (\<lambda>p. Inr
       \<lparr>rm_selector = selector, rm_canonical_json = text_of (mb_canonical_json (js_memory s)),
        rm_hash = text_of (mb_memory_hash (js_memory s)), rm_directory = p\<rparr>))))"

definition spec_artifact :: "blueprint_ref \<Rightarrow> compiled_artifact res" where
  "spec_artifact b = bindR (path_of_py (br_cache_path b)) (\<lambda>p. Inr (artifact_at p (blueprint_cache_ref b)))"

text \<open>\<open>resolve_job_context\<close>: the roots, the integration and the sandbox roots of the policy.\<close>

record job_context =
  jx_group_root :: path
  jx_workspace_root :: path
  jx_sandbox_roots :: "path list"

definition resolve_job_context :: "execution_env \<Rightarrow> fs \<Rightarrow> job_spec \<Rightarrow> job_context res" where
  "resolve_job_context X fs s =
     bindR (mapR path_of_py (rp_sandbox_roots (js_runtime_policy s))) (\<lambda>roots.
     bindR (get_integration (xe_integrations X) (text_of (js_integration_name s))) (\<lambda>i.
     bindR (path_of_py (js_group_root s)) (\<lambda>g.
     bindR (path_of_py (js_workspace_root s)) (\<lambda>w.
       Inr \<lparr>jx_group_root = resolve fs g, jx_workspace_root = resolve fs w, jx_sandbox_roots = roots\<rparr>))))"

text \<open>Changes are captured in the root the job runs in.\<close>

definition change_root :: "job_context \<Rightarrow> path" where
  "change_root c = (case jx_sandbox_roots c of r # _ \<Rightarrow> r | [] \<Rightarrow> jx_workspace_root c)"

definition change_dict :: "file_change \<Rightarrow> py" where
  "change_dict c = PDict [(''path'', PStr (fc_path c)), (''status'', PStr (fc_status c)),
     (''lines_added'', PInt (int (fc_added c))), (''lines_removed'', PInt (int (fc_removed c)))]"

section \<open>Failed jobs\<close>

definition jobs_dir :: "fs \<Rightarrow> path \<Rightarrow> path" where
  "jobs_dir fs p = butlast (resolve fs p)"

definition mark_cancelled_if_waiting :: "execution_env \<Rightarrow> path \<Rightarrow> job_record fio" where
  "mark_cancelled_if_waiting X p =
     bindI (read_job (xe_yaml X) (xe_hash X) p None) (\<lambda>r.
       if jr_status r = PStr ''cancelled'' then ret r
       else raise (Exn CInvalidJobTransition (''Expected cancelled job, found '' @ repr (jr_status r))))"

fun read_plain_files :: "path \<Rightarrow> string list \<Rightarrow> memory_files fio" where
  "read_plain_files d [] = ret []"
| "read_plain_files d (n # ns) =
     bindI (see (\<lambda>fs. is_file fs (d @ [n]))) (\<lambda>regular.
     bindI (if regular then bindI (read_bytes (d @ [n])) (\<lambda>b. ret [(n, b)]) else ret []) (\<lambda>here.
     bindI (read_plain_files d ns) (\<lambda>rest. ret (here @ rest))))"

definition failed_memory_artifacts :: "execution_env \<Rightarrow> path \<Rightarrow> path \<Rightarrow> memory_files \<Rightarrow> py fio" where
  "failed_memory_artifacts X p stage_dir old =
     bindI (bindI (iterdir stage_dir) (\<lambda>names. read_plain_files stage_dir (sort_key (me_casefold (xe_memory X)) names))) (\<lambda>current.
     bindI (see (\<lambda>fs. jobs_dir fs p)) (\<lambda>store.
     bindI (read_job (xe_yaml X) (xe_hash X) p None) (\<lambda>r.
     bindI (retain_failed_stage (xe_memory X) store (text_of (js_job_id (jr_spec r))) stage_dir (Some (xe_diff X old current))) (\<lambda>artifacts.
       ret (PList (map (PDict \<circ> artifact_to_dict) artifacts))))))"

text \<open>\<open>st_size\<close> of a file is the number of its bytes.\<close>

fun list_artifacts :: "path \<Rightarrow> string list \<Rightarrow> job_artifact list fio" where
  "list_artifacts d [] = ret []"
| "list_artifacts d (n # ns) =
     bindI (see (\<lambda>fs. (resolve fs (d @ [n]), stat_node fs (d @ [n])))) (\<lambda>(real, st).
     bindI (list_artifacts d ns) (\<lambda>rest. ret (case st of
         Some (File b) \<Rightarrow> \<lparr>ja_name = n, ja_path = path_str real, ja_size = int (length b)\<rparr> # rest
       | _ \<Rightarrow> rest)))"

definition retained_failed_artifacts :: "execution_env \<Rightarrow> path \<Rightarrow> py fio" where
  "retained_failed_artifacts X p =
     bindI (read_job (xe_yaml X) (xe_hash X) p None) (\<lambda>r.
     bindI (see (\<lambda>fs. jobs_dir fs p @ [''artifacts'', text_of (js_job_id (jr_spec r))])) (\<lambda>d.
     bindI (see (\<lambda>fs. path_exists fs d)) (\<lambda>there.
       if \<not> there then ret (PList [])
       else bindI (iterdir d) (\<lambda>names.
         bindI (list_artifacts d (sort_key (me_casefold (xe_memory X)) names)) (\<lambda>artifacts.
           ret (PList (map (PDict \<circ> artifact_to_dict) artifacts)))))))"

text \<open>What is known about a run when it fails; a field is \<^const>\<open>PNone\<close> where the source passes none.\<close>

record run_facts =
  rf_started_at :: py
  rf_stdout_path :: py
  rf_stderr_path :: py
  rf_exit_code :: py
  rf_duration :: py
  rf_changes :: "py list"
  rf_base_sha :: py
  rf_memory_publication :: py

definition known_facts :: "py \<Rightarrow> py \<Rightarrow> run_facts" where
  "known_facts started base_sha =
     \<lparr>rf_started_at = started, rf_stdout_path = PNone, rf_stderr_path = PNone, rf_exit_code = PNone, rf_duration = PNone,
      rf_changes = [], rf_base_sha = base_sha, rf_memory_publication = PNone\<rparr>"

definition terminalize_failure :: "execution_env \<Rightarrow> path \<Rightarrow> string \<Rightarrow> run_facts \<Rightarrow> job_record fio" where
  "terminalize_failure X p summary f =
     bindI (read_job (xe_yaml X) (xe_hash X) p None) (\<lambda>r.
       if jr_status r \<notin> {PStr ''running'', PStr ''waiting_for_memory''} then ret r
       else bindI (gets_st (pe_clock (xe_publication X))) (\<lambda>now.
         transition_job (xe_yaml X) (xe_hash X) p (text_of (jr_status r)) ''failed''
           [(''completed_at'', PStr now), (''started_at'', rf_started_at f), (''stdout_path'', rf_stdout_path f),
            (''stderr_path'', rf_stderr_path f), (''exit_code'', rf_exit_code f), (''duration_seconds'', rf_duration f),
            (''changed_files'', PList (rf_changes f)), (''execution_summary'', PStr summary), (''base_sha'', rf_base_sha f),
            (''memory_publication'', rf_memory_publication f)]))"

text \<open>\<open>current if current is not None else new\<close>\<close>

definition known_or :: "py \<Rightarrow> py \<Rightarrow> py" where
  "known_or current new = (if current = PNone then new else current)"

definition merged_publication :: "py \<Rightarrow> py \<Rightarrow> py res" where
  "merged_publication current new =
     bindR (if truthy current then dict_of current else Inr []) (\<lambda>d.
     let merged = (if truthy new then dict_update d (entries new) else d) in
     Inr (if merged = [] then PNone else PDict merged))"

definition merged_with :: "job_record \<Rightarrow> string \<Rightarrow> run_facts \<Rightarrow> py \<Rightarrow> job_record" where
  "merged_with r summary f publication =
     r\<lparr>jr_started_at := por (jr_started_at r) (rf_started_at f),
       jr_stdout_path := por (jr_stdout_path r) (rf_stdout_path f),
       jr_stderr_path := por (jr_stderr_path r) (rf_stderr_path f),
       jr_exit_code := known_or (jr_exit_code r) (rf_exit_code f),
       jr_duration_seconds := known_or (jr_duration_seconds r) (rf_duration f),
       jr_changed_files := (if truthy (jr_changed_files r) then jr_changed_files r else PList (rf_changes f)),
       jr_execution_summary := por (jr_execution_summary r) (PStr summary),
       jr_base_sha := por (jr_base_sha r) (rf_base_sha f), jr_memory_publication := publication\<rparr>"

definition merge_failed_terminal_metadata :: "execution_env \<Rightarrow> path \<Rightarrow> string \<Rightarrow> run_facts \<Rightarrow> job_record fio" where
  "merge_failed_terminal_metadata X p summary f =
     bindI (read_job (xe_yaml X) (xe_hash X) p None) (\<lambda>r.
       if jr_status r \<noteq> PStr ''failed'' then ret r
       else bindI (liftR (merged_publication (jr_memory_publication r) (rf_memory_publication f))) (\<lambda>publication.
         let updated = merged_with r summary f publication in
         thenI (write_job (xe_yaml X) (xe_hash X) p updated) (ret updated)))"

section \<open>The stages of a run\<close>

text \<open>How the guarded block ends: cancelled (an early return) or with the record \<open>final\<close>.\<close>

datatype ending = Cancelled_job job_record | Final_job job_record

datatype 'a stage_result = Ended ending | Going_on 'a

definition ended :: "(job_record \<Rightarrow> ending) \<Rightarrow> job_record fio \<Rightarrow> 'a stage_result fio" where
  "ended k m = bindI m (\<lambda>r. ret (Ended (k r)))"

text \<open>
  The handlers: a cancelled lock is an early return, and if that raises, or for any other exception, the record
  is made terminal with what is known.
\<close>

definition failure_summary :: "exn \<Rightarrow> string" where
  "failure_summary e = (if caught_by [CJobAuthorityError] e then ''Execution authority error: '' else ''Execution error: '') @ exn_text e"

definition guarded :: "execution_env \<Rightarrow> path \<Rightarrow> run_facts \<Rightarrow> 'a stage_result fio \<Rightarrow> 'a stage_result fio" where
  "guarded X p f m =
     tryI (try_only [CLockCancelledError] m (\<lambda>_. ended Cancelled_job (mark_cancelled_if_waiting X p)))
       (\<lambda>e. ended Final_job (terminalize_failure X p (failure_summary e) f))"

fun continue_with :: "'a stage_result \<Rightarrow> ('a \<Rightarrow> ending fio) \<Rightarrow> ending fio" where
  "continue_with (Ended e) k = ret e"
| "continue_with (Going_on x) k = k x"

text \<open>Before \<open>started\<close>: the specification, the lock, the memory, the stage and the launch view.\<close>

definition is_cancelled :: "execution_env \<Rightarrow> path \<Rightarrow> authority_ref \<Rightarrow> bool fio" where
  "is_cancelled X store a =
     bindI (authority_read (xe_yaml X) (xe_hash X) store a) (\<lambda>r. ret (jr_status r = PStr ''cancelled''))"

definition check_cancelled :: "path \<Rightarrow> bool fio \<Rightarrow> unit fio" where
  "check_cancelled p cancelled =
     bindI cancelled (\<lambda>c. assertI (\<not> c) (Exn CLockCancelledError (''Lock acquisition cancelled for '' @ path_str p)))"

definition acquire_memory_lock :: "resolved_memory \<Rightarrow> bool fio \<Rightarrow> lock_lease fio" where
  "acquire_memory_lock r cancelled =
     thenI (liftR (validate_resolved_memory r None))
     (bindI (memory_lock_path r) (\<lambda>p.
      thenI (mkdir_p (butlast p))
      (thenI (open_append p)
      (thenI (check_cancelled p cancelled)
      (bindI (gets_st (\<lambda>w. resolve (files w) p \<in> set (busy w))) (\<lambda>held.
       thenI (whenI held (check_cancelled p cancelled))
         (ret \<lparr>ll_hash = rm_hash r, ll_lock_path = p\<rparr>)))))))"

record prepared_run =
  pn_context :: job_context
  pn_lease :: lock_lease
  pn_stage :: memory_stage
  pn_files :: memory_files
  pn_launch_view :: path

definition launch_dir :: "path \<Rightarrow> path" where
  "launch_dir p = butlast p @ [path_stem (last p), ''launch'']"

definition prepare_run :: "execution_env \<Rightarrow> path \<Rightarrow> authority_ref \<Rightarrow> path \<Rightarrow> job_spec \<Rightarrow> prepared_run stage_result fio" where
  "prepare_run X store a p s =
     thenI (authority_read (xe_yaml X) (xe_hash X) store a)
     (bindI (see (\<lambda>fs. resolve_job_context X fs s)) (\<lambda>context.
      bindI (liftR context) (\<lambda>c.
      bindI (liftR (spec_artifact (js_blueprint s))) (\<lambda>artifact.
      bindI (liftR (spec_memory X s)) (\<lambda>m.
      bindI (acquire_memory_lock m (is_cancelled X store a)) (\<lambda>lease.
      bindI (is_cancelled X store a) (\<lambda>cancelled.
        if cancelled then ended Cancelled_job (mark_cancelled_if_waiting X p)
        else bindI (ensure_memory_locked (xe_memory X) m lease) (\<lambda>snapshot.
          bindI (stage_memory_locked (xe_memory X) m (text_of (js_job_id s)) lease) (\<lambda>stage.
          bindI (create_launch_view (me_casefold (xe_memory X)) artifact (launch_dir p)) (\<lambda>view.
            ret (Going_on \<lparr>pn_context = c, pn_lease = lease, pn_stage = stage, pn_files = mn_files snapshot,
                           pn_launch_view = view\<rparr>)))))))))))"

text \<open>Between \<open>started\<close> and \<open>base_sha\<close>: the job runs.\<close>

definition start_run :: "execution_env \<Rightarrow> path \<Rightarrow> string \<Rightarrow> job_context \<Rightarrow> string option stage_result fio" where
  "start_run X p started c =
     bindI (transition_job (xe_yaml X) (xe_hash X) p ''waiting_for_memory'' ''running''
              [(''worker_pid'', PInt (xe_pid X)), (''started_at'', PStr started)]) (\<lambda>r.
     thenI (tryI (project_decision (xe_yaml X) r) (\<lambda>_. ret ()))
       (gets_st (\<lambda>w. Going_on (capture_base_sha (xe_git X w) (path_exists (files w)) (Some (change_root c))))))"

definition write_text :: "path \<Rightarrow> string \<Rightarrow> unit fio" where
  "write_text p s = thenI (write_bytes p []) (write_bytes p (utf8_encode s))"

text \<open>The agent: its logs, its run, and the changes it made.\<close>

record run_report =
  ra_result :: run_result
  ra_stdout_path :: string
  ra_stderr_path :: py
  ra_changes :: "py list"

definition run_agent :: "execution_env \<Rightarrow> string \<Rightarrow> string option \<Rightarrow> job_spec \<Rightarrow> prepared_run \<Rightarrow> run_report fio" where
  "run_agent X date base_sha s n =
     (let c = pn_context n; log_dir = jx_group_root c @ [''logs'', date];
          stem = text_of (js_agent_name s) @ ''-'' @ text_of (js_trigger s) @ ''-'' @ text_of (js_job_id s);
          prompt = log_dir @ [stem @ ''.prompt'']; out = log_dir @ [stem @ ''.out'']; err = log_dir @ [stem @ ''.err''] in
      thenI (mkdir_p log_dir)
      (thenI (write_text prompt (text_of (js_task_input s)))
      (bindI (xe_run X (text_of (js_integration_name s)) (js_integration_config s)
               \<lparr>rn_workspace_root = jx_workspace_root c, rn_launch_dir = pn_launch_view n, rn_task_file = prompt,
                rn_timeout = rp_timeout (js_runtime_policy s), rn_policy = js_runtime_policy s, rn_skill = js_skill s,
                rn_skill_arguments = js_skill_arguments s, rn_enforce_validation = True,
                rn_memory_dir = mt_directory (pn_stage n)\<rparr>) (\<lambda>result.
       thenI (write_text out (rl_stdout result))
       (thenI (whenI (rl_stderr result \<noteq> []) (write_text err (rl_stderr result)))
       (gets_st (\<lambda>w.
         \<lparr>ra_result = result, ra_stdout_path = path_str (resolve (files w) out),
          ra_stderr_path = (if rl_stderr result = [] then PNone else PStr (path_str (resolve (files w) err))),
          ra_changes = map change_dict (if rl_changed_files result \<noteq> [] then rl_changed_files result
             else capture_git_changes (xe_git X w) (path_exists (files w)) (Some (change_root c)) base_sha)\<rparr>)))))))"

definition report_facts :: "string \<Rightarrow> string option \<Rightarrow> run_report \<Rightarrow> py \<Rightarrow> run_facts" where
  "report_facts started base_sha t publication =
     \<lparr>rf_started_at = PStr started, rf_stdout_path = PStr (ra_stdout_path t), rf_stderr_path = ra_stderr_path t,
      rf_exit_code = PInt (rl_exit_code (ra_result t)), rf_duration = rl_duration (ra_result t),
      rf_changes = ra_changes t, rf_base_sha = opt_py base_sha, rf_memory_publication = publication\<rparr>"

definition exit_summary :: "py \<Rightarrow> int \<Rightarrow> string" where
  "exit_summary timeout code =
     (if code = 124 then ''Agent timed out after '' @ str_of timeout @ '' seconds.''
      else ''Agent exited with code '' @ show_int code @ ''.'')"

definition success_summary :: "py list \<Rightarrow> string" where
  "success_summary changes =
     (if changes = [] then ''Agent completed execution (inferred from exit code).''
      else ''Agent completed execution; captured '' @ show_nat (length changes) @ '' changed '' @
        (if length changes = 1 then ''file'' else ''files'') @ ''.'')"

definition finished_record :: "string \<Rightarrow> string option \<Rightarrow> run_report \<Rightarrow> job_record \<Rightarrow> job_record" where
  "finished_record started base_sha t r =
     r\<lparr>jr_started_at := PStr started, jr_stdout_path := PStr (ra_stdout_path t), jr_stderr_path := ra_stderr_path t,
       jr_exit_code := PInt (rl_exit_code (ra_result t)), jr_duration_seconds := rl_duration (ra_result t),
       jr_changed_files := PList (ra_changes t), jr_execution_summary := PStr (success_summary (ra_changes t)),
       jr_base_sha := opt_py base_sha\<rparr>"

definition publish_run :: "execution_env \<Rightarrow> path \<Rightarrow> string \<Rightarrow> string option \<Rightarrow> prepared_run \<Rightarrow> run_report \<Rightarrow> job_record fio" where
  "publish_run X p started base_sha n t =
     bindI (see (\<lambda>fs. jobs_dir fs p)) (\<lambda>store.
     bindI (prepare_publication (xe_publication X) (pn_stage n) store (Some p) (Some (pn_lease n))) (\<lambda>prepared.
     bindI (apply_publication (xe_publication X) prepared None False True (Some (pn_lease n))) (\<lambda>applied.
     thenI (finalize_publication (xe_publication X) applied)
     (bindI (read_job (xe_yaml X) (xe_hash X) p None) (\<lambda>r.
        if jr_status r \<noteq> PStr ''complete'' then ret r
        else let final = finished_record started base_sha t r in
          thenI (write_job (xe_yaml X) (xe_hash X) p final) (ret final))))))"

definition publication_failed :: "execution_env \<Rightarrow> path \<Rightarrow> string \<Rightarrow> string option \<Rightarrow> prepared_run \<Rightarrow> run_report \<Rightarrow> exn \<Rightarrow> job_record fio" where
  "publication_failed X p started base_sha n t e =
     bindI (read_job (xe_yaml X) (xe_hash X) p None) (\<lambda>current.
     bindI (retained_failed_artifacts X p) (\<lambda>kept.
     bindI (if truthy kept then ret kept else failed_memory_artifacts X p (mt_directory (pn_stage n)) (pn_files n)) (\<lambda>artifacts.
     let f = report_facts started base_sha t (PDict [(''failed_artifacts'', artifacts)]);
         summary = ''Memory publication failed: '' @ exn_text e in
     if jr_status current = PStr ''failed'' then merge_failed_terminal_metadata X p summary f
     else terminalize_failure X p summary f)))"

definition finish_run :: "execution_env \<Rightarrow> path \<Rightarrow> string \<Rightarrow> string \<Rightarrow> string option \<Rightarrow> job_spec \<Rightarrow> prepared_run \<Rightarrow> unit stage_result fio" where
  "finish_run X p started date base_sha s n =
     bindI (run_agent X date base_sha s n) (\<lambda>t.
       if rl_exit_code (ra_result t) \<noteq> 0
       then bindI (failed_memory_artifacts X p (mt_directory (pn_stage n)) (pn_files n)) (\<lambda>artifacts.
         ended Final_job (terminalize_failure X p (exit_summary (rp_timeout (js_runtime_policy s)) (rl_exit_code (ra_result t)))
           (report_facts started base_sha t (PDict [(''failed_artifacts'', artifacts)]))))
       else ended Final_job (try_only [CMemoryPublicationError] (publish_run X p started base_sha n t)
              (publication_failed X p started base_sha n t)))"

section \<open>The worker\<close>

definition run_stages :: "execution_env \<Rightarrow> path \<Rightarrow> authority_ref \<Rightarrow> path \<Rightarrow> job_spec \<Rightarrow> ending fio" where
  "run_stages X store a p s =
     bindI (guarded X p (known_facts PNone PNone) (prepare_run X store a p s)) (\<lambda>one.
     continue_with one (\<lambda>n.
       bindI (gets_st (\<lambda>w. (pe_clock (xe_publication X) w, xe_date X w))) (\<lambda>(started, date).
       bindI (guarded X p (known_facts (PStr started) PNone) (start_run X p started (pn_context n))) (\<lambda>two.
       continue_with two (\<lambda>base_sha.
         bindI (guarded X p (known_facts (PStr started) (opt_py base_sha)) (finish_run X p started date base_sha s n)) (\<lambda>three.
         continue_with three (\<lambda>_. raise (Exn CAssertionError ''unreachable'')))))))) "

definition execute_job :: "execution_env \<Rightarrow> authority_ref \<Rightarrow> job_record fio" where
  "execute_job X a =
     bindI (see (\<lambda>fs. from_store_root fs (af_store_root a))) (\<lambda>root.
     bindI (liftR root) (\<lambda>store.
     thenI (authority_read (xe_yaml X) (xe_hash X) store a)
     (bindI (see (\<lambda>fs. authority_path fs a)) (\<lambda>p.
      bindI (transition_job (xe_yaml X) (xe_hash X) p ''queued'' ''waiting_for_memory'' [(''worker_pid'', PInt (xe_pid X))]) (\<lambda>r.
      bindI (finallyI (run_stages X store a p (jr_spec r)) (tryI (release_job_pin (xe_cache X) r) (\<lambda>_. ret ()))) (\<lambda>e. case e of
          Cancelled_job final \<Rightarrow> ret final
        | Final_job final \<Rightarrow> thenI (tryI (project_decision (xe_yaml X) final) (\<lambda>_. ret ())) (ret final)))))))"

section \<open>Only a queued job is run\<close>

lemma keeps_authority_read [keeps_intros]: "keeps K (authority_read Y H store a)"
  unfolding authority_read_def by (auto intro!: keeps_intros simp del: io_apply bindI_see)

text \<open>How \<open>execute_job\<close> starts: everything before the first transition only reads.\<close>

definition claim_job :: "execution_env \<Rightarrow> path \<Rightarrow> job_record fio" where
  "claim_job X p = transition_job (xe_yaml X) (xe_hash X) p ''queued'' ''waiting_for_memory'' [(''worker_pid'', PInt (xe_pid X))]"

lemma execute_job_start:
  assumes "execute_job X a w = (res, w')"
  shows "(\<exists>e. res = Inl e \<and> w' = w) \<or>
    (\<exists>store. from_store_root (files w) (af_store_root a) = Inr store \<and>
     (\<exists>q v. claim_job X (authority_path (files w) a) w = (q, v) \<and>
       (\<forall>e. q = Inl e \<longrightarrow> res = Inl e \<and> w' = v) \<and>
       (\<forall>r. q = Inr r \<longrightarrow>
         bindI (finallyI (run_stages X store a (authority_path (files w) a) (jr_spec r)) (tryI (release_job_pin (xe_cache X) r) (\<lambda>_. ret ())))
           (\<lambda>e. case e of
              Cancelled_job final \<Rightarrow> ret final
            | Final_job final \<Rightarrow> thenI (tryI (project_decision (xe_yaml X) final) (\<lambda>_. ret ())) (ret final)) v = (res, w'))))"
proof (cases "from_store_root (files w) (af_store_root a)")
  case (Inl e)
  with assms show ?thesis by (auto simp: execute_job_def)
next
  case (Inr store)
  obtain r1 w1 where rd: "authority_read (xe_yaml X) (xe_hash X) store a w = (r1, w1)" by fastforce
  have w1: "w1 = w" using keepsD [OF keeps_authority_read, of "\<lambda>v. v = w", OF refl rd] .
  obtain q v where c: "claim_job X (authority_path (files w) a) w = (q, v)" by fastforce
  show ?thesis
  proof (cases r1)
    case (Inl e)
    with assms \<open>from_store_root (files w) (af_store_root a) = Inr store\<close> rd w1 show ?thesis
      by (auto simp: execute_job_def thenI_apply)
  next
    case (Inr u)
    with assms \<open>from_store_root (files w) (af_store_root a) = Inr store\<close> rd w1 c show ?thesis
      by (cases q) (auto simp add: execute_job_def thenI_apply bindI_Inl bindI_Inr claim_job_def [symmetric])
  qed
qed

lemma claim_outcome:
  assumes "codec_ok (xe_yaml X)" "job_place rt p w" "holds (xe_yaml X) (xe_hash X) p r (node_at (files w))"
    and "claim_job X p w = (res, w')"
  shows "job_place rt p w'" "beside_same rt w w'"
    and "\<exists>x. jr_spec x = jr_spec r \<and> holds (xe_yaml X) (xe_hash X) p x (node_at (files w')) \<and>
      (x = r \<or> jr_status r = PStr ''queued'' \<and> jr_status x = PStr ''waiting_for_memory'')"
    and "res = Inr x \<Longrightarrow> jr_status r = PStr ''queued'' \<and> jr_spec x = jr_spec r \<and>
      jr_status x = PStr ''waiting_for_memory'' \<and> holds (xe_yaml X) (xe_hash X) p x (node_at (files w'))"
proof -
  have d: "distinct (map fst [(''worker_pid'', PInt (xe_pid X))])"
    "list_all (\<lambda>(k, v). json_ok v) [(''worker_pid'', PInt (xe_pid X))]" by simp_all
  note o = transition_outcome [OF assms(1-3) d assms(4) [unfolded claim_job_def]]
  show "job_place rt p w'" using o by blast
  show "beside_same rt w w'" by (rule transition_beside [OF assms(2) assms(4) [unfolded claim_job_def]])
  show "\<exists>x. jr_spec x = jr_spec r \<and> holds (xe_yaml X) (xe_hash X) p x (node_at (files w')) \<and>
      (x = r \<or> jr_status r = PStr ''queued'' \<and> jr_status x = PStr ''waiting_for_memory'')"
    using o replace_status_spec(1,2) [OF _ d(1)] by metis
  show "res = Inr x \<Longrightarrow> jr_status r = PStr ''queued'' \<and> jr_spec x = jr_spec r \<and>
      jr_status x = PStr ''waiting_for_memory'' \<and> holds (xe_yaml X) (xe_hash X) p x (node_at (files w'))"
    using o by blast
qed

lemma unqueued_untouched:
  assumes "codec_ok (xe_yaml X)" "job_place rt (authority_path (files w) a) w"
    and "holds (xe_yaml X) (xe_hash X) (authority_path (files w) a) r (node_at (files w))"
    and "jr_status r \<noteq> PStr ''queued''" "execute_job X a w = (res, w')"
  shows "(\<exists>e. res = Inl e) \<and> holds (xe_yaml X) (xe_hash X) (authority_path (files w) a) r (node_at (files w')) \<and> beside_same rt w w'"
proof -
  from execute_job_start [OF assms(5)] show ?thesis
  proof (elim disjE exE conjE)
    fix e assume "res = Inl e" "w' = w"
    with assms(2,3) show ?thesis by (simp add: beside_same_def job_place_def)
  next
    fix store q v
    assume c: "claim_job X (authority_path (files w) a) w = (q, v)" and i: "\<forall>e. q = Inl e \<longrightarrow> res = Inl e \<and> w' = v"
    note o = claim_outcome [OF assms(1-3) c]
    from o(4) assms(4) obtain e where "q = Inl e" by (cases q) auto
    with i o(2,3) assms(4) show ?thesis by auto
  qed
qed

text \<open>
  So a job that was cancelled while it waited in the queue keeps its compiled blueprint pinned: the worker raises before
  it reaches the release, and reconciliation releases the pins of finished and failed jobs only.
\<close>

lemma cancelled_pin_stays:
  assumes "codec_ok (xe_yaml X)" "job_place rt (authority_path (files w) a) w"
    and "holds (xe_yaml X) (xe_hash X) (authority_path (files w) a) r (node_at (files w))"
    and "jr_status r = PStr ''cancelled''" "apart rt d" "execute_job X a w = (res, w')"
  shows "pin_holders (xe_cache X) (pins_dir d k) (node_at (files w')) = pin_holders (xe_cache X) (pins_dir d k) (node_at (files w))"
proof -
  have "jr_status r \<noteq> PStr ''queued''" using assms(4) by simp
  from unqueued_untouched [OF assms(1-3) this assms(6)] have "beside_same rt w w'" by blast
  from beside_same_holders [OF this assms(5)] show ?thesis by (simp add: pins_dir_def)
qed

text \<open>
  C16 - A worker runs only a job that is queued. Started on a job in any other status (cancelled before it was
  started, taken by another worker, or finished), whatever the agent, the schedule of faults and the reference, the
  worker raises, the record is the one that was there, and nothing outside the job store is touched.
\<close>

theorem only_queued_jobs_run:
  assumes "codec_ok (xe_yaml X)" "job_place rt (authority_path (files w) a) w"
    and "holds (xe_yaml X) (xe_hash X) (authority_path (files w) a) r (node_at (files w))"
    and "jr_status r \<noteq> PStr ''queued''" "execute_job X a w = (res, w')"
  shows "(\<exists>e. res = Inl e) \<and> holds (xe_yaml X) (xe_hash X) (authority_path (files w) a) r (node_at (files w')) \<and> beside_same rt w w'"
  by (rule unqueued_untouched [OF assms])

section \<open>A failure is recorded\<close>

definition facts_ok :: "run_facts \<Rightarrow> bool" where
  "facts_ok f \<longleftrightarrow> list_all json_ok [rf_started_at f, rf_stdout_path f, rf_stderr_path f, rf_exit_code f, rf_duration f,
     PList (rf_changes f), rf_base_sha f, rf_memory_publication f]"

text \<open>The record of a failed run, field by field.\<close>

definition failed_with :: "job_record \<Rightarrow> string \<Rightarrow> string \<Rightarrow> run_facts \<Rightarrow> job_record" where
  "failed_with r now summary f =
     r\<lparr>jr_status := PStr ''failed'', jr_completed_at := PStr now, jr_started_at := rf_started_at f,
       jr_stdout_path := rf_stdout_path f, jr_stderr_path := rf_stderr_path f, jr_exit_code := rf_exit_code f,
       jr_duration_seconds := rf_duration f, jr_changed_files := PList (rf_changes f),
       jr_execution_summary := PStr summary, jr_base_sha := rf_base_sha f, jr_memory_publication := rf_memory_publication f\<rparr>"

definition failure_changes :: "string \<Rightarrow> string \<Rightarrow> run_facts \<Rightarrow> (string \<times> py) list" where
  "failure_changes now summary f =
     [(''completed_at'', PStr now), (''started_at'', rf_started_at f), (''stdout_path'', rf_stdout_path f),
      (''stderr_path'', rf_stderr_path f), (''exit_code'', rf_exit_code f), (''duration_seconds'', rf_duration f),
      (''changed_files'', PList (rf_changes f)), (''execution_summary'', PStr summary), (''base_sha'', rf_base_sha f),
      (''memory_publication'', rf_memory_publication f)]"

lemma replace_status_failed:
  "replace_status r ''failed'' (failure_changes now summary f) = Inr (failed_with r now summary f)"
  by (cases r) (simp add: replace_status_def replace_fields_def failure_changes_def record_fields_def record_values_def
      kwargs_def dict_update_def new_record_def failed_with_def get_or_def get_def)

lemma terminalize_outcome:
  assumes "codec_ok (xe_yaml X)" "job_place rt p w" "holds (xe_yaml X) (xe_hash X) p r (node_at (files w))"
    and "facts_ok f" "terminalize_failure X p summary f w = (res, w')"
  shows "jr_status r \<notin> {PStr ''running'', PStr ''waiting_for_memory''} \<Longrightarrow> w' = w \<and> res = Inr r"
    and "job_place rt p w'" "beside_same rt w w'"
    and "holds (xe_yaml X) (xe_hash X) p r (node_at (files w')) \<or>
      jr_status r \<in> {PStr ''running'', PStr ''waiting_for_memory''} \<and>
      holds (xe_yaml X) (xe_hash X) p (failed_with r (pe_clock (xe_publication X) w) summary f) (node_at (files w'))"
    and "res = Inr x \<Longrightarrow> jr_status r \<in> {PStr ''running'', PStr ''waiting_for_memory''} \<Longrightarrow>
      x = failed_with r (pe_clock (xe_publication X) w) summary f \<and> holds (xe_yaml X) (xe_hash X) p x (node_at (files w'))"
proof -
  let ?c = "failure_changes (pe_clock (xe_publication X) w) summary f"
  have rd: "read_job (xe_yaml X) (xe_hash X) p None w = (Inr r, w)"
    using read_job_holds [OF assms(1) _ _ assms(3), of rt] assms(2) by (simp add: job_place_def)
  note run = assms(5) [unfolded terminalize_failure_def bindI_Inr [where m = "read_job (xe_yaml X) (xe_hash X) p None", OF rd]]
  have d: "distinct (map fst ?c)" "list_all (\<lambda>(k, v). json_ok v) ?c"
    using assms(4) by (simp_all add: failure_changes_def facts_ok_def)
  have fs: "''failed'' \<in> set valid_statuses" by (simp add: valid_statuses_def)
  have all: "(jr_status r \<notin> {PStr ''running'', PStr ''waiting_for_memory''} \<longrightarrow> w' = w \<and> res = Inr r) \<and>
    job_place rt p w' \<and> beside_same rt w w' \<and>
    (holds (xe_yaml X) (xe_hash X) p r (node_at (files w')) \<or>
      jr_status r \<in> {PStr ''running'', PStr ''waiting_for_memory''} \<and>
      holds (xe_yaml X) (xe_hash X) p (failed_with r (pe_clock (xe_publication X) w) summary f) (node_at (files w'))) \<and>
    (\<forall>x. res = Inr x \<and> jr_status r \<in> {PStr ''running'', PStr ''waiting_for_memory''} \<longrightarrow>
      x = failed_with r (pe_clock (xe_publication X) w) summary f \<and> holds (xe_yaml X) (xe_hash X) p x (node_at (files w')))"
  proof (cases "jr_status r \<notin> {PStr ''running'', PStr ''waiting_for_memory''}")
    case True
    with run assms(2,3) show ?thesis by (simp add: beside_same_def job_place_def)
  next
    case False
    have run1: "transition_job (xe_yaml X) (xe_hash X) p (text_of (jr_status r)) ''failed'' ?c w = (res, w')"
      using run [unfolded if_not_P [OF False]] by (simp add: bindI_apply failure_changes_def)
    note o = guarded_update_outcome [OF assms(1-3) d fs run1 [unfolded transition_job_guarded]]
    have "res = Inr x \<Longrightarrow> x = failed_with r (pe_clock (xe_publication X) w) summary f \<and> holds (xe_yaml X) (xe_hash X) p x (node_at (files w'))" for x
      using o(2) [of x] by (simp add: replace_status_failed)
    moreover have "holds (xe_yaml X) (xe_hash X) p r (node_at (files w')) \<or>
      holds (xe_yaml X) (xe_hash X) p (failed_with r (pe_clock (xe_publication X) w) summary f) (node_at (files w'))"
      using o(3) by (auto simp: replace_status_failed)
    ultimately show ?thesis using o(1) transition_beside [OF assms(2) run1] False by blast
  qed
  then show "jr_status r \<notin> {PStr ''running'', PStr ''waiting_for_memory''} \<Longrightarrow> w' = w \<and> res = Inr r"
    and "job_place rt p w'" "beside_same rt w w'"
    and "holds (xe_yaml X) (xe_hash X) p r (node_at (files w')) \<or>
      jr_status r \<in> {PStr ''running'', PStr ''waiting_for_memory''} \<and>
      holds (xe_yaml X) (xe_hash X) p (failed_with r (pe_clock (xe_publication X) w) summary f) (node_at (files w'))"
    and "res = Inr x \<Longrightarrow> jr_status r \<in> {PStr ''running'', PStr ''waiting_for_memory''} \<Longrightarrow>
      x = failed_with r (pe_clock (xe_publication X) w) summary f \<and> holds (xe_yaml X) (xe_hash X) p x (node_at (files w'))"
    by blast+
qed

section \<open>A cancelled job\<close>

definition demo_execution_spec :: job_spec where
  "demo_execution_spec = demo_launch_spec\<lparr>js_memory := \<lparr>mb_selector = PDict [(''scope'', PStr ''run'')],
     mb_canonical_json = PStr ''{}'', mb_memory_hash = PStr ''h'', mb_path = PStr ''/m/h''\<rparr>\<rparr>"

definition demo_execution_record :: "string \<Rightarrow> job_record" where
  "demo_execution_record st = new_record demo_execution_spec
     [(''authority_digest'', PStr (immutable_digest id demo_execution_spec)), (''status'', PStr st)]"

definition demo_execution :: execution_env where
  "demo_execution =
     \<lparr>xe_publication = demo_publication\<lparr>pe_memory := ascii_env\<rparr>, xe_cache = demo_cache, xe_selector = (\<lambda>_. Inr run_selector),
      xe_integrations = [],
      xe_run = (\<lambda>_ _ _. ret \<lparr>rl_exit_code = 1, rl_stdout = ''out'', rl_stderr = [], rl_duration = PInt 1, rl_changed_files = []\<rparr>),
      xe_git = (\<lambda>_ _ _. None), xe_diff = (\<lambda>_ _. []), xe_date = (\<lambda>_. ''2024-01-01''), xe_pid = 7\<rparr>"

definition demo_execution_ref :: authority_ref where
  "demo_execution_ref =
     \<lparr>af_store_root = [''m'', ''.jobs''], af_group_id = ''g'', af_job_id = ''j1'', af_digest = immutable_digest id demo_execution_spec\<rparr>"

definition demo_execution_world :: "string \<Rightarrow> world" where
  "demo_execution_world st =
     \<lparr>files = [([''m''], Dir), ([''m'', ''.jobs''], Dir), ([''m'', ''.jobs'', ''g''], Dir),
        ([''m'', ''.jobs'', ''g'', ''j1.yaml''], File (job_text json_codec (demo_execution_record st))),
        ([''c''], Dir), ([''w''], Dir), ([''w'', ''g''], Dir)], sched = [], busy = []\<rparr>"

lemma demo_execution_codec: "xe_yaml demo_execution = json_codec" "xe_hash demo_execution = id"
  by (simp_all add: xe_yaml_def xe_hash_def xe_memory_def demo_execution_def ascii_env_def)

lemma demo_execution_clean:
  "clean [''m''] (files (demo_execution_world st))" "clean [''c''] (files (demo_execution_world st))"
  "clean [''w'', ''g''] (files (demo_execution_world st))"
proof -
  have "clean_check [''m''] (files (demo_execution_world st))" "clean_check [''c''] (files (demo_execution_world st))"
    "clean_check [''w'', ''g''] (files (demo_execution_world st))"
    by (simp_all add: clean_check_def demo_execution_world_def node_at_def)
  then show "clean [''m''] (files (demo_execution_world st))" "clean [''c''] (files (demo_execution_world st))"
    "clean [''w'', ''g''] (files (demo_execution_world st))" by (simp_all add: clean_checkI)
qed

lemma demo_execution_path: "authority_path (files (demo_execution_world st)) demo_execution_ref = [''m'', ''.jobs'', ''g'', ''j1.yaml'']"
  using resolve_clean [OF demo_execution_clean(1), of "[''m'', ''.jobs'', ''g'', ''j1.yaml'']" st]
  by (simp add: authority_path_def demo_execution_ref_def below_def)

lemma demo_execution_holds:
  assumes "st \<in> set valid_statuses"
  shows "holds json_codec id [''m'', ''.jobs'', ''g'', ''j1.yaml''] (demo_execution_record st) (node_at (files (demo_execution_world st)))"
proof -
  have f: "jr_status (demo_execution_record st) = PStr st" "jr_spec (demo_execution_record st) = demo_execution_spec"
    "jr_authority_digest (demo_execution_record st) = PStr (immutable_digest id demo_execution_spec)"
    by (simp_all add: demo_execution_record_def new_record_def)
  have "spec_ok demo_execution_spec" "json_ok (PDict (spec_to_dict demo_execution_spec))" by code_simp+
  then have "record_ok id (demo_execution_record st)" "json_ok (PDict (record_to_dict (demo_execution_record st)))"
    using distinct_record_to_dict [of "demo_execution_record st"] assms
    by (simp_all add: record_ok_def f) (simp add: record_to_dict_def record_values_def demo_execution_record_def new_record_def)
  then show ?thesis by (simp add: holds_def demo_execution_world_def node_at_def)
qed

lemma only_queued_jobs_run_witness:
  "\<exists>e w'. execute_job demo_execution demo_execution_ref (demo_execution_world ''cancelled'') = (Inl e, w') \<and>
     holds json_codec id [''m'', ''.jobs'', ''g'', ''j1.yaml''] (demo_execution_record ''cancelled'') (node_at (files w'))"
proof -
  let ?w = "demo_execution_world ''cancelled''" and ?p = "[''m'', ''.jobs'', ''g'', ''j1.yaml'']"
  obtain res w' where run: "execute_job demo_execution demo_execution_ref ?w = (res, w')" by fastforce
  have pl: "job_place [''m''] ?p ?w" using demo_execution_clean(1)
    by (simp add: job_place_def below_def strict_prefix_def demo_execution_world_def node_at_def)
  have h: "holds json_codec id ?p (demo_execution_record ''cancelled'') (node_at (files ?w))"
    by (rule demo_execution_holds) (simp add: valid_statuses_def)
  have st: "jr_status (demo_execution_record ''cancelled'') \<noteq> PStr ''queued''"
    by (simp add: demo_execution_record_def new_record_def)
  from only_queued_jobs_run [OF _ _ _ st run, of "[''m'']"] pl h run
  show ?thesis by (auto simp: demo_execution_codec demo_execution_path codec_ok_json)
qed

end
