(* ===== verification/StoreBranches.thy ===== *)
theory StoreBranches
  imports RecoverySafety
begin

text \<open>
  A memory store is a directory whose branches are memories, jobs, stages, journals, backups and locks. The operations
  on a memory - lock, read, ensure, stage, replace, save - stay out of every other branch, whatever fails: of another memory and
  of the jobs.
\<close>

section \<open>A branch of the store\<close>

text \<open>Everything in the store outside the branch \<open>y\<close>.\<close>

definition elsewhere :: "path \<Rightarrow> string \<Rightarrow> path set" where
  "elsewhere rt y = {q. strict_prefix rt q \<and> \<not> prefix (rt @ [y]) q}"

definition branch :: "path \<Rightarrow> string \<Rightarrow> (path \<Rightarrow> node option) \<Rightarrow> bool" where
  "branch rt y g \<longleftrightarrow> ''..'' \<notin> set rt \<and> root_there rt g \<and>
     y \<notin> {''.locks'', ''.staging'', ''.journals'', ''.publication-backups'', ''.backups''}"

abbreviation away :: "path \<Rightarrow> string \<Rightarrow> (path \<Rightarrow> node option) \<Rightarrow> world \<Rightarrow> bool" where
  "away rt y g \<equiv> confined rt (elsewhere rt y) g"

lemma branchD:
  assumes "branch rt y g"
  shows "''..'' \<notin> set rt" "root_there rt g" "g rt = Some Dir"
    "y \<notin> {''.locks'', ''.staging'', ''.journals'', ''.publication-backups'', ''.backups''}"
  using assms by (auto simp: branch_def root_there_def)

lemma root_not_elsewhere [simp]: "rt \<notin> elsewhere rt y" "prefix q rt \<Longrightarrow> q \<notin> elsewhere rt y"
  by (auto simp: elsewhere_def strict_prefix_def dest: prefix_order.antisym)

lemma elsewhereI: "x \<noteq> y \<Longrightarrow> prefix (rt @ [x]) q \<Longrightarrow> q \<in> elsewhere rt y"
  by (auto simp: elsewhere_def strict_prefix_def prefix_def)

lemma way_elsewhere:
  assumes "branch rt y g" "x \<noteq> y" "prefix q (rt @ x # cs)" "q \<noteq> []"
  shows "q \<in> elsewhere rt y \<or> g q = Some Dir"
proof -
  from prefix_below_cases [OF assms(3)] show ?thesis
  proof
    assume "prefix q rt"
    with branchD(2) [OF assms(1)] assms(4) show ?thesis by (auto simp: root_there_def)
  next
    assume "\<exists>ds. ds \<noteq> [] \<and> q = rt @ ds \<and> prefix ds (x # cs)"
    then have "prefix (rt @ [x]) q" by (auto simp: prefix_Cons)
    with assms(2) show ?thesis by (auto intro: elsewhereI)
  qed
qed

text \<open>The way to a node of a tree are directories.\<close>

lemma tree_way:
  assumes "tree fs" "node_at fs p \<noteq> None" "strict_prefix q p"
  shows "node_at fs q = Some Dir"
  using assms(2,3)
proof (induction p rule: rev_induct)
  case (snoc x p)
  then have d: "node_at fs p = Some Dir" using assms(1) unfolding tree_def by (metis butlast_snoc snoc_eq_iff_butlast)
  from snoc.prems(2) have "q = p \<or> strict_prefix q p" by (auto simp: strict_prefix_def prefix_snoc)
  with d snoc.IH show ?case by auto
qed simp

text \<open>What stays in a smaller region stays away from the branch.\<close>

lemma away_wider:
  assumes "branch rt y g" "S \<subseteq> elsewhere rt y" "\<And>g. root_there rt g \<Longrightarrow> keeps (confined rt S g) m"
  shows "keeps (away rt y g) m"
  unfolding keeps_def
proof (intro allI impI)
  fix w assume w: "away rt y g w"
  then have "node_at (files w) q = g q" if "prefix q rt" for q using that by (simp add: confined_def)
  with branchD(2) [OF assms(1)] have "root_there rt (node_at (files w))" by (simp add: root_there_def)
  from assms(3) [OF this] w have "confined rt S (node_at (files w)) (snd (m w))"
    using confined_self [of rt w S] by (simp add: keeps_def confined_def)
  with w assms(2) show "away rt y g (snd (m w))" by (auto simp: confined_def)
qed

section \<open>Directories and files of the store\<close>

lemma away_infrastructure:
  assumes "branch rt y g" "x \<noteq> y" "''..'' \<notin> set (x # cs)"
  shows "keeps (away rt y g) (ensure_infrastructure_directory rt (x # cs) l)"
proof (rule keeps_ensure_infrastructure)
  show "q \<in> elsewhere rt y" if "strict_prefix rt q" "prefix q (rt @ x # cs)" for q
  proof -
    from prefix_below_cases [OF that(2)] that(1) have "prefix (rt @ [x]) q"
      by (auto simp: strict_prefix_def prefix_Cons dest: prefix_order.antisym)
    with assms(2) show ?thesis by (rule elsewhereI)
  qed
qed (use branchD [OF assms(1)] assms(3) in auto)

lemma away_rmtree:
  assumes "''..'' \<notin> set rt" "x \<noteq> y" "''..'' \<notin> set (x # cs)"
  shows "keeps (away rt y g) (rmtree (rt @ x # cs) l im)"
proof (rule keeps_rmtree)
  show "q \<in> elsewhere rt y" if "prefix (rt @ x # cs) q" for q
    by (rule elsewhereI [OF assms(2)]) (use that in \<open>auto simp: prefix_def\<close>)
qed (use assms in \<open>auto simp: below_def\<close>)

lemma away_unlink:
  assumes "''..'' \<notin> set rt" "x \<noteq> y" "''..'' \<notin> set (x # cs)"
  shows "keeps (away rt y g) (unlink (rt @ x # cs))"
  by (rule keeps_unlink) (use assms in \<open>auto simp: below_def intro: elsewhereI\<close>)

lemma away_child:
  assumes "''..'' \<notin> set rt" "x \<noteq> y" "''..'' \<notin> set (x # cs)" "c \<noteq> ''..''"
  shows "keeps (away rt y g) (ensure_child_directory (rt @ x # cs) c l)"
  by (rule keeps_ensure_child) (use assms in \<open>auto simp: below_def intro: elsewhereI\<close>)

lemma away_writes:
  assumes "branch rt y g" "x \<noteq> y" "''..'' \<notin> set (x # cs)" "plain_names (map fst fl)"
  shows "keeps (away rt y g) (write_files (rt @ x # cs) fl)"
proof (rule keeps_write_files [OF _ _ assms(4)])
  show "q \<in> elsewhere rt y" if "strict_prefix (rt @ x # cs) q" for q
    by (rule elsewhereI [OF assms(2)]) (use that in \<open>auto simp: prefix_def strict_prefix_def\<close>)
  show "q \<in> elsewhere rt y \<or> g q = Some Dir" if "prefix q (rt @ x # cs)" "q \<noteq> []" for q
    by (rule way_elsewhere [OF assms(1,2) that])
qed (use assms branchD(1) [OF assms(1)] in \<open>auto simp: below_def\<close>)

lemma away_write:
  assumes "branch rt y g" "x \<noteq> y" "''..'' \<notin> set (x # cs)" "c \<notin> {[], ''..''}"
  shows "keeps (away rt y g) (atomic_write_bytes (rt @ x # cs @ [c]) b)"
proof (rule keeps_atomic_write)
  let ?p = "rt @ x # cs @ [c]"
  show "below rt ?p" using assms branchD(1) [OF assms(1)] by (auto simp: below_def)
  show "strict_prefix rt ?p" "last ?p \<noteq> []" using assms(4) by (auto simp: strict_prefix_def)
  show "?p \<in> elsewhere rt y" by (rule elsewhereI [OF assms(2)]) simp
  show "temp_paths ?p \<subseteq> elsewhere rt y"
    by (auto simp: temp_paths_def butlast_append intro!: elsewhereI [OF assms(2)])
  fix q assume q: "prefix q (butlast ?p)" "q \<noteq> []"
  from q(1) have "prefix q (rt @ x # cs)" by (simp add: butlast_append)
  then show "q \<in> elsewhere rt y \<or> g q = Some Dir" by (rule way_elsewhere [OF assms(1,2) _ q(2)])
qed

section \<open>Memories\<close>

text \<open>A memory of the store.\<close>

definition memory_of :: "path \<Rightarrow> resolved_memory \<Rightarrow> bool" where
  "memory_of rt r \<longleftrightarrow> store_root r = rt \<and> is_hex64 (rm_hash r) \<and> rm_directory r = rt @ [rm_hash r]"

lemma memory_ofI:
  "validate_resolved_memory r None = Inr () \<Longrightarrow> memory_of (store_root r) r"
  by (cases "rm_directory r" rule: rev_cases)
     (auto simp: validate_resolved_memory_def validate_memory_hash_def bindR_Inr_iff memory_of_def store_root_def Let_def)

lemma memory_ofD:
  assumes "memory_of rt r"
  shows "store_root r = rt" "rm_hash r \<noteq> []" "rm_hash r \<notin> {''.'', ''..'', ''.backups''}" "is_hex64 (rm_hash r)"
  using assms hex64_not_dot [of "rm_hash r"] by (auto simp: memory_of_def)

lemma away_lock_path:
  assumes "branch rt y g" "memory_of rt r"
  shows "keeps (away rt y g) (memory_lock_path r)" "keeps (away rt y g) (validate_lock_lease lease r)"
proof -
  show "keeps (away rt y g) (memory_lock_path r)"
    unfolding memory_lock_path_def ensure_safe_leaf_def Let_def memory_ofD(1) [OF assms(2)]
    by (intro keeps_bindI keeps_thenI keeps_see keeps_ite keeps_pure away_infrastructure [OF assms(1)])
       (use branchD(4) [OF assms(1)] in auto)
  then show "keeps (away rt y g) (validate_lock_lease lease r)"
    unfolding validate_lock_lease_def by (intro keeps_bindI keeps_thenI keeps_pure)
qed

lemma away_canonical:
  assumes "branch rt y g" "memory_of rt r" "rm_hash r \<noteq> y"
  shows "keeps (away rt y g) (canonical_directory r)"
  unfolding canonical_directory_def memory_ofD(1) [OF assms(2)]
  by (intro away_infrastructure [OF assms(1)]) (use memory_ofD [OF assms(2)] assms(3) in auto)

lemma canonical_result: "memory_of rt r \<Longrightarrow> canonical_directory r w = (Inr d, w') \<Longrightarrow> d = rt @ [rm_hash r]"
  by (auto simp: canonical_directory_def memory_of_def dest: ensure_infrastructure_result)

lemma away_ensure_memory:
  assumes "branch rt y g" "memory_of rt r" "rm_hash r \<noteq> y"
  shows "keeps (away rt y g) (ensure_memory_locked E r lease)"
  unfolding ensure_memory_locked_def
proof (intro keeps_thenI away_lock_path [OF assms(1,2)], rule keeps_bindI_res [where R = "\<lambda>d. d = rt @ [rm_hash r]"])
  show "keeps (away rt y g) (canonical_directory r)" by (rule away_canonical [OF assms])
  show "d = rt @ [rm_hash r]" if "canonical_directory r w = (Inr d, w')" for w d w' by (rule canonical_result [OF assms(2) that])
  fix d assume d: "d = rt @ [rm_hash r]"
  have "keeps (away rt y g) (atomic_write_bytes (rt @ rm_hash r # [] @ [''memory.md'']) [])"
    by (rule away_write [OF assms(1)]) (use memory_ofD [OF assms(2)] assms(3) in auto)
  then have "keeps (away rt y g) (atomic_write_bytes (d @ [''memory.md'']) [])" by (simp add: d)
  then show "keeps (away rt y g) (bindI (iterdir d) (\<lambda>names.
        thenI (whenI (names = []) (atomic_write_bytes (d @ [''memory.md'']) []))
          (bindI (read_canonical_files E d) (\<lambda>fl.
           thenI (assertI (fl \<noteq> []) (Exn CValueError ''memory must contain at least one markdown file''))
             (ret (make_snapshot E r fl))))))"
    by (intro keeps_bindI keeps_thenI keeps_iterdir keeps_whenI keeps_pure read_canonical_keeps)
qed

section \<open>Staging\<close>

text \<open>What is read from a directory can be written back: direct files with plain names.\<close>

lemma read_canonical_plain:
  assumes "clean rt (files w)" "prefix rt d" "below rt d" "read_canonical_files E d w = (Inr fl, w')"
  shows "plain_names (map fst fl)"
proof (cases "path_exists (files w) d")
  case False
  with assms(4) show ?thesis by (simp add: read_canonical_files_def plain_names_def)
next
  case True
  with assms(4) have "\<exists>u v. ensure_actual_directory d ''memory'' False w = (Inr u, v)"
    by (auto simp: read_canonical_files_def thenI_Inr_iff)
  then have "node_at (files w) d = Some Dir"
    using lstat_clean [OF assms(1,3)] by (auto simp: ensure_actual_directory_def thenI_apply split: option.splits node.splits)
  with read_canonical_files_result [OF assms(1-3) _ assms(4)] show ?thesis by blast
qed

lemma ensure_memory_result:
  assumes "memory_of rt r" "''..'' \<notin> set rt" "keeps (confined rt S g) (ensure_memory_locked E r lease)"
    and "confined rt S g w" "ensure_memory_locked E r lease w = (Inr s, w')"
  shows "plain_names (map fst (mn_files s))"
proof -
  note M = memory_ofD [OF assms(1)]
  have b: "below rt (rt @ [rm_hash r])" "prefix rt (rt @ [rm_hash r])" using assms(2) M(3) by (auto simp: below_def)
  from assms(5) obtain w1 d w2 fl w3 where c: "canonical_directory r w1 = (Inr d, w2)"
    and rd: "read_canonical_files E d w3 = (Inr fl, w')" and s: "s = make_snapshot E r fl"
    by (auto simp: ensure_memory_locked_def thenI_Inr_iff bindI_Inr_iff split: if_splits)
  from keepsD [OF assms(3-5)] have "clean rt (files w')" by (rule confined_clean)
  with read_canonical_state [OF rd] have "clean rt (files w3)" by simp
  from read_canonical_plain [OF this b(2,1)] rd canonical_result [OF assms(1) c] s show ?thesis
    by (simp add: make_snapshot_def)
qed

lemma away_stage_memory:
  assumes "branch rt y g" "memory_of rt r" "rm_hash r \<noteq> y"
  shows "keeps (away rt y g) (stage_memory_locked E r j lease)"
proof -
  let ?K = "away rt y g" and ?h = "rm_hash r"
  note M = memory_ofD [OF assms(2)] and rt = branchD(1) [OF assms(1)]
  have tail: "keeps ?K (bindI (see (\<lambda>fs. path_exists fs (d @ [i]))) (\<lambda>there.
        thenI (whenI there (thenI (ensure_actual_directory (d @ [i]) ''staging'' False) (rmtree (d @ [i]) ''staging'' False)))
          (thenI (ensure_child_directory d i ''staging'')
             (thenI (write_files (d @ [i]) (mn_files s))
                (ret \<lparr>mt_resolved = r, mt_job_id = j, mt_directory = d @ [i], mt_base_revision = mn_revision s\<rparr>)))))"
    if d: "d = rt @ [''.staging'', ?h]" and i: "i \<notin> {[], ''.'', ''..''}" and s: "plain_names (map fst (mn_files s))" for d i s
  proof -
    have "keeps ?K (rmtree (rt @ ''.staging'' # [?h, i]) ''staging'' False)"
      "keeps ?K (ensure_child_directory (rt @ ''.staging'' # [?h]) i ''staging'')"
      "keeps ?K (write_files (rt @ ''.staging'' # [?h, i]) (mn_files s))"
      using rt M(3) i s assms(1) branchD(4) [OF assms(1)] by (auto intro!: away_rmtree away_child away_writes)
    then show ?thesis unfolding d
      by (intro keeps_bindI keeps_see keeps_thenI keeps_whenI keeps_ensure_actual keeps_pure) simp_all
  qed
  note E = away_ensure_memory [OF assms, of E lease]
  show ?thesis
    unfolding stage_memory_locked_def Let_def M(1)
  proof (intro keeps_thenI away_lock_path [OF assms(1,2)], rule keeps_bindI_res [OF E, where R = "\<lambda>s. plain_names (map fst (mn_files s))"])
    show "plain_names (map fst (mn_files s))" if "?K w" "ensure_memory_locked E r lease w = (Inr s, w')" for w s w'
      by (rule ensure_memory_result [OF assms(2) rt E that])
    fix s :: memory_snapshot assume s: "plain_names (map fst (mn_files s))"
    show "keeps ?K (bindI (liftR (validate_job_id E j)) (\<lambda>safe_job_id.
        bindI (ensure_infrastructure_directory rt [''.staging'', ?h] ''staging'') (\<lambda>parent.
        bindI (see (\<lambda>fs. path_exists fs (parent @ [safe_job_id]))) (\<lambda>there.
        thenI (whenI there (thenI (ensure_actual_directory (parent @ [safe_job_id]) ''staging'' False)
                              (rmtree (parent @ [safe_job_id]) ''staging'' False)))
          (thenI (ensure_child_directory parent safe_job_id ''staging'')
             (thenI (write_files (parent @ [safe_job_id]) (mn_files s))
                (ret \<lparr>mt_resolved = r, mt_job_id = j, mt_directory = parent @ [safe_job_id],
                      mt_base_revision = mn_revision s\<rparr>)))))))"
    proof (rule keeps_bindI_res [OF keeps_pure(3), where R = "\<lambda>i. i \<notin> {[], ''.'', ''..''}"])
      show "i \<notin> {[], ''.'', ''..''}" if "liftR (validate_job_id E j) w = (Inr i, w')" for w i w'
        using that validated_plain [of E j i] by auto
      fix i :: string assume i: "i \<notin> {[], ''.'', ''..''}"
      have inf: "keeps ?K (ensure_infrastructure_directory rt [''.staging'', ?h] ''staging'')"
        by (rule away_infrastructure [OF assms(1)]) (use M(3) branchD(4) [OF assms(1)] in auto)
      show "keeps ?K (bindI (ensure_infrastructure_directory rt [''.staging'', ?h] ''staging'') (\<lambda>parent.
        bindI (see (\<lambda>fs. path_exists fs (parent @ [i]))) (\<lambda>there.
        thenI (whenI there (thenI (ensure_actual_directory (parent @ [i]) ''staging'' False)
                              (rmtree (parent @ [i]) ''staging'' False)))
          (thenI (ensure_child_directory parent i ''staging'')
             (thenI (write_files (parent @ [i]) (mn_files s))
                (ret \<lparr>mt_resolved = r, mt_job_id = j, mt_directory = parent @ [i],
                      mt_base_revision = mn_revision s\<rparr>))))))"
        by (rule keeps_bindI_res [OF inf, where R = "\<lambda>d. d = rt @ [''.staging'', ?h]"])
           (use ensure_infrastructure_result in fastforce, rule tail [OF _ i s])
    qed
  qed
qed

text \<open>Where the stage is.\<close>

definition stage_of :: "path \<Rightarrow> memory_stage \<Rightarrow> bool" where
  "stage_of rt t \<longleftrightarrow> memory_of rt (mt_resolved t) \<and>
     (\<exists>i. mt_directory t = rt @ [''.staging'', rm_hash (mt_resolved t), i] \<and> i \<notin> {[], ''.'', ''..''} \<and> mt_job_id t = i)"

lemma stage_memory_result:
  assumes "memory_of rt r" "stage_memory_locked E r j lease w = (Inr t, w')"
  shows "stage_of rt t \<and> mt_resolved t = r \<and> mt_job_id t = j"
proof -
  from assms obtain i where "validate_job_id E j = Inr i" "mt_directory t = rt @ [''.staging'', rm_hash r] @ [i]"
    "mt_resolved t = r" "mt_job_id t = j"
    by (auto simp: stage_memory_locked_def thenI_Inr_iff bindI_Inr_iff Let_def memory_ofD(1) [OF assms(1)]
        dest!: ensure_infrastructure_result)
  with assms(1) validated_job_id [of E j i] show ?thesis by (simp add: stage_of_def)
qed

section \<open>Transactions\<close>

lemma away_operation_path:
  assumes "branch rt y g" "memory_of rt r" "x \<noteq> y" "x \<noteq> ''..''"
  shows "keeps (away rt y g) (operation_path E x l ending rt (rm_hash r) oid)"
  unfolding operation_path_def
  by (intro keeps_thenI keeps_bindI keeps_pure away_infrastructure [OF assms(1)])
     (use assms(3,4) memory_ofD(3) [OF assms(2)] in auto)

lemma away_replace:
  assumes "branch rt y g" "memory_place rt h" "h \<noteq> y" "plain_names (map fst fl)"
  shows "keeps (away rt y g) (replace_canonical_files (rt @ [h]) fl)"
proof (rule away_wider [OF assms(1)])
  show "replace_region rt h \<subseteq> elsewhere rt y"
  proof
    fix q assume "q \<in> replace_region rt h"
    then have "prefix (rt @ [h]) q \<or> prefix (rt @ [''.backups'']) q" by (auto simp: replace_region_def strict_prefix_def)
    moreover have "''.backups'' \<noteq> y" using branchD(4) [OF assms(1)] by auto
    ultimately show "q \<in> elsewhere rt y" using elsewhereI assms(3) by blast
  qed
qed (rule keeps_replace_canonical [OF assms(2) _ assms(4)])

lemma transaction_paths:
  assumes "transaction_at rt h op"
  obtains j b s where "tx_journal_path op = rt @ [''.journals'', h, j]" "tx_backup_path op = rt @ [''.publication-backups'', h, b]"
    "tx_stage_directory op = rt @ [''.staging'', h, s]" "''..'' \<notin> {h, j, b, s}" "j \<noteq> []" "b \<noteq> []"
  using assms by (auto simp: transaction_at_def memory_place_def)

lemma away_journal:
  assumes "branch rt y g" "transaction_at rt h op"
  shows "keeps (away rt y g) (write_transaction_journal P op phase)"
proof -
  obtain j b s where p: "tx_journal_path op = rt @ [''.journals'', h, j]" "''..'' \<notin> {h, j, b, s}" "j \<noteq> []"
    by (rule transaction_paths [OF assms(2)])
  have "keeps (away rt y g) (atomic_write_bytes (rt @ ''.journals'' # [h] @ [j]) c)" for c
    by (rule away_write [OF assms(1)]) (use p branchD(4) [OF assms(1)] in auto)
  then show ?thesis by (simp add: write_transaction_journal_def atomic_write_text_def p)
qed

lemma away_backup:
  assumes "branch rt y g" "transaction_at rt h op"
  shows "keeps (away rt y g) (write_backup (tx_backup_path op) (tx_old_files op))"
proof -
  obtain j b s where p: "tx_backup_path op = rt @ [''.publication-backups'', h, b]" "''..'' \<notin> {h, j, b, s}"
    by (rule transaction_paths [OF assms(2)])
  note rt = branchD(1) [OF assms(1)]
  have rm: "keeps (away rt y g) (rmtree (tx_backup_path op) ''backup'' False)"
    unfolding p(1) by (rule away_rmtree [OF rt]) (use p branchD(4) [OF assms(1)] in auto)
  have ch: "keeps (away rt y g) (ensure_child_directory (rt @ ''.publication-backups'' # [h]) b ''backup'')"
    by (rule away_child [OF rt]) (use p branchD(4) [OF assms(1)] in auto)
  have wr: "keeps (away rt y g) (write_files (rt @ ''.publication-backups'' # [h, b]) (tx_old_files op))"
    by (rule away_writes [OF assms(1)]) (use p transaction_atD(4) [OF assms(2)] branchD(4) [OF assms(1)] in auto)
  have e: "butlast (tx_backup_path op) = rt @ [''.publication-backups'', h]" "name_of (tx_backup_path op) = b"
    by (simp_all add: p butlast_append name_of_def)
  show ?thesis
    unfolding write_backup_def e
    by (intro keeps_bindI [OF keeps_see] keeps_thenI keeps_whenI rm,
        rule keeps_bindI_res [OF ch, where R = "\<lambda>x. x = rt @ [''.publication-backups'', h, b]"])
       (use wr in \<open>auto dest: ensure_child_result\<close>)
qed

text \<open>Preparing and cleaning up a direct save.\<close>

interpretation away: transaction_area rt h "\<lambda>w. (branch rt y g \<and> h \<noteq> ''..'') \<and> away rt y g w" for rt h y g
proof
  have outer: "x \<noteq> y \<and> x \<noteq> ''..'' \<and> ''..'' \<notin> set rt" if "branch rt y g" "x \<in> set outer_directories" for x
    using that by (auto simp: branch_def outer_directories_def)
  fix x :: string and zs :: path and n l :: string and im :: bool and fl :: memory_files
  assume x: "x \<in> set outer_directories"
  show "keeps (\<lambda>w. (branch rt y g \<and> h \<noteq> ''..'') \<and> away rt y g w) (operation_path E x label ending rt h oid)" for E label ending oid
    unfolding operation_path_def
    by (rule keeps_if, intro keeps_thenI keeps_bindI keeps_pure away_infrastructure) (use outer [OF _ x] in auto)
  {
    assume z: "''..'' \<notin> set zs"
    show "keeps (\<lambda>w. (branch rt y g \<and> h \<noteq> ''..'') \<and> away rt y g w) (rmtree (rt @ x # zs) l im)"
      by (rule keeps_if, rule away_rmtree) (use outer [OF _ x] z in auto)
    show "keeps (\<lambda>w. (branch rt y g \<and> h \<noteq> ''..'') \<and> away rt y g w) (unlink (rt @ x # zs))"
      by (rule keeps_if, rule away_unlink) (use outer [OF _ x] z in auto)
    show "keeps (\<lambda>w. (branch rt y g \<and> h \<noteq> ''..'') \<and> away rt y g w) (write_files (rt @ x # zs) fl)" if "plain_names (map fst fl)"
      by (rule keeps_if, rule away_writes) (use outer [OF _ x] z that in auto)
  }
  show "keeps (\<lambda>w. (branch rt y g \<and> h \<noteq> ''..'') \<and> away rt y g w) (ensure_child_directory (rt @ x # zs) n l)" if "''..'' \<notin> set (zs @ [n])"
    by (rule keeps_if, rule away_child) (use outer [OF _ x] that in auto)
qed

lemma away_prepare_direct:
  assumes "branch rt y g" "memory_of rt r" "plain_names (map fst new)"
  shows "keeps (away rt y g) (prepare_direct_transaction P r old new)"
  by (rule keeps_imp [OF away.prepare_keeps [OF _ _ assms(3)]]) (use assms(1) memory_ofD [OF assms(2)] in auto)

lemma away_cleanup:
  assumes "branch rt y g" "transaction_at rt h op"
  shows "keeps (away rt y g) (cleanup_paths (tx_journal_path op) (tx_backup_path op) (tx_stage_directory op))"
  by (rule keeps_imp [OF away.cleanup_keeps [OF assms(2)]]) (use assms in \<open>auto simp: transaction_at_def memory_place_def\<close>)

lemma away_transaction:
  assumes "branch rt y g" "transaction_at rt h op" "memory_of rt (tx_resolved op)" "h \<noteq> y"
  shows "keeps (away rt y g) (run_transaction_locked P op c fa)"
    and "keeps (away rt y g) (bindI (canonical_directory (tx_resolved op)) (\<lambda>d. replace_canonical_files d (tx_old_files op)))"
proof -
  let ?K = "away rt y g"
  note T = transaction_atD [OF assms(2)]
  have h: "h \<noteq> y" by (rule assms(4))
  have J: "keeps ?K (write_transaction_journal P op ph)" for ph by (rule away_journal [OF assms(1,2)])
  have C: "keeps ?K (canonical_directory (tx_resolved op))" by (rule away_canonical [OF assms(1,3)]) (use T(3) h in auto)
  have R: "keeps ?K (bindI (canonical_directory (tx_resolved op)) (\<lambda>d. replace_canonical_files d fl))"
    if "plain_names (map fst fl)" for fl
    by (rule keeps_bindI_res [OF C, where R = "\<lambda>d. d = rt @ [h]"])
       (use away_replace [OF assms(1) T(1) h that] canonical_result [OF assms(3)] T(3) in auto)
  show "keeps ?K (run_transaction_locked P op c fa)"
    unfolding run_transaction_locked_def Let_def
    by (intro keeps_bindI [OF C] keeps_bindI [OF read_canonical_keeps] keeps_thenI keeps_ite keeps_publish_tail keeps_crash_point
        J R T(5) away_backup [OF assms(1,2)] keeps_pure)
  show "keeps ?K (bindI (canonical_directory (tx_resolved op)) (\<lambda>d. replace_canonical_files d (tx_old_files op)))"
    by (rule R [OF T(4)])
qed

text \<open>A direct save, with its rollback.\<close>

lemma away_save_direct:
  assumes "branch rt y g" "memory_of rt r" "rm_hash r \<noteq> y" "plain_names (map fst (mn_files current))" "plain_names (map fst new)"
  shows "keeps (away rt y g) (save_direct_locked P r current new lease)"
proof -
  let ?K = "away rt y g" and ?op = "\<lambda>op. transaction_at rt (rm_hash r) op \<and> tx_job_path op = None \<and> tx_job_store op = None \<and> tx_resolved op = r"
  note M = memory_ofD [OF assms(2)] and lease = away_lock_path(2) [OF assms(1,2)]
  have d: "rm_directory r = rt @ [rm_hash r]" using assms(2) by (simp add: memory_of_def)
  have tail: "keeps ?K (thenI (tryI (run_transaction_locked P op None False)
                 (\<lambda>e. if caught_by [CPublicationCrash] e then raise (publication_error (exn_text e))
                      else thenI (rollback_failed_transaction P op e (Some lease) False) (raise (publication_error (exn_text e)))))
          (thenI (cleanup_paths (tx_journal_path op) (tx_backup_path op) (tx_stage_directory op))
             (ret (make_snapshot (pe_memory P) r new))))" if op: "?op op" for op
  proof -
    have t: "transaction_at rt (rm_hash r) op" "memory_of rt (tx_resolved op)" using op assms(2) by auto
    note T = away_transaction [OF assms(1) t assms(3)] and C = away_cleanup [OF assms(1) t(1)]
    have "keeps ?K (rollback_failed_transaction P op e (Some lease) False)" for e
      using op T(2) C unfolding rollback_failed_transaction_def under_lock_def
      by (auto intro!: keeps_thenI keeps_pure simp del: io_apply)
    then show ?thesis by (intro keeps_thenI keeps_tryI keeps_ite T(1) C keeps_pure)
  qed
  show ?thesis
    unfolding save_direct_locked_def
    by (intro keeps_thenI lease, rule keeps_bindI_res [OF away_prepare_direct [OF assms(1,2,5)], where R = ?op, OF _ tail])
       (use prepare_direct_result [OF _ d refl branchD(1) [OF assms(1)] assms(4,5)] in blast)
qed

section \<open>The file of a lock\<close>

lemma away_lock_file:
  assumes "branch rt y g" "''..'' \<notin> set [x, c]" "x \<noteq> y"
  shows "keeps (away rt y g) (mkdir_p (butlast (rt @ [x, c])))" "keeps (away rt y g) (open_append (rt @ [x, c]))"
proof -
  note rt = branchD(1) [OF assms(1)]
  show "keeps (away rt y g) (mkdir_p (butlast (rt @ [x, c])))"
  proof (rule keeps_mkdir_path)
    show "below rt (butlast (rt @ [x, c]))" using rt assms(2) by (auto simp: below_def butlast_append)
    fix q assume q: "prefix q (butlast (rt @ [x, c]))" "q \<noteq> []"
    from q(1) have "prefix q (rt @ x # [])" by (simp add: butlast_append)
    then show "q \<in> elsewhere rt y \<or> g q = Some Dir" by (rule way_elsewhere [OF assms(1,3) _ q(2)])
  qed
  show "keeps (away rt y g) (open_append (rt @ [x, c]))"
    by (rule keeps_open_append) (use rt assms(2) in \<open>auto simp: below_def intro!: elsewhereI [OF assms(3)]\<close>)
qed

end
