(* ===== verification/JobNeighbours.thy ===== *)
theory JobNeighbours
  imports LaunchView StoreBranches
begin

text \<open>
  The operations that surround a job record in the memory store - locks, memories, stages, journals, backups,
  retained artifacts and launch views - never touch the record: each stays in the paths beside it, whatever fails.
\<close>

section \<open>Beside a job\<close>

text \<open>The paths of the store that do not lead to the record \<open>p\<close>.\<close>

definition aside :: "path \<Rightarrow> path \<Rightarrow> path set" where
  "aside rt p = {q. strict_prefix rt q \<and> \<not> prefix q p}"

text \<open>A record of the store \<open>rt\<close>, and a file system in which the way to it is there.\<close>

definition job_record_at :: "path \<Rightarrow> string \<Rightarrow> string \<Rightarrow> path" where
  "job_record_at rt n f = rt @ [''.jobs'', n, f]"

definition job_setting :: "path \<Rightarrow> string \<Rightarrow> string \<Rightarrow> (path \<Rightarrow> node option) \<Rightarrow> bool" where
  "job_setting rt n f g \<longleftrightarrow> ''..'' \<notin> set rt \<and> n \<noteq> ''..'' \<and> f \<notin> {[], ''..''} \<and>
     (\<forall>q. strict_prefix q (job_record_at rt n f) \<longrightarrow> g q = Some Dir)"

abbreviation besides :: "path \<Rightarrow> string \<Rightarrow> string \<Rightarrow> (path \<Rightarrow> node option) \<Rightarrow> world \<Rightarrow> bool" where
  "besides rt n f g \<equiv> confined rt (aside rt (job_record_at rt n f)) g"

lemma job_settingD:
  assumes "job_setting rt n f g"
  shows "''..'' \<notin> set rt" "root_there rt g" "g rt = Some Dir"
proof -
  have q: "strict_prefix q (job_record_at rt n f)" if "prefix q rt" for q
    using that by (auto simp: job_record_at_def strict_prefix_def prefix_def)
  show "''..'' \<notin> set rt" using assms by (simp add: job_setting_def)
  show "root_there rt g" "g rt = Some Dir" using assms q by (simp_all add: job_setting_def root_there_def)
qed

lemma root_not_aside [simp]: "rt \<notin> aside rt p" "prefix q rt \<Longrightarrow> q \<notin> aside rt p"
  by (auto simp: aside_def strict_prefix_def dest: prefix_order.antisym)

lemma record_not_aside: "prefix q p \<Longrightarrow> q \<notin> aside rt p"
  by (simp add: aside_def)

lemma asideI: "x \<noteq> ''.jobs'' \<Longrightarrow> prefix (rt @ [x]) q \<Longrightarrow> q \<in> aside rt (job_record_at rt n f)"
  by (auto simp: aside_def job_record_at_def strict_prefix_def prefix_def)

lemma way_aside:
  assumes "job_setting rt n f g" "x \<noteq> ''.jobs''" "prefix q (rt @ x # cs)"
  shows "q \<in> aside rt (job_record_at rt n f) \<or> g q = Some Dir"
proof -
  from prefix_below_cases [OF assms(3)] show ?thesis
  proof
    assume "prefix q rt"
    then have "strict_prefix q (job_record_at rt n f)" by (auto simp: job_record_at_def strict_prefix_def prefix_def)
    with assms(1) show ?thesis by (simp add: job_setting_def)
  next
    assume "\<exists>ds. ds \<noteq> [] \<and> q = rt @ ds \<and> prefix ds (x # cs)"
    then have "prefix (rt @ [x]) q" by (auto simp: prefix_Cons)
    with assms(2) show ?thesis by (auto intro: asideI)
  qed
qed

text \<open>What stays in a smaller region stays beside the job.\<close>

lemma besides_wider:
  assumes "job_setting rt n f g" "S \<subseteq> aside rt (job_record_at rt n f)"
    and "\<And>g. root_there rt g \<Longrightarrow> keeps (confined rt S g) m"
  shows "keeps (besides rt n f g) m"
  unfolding keeps_def
proof (intro allI impI)
  fix w assume w: "besides rt n f g w"
  then have "node_at (files w) q = g q" if "prefix q rt" for q using that by (simp add: confined_def)
  with job_settingD(2) [OF assms(1)] have "root_there rt (node_at (files w))" by (simp add: root_there_def)
  from assms(3) [OF this] w have "confined rt S (node_at (files w)) (snd (m w))"
    using confined_self [of rt w S] by (simp add: keeps_def confined_def)
  with w assms(2) show "besides rt n f g (snd (m w))" by (auto simp: confined_def)
qed


text \<open>The operations on memories stay out of the branch of the jobs.\<close>

lemma besides_away:
  assumes "job_setting rt n f g" "\<And>g. branch rt ''.jobs'' g \<Longrightarrow> keeps (away rt ''.jobs'' g) m"
  shows "keeps (besides rt n f g) m"
proof (rule besides_wider [OF assms(1)])
  show "elsewhere rt ''.jobs'' \<subseteq> aside rt (job_record_at rt n f)"
    by (auto simp: elsewhere_def aside_def job_record_at_def strict_prefix_def prefix_def append_eq_append_conv2 Cons_eq_append_conv)
qed (rule assms(2), use job_settingD(1) [OF assms(1)] in \<open>simp add: branch_def\<close>)

lemma hash_not_jobs: "memory_of rt r \<Longrightarrow> rm_hash r \<noteq> ''.jobs''"
  using memory_ofD(4) hex64_not_dot(1) by blast

lemma besides_lock_path:
  assumes "job_setting rt n f g" "memory_of rt r"
  shows "keeps (besides rt n f g) (memory_lock_path r)" "keeps (besides rt n f g) (validate_lock_lease lease r)"
  by (rule besides_away [OF assms(1)], rule away_lock_path [OF _ assms(2)], assumption)+

lemma besides_canonical:
  "job_setting rt n f g \<Longrightarrow> memory_of rt r \<Longrightarrow> keeps (besides rt n f g) (canonical_directory r)"
  by (rule besides_away, assumption, rule away_canonical, assumption+, rule hash_not_jobs)

lemma besides_ensure_memory:
  "job_setting rt n f g \<Longrightarrow> memory_of rt r \<Longrightarrow> keeps (besides rt n f g) (ensure_memory_locked E r lease)"
  by (rule besides_away, assumption, rule away_ensure_memory, assumption+, rule hash_not_jobs)

lemma besides_stage_memory:
  "job_setting rt n f g \<Longrightarrow> memory_of rt r \<Longrightarrow> keeps (besides rt n f g) (stage_memory_locked E r j lease)"
  by (rule besides_away, assumption, rule away_stage_memory, assumption+, rule hash_not_jobs)

lemma besides_operation_path:
  "job_setting rt n f g \<Longrightarrow> memory_of rt r \<Longrightarrow> x \<noteq> ''.jobs'' \<Longrightarrow> x \<noteq> ''..'' \<Longrightarrow>
    keeps (besides rt n f g) (operation_path E x l ending rt (rm_hash r) oid)"
  by (rule besides_away) (auto intro: away_operation_path)

lemma besides_cleanup:
  "job_setting rt n f g \<Longrightarrow> transaction_at rt h op \<Longrightarrow>
    keeps (besides rt n f g) (cleanup_paths (tx_journal_path op) (tx_backup_path op) (tx_stage_directory op))"
  by (rule besides_away) (auto intro: away_cleanup)

lemma besides_transaction:
  assumes "job_setting rt n f g" "transaction_at rt h op" "memory_of rt (tx_resolved op)"
  shows "keeps (besides rt n f g) (run_transaction_locked P op c fa)"
    and "keeps (besides rt n f g) (bindI (canonical_directory (tx_resolved op)) (\<lambda>d. replace_canonical_files d (tx_old_files op)))"
proof -
  have "h \<noteq> ''.jobs''" using hash_not_jobs [OF assms(3)] transaction_atD(3) [OF assms(2)] by auto
  note T = away_transaction [OF _ assms(2,3) this]
  show "keeps (besides rt n f g) (run_transaction_locked P op c fa)"
    and "keeps (besides rt n f g) (bindI (canonical_directory (tx_resolved op)) (\<lambda>d. replace_canonical_files d (tx_old_files op)))"
    by (rule besides_away [OF assms(1) T(1)] besides_away [OF assms(1) T(2)], assumption)+
qed

section \<open>Beside the record, in the directory of its group\<close>

lemma aside_groupI:
  assumes "x \<noteq> f" "prefix (rt @ [''.jobs'', n, x]) q"
  shows "q \<in> aside rt (job_record_at rt n f)"
  using assms by (auto simp: aside_def job_record_at_def strict_prefix_def prefix_def)

lemma way_group:
  assumes "job_setting rt n f g" "x \<noteq> f" "prefix q (rt @ [''.jobs'', n] @ x # cs)"
  shows "q \<in> aside rt (job_record_at rt n f) \<or> g q = Some Dir"
proof -
  from prefix_below_cases [of q "rt @ [''.jobs'', n]" "x # cs"] assms(3) consider
    "prefix q (rt @ [''.jobs'', n])" | ds where "ds \<noteq> []" "q = rt @ [''.jobs'', n] @ ds" "prefix ds (x # cs)" by auto
  then show ?thesis
  proof cases
    case 1
    then have "strict_prefix q ((rt @ [''.jobs'', n]) @ [f])" by (rule strict_prefix_snoc)
    then have "strict_prefix q (job_record_at rt n f)" by (simp add: job_record_at_def)
    with assms(1) show ?thesis by (simp add: job_setting_def)
  next
    case 2
    then have "prefix (rt @ [''.jobs'', n, x]) q" by (auto simp: prefix_Cons)
    with assms(2) show ?thesis by (auto intro: aside_groupI)
  qed
qed

lemma group_below:
  "job_setting rt n f g \<Longrightarrow> ''..'' \<notin> set cs \<Longrightarrow> below rt (rt @ [''.jobs'', n] @ cs)"
  by (auto simp: job_setting_def below_def)

text \<open>Retaining the stage of a failed job.\<close>

lemma keeps_artifact_actual [keeps_intros]: "keeps K (artifact_actual_directory p l)"
  by (auto simp: artifact_actual_directory_def intro!: keeps_intros split: option.splits node.splits)

lemma artifact_actual_result: "artifact_actual_directory p l w = (Inr x, w') \<Longrightarrow> x = p"
  by (auto simp: artifact_actual_directory_def split: option.split_asm node.split_asm)

lemma keeps_artifact_child:
  "below rt (p @ [c]) \<Longrightarrow> p @ [c] \<in> S \<Longrightarrow> keeps (confined rt S g) (artifact_child_directory p c l)"
  unfolding artifact_child_directory_def Let_def
  by (intro keeps_bindI keeps_see keeps_thenI keeps_whenI keeps_os_mkdir keeps_artifact_actual)

lemma artifact_child_result: "artifact_child_directory p c l w = (Inr x, w') \<Longrightarrow> x = p @ [c]"
  by (auto simp: artifact_child_directory_def Let_def thenI_Inr_iff dest: artifact_actual_result)

lemma keeps_artifact_rmtree:
  assumes "prefix rt p" "below rt p" "\<And>q. prefix p q \<Longrightarrow> q \<in> S"
  shows "keeps (confined rt S g) (artifact_rmtree k p l)"
  using assms
proof (induction k arbitrary: p)
  case 0
  show ?case unfolding artifact_rmtree.simps by (rule keeps_pure)
next
  case (Suc k)
  have one: "keeps (confined rt S g) (bindI (see (\<lambda>fs. lstat_node fs (p @ [c]))) (\<lambda>entry.
      if is_link entry then raise (artifact_error (''unsafe '' @ l @ '' entry: '' @ path_str (p @ [c])))
      else if entry = Some Dir then artifact_rmtree k (p @ [c]) l
      else unlink (p @ [c])))" if "c \<noteq> ''..''" for c
  proof -
    have b: "below rt (p @ [c])" "prefix rt (p @ [c])" using below_append [OF Suc.prems(2,1) that] Suc.prems(1) by simp_all
    have S: "q \<in> S" if "prefix (p @ [c]) q" for q using that Suc.prems(3) by (metis append_prefixD)
    from Suc.IH [OF b(2,1)] S have "keeps (confined rt S g) (artifact_rmtree k (p @ [c]) l)" by blast
    with b S show ?thesis by (intro keeps_bindI keeps_see keeps_ite keeps_pure keeps_unlink) auto
  qed
  show ?case
    unfolding artifact_rmtree.simps
    by (intro keeps_thenI keeps_artifact_actual keeps_bindI_res [OF keeps_iterdir, where R = "\<lambda>ns. \<forall>c\<in>set ns. c \<noteq> ''..''"]
        keeps_forI one keeps_rmdir)
       (use Suc.prems in \<open>auto dest: iterdir_names\<close>)
qed

lemma stage_entries_plain:
  "stage_entries E d ns w = (Inr fl, w') \<Longrightarrow> w' = w \<and> (\<forall>c\<in>fst ` set fl. c \<notin> {[], ''..''})"
proof (induction ns arbitrary: fl)
  case (Cons c ns)
  then obtain b rest where "read_bytes (d @ [c]) w = (Inr b, w)" "stage_entries E d ns w = (Inr rest, w')"
    "fl = (c, b) # rest" "validate_stage_filename E c = Inr ()"
    by (auto simp: bindI_Inr_iff thenI_Inr_iff read_bytes_Inr_iff split: if_splits)
  with Cons.IH [of rest] show ?case by (auto simp: validate_stage_filename_def bindR_Inr_iff)
qed simp

lemma keeps_stage_entries [keeps_intros]: "keeps K (stage_entries E d ns)"
  by (induction ns) (auto intro!: keeps_intros simp del: io_apply bindI_see)

lemma keeps_read_stage [keeps_intros]: "keeps K (read_stage_files E d)"
  unfolding read_stage_files_def by (intro keeps_bindI keeps_iterdir keeps_stage_entries)

lemma besides_store_artifact:
  assumes "job_setting rt n f g" "f \<noteq> ''artifacts''" "i \<noteq> ''..''" "fst a \<notin> {[], ''..''}"
  shows "keeps (besides rt n f g) (store_artifact (rt @ [''.jobs'', n] @ [''artifacts'', i]) a)"
proof -
  let ?p = "rt @ [''.jobs'', n] @ [''artifacts'', i, fst a]"
  have x: "''artifacts'' \<noteq> f" using assms(2) by simp
  have "keeps (besides rt n f g) (atomic_write_bytes ?p b)" for b
  proof (rule keeps_atomic_write)
    show "below rt ?p" by (rule group_below [OF assms(1)]) (use assms(3,4) in auto)
    show "strict_prefix rt ?p" "last ?p \<noteq> []" using assms(4) by (auto simp: strict_prefix_def)
    show "?p \<in> aside rt (job_record_at rt n f)" by (rule aside_groupI [OF x]) simp
    show "temp_paths ?p \<subseteq> aside rt (job_record_at rt n f)"
      by (auto simp: temp_paths_def butlast_append intro!: aside_groupI [OF x])
    fix q assume "prefix q (butlast ?p)"
    then have "prefix q (rt @ [''.jobs'', n] @ ''artifacts'' # [i])" by (simp add: butlast_append)
    then show "q \<in> aside rt (job_record_at rt n f) \<or> g q = Some Dir" by (rule way_group [OF assms(1) x])
  qed
  then have "keeps (besides rt n f g) (atomic_write_bytes ((rt @ [''.jobs'', n] @ [''artifacts'', i]) @ [fst a]) (snd a))" by simp
  then show ?thesis unfolding store_artifact_def split_def by (intro keeps_thenI keeps_see)
qed

lemma besides_retain:
  assumes "job_setting rt n f g" "f \<noteq> ''artifacts''"
  shows "keeps (besides rt n f g) (retain_failed_stage E (rt @ [''.jobs'', n]) j stage diff)"
proof -
  let ?K = "besides rt n f g" and ?G = "rt @ [''.jobs'', n]"
  have x: "''artifacts'' \<noteq> f" using assms(2) by simp
  have gb: "below rt ?G" using group_below [OF assms(1), of "[]"] by simp
  have artifacts: "keeps ?K (artifact_child_directory ?G ''artifacts'' ''artifacts'')"
    by (rule keeps_artifact_child) (use group_below [OF assms(1), of "[''artifacts'']"] in \<open>auto intro!: aside_groupI [OF x]\<close>)
  have finish: "keeps ?K (bindI (mapI (store_artifact (?G @ [''artifacts'', i])) fl) (\<lambda>artifacts.
       case diff of None \<Rightarrow> ret artifacts
       | Some d \<Rightarrow> bindI (store_artifact (?G @ [''artifacts'', i]) (''memory.diff'', d)) (\<lambda>a. ret (artifacts @ [a]))))"
    if "\<forall>c\<in>fst ` set fl. c \<notin> {[], ''..''}" "i \<noteq> ''..''" for fl i
    using besides_store_artifact [OF assms that(2)] that(1)
    by (intro keeps_bindI keeps_mapI) (auto split: option.split intro!: keeps_bindI keeps_pure simp del: io_apply)
  have entries: "keeps ?K (bindI (read_stage_files E s) (\<lambda>fl. bindI (mapI (store_artifact (?G @ [''artifacts'', i])) fl) (\<lambda>artifacts.
       case diff of None \<Rightarrow> ret artifacts
       | Some d \<Rightarrow> bindI (store_artifact (?G @ [''artifacts'', i]) (''memory.diff'', d)) (\<lambda>a. ret (artifacts @ [a])))))"
    if i: "i \<noteq> ''..''" for s i
    by (rule keeps_bindI_res [OF keeps_read_stage, where R = "\<lambda>fl. \<forall>c\<in>fst ` set fl. c \<notin> {[], ''..''}", OF _ finish [OF _ i]])
       (unfold read_stage_files_def bindI_Inr_iff, blast dest: stage_entries_plain)
  have target: "keeps ?K (bindI (artifact_child_directory (?G @ [''artifacts'']) i ''artifacts'') (\<lambda>target.
     bindI (artifact_actual_directory stage ''artifacts'') (\<lambda>s.
     bindI (read_stage_files E s) (\<lambda>fl.
     bindI (mapI (store_artifact target) fl) (\<lambda>artifacts.
     case diff of None \<Rightarrow> ret artifacts
     | Some d \<Rightarrow> bindI (store_artifact target (''memory.diff'', d)) (\<lambda>a. ret (artifacts @ [a])))))))"
    if i: "i \<noteq> ''..''" for i
  proof (rule keeps_bindI_res [where R = "\<lambda>t. t = ?G @ [''artifacts'', i]"])
    show "keeps ?K (artifact_child_directory (?G @ [''artifacts'']) i ''artifacts'')"
      by (rule keeps_artifact_child)
         (use group_below [OF assms(1), of "[''artifacts'', i]"] i in \<open>auto intro!: aside_groupI [OF x]\<close>)
    show "t = ?G @ [''artifacts'', i]" if "artifact_child_directory (?G @ [''artifacts'']) i ''artifacts'' w = (Inr t, w')" for t w w'
      using artifact_child_result [OF that] by simp
  next
    fix t assume "t = ?G @ [''artifacts'', i]"
    with entries [OF i] show "keeps ?K (bindI (artifact_actual_directory stage ''artifacts'') (\<lambda>s.
       bindI (read_stage_files E s) (\<lambda>fl.
       bindI (mapI (store_artifact t) fl) (\<lambda>artifacts.
       case diff of None \<Rightarrow> ret artifacts
       | Some d \<Rightarrow> bindI (store_artifact t (''memory.diff'', d)) (\<lambda>a. ret (artifacts @ [a]))))))"
      by (simp only: keeps_bindI [OF keeps_artifact_actual])
  qed
  have rm: "keeps ?K (artifact_rmtree k (?G @ [''artifacts'', i]) l)" if "i \<noteq> ''..''" for k i l
    by (rule keeps_artifact_rmtree)
       (use group_below [OF assms(1), of "[''artifacts'', i]"] that in \<open>auto intro!: aside_groupI [OF x] simp: prefix_def\<close>)
  show ?thesis
    unfolding retain_failed_stage_def Let_def
  proof (rule keeps_bindI_res [where R = "\<lambda>st. st = ?G"])
    show "keeps ?K (artifact_job_store ?G)"
      unfolding artifact_job_store_def by (auto intro!: keeps_intros simp del: io_apply bindI_see)
    show "st = ?G" if "?K w" "artifact_job_store ?G w = (Inr st, w')" for w st w'
      using that resolve_clean [OF _ gb, of "files w"]
      by (auto simp: artifact_job_store_def thenI_Inr_iff confined_def split: if_splits)
    fix st assume st: "st = ?G"
    show "keeps ?K (bindI (liftR (artifact_job_id E j)) (\<lambda>safe.
     bindI (artifact_child_directory st ''artifacts'' ''artifacts'') (\<lambda>artifacts_root.
     bindI (see (\<lambda>fs. (path_exists fs (artifacts_root @ [safe]), length fs))) (\<lambda>(there, n).
     thenI (whenI there (artifact_rmtree (Suc n) (artifacts_root @ [safe]) ''artifacts''))
     (bindI (artifact_child_directory artifacts_root safe ''artifacts'') (\<lambda>target.
     bindI (artifact_actual_directory stage ''artifacts'') (\<lambda>stage_root.
     bindI (read_stage_files E stage_root) (\<lambda>fl.
     bindI (mapI (store_artifact target) fl) (\<lambda>artifacts.
     case diff of None \<Rightarrow> ret artifacts
     | Some diff \<Rightarrow> bindI (store_artifact target (''memory.diff'', diff)) (\<lambda>a. ret (artifacts @ [a])))))))))))"
      unfolding st
    proof (rule keeps_bindI_res [OF keeps_pure(3), where R = "\<lambda>i. i \<noteq> ''..''"],
           force simp: artifact_job_id_def bindR_Inr_iff Let_def,
           rule keeps_bindI_res [OF artifacts, where R = "\<lambda>a. a = ?G @ [''artifacts'']"])
      fix i a :: "string" and r :: path assume i: "i \<noteq> ''..''" and r: "r = ?G @ [''artifacts'']"
      show "keeps ?K (bindI (see (\<lambda>fs. (path_exists fs (r @ [i]), length fs))) (\<lambda>(there, n).
       thenI (whenI there (artifact_rmtree (Suc n) (r @ [i]) ''artifacts''))
       (bindI (artifact_child_directory r i ''artifacts'') (\<lambda>target.
       bindI (artifact_actual_directory stage ''artifacts'') (\<lambda>stage_root.
       bindI (read_stage_files E stage_root) (\<lambda>fl.
       bindI (mapI (store_artifact target) fl) (\<lambda>artifacts.
       case diff of None \<Rightarrow> ret artifacts
       | Some diff \<Rightarrow> bindI (store_artifact target (''memory.diff'', diff)) (\<lambda>a. ret (artifacts @ [a])))))))))"
        using target [OF i] rm [OF i] unfolding r
        by (intro keeps_bindI [OF keeps_see]) (auto intro!: keeps_thenI keeps_whenI simp del: io_apply artifact_rmtree.simps)
    qed (auto dest: artifact_child_result)
  qed
qed

text \<open>The launch view of a job has a directory of its own.\<close>

lemma besides_launch_view:
  assumes "job_setting rt n f g" "x \<notin> {f, ''..''}"
  shows "keeps (besides rt n f g) (create_launch_view key artifact (rt @ [''.jobs'', n] @ [x, ''launch'']))"
proof (rule keeps_create_launch_view)
  show "below rt (rt @ [''.jobs'', n] @ [x, ''launch''])" by (rule group_below [OF assms(1)]) (use assms(2) in auto)
  show "q \<in> aside rt (job_record_at rt n f)" if "prefix (rt @ [''.jobs'', n] @ [x, ''launch'']) q" for q
    by (rule aside_groupI [of x]) (use that assms(2) in \<open>auto simp: prefix_def\<close>)
  show "q \<in> aside rt (job_record_at rt n f) \<or> g q = Some Dir" if "prefix q (rt @ [''.jobs'', n] @ [x, ''launch''])" for q
    by (rule way_group [OF assms(1)]) (use that assms(2) in auto)
qed simp

section \<open>Preparing a publication\<close>

text \<open>What is prepared for the record is a transaction of its memory, and the job is the record.\<close>

definition prepared_at :: "path \<Rightarrow> string \<Rightarrow> string \<Rightarrow> memory_stage \<Rightarrow> prepared_publication \<Rightarrow> bool" where
  "prepared_at rt n f t q \<longleftrightarrow> pp_stage q = t \<and> pp_job_path q = job_record_at rt n f \<and> pp_job_store q = rt @ [''.jobs'', n] \<and>
     transaction_at rt (rm_hash (mt_resolved t)) (job_transaction q) \<and> memory_of rt (mt_resolved t)"

lemma record_below: "job_setting rt n f g \<Longrightarrow> below rt (job_record_at rt n f)"
  by (auto simp: job_setting_def job_record_at_def below_def)

lemma validate_job_store_result:
  assumes "clean rt (files w)" "below rt d" "validate_job_store d w = (Inr st, w')"
  shows "st = d \<and> w' = w"
  using assms(3) resolve_clean [OF assms(1,2)] by (auto simp: validate_job_store_def thenI_Inr_iff split: if_splits)

lemma keeps_validate_job_store [keeps_intros]: "keeps K (validate_job_store d)"
  unfolding validate_job_store_def by (auto intro!: keeps_intros simp del: io_apply bindI_see)

lemma keeps_publication_job_path [keeps_intros]: "keeps K (publication_job_path E d j)"
  unfolding publication_job_path_def Let_def by (auto intro!: keeps_intros simp del: io_apply bindI_see)

lemma publication_job_path_result:
  "publication_job_path E d j w = (Inr p, w') \<Longrightarrow> p = d @ [j @ ''.yaml''] \<and> j \<notin> {[], ''.'', ''..''} \<and> w' = w"
  using validated_job_id [of E j]
  by (auto simp: publication_job_path_def Let_def bindI_Inr_iff thenI_Inr_iff job_path_def split: if_splits)

lemma besides_prepare:
  assumes "job_setting rt n f g" "stage_of rt t"
  shows "keeps (besides rt n f g) (prepare_publication P t d p lease)"
proof -
  have m: "memory_of rt (mt_resolved t)" using assms(2) by (simp add: stage_of_def)
  have lease: "keeps (besides rt n f g) (case lease of Some l \<Rightarrow> validate_lock_lease l (mt_resolved t) | None \<Rightarrow> ret ())"
    using besides_lock_path(2) [OF assms(1) m] by (auto simp del: io_apply intro: keeps_pure split: option.split)
  show ?thesis
    unfolding prepare_publication_def Let_def publication_journal_path_def publication_backup_path_def memory_ofD(1) [OF m]
    by (intro keeps_tryI keeps_thenI keeps_bindI keeps_see keeps_pure lease keeps_validate_job_store keeps_publication_job_path
        besides_canonical [OF assms(1) m] read_canonical_keeps besides_operation_path [OF assms(1) m]) auto
qed

lemma prepare_result:
  assumes "job_setting rt n f g" "stage_of rt t" "besides rt n f g w"
    and "prepare_publication P t (rt @ [''.jobs'', n]) (Some (job_record_at rt n f)) (Some lease) w = (Inr q, w')"
  shows "prepared_at rt n f t q"
proof -
  let ?r = "mt_resolved t" and ?G = "rt @ [''.jobs'', n]" and ?p = "job_record_at rt n f"
  let ?K = "besides rt n f g"
  from assms(2) obtain i where t: "memory_of rt ?r" "mt_directory t = rt @ [''.staging'', rm_hash ?r, i]"
    "i \<notin> {[], ''.'', ''..''}" "mt_job_id t = i" by (auto simp: stage_of_def)
  note M = memory_ofD [OF t(1)] and rt = job_settingD(1) [OF assms(1)]
  have gb: "below rt ?G" using group_below [OF assms(1), of "[]"] by simp
  from assms(4) obtain w1 w2 st w3 jp w4 old w5 new w6 jn w7 bk where
      w1: "validate_lock_lease lease ?r w = (Inr (), w1)" and w2: "validate_job_store ?G w1 = (Inr st, w2)"
    and w3: "publication_job_path (pe_memory P) st i w2 = (Inr jp, w3)" and same: "resolve (files w3) ?p = resolve (files w3) jp"
    and w4: "bindI (canonical_directory ?r) (read_canonical_files (pe_memory P)) w3 = (Inr old, w4)"
    and w5: "read_canonical_files (pe_memory P) (mt_directory t) w4 = (Inr new, w5)"
    and w6: "publication_journal_path (pe_memory P) rt (rm_hash ?r) i w5 = (Inr jn, w6)"
    and w7: "publication_backup_path (pe_memory P) rt (rm_hash ?r) i w6 = (Inr bk, w7)"
    and q: "pp_stage q = t" "pp_job_store q = st" "pp_job_path q = jp" "pp_old_files q = old" "pp_new_files q = new"
      "pp_journal_path q = jn" "pp_backup_path q = bk" "pp_no_change q = same_files old new"
    by (auto simp: prepare_publication_def Let_def tryI_apply thenI_Inr_iff bindI_Inr_iff t(4) M(1) split: prod.splits sum.splits if_splits)
  have K1: "?K w1" by (rule keepsD [OF besides_lock_path(2) [OF assms(1) t(1)] assms(3) w1])
  from validate_job_store_result [OF confined_clean [OF K1] gb w2] have st: "st = ?G" "w2 = w1" by simp_all
  from publication_job_path_result [OF w3] have jp: "jp = ?G @ [i @ ''.yaml'']" "w3 = w1" by (simp_all add: st)
  have jb: "below rt jp" using group_below [OF assms(1), of "[i @ ''.yaml'']"] yaml_name [of i] by (auto simp: jp)
  from same resolve_clean [OF confined_clean [OF K1]] jb record_below [OF assms(1)] have p: "jp = ?p" by (simp add: jp(2))
  from w4 obtain w8 d where w8: "canonical_directory ?r w1 = (Inr d, w8)" "read_canonical_files (pe_memory P) d w8 = (Inr old, w4)"
    by (auto simp: bindI_Inr_iff jp(2))
  have d: "d = rt @ [rm_hash ?r]" by (rule canonical_result [OF t(1) w8(1)])
  have K8: "?K w8" by (rule keepsD [OF besides_canonical [OF assms(1) t(1)] K1 w8(1)])
  have w48: "w4 = w8" by (rule read_canonical_state [OF w8(2)])
  have b: "below rt d" "prefix rt d" "below rt (mt_directory t)" "prefix rt (mt_directory t)"
    using rt M(3) t(3) by (auto simp: d t(2) below_def)
  have old: "plain_names (map fst old)" by (rule read_canonical_plain [OF confined_clean [OF K8] b(2,1) w8(2)])
  have new: "plain_names (map fst new)" by (rule read_canonical_plain [OF confined_clean [OF K8] b(4,3) w5 [unfolded w48]])
  have jn: "jn = rt @ [''.journals'', rm_hash ?r, i @ ''.yaml'']"
    using operation_path_result [OF w6 [unfolded publication_journal_path_def]] by simp
  have bk: "bk = rt @ [''.publication-backups'', rm_hash ?r, i]"
    using operation_path_result [OF w7 [unfolded publication_backup_path_def]] by simp
  have "i @ ''.yaml'' \<noteq> ''.''" by auto
  then have "transaction_at rt (rm_hash ?r) (job_transaction q)"
    using hex64_place [OF M(4) rt] t yaml_name [of i] old new
    by (auto simp: transaction_at_def job_transaction_def q jn bk memory_of_def)
  with t(1) p st show ?thesis by (simp add: prepared_at_def q)
qed

section \<open>Waiting for a lock\<close>

lemma besides_lock_file:
  assumes "job_setting rt n f g" "''..'' \<notin> set [x, c]" "x \<noteq> ''.jobs''"
  shows "keeps (besides rt n f g) (mkdir_p (butlast (rt @ [x, c])))" "keeps (besides rt n f g) (open_append (rt @ [x, c]))"
  by (rule besides_away [OF assms(1)], rule away_lock_file [OF _ assms(2,3)], assumption)+

end
