(* ===== verification/ExecutionSafety.thy ===== *)
theory ExecutionSafety
  imports Execution JobNeighbours
begin

text \<open>
  A job that is executed ends: whatever the agent does outside the store, and whatever fails, the record stays a valid
  record of the same specification, and what the worker returns is the record in its place, in a terminal status.
\<close>

section \<open>The setting of a job\<close>

text \<open>
  The store and the name of the record in it, and the directories beside the store that an execution works in: the
  root of the group, the cache, the decisions.
\<close>

record job_frame =
  jf_store :: path
  jf_group :: string
  jf_file :: string
  jf_sides :: "path set"
  jf_spec :: job_spec

definition jf_path :: "job_frame \<Rightarrow> path" where
  "jf_path J = job_record_at (jf_store J) (jf_group J) (jf_file J)"

definition frame_ok :: "job_frame \<Rightarrow> bool" where
  "frame_ok J \<longleftrightarrow> ''..'' \<notin> set (jf_store J) \<and> jf_group J \<noteq> ''..'' \<and> jf_file J \<notin> {[], ''..'', ''artifacts''} \<and>
     path_stem (jf_file J) \<notin> {jf_file J, ''..''} \<and>
     (\<forall>e\<in>jf_sides J. apart (jf_store J) e \<and> (\<forall>d\<in>jf_sides J. e = d \<or> apart e d))"

text \<open>The record is in its place, satisfies \<open>F\<close>, and there are no symbolic links where the execution works.\<close>

definition kept :: "execution_env \<Rightarrow> job_frame \<Rightarrow> (job_record \<Rightarrow> bool) \<Rightarrow> world \<Rightarrow> bool" where
  "kept X J F w \<longleftrightarrow> clean (jf_store J) (files w) \<and> (\<forall>e\<in>jf_sides J. clean e (files w)) \<and>
     (\<exists>r. holds (xe_yaml X) (xe_hash X) (jf_path J) r (node_at (files w)) \<and> jr_spec r = jf_spec J \<and> F r)"

lemma kept_weaken: "kept X J F w \<Longrightarrow> (\<And>r. F r \<Longrightarrow> G r) \<Longrightarrow> kept X J G w"
  by (auto simp: kept_def)

lemma kept_setting:
  assumes "frame_ok J" "kept X J F w"
  shows "job_setting (jf_store J) (jf_group J) (jf_file J) (node_at (files w))" "job_place (jf_store J) (jf_path J) w"
proof -
  let ?p = "jf_path J"
  from assms(2) have t: "tree (files w)" "node_at (files w) ?p \<noteq> None" by (auto simp: kept_def clean_def holds_def)
  have way: "node_at (files w) q = Some Dir" if "strict_prefix q ?p" for q by (rule tree_way [OF t that])
  with assms(1) show s: "job_setting (jf_store J) (jf_group J) (jf_file J) (node_at (files w))"
    by (simp add: frame_ok_def job_setting_def jf_path_def)
  have "node_at (files w) (butlast ?p) = Some Dir"
    by (rule way) (auto simp: jf_path_def job_record_at_def butlast_append strict_prefix_def prefix_def)
  then show "job_place (jf_store J) ?p w"
    using assms record_below [OF s]
    by (auto simp: job_place_def kept_def frame_ok_def jf_path_def job_record_at_def strict_prefix_def)
qed

section \<open>What leaves the record alone\<close>

lemma beside_keeps_sides:
  assumes "frame_ok J" "\<forall>e\<in>jf_sides J. clean e (files w)" "beside_same (jf_store J) w w'"
  shows "\<forall>e\<in>jf_sides J. clean e (files w')"
  using assms beside_same_clean by (fastforce simp: frame_ok_def)

lemma kept_besides:
  assumes "frame_ok J"
    and "\<And>g. job_setting (jf_store J) (jf_group J) (jf_file J) g \<Longrightarrow> keeps (besides (jf_store J) (jf_group J) (jf_file J) g) m"
  shows "keeps (kept X J F) m"
  unfolding keeps_def
proof (intro allI impI)
  let ?rt = "jf_store J" and ?p = "jf_path J"
  fix w assume k: "kept X J F w"
  obtain r w' where run: "m w = (r, w')" by fastforce
  from k have c: "clean ?rt (files w)" by (simp add: kept_def)
  note b = keepsD [OF assms(2) [OF kept_setting(1) [OF assms(1) k]] confined_self [OF c] run]
  have "node_at (files w') ?p = node_at (files w) ?p"
    by (rule confined_frame [OF b]) (simp add: jf_path_def record_not_aside)
  moreover have "beside_same ?rt w w'" using b by (auto simp: beside_same_def confined_def aside_def strict_prefix_def)
  ultimately show "kept X J F (snd (m w))"
    using k run beside_keeps_sides [OF assms(1)] confined_clean [OF b] by (auto simp: kept_def holds_def)
qed

lemma kept_side:
  assumes "frame_ok J" "e \<in> jf_sides J" "\<And>w r w'. clean e (files w) \<Longrightarrow> m w = (r, w') \<Longrightarrow> beside_same e w w'"
  shows "keeps (kept X J F) m"
  unfolding keeps_def
proof (intro allI impI)
  let ?rt = "jf_store J" and ?p = "jf_path J"
  fix w assume k: "kept X J F w"
  obtain r w' where run: "m w = (r, w')" by fastforce
  from k assms(2) have "clean e (files w)" by (simp add: kept_def)
  from assms(3) [OF this run] have b: "beside_same e w w'" .
  have ap: "apart e ?rt" "\<And>d. d \<in> jf_sides J \<Longrightarrow> d = e \<or> apart e d"
    using assms(1,2) by (auto simp: frame_ok_def intro: apart_sym)
  have "\<not> prefix e ?p \<and> \<not> prefix ?p e" by (rule apart_below [OF ap(1)]) (simp add: jf_path_def job_record_at_def)
  with b have "node_at (files w') ?p = node_at (files w) ?p" by (simp add: beside_same_def)
  moreover have "clean d (files w')" if "d \<in> jf_sides J" for d
    using ap(2) [OF that] b beside_same_clean [OF b] k that by (auto simp: kept_def beside_same_def)
  ultimately show "kept X J F (snd (m w))"
    using k run beside_same_clean [OF b ap(1)] by (auto simp: kept_def holds_def)
qed

section \<open>What changes the record\<close>

lemma kept_read:
  assumes "codec_ok (xe_yaml X)" "frame_ok J"
  shows "hoare (kept X J F) (read_job (xe_yaml X) (xe_hash X) (jf_path J) None) (\<lambda>x w. kept X J (\<lambda>r. r = x \<and> F x) w) E"
proof -
  have "\<exists>r. read_job (xe_yaml X) (xe_hash X) (jf_path J) None w = (Inr r, w) \<and> kept X J (\<lambda>x. x = r \<and> F r) w"
    if k: "kept X J F w" for w
  proof -
    from k obtain r where r: "holds (xe_yaml X) (xe_hash X) (jf_path J) r (node_at (files w))" "jr_spec r = jf_spec J" "F r"
      and c: "clean (jf_store J) (files w)" by (auto simp: kept_def)
    from kept_setting(2) [OF assms(2) k] read_job_holds [OF assms(1) c _ r(1)]
    have "read_job (xe_yaml X) (xe_hash X) (jf_path J) None w = (Inr r, w)" by (simp add: job_place_def)
    with k r show ?thesis by (auto simp: kept_def)
  qed
  then show ?thesis unfolding hoare_def by fastforce
qed

lemma kept_transition:
  assumes "codec_ok (xe_yaml X)" "frame_ok J" "distinct (map fst ch)" "list_all (\<lambda>(k, v). json_ok v) ch"
  shows "hoare (kept X J F) (transition_job (xe_yaml X) (xe_hash X) (jf_path J) a b ch)
    (\<lambda>x. kept X J (\<lambda>r. r = x \<and> jr_status x = PStr b)) (\<lambda>_. kept X J (\<lambda>r. F r \<or> jr_status r = PStr b))"
proof -
  let ?p = "jf_path J" and ?h = "holds (xe_yaml X) (xe_hash X)"
  have main: "(\<forall>x. res = Inr x \<longrightarrow> kept X J (\<lambda>r. r = x \<and> jr_status x = PStr b) w') \<and> kept X J (\<lambda>r. F r \<or> jr_status r = PStr b) w'"
    if k: "kept X J F w" and run: "transition_job (xe_yaml X) (xe_hash X) ?p a b ch w = (res, w')" for w res w'
  proof -
    from k obtain r where r: "?h ?p r (node_at (files w))" "jr_spec r = jf_spec J" "F r"
      and e: "\<forall>e\<in>jf_sides J. clean e (files w)" by (auto simp: kept_def)
    note pl = kept_setting(2) [OF assms(2) k]
    note o = transition_outcome [OF assms(1) pl r(1) assms(3,4) run]
    note b = transition_beside [OF pl run]
    have c: "clean (jf_store J) (files w')" "\<forall>e\<in>jf_sides J. clean e (files w')"
      using b beside_keeps_sides [OF assms(2) e b] by (auto simp: beside_same_def)
    have "?h ?p r (node_at (files w')) \<or> (\<exists>x. jr_status x = PStr b \<and> jr_spec x = jr_spec r \<and> ?h ?p x (node_at (files w')))"
      using o replace_status_spec(1,2) [OF _ assms(3)] by metis
    with c r have "kept X J (\<lambda>r. F r \<or> jr_status r = PStr b) w'" by (auto simp: kept_def)
    moreover have "kept X J (\<lambda>r. r = x \<and> jr_status x = PStr b) w'" if "res = Inr x" for x
      using o that c r(2) by (auto simp: kept_def)
    ultimately show ?thesis by blast
  qed
  show ?thesis by (rule hoareI) (use main in blast)+
qed

text \<open>Writing another record of the same job over the one in its place.\<close>

lemma kept_write:
  assumes "frame_ok J" "jr_spec x = jf_spec J" "F x"
    and "\<And>r. jr_spec r = jf_spec J \<Longrightarrow> record_ok (xe_hash X) r \<Longrightarrow> json_ok (PDict (record_to_dict r)) \<Longrightarrow> F r \<Longrightarrow>
      record_ok (xe_hash X) x \<and> json_ok (PDict (record_to_dict x))"
  shows "hoare (kept X J F) (write_job (xe_yaml X) (xe_hash X) (jf_path J) x) (\<lambda>_. kept X J (\<lambda>r. r = x)) (\<lambda>_. kept X J F)"
proof -
  let ?p = "jf_path J" and ?rt = "jf_store J" and ?h = "holds (xe_yaml X) (xe_hash X)"
  have main: "(res = Inr () \<longrightarrow> kept X J (\<lambda>r. r = x) w') \<and> kept X J F w'"
    if k: "kept X J F w" and run: "write_job (xe_yaml X) (xe_hash X) ?p x w = (res, w')" for w res w'
  proof -
    from k obtain r where r: "?h ?p r (node_at (files w))" "jr_spec r = jf_spec J" "F r"
      and e: "clean ?rt (files w)" "\<forall>e\<in>jf_sides J. clean e (files w)" by (auto simp: kept_def)
    from assms(4) [OF r(2) _ _ r(3)] r(1) have x: "record_ok (xe_hash X) x" "json_ok (PDict (record_to_dict x))"
      by (auto simp: holds_def)
    note pl = kept_setting(2) [OF assms(1) k, unfolded job_place_def]
    from run x(1) have aw: "atomic_write_bytes ?p (job_text (xe_yaml X) x) w = (res, w')"
      by (simp add: write_job_def record_ok_def thenI_apply atomic_write_text_def job_text_def)
    from pl have o: "node_at (files w') ?p \<in> {node_at (files w) ?p, Some (File (job_text (xe_yaml X) x))}"
        "res = Inr () \<longrightarrow> node_at (files w') = (node_at (files w))(?p \<mapsto> File (job_text (xe_yaml X) x))"
        "\<And>q. q \<noteq> ?p \<Longrightarrow> q \<notin> temp_paths ?p \<Longrightarrow> node_at (files w') q = node_at (files w) q" "clean ?rt (files w')"
      using atomic_write_outcome [OF _ _ _ _ _ aw, of ?rt] by auto
    have pre: "prefix ?rt ?p" "prefix ?rt (butlast ?p)" using pl strictly_below [of ?rt ?p] by (auto simp: strict_prefix_def)
    then have "q \<notin> temp_paths ?p" if "\<not> prefix ?rt q" for q using that by (auto simp: temp_paths_def)
    with o(3,4) pre(1) have b: "beside_same ?rt w w'" by (metis beside_same_def)
    have hx: "?h ?p x g" if "g ?p = Some (File (job_text (xe_yaml X) x))" for g using that x by (simp add: holds_def)
    from o(1) have "?h ?p r (node_at (files w')) \<or> ?h ?p x (node_at (files w'))"
    proof
      assume "node_at (files w') ?p = node_at (files w) ?p"
      with holds_cong [of "node_at (files w')" ?p "node_at (files w)"] r(1) show ?thesis by simp
    qed (use hx in simp)
    moreover have "res = Inr () \<longrightarrow> ?h ?p x (node_at (files w'))" using o(2) hx by simp
    moreover note beside_keeps_sides [OF assms(1) e(2) b] o(4) r(2,3) assms(2,3)
    ultimately show ?thesis unfolding kept_def by blast
  qed
  show ?thesis by (rule hoareI; drule (1) main; simp)
qed

text \<open>A job that has been taken out of the queue stays out.\<close>

definition taken :: "job_record \<Rightarrow> bool" where
  "taken r \<longleftrightarrow> jr_status r \<noteq> PStr ''queued''"

abbreviation in_status :: "string \<Rightarrow> job_record \<Rightarrow> bool" where
  "in_status s r \<equiv> jr_status r = PStr s"

text \<open>The record \<open>x\<close> is in its place and final.\<close>

definition settled_at :: "execution_env \<Rightarrow> job_frame \<Rightarrow> job_record \<Rightarrow> world \<Rightarrow> bool" where
  "settled_at X J x = kept X J (\<lambda>r. r = x \<and> terminal r)"

lemma kept_taken: "kept X J (in_status s) w \<Longrightarrow> s \<noteq> ''queued'' \<Longrightarrow> kept X J taken w"
  by (erule kept_weaken) (simp add: taken_def)

lemma settled_taken: "settled_at X J x w \<Longrightarrow> kept X J taken w"
  unfolding settled_at_def by (erule kept_weaken) (auto simp: taken_def terminal_def)

lemma terminal_or_live:
  "record_ok H r \<Longrightarrow> taken r \<Longrightarrow> jr_status r \<notin> {PStr ''running'', PStr ''waiting_for_memory''} \<Longrightarrow> terminal r"
  by (auto simp: record_ok_def taken_def terminal_def valid_statuses_def)

lemma kept_terminalize:
  assumes "codec_ok (xe_yaml X)" "frame_ok J" "facts_ok f"
  shows "hoare (kept X J taken) (terminalize_failure X (jf_path J) summary f) (settled_at X J) (\<lambda>_. kept X J taken)"
proof -
  let ?p = "jf_path J" and ?h = "holds (xe_yaml X) (xe_hash X)"
  have main: "(\<forall>x. res = Inr x \<longrightarrow> settled_at X J x w') \<and> kept X J taken w'"
    if k: "kept X J taken w" and run: "terminalize_failure X ?p summary f w = (res, w')" for w res w'
  proof -
    from k obtain r where r: "?h ?p r (node_at (files w))" "jr_spec r = jf_spec J" "taken r"
      and e: "\<forall>e\<in>jf_sides J. clean e (files w)" by (auto simp: kept_def)
    let ?x = "failed_with r (pe_clock (xe_publication X) w) summary f"
    have x: "jr_spec ?x = jr_spec r" "terminal ?x" "taken ?x" by (simp_all add: failed_with_def terminal_def taken_def)
    note o = terminalize_outcome [OF assms(1) kept_setting(2) [OF assms(2) k] r(1) assms(3) run]
    have c: "clean (jf_store J) (files w')" "\<forall>e\<in>jf_sides J. clean e (files w')"
      using o(3) beside_keeps_sides [OF assms(2) e o(3)] by (auto simp: beside_same_def)
    show ?thesis
    proof (cases "jr_status r \<in> {PStr ''running'', PStr ''waiting_for_memory''}")
      case False
      from o(1) [OF False] k r terminal_or_live [OF _ r(3) False, of "xe_hash X"] show ?thesis
        by (auto simp: settled_at_def kept_def holds_def)
    next
      case True
      from o(4) c r x have "kept X J taken w'" by (auto simp: kept_def)
      with o(5) [OF _ True] c r x show ?thesis by (auto simp: settled_at_def kept_def)
    qed
  qed
  show ?thesis by (rule hoareI) (use main in blast)+
qed

text \<open>The last write of a terminal record over one of the same status.\<close>

lemma kept_final_write:
  assumes "frame_ok J" "jr_spec x = jf_spec J" "in_status st x" "terminal x"
    and "record_ok (xe_hash X) x" "json_ok (PDict (record_to_dict x))"
  shows "hoare (kept X J (in_status st)) (thenI (write_job (xe_yaml X) (xe_hash X) (jf_path J) x) (ret x)) (settled_at X J) (\<lambda>_. kept X J taken)"
proof (rule hoare_thenI [where R = "settled_at X J x"])
  have "hoare (kept X J (in_status st)) (write_job (xe_yaml X) (xe_hash X) (jf_path J) x)
      (\<lambda>_. kept X J (\<lambda>y. y = x)) (\<lambda>_. kept X J (in_status st))"
    by (rule kept_write [OF assms(1,2)]) (use assms in simp_all)
  then show "hoare (kept X J (in_status st)) (write_job (xe_yaml X) (xe_hash X) (jf_path J) x) (\<lambda>_. settled_at X J x) (\<lambda>_. kept X J taken)"
  proof (rule hoare_weaken)
    show "settled_at X J x w" if "kept X J (\<lambda>y. y = x) w" for w
      unfolding settled_at_def using that by (rule kept_weaken) (use assms(4) in simp)
    show "kept X J taken w" if "kept X J (in_status st) w" for w
      using that by (rule kept_weaken) (use assms(3,4) in \<open>auto simp: taken_def terminal_def\<close>)
  qed
  show "hoare (settled_at X J x) (ret x) (settled_at X J) (\<lambda>_. kept X J taken)" by (simp add: hoare_def)
qed

lemma record_json:
  "json_ok (PDict (record_to_dict r)) \<longleftrightarrow> json_ok (PDict (spec_to_dict (jr_spec r))) \<and>
     list_all (\<lambda>(k, v). json_ok v) (record_values r)"
  using distinct_record_to_dict [of r] by (simp add: record_to_dict_def)

lemma dict_of_json:
  assumes "dict_of v = Inr d" "json_ok v"
  shows "distinct (map fst d) \<and> list_all (\<lambda>(k, v). json_ok v) d"
proof -
  have pairs: "list_all (\<lambda>(k, v). json_ok v) ps" if "mapR pair_of xs = Inr ps" "list_all json_ok xs" for xs ps
    using that
  proof (induction xs arbitrary: ps)
    case (Cons x xs)
    then obtain p qs where "pair_of x = Inr p" "mapR pair_of xs = Inr qs" "ps = p # qs" by (auto simp: bindR_Inr_iff)
    with Cons show ?case by (auto elim!: pair_of.elims split: if_splits)
  qed simp
  show ?thesis
  proof (cases v)
    case (PList xs)
    with assms obtain ps where "mapR pair_of xs = Inr ps" "d = dict_update [] ps" by (auto simp: dict_of_def bindR_Inr_iff)
    with pairs [of xs ps] PList assms(2) set_dict_update [of "[]" ps] show ?thesis
      by (fastforce simp: distinct_keys_dict_update list_all_iff)
  qed (use assms in \<open>auto simp: dict_of_def split: list.splits\<close>)
qed

lemma merged_publication_json:
  assumes "merged_publication v u = Inr x" "json_ok v" "json_ok u"
  shows "json_ok x"
proof -
  have e: "distinct (map fst (entries a)) \<and> list_all (\<lambda>(k, v). json_ok v) (entries a)" if "json_ok a" for a
    using that by (cases a) auto
  have up: "json_ok (PDict (dict_update d (entries a)))"
    if "json_ok a" "distinct (map fst d)" "list_all (\<lambda>(k, v). json_ok v) d" for a d
    using set_dict_update [of d "entries a"] e [OF that(1)] that(2,3) by (fastforce simp: distinct_keys_dict_update list_all_iff)
  from assms(1) obtain d where d: "(if truthy v then dict_of v else Inr []) = Inr d"
    "x = (let m = (if truthy u then dict_update d (entries u) else d) in if m = [] then PNone else PDict m)"
    unfolding merged_publication_def bindR_Inr_iff Let_def by blast
  have "distinct (map fst d) \<and> list_all (\<lambda>(k, v). json_ok v) d"
    using d(1) assms(2) dict_of_json [of v d] by (auto split: if_splits)
  with up [OF assms(3)] d(2) show ?thesis by (auto simp: Let_def)
qed

lemma merged_with_ok:
  assumes "record_ok H r" "json_ok (PDict (record_to_dict r))" "facts_ok f"
    and "merged_publication (jr_memory_publication r) (rf_memory_publication f) = Inr pb"
  shows "record_ok H (merged_with r summary f pb)" "json_ok (PDict (record_to_dict (merged_with r summary f pb)))"
    "jr_spec (merged_with r summary f pb) = jr_spec r" "jr_status (merged_with r summary f pb) = jr_status r"
proof -
  note rj = assms(2) [unfolded record_json record_values_def]
  have "json_ok pb" by (rule merged_publication_json [OF assms(4)]) (use rj assms(3) in \<open>simp_all add: facts_ok_def\<close>)
  with rj assms(3) show "json_ok (PDict (record_to_dict (merged_with r summary f pb)))"
    unfolding record_json record_values_def by (simp add: merged_with_def por_def known_or_def facts_ok_def)
  show "record_ok H (merged_with r summary f pb)" using assms(1) by (simp add: record_ok_def merged_with_def)
qed (simp_all add: merged_with_def)

text \<open>A Hoare triple may use what its precondition says of the record.\<close>

lemma hoare_kept_fact:
  assumes "\<And>r. record_ok (xe_hash X) r \<Longrightarrow> json_ok (PDict (record_to_dict r)) \<Longrightarrow> jr_spec r = jf_spec J \<Longrightarrow> F r \<Longrightarrow>
      hoare (kept X J F) m Q E"
  shows "hoare (kept X J F) m Q E"
proof (cases "\<exists>w. kept X J F w")
  case True
  then obtain r where "record_ok (xe_hash X) r" "json_ok (PDict (record_to_dict r))" "jr_spec r = jf_spec J" "F r"
    by (auto simp: kept_def holds_def)
  then show ?thesis by (rule assms)
qed (auto simp: hoare_def)

lemma kept_merge:
  assumes "codec_ok (xe_yaml X)" "frame_ok J" "facts_ok f"
  shows "hoare (kept X J (in_status ''failed'')) (merge_failed_terminal_metadata X (jf_path J) summary f) (settled_at X J) (\<lambda>_. kept X J taken)"
  unfolding merge_failed_terminal_metadata_def
proof (rule hoare_bindI [OF kept_read [OF assms(1,2)]], rule hoare_kept_fact)
  fix r r'
  let ?K = "kept X J (\<lambda>y. y = r \<and> in_status ''failed'' r)"
  assume "record_ok (xe_hash X) r'" "json_ok (PDict (record_to_dict r'))" "jr_spec r' = jf_spec J" "r' = r \<and> in_status ''failed'' r"
  then have r: "record_ok (xe_hash X) r" "json_ok (PDict (record_to_dict r))" "jr_spec r = jf_spec J" "in_status ''failed'' r" by blast+
  have "hoare ?K (bindI (liftR (merged_publication (jr_memory_publication r) (rf_memory_publication f))) (\<lambda>publication.
         let updated = merged_with r summary f publication in
         thenI (write_job (xe_yaml X) (xe_hash X) (jf_path J) updated) (ret updated))) (settled_at X J) (\<lambda>_. kept X J taken)"
  proof (cases "merged_publication (jr_memory_publication r) (rf_memory_publication f)")
    case (Inl e)
    have "kept X J taken w" if "?K w" for w using that by (rule kept_weaken) (simp add: taken_def)
    with Inl show ?thesis by (auto simp: hoare_def)
  next
    case (Inr pb)
    note ok = merged_with_ok [OF r(1,2) assms(3) Inr]
    have "hoare (kept X J (in_status ''failed'')) (thenI (write_job (xe_yaml X) (xe_hash X) (jf_path J) (merged_with r summary f pb))
        (ret (merged_with r summary f pb))) (settled_at X J) (\<lambda>_. kept X J taken)"
      by (rule kept_final_write [OF assms(2)]) (use ok r in \<open>simp_all add: terminal_def del: json_ok.simps\<close>)
    from hoare_pre [OF this, of ?K] Inr show ?thesis
      by (simp add: Let_def kept_weaken [of X J _ _ "in_status ''failed''"] del: io_apply)
  qed
  with r(4) show "hoare ?K (if jr_status r \<noteq> PStr ''failed'' then ret r
       else bindI (liftR (merged_publication (jr_memory_publication r) (rf_memory_publication f))) (\<lambda>publication.
         let updated = merged_with r summary f publication in
         thenI (write_job (xe_yaml X) (xe_hash X) (jf_path J) updated) (ret updated))) (settled_at X J) (\<lambda>_. kept X J taken)"
    by (simp only: simp_thms if_False)
qed

section \<open>Publishing\<close>

lemma kept_finish_job:
  assumes "codec_ok (xe_yaml X)" "frame_ok J" "distinct (map fst ch)" "list_all (\<lambda>(k, v). json_ok v) ch"
    and "''completed_at'' \<notin> fst ` set ch" "st \<noteq> ''queued''"
  shows "hoare (kept X J taken) (finish_job (xe_publication X) (jf_path J) st ch) (\<lambda>_. kept X J (in_status st)) (\<lambda>_. kept X J taken)"
proof -
  have y: "me_yaml (pe_memory (xe_publication X)) = xe_yaml X" "me_hash (pe_memory (xe_publication X)) = xe_hash X"
    by (simp_all add: xe_yaml_def xe_hash_def xe_memory_def)
  have tr: "hoare (kept X J taken) (transition_job (xe_yaml X) (xe_hash X) (jf_path J) ''running'' st ((''completed_at'', PStr now) # ch))
      (\<lambda>_. kept X J (in_status st)) (\<lambda>_. kept X J taken)" for now
    by (rule hoare_weaken [OF kept_transition [OF assms(1,2)]])
       (use assms(3-6) in \<open>auto simp: taken_def elim!: kept_weaken\<close>)
  have again: "hoare (kept X J taken) (bindI (read_job (xe_yaml X) (xe_hash X) (jf_path J) None) (\<lambda>r. if jr_status r = PStr st then ret () else raise e))
      (\<lambda>_. kept X J (in_status st)) (\<lambda>_. kept X J taken)" for e
    by (rule hoare_bindI [OF kept_read [OF assms(1,2)]]) (auto simp: hoare_def elim!: kept_weaken)
  have first: "hoare (kept X J taken) (bindI (gets_st (pe_clock (xe_publication X))) (\<lambda>now.
         bindI (transition_job (xe_yaml X) (xe_hash X) (jf_path J) ''running'' st ((''completed_at'', PStr now) # ch)) (\<lambda>_. ret ())))
      (\<lambda>_. kept X J (in_status st)) (\<lambda>_. kept X J taken)"
    by (rule hoare_bindI [where R = "\<lambda>_. kept X J taken"], simp add: hoare_def, rule hoare_bindI [OF tr], simp add: hoare_def)
  show ?thesis
    unfolding finish_job_def Let_def y by (rule hoare_try_only [OF first again])
qed

text \<open>A publication prepared for the record of the frame.\<close>

abbreviation prepared_for :: "job_frame \<Rightarrow> memory_stage \<Rightarrow> prepared_publication \<Rightarrow> bool" where
  "prepared_for J \<equiv> prepared_at (jf_store J) (jf_group J) (jf_file J)"

lemma frameD:
  assumes "frame_ok J"
  shows "''..'' \<notin> set (jf_store J)" "jf_file J \<noteq> ''artifacts''" "path_stem (jf_file J) \<notin> {jf_file J, ''..''}"
  using assms by (simp_all add: frame_ok_def)

lemma kept_publication_steps:
  assumes "frame_ok J" "prepared_for J t q"
  shows "keeps (kept X J F) (validate_lock_lease l (tx_resolved (job_transaction q)))"
    and "keeps (kept X J F) (run_transaction_locked P (job_transaction q) c fa)"
    and "keeps (kept X J F) (bindI (canonical_directory (tx_resolved (job_transaction q))) (\<lambda>d. replace_canonical_files d (tx_old_files (job_transaction q))))"
    and "keeps (kept X J F) (retain_failed_stage M (pp_job_store q) j stage diff)"
    and "keeps (kept X J F) (cleanup_paths (pp_journal_path q) (pp_backup_path q) (mt_directory (pp_stage q)))"
proof -
  note q = assms(2) [unfolded prepared_at_def]
  let ?op = "job_transaction q"
  have op: "tx_resolved ?op = mt_resolved t" "tx_journal_path ?op = pp_journal_path q" "tx_backup_path ?op = pp_backup_path q"
    "tx_stage_directory ?op = mt_directory (pp_stage q)" using q by (simp_all add: job_transaction_def)
  from q have tx: "transaction_at (jf_store J) (rm_hash (mt_resolved t)) ?op" and m: "memory_of (jf_store J) (tx_resolved ?op)"
    by (simp_all add: op)
  show "keeps (kept X J F) (validate_lock_lease l (tx_resolved ?op))"
    by (rule kept_besides [OF assms(1) besides_lock_path(2) [OF _ m]])
  show "keeps (kept X J F) (run_transaction_locked P ?op c fa)"
    by (rule kept_besides [OF assms(1) besides_transaction(1) [OF _ tx m]])
  show "keeps (kept X J F) (bindI (canonical_directory (tx_resolved ?op)) (\<lambda>d. replace_canonical_files d (tx_old_files ?op)))"
    by (rule kept_besides [OF assms(1) besides_transaction(2) [OF _ tx m]])
  show "keeps (kept X J F) (retain_failed_stage M (pp_job_store q) j stage diff)"
    using kept_besides [OF assms(1) besides_retain [OF _ frameD(2) [OF assms(1)]]] q by simp
  show "keeps (kept X J F) (cleanup_paths (pp_journal_path q) (pp_backup_path q) (mt_directory (pp_stage q)))"
    using kept_besides [OF assms(1) besides_cleanup [OF _ tx]] by (simp add: op)
qed

lemma running_taken: "kept X J (in_status ''running'') w \<Longrightarrow> kept X J taken w"
  by (erule kept_weaken) (simp add: taken_def)

lemma kept_rollback:
  assumes "codec_ok (xe_yaml X)" "frame_ok J" "prepared_for J t q"
  shows "keeps (kept X J taken) (rollback_failed_transaction (xe_publication X) (job_transaction q) e (Some lease) retain)"
proof -
  note S = kept_publication_steps [OF assms(2,3)]
  have jp: "pp_job_path q = jf_path J" using assms(3) by (simp add: prepared_at_def jf_path_def)
  have "hoare (kept X J taken) (mark_failed (xe_publication X) (jf_path J) m) (\<lambda>_. kept X J taken) (\<lambda>_. kept X J taken)" for m
    unfolding mark_failed_def
    by (rule hoare_weaken [OF kept_finish_job [OF assms(1,2)]]) (auto elim: kept_weaken simp: taken_def)
  then have mk: "keeps (kept X J taken) (mark_failed (xe_publication X) (jf_path J) m)" for m
    by (rule keeps_hoare)
  have op: "tx_job_store (job_transaction q) = Some (pp_job_store q)" "tx_job_path (job_transaction q) = Some (pp_job_path q)"
    "tx_journal_path (job_transaction q) = pp_journal_path q" "tx_backup_path (job_transaction q) = pp_backup_path q"
    "tx_stage_directory (job_transaction q) = mt_directory (pp_stage q)" by (simp_all add: job_transaction_def)
  show ?thesis
    unfolding rollback_failed_transaction_def under_lock_def option.case op jp
    by (intro keeps_thenI keeps_ite keeps_bindI [OF S(4)] keeps_pure S(3,5) mk)
qed

lemma kept_apply:
  assumes "codec_ok (xe_yaml X)" "frame_ok J" "prepared_for J t q"
  shows "hoare (kept X J (in_status ''running'')) (apply_publication (xe_publication X) q None False True (Some lease))
    (\<lambda>a w. kept X J (in_status ''running'') w \<and> ap_prepared a = q) (\<lambda>_. kept X J taken)"
proof -
  let ?R = "kept X J (in_status ''running'')" and ?T = "kept X J taken" and ?op = "job_transaction q"
  note S = kept_publication_steps [OF assms(2,3)]
  have body: "hoare ?R (thenI (validate_lock_lease lease (tx_resolved ?op))
        (thenI (run_transaction_locked (xe_publication X) ?op None False)
        (bindI (gets_st (pe_clock (xe_publication X))) (\<lambda>now.
           ret \<lparr>ap_prepared = q, ap_published_at = now, ap_diff_artifact = None\<rparr>))))
      (\<lambda>a w. ?R w \<and> ap_prepared a = q) (\<lambda>_. ?T)"
    by (intro hoare_thenI [OF hoare_keeps_to [OF S(1) running_taken]] hoare_thenI [OF hoare_keeps_to [OF S(2) running_taken]])
       (simp_all add: hoare_def bindI_apply)
  have undo: "hoare ?T (if caught_by [CMemoryPublicationConflictError, CPublicationCrash] e then raise e
       else thenI (rollback_failed_transaction (xe_publication X) ?op e (Some lease) True) (raise (publication_error (exn_text e))))
      (\<lambda>a w. ?R w \<and> ap_prepared a = q) (\<lambda>_. ?T)" for e
    by (intro hoare_ite hoare_raise_if hoare_thenI [OF hoare_keeps [OF kept_rollback [OF assms(1-3)]]])
  show ?thesis
    unfolding apply_publication_def Let_def option.case under_lock_def
    by (rule hoare_tryI [OF body undo])
qed

lemma receipt_json: "json_ok (PDict (receipt_to_dict r))" if "json_ok (PDict (mp_selector r))"
  using that by (simp add: receipt_to_dict_def artifact_to_dict_def split: option.splits)

lemma prepared_selector: "prepared_for J t q \<Longrightarrow> prepare_publication P t d p l w = (Inr q, w') \<Longrightarrow> json_ok (PDict (pp_selector q))"
  by (auto simp: prepare_publication_def Let_def tryI_apply thenI_Inr_iff bindI_Inr_iff selector_dict_def
      split: prod.splits sum.splits if_splits option.splits)

lemma kept_finalize:
  assumes "codec_ok (xe_yaml X)" "frame_ok J" "prepared_for J t (ap_prepared a)" "json_ok (PDict (pp_selector (ap_prepared a)))"
  shows "hoare (kept X J (in_status ''running'')) (finalize_publication (xe_publication X) a)
    (\<lambda>_. kept X J (in_status ''complete'')) (\<lambda>_. kept X J taken)"
proof -
  have jp: "pp_job_path (ap_prepared a) = jf_path J" using assms(3) by (simp add: prepared_at_def jf_path_def)
  have "json_ok (PDict (receipt_to_dict (publication_receipt a)))"
    by (rule receipt_json) (use assms(4) in \<open>simp add: publication_receipt_def Let_def\<close>)
  then have mk: "hoare (kept X J (in_status ''running'')) (mark_complete (xe_publication X) (jf_path J) (publication_receipt a))
      (\<lambda>_. kept X J (in_status ''complete'')) (\<lambda>_. kept X J taken)"
    unfolding mark_complete_def
    by (intro hoare_pre [OF kept_finish_job [OF assms(1,2)]]) (auto intro: running_taken)
  have ct: "kept X J (in_status ''complete'') w \<Longrightarrow> kept X J taken w" for w by (erule kept_taken) simp
  show ?thesis
    unfolding finalize_publication_def Let_def jp
    by (intro hoare_thenI [OF mk] hoare_thenI [OF hoare_keeps_to [OF kept_publication_steps(5) [OF assms(2,3)] ct]] hoare_ret_if)
qed

text \<open>What a report of a run says can be stored.\<close>

definition report_ok :: "run_report \<Rightarrow> bool" where
  "report_ok t \<longleftrightarrow> json_ok (rl_duration (ra_result t)) \<and> json_ok (ra_stderr_path t) \<and> list_all json_ok (ra_changes t)"

lemma opt_py_json [simp]: "json_ok (opt_py x)"
  by (cases x) simp_all

lemma finished_record_ok:
  assumes "record_ok H r" "json_ok (PDict (record_to_dict r))" "report_ok t"
  shows "record_ok H (finished_record a b t r)" "json_ok (PDict (record_to_dict (finished_record a b t r)))"
    "jr_spec (finished_record a b t r) = jr_spec r" "jr_status (finished_record a b t r) = jr_status r"
proof -
  note rj = assms(2) [unfolded record_json record_values_def]
  show "json_ok (PDict (record_to_dict (finished_record a b t r)))"
    unfolding record_json record_values_def using rj assms(3) by (simp add: finished_record_def report_ok_def)
  show "record_ok H (finished_record a b t r)" using assms(1) by (simp add: record_ok_def finished_record_def)
qed (simp_all add: finished_record_def)

lemma kept_finish_record:
  assumes "codec_ok (xe_yaml X)" "frame_ok J" "report_ok t"
  shows "hoare (kept X J (in_status ''complete'')) (bindI (read_job (xe_yaml X) (xe_hash X) (jf_path J) None) (\<lambda>r.
        if jr_status r \<noteq> PStr ''complete'' then ret r
        else let final = finished_record started base_sha t r in
          thenI (write_job (xe_yaml X) (xe_hash X) (jf_path J) final) (ret final))) (settled_at X J) (\<lambda>_. kept X J taken)"
proof (rule hoare_bindI [OF kept_read [OF assms(1,2)]], rule hoare_kept_fact)
  fix r r'
  let ?K = "kept X J (\<lambda>y. y = r \<and> in_status ''complete'' r)" and ?x = "finished_record started base_sha t r"
  assume "record_ok (xe_hash X) r'" "json_ok (PDict (record_to_dict r'))" "jr_spec r' = jf_spec J" "r' = r \<and> in_status ''complete'' r"
  then have r: "record_ok (xe_hash X) r" "json_ok (PDict (record_to_dict r))" "jr_spec r = jf_spec J" "in_status ''complete'' r" by blast+
  note ok = finished_record_ok [OF r(1,2) assms(3), of started base_sha]
  have "hoare (kept X J (in_status ''complete'')) (thenI (write_job (xe_yaml X) (xe_hash X) (jf_path J) ?x) (ret ?x)) (settled_at X J) (\<lambda>_. kept X J taken)"
    by (rule kept_final_write [OF assms(2)]) (use ok r in \<open>simp_all add: terminal_def del: json_ok.simps\<close>)
  then have "hoare ?K (thenI (write_job (xe_yaml X) (xe_hash X) (jf_path J) ?x) (ret ?x)) (settled_at X J) (\<lambda>_. kept X J taken)"
    by (rule hoare_pre) (erule kept_weaken, simp)
  with r(4) show "hoare ?K (if jr_status r \<noteq> PStr ''complete'' then ret r
        else let final = ?x in thenI (write_job (xe_yaml X) (xe_hash X) (jf_path J) final) (ret final)) (settled_at X J) (\<lambda>_. kept X J taken)"
    by (simp only: simp_thms if_False Let_def)
qed

lemma kept_places:
  assumes "frame_ok J" "kept X J F w"
  shows "resolve (files w) (jf_path J) = jf_path J" "jobs_dir (files w) (jf_path J) = jf_store J @ [''.jobs'', jf_group J]"
proof -
  from kept_setting(1) [OF assms] have "below (jf_store J) (jf_path J)" unfolding jf_path_def by (rule record_below)
  with assms(2) show r: "resolve (files w) (jf_path J) = jf_path J" using resolve_clean by (auto simp: kept_def)
  then show "jobs_dir (files w) (jf_path J) = jf_store J @ [''.jobs'', jf_group J]"
    by (simp add: jobs_dir_def jf_path_def job_record_at_def butlast_append)
qed

lemma kept_prepare:
  assumes "frame_ok J" "stage_of (jf_store J) t"
  shows "hoare (kept X J (in_status ''running''))
    (prepare_publication P t (jf_store J @ [''.jobs'', jf_group J]) (Some (jf_path J)) (Some lease))
    (\<lambda>q w. kept X J (in_status ''running'') w \<and> (prepared_for J t q \<and> json_ok (PDict (pp_selector q)))) (\<lambda>_. kept X J taken)"
proof (rule hoare_result)
  show "keeps (kept X J (in_status ''running'')) (prepare_publication P t (jf_store J @ [''.jobs'', jf_group J]) (Some (jf_path J)) (Some lease))"
    by (rule kept_besides [OF assms(1) besides_prepare [OF _ assms(2)]])
next
  fix w q w' assume k: "kept X J (in_status ''running'') w"
    and run: "prepare_publication P t (jf_store J @ [''.jobs'', jf_group J]) (Some (jf_path J)) (Some lease) w = (Inr q, w')"
  note st = kept_setting(1) [OF assms(1) k]
  have "besides (jf_store J) (jf_group J) (jf_file J) (node_at (files w)) w"
    by (rule confined_self) (use k in \<open>simp add: kept_def\<close>)
  from prepare_result [OF st assms(2) this run [unfolded jf_path_def]] have "prepared_for J t q" .
  with prepared_selector [OF this run] show "prepared_for J t q \<and> json_ok (PDict (pp_selector q))" by blast
qed (rule running_taken)

lemma kept_publish:
  assumes "codec_ok (xe_yaml X)" "frame_ok J" "stage_of (jf_store J) (pn_stage n)" "report_ok t"
  shows "hoare (kept X J (in_status ''running'')) (publish_run X (jf_path J) started base_sha n t) (settled_at X J) (\<lambda>_. kept X J taken)"
  unfolding publish_run_def
proof (rule hoare_bindI [where R = "\<lambda>d w. kept X J (in_status ''running'') w \<and> d = jf_store J @ [''.jobs'', jf_group J]"])
  fix d
  show "hoare (\<lambda>w. kept X J (in_status ''running'') w \<and> d = jf_store J @ [''.jobs'', jf_group J])
     (bindI (prepare_publication (xe_publication X) (pn_stage n) d (Some (jf_path J)) (Some (pn_lease n))) (\<lambda>prepared.
     bindI (apply_publication (xe_publication X) prepared None False True (Some (pn_lease n))) (\<lambda>applied.
     thenI (finalize_publication (xe_publication X) applied)
     (bindI (read_job (xe_yaml X) (xe_hash X) (jf_path J) None) (\<lambda>r.
        if jr_status r \<noteq> PStr ''complete'' then ret r
        else let final = finished_record started base_sha t r in
          thenI (write_job (xe_yaml X) (xe_hash X) (jf_path J) final) (ret final))))))
     (settled_at X J) (\<lambda>_. kept X J taken)"
  proof (rule hoare_pure, simp only:, rule hoare_bindI [OF kept_prepare [OF assms(2,3)]], rule hoare_pure, elim conjE)
    fix q assume q: "prepared_for J (pn_stage n) q" "json_ok (PDict (pp_selector q))"
    show "hoare (kept X J (in_status ''running''))
     (bindI (apply_publication (xe_publication X) q None False True (Some (pn_lease n))) (\<lambda>applied.
     thenI (finalize_publication (xe_publication X) applied)
     (bindI (read_job (xe_yaml X) (xe_hash X) (jf_path J) None) (\<lambda>r.
        if jr_status r \<noteq> PStr ''complete'' then ret r
        else let final = finished_record started base_sha t r in
          thenI (write_job (xe_yaml X) (xe_hash X) (jf_path J) final) (ret final)))))
     (settled_at X J) (\<lambda>_. kept X J taken)"
      by (rule hoare_bindI [OF kept_apply [OF assms(1,2) q(1)]], rule hoare_pure,
          rule hoare_thenI [OF kept_finalize [OF assms(1,2), of "pn_stage n"] kept_finish_record [OF assms(1,2,4)]])
         (use q in simp_all)
  qed
qed (rule hoare_see, use kept_places(2) [OF assms(2)] in blast)

section \<open>When publishing fails\<close>

lemma kept_retain:
  assumes "codec_ok (xe_yaml X)" "frame_ok J"
  shows "hoare (kept X J F) (failed_memory_artifacts X (jf_path J) d old) (\<lambda>v w. kept X J F w \<and> json_ok v) (\<lambda>_. kept X J F)"
proof -
  have rp: "keeps K (read_plain_files d ns)" for K ns
    by (induction ns) (auto intro!: keeps_intros simp del: io_apply bindI_see)
  have ret: "keeps (kept X J F) (retain_failed_stage M (jf_store J @ [''.jobs'', jf_group J]) j d df)" for M j df
    by (rule kept_besides [OF assms(2) besides_retain [OF _ frameD(2) [OF assms(2)]]])
  have last: "hoare (kept X J F) (bindI (read_job (xe_yaml X) (xe_hash X) (jf_path J) None) (\<lambda>r.
     bindI (retain_failed_stage M (jf_store J @ [''.jobs'', jf_group J]) (text_of (js_job_id (jr_spec r))) d df) (\<lambda>artifacts.
       ret (PList (map (PDict \<circ> artifact_to_dict) artifacts))))) (\<lambda>v w. kept X J F w \<and> json_ok v) (\<lambda>_. kept X J F)" for M df
    by (rule hoare_bindI [OF hoare_keeps_to [OF keeps_read_job]], assumption, rule hoare_bindI [OF hoare_keeps [OF ret]], rule hoare_ret_if)
       (auto simp: artifact_to_dict_def list_all_iff)
  show ?thesis
    unfolding failed_memory_artifacts_def
    by (rule hoare_bindI [OF hoare_keeps [OF keeps_bindI [OF keeps_iterdir rp]]],
        rule hoare_bindI [where R = "\<lambda>st w. kept X J F w \<and> st = jf_store J @ [''.jobs'', jf_group J]"],
        rule hoare_see, use kept_places(2) [OF assms(2)] in blast, rule hoare_pure, simp only:, rule last)
qed

lemma facts_of_report:
  "report_ok t \<Longrightarrow> json_ok v \<Longrightarrow> facts_ok (report_facts started base_sha t (PDict [(''failed_artifacts'', v)]))"
  by (simp add: facts_ok_def report_facts_def report_ok_def)

lemma known_facts_ok: "json_ok a \<Longrightarrow> json_ok b \<Longrightarrow> facts_ok (known_facts a b)"
  by (simp add: facts_ok_def known_facts_def)

lemma retained_json:
  assumes "retained_failed_artifacts X p w = (Inr v, w')"
  shows "json_ok v"
  using assms by (auto simp: retained_failed_artifacts_def bindI_Inr_iff artifact_to_dict_def list_all_iff split: if_splits)

lemma keeps_list_artifacts [keeps_intros]: "keeps K (list_artifacts d ns)"
  by (induction ns) (auto intro!: keeps_intros simp del: io_apply bindI_see)

lemma keeps_retained [keeps_intros]: "keeps K (retained_failed_artifacts X p)"
  unfolding retained_failed_artifacts_def
  by (intro keeps_bindI keeps_read_job keeps_see keeps_ite keeps_iterdir keeps_list_artifacts keeps_pure)

lemma kept_publication_failed:
  assumes "codec_ok (xe_yaml X)" "frame_ok J" "report_ok t"
  shows "hoare (kept X J taken) (publication_failed X (jf_path J) started base_sha n t e) (settled_at X J) (\<lambda>_. kept X J taken)"
  unfolding publication_failed_def
proof (rule hoare_bindI [OF kept_read [OF assms(1,2)]])
  fix current
  let ?K = "kept X J (\<lambda>r. r = current \<and> taken current)"
  let ?A = "failed_memory_artifacts X (jf_path J) (mt_directory (pn_stage n)) (pn_files n)"
  have T: "kept X J taken w" if "?K w" for w using that by (rule kept_weaken) simp
  have end': "hoare ?K (let f = report_facts started base_sha t (PDict [(''failed_artifacts'', v)]);
        summary = ''Memory publication failed: '' @ exn_text e in
      if jr_status current = PStr ''failed'' then merge_failed_terminal_metadata X (jf_path J) summary f
      else terminalize_failure X (jf_path J) summary f) (settled_at X J) (\<lambda>_. kept X J taken)" if v: "json_ok v" for v
    unfolding Let_def
    by (intro hoare_ite hoare_pre [OF kept_merge [OF assms(1,2) facts_of_report [OF assms(3) v]]]
        hoare_pre [OF kept_terminalize [OF assms(1,2) facts_of_report [OF assms(3) v]] T])
       (auto elim: kept_weaken)
  have pick: "hoare ?K (if truthy k then ret k else ?A) (\<lambda>v w. ?K w \<and> json_ok v) (\<lambda>_. kept X J taken)" if "json_ok k" for k
    by (intro hoare_ite hoare_ret_if hoare_weaken [OF kept_retain [OF assms(1,2), where F = "\<lambda>r. r = current \<and> taken current"]]) (use that T in auto)
  have look: "hoare ?K (retained_failed_artifacts X (jf_path J)) (\<lambda>v w. ?K w \<and> json_ok v) (\<lambda>_. kept X J taken)"
    by (rule hoare_result [OF keeps_retained]) (use retained_json T in blast)+
  show "hoare ?K (bindI (retained_failed_artifacts X (jf_path J)) (\<lambda>kept.
     bindI (if truthy kept then ret kept else ?A) (\<lambda>artifacts.
     let f = report_facts started base_sha t (PDict [(''failed_artifacts'', artifacts)]);
         summary = ''Memory publication failed: '' @ exn_text e in
     if jr_status current = PStr ''failed'' then merge_failed_terminal_metadata X (jf_path J) summary f
     else terminalize_failure X (jf_path J) summary f))) (settled_at X J) (\<lambda>_. kept X J taken)"
    by (intro hoare_bindI [OF look] hoare_pure hoare_bindI [OF pick] end')
qed

section \<open>The agent\<close>

text \<open>
  Where the execution works besides the store: the directories the specification names are among those of the frame, and
  the memory is one of the store.
\<close>

definition places_ok :: "execution_env \<Rightarrow> job_frame \<Rightarrow> bool" where
  "places_ok X J \<longleftrightarrow>
     (\<forall>q. decision_path (js_trigger_context (jf_spec J)) = Inr q \<longrightarrow>
        (\<exists>d\<in>jf_sides J. below d q \<and> strict_prefix d q \<and> last q \<noteq> [])) \<and>
     (\<forall>c. blueprint_cache_root (js_blueprint (jf_spec J)) = Inr c \<longrightarrow>
        c \<in> jf_sides J \<and> pins_place c (blueprint_cache_ref (js_blueprint (jf_spec J)))) \<and>
     (\<forall>d. path_of_py (js_group_root (jf_spec J)) = Inr d \<longrightarrow> d \<in> jf_sides J) \<and>
     (\<forall>m. spec_memory X (jf_spec J) = Inr m \<longrightarrow> store_root m = jf_store J) \<and> (\<forall>w. xe_date X w \<noteq> ''..'')"

text \<open>The agent leaves the record of its own job alone and puts no symbolic links where the worker writes.\<close>

definition agent_ok :: "execution_env \<Rightarrow> job_frame \<Rightarrow> bool" where
  "agent_ok X J \<longleftrightarrow> (\<forall>nm cfg rq. hoare (kept X J (in_status ''running'')) (xe_run X nm cfg rq)
     (\<lambda>result w. kept X J (in_status ''running'') w \<and> json_ok (rl_duration result)) (\<lambda>_. kept X J (in_status ''running'')))"

lemma kept_project:
  assumes "frame_ok J" "places_ok X J" "jr_spec r = jf_spec J"
  shows "keeps (kept X J F) (project_decision (xe_yaml X) r)"
proof (cases "decision_path (js_trigger_context (jr_spec r))")
  case (Inl e)
  then have "project_decision (xe_yaml X) r w \<in> {(Inr (), w), (Inl e, w)}" for w by (simp add: project_decision_def Let_def)
  then show ?thesis unfolding keeps_def by (metis insertE singletonD snd_conv)
next
  case (Inr q)
  with assms(2,3) obtain d where d: "d \<in> jf_sides J" "below d q" "strict_prefix d q" "last q \<noteq> []" by (auto simp: places_ok_def)
  show ?thesis by (rule kept_side [OF assms(1) d(1)]) (rule project_decision_beside [OF _ d(2-4) Inr])
qed

lemma kept_release:
  assumes "frame_ok J" "places_ok X J" "jr_spec r = jf_spec J"
  shows "keeps (kept X J F) (release_job_pin (xe_cache X) r)"
proof (cases "blueprint_cache_root (js_blueprint (jr_spec r))")
  case (Inl e)
  then have "release_job_pin (xe_cache X) r = raise e" by (simp add: release_job_pin_def)
  then show ?thesis by (simp only: keeps_pure)
next
  case (Inr c)
  with assms(2,3) have c: "c \<in> jf_sides J" "pins_place c (blueprint_cache_ref (js_blueprint (jr_spec r)))" by (auto simp: places_ok_def)
  show ?thesis
  proof (rule kept_side [OF assms(1) c(1)])
    fix w res w' assume w: "clean c (files w)" and run: "release_job_pin (xe_cache X) r w = (res, w')"
    obtain q v where rel: "release_pin (xe_cache X) c (blueprint_cache_ref (js_blueprint (jr_spec r))) (js_job_id (jr_spec r)) w = (q, v)"
      by fastforce
    from run rel Inr have "w' = v" by (auto simp: release_job_pin_def bindI_apply thenI_apply split: sum.splits)
    with release_beside [OF w c(2) rel] show "beside_same c w w'" by simp
  qed
qed

text \<open>Directories and files below a side.\<close>

lemma kept_side_ops:
  assumes "frame_ok J" "e \<in> jf_sides J" "cs \<noteq> []" "''..'' \<notin> set cs"
  shows "keeps (kept X J F) (mkdir_p (e @ cs))" "keeps (kept X J F) (write_text (e @ cs) t)"
proof -
  let ?S = "{q. prefix e q \<or> prefix q e}"
  have same: "beside_same e w w'"
    if "clean e (files w)" "m w = (r, w')" "keeps (confined e ?S (node_at (files w))) m" for m :: "unit fio" and w r w'
    using keepsD [OF that(3) confined_self [OF that(1)] that(2)] by (simp add: confined_def beside_same_def)
  have b: "below e (e @ cs)" if "clean e (files w)" for w :: world using that assms(4) by (auto simp: below_def clean_def)
  have S: "q \<in> ?S" if "prefix q (e @ cs)" for q using prefix_below_cases [OF that] by auto
  show "keeps (kept X J F) (mkdir_p (e @ cs))"
    by (rule kept_side [OF assms(1,2)], rule same, assumption+) (auto intro!: keeps_mkdir_path b dest: S)
  show "keeps (kept X J F) (write_text (e @ cs) t)"
    unfolding write_text_def
    by (rule kept_side [OF assms(1,2)], rule same, assumption+) (auto intro!: keeps_thenI keeps_write_bytes b)
qed

definition prepared_ok :: "execution_env \<Rightarrow> job_frame \<Rightarrow> prepared_run \<Rightarrow> bool" where
  "prepared_ok X J n \<longleftrightarrow> stage_of (jf_store J) (pn_stage n) \<and> jx_group_root (pn_context n) \<in> jf_sides J"

lemma kept_run_agent:
  assumes "frame_ok J" "agent_ok X J" "prepared_ok X J n" "date \<noteq> ''..''"
  shows "hoare (kept X J (in_status ''running'')) (run_agent X date base_sha (jf_spec J) n)
    (\<lambda>t w. kept X J (in_status ''running'') w \<and> report_ok t) (\<lambda>_. kept X J taken)"
proof -
  let ?R = "kept X J (in_status ''running'')"
  let ?g = "jx_group_root (pn_context n)"
  have g: "?g \<in> jf_sides J" using assms(3) by (simp add: prepared_ok_def)
  have dir: "hoare ?R (mkdir_p (?g @ [''logs'', date])) (\<lambda>_. ?R) (\<lambda>_. kept X J taken)"
    by (rule hoare_keeps_to [OF kept_side_ops(1) [OF assms(1) g]]) (use assms(4) running_taken in auto)
  have dots: "x @ ''.prompt'' \<noteq> ''..''" "x @ ''.out'' \<noteq> ''..''" "x @ ''.err'' \<noteq> ''..''" for x :: string by (cases x; auto)+
  have wr: "hoare ?R (write_text ((?g @ [''logs'', date]) @ [c]) t) (\<lambda>_. ?R) (\<lambda>_. kept X J taken)" if "c \<noteq> ''..''" for c t
    using hoare_keeps_to [OF kept_side_ops(2) [OF assms(1) g, of "[''logs'', date, c]"] running_taken] that assms(4) by simp
  have run: "hoare ?R (xe_run X nm cfg rq) (\<lambda>x w. ?R w \<and> json_ok (rl_duration x)) (\<lambda>_. kept X J taken)" for nm cfg rq
    using assms(2) unfolding agent_ok_def by (blast intro: hoare_weaken running_taken)
  have change: "json_ok (change_dict c)" for c by (simp add: change_dict_def)
  show ?thesis
    unfolding run_agent_def Let_def
    by (intro hoare_thenI [OF dir] hoare_thenI [OF wr] hoare_bindI [OF run] hoare_pure hoare_thenI [OF hoare_whenI [OF wr]] hoare_gets)
       (auto simp: report_ok_def change list_all_iff dots)
qed

section \<open>The stages\<close>

definition ending_record :: "ending \<Rightarrow> job_record" where
  "ending_record e = (case e of Cancelled_job r \<Rightarrow> r | Final_job r \<Rightarrow> r)"

definition stage_post :: "execution_env \<Rightarrow> job_frame \<Rightarrow> ('a \<Rightarrow> world \<Rightarrow> bool) \<Rightarrow> 'a stage_result \<Rightarrow> world \<Rightarrow> bool" where
  "stage_post X J Q s w = (case s of Ended e \<Rightarrow> settled_at X J (ending_record e) w | Going_on x \<Rightarrow> Q x w)"

lemma hoare_ended:
  assumes "hoare P m (settled_at X J) E" "k = Cancelled_job \<or> k = Final_job"
  shows "hoare P (ended k m) (stage_post X J Q) E"
  unfolding ended_def
  by (rule hoare_bindI [OF assms(1)], rule hoare_ret_if) (use assms(2) in \<open>auto simp: stage_post_def ending_record_def\<close>)

lemma kept_mark_cancelled:
  assumes "codec_ok (xe_yaml X)" "frame_ok J"
  shows "hoare (kept X J taken) (mark_cancelled_if_waiting X (jf_path J)) (settled_at X J) (\<lambda>_. kept X J taken)"
  unfolding mark_cancelled_if_waiting_def
  by (intro hoare_bindI [OF kept_read [OF assms]] hoare_ite hoare_ret_if hoare_raise_if)
     (auto simp: settled_at_def terminal_def elim: kept_weaken)

lemma kept_guarded:
  assumes "codec_ok (xe_yaml X)" "frame_ok J" "facts_ok f"
    and "hoare P m (stage_post X J Q) (\<lambda>_. kept X J taken)"
  shows "hoare P (guarded X (jf_path J) f m) (stage_post X J Q) (\<lambda>_. kept X J taken)"
  unfolding guarded_def
  by (rule hoare_tryI [OF hoare_try_only [OF assms(4)]])
     (auto intro: hoare_ended kept_mark_cancelled [OF assms(1,2)] kept_terminalize [OF assms(1-3)])

lemma waiting_taken: "kept X J (in_status ''waiting_for_memory'') w \<Longrightarrow> kept X J taken w"
  by (erule kept_weaken) (simp add: taken_def)

lemma kept_finish_run:
  assumes "codec_ok (xe_yaml X)" "frame_ok J" "agent_ok X J" "prepared_ok X J n" "date \<noteq> ''..''"
  shows "hoare (kept X J (in_status ''running'')) (finish_run X (jf_path J) started date base_sha (jf_spec J) n)
    (stage_post X J (\<lambda>_ _. False)) (\<lambda>_. kept X J taken)"
  unfolding finish_run_def
proof (rule hoare_bindI [OF kept_run_agent [OF assms(2-5)]], rule hoare_pure)
  fix t assume t: "report_ok t"
  let ?R = "kept X J (in_status ''running'')"
  have st: "stage_of (jf_store J) (pn_stage n)" using assms(4) by (simp add: prepared_ok_def)
  have fail: "hoare ?R (bindI (failed_memory_artifacts X (jf_path J) (mt_directory (pn_stage n)) (pn_files n)) (\<lambda>artifacts.
      ended Final_job (terminalize_failure X (jf_path J) summary (report_facts started base_sha t (PDict [(''failed_artifacts'', artifacts)])))))
      (stage_post X J (\<lambda>_ _. False)) (\<lambda>_. kept X J taken)" for summary
  proof (rule hoare_bindI [where R = "\<lambda>v w. ?R w \<and> json_ok v"])
    show "hoare ?R (failed_memory_artifacts X (jf_path J) (mt_directory (pn_stage n)) (pn_files n)) (\<lambda>v w. ?R w \<and> json_ok v) (\<lambda>_. kept X J taken)"
      by (rule hoare_weaken [OF kept_retain [OF assms(1,2), where F = "in_status ''running''"]]) (auto intro: running_taken)
  qed (intro hoare_pure hoare_ended hoare_pre [OF kept_terminalize [OF assms(1,2) facts_of_report [OF t]] running_taken], simp_all)
  have succeed: "hoare ?R (ended Final_job (try_only [CMemoryPublicationError] (publish_run X (jf_path J) started base_sha n t)
      (publication_failed X (jf_path J) started base_sha n t))) (stage_post X J (\<lambda>_ _. False)) (\<lambda>_. kept X J taken)"
    by (rule hoare_ended, rule hoare_try_only [OF kept_publish [OF assms(1,2) st t] kept_publication_failed [OF assms(1,2) t]]) auto
  show "hoare ?R (if rl_exit_code (ra_result t) \<noteq> 0
       then bindI (failed_memory_artifacts X (jf_path J) (mt_directory (pn_stage n)) (pn_files n)) (\<lambda>artifacts.
         ended Final_job (terminalize_failure X (jf_path J) (exit_summary (rp_timeout (js_runtime_policy (jf_spec J))) (rl_exit_code (ra_result t)))
           (report_facts started base_sha t (PDict [(''failed_artifacts'', artifacts)]))))
       else ended Final_job (try_only [CMemoryPublicationError] (publish_run X (jf_path J) started base_sha n t)
              (publication_failed X (jf_path J) started base_sha n t))) (stage_post X J (\<lambda>_ _. False)) (\<lambda>_. kept X J taken)"
    by (intro hoare_ite fail succeed)
qed

lemma kept_start_run:
  assumes "codec_ok (xe_yaml X)" "frame_ok J" "places_ok X J"
  shows "hoare (kept X J (in_status ''waiting_for_memory'')) (start_run X (jf_path J) started c)
    (stage_post X J (\<lambda>_. kept X J (in_status ''running''))) (\<lambda>_. kept X J taken)"
proof -
  let ?c = "[(''worker_pid'', PInt (xe_pid X)), (''started_at'', PStr started)]"
  have tr: "hoare (kept X J (in_status ''waiting_for_memory''))
      (transition_job (xe_yaml X) (xe_hash X) (jf_path J) ''waiting_for_memory'' ''running'' ?c)
      (\<lambda>x. kept X J (\<lambda>r. r = x \<and> in_status ''running'' x)) (\<lambda>_. kept X J taken)"
    by (rule hoare_weaken [OF kept_transition [OF assms(1,2), where F = "in_status ''waiting_for_memory''"]])
       (auto elim!: kept_weaken simp: taken_def)
  have pr: "hoare (kept X J (\<lambda>r. r = x \<and> in_status ''running'' x)) (tryI (project_decision (xe_yaml X) x) (\<lambda>_. ret ()))
      (\<lambda>_. kept X J (in_status ''running'')) (\<lambda>_. kept X J taken)" for x
  proof (rule hoare_kept_fact, elim conjE)
    fix r assume "jr_spec r = jf_spec J" "r = x"
    then have k: "keeps (kept X J F) (tryI (project_decision (xe_yaml X) x) (\<lambda>_. ret ()))" for F
      by (intro keeps_tryI kept_project [OF assms(2,3)] keeps_pure) simp
    show "hoare (kept X J (\<lambda>r. r = x \<and> in_status ''running'' x)) (tryI (project_decision (xe_yaml X) x) (\<lambda>_. ret ()))
      (\<lambda>_. kept X J (in_status ''running'')) (\<lambda>_. kept X J taken)"
      by (rule hoare_pre [OF hoare_keeps_to [OF k running_taken]]) (auto elim: kept_weaken)
  qed
  show ?thesis
    unfolding start_run_def
    by (intro hoare_bindI [OF tr] hoare_thenI [OF pr] hoare_gets) (simp add: stage_post_def)
qed

lemma keeps_is_cancelled [keeps_intros]: "keeps K (is_cancelled X store a)"
  unfolding is_cancelled_def by (intro keeps_bindI keeps_authority_read keeps_pure)

lemma keeps_check_cancelled [keeps_intros]: "keeps K c \<Longrightarrow> keeps K (check_cancelled p c)"
  unfolding check_cancelled_def by (intro keeps_bindI keeps_pure)

text \<open>A memory of the store whose lock is held is where the store keeps it.\<close>

lemma kept_acquire:
  assumes "frame_ok J" "store_root m = jf_store J"
  shows "hoare (kept X J F) (acquire_memory_lock m (is_cancelled X store a)) (\<lambda>_ w. kept X J F w \<and> memory_of (jf_store J) m) (\<lambda>_. kept X J F)"
  unfolding acquire_memory_lock_def
proof (rule hoare_thenI [where R = "\<lambda>w. kept X J F w \<and> memory_of (jf_store J) m"])
  show "hoare (kept X J F) (liftR (validate_resolved_memory m None)) (\<lambda>_ w. kept X J F w \<and> memory_of (jf_store J) m) (\<lambda>_. kept X J F)"
    using memory_ofI [of m] assms(2) by (intro hoare_liftR) auto
next
  let ?b = "bindI (memory_lock_path m) (\<lambda>p.
      thenI (mkdir_p (butlast p))
      (thenI (open_append p)
      (thenI (check_cancelled p (is_cancelled X store a))
      (bindI (gets_st (\<lambda>w. resolve (files w) p \<in> set (busy w))) (\<lambda>held.
       thenI (whenI held (check_cancelled p (is_cancelled X store a)))
         (ret \<lparr>ll_hash = rm_hash m, ll_lock_path = p\<rparr>))))))"
  show "hoare (\<lambda>w. kept X J F w \<and> memory_of (jf_store J) m) ?b (\<lambda>_ w. kept X J F w \<and> memory_of (jf_store J) m) (\<lambda>_. kept X J F)"
  proof (rule hoare_pure)
    assume m: "memory_of (jf_store J) m"
    have c: "rm_hash m @ ''.lock'' \<noteq> ''..''" using memory_ofD(2) [OF m] by (cases "rm_hash m") auto
    have "keeps (kept X J F) ?b"
    proof (rule keeps_bindI_res [where R = "\<lambda>p. p = jf_store J @ [''.locks'', rm_hash m @ ''.lock'']"])
      show "keeps (kept X J F) (memory_lock_path m)" by (rule kept_besides [OF assms(1) besides_lock_path(1) [OF _ m]])
      show "p = jf_store J @ [''.locks'', rm_hash m @ ''.lock'']" if "memory_lock_path m w = (Inr p, w')" for w p w'
        using memory_lock_path_result [OF that] assms(2) by simp
      fix p assume p: "p = jf_store J @ [''.locks'', rm_hash m @ ''.lock'']"
      have l: "keeps (kept X J F) (mkdir_p (butlast p))" "keeps (kept X J F) (open_append p)"
        unfolding p by (rule kept_besides [OF assms(1) besides_lock_file(1)] kept_besides [OF assms(1) besides_lock_file(2)]; use c in simp)+
      show "keeps (kept X J F) (thenI (mkdir_p (butlast p))
        (thenI (open_append p)
        (thenI (check_cancelled p (is_cancelled X store a))
        (bindI (gets_st (\<lambda>w. resolve (files w) p \<in> set (busy w))) (\<lambda>held.
         thenI (whenI held (check_cancelled p (is_cancelled X store a)))
           (ret \<lparr>ll_hash = rm_hash m, ll_lock_path = p\<rparr>))))))"
        by (intro keeps_thenI keeps_bindI keeps_whenI keeps_check_cancelled keeps_is_cancelled keeps_pure l)
    qed
    then show "hoare (kept X J F) ?b (\<lambda>_ w. kept X J F w \<and> memory_of (jf_store J) m) (\<lambda>_. kept X J F)"
      by (rule hoare_weaken [OF hoare_keeps]) (use m in auto)
  qed
qed

lemma launch_dir_frame: "launch_dir (jf_path J) = jf_store J @ [''.jobs'', jf_group J] @ [path_stem (jf_file J), ''launch'']"
  by (simp add: launch_dir_def jf_path_def job_record_at_def butlast_append)

lemma kept_equip:
  assumes "frame_ok J" "memory_of (jf_store J) m" "jx_group_root c \<in> jf_sides J"
  shows "hoare (kept X J (in_status ''waiting_for_memory''))
    (bindI (ensure_memory_locked M m lease) (\<lambda>snapshot.
     bindI (stage_memory_locked M m j lease) (\<lambda>stage.
     bindI (create_launch_view key artifact (launch_dir (jf_path J))) (\<lambda>view.
       ret (Going_on \<lparr>pn_context = c, pn_lease = lease, pn_stage = stage, pn_files = mn_files snapshot, pn_launch_view = view\<rparr>)))))
    (stage_post X J (\<lambda>n w. kept X J (in_status ''waiting_for_memory'') w \<and> prepared_ok X J n)) (\<lambda>_. kept X J taken)"
proof -
  let ?W = "kept X J (in_status ''waiting_for_memory'')"
  have e: "hoare ?W (ensure_memory_locked M m lease) (\<lambda>_. ?W) (\<lambda>_. kept X J taken)"
    by (rule hoare_keeps_to [OF kept_besides [OF assms(1) besides_ensure_memory [OF _ assms(2)]] waiting_taken])
  have t: "hoare ?W (stage_memory_locked M m j lease) (\<lambda>t w. ?W w \<and> stage_of (jf_store J) t) (\<lambda>_. kept X J taken)"
    by (rule hoare_result [OF kept_besides [OF assms(1) besides_stage_memory [OF _ assms(2)]]])
       (use stage_memory_result [OF assms(2)] waiting_taken in blast)+
  have v: "hoare ?W (create_launch_view key artifact (launch_dir (jf_path J))) (\<lambda>_. ?W) (\<lambda>_. kept X J taken)"
    unfolding launch_dir_frame
    by (rule hoare_keeps_to [OF kept_besides [OF assms(1) besides_launch_view [OF _ frameD(3) [OF assms(1)]]] waiting_taken])
  show ?thesis
    by (intro hoare_bindI [OF e] hoare_bindI [OF t] hoare_pure hoare_bindI [OF v] hoare_ret_if)
       (simp add: stage_post_def prepared_ok_def assms(3))
qed

lemma kept_prepare_run:
  assumes "codec_ok (xe_yaml X)" "frame_ok J" "places_ok X J"
  shows "hoare (kept X J (in_status ''waiting_for_memory'')) (prepare_run X store a (jf_path J) (jf_spec J))
    (stage_post X J (\<lambda>n w. kept X J (in_status ''waiting_for_memory'') w \<and> prepared_ok X J n)) (\<lambda>_. kept X J taken)"
proof -
  let ?W = "kept X J (in_status ''waiting_for_memory'')" and ?s = "jf_spec J"
  have ctx: "hoare ?W (see (\<lambda>fs. resolve_job_context X fs ?s))
     (\<lambda>x w. ?W w \<and> (\<forall>c. x = Inr c \<longrightarrow> jx_group_root c \<in> jf_sides J)) (\<lambda>_. kept X J taken)"
  proof (rule hoare_see, intro conjI allI impI)
    fix w c assume k: "?W w" and c: "resolve_job_context X (files w) ?s = Inr c"
    from c obtain d where d: "path_of_py (js_group_root ?s) = Inr d" "jx_group_root c = resolve (files w) d"
      by (auto simp: resolve_job_context_def bindR_Inr_iff)
    with assms(3) have e: "d \<in> jf_sides J" by (simp add: places_ok_def)
    with k have cl: "clean d (files w)" by (simp add: kept_def)
    then have "below d d" by (simp add: below_def clean_def)
    with resolve_clean [OF cl] d e show "jx_group_root c \<in> jf_sides J" by simp
  qed
  have wait: "hoare ?W (acquire_memory_lock m (is_cancelled X store a)) (\<lambda>_ w. ?W w \<and> memory_of (jf_store J) m) (\<lambda>_. kept X J taken)"
    if "spec_memory X ?s = Inr m" for m
    by (rule hoare_weaken [OF kept_acquire [OF assms(2), where F = "in_status ''waiting_for_memory''"]])
       (use that assms(3) waiting_taken in \<open>auto simp: places_ok_def\<close>)
  have stop: "hoare ?W (ended Cancelled_job (mark_cancelled_if_waiting X (jf_path J)))
     (stage_post X J (\<lambda>n w. ?W w \<and> prepared_ok X J n)) (\<lambda>_. kept X J taken)"
    by (rule hoare_ended [OF hoare_pre [OF kept_mark_cancelled [OF assms(1,2)] waiting_taken]]) simp_all
  have lift: "hoare ?W (liftR r) (\<lambda>x w. ?W w \<and> r = Inr x) (\<lambda>_. kept X J taken)" for r :: "'b res"
    by (rule hoare_liftR) (auto intro: waiting_taken)
  show ?thesis
    unfolding prepare_run_def
    by (intro hoare_thenI [OF hoare_keeps_to [OF keeps_authority_read waiting_taken]] hoare_bindI [OF ctx] hoare_pure
        hoare_bindI [OF lift] hoare_bindI [OF wait] hoare_bindI [OF hoare_keeps_to [OF keeps_is_cancelled waiting_taken]]
        hoare_ite stop kept_equip [OF assms(2)]) auto
qed

section \<open>The whole execution\<close>

lemma kept_run_stages:
  assumes "codec_ok (xe_yaml X)" "frame_ok J" "places_ok X J" "agent_ok X J"
  shows "hoare (kept X J (in_status ''waiting_for_memory'')) (run_stages X store a (jf_path J) (jf_spec J))
    (\<lambda>e. settled_at X J (ending_record e)) (\<lambda>_. kept X J taken)"
proof -
  let ?Q = "\<lambda>e. settled_at X J (ending_record e)" and ?E = "\<lambda>_. kept X J taken"
  let ?three = "\<lambda>n started date base_sha. bindI (guarded X (jf_path J) (known_facts (PStr started) (opt_py base_sha))
      (finish_run X (jf_path J) started date base_sha (jf_spec J) n))
    (\<lambda>three. continue_with three (\<lambda>_. raise (Exn CAssertionError ''unreachable'')))"
  let ?two = "\<lambda>n (started, date). bindI (guarded X (jf_path J) (known_facts (PStr started) PNone) (start_run X (jf_path J) started (pn_context n)))
    (\<lambda>two. continue_with two (?three n started date))"
  have go: "hoare (stage_post X J P y) (continue_with y k) ?Q ?E" if "\<And>x. hoare (P x) (k x) ?Q ?E"
    for P :: "'c \<Rightarrow> world \<Rightarrow> bool" and y k
    using that by (cases y) (auto simp: stage_post_def hoare_def)
  have three: "hoare (kept X J (in_status ''running'')) (?three n started date base_sha) ?Q ?E"
    if "prepared_ok X J n" "date \<noteq> ''..''" for n started date base_sha
    by (rule hoare_bindI [OF kept_guarded [OF assms(1,2) known_facts_ok kept_finish_run [OF assms(1,2,4) that]] go])
       (simp_all add: hoare_def)
  have two: "hoare (kept X J (in_status ''waiting_for_memory'')) (?two n (started, date)) ?Q ?E"
    if "prepared_ok X J n" "date \<noteq> ''..''" for n started date
    unfolding prod.case
    by (rule hoare_bindI [OF kept_guarded [OF assms(1,2) known_facts_ok kept_start_run [OF assms(1-3)]] go [OF three [OF that]]]) simp_all
  have one: "hoare (\<lambda>w. kept X J (in_status ''waiting_for_memory'') w \<and> prepared_ok X J n)
      (bindI (gets_st (\<lambda>w. (pe_clock (xe_publication X) w, xe_date X w))) (?two n)) ?Q ?E" for n
  proof (rule hoare_pure)
    assume n: "prepared_ok X J n"
    show "hoare (kept X J (in_status ''waiting_for_memory''))
      (bindI (gets_st (\<lambda>w. (pe_clock (xe_publication X) w, xe_date X w))) (?two n)) ?Q ?E"
    proof (rule hoare_bindI [where R = "\<lambda>x w. kept X J (in_status ''waiting_for_memory'') w \<and> snd x \<noteq> ''..''"])
      fix x :: "string \<times> string"
      show "hoare (\<lambda>w. kept X J (in_status ''waiting_for_memory'') w \<and> snd x \<noteq> ''..'') (?two n x) ?Q ?E"
        by (rule hoare_pure, cases x, simp only: snd_conv, rule two [OF n])
    qed (rule hoare_gets, use assms(3) in \<open>simp add: places_ok_def\<close>)
  qed
  show ?thesis
    unfolding run_stages_def
    by (rule hoare_bindI [OF kept_guarded [OF assms(1,2) known_facts_ok kept_prepare_run [OF assms(1-3)]] go [OF one]]) simp_all
qed

lemma kept_execution:
  assumes "codec_ok (xe_yaml X)" "frame_ok J" "places_ok X J" "agent_ok X J" "jr_spec r = jf_spec J"
  shows "hoare (kept X J (in_status ''waiting_for_memory''))
    (bindI (finallyI (run_stages X store a (jf_path J) (jr_spec r)) (tryI (release_job_pin (xe_cache X) r) (\<lambda>_. ret ()))) (\<lambda>e. case e of
         Cancelled_job final \<Rightarrow> ret final
       | Final_job final \<Rightarrow> thenI (tryI (project_decision (xe_yaml X) final) (\<lambda>_. ret ())) (ret final)))
    (settled_at X J) (\<lambda>_. kept X J taken)"
proof (rule hoare_bindI [where R = "\<lambda>e. settled_at X J (ending_record e)"])
  have pin: "keeps (kept X J F) (tryI (release_job_pin (xe_cache X) r) (\<lambda>_. ret ()))" for F
    by (intro keeps_tryI kept_release [OF assms(2,3,5)] keeps_pure)
  have pin': "keeps (settled_at X J x) (tryI (release_job_pin (xe_cache X) r) (\<lambda>_. ret ()))" for x
    unfolding settled_at_def by (rule pin)
  show "hoare (kept X J (in_status ''waiting_for_memory''))
     (finallyI (run_stages X store a (jf_path J) (jr_spec r)) (tryI (release_job_pin (xe_cache X) r) (\<lambda>_. ret ())))
     (\<lambda>e. settled_at X J (ending_record e)) (\<lambda>_. kept X J taken)"
    unfolding assms(5)
    by (rule hoare_finallyI [OF kept_run_stages [OF assms(1-4)] hoare_keeps_to [OF pin' settled_taken] hoare_keeps [OF pin]]) simp_all
next
  fix e
  show "hoare (settled_at X J (ending_record e)) (case e of
         Cancelled_job final \<Rightarrow> ret final
       | Final_job final \<Rightarrow> thenI (tryI (project_decision (xe_yaml X) final) (\<lambda>_. ret ())) (ret final)) (settled_at X J) (\<lambda>_. kept X J taken)"
  proof (cases e)
    case (Final_job x)
    have "hoare (settled_at X J x) (thenI (tryI (project_decision (xe_yaml X) x) (\<lambda>_. ret ())) (ret x)) (settled_at X J) (\<lambda>_. kept X J taken)"
      unfolding settled_at_def
    proof (rule hoare_kept_fact, elim conjE)
      fix y assume "jr_spec y = jf_spec J" "y = x"
      then have k: "keeps (settled_at X J x) (tryI (project_decision (xe_yaml X) x) (\<lambda>_. ret ()))"
        unfolding settled_at_def by (intro keeps_tryI kept_project [OF assms(2,3)] keeps_pure) simp
      from hoare_thenI [OF hoare_keeps_to [OF k settled_taken] hoare_ret_if [of "settled_at X J x" "settled_at X J"]]
      show "hoare (kept X J (\<lambda>r. r = x \<and> terminal r)) (thenI (tryI (project_decision (xe_yaml X) x) (\<lambda>_. ret ())) (ret x))
        (\<lambda>x. kept X J (\<lambda>r. r = x \<and> terminal r)) (\<lambda>_. kept X J taken)"
        unfolding settled_at_def by simp
    qed
    with Final_job show ?thesis by (simp add: ending_record_def)
  qed (simp add: ending_record_def hoare_ret_if)
qed

text \<open>
  C11 - A job that is executed ends, and its record tells. The worker returns only for a job that was queued, and then the record
  it returns is the one that is stored and its status is final. Whatever raises, fails or dies, in the worker, in the
  publication of the memory or in its rollback, the store holds a valid record of the same specification: the old
  one or one that has left the queue, so that no second worker can take the job. This holds for every agent that
  leaves the record of its own job alone.
\<close>

theorem executed_job_ends:
  assumes "codec_ok (xe_yaml X)" "frame_ok J" "places_ok X J" "agent_ok X J"
    and "authority_path (files w) a = jf_path J" "kept X J (\<lambda>x. x = r) w" "execute_job X a w = (res, w')"
  shows "kept X J (\<lambda>x. x = r \<or> taken x) w' \<and> (\<forall>x. res = Inr x \<longrightarrow> jr_status r = PStr ''queued'' \<and> settled_at X J x w')"
proof -
  from execute_job_start [OF assms(7)] show ?thesis
  proof (elim disjE exE conjE)
    fix e assume "res = Inl e" "w' = w"
    with assms(6) show ?thesis by (auto elim: kept_weaken)
  next
    fix store q v
    assume c: "claim_job X (authority_path (files w) a) w = (q, v)"
      and err: "\<forall>e. q = Inl e \<longrightarrow> res = Inl e \<and> w' = v"
      and ok: "\<forall>r. q = Inr r \<longrightarrow>
         bindI (finallyI (run_stages X store a (authority_path (files w) a) (jr_spec r)) (tryI (release_job_pin (xe_cache X) r) (\<lambda>_. ret ())))
           (\<lambda>e. case e of
              Cancelled_job final \<Rightarrow> ret final
            | Final_job final \<Rightarrow> thenI (tryI (project_decision (xe_yaml X) final) (\<lambda>_. ret ())) (ret final)) v = (res, w')"
    note claim = kept_transition [OF assms(1,2), where F = "\<lambda>x. x = r"]
    show ?thesis
    proof (cases q)
      case (Inl e)
      from hoareD_Inl [OF claim assms(6) c [unfolded claim_job_def assms(5) Inl]] err Inl
      show ?thesis by (auto simp: taken_def elim!: kept_weaken)
    next
      case (Inr x)
      from hoareD_Inr [OF claim assms(6) c [unfolded claim_job_def assms(5) Inr]]
      have x: "kept X J (\<lambda>r. r = x \<and> in_status ''waiting_for_memory'' x) v" by simp
      then have "jr_spec x = jf_spec J" "kept X J (in_status ''waiting_for_memory'') v" by (auto simp: kept_def)
      note E = kept_execution [OF assms(1-4) this(1)] and run = ok [rule_format, OF Inr, unfolded assms(5)]
      from assms(6) have h: "holds (xe_yaml X) (xe_hash X) (jf_path J) r (node_at (files w))" by (auto simp: kept_def)
      from claim_outcome(4) [OF assms(1) kept_setting(2) [OF assms(2,6)] h c [unfolded assms(5) Inr]]
      have q: "jr_status r = PStr ''queued''" by simp
      show ?thesis
      proof (cases res)
        case (Inl e)
        from hoareD_Inl [OF E \<open>kept X J (in_status ''waiting_for_memory'') v\<close> run [unfolded Inl]] Inl
        show ?thesis by (auto elim: kept_weaken)
      next
        case (Inr y)
        from hoareD_Inr [OF E \<open>kept X J (in_status ''waiting_for_memory'') v\<close> run [unfolded Inr]]
        have "settled_at X J y w'" .
        with settled_taken [OF this] Inr q show ?thesis by (auto elim: kept_weaken)
      qed
    qed
  qed
qed

definition demo_frame :: job_frame where
  "demo_frame = \<lparr>jf_store = [''m''], jf_group = ''g'', jf_file = ''j1.yaml'', jf_sides = {[''c''], [''w'', ''g'']}, jf_spec = demo_execution_spec\<rparr>"

lemma demo_frame_path: "jf_path demo_frame = [''m'', ''.jobs'', ''g'', ''j1.yaml'']"
  by (simp add: demo_frame_def jf_path_def job_record_at_def)

lemma demo_frame_ok: "frame_ok demo_frame" "places_ok demo_execution demo_frame" "agent_ok demo_execution demo_frame"
proof -
  have "path_stem ''j1.yaml'' = ''j1''" by code_simp
  then show "frame_ok demo_frame" by (simp add: frame_ok_def demo_frame_def apart_def)
  have d: "decision_path (js_trigger_context demo_execution_spec) = Inl (type_error ''indices must be integers'')"
    by (simp add: demo_execution_spec_def demo_launch_spec_def demo_spec_def decision_path_def)
  have b: "blueprint_cache_root (js_blueprint demo_execution_spec) = Inr [''c'']"
    "blueprint_cache_ref (js_blueprint demo_execution_spec) = \<lparr>cf_integration = ''script'', cf_projector_version = ''v1'', cf_source_digest = ''d''\<rparr>"
    by code_simp+
  have g: "path_of_py (js_group_root demo_execution_spec) = Inr [''w'', ''g'']" by code_simp
  have p: "to_path ''/m/h'' = [''m'', ''h'']" by code_simp
  have m: "store_root m = [''m'']" if "spec_memory demo_execution demo_execution_spec = Inr m" for m
    using that by (auto simp: spec_memory_def demo_execution_spec_def demo_execution_def path_of_py_def p bindR_Inr_iff store_root_def)
  show "places_ok demo_execution demo_frame"
    using m by (simp add: places_ok_def demo_frame_def d b g pins_place_def pins_dir_def cache_key_def) (simp add: demo_execution_def)
  show "agent_ok demo_execution demo_frame"
    by (simp add: agent_ok_def demo_execution_def hoare_def)
qed

lemma executed_job_ends_witness:
  "\<exists>res w'. execute_job demo_execution demo_execution_ref (demo_execution_world ''queued'') = (res, w') \<and>
     kept demo_execution demo_frame (\<lambda>x. x = demo_execution_record ''queued'' \<or> taken x) w'"
proof -
  let ?w = "demo_execution_world ''queued''" and ?r = "demo_execution_record ''queued''"
  obtain res w' where run: "execute_job demo_execution demo_execution_ref ?w = (res, w')" by fastforce
  have c: "codec_ok (xe_yaml demo_execution)" by (simp add: demo_execution_codec codec_ok_json)
  have "holds json_codec id [''m'', ''.jobs'', ''g'', ''j1.yaml''] ?r (node_at (files ?w))"
    by (rule demo_execution_holds) (simp add: valid_statuses_def)
  moreover have "jr_spec ?r = demo_execution_spec" by (simp add: demo_execution_record_def new_record_def)
  ultimately have k: "kept demo_execution demo_frame (\<lambda>x. x = ?r) ?w"
    using demo_execution_clean [of "''queued''"]
    by (auto simp: kept_def demo_frame_path demo_execution_codec) (auto simp: demo_frame_def)
  from executed_job_ends [OF c demo_frame_ok _ k run] run
  show ?thesis by (auto simp: demo_frame_path demo_execution_path)
qed

end
